(* ===== verification/Go_Prelude.thy ===== *)
theory Go_Prelude
  imports
    Main
    "HOL-Library.Product_Lexorder"
    "HOL-Library.List_Lexorder"
    "HOL-Library.Char_ord"
    "HOL-Library.Sublist"
begin

text \<open>
  Prelude of the library: what the components share.
  \<^item> results: a Go function that returns \<open>(T, error)\<close> returns \<open>'e + 'a\<close>, with the error on the
    left; \<open>bindr\<close> is the early return on an error;
  \<^item> time: a Go \<open>time.Time\<close> is its number of nanoseconds since the epoch, a column holds seconds;
  \<^item> tables: a table is the list of its rows in insertion order, and the four statement forms the
    sources use (\<open>SELECT ... LIMIT 1\<close>, \<open>UPDATE\<close>, \<open>DELETE\<close>, \<open>MAX\<close>) are list functions;
  \<^item> text: the functions of the packages strings and encoding/hex that the sources call, on byte
    strings.
  The collections \<open>sql\<close> and \<open>result_simps\<close> carry the proofs of the component theories.
\<close>

named_theorems sql \<open>rewriting of table operations\<close>
named_theorems result_simps \<open>rewriting of results\<close>

subsection \<open>Results\<close>

abbreviation Err :: "'e \<Rightarrow> 'e + 'a" where
  "Err \<equiv> Inl"

abbreviation Ok :: "'a \<Rightarrow> 'e + 'a" where
  "Ok \<equiv> Inr"

definition bindr :: "'e + 'a \<Rightarrow> ('a \<Rightarrow> 'e + 'b) \<Rightarrow> 'e + 'b" where
  "bindr r f = (case r of Inl e \<Rightarrow> Inl e | Inr x \<Rightarrow> f x)"

lemma bindr_simps [simp, result_simps]:
  "bindr (Inl e) f = Inl e"
  "bindr (Inr x) f = f x"
  by (simp_all add: bindr_def)

lemma bindr_eq_Ok [result_simps]:
  "bindr r f = Inr y \<longleftrightarrow> (\<exists>x. r = Inr x \<and> f x = Inr y)"
  by (cases r) auto

lemma bindr_eq_Err [result_simps]:
  "bindr r f = Inl e \<longleftrightarrow> r = Inl e \<or> (\<exists>x. r = Inr x \<and> f x = Inl e)"
  by (cases r) auto

definition is_ok :: "'e + 'a \<Rightarrow> bool" where
  "is_ok r = (case r of Inl _ \<Rightarrow> False | Inr _ \<Rightarrow> True)"

lemma is_ok_simps [simp, result_simps]:
  "is_ok (Inl e) = False"
  "is_ok (Inr x) = True"
  by (simp_all add: is_ok_def)

lemma is_ok_iff: "is_ok r \<longleftrightarrow> (\<exists>x. r = Inr x)"
  by (cases r) auto

definition guardr :: "bool \<Rightarrow> 'e \<Rightarrow> 'e + unit" where
  "guardr b e = (if b then Inr () else Inl e)"

lemma guardr_simps [simp, result_simps]:
  "guardr True e = Inr ()"
  "guardr False e = Inl e"
  "guardr b e = Inr u \<longleftrightarrow> b"
  "guardr b e = Inl e' \<longleftrightarrow> \<not> b \<and> e' = e"
  by (auto simp: guardr_def)

subsection \<open>Time\<close>

type_synonym go_time = int
type_synonym go_duration = int
type_synonym unix_seconds = int

definition second :: go_duration where
  "second = 1000000000"

definition minute :: go_duration where
  "minute = 60 * second"

definition millisecond :: go_duration where
  "millisecond = 1000000"

definition unix :: "go_time \<Rightarrow> unix_seconds" where
  "unix t = t div second"

definition of_unix :: "unix_seconds \<Rightarrow> go_time" where
  "of_unix s = s * second"

lemma unix_of_unix [simp]: "unix (of_unix s) = s"
  by (simp add: unix_def of_unix_def second_def)

lemma unix_mono: "s \<le> t \<Longrightarrow> unix s \<le> unix t"
  by (simp add: unix_def second_def zdiv_mono1)

lemma unix_add_seconds: "unix (t + k * second) = unix t + k"
  by (simp add: unix_def second_def)

lemma unix_add_nonneg: "0 \<le> d \<Longrightarrow> unix t \<le> unix (t + d)"
  by (rule unix_mono) simp

subsection \<open>Tables\<close>

definition sql_update :: "('r \<Rightarrow> bool) \<Rightarrow> ('r \<Rightarrow> 'r) \<Rightarrow> 'r list \<Rightarrow> 'r list" where
  "sql_update p f rows = map (\<lambda>r. if p r then f r else r) rows"

definition sql_count :: "('r \<Rightarrow> bool) \<Rightarrow> 'r list \<Rightarrow> nat" where
  "sql_count p rows = length (filter p rows)"

definition sql_delete :: "('r \<Rightarrow> bool) \<Rightarrow> 'r list \<Rightarrow> 'r list" where
  "sql_delete p rows = filter (\<lambda>r. \<not> p r) rows"

definition sql_exists :: "('r \<Rightarrow> bool) \<Rightarrow> 'r list \<Rightarrow> bool" where
  "sql_exists p rows = list_ex p rows"

text \<open>\<open>SELECT COALESCE(MAX(c), 0)\<close> and \<open>SELECT COALESCE(MIN(c), 0)\<close> over the rows that match.\<close>

definition sql_max :: "('r \<Rightarrow> bool) \<Rightarrow> ('r \<Rightarrow> int) \<Rightarrow> 'r list \<Rightarrow> int" where
  "sql_max p c rows = (case map c (filter p rows) of [] \<Rightarrow> 0 | x # xs \<Rightarrow> fold max xs x)"

definition sql_min :: "('r \<Rightarrow> bool) \<Rightarrow> ('r \<Rightarrow> int) \<Rightarrow> 'r list \<Rightarrow> int" where
  "sql_min p c rows = (case map c (filter p rows) of [] \<Rightarrow> 0 | x # xs \<Rightarrow> fold min xs x)"

text \<open>\<open>ORDER BY key LIMIT 1\<close> over the rows that match.\<close>

definition sql_first_by :: "('r \<Rightarrow> 'k::linorder) \<Rightarrow> ('r \<Rightarrow> bool) \<Rightarrow> 'r list \<Rightarrow> 'r option" where
  "sql_first_by key p rows =
     (case sort_key key (filter p rows) of [] \<Rightarrow> None | r # _ \<Rightarrow> Some r)"

lemma set_sql_update [sql]: "set (sql_update p f rows) = (\<lambda>r. if p r then f r else r) ` set rows"
  by (simp add: sql_update_def)

lemma length_sql_update [simp, sql]: "length (sql_update p f rows) = length rows"
  by (simp add: sql_update_def)

lemma sql_update_simps [simp, sql]:
  "sql_update p f [] = []"
  "sql_update p f (r # rows) = (if p r then f r else r) # sql_update p f rows"
  by (simp_all add: sql_update_def)

lemma sql_update_append [simp, sql]:
  "sql_update p f (xs @ ys) = sql_update p f xs @ sql_update p f ys"
  by (simp add: sql_update_def)

text \<open>A column that an update does not write is unchanged, row by row.\<close>

lemma map_sql_update_same [sql]:
  assumes "\<And>r. c (f r) = c r"
  shows "map c (sql_update p f rows) = map c rows"
  by (induction rows) (simp_all add: assms)

lemma filter_sql_update_same [sql]:
  assumes "\<And>r. q (f r) = q r"
  shows "filter q (sql_update p f rows) = sql_update p f (filter q rows)"
  by (induction rows) (simp_all add: assms)

lemma sql_count_update_same [sql]:
  assumes "\<And>r. q (f r) = q r"
  shows "sql_count q (sql_update p f rows) = sql_count q rows"
  by (simp add: sql_count_def filter_sql_update_same assms)

lemma set_sql_delete [simp, sql]: "set (sql_delete p rows) = {r \<in> set rows. \<not> p r}"
  by (simp add: sql_delete_def)

lemma distinct_map_filter': "distinct (map c rows) \<Longrightarrow> distinct (map c (filter p rows))"
  by (induction rows) auto

lemma distinct_sql_delete [sql]:
  "distinct (map c rows) \<Longrightarrow> distinct (map c (sql_delete p rows))"
  by (simp add: sql_delete_def distinct_map_filter')

lemma sql_exists_iff [simp, sql]: "sql_exists p rows \<longleftrightarrow> (\<exists>r \<in> set rows. p r)"
  by (simp add: sql_exists_def list_ex_iff)

lemma sql_count_0 [simp, sql]: "sql_count p rows = 0 \<longleftrightarrow> (\<forall>r \<in> set rows. \<not> p r)"
  by (simp add: sql_count_def filter_empty_conv)

lemma sql_count_le_length: "sql_count p rows \<le> length rows"
  by (simp add: sql_count_def)

lemma sql_count_simps [simp, sql]:
  "sql_count p [] = 0"
  "sql_count p (r # rows) = (if p r then Suc (sql_count p rows) else sql_count p rows)"
  "sql_count p (xs @ ys) = sql_count p xs + sql_count p ys"
  by (simp_all add: sql_count_def)

text \<open>With a unique key, an update by that key touches exactly the row that has it.\<close>

lemma sql_count_unique:
  assumes "distinct (map c rows)" and "\<And>r. p r \<Longrightarrow> c r = k"
  shows "sql_count p rows \<le> 1"
  using assms(1)
proof (induction rows)
  case Nil
  then show ?case by simp
next
  case (Cons r rows)
  show ?case
  proof (cases "p r")
    case True
    with Cons.prems assms(2) have "\<forall>r' \<in> set rows. \<not> p r'"
      by (metis distinct.simps(2) image_eqI list.simps(9) set_map)
    with True show ?thesis by simp
  next
    case False
    with Cons show ?thesis by simp
  qed
qed

lemma sql_count_eq_1:
  assumes "distinct (map c rows)" and "\<And>r. p r \<Longrightarrow> c r = k"
  shows "sql_count p rows = 1 \<longleftrightarrow> (\<exists>r \<in> set rows. p r)"
proof -
  have "sql_count p rows \<le> 1" by (rule sql_count_unique [OF assms])
  then have "sql_count p rows = 1 \<longleftrightarrow> sql_count p rows \<noteq> 0" by linarith
  then show ?thesis by (simp del: One_nat_def)
qed

lemma find_Some_in: "find p rows = Some r \<Longrightarrow> r \<in> set rows \<and> p r"
  by (induction rows) (auto split: if_splits)

lemma find_key_unique:
  assumes "distinct (map c rows)" and "r \<in> set rows"
  shows "find (\<lambda>x. c x = c r) rows = Some r"
  using assms by (induction rows) (auto simp: image_iff)

lemma find_append: "find p (xs @ ys) = (case find p xs of None \<Rightarrow> find p ys | Some r \<Rightarrow> Some r)"
  by (induction xs) auto

text \<open>Looking a row up by its key after an update by the same key.\<close>

lemma find_sql_update_key:
  assumes "\<And>r. c (f r) = c r"
  shows "find (\<lambda>r. c r = k) (sql_update (\<lambda>r. c r = k \<and> q r) f rows)
       = map_option (\<lambda>r. if q r then f r else r) (find (\<lambda>r. c r = k) rows)"
  by (induction rows) (auto simp: assms)

lemma find_sql_update_other:
  assumes "\<And>r. c (f r) = c r" and "\<And>r. p r \<Longrightarrow> c r \<noteq> k"
  shows "find (\<lambda>r. c r = k) (sql_update p f rows) = find (\<lambda>r. c r = k) rows"
  using assms by (induction rows) auto

text \<open>
  The effect of an update by a unique key: the row \<open>r\<close> is replaced by \<open>r'\<close>, every other row stays.
\<close>

definition row_changed :: "('r \<Rightarrow> 'k) \<Rightarrow> 'r list \<Rightarrow> 'r \<Rightarrow> 'r \<Rightarrow> 'r list \<Rightarrow> bool" where
  "row_changed c rows r r' rows' \<longleftrightarrow>
     distinct (map c rows) \<and> r \<in> set rows \<and> c r' = c r \<and>
     rows' = map (\<lambda>x. if c x = c r then r' else x) rows"

lemma distinct_map_key: "distinct (map c rows) \<Longrightarrow> r \<in> set rows \<Longrightarrow> x \<in> set rows \<Longrightarrow> (c x = c r) = (x = r)"
  by (auto simp: distinct_map inj_on_def)

lemma sql_update_row_changed:
  assumes d: "distinct (map c rows)" and r: "r \<in> set rows" "p r"
    and p: "\<And>x. p x \<Longrightarrow> c x = c r" and f: "c (f r) = c r"
  shows "row_changed c rows r (f r) (sql_update p f rows)"
proof -
  have eq: "(c x = c r) = (x = r)" if "x \<in> set rows" for x
    using d r(1) that by (rule distinct_map_key)
  then have "p x = (x = r)" if "x \<in> set rows" for x
    using that p [of x] r(2) by metis
  with eq have "sql_update p f rows = map (\<lambda>x. if c x = c r then f r else x) rows"
    unfolding sql_update_def by (intro map_cong) auto
  with d r(1) f show ?thesis by (simp add: row_changed_def)
qed

lemma sql_update_none: "\<forall>x \<in> set rows. \<not> p x \<Longrightarrow> sql_update p f rows = rows"
  by (simp add: sql_update_def map_idI)

lemma row_changed_refl: "distinct (map c rows) \<Longrightarrow> r \<in> set rows \<Longrightarrow> row_changed c rows r r rows"
  by (auto simp: row_changed_def distinct_map_key intro!: map_idI [symmetric])

lemma row_changed_eq: "row_changed c rows r r' rows' \<Longrightarrow> rows' = map (\<lambda>x. if x = r then r' else x) rows"
  by (auto simp: row_changed_def distinct_map_key)

lemma row_changed_trans:
  "row_changed c rows r r' rows' \<Longrightarrow> row_changed c rows' r' r'' rows'' \<Longrightarrow> row_changed c rows r r'' rows''"
  by (auto simp: row_changed_def)

lemma row_changed_map:
  assumes "row_changed c rows r r' rows'" and "d r' = d r"
  shows "map d rows' = map d rows"
  using assms(2) by (simp add: row_changed_eq [OF assms(1)])

lemma row_changed_set: "row_changed c rows r r' rows' \<Longrightarrow> set rows' = insert r' (set rows - {r})"
  by (frule row_changed_eq) (auto simp: row_changed_def)

lemma row_changed_distinct:
  assumes "row_changed c rows r r' rows'"
  shows "distinct (map c rows')"
proof -
  have "map c rows' = map c rows"
    by (rule row_changed_map [OF assms]) (use assms in \<open>simp add: row_changed_def\<close>)
  moreover have "distinct (map c rows)" using assms by (simp add: row_changed_def)
  ultimately show ?thesis by simp
qed

lemma row_changed_in: "row_changed c rows r r' rows' \<Longrightarrow> r \<in> set rows \<and> r' \<in> set rows' \<and> c r' = c r"
  by (auto simp: row_changed_def image_iff)

lemma row_changed_find:
  assumes "row_changed c rows r r' rows'"
  shows "find (\<lambda>x. c x = k) rows' = (if k = c r then Some r' else find (\<lambda>x. c x = k) rows)"
proof -
  have "find (\<lambda>x. c x = k) (map (\<lambda>x. if c x = c r then r' else x) rows)
      = (if k = c r \<and> c r \<in> c ` set rows then Some r' else find (\<lambda>x. c x = k) rows)"
    if "c r' = c r"
    using that by (induction rows) auto
  with assms show ?thesis by (auto simp: row_changed_def)
qed

lemma distinct_map_replace:
  assumes "row_changed c rows r r' rows'" and "distinct (map d rows)"
    and "\<And>x. x \<in> set rows \<Longrightarrow> x \<noteq> r \<Longrightarrow> d x \<noteq> d r'"
  shows "distinct (map d rows')"
proof -
  have "distinct rows" using assms(1) by (simp add: row_changed_def distinct_map)
  moreover have "inj_on (\<lambda>x. d (if x = r then r' else x)) (set rows)"
    using assms(2,3) unfolding distinct_map inj_on_def by (metis (mono_tags))
  ultimately have "distinct (map (\<lambda>x. d (if x = r then r' else x)) rows)"
    by (simp add: distinct_map)
  moreover have "map d rows' = map (\<lambda>x. d (if x = r then r' else x)) rows"
    by (simp add: row_changed_eq [OF assms(1)])
  ultimately show ?thesis by simp
qed

lemma fold_max_ge: "(x::int) \<le> fold max xs x"
  by (induction xs arbitrary: x) (auto intro: order_trans [OF max.cobounded2])

lemma fold_max_upper: "y \<in> set xs \<Longrightarrow> (y::int) \<le> fold max xs x"
proof (induction xs arbitrary: x)
  case Nil
  then show ?case by simp
next
  case (Cons z zs)
  then show ?case
    using fold_max_ge [of "max z x" zs] by (cases "y = z") auto
qed

lemma fold_max_in: "fold max xs (x::int) \<in> insert x (set xs)"
proof (induction xs arbitrary: x)
  case Nil
  then show ?case by simp
next
  case (Cons z zs)
  from Cons.IH [of "max z x"] show ?case by (auto simp: max_def split: if_splits)
qed

lemma sql_max_upper: "r \<in> set rows \<Longrightarrow> p r \<Longrightarrow> c r \<le> sql_max p c rows"
proof -
  assume "r \<in> set rows" "p r"
  then have "c r \<in> set (map c (filter p rows))" by simp
  then show ?thesis
    by (cases "map c (filter p rows)") (auto simp: sql_max_def fold_max_ge fold_max_upper)
qed

lemma sql_max_cases:
  "(sql_max p c rows = 0 \<and> (\<forall>r \<in> set rows. \<not> p r)) \<or>
   (\<exists>r \<in> set rows. p r \<and> sql_max p c rows = c r)"
proof (cases "map c (filter p rows)")
  case Nil
  then show ?thesis by (auto simp: sql_max_def filter_empty_conv)
next
  case (Cons x xs)
  then have "sql_max p c rows \<in> set (map c (filter p rows))"
    using fold_max_in [of xs x] by (simp add: sql_max_def)
  then show ?thesis by auto
qed

lemma sql_max_nonneg: "\<forall>r \<in> set rows. p r \<longrightarrow> 0 \<le> c r \<Longrightarrow> 0 \<le> sql_max p c rows"
  using sql_max_cases [of p c rows] by auto

lemma sql_first_by_Some:
  assumes "sql_first_by key p rows = Some r"
  shows "r \<in> set rows \<and> p r \<and> (\<forall>x \<in> set rows. p x \<longrightarrow> key r \<le> key x)"
proof -
  from assms obtain rest where s: "sort_key key (filter p rows) = r # rest"
    by (auto simp: sql_first_by_def split: list.splits)
  have "set (sort_key key (filter p rows)) = set (filter p rows)" by (rule set_sort)
  moreover have "sorted (map key (sort_key key (filter p rows)))" by (rule sorted_sort_key)
  ultimately show ?thesis using s by auto
qed

lemma sql_first_by_None: "sql_first_by key p rows = None \<longleftrightarrow> (\<forall>r \<in> set rows. \<not> p r)"
proof -
  have "sql_first_by key p rows = None \<longleftrightarrow> sort_key key (filter p rows) = []"
    by (simp add: sql_first_by_def split: list.splits)
  also have "\<dots> \<longleftrightarrow> filter p rows = []"
    by (metis length_0_conv length_sort)
  finally show ?thesis by (simp add: filter_empty_conv)
qed

subsection \<open>Text\<close>

definition has_prefix :: "string \<Rightarrow> string \<Rightarrow> bool" where
  "has_prefix s p = (take (length p) s = p)"

definition has_suffix :: "string \<Rightarrow> string \<Rightarrow> bool" where
  "has_suffix s p = (length p \<le> length s \<and> drop (length s - length p) s = p)"

definition trim_prefix :: "string \<Rightarrow> string \<Rightarrow> string" where
  "trim_prefix s p = (if has_prefix s p then drop (length p) s else s)"

fun contains_str :: "string \<Rightarrow> string \<Rightarrow> bool" where
  "contains_str [] p = (p = [])"
| "contains_str (c # s) p = (has_prefix (c # s) p \<or> contains_str s p)"

definition ascii_lower_char :: "char \<Rightarrow> char" where
  "ascii_lower_char c =
     (if CHR ''A'' \<le> c \<and> c \<le> CHR ''Z'' then char_of ((of_char c :: nat) + 32) else c)"

definition ascii_lower :: "string \<Rightarrow> string" where
  "ascii_lower s = map ascii_lower_char s"

text \<open>
  The UTF-8 encodings of the code points for which \<open>unicode.IsSpace\<close> holds; \<open>strings.TrimSpace\<close>
  strips them from both ends.
\<close>

definition byte :: "nat \<Rightarrow> char" where
  "byte n = char_of n"

definition space_runes :: "string list" where
  "space_runes =
     map (\<lambda>n. [byte n]) [9, 10, 11, 12, 13, 32] @
     [[byte 194, byte 133], [byte 194, byte 160], [byte 225, byte 154, byte 128]] @
     map (\<lambda>n. [byte 226, byte 128, byte n]) [128 ..< 139] @
     map (\<lambda>n. [byte 226, byte 128, byte n]) [168, 169, 175] @
     [[byte 226, byte 129, byte 159], [byte 227, byte 128, byte 128]]"

lemma space_runes_nonempty: "w \<in> set space_runes \<Longrightarrow> w \<noteq> []"
  by (auto simp: space_runes_def)

function trim_left :: "string \<Rightarrow> string" where
  "trim_left s =
     (case find (\<lambda>w. has_prefix s w) space_runes of
        None \<Rightarrow> s
      | Some w \<Rightarrow> trim_left (drop (length w) s))"
  by pat_completeness auto
termination
proof (relation "measure length", goal_cases)
  case 1
  then show ?case by simp
next
  case (2 s w)
  then have "has_prefix s w" and "w \<noteq> []"
    using find_Some_in [OF 2] space_runes_nonempty by auto
  then have "s \<noteq> []" by (auto simp: has_prefix_def)
  with \<open>w \<noteq> []\<close> show ?case by (cases s; cases w) auto
qed

declare trim_left.simps [simp del]

text \<open>
  From the right the same runes are read backwards: a rune ends the string exactly when its
  reversal starts the reversed string.
\<close>

function trim_left_rev :: "string \<Rightarrow> string" where
  "trim_left_rev s =
     (case find (\<lambda>w. has_prefix s (rev w)) space_runes of
        None \<Rightarrow> s
      | Some w \<Rightarrow> trim_left_rev (drop (length w) s))"
  by pat_completeness auto
termination
proof (relation "measure length", goal_cases)
  case 1
  then show ?case by simp
next
  case (2 s w)
  then have "has_prefix s (rev w)" and "w \<noteq> []"
    using find_Some_in [OF 2] space_runes_nonempty by auto
  then have "s \<noteq> []" by (auto simp: has_prefix_def)
  with \<open>w \<noteq> []\<close> show ?case by (cases s; cases w) auto
qed

declare trim_left_rev.simps [simp del]

definition trim_space :: "string \<Rightarrow> string" where
  "trim_space s = rev (trim_left_rev (rev (trim_left s)))"

text \<open>\<open>encoding/hex.EncodeToString\<close>.\<close>

definition hex_digit :: "nat \<Rightarrow> char" where
  "hex_digit n = ''0123456789abcdef'' ! (n mod 16)"

definition hex_encode :: "string \<Rightarrow> string" where
  "hex_encode bs = concat (map (\<lambda>b. [hex_digit (of_char b div 16), hex_digit (of_char b)]) bs)"

lemma length_hex_encode [simp]: "length (hex_encode bs) = 2 * length bs"
  by (induction bs) (auto simp: hex_encode_def)

lemma has_prefix_append [simp]: "has_prefix (p @ s) p"
  by (simp add: has_prefix_def)

lemma has_prefix_iff: "has_prefix s p \<longleftrightarrow> (\<exists>t. s = p @ t)"
  by (metis append_eq_conv_conj has_prefix_def)

end
