(* ===== verification/Go_Json.thy ===== *)
theory Go_Json
  imports Go_Prelude
begin

text \<open>
  The parts of the packages unicode/utf8, strconv and encoding/json that the deployment sources
  call, on byte strings: \<open>utf8.ValidString\<close>, decimal printing, \<open>json.Marshal\<close> of maps of
  strings, integers, booleans and raw messages (keys sorted, HTML characters escaped, raw
  messages compacted), \<open>json.Valid\<close> and the document \<open>json.Unmarshal\<close> reads.
  The reader is a recursive descent with fuel; \<open>parse_fuel\<close> shows that the length of the text
  plus one is enough. \<open>json_valid_marshal\<close> shows that what is printed without raw messages is
  read back as a valid document.
\<close>

subsection \<open>UTF-8\<close>

definition in_range :: "nat \<Rightarrow> nat \<Rightarrow> char \<Rightarrow> bool" where
  "in_range lo hi c = (lo \<le> (of_char c :: nat) \<and> (of_char c :: nat) \<le> hi)"

definition cont :: "char \<Rightarrow> bool" where
  "cont c = in_range 128 191 c"

text \<open>The width of the well-formed rune a text starts with, 0 if there is none.\<close>

fun rune_len :: "string \<Rightarrow> nat" where
  "rune_len [] = 0"
| "rune_len (b0 # t) =
    (if in_range 0 127 b0 then 1
     else if in_range 194 223 b0 then
       (case t of b1 # _ \<Rightarrow> if cont b1 then 2 else 0 | _ \<Rightarrow> 0)
     else if in_range 224 239 b0 then
       (case t of b1 # b2 # _ \<Rightarrow>
          if (if b0 = byte 224 then in_range 160 191 b1
              else if b0 = byte 237 then in_range 128 159 b1
              else cont b1) \<and> cont b2 then 3 else 0
        | _ \<Rightarrow> 0)
     else if in_range 240 244 b0 then
       (case t of b1 # b2 # b3 # _ \<Rightarrow>
          if (if b0 = byte 240 then in_range 144 191 b1
              else if b0 = byte 244 then in_range 128 143 b1
              else cont b1) \<and> cont b2 \<and> cont b3 then 4 else 0
        | _ \<Rightarrow> 0)
     else 0)"

function utf8_valid :: "string \<Rightarrow> bool" where
  "utf8_valid s =
     (if s = [] then True
      else if rune_len s = 0 then False
      else utf8_valid (drop (rune_len s) s))"
  by pat_completeness auto
termination
  by (relation "measure length") auto

declare utf8_valid.simps [simp del]

lemma utf8_valid_Nil [simp]: "utf8_valid []"
  by (simp add: utf8_valid.simps)

subsection \<open>Decimal numbers\<close>

fun nat_dec :: "nat \<Rightarrow> string" where
  "nat_dec n = (if n < 10 then [char_of (48 + n)] else nat_dec (n div 10) @ [char_of (48 + n mod 10)])"

declare nat_dec.simps [simp del]

definition int_dec :: "int \<Rightarrow> string" where
  "int_dec i = (if i < 0 then CHR ''-'' # nat_dec (nat (- i)) else nat_dec (nat i))"

definition is_digit :: "char \<Rightarrow> bool" where
  "is_digit c = in_range 48 57 c"

lemma nat_dec_digits: "nat_dec n \<noteq> [] \<and> (\<forall>c \<in> set (nat_dec n). is_digit c)"
proof (induction n rule: nat_dec.induct)
  case (1 n)
  have "is_digit (char_of (48 + k))" if "k < 10" for k :: nat
    using that by (simp add: is_digit_def in_range_def)
  with 1 show ?case by (cases "n < 10") (auto simp: nat_dec.simps [of n])
qed

lemma nat_dec_hd: "hd (nat_dec n) = CHR ''0'' \<longrightarrow> nat_dec n = ''0''"
proof (induction n rule: nat_dec.induct)
  case (1 n)
  show ?case
  proof (cases "n < 10")
    case True
    show ?thesis
    proof
      assume "hd (nat_dec n) = CHR ''0''"
      with True have "char_of (48 + n) = CHR ''0''" by (simp add: nat_dec.simps [of n])
      then have "(of_char (char_of (48 + n) :: char) :: nat) = of_char CHR ''0''" by simp
      with True have "n = 0" by simp
      moreover have "char_of (48::nat) = CHR ''0''" by code_simp
      ultimately show "nat_dec n = ''0''" by (simp add: nat_dec.simps)
    qed
  next
    case False
    have ne: "nat_dec (n div 10) \<noteq> []" using nat_dec_digits by blast
    have "hd (nat_dec (n div 10)) \<noteq> CHR ''0''"
    proof
      assume a: "hd (nat_dec (n div 10)) = CHR ''0''"
      with 1 False have z: "nat_dec (n div 10) = ''0''" by simp
      have "n div 10 \<noteq> 0" using False by simp
      show False
      proof (cases "n div 10 < 10")
        case True
        with z have "char_of (48 + n div 10) = CHR ''0''" by (simp add: nat_dec.simps [of "n div 10"])
        then have "(of_char (char_of (48 + n div 10) :: char) :: nat) = of_char CHR ''0''" by simp
        with True \<open>n div 10 \<noteq> 0\<close> show False by simp
      next
        case False
        then have "length (nat_dec (n div 10)) = Suc (length (nat_dec (n div 10 div 10)))"
          by (simp add: nat_dec.simps [of "n div 10"])
        moreover have "nat_dec (n div 10 div 10) \<noteq> []" using nat_dec_digits by blast
        ultimately show False using z by simp
      qed
    qed
    with ne False show ?thesis by (simp add: nat_dec.simps [of n])
  qed
qed

subsection \<open>Printing\<close>

datatype gojson = GStr string | GInt int | GBool bool | GRaw string | GMap "(string \<times> gojson) list"

definition u_escape :: "char \<Rightarrow> string" where
  "u_escape c = [CHR 0x5C] @ ''u00'' @ [hex_digit (of_char c div 16), hex_digit (of_char c)]"

definition html_char :: "char \<Rightarrow> bool" where
  "html_char c = (c \<in> {CHR ''<'', CHR ''>'', CHR ''&''})"

text \<open>The escape of one byte below 128.\<close>

definition quote_char :: "char \<Rightarrow> string" where
  "quote_char c =
     (if c = CHR 0x22 \<or> c = CHR 0x5C then [CHR 0x5C, c]
      else if c = CHR 0x08 then [CHR 0x5C, CHR ''b'']
      else if c = CHR 0x0C then [CHR 0x5C, CHR ''f'']
      else if c = CHR 0x0A then [CHR 0x5C, CHR ''n'']
      else if c = CHR 0x0D then [CHR 0x5C, CHR ''r'']
      else if c = CHR 0x09 then [CHR 0x5C, CHR ''t'']
      else if of_char c < (32::nat) \<or> html_char c then u_escape c
      else [c])"

definition line_sep :: "string \<Rightarrow> bool" where
  "line_sep s = (has_prefix s [byte 226, byte 128, byte 168] \<or> has_prefix s [byte 226, byte 128, byte 169])"

definition line_sep_escape :: "string \<Rightarrow> string" where
  "line_sep_escape s = [CHR 0x5C] @ ''u202'' @ [hex_digit (of_char (s ! 2))]"

function quote_body :: "string \<Rightarrow> string" where
  "quote_body s =
     (if s = [] then []
      else if in_range 0 127 (hd s) then quote_char (hd s) @ quote_body (tl s)
      else if rune_len s = 0 then [CHR 0x5C] @ ''ufffd'' @ quote_body (tl s)
      else if line_sep s then line_sep_escape s @ quote_body (drop 3 s)
      else take (rune_len s) s @ quote_body (drop (rune_len s) s))"
  by pat_completeness auto
termination
  by (relation "measure length") auto

declare quote_body.simps [simp del]

definition marshal_string :: "string \<Rightarrow> string" where
  "marshal_string s = [CHR 0x22] @ quote_body s @ [CHR 0x22]"

definition is_ws :: "char \<Rightarrow> bool" where
  "is_ws c = (c \<in> {CHR '' '', CHR 0x09, CHR 0x0A, CHR 0x0D})"

text \<open>\<open>json.Compact\<close> with HTML escaping: the arguments are inside a string, after a backslash.\<close>

fun compact :: "bool \<Rightarrow> bool \<Rightarrow> string \<Rightarrow> string" where
  "compact ins esc [] = []"
| "compact ins esc (c # s) =
    (if html_char c then u_escape c @ compact ins False s
     else if line_sep (c # s) then
       (case s of _ # d # s' \<Rightarrow> line_sep_escape (c # s) @ compact ins False s' | _ \<Rightarrow> c # compact ins False s)
     else if ins then
       c # (if esc then compact True False s
            else if c = CHR 0x5C then compact True True s
            else if c = CHR 0x22 then compact False False s
            else compact True False s)
     else if is_ws c then compact False False s
     else c # compact (c = CHR 0x22) False s)"

fun join :: "string \<Rightarrow> string list \<Rightarrow> string" where
  "join sep [] = []"
| "join sep [x] = x"
| "join sep (x # y # zs) = x @ sep @ join sep (y # zs)"

fun marshal :: "gojson \<Rightarrow> string" where
  "marshal (GStr s) = marshal_string s"
| "marshal (GInt i) = int_dec i"
| "marshal (GBool b) = (if b then ''true'' else ''false'')"
| "marshal (GRaw s) = (if s = [] then ''null'' else compact False False s)"
| "marshal (GMap kvs) =
     ''{'' @ join '','' (map (\<lambda>(k, v). marshal_string k @ '':'' @ v)
       (sort_key fst (map (\<lambda>(k, v). (k, marshal v)) kvs))) @ ''}''"

subsection \<open>Reading\<close>

datatype json =
    JNull
  | JBool bool
  | JNum string
  | JStr string
  | JArr "json list"
  | JObj "(string \<times> json) list"

definition skip_ws :: "string \<Rightarrow> string" where
  "skip_ws s = dropWhile is_ws s"

definition is_hex :: "char \<Rightarrow> bool" where
  "is_hex c = (is_digit c \<or> in_range 65 70 c \<or> in_range 97 102 c)"

definition simple_escape :: "char \<Rightarrow> bool" where
  "simple_escape c =
     (c \<in> {CHR 0x22, CHR 0x5C, CHR ''/'', CHR ''b'', CHR ''f'', CHR ''n'', CHR ''r'', CHR ''t''})"

text \<open>The raw body of a string literal after its opening quote, and the text after its closing quote.\<close>

fun lex_string :: "string \<Rightarrow> (string \<times> string) option" where
  "lex_string [] = None"
| "lex_string (c # s) =
    (if c = CHR 0x22 then Some ([], s)
     else if c = CHR 0x5C then
       (case s of
          [] \<Rightarrow> None
        | e # s' \<Rightarrow>
            if simple_escape e then map_option (\<lambda>(r, t). (c # e # r, t)) (lex_string s')
            else if e = CHR ''u'' then
              (case s' of
                 h1 # h2 # h3 # h4 # s'' \<Rightarrow>
                   if is_hex h1 \<and> is_hex h2 \<and> is_hex h3 \<and> is_hex h4
                   then map_option (\<lambda>(r, t). (c # e # h1 # h2 # h3 # h4 # r, t)) (lex_string s'')
                   else None
               | _ \<Rightarrow> None)
            else None)
     else if of_char c < (32::nat) then None
     else map_option (\<lambda>(r, t). (c # r, t)) (lex_string s))"

definition hex_val :: "char \<Rightarrow> nat" where
  "hex_val c = (if is_digit c then of_char c - 48
                else if in_range 65 70 c then of_char c - 55 else of_char c - 87)"

definition hex4 :: "string \<Rightarrow> nat" where
  "hex4 s = foldl (\<lambda>n c. 16 * n + hex_val c) 0 (take 4 s)"

definition utf8_encode :: "nat \<Rightarrow> string" where
  "utf8_encode n =
     (if n < 128 then [byte n]
      else if n < 2048 then [byte (192 + n div 64), byte (128 + n mod 64)]
      else if n < 65536 then
        [byte (224 + n div 4096), byte (128 + n div 64 mod 64), byte (128 + n mod 64)]
      else [byte (240 + n div 262144), byte (128 + n div 4096 mod 64),
            byte (128 + n div 64 mod 64), byte (128 + n mod 64)])"

definition unescape :: "char \<Rightarrow> char" where
  "unescape c =
     (if c = CHR ''b'' then CHR 0x08 else if c = CHR ''f'' then CHR 0x0C
      else if c = CHR ''n'' then CHR 0x0A else if c = CHR ''r'' then CHR 0x0D
      else if c = CHR ''t'' then CHR 0x09 else c)"

definition replacement :: string where
  "replacement = [byte 239, byte 191, byte 189]"

text \<open>
  The text a raw string body stands for: escapes are replaced, a surrogate pair is combined, a
  lone surrogate and a byte that starts no rune become U+FFFD.
\<close>

function unquote :: "string \<Rightarrow> string" where
  "unquote s =
     (if s = [] then []
      else if hd s = CHR 0x5C then
        (if length s \<ge> 6 \<and> s ! 1 = CHR ''u'' then
           (let n = hex4 (drop 2 s); rest = drop 6 s in
            if 55296 \<le> n \<and> n < 57344 then
              (if n < 56320 \<and> length rest \<ge> 6 \<and> has_prefix rest ([CHR 0x5C] @ ''u'')
                  \<and> 56320 \<le> hex4 (drop 2 rest) \<and> hex4 (drop 2 rest) < 57344
               then utf8_encode (65536 + (n - 55296) * 1024 + (hex4 (drop 2 rest) - 56320))
                    @ unquote (drop 6 rest)
               else replacement @ unquote rest)
            else utf8_encode n @ unquote rest)
         else if length s \<ge> 2 then unescape (s ! 1) # unquote (drop 2 s)
         else [])
      else if rune_len s = 0 then replacement @ unquote (tl s)
      else take (rune_len s) s @ unquote (drop (rune_len s) s))"
  by pat_completeness auto
termination
  by (relation "measure length") auto

declare unquote.simps [simp del]

definition span_digits :: "string \<Rightarrow> string \<times> string" where
  "span_digits s = (takeWhile is_digit s, dropWhile is_digit s)"

definition lex_frac :: "string \<Rightarrow> (string \<times> string) option" where
  "lex_frac s =
     (case s of
        [] \<Rightarrow> Some ([], [])
      | c # t \<Rightarrow>
          if c = CHR ''.'' then
            (let (ds, r) = span_digits t in if ds = [] then None else Some (c # ds, r))
          else Some ([], s))"

definition lex_exp :: "string \<Rightarrow> (string \<times> string) option" where
  "lex_exp s =
     (case s of
        [] \<Rightarrow> Some ([], [])
      | c # t \<Rightarrow>
          if c = CHR ''e'' \<or> c = CHR ''E'' then
            (let (sg, t') = (case t of [] \<Rightarrow> ([], [])
                             | g # u \<Rightarrow> if g = CHR ''+'' \<or> g = CHR ''-'' then ([g], u) else ([], t));
                 (ds, r) = span_digits t'
             in if ds = [] then None else Some (c # sg @ ds, r))
          else Some ([], s))"

definition lex_int :: "string \<Rightarrow> (string \<times> string) option" where
  "lex_int s =
     (case s of
        [] \<Rightarrow> None
      | c # t \<Rightarrow> if c = CHR ''0'' then Some ([c], t)
                else if is_digit c then (let (ds, r) = span_digits s in Some (ds, r)) else None)"

definition lex_number :: "string \<Rightarrow> (string \<times> string) option" where
  "lex_number s =
     (let (sg, s1) = (case s of [] \<Rightarrow> ([], [])
                      | c # t \<Rightarrow> if c = CHR ''-'' then ([c], t) else ([], s))
      in case lex_int s1 of
           None \<Rightarrow> None
         | Some (ds, s2) \<Rightarrow>
             (case lex_frac s2 of
                None \<Rightarrow> None
              | Some (fs, s3) \<Rightarrow>
                  (case lex_exp s3 of
                     None \<Rightarrow> None
                   | Some (es, s4) \<Rightarrow> Some (sg @ ds @ fs @ es, s4))))"

definition max_nesting :: nat where
  "max_nesting = 10000"

fun parse_value :: "nat \<Rightarrow> nat \<Rightarrow> string \<Rightarrow> (json \<times> string) option"
and parse_elems :: "nat \<Rightarrow> nat \<Rightarrow> string \<Rightarrow> (json list \<times> string) option"
and parse_members :: "nat \<Rightarrow> nat \<Rightarrow> string \<Rightarrow> ((string \<times> json) list \<times> string) option"
where
  "parse_value 0 d s = None"
| "parse_value (Suc n) d s =
    (case skip_ws s of
       [] \<Rightarrow> None
     | c # t \<Rightarrow>
         if c = CHR ''{'' then
           (if max_nesting \<le> d then None
            else case skip_ws t of
              [] \<Rightarrow> None
            | c' # t' \<Rightarrow> if c' = CHR ''}'' then Some (JObj [], t')
                       else map_option (\<lambda>(ms, r). (JObj ms, r)) (parse_members n (Suc d) t))
         else if c = CHR ''['' then
           (if max_nesting \<le> d then None
            else case skip_ws t of
              [] \<Rightarrow> None
            | c' # t' \<Rightarrow> if c' = CHR '']'' then Some (JArr [], t')
                       else map_option (\<lambda>(es, r). (JArr es, r)) (parse_elems n (Suc d) t))
         else if c = CHR 0x22 then map_option (\<lambda>(b, r). (JStr (unquote b), r)) (lex_string t)
         else if has_prefix (c # t) ''true'' then Some (JBool True, drop 4 (c # t))
         else if has_prefix (c # t) ''false'' then Some (JBool False, drop 5 (c # t))
         else if has_prefix (c # t) ''null'' then Some (JNull, drop 4 (c # t))
         else map_option (\<lambda>(l, r). (JNum l, r)) (lex_number (c # t)))"
| "parse_elems 0 d s = None"
| "parse_elems (Suc n) d s =
    (case parse_value n d s of
       None \<Rightarrow> None
     | Some (v, r) \<Rightarrow>
         (case skip_ws r of
            [] \<Rightarrow> None
          | c # t \<Rightarrow> if c = CHR '']'' then Some ([v], t)
                    else if c = CHR '','' then map_option (\<lambda>(vs, u). (v # vs, u)) (parse_elems n d t)
                    else None))"
| "parse_members 0 d s = None"
| "parse_members (Suc n) d s =
    (case skip_ws s of
       [] \<Rightarrow> None
     | q # t \<Rightarrow>
         if q \<noteq> CHR 0x22 then None
         else case lex_string t of
           None \<Rightarrow> None
         | Some (k, r) \<Rightarrow>
             (case skip_ws r of
                [] \<Rightarrow> None
              | c # u \<Rightarrow>
                  if c \<noteq> CHR '':'' then None
                  else case parse_value n d u of
                    None \<Rightarrow> None
                  | Some (v, w) \<Rightarrow>
                      (case skip_ws w of
                         [] \<Rightarrow> None
                       | e # x \<Rightarrow>
                           if e = CHR ''}'' then Some ([(unquote k, v)], x)
                           else if e = CHR '','' then
                             map_option (\<lambda>(ms, y). ((unquote k, v) # ms, y)) (parse_members n d x)
                           else None)))"

definition json_parse :: "string \<Rightarrow> json option" where
  "json_parse s =
     (case parse_value (3 * length s + 3) 0 s of
        Some (j, r) \<Rightarrow> if skip_ws r = [] then Some j else None
      | None \<Rightarrow> None)"

definition json_valid :: "string \<Rightarrow> bool" where
  "json_valid s = (json_parse s \<noteq> None)"

text \<open>
  \<open>json.Unmarshal\<close> into a struct field: keys match up to the case of ASCII letters, and the last
  one wins.
\<close>

definition json_field :: "string \<Rightarrow> json \<Rightarrow> json option" where
  "json_field name j =
     (case j of
        JObj ms \<Rightarrow> map_of (rev (map (\<lambda>(k, v). (ascii_lower k, v)) ms)) (ascii_lower name)
      | _ \<Rightarrow> None)"

definition json_string_field :: "string \<Rightarrow> string \<Rightarrow> string" where
  "json_string_field name s =
     (case json_parse s of
        None \<Rightarrow> []
      | Some j \<Rightarrow> (case json_field name j of Some (JStr v) \<Rightarrow> v | _ \<Rightarrow> []))"

definition json_strings_field :: "string \<Rightarrow> string \<Rightarrow> string list" where
  "json_strings_field name s =
     (case json_parse s of
        None \<Rightarrow> []
      | Some j \<Rightarrow>
          (case json_field name j of
             Some (JArr vs) \<Rightarrow> map (\<lambda>v. case v of JStr t \<Rightarrow> t | _ \<Rightarrow> []) vs
           | _ \<Rightarrow> []))"

subsection \<open>The reader needs no more fuel than it is given\<close>

lemma length_skip_ws [simp]: "length (skip_ws s) \<le> length s"
  by (simp add: skip_ws_def length_dropWhile_le)

lemma skip_ws_Cons_length: "skip_ws s = c # t \<Longrightarrow> length t < length s"
  using length_skip_ws [of s] by simp

lemma lex_string_shorter: "lex_string s = Some (b, r) \<Longrightarrow> length r < length s"
proof (induction "length s" arbitrary: s b r rule: less_induct)
  case less
  show ?case
  proof (cases s)
    case Nil
    with less.prems show ?thesis by simp
  next
    case (Cons c s')
    have IH: "length u < length t" if "lex_string t = Some (b', u)" "length t < length s" for t b' u
      using less.hyps that by blast
    consider (quote) "c = CHR 0x22" | (esc) "c = CHR 0x5C" | (plain) "c \<noteq> CHR 0x22" "c \<noteq> CHR 0x5C"
      by blast
    then show ?thesis
    proof cases
      case quote
      with less.prems Cons show ?thesis by simp
    next
      case esc
      with less.prems Cons obtain e s1 where s': "s' = e # s1" by (cases s') auto
      show ?thesis
      proof (cases "simple_escape e")
        case True
        with less.prems Cons esc s' obtain b' where "lex_string s1 = Some (b', r)" by auto
        with IH [of s1] Cons s' show ?thesis by fastforce
      next
        case False
        with less.prems Cons esc s' obtain h1 h2 h3 h4 s2 b' where "s1 = h1 # h2 # h3 # h4 # s2"
          and "lex_string s2 = Some (b', r)"
          by (simp split: list.splits if_splits) blast
        with IH [of s2] Cons s' show ?thesis by fastforce
      qed
    next
      case plain
      with less.prems Cons IH [of s'] show ?thesis by (fastforce split: if_splits)
    qed
  qed
qed

lemma length_dropWhile_Suc: "length (dropWhile p xs) \<le> Suc (length xs)"
  "length (dropWhile p xs) \<le> Suc (Suc (length xs))"
  using length_dropWhile_le [of p xs] by simp_all

lemma span_digits_shorter: "span_digits s = (ds, r) \<Longrightarrow> length r \<le> length s"
  by (auto simp: span_digits_def length_dropWhile_le)

lemma lex_frac_shorter: "lex_frac s = Some (fs, r) \<Longrightarrow> length r \<le> length s"
  by (auto simp: lex_frac_def span_digits_def Let_def length_dropWhile_le
      split: list.splits if_splits intro: length_dropWhile_Suc)

lemma lex_exp_shorter: "lex_exp s = Some (fs, r) \<Longrightarrow> length r \<le> length s"
  by (auto simp: lex_exp_def span_digits_def Let_def length_dropWhile_le
      split: list.splits if_splits intro: length_dropWhile_Suc)

lemma lex_int_shorter: "lex_int s = Some (ds, r) \<Longrightarrow> length r < length s"
  by (auto simp: lex_int_def span_digits_def Let_def length_dropWhile_le less_Suc_eq_le
      split: list.splits if_splits)

lemma lex_number_shorter: "lex_number s = Some (l, r) \<Longrightarrow> length r < length s"
  by (force simp: lex_number_def Let_def split: list.splits if_splits option.splits
      dest!: lex_int_shorter lex_frac_shorter lex_exp_shorter)

lemma parse_shorter:
  "parse_value n d s = Some (j, r) \<Longrightarrow> length r < length s"
  "parse_elems n d s = Some (js, r) \<Longrightarrow> length r < length s"
  "parse_members n d s = Some (ms, r) \<Longrightarrow> length r < length s"
proof (induction n d s and n d s and n d s arbitrary: j r and js r and ms r
    rule: parse_value_parse_elems_parse_members.induct)
  case (2 n d s)
  then show ?case
    by (fastforce split: list.splits if_splits dest!: skip_ws_Cons_length
        dest: lex_string_shorter lex_number_shorter)
next
  case (4 n d s)
  then show ?case
    by (fastforce split: list.splits if_splits option.splits prod.splits dest!: skip_ws_Cons_length)
next
  case (6 n d s)
  then show ?case
    by (fastforce split: list.splits if_splits option.splits prod.splits dest!: skip_ws_Cons_length
        dest: lex_string_shorter)
qed simp_all

lemma parse_fuel_Suc:
  "(\<forall>d s. 2 * length s < n \<longrightarrow> parse_value (Suc n) d s = parse_value n d s) \<and>
   (\<forall>d s. Suc (2 * length s) < n \<longrightarrow> parse_elems (Suc n) d s = parse_elems n d s) \<and>
   (\<forall>d s. Suc (2 * length s) < n \<longrightarrow> parse_members (Suc n) d s = parse_members n d s)"
proof (induction n)
  case 0
  then show ?case by simp
next
  case (Suc n)
  have v: "parse_value (Suc n) d s = parse_value n d s" if "2 * length s < n" for d s
    using Suc that by blast
  have e: "parse_elems (Suc n) d s = parse_elems n d s" if "Suc (2 * length s) < n" for d s
    using Suc that by blast
  have m: "parse_members (Suc n) d s = parse_members n d s" if "Suc (2 * length s) < n" for d s
    using Suc that by blast
  have "parse_value (Suc (Suc n)) d s = parse_value (Suc n) d s" if "2 * length s < Suc n" for d s
  proof (cases "skip_ws s")
    case (Cons c t)
    then have "Suc (2 * length t) < n" using skip_ws_Cons_length [of s c t] that by simp
    then show ?thesis using Cons
      by (simp add: e m split: list.split del: parse_elems.simps parse_members.simps)
  qed simp
  moreover have "parse_elems (Suc (Suc n)) d s = parse_elems (Suc n) d s"
    if "Suc (2 * length s) < Suc n" for d s
  proof -
    have "parse_elems (Suc n) d t = parse_elems n d t"
      if "parse_value n d s = Some (x, r)" "skip_ws r = c # t" for x r c t
      using parse_shorter(1) [OF that(1)] skip_ws_Cons_length [OF that(2)]
        \<open>Suc (2 * length s) < Suc n\<close> by (intro e) simp
    then show ?thesis using v [of s d] that
      by (auto simp del: parse_value.simps parse_elems.simps
          simp: parse_elems.simps(2) [of "Suc n"] parse_elems.simps(2) [of n]
          split: option.split list.split)
  qed
  moreover have "parse_members (Suc (Suc n)) d s = parse_members (Suc n) d s"
    if "Suc (2 * length s) < Suc n" for d s
  proof -
    have a: "parse_value (Suc n) d u = parse_value n d u" and
         b: "parse_value n d u = Some (x, w) \<Longrightarrow> skip_ws w = f # y \<Longrightarrow>
             parse_members (Suc n) d y = parse_members n d y"
      if "skip_ws s = q # t" "lex_string t = Some (k, r)" "skip_ws r = c # u" for q t k r c u x w f y
    proof -
      have l: "length u + 3 \<le> length s"
        using skip_ws_Cons_length [OF that(1)] lex_string_shorter [OF that(2)]
          skip_ws_Cons_length [OF that(3)] by linarith
      then show "parse_value (Suc n) d u = parse_value n d u"
        using \<open>Suc (2 * length s) < Suc n\<close> by (intro v) linarith
      show "parse_members (Suc n) d y = parse_members n d y"
        if "parse_value n d u = Some (x, w)" "skip_ws w = f # y"
        using parse_shorter(1) [OF that(1)] skip_ws_Cons_length [OF that(2)] l
          \<open>Suc (2 * length s) < Suc n\<close> by (intro m) linarith
    qed
    then show ?thesis
      by (auto simp del: parse_value.simps parse_members.simps
          simp: parse_members.simps(2) [of "Suc n"] parse_members.simps(2) [of n]
          split: option.split list.split)
  qed
  ultimately show ?case by blast
qed

lemma parse_fuel:
  assumes "2 * length s < n"
  shows "parse_value (n + k) d s = parse_value n d s"
proof (induction k)
  case (Suc k)
  have "parse_value (Suc (n + k)) d s = parse_value (n + k) d s"
    using parse_fuel_Suc [of "n + k"] assms by auto
  with Suc show ?case by simp
qed simp

subsection \<open>What is printed is valid\<close>

lemma is_hex_hex_digit [simp]: "is_hex (hex_digit n)"
proof -
  have "n mod 16 = 0 \<or> n mod 16 = 1 \<or> n mod 16 = 2 \<or> n mod 16 = 3 \<or> n mod 16 = 4 \<or> n mod 16 = 5
    \<or> n mod 16 = 6 \<or> n mod 16 = 7 \<or> n mod 16 = 8 \<or> n mod 16 = 9 \<or> n mod 16 = 10 \<or> n mod 16 = 11
    \<or> n mod 16 = 12 \<or> n mod 16 = 13 \<or> n mod 16 = 14 \<or> n mod 16 = 15"
    by presburger
  then show ?thesis by (auto simp: hex_digit_def is_hex_def is_digit_def in_range_def)
qed

lemma lex_string_simple_escape:
  "simple_escape e \<Longrightarrow>
   lex_string (CHR 0x5C # e # t) = map_option (\<lambda>(r, u). (CHR 0x5C # e # r, u)) (lex_string t)"
  by simp

lemma lex_string_u_escape:
  "lex_string (CHR 0x5C # CHR ''u'' # hex_digit a # hex_digit b # hex_digit c # hex_digit d # t) =
   map_option (\<lambda>(r, u). (CHR 0x5C # CHR ''u'' # hex_digit a # hex_digit b # hex_digit c # hex_digit d # r, u))
     (lex_string t)"
  by (simp add: simple_escape_def)

lemma zero_hex_digit: "CHR ''0'' = hex_digit 0" "CHR ''2'' = hex_digit 2" "CHR ''f'' = hex_digit 15"
  "CHR ''d'' = hex_digit 13"
  by (simp_all add: hex_digit_def)

lemma lex_string_quote_char:
  assumes "of_char c < (128::nat)"
  shows "lex_string (quote_char c @ t) = map_option (\<lambda>(r, u). (quote_char c @ r, u)) (lex_string t)"
proof -
  consider (simple) "c \<in> {CHR 0x22, CHR 0x5C, CHR 0x08, CHR 0x0C, CHR 0x0A, CHR 0x0D, CHR 0x09}"
    | (u) "quote_char c = u_escape c"
    | (plain) "quote_char c = [c]" "c \<noteq> CHR 0x22" "c \<noteq> CHR 0x5C" "\<not> of_char c < (32::nat)"
    by (cases "c \<in> {CHR 0x22, CHR 0x5C, CHR 0x08, CHR 0x0C, CHR 0x0A, CHR 0x0D, CHR 0x09}";
        cases "of_char c < (32::nat) \<or> html_char c") (auto simp: quote_char_def)
  then show ?thesis
  proof cases
    case simple
    then have "\<exists>e. quote_char c = [CHR 0x5C, e] \<and> simple_escape e"
      by (auto simp: quote_char_def simple_escape_def)
    then show ?thesis by (auto simp: lex_string_simple_escape simp del: lex_string.simps)
  next
    case u
    then show ?thesis
      by (simp only: u_escape_def append_Cons append_Nil zero_hex_digit lex_string_u_escape)
  next
    case plain
    then show ?thesis by simp
  qed
qed

lemma lex_string_high:
  assumes "\<forall>b \<in> set bs. 128 \<le> (of_char b :: nat)"
  shows "lex_string (bs @ t) = map_option (\<lambda>(r, u). (bs @ r, u)) (lex_string t)"
  using assms
proof (induction bs)
  case Nil
  then show ?case by (cases "lex_string t") auto
next
  case (Cons b bs)
  then have "b \<noteq> CHR 0x22" "b \<noteq> CHR 0x5C" "\<not> of_char b < (32::nat)" by auto
  with Cons show ?case by (cases "lex_string t") auto
qed

lemma rune_high:
  assumes "\<not> in_range 0 127 (hd s)" "s \<noteq> []"
  shows "\<forall>b \<in> set (take (rune_len s) s). 128 \<le> (of_char b :: nat)"
proof (cases s)
  case Nil
  with assms show ?thesis by simp
next
  case (Cons b0 t)
  with assms(1) have b0: "128 \<le> (of_char b0 :: nat)" by (simp add: in_range_def)
  have hi: "128 \<le> (of_char b :: nat)" if "cont b \<or> in_range 160 191 b \<or> in_range 128 159 b
      \<or> in_range 144 191 b \<or> in_range 128 143 b" for b
    using that by (auto simp: cont_def in_range_def)
  consider (two) "in_range 194 223 b0" | (three) "\<not> in_range 194 223 b0" "in_range 224 239 b0"
    | (four) "\<not> in_range 194 223 b0" "\<not> in_range 224 239 b0" "in_range 240 244 b0"
    | (none) "\<not> in_range 194 223 b0" "\<not> in_range 224 239 b0" "\<not> in_range 240 244 b0"
    by blast
  then show ?thesis
  proof cases
    case two
    with Cons assms(1) b0 hi show ?thesis by (cases t) auto
  next
    case three
    with Cons assms(1) b0 hi show ?thesis by (cases t; cases "tl t") auto
  next
    case four
    with Cons assms(1) b0 hi show ?thesis by (cases t; cases "tl t"; cases "tl (tl t)") auto
  next
    case none
    with Cons assms(1) show ?thesis by simp
  qed
qed

lemma lex_string_quote_body:
  "lex_string (quote_body s @ CHR 0x22 # r) = Some (quote_body s, r)"
proof (induction s rule: quote_body.induct)
  case (1 s)
  show ?case
  proof (cases "s = []")
    case True
    then show ?thesis by (simp add: quote_body.simps)
  next
    case False
    note ne = this
    consider (low) "in_range 0 127 (hd s)"
      | (bad) "\<not> in_range 0 127 (hd s)" "rune_len s = 0"
      | (sep) "\<not> in_range 0 127 (hd s)" "rune_len s \<noteq> 0" "line_sep s"
      | (rune) "\<not> in_range 0 127 (hd s)" "rune_len s \<noteq> 0" "\<not> line_sep s"
      by blast
    then show ?thesis
    proof cases
      case low
      then have "of_char (hd s) < (128::nat)" by (simp add: in_range_def)
      with low ne "1.IH"(1) show ?thesis
        by (simp add: quote_body.simps [of s] lex_string_quote_char)
    next
      case bad
      with ne "1.IH"(2) show ?thesis
        by (simp add: quote_body.simps [of s] lex_string_u_escape zero_hex_digit del: lex_string.simps)
    next
      case sep
      with ne "1.IH"(3) show ?thesis
        by (simp add: quote_body.simps [of s] line_sep_escape_def lex_string_u_escape zero_hex_digit
            del: lex_string.simps)
    next
      case rune
      with ne "1.IH"(4) show ?thesis
        by (simp add: quote_body.simps [of s] lex_string_high [OF rune_high])
    qed
  qed
qed

text \<open>A document of strings, integers, booleans and maps of them, and how deep it nests.\<close>

fun raw_free :: "gojson \<Rightarrow> bool" where
  "raw_free (GRaw s) = False"
| "raw_free (GMap kvs) = (\<forall>(k, v) \<in> set kvs. raw_free v)"
| "raw_free _ = True"

fun gdepth :: "gojson \<Rightarrow> nat" where
  "gdepth (GMap kvs) = Suc (fold max (map (\<lambda>(k, v). gdepth v) kvs) 0)"
| "gdepth _ = 0"

lemma fold_max_nat_upper: "y \<in> set xs \<Longrightarrow> (y::nat) \<le> fold max xs x"
proof (induction xs arbitrary: x)
  case (Cons z zs)
  have "w \<le> fold max ws w" for w :: nat and ws
    by (induction ws arbitrary: w) (auto intro: order_trans [OF max.cobounded2])
  with Cons show ?case by (cases "y = z") (auto intro: order_trans [OF max.cobounded1])
qed simp

definition delim :: "string \<Rightarrow> bool" where
  "delim r = (r = [] \<or> hd r = CHR '','' \<or> hd r = CHR ''}'')"

lemma delim_simps [simp]: "delim []" "delim (CHR '','' # r)" "delim (CHR ''}'' # r)"
  by (simp_all add: delim_def)

lemma skip_ws_Cons [simp]: "\<not> is_ws c \<Longrightarrow> skip_ws (c # s) = c # s"
  by (simp add: skip_ws_def)

lemma not_ws [simp]: "\<not> is_ws CHR 0x22" "\<not> is_ws CHR '':''" "\<not> is_ws CHR '',''"
  "\<not> is_ws CHR ''}''" "\<not> is_ws CHR ''{''" "\<not> is_ws CHR ''t''" "\<not> is_ws CHR ''f''" "\<not> is_ws CHR ''-''"
  by (simp_all add: is_ws_def)

lemma parse_marshal_string:
  "parse_value (Suc n) d (marshal_string s @ r) = Some (JStr (unquote (quote_body s)), r)"
  by (simp add: marshal_string_def lex_string_quote_body)

lemma delim_not_digit: "delim r \<Longrightarrow> r \<noteq> [] \<Longrightarrow> \<not> is_digit (hd r) \<and> hd r \<noteq> CHR ''.'' \<and> hd r \<noteq> CHR ''e'' \<and> hd r \<noteq> CHR ''E''"
  by (auto simp: delim_def is_digit_def in_range_def)

lemma lex_tail: "delim r \<Longrightarrow> lex_frac r = Some ([], r) \<and> lex_exp r = Some ([], r)"
  using delim_not_digit [of r] by (cases r) (auto simp: lex_frac_def lex_exp_def)

lemma span_digits_append:
  assumes "\<forall>c \<in> set ds. is_digit c" and "delim r"
  shows "takeWhile is_digit (ds @ r) = ds \<and> dropWhile is_digit (ds @ r) = r"
  using assms delim_not_digit [of r] by (cases r) auto

lemma lex_int_nat_dec: "delim r \<Longrightarrow> lex_int (nat_dec n @ r) = Some (nat_dec n, r)"
proof -
  assume r: "delim r"
  obtain c cs where n: "nat_dec n = c # cs" using nat_dec_digits [of n] by (cases "nat_dec n") auto
  show ?thesis
  proof (cases "c = CHR ''0''")
    case True
    with n nat_dec_hd [of n] show ?thesis by (simp add: lex_int_def)
  next
    case False
    with n nat_dec_digits [of n] span_digits_append [of "nat_dec n" r] r show ?thesis
      by (simp add: lex_int_def span_digits_def)
  qed
qed

lemma digit_not: "is_digit c \<Longrightarrow> c \<noteq> CHR ''{'' \<and> c \<noteq> CHR ''['' \<and> c \<noteq> CHR 0x22 \<and> c \<noteq> CHR ''t''
  \<and> c \<noteq> CHR ''f'' \<and> c \<noteq> CHR ''n'' \<and> c \<noteq> CHR ''-'' \<and> \<not> is_ws c"
  by (auto simp: is_digit_def in_range_def is_ws_def)

lemma parse_int_dec: "delim r \<Longrightarrow> parse_value (Suc n) d (int_dec i @ r) = Some (JNum (int_dec i), r)"
proof -
  assume r: "delim r"
  have num: "lex_number (int_dec i @ r) = Some (int_dec i, r)"
  proof (cases "i < 0")
    case True
    with r lex_int_nat_dec lex_tail [OF r] show ?thesis by (simp add: int_dec_def lex_number_def)
  next
    case False
    obtain c cs where "nat_dec (nat i) = c # cs" "is_digit c"
      using nat_dec_digits [of "nat i"] by (cases "nat_dec (nat i)") auto
    with False r lex_int_nat_dec [OF r, of "nat i"] lex_tail [OF r] digit_not [of c]
    show ?thesis by (simp add: int_dec_def lex_number_def)
  qed
  obtain c cs where c: "int_dec i @ r = c # cs" "is_digit c \<or> c = CHR ''-''"
    using nat_dec_digits [of "nat i"] nat_dec_digits [of "nat (- i)"]
    by (cases "i < 0"; cases "nat_dec (nat i)") (auto simp: int_dec_def)
  then have "\<not> is_ws c" "c \<noteq> CHR ''{''" "c \<noteq> CHR ''[''" "c \<noteq> CHR 0x22" "\<not> has_prefix (c # cs) ''true''"
    "\<not> has_prefix (c # cs) ''false''" "\<not> has_prefix (c # cs) ''null''"
    using digit_not [of c] by (auto simp: has_prefix_def)
  with num show ?thesis by (simp add: c(1))
qed

lemma parse_members_join:
  assumes "kvs \<noteq> []"
    and "\<And>k v n r. (k, v) \<in> set kvs \<Longrightarrow> delim r \<Longrightarrow> 2 * length (v @ r) < n
           \<Longrightarrow> \<exists>j. parse_value n d (v @ r) = Some (j, r)"
    and "Suc (2 * length (join '','' (map (\<lambda>(k, v). marshal_string k @ '':'' @ v) kvs) @ CHR ''}'' # r)) < n"
  shows "\<exists>ms. parse_members n d (join '','' (map (\<lambda>(k, v). marshal_string k @ '':'' @ v) kvs) @ CHR ''}'' # r)
           = Some (ms, r)"
  using assms
proof (induction kvs arbitrary: n rule: list_nonempty_induct)
  case (single kv)
  obtain k v where kv: "kv = (k, v)" by (cases kv)
  obtain m where n: "n = Suc m" using single.prems(2) by (cases n) auto
  have "2 * length (v @ CHR ''}'' # r) < m" using single.prems(2) kv n by simp
  then obtain j where "parse_value m d (v @ CHR ''}'' # r) = Some (j, CHR ''}'' # r)"
    using single.prems(1) kv by fastforce
  with kv n show ?case by (simp add: marshal_string_def lex_string_quote_body del: parse_value.simps)
next
  case (cons kv kvs)
  obtain k v where kv: "kv = (k, v)" by (cases kv)
  obtain m where n: "n = Suc m" using cons.prems(2) by (cases n) auto
  obtain y ys where ys: "map (\<lambda>(k, v). marshal_string k @ '':'' @ v) kvs = y # ys"
    using cons.hyps(1) by (cases kvs) auto
  let ?t = "join '','' (y # ys) @ CHR ''}'' # r"
  have len: "2 * length (v @ CHR '','' # ?t) < m" "Suc (2 * length ?t) < m"
    using cons.prems(2) kv n ys by simp_all
  then obtain j where j: "parse_value m d (v @ CHR '','' # ?t) = Some (j, CHR '','' # ?t)"
    using cons.prems(1) [of k v] kv by fastforce
  have "\<exists>ms. parse_members m d ?t = Some (ms, r)"
    using cons.IH [of m] cons.prems(1) len(2) ys by (metis list.set_intros(2))
  then obtain ms where ms: "parse_members m d ?t = Some (ms, r)" ..
  show ?case using j ms kv n ys
    by (simp add: marshal_string_def lex_string_quote_body del: parse_value.simps)
qed

lemma parse_marshal:
  assumes "raw_free g" and "d + gdepth g \<le> max_nesting" and "delim r" and "2 * length (marshal g @ r) < n"
  shows "\<exists>j. parse_value n d (marshal g @ r) = Some (j, r)"
  using assms
proof (induction g arbitrary: d r n)
  case (GStr s)
  then show ?case by (cases n) (auto simp: parse_marshal_string simp del: parse_value.simps(2))
next
  case (GInt i)
  then show ?case by (cases n) (auto simp: parse_int_dec simp del: parse_value.simps(2))
next
  case (GBool b)
  then obtain m where "n = Suc m" by (cases n) auto
  then show ?case by (simp add: has_prefix_def)
next
  case (GRaw s)
  then show ?case by simp
next
  case (GMap kvs)
  obtain m where n: "n = Suc m" using GMap.prems(4) by (cases n) auto
  let ?kvs = "sort_key fst (map (\<lambda>(k, v). (k, marshal v)) kvs)"
  let ?body = "join '','' (map (\<lambda>(k, v). marshal_string k @ '':'' @ v) ?kvs)"
  have d: "d < max_nesting" using GMap.prems(2) by simp
  show ?case
  proof (cases "kvs = []")
    case True
    with n d show ?thesis by simp
  next
    case False
    then have ne: "?kvs \<noteq> []" by (metis length_0_conv length_map length_sort)
    have vals: "\<exists>j. parse_value n' (Suc d) (v @ r') = Some (j, r')"
      if "(k, v) \<in> set ?kvs" "delim r'" "2 * length (v @ r') < n'" for k v n' r'
    proof -
      from that(1) obtain g where g: "(k, g) \<in> set kvs" "v = marshal g" by auto
      have "gdepth g \<le> fold max (map (\<lambda>(k, v). gdepth v) kvs) 0"
        using g(1) by (intro fold_max_nat_upper) force
      then have "Suc d + gdepth g \<le> max_nesting" using GMap.prems(2) by simp
      with g GMap.prems(1) that show ?thesis
        using GMap.IH [of "(k, g)" g "Suc d" r' n'] by auto
    qed
    have "Suc (2 * length (?body @ CHR ''}'' # r)) < m" using GMap.prems(4) n by simp
    then have "\<exists>ms. parse_members m (Suc d) (?body @ CHR ''}'' # r) = Some (ms, r)"
      by (rule parse_members_join [OF ne vals, rotated -1])
    then obtain ms where
      "parse_members m (Suc d) (?body @ CHR ''}'' # r) = Some (ms, r)" ..
    moreover have "\<exists>t. ?body @ CHR ''}'' # r = CHR 0x22 # t"
      using ne by (cases ?kvs; cases "tl ?kvs") (auto simp: marshal_string_def)
    ultimately show ?thesis using n d by (auto simp del: parse_members.simps)
  qed
qed

lemma json_valid_marshal:
  assumes "raw_free g" and "gdepth g \<le> max_nesting"
  shows "json_valid (marshal g)"
proof -
  have "\<exists>j. parse_value (3 * length (marshal g) + 3) 0 (marshal g @ []) = Some (j, [])"
    using assms by (intro parse_marshal) auto
  then show ?thesis by (auto simp: json_valid_def json_parse_def skip_ws_def)
qed

end
