(* ===== verification/Deploy_Contracts.thy ===== *)
theory Deploy_Contracts
  imports Go_Prelude
begin

text \<open>
  The closed vocabularies of the deployment engine (backend/internal/deploy/contracts.go and
  orchestration_model.go) and the two transition tables.
  A Go string type with named constants is a datatype with one constructor per constant and one
  more for a value outside the vocabulary, because columns, requests and adapters can carry such
  values and the validity checks exist to refuse them.
  The lemmas give the shape of the run machine: a rank that every edge raises (so a run makes at
  most nine transitions), that only terminal states are final, that cancellation is impossible
  from the start of activation on, and for steps that a finished attempt is never reopened except
  by the retry edge.
\<close>

subsection \<open>Vocabularies\<close>

datatype Operation =
    OperationDeploy | OperationRedeploy | OperationRestart | OperationForceBuild
  | OperationRollback | OperationPreviewCreate | OperationPreviewUpdate | OperationPreviewRemove
  | OperationScheduled | OperationImportAdopt | OperationRemoveManaged
  | OperationOther string

datatype TriggerKind =
    TriggerManual | TriggerLegacyHook | TriggerGenericHook | TriggerGitHub | TriggerGitLab
  | TriggerBitbucket | TriggerGitea | TriggerAPI | TriggerSchedule | TriggerPreview
  | TriggerRollback | TriggerMigration
  | TriggerOther string

datatype RunState =
    RunRequested | RunValidating | RunQueued | RunPreparing | RunRunning | RunVerifying
  | RunActivating | RunFailedActivation | RunRestoringPrevious | RunCancelling
  | RunSucceeded | RunFailed | RunCancelled | RunRolledBack | RunSuperseded
  | RunOther string

datatype StepKey =
    StepResolveSource | StepAcquireSource | StepAnalyzePlan | StepPrepareContext
  | StepBuildArtifact | StepRenderRuntime | StepReleaseTask | StepBackupGate
  | StepStartCandidate | StepVerifyReadiness | StepVerifySmoke | StepActivate
  | StepRetirePrevious | StepRecordRelease | StepNotify | StepLegacyPipeline
  | StepKeyOther string

datatype StepState =
    StepPending | StepBlocked | StepRunning | StepPassed | StepWarning | StepFailed
  | StepSkipped | StepCancelled | StepUnavailable
  | StepStateOther string

datatype EventType =
    EventRunState | EventStepState | EventStepLog | EventStepEvidence | EventQueuePosition
  | EventFinding | EventArtifact | EventHeartbeat | EventResync
  | EventOther string

datatype SlotClass = SlotLight | SlotHeavy | SlotOther string

text \<open>The text of a run state, a step state and a step key, as columns and events carry it.\<close>

fun run_state_string :: "RunState \<Rightarrow> string" where
  "run_state_string RunRequested = ''requested''"
| "run_state_string RunValidating = ''validating''"
| "run_state_string RunQueued = ''queued''"
| "run_state_string RunPreparing = ''preparing''"
| "run_state_string RunRunning = ''running''"
| "run_state_string RunVerifying = ''verifying''"
| "run_state_string RunActivating = ''activating''"
| "run_state_string RunFailedActivation = ''failed_activation''"
| "run_state_string RunRestoringPrevious = ''restoring_previous''"
| "run_state_string RunCancelling = ''cancelling''"
| "run_state_string RunSucceeded = ''succeeded''"
| "run_state_string RunFailed = ''failed''"
| "run_state_string RunCancelled = ''cancelled''"
| "run_state_string RunRolledBack = ''rolled_back''"
| "run_state_string RunSuperseded = ''superseded''"
| "run_state_string (RunOther s) = s"

definition allRunStates :: "RunState list" where
  "allRunStates =
     [RunRequested, RunValidating, RunQueued, RunPreparing, RunRunning, RunVerifying,
      RunActivating, RunFailedActivation, RunRestoringPrevious, RunCancelling,
      RunSucceeded, RunFailed, RunCancelled, RunRolledBack, RunSuperseded]"

text \<open>The run state a text stands for, \<open>RunState(s)\<close> in the sources.\<close>

definition run_state_of_string :: "string \<Rightarrow> RunState" where
  "run_state_of_string s =
     (case find (\<lambda>r. run_state_string r = s) allRunStates of Some r \<Rightarrow> r | None \<Rightarrow> RunOther s)"

fun step_state_string :: "StepState \<Rightarrow> string" where
  "step_state_string StepPending = ''pending''"
| "step_state_string StepBlocked = ''blocked''"
| "step_state_string StepRunning = ''running''"
| "step_state_string StepPassed = ''passed''"
| "step_state_string StepWarning = ''warning''"
| "step_state_string StepFailed = ''failed''"
| "step_state_string StepSkipped = ''skipped''"
| "step_state_string StepCancelled = ''cancelled''"
| "step_state_string StepUnavailable = ''unavailable''"
| "step_state_string (StepStateOther s) = s"

fun step_key_string :: "StepKey \<Rightarrow> string" where
  "step_key_string StepResolveSource = ''resolve_source''"
| "step_key_string StepAcquireSource = ''acquire_source''"
| "step_key_string StepAnalyzePlan = ''analyze_plan''"
| "step_key_string StepPrepareContext = ''prepare_context''"
| "step_key_string StepBuildArtifact = ''build_artifact''"
| "step_key_string StepRenderRuntime = ''render_runtime''"
| "step_key_string StepReleaseTask = ''release_task''"
| "step_key_string StepBackupGate = ''backup_gate''"
| "step_key_string StepStartCandidate = ''start_candidate''"
| "step_key_string StepVerifyReadiness = ''verify_readiness''"
| "step_key_string StepVerifySmoke = ''verify_smoke''"
| "step_key_string StepActivate = ''activate''"
| "step_key_string StepRetirePrevious = ''retire_previous''"
| "step_key_string StepRecordRelease = ''record_release''"
| "step_key_string StepNotify = ''notify''"
| "step_key_string StepLegacyPipeline = ''legacy_pipeline''"
| "step_key_string (StepKeyOther s) = s"

definition slot_valid :: "SlotClass \<Rightarrow> bool" where
  "slot_valid s = (s = SlotLight \<or> s = SlotHeavy)"

subsection \<open>The run machine\<close>

fun runTransitions :: "RunState \<Rightarrow> RunState list" where
  "runTransitions RunRequested = [RunValidating, RunCancelling, RunFailed]"
| "runTransitions RunValidating = [RunQueued, RunCancelling, RunFailed]"
| "runTransitions RunQueued = [RunPreparing, RunCancelling, RunSuperseded, RunFailed]"
| "runTransitions RunPreparing = [RunRunning, RunCancelling, RunFailed]"
| "runTransitions RunRunning = [RunVerifying, RunCancelling, RunFailed]"
| "runTransitions RunVerifying = [RunActivating, RunCancelling, RunFailed]"
| "runTransitions RunActivating = [RunSucceeded, RunFailedActivation]"
| "runTransitions RunFailedActivation = [RunRestoringPrevious, RunFailed]"
| "runTransitions RunRestoringPrevious = [RunRolledBack, RunFailed]"
| "runTransitions RunCancelling = [RunCancelled, RunFailed]"
| "runTransitions _ = []"

fun Terminal :: "RunState \<Rightarrow> bool" where
  "Terminal RunSucceeded = True"
| "Terminal RunFailed = True"
| "Terminal RunCancelled = True"
| "Terminal RunRolledBack = True"
| "Terminal RunSuperseded = True"
| "Terminal _ = False"

definition CanTransitionRun :: "RunState \<Rightarrow> RunState \<Rightarrow> bool" where
  "CanTransitionRun from to = (to \<in> set (runTransitions from))"

subsection \<open>The step machine\<close>

definition DefaultStepKeys :: "StepKey list" where
  "DefaultStepKeys =
     [StepResolveSource, StepAcquireSource, StepAnalyzePlan, StepPrepareContext,
      StepBuildArtifact, StepRenderRuntime, StepReleaseTask, StepBackupGate,
      StepStartCandidate, StepVerifyReadiness, StepVerifySmoke, StepActivate,
      StepRetirePrevious, StepRecordRelease, StepNotify]"

fun stepTransitions :: "StepState \<Rightarrow> StepState list" where
  "stepTransitions StepPending = [StepBlocked, StepRunning, StepSkipped, StepCancelled, StepUnavailable]"
| "stepTransitions StepBlocked = [StepPending, StepRunning, StepFailed, StepCancelled, StepUnavailable]"
| "stepTransitions StepRunning = [StepPassed, StepWarning, StepFailed, StepCancelled, StepUnavailable]"
| "stepTransitions StepFailed = [StepPending]"
| "stepTransitions _ = []"

definition CanTransitionStep :: "StepState \<Rightarrow> StepState \<Rightarrow> bool" where
  "CanTransitionStep from to = (to \<in> set (stepTransitions from))"

subsection \<open>Validity of a value\<close>

fun validOperation :: "Operation \<Rightarrow> bool" where
  "validOperation (OperationOther s) = False"
| "validOperation _ = True"

fun validTrigger :: "TriggerKind \<Rightarrow> bool" where
  "validTrigger (TriggerOther s) = False"
| "validTrigger _ = True"

definition validStepKey :: "StepKey \<Rightarrow> bool" where
  "validStepKey value = (value \<in> set DefaultStepKeys \<or> value = StepLegacyPipeline)"

fun validEventType :: "EventType \<Rightarrow> bool" where
  "validEventType (EventOther s) = False"
| "validEventType _ = True"

subsection \<open>Shape of the machines\<close>

text \<open>The number of edges on the longest path to a state.\<close>

fun run_rank :: "RunState \<Rightarrow> nat" where
  "run_rank RunRequested = 0"
| "run_rank RunValidating = 1"
| "run_rank RunQueued = 2"
| "run_rank RunPreparing = 3"
| "run_rank RunRunning = 4"
| "run_rank RunVerifying = 5"
| "run_rank RunActivating = 6"
| "run_rank RunCancelling = 6"
| "run_rank RunFailedActivation = 7"
| "run_rank RunRestoringPrevious = 8"
| "run_rank _ = 9"

lemma CanTransitionRun_rank: "CanTransitionRun from to \<Longrightarrow> run_rank from < run_rank to"
  by (cases "from") (auto simp: CanTransitionRun_def)

lemma run_rank_le: "run_rank s \<le> 9"
  by (cases s) auto

lemma CanTransitionRun_irrefl: "\<not> CanTransitionRun s s"
  using CanTransitionRun_rank by blast

lemma Terminal_no_transition: "Terminal from \<Longrightarrow> \<not> CanTransitionRun from to"
  by (cases "from") (auto simp: CanTransitionRun_def)

lemma CanTransitionRun_not_Terminal: "CanTransitionRun from to \<Longrightarrow> \<not> Terminal from"
  using Terminal_no_transition by blast

lemma run_state_of_string_string [simp]:
  "s \<in> set allRunStates \<Longrightarrow> run_state_of_string (run_state_string s) = s"
proof -
  have "list_all (\<lambda>s. run_state_of_string (run_state_string s) = s) allRunStates" by code_simp
  then show "s \<in> set allRunStates \<Longrightarrow> ?thesis" by (simp add: list_all_iff)
qed

lemma CanTransitionRun_Cancelling:
  "CanTransitionRun from RunCancelling \<longleftrightarrow>
   from \<in> {RunRequested, RunValidating, RunQueued, RunPreparing, RunRunning, RunVerifying}"
  by (cases "from") (auto simp: CanTransitionRun_def)

lemma CanTransitionRun_Other [simp]: "\<not> CanTransitionRun (RunOther s) to" "\<not> CanTransitionRun from (RunOther s)"
  by (cases "from"; simp add: CanTransitionRun_def)+

lemma CanTransitionStep_cases:
  "CanTransitionStep from to \<Longrightarrow> from \<in> {StepPending, StepBlocked, StepRunning, StepFailed}"
  by (cases "from") (auto simp: CanTransitionStep_def)

lemma distinct_DefaultStepKeys: "distinct DefaultStepKeys"
  by (simp add: DefaultStepKeys_def)

text \<open>A path of the run machine, and the paths of a finished run.\<close>

inductive run_path :: "RunState \<Rightarrow> RunState list \<Rightarrow> RunState \<Rightarrow> bool" where
  run_path_refl: "run_path s [] s"
| run_path_step: "CanTransitionRun s t \<Longrightarrow> run_path t ts u \<Longrightarrow> run_path s (t # ts) u"

inductive_cases run_path_NilE: "run_path s [] u"
inductive_cases run_path_ConsE: "run_path s (t # ts) u"

lemma run_path_rank: "run_path s ts u \<Longrightarrow> run_rank s + length ts \<le> run_rank u"
  by (induction rule: run_path.induct) (auto dest: CanTransitionRun_rank)

lemma run_path_append: "run_path s ts u \<Longrightarrow> run_path u us v \<Longrightarrow> run_path s (ts @ us) v"
  by (induction rule: run_path.induct) (auto intro: run_path.intros)

lemma run_path_after_activation:
  "run_path s ts u \<Longrightarrow>
   s \<in> {RunActivating, RunFailedActivation, RunRestoringPrevious, RunSucceeded, RunFailed, RunRolledBack} \<Longrightarrow>
   u \<in> {RunActivating, RunFailedActivation, RunRestoringPrevious, RunSucceeded, RunFailed, RunRolledBack}"
  by (induction rule: run_path.induct) (auto simp: CanTransitionRun_def)

end
