(* ===== verification/Deploy_Store.thy ===== *)
theory Deploy_Store
  imports Go_Json Deploy_Contracts
begin

text \<open>
  The tables of the deployment engine (backend/internal/store/store.go), the values read from
  them (orchestration_model.go, \<open>scanEngineRun\<close>, \<open>scanRunStep\<close>) and the append of one event
  to a run's sequence (\<open>appendEventTx\<close> of orchestration_events.go).
  A row is a record with the columns the modelled statements use; a table is the list of its rows
  in insertion order; an \<open>AUTOINCREMENT\<close> key comes from a counter. A transaction is a function from
  the database to an error or to a result with the new database and the events it appended:
  an error leaves the database as it was, which is the deferred \<open>tx.Rollback()\<close>. Errors of the
  driver itself (I/O, a cancelled context) abort the transaction in the same way and have no
  constructor of their own. Foreign keys are on, so an insert that names a missing run fails.
\<close>

subsection \<open>Errors\<close>

datatype deploy_error =
    ErrEnvironmentNotFound
  | ErrRunNotFound
  | ErrStepNotFound
  | ErrIdempotencyConflict
  | ErrLeaseLost
  | ErrRunTerminal
  | ErrRunNotCancellable
  | ErrRunNotRetryable
  | ErrEventPayloadTooLarge
  | ErrInvalidTransition string
  | ErrInvalidPlan string
  | ErrArtifactMissing
  | ErrPortUnavailable
  | ErrUniqueConstraint string
  | ErrInvalidVariable string
  | ErrVariableCycle "string list"
  | ErrRevisionConflict int
  | ErrForeignKey
  | ErrMessage string
  | ErrContextCanceled
  | ErrPanic

subsection \<open>Code outside the repository\<close>

text \<open>
  The functions the statements and the snapshots rely on: the digest of crypto/sha256, the text
  functions \<open>length\<close> and \<open>substr(_, -n)\<close> of the database, and the JSON object it prints for a
  dependency or check row (\<open>None\<close> when the row's \<open>config_json\<close> is malformed).
\<close>

record dep_row =
  d_environment_id :: int
  d_release_id :: int
  d_kind :: string
  d_ownership :: string
  d_resource_kind :: string
  d_resource_id :: string
  d_config_json :: string

record check_row =
  k_environment_id :: int
  k_ordinal :: int
  k_name :: string
  k_kind :: string
  k_phase :: string
  k_config_json :: string
  k_required :: bool

record externals =
  x_sha256 :: "string \<Rightarrow> string"
  x_text_length :: "string \<Rightarrow> nat"
  x_text_tail :: "nat \<Rightarrow> string \<Rightarrow> string"
  x_dep_json :: "dep_row \<Rightarrow> string option"
  x_check_json :: "check_row \<Rightarrow> string option"

subsection \<open>Rows\<close>

record env_row =
  e_id :: int
  e_project_id :: int
  e_slug :: string
  e_kind :: string
  e_desired_revision :: int
  e_live_release_id :: int
  e_strategy :: string
  e_expected_downtime :: int
  e_updated_at :: int
  e_archived_at :: int

record run_row =
  r_id :: int
  r_project_id :: int
  r_environment_id :: int
  r_started_at :: int
  r_ended_at :: int
  r_status :: string
  r_state :: RunState
  r_operation :: Operation
  r_trigger :: TriggerKind
  r_actor :: string
  r_from_commit :: string
  r_to_commit :: string
  r_log :: string
  r_requested_at :: int
  r_queued_at :: int
  r_claimed_at :: int
  r_heartbeat_at :: int
  r_cancel_requested :: bool
  r_superseded_by :: int
  r_retry_of_run_id :: int
  r_idempotency_key :: string
  r_request_digest :: string
  r_plan_revision :: int
  r_release_id :: int
  r_candidate_release_id :: int
  r_terminal_code :: string
  r_terminal_reason :: string
  r_lease_token :: string
  r_lease_until :: int
  r_priority :: int
  r_slot_class :: SlotClass
  r_metadata_json :: string

record step_row =
  s_id :: int
  s_run_id :: int
  s_step_key :: StepKey
  s_ordinal :: int
  s_status :: StepState
  s_attempt :: int
  s_timeout_seconds :: int
  s_started_at :: int
  s_ended_at :: int
  s_evidence_json :: string
  s_error_code :: string
  s_error_message :: string
  s_cleanup_json :: string
  s_last_seq :: int

record chunk_row =
  c_run_id :: int
  c_step_id :: int
  c_seq :: int
  c_event_type :: EventType
  c_stream :: string
  c_ts :: int
  c_text :: string
  c_data_json :: string
  c_redacted :: bool
  c_truncated :: bool
  c_compacted :: bool

record lease_row =
  l_run_id :: int
  l_environment_id :: int
  l_claim_token :: string
  l_slot_class :: SlotClass
  l_claimed_by :: string
  l_expires_at :: int
  l_heartbeat_at :: int
  l_created_at :: int

record source_row =
  src_id :: int
  src_environment_id :: int
  src_revision :: int
  src_kind :: string
  src_config_json :: string
  src_credential_id :: int
  src_identity_json :: string
  src_digest :: string
  src_created_at :: int

record build_plan_row =
  bp_id :: int
  bp_environment_id :: int
  bp_revision :: int
  bp_method :: string
  bp_config_json :: string
  bp_evidence_json :: string
  bp_preview :: string
  bp_digest :: string
  bp_created_at :: int

record runtime_plan_row =
  rp_id :: int
  rp_environment_id :: int
  rp_revision :: int
  rp_config_json :: string
  rp_preview :: string
  rp_digest :: string
  rp_created_at :: int

record var_row =
  v_id :: int
  v_environment_id :: int
  v_key :: string
  v_revision :: int
  v_sensitivity :: string
  v_scopes :: string
  v_value_enc :: string
  v_value_digest :: string
  v_active :: bool
  v_created_by :: string
  v_created_at :: int

record var_snapshot_row =
  vs_run_id :: int
  vs_environment_id :: int
  vs_digest :: string
  vs_copied_from_run_id :: int
  vs_created_at :: int

record run_var_row =
  rv_run_id :: int
  rv_variable_revision_id :: int
  rv_ordinal :: int

record plan_snapshot_row =
  ps_run_id :: int
  ps_environment_id :: int
  ps_dependencies_json :: string
  ps_checks_json :: string
  ps_digest :: string
  ps_copied_from_run_id :: int
  ps_created_at :: int

record release_row =
  rel_id :: int
  rel_environment_id :: int
  rel_number :: int
  rel_run_id :: int
  rel_predecessor_release_id :: int
  rel_state :: string
  rel_plan_revision :: int
  rel_source_id :: int
  rel_build_plan_id :: int
  rel_runtime_plan_id :: int
  rel_activated_at :: int
  rel_retired_at :: int

record runtime_row =
  rt_release_id :: int
  rt_environment_id :: int
  rt_kind :: string
  rt_runtime_id :: string
  rt_name :: string
  rt_working_directory :: string
  rt_host :: string
  rt_port :: int
  rt_state :: string
  rt_metadata_json :: string
  rt_created_at :: int
  rt_updated_at :: int

record port_lease_row =
  p_id :: int
  p_environment_id :: int
  p_run_id :: int
  p_address :: string
  p_port :: int
  p_protocol :: string
  p_token :: string
  p_expires_at :: int
  p_created_at :: int

record db =
  deploy_environments :: "env_row list"
  deploy_sources :: "source_row list"
  deploy_build_plans :: "build_plan_row list"
  deploy_runtime_plans :: "runtime_plan_row list"
  deploy_runs :: "run_row list"
  deploy_steps :: "step_row list"
  deploy_log_chunks :: "chunk_row list"
  deploy_queue_leases :: "lease_row list"
  deploy_variable_revisions :: "var_row list"
  deploy_run_variable_snapshots :: "var_snapshot_row list"
  deploy_run_variable_revisions :: "run_var_row list"
  deploy_run_plan_snapshots :: "plan_snapshot_row list"
  deploy_dependencies :: "dep_row list"
  deploy_checks :: "check_row list"
  deploy_releases :: "release_row list"
  deploy_release_runtimes :: "runtime_row list"
  deploy_port_leases :: "port_lease_row list"
  next_run_id :: int
  next_step_id :: int
  next_port_lease_id :: int
  next_source_id :: int
  next_build_plan_id :: int
  next_runtime_plan_id :: int
  next_variable_id :: int

subsection \<open>Constants\<close>

definition maxLogTextBytes :: nat where
  "maxLogTextBytes = 65536"

definition maxEventBytes :: nat where
  "maxEventBytes = 262144"

text \<open>Comparisons with the limits, on integers where an evaluation meets them.\<close>

lemma maxEventBytes_less [code_unfold]: "maxEventBytes < n \<longleftrightarrow> (262144::int) < int n"
  by (simp add: maxEventBytes_def)

lemma maxEventBytes_le [code_unfold]: "n \<le> maxEventBytes \<longleftrightarrow> int n \<le> (262144::int)"
  by (simp add: maxEventBytes_def)

lemma int_maxLogTextBytes [code_unfold]: "int maxLogTextBytes = 65536"
  by (simp add: maxLogTextBytes_def)

lemma error_limit_less [code_unfold]: "(8192::nat) < n \<longleftrightarrow> (8192::int) < int n"
  by simp

definition defaultPriority :: int where
  "defaultPriority = 100"

definition defaultLeaseTTL :: go_duration where
  "defaultLeaseTTL = 30 * second"

subsection \<open>Values read from rows\<close>

definition unixTimePtr :: "int \<Rightarrow> go_time option" where
  "unixTimePtr value = (if value = 0 then None else Some (of_unix value))"

definition validRawJSON :: "string \<Rightarrow> string" where
  "validRawJSON value = (if json_valid value then value else ''{}'')"

record EngineRun =
  ID :: int
  ProjectID :: int
  EnvironmentID :: int
  State :: RunState
  run_Operation :: Operation
  run_Trigger :: TriggerKind
  Actor :: string
  RequestedAt :: go_time
  QueuedAt :: "go_time option"
  ClaimedAt :: "go_time option"
  HeartbeatAt :: "go_time option"
  EndedAt :: "go_time option"
  CancelRequested :: bool
  SupersededBy :: int
  RetryOfRunID :: int
  IdempotencyKey :: string
  RequestDigest :: string
  PlanRevision :: int
  ReleaseID :: int
  CandidateReleaseID :: int
  TerminalCode :: string
  TerminalReason :: string
  LeaseUntil :: "go_time option"
  Priority :: int
  run_SlotClass :: SlotClass
  Metadata :: string

definition scanEngineRun :: "run_row \<Rightarrow> EngineRun" where
  "scanEngineRun r =
     \<lparr> ID = r_id r, ProjectID = r_project_id r, EnvironmentID = r_environment_id r,
       State = r_state r, run_Operation = r_operation r, run_Trigger = r_trigger r,
       Actor = r_actor r, RequestedAt = of_unix (r_requested_at r),
       QueuedAt = unixTimePtr (r_queued_at r), ClaimedAt = unixTimePtr (r_claimed_at r),
       HeartbeatAt = unixTimePtr (r_heartbeat_at r), EndedAt = unixTimePtr (r_ended_at r),
       CancelRequested = r_cancel_requested r, SupersededBy = r_superseded_by r,
       RetryOfRunID = r_retry_of_run_id r, IdempotencyKey = r_idempotency_key r,
       RequestDigest = r_request_digest r, PlanRevision = r_plan_revision r,
       ReleaseID = r_release_id r, CandidateReleaseID = r_candidate_release_id r,
       TerminalCode = r_terminal_code r, TerminalReason = r_terminal_reason r,
       LeaseUntil = unixTimePtr (r_lease_until r), Priority = r_priority r,
       run_SlotClass = r_slot_class r, Metadata = validRawJSON (r_metadata_json r) \<rparr>"

record RunStep =
  step_ID :: int
  step_RunID :: int
  step_Key :: StepKey
  step_Ordinal :: int
  step_State :: StepState
  step_Attempt :: int
  step_TimeoutSeconds :: int
  step_StartedAt :: "go_time option"
  step_EndedAt :: "go_time option"
  step_Evidence :: string
  step_ErrorCode :: string
  step_ErrorMessage :: string
  step_Cleanup :: string
  step_LastSeq :: int

definition scanRunStep :: "step_row \<Rightarrow> RunStep" where
  "scanRunStep s =
     \<lparr> step_ID = s_id s, step_RunID = s_run_id s, step_Key = s_step_key s,
       step_Ordinal = s_ordinal s, step_State = s_status s, step_Attempt = s_attempt s,
       step_TimeoutSeconds = s_timeout_seconds s, step_StartedAt = unixTimePtr (s_started_at s),
       step_EndedAt = unixTimePtr (s_ended_at s), step_Evidence = validRawJSON (s_evidence_json s),
       step_ErrorCode = s_error_code s, step_ErrorMessage = s_error_message s,
       step_Cleanup = validRawJSON (s_cleanup_json s), step_LastSeq = s_last_seq s \<rparr>"

record QueueLease =
  lease_RunID :: int
  lease_EnvironmentID :: int
  lease_Token :: string
  lease_SlotClass :: SlotClass
  lease_ClaimedBy :: string
  lease_ClaimedAt :: go_time
  lease_HeartbeatAt :: go_time
  lease_ExpiresAt :: go_time

record RunSnapshot =
  snap_Run :: EngineRun
  snap_Steps :: "RunStep list"

text \<open>
  The data of an event. A persisted event carries the bytes of its JSON document; the resync
  event, which is made when it is read and never persisted, keeps the two values its document is
  printed from.
\<close>

datatype event_data = EventBytes string | ResyncData int RunSnapshot

record RunEvent =
  ev_Seq :: int
  ev_Type :: EventType
  ev_RunID :: int
  ev_StepID :: int
  ev_TS :: go_time
  ev_Data :: event_data

subsection \<open>Lookups\<close>

definition run_by_id :: "db \<Rightarrow> int \<Rightarrow> run_row option" where
  "run_by_id db runID = find (\<lambda>r. r_id r = runID) (deploy_runs db)"

definition Run :: "db \<Rightarrow> int \<Rightarrow> deploy_error + EngineRun" where
  "Run db runID =
     (case run_by_id db runID of None \<Rightarrow> Err ErrRunNotFound | Some r \<Rightarrow> Ok (scanEngineRun r))"

definition ProductionEnvironment :: "db \<Rightarrow> int \<Rightarrow> deploy_error + int \<times> int" where
  "ProductionEnvironment db projectID =
     (case find (\<lambda>e. e_project_id e = projectID \<and> e_slug e = ''production'' \<and> e_archived_at e = 0)
             (deploy_environments db) of
        None \<Rightarrow> Err ErrEnvironmentNotFound
      | Some e \<Rightarrow> Ok (e_id e, e_desired_revision e))"

definition ProjectActive :: "db \<Rightarrow> int \<Rightarrow> bool" where
  "ProjectActive db projectID =
     (0 < sql_count (\<lambda>r. r_project_id r = projectID \<and>
            r_state r \<in> {RunRequested, RunValidating, RunQueued, RunPreparing, RunRunning,
              RunVerifying, RunActivating, RunFailedActivation, RunRestoringPrevious, RunCancelling})
          (deploy_runs db))"

definition steps_of :: "db \<Rightarrow> int \<Rightarrow> step_row list" where
  "steps_of db runID =
     sort_key (\<lambda>s. (s_ordinal s, s_attempt s)) (filter (\<lambda>s. s_run_id s = runID) (deploy_steps db))"

definition Steps :: "db \<Rightarrow> int \<Rightarrow> RunStep list" where
  "Steps db runID = map scanRunStep (steps_of db runID)"

definition Snapshot :: "db \<Rightarrow> int \<Rightarrow> deploy_error + RunSnapshot" where
  "Snapshot db runID =
     (case run_by_id db runID of
        None \<Rightarrow> Err ErrRunNotFound
      | Some r \<Rightarrow> Ok \<lparr> snap_Run = scanEngineRun r, snap_Steps = Steps db runID \<rparr>)"

fun legacyStatus :: "RunState \<Rightarrow> string" where
  "legacyStatus RunSucceeded = ''success''"
| "legacyStatus RunRolledBack = ''success''"
| "legacyStatus RunFailed = ''failed''"
| "legacyStatus RunCancelled = ''failed''"
| "legacyStatus RunSuperseded = ''failed''"
| "legacyStatus _ = ''running''"

subsection \<open>Cutting text at a rune\<close>

text \<open>\<open>for !utf8.ValidString(value) { value = value[:len(value)-1] }\<close>\<close>

function shrink_valid :: "string \<Rightarrow> string" where
  "shrink_valid value = (if utf8_valid value then value else shrink_valid (butlast value))"
  by pat_completeness auto
termination
proof (relation "measure length", goal_cases)
  case (2 v)
  then have "v \<noteq> []" by auto
  then show ?case by (cases v) auto
qed simp

declare shrink_valid.simps [simp del]

text \<open>A negative limit slices out of range, which panics.\<close>

definition truncateUTF8 :: "string \<Rightarrow> int \<Rightarrow> (string \<times> bool) option" where
  "truncateUTF8 value limit =
     (if int (length value) \<le> limit then Some (value, False)
      else if limit < 0 then None
      else Some (shrink_valid (take (nat limit) value), True))"

subsection \<open>Appending an event\<close>

definition event_bytes_valid :: "string \<Rightarrow> bool" where
  "event_bytes_valid data = (json_valid data \<and> length data \<le> maxEventBytes)"

definition next_seq :: "db \<Rightarrow> int \<Rightarrow> int" where
  "next_seq db runID = sql_max (\<lambda>c. c_run_id c = runID) c_seq (deploy_log_chunks db) + 1"

definition appendEventTx ::
  "go_time \<Rightarrow> int \<Rightarrow> int \<Rightarrow> EventType \<Rightarrow> string \<Rightarrow> string \<Rightarrow> string \<Rightarrow> db
     \<Rightarrow> deploy_error + RunEvent \<times> db" where
  "appendEventTx now runID stepID eventType stream text data db =
     (if \<not> validEventType eventType \<or> eventType = EventResync
      then Err (ErrMessage ''invalid persisted deployment event type'')
      else
        let data = (if data = [] then ''{}'' else data) in
        if \<not> json_valid data then Err (ErrMessage ''deployment event data is not valid JSON'')
        else if maxEventBytes < length data then Err ErrEventPayloadTooLarge
        else case truncateUTF8 text (int maxLogTextBytes) of
          None \<Rightarrow> Err ErrPanic
        | Some (text, truncated) \<Rightarrow>
            if run_by_id db runID = None then Err ErrForeignKey
            else
              let seq = next_seq db runID in
              Ok (\<lparr> ev_Seq = seq, ev_Type = eventType, ev_RunID = runID, ev_StepID = stepID,
                    ev_TS = now, ev_Data = EventBytes data \<rparr>,
                  db\<lparr>deploy_log_chunks := deploy_log_chunks db @
                     [\<lparr> c_run_id = runID, c_step_id = stepID, c_seq = seq,
                        c_event_type = eventType, c_stream = stream, c_ts = unix now,
                        c_text = text, c_data_json = data, c_redacted = False,
                        c_truncated = truncated, c_compacted = False \<rparr>]\<rparr>))"

text \<open>\<open>mustJSON\<close> of a map: the documents of state events.\<close>

definition mustJSON :: "(string \<times> gojson) list \<Rightarrow> string" where
  "mustJSON kvs = marshal (GMap kvs)"

abbreviation run_state_json :: "RunState \<Rightarrow> gojson" where
  "run_state_json s \<equiv> GStr (run_state_string s)"

subsection \<open>Facts about lookups and appends\<close>

lemma run_by_id_Some: "run_by_id db runID = Some r \<Longrightarrow> r \<in> set (deploy_runs db) \<and> r_id r = runID"
  by (auto simp: run_by_id_def dest: find_Some_in)

lemma run_by_id_unique:
  "distinct (map r_id (deploy_runs db)) \<Longrightarrow> r \<in> set (deploy_runs db) \<Longrightarrow> run_by_id db (r_id r) = Some r"
  by (simp add: run_by_id_def find_key_unique)

lemma run_by_id_chunks [simp]: "run_by_id (db\<lparr>deploy_log_chunks := cs\<rparr>) runID = run_by_id db runID"
  by (simp add: run_by_id_def)

lemma run_by_id_steps [simp]: "run_by_id (db\<lparr>deploy_steps := ss\<rparr>) runID = run_by_id db runID"
  by (simp add: run_by_id_def)

lemma run_by_id_leases [simp]: "run_by_id (db\<lparr>deploy_queue_leases := ls\<rparr>) runID = run_by_id db runID"
  by (simp add: run_by_id_def)

text \<open>What a successful append does: one row at the end, with the next number of its run.\<close>

definition appended :: "int \<Rightarrow> db \<Rightarrow> RunEvent \<Rightarrow> db \<Rightarrow> bool" where
  "appended runID db ev db' \<longleftrightarrow>
     (\<exists>c. db' = db\<lparr>deploy_log_chunks := deploy_log_chunks db @ [c]\<rparr> \<and>
          c_run_id c = runID \<and> c_seq c = next_seq db runID \<and> c_event_type c = ev_Type ev \<and>
          \<not> c_compacted c \<and> EventBytes (c_data_json c) = ev_Data ev \<and>
          length (c_data_json c) \<le> maxEventBytes \<and> json_valid (c_data_json c) \<and>
          ev_Seq ev = c_seq c \<and> ev_RunID ev = runID \<and> ev_StepID ev = c_step_id c)"

lemma appendEventTx_Ok:
  assumes "appendEventTx now runID stepID ty stream text data db = Ok (ev, db')"
  shows "appended runID db ev db' \<and> ev_Type ev = ty \<and> ev_StepID ev = stepID \<and> ev_TS ev = now
         \<and> run_by_id db runID \<noteq> None"
proof -
  let ?data = "if data = [] then ''{}'' else data"
  from assms obtain text' tr where
    ok: "validEventType ty" "json_valid ?data" "length ?data \<le> maxEventBytes" "run_by_id db runID \<noteq> None" and
    ev: "ev = \<lparr> ev_Seq = next_seq db runID, ev_Type = ty, ev_RunID = runID, ev_StepID = stepID,
                ev_TS = now, ev_Data = EventBytes ?data \<rparr>" and
    db': "db' = db\<lparr>deploy_log_chunks := deploy_log_chunks db @
            [\<lparr> c_run_id = runID, c_step_id = stepID, c_seq = next_seq db runID,
               c_event_type = ty, c_stream = stream, c_ts = unix now, c_text = text',
               c_data_json = ?data, c_redacted = False, c_truncated = tr, c_compacted = False \<rparr>]\<rparr>"
    unfolding appendEventTx_def Let_def by (simp split: if_split_asm option.splits prod.splits) (force)+
  show ?thesis unfolding appended_def
    by (intro conjI exI, rule db') (use ok in \<open>simp_all add: ev\<close>)
qed

lemma appended_frame:
  "appended runID db ev db' \<Longrightarrow>
   deploy_runs db' = deploy_runs db \<and> deploy_steps db' = deploy_steps db \<and>
   deploy_queue_leases db' = deploy_queue_leases db \<and> deploy_environments db' = deploy_environments db \<and>
   deploy_releases db' = deploy_releases db \<and> deploy_release_runtimes db' = deploy_release_runtimes db \<and>
   deploy_port_leases db' = deploy_port_leases db \<and>
   next_run_id db' = next_run_id db \<and> next_step_id db' = next_step_id db \<and>
   run_by_id db' k = run_by_id db k"
  unfolding appended_def by clarsimp

text \<open>The numbers of a run's events, in the order they were appended.\<close>

definition seqs :: "db \<Rightarrow> int \<Rightarrow> int list" where
  "seqs db runID = map c_seq (filter (\<lambda>c. c_run_id c = runID) (deploy_log_chunks db))"

lemma next_seq_upper: "s \<in> set (seqs db runID) \<Longrightarrow> s < next_seq db runID"
proof -
  assume "s \<in> set (seqs db runID)"
  then obtain c where "c \<in> set (deploy_log_chunks db)" "c_run_id c = runID" "s = c_seq c"
    by (auto simp: seqs_def)
  then show ?thesis
    using sql_max_upper [of c "deploy_log_chunks db" "\<lambda>c. c_run_id c = runID" c_seq]
    by (simp add: next_seq_def)
qed

lemma appended_seqs:
  "appended runID db ev db' \<Longrightarrow>
   seqs db' k = (if k = runID then seqs db k @ [next_seq db runID] else seqs db k)"
  by (auto simp: appended_def seqs_def)

definition seq_inv :: "db \<Rightarrow> bool" where
  "seq_inv db \<longleftrightarrow> (\<forall>k. sorted_wrt (<) (seqs db k) \<and> (\<forall>s \<in> set (seqs db k). 0 < s))"

lemma next_seq_pos: "seq_inv db \<Longrightarrow> 0 < next_seq db runID"
proof -
  assume "seq_inv db"
  then have "\<forall>c \<in> set (deploy_log_chunks db). c_run_id c = runID \<longrightarrow> 0 \<le> c_seq c"
    by (fastforce simp: seq_inv_def seqs_def)
  then have "0 \<le> sql_max (\<lambda>c. c_run_id c = runID) c_seq (deploy_log_chunks db)"
    by (rule sql_max_nonneg)
  then show ?thesis by (simp add: next_seq_def)
qed

lemma appended_seq_inv: "appended runID db ev db' \<Longrightarrow> seq_inv db \<Longrightarrow> seq_inv db'"
  using next_seq_pos [of db runID]
  by (auto simp: seq_inv_def appended_seqs sorted_wrt_append dest: next_seq_upper)

text \<open>State events of the engine are always accepted, for a run that exists.\<close>

lemma appendEventTx_state_event:
  assumes "run_by_id db runID \<noteq> None" and "ty = EventRunState \<or> ty = EventStepState"
    and "raw_free (GMap kvs)" and "gdepth (GMap kvs) \<le> max_nesting"
    and "length (mustJSON kvs) \<le> maxEventBytes"
  shows "\<exists>ev db'. appendEventTx now runID stepID ty stream [] (mustJSON kvs) db = Ok (ev, db')"
proof -
  have "mustJSON kvs \<noteq> []" by (simp add: mustJSON_def)
  moreover have "json_valid (mustJSON kvs)"
    unfolding mustJSON_def by (rule json_valid_marshal) (use assms in auto)
  ultimately show ?thesis
    using assms by (auto simp: appendEventTx_def Let_def truncateUTF8_def)
qed

end
