(* ===== verification/Deploy_Broker.thy ===== *)
theory Deploy_Broker
  imports Deploy_Store
begin

text \<open>
  The live event broker (orchestration_broker.go) and the commit of a transaction with the
  publication of its events (\<open>OrchestrationStore.publish\<close>).
  A subscription is a buffered channel of capacity \<open>liveEventBuffer\<close>; it is registered while it
  is in the broker's map, and closed when its channel is. A full buffer drops the subscriber, it
  never drops an event silently. The order in which Go ranges over the map does not matter here,
  because one subscription's update does not read another.
\<close>

definition liveEventBuffer :: nat where
  "liveEventBuffer = 128"

record subscription =
  sub_id :: nat
  sub_run :: int
  sub_ch :: "RunEvent list"
  sub_after :: int
  sub_registered :: bool
  sub_closed :: bool

record broker =
  b_subs :: "subscription list"
  b_next :: nat

definition newEventBroker :: broker where
  "newEventBroker = \<lparr> b_subs = [], b_next = 0 \<rparr>"

definition deliver :: "RunEvent \<Rightarrow> subscription \<Rightarrow> subscription" where
  "deliver event sub =
     (if \<not> (sub_registered sub \<and> sub_run sub = ev_RunID event) then sub
      else if ev_Seq event \<le> sub_after sub then sub
      else if length (sub_ch sub) < liveEventBuffer
      then sub\<lparr>sub_ch := sub_ch sub @ [event], sub_after := ev_Seq event\<rparr>
      else sub\<lparr>sub_registered := False, sub_closed := True\<rparr>)"

definition broker_publish :: "RunEvent \<Rightarrow> broker \<Rightarrow> broker" where
  "broker_publish event b = b\<lparr>b_subs := map (deliver event) (b_subs b)\<rparr>"

definition closeRun :: "int \<Rightarrow> broker \<Rightarrow> broker" where
  "closeRun runID b =
     b\<lparr>b_subs := map (\<lambda>sub. if sub_registered sub \<and> sub_run sub = runID
                          then sub\<lparr>sub_registered := False, sub_closed := True\<rparr> else sub) (b_subs b)\<rparr>"

definition event_state :: "RunEvent \<Rightarrow> RunState" where
  "event_state event =
     (case ev_Data event of
        EventBytes data \<Rightarrow> run_state_of_string (json_string_field ''state'' data)
      | ResyncData _ _ \<Rightarrow> RunOther [])"

fun publish :: "RunEvent list \<Rightarrow> broker \<Rightarrow> broker" where
  "publish [] b = b"
| "publish (event # events) b =
     (let b1 = broker_publish event b;
          b2 = (if ev_Type event = EventRunState \<and> Terminal (event_state event)
                then closeRun (ev_RunID event) b1 else b1)
      in publish events b2)"

lemma publish_append: "publish (evs @ evs') b = publish evs' (publish evs b)"
  by (induction evs arbitrary: b) (simp_all add: Let_def)

text \<open>\<open>unsubscribe\<close>, which the handler runs when its client goes away.\<close>

definition unsubscribe :: "nat \<Rightarrow> broker \<Rightarrow> broker" where
  "unsubscribe i b =
     b\<lparr>b_subs := map (\<lambda>sub. if sub_id sub = i \<and> sub_registered sub
                          then sub\<lparr>sub_registered := False, sub_closed := True\<rparr> else sub) (b_subs b)\<rparr>"

text \<open>The reader's side of the channel: the oldest buffered event.\<close>

definition receive :: "nat \<Rightarrow> broker \<Rightarrow> RunEvent option \<times> broker" where
  "receive i b =
     (case find (\<lambda>sub. sub_id sub = i) (b_subs b) of
        None \<Rightarrow> (None, b)
      | Some sub \<Rightarrow>
          (case sub_ch sub of
             [] \<Rightarrow> (None, b)
           | ev # rest \<Rightarrow>
               (Some ev, b\<lparr>b_subs := map (\<lambda>s. if sub_id s = i then s\<lparr>sub_ch := rest\<rparr> else s) (b_subs b)\<rparr>)))"

subsection \<open>The store and its commits\<close>

record ostore =
  o_db :: db
  o_broker :: broker

type_synonym 'a tx = "deploy_error + 'a \<times> db \<times> RunEvent list"

definition commit :: "'a tx \<Rightarrow> ostore \<Rightarrow> (deploy_error + 'a) \<times> ostore" where
  "commit tx s =
     (case tx of
        Inl e \<Rightarrow> (Err e, s)
      | Inr (x, db', events) \<Rightarrow> (Ok x, s\<lparr>o_db := db', o_broker := publish events (o_broker s)\<rparr>))"

lemma commit_simps [simp, result_simps]:
  "commit (Inl e) s = (Err e, s)"
  "commit (Inr (x, db', events)) s = (Ok x, s\<lparr>o_db := db', o_broker := publish events (o_broker s)\<rparr>)"
  by (simp_all add: commit_def)

lemma commit_Ok: "commit tx s = (Ok x, s') \<Longrightarrow> \<exists>events. tx = Inr (x, o_db s', events)"
  by (cases tx) auto

lemma commit_Err: "commit tx s = (Err e, s') \<Longrightarrow> s' = s"
  by (cases tx) auto

end
