(* ===== verification/Deploy_Queue.thy ===== *)
theory Deploy_Queue
  imports Deploy_Broker
begin

text \<open>
  The persistent run queue (orchestration_queue.go): claiming the next run under a slot budget,
  the lease that fences its worker, heartbeats, run transitions, cancellation, recovery of an
  expired lease and the superseding of queued runs by a newer one.
  Each operation is a transaction on the database; the operations of the store commit it and
  publish its events. Time and randomness are arguments: \<open>now\<close> is what \<open>s.now()\<close> returns inside
  the transaction, \<open>rnd\<close> the bytes of \<open>rand.Read\<close> (\<open>None\<close> when it fails).
\<close>

subsection \<open>Budgets, tokens and errors\<close>

record QueueBudget =
  Heavy :: int
  Light :: int

definition budget_normalized :: "QueueBudget \<Rightarrow> QueueBudget" where
  "budget_normalized b =
     \<lparr> Heavy = (if Heavy b \<le> 0 then 1 else Heavy b),
       Light = (if Light b \<le> 0 then 2 else Light b) \<rparr>"

definition newClaimToken :: "string option \<Rightarrow> deploy_error + string" where
  "newClaimToken rnd =
     (case rnd of None \<Rightarrow> Err (ErrMessage ''random source failed'') | Some raw \<Rightarrow> Ok (hex_encode raw))"

text \<open>The text of an error, as far as the retry decision of a claim reads it.\<close>

fun error_text :: "deploy_error \<Rightarrow> string" where
  "error_text (ErrUniqueConstraint s) = ''constraint failed: UNIQUE constraint failed: '' @ s"
| "error_text ErrForeignKey = ''constraint failed: FOREIGN KEY constraint failed''"
| "error_text ErrLeaseLost = ''deployment queue lease was lost''"
| "error_text ErrEventPayloadTooLarge = ''deployment event payload is too large''"
| "error_text (ErrMessage s) = s"
| "error_text _ = ''deployment error''"

definition retryableClaimError :: "deploy_error \<Rightarrow> bool" where
  "retryableClaimError e =
     (let message = ascii_lower (error_text e) in
      contains_str message ''database is locked'' \<or>
      contains_str message ''sqlite_busy'' \<or>
      contains_str message ''deploy_queue_leases'' \<and> contains_str message ''unique'')"

definition isUniqueConstraint :: "deploy_error \<Rightarrow> bool" where
  "isUniqueConstraint e = contains_str (ascii_lower (error_text e)) ''unique constraint''"

definition lease_ttl :: "go_duration \<Rightarrow> go_duration" where
  "lease_ttl ttl = (if ttl \<le> 0 then defaultLeaseTTL else ttl)"

subsection \<open>Claiming\<close>

text \<open>\<open>INSERT INTO deploy_queue_leases\<close> with the table's unique columns and foreign keys.\<close>

definition insert_lease :: "lease_row \<Rightarrow> db \<Rightarrow> deploy_error + db" where
  "insert_lease l db =
     (if \<exists>x \<in> set (deploy_queue_leases db). l_run_id x = l_run_id l
      then Err (ErrUniqueConstraint ''deploy_queue_leases.run_id'')
      else if \<exists>x \<in> set (deploy_queue_leases db). l_claim_token x = l_claim_token l
      then Err (ErrUniqueConstraint ''deploy_queue_leases.claim_token'')
      else if \<exists>x \<in> set (deploy_queue_leases db). l_environment_id x = l_environment_id l
      then Err (ErrUniqueConstraint ''deploy_queue_leases.environment_id'')
      else if \<not> (\<exists>e \<in> set (deploy_environments db). e_id e = l_environment_id l)
        \<or> run_by_id db (l_run_id l) = None
      then Err ErrForeignKey
      else Ok (db\<lparr>deploy_queue_leases := deploy_queue_leases db @ [l]\<rparr>))"

definition slot_count :: "SlotClass \<Rightarrow> db \<Rightarrow> nat" where
  "slot_count c db = sql_count (\<lambda>l. l_slot_class l = c) (deploy_queue_leases db)"

definition open_classes :: "QueueBudget \<Rightarrow> db \<Rightarrow> SlotClass list" where
  "open_classes budget db =
     (if int (slot_count SlotHeavy db) < Heavy budget then [SlotHeavy] else []) @
     (if int (slot_count SlotLight db) < Light budget then [SlotLight] else [])"

definition claimable :: "SlotClass list \<Rightarrow> db \<Rightarrow> run_row \<Rightarrow> bool" where
  "claimable classes db r =
     (r_state r = RunQueued \<and> \<not> r_cancel_requested r \<and>
      \<not> (\<exists>l \<in> set (deploy_queue_leases db). l_environment_id l = r_environment_id r) \<and>
      r_slot_class r \<in> set classes)"

definition claim_order :: "run_row \<Rightarrow> int \<times> int \<times> int" where
  "claim_order r = (- r_priority r, r_requested_at r, r_id r)"

definition claimNextOnce ::
  "string \<Rightarrow> QueueBudget \<Rightarrow> go_duration \<Rightarrow> go_time \<Rightarrow> string option \<Rightarrow> db \<Rightarrow> QueueLease option tx" where
  "claimNextOnce worker budget ttl now rnd db =
     (if worker = [] then Err (ErrMessage ''deployment worker identity is required'')
      else
        let budget = budget_normalized budget; ttl = lease_ttl ttl;
            classes = open_classes budget db in
        if classes = [] then Ok (None, db, [])
        else case sql_first_by claim_order (claimable classes db) (deploy_runs db) of
          None \<Rightarrow> Ok (None, db, [])
        | Some r \<Rightarrow>
            bindr (newClaimToken rnd) (\<lambda>token.
            let expires = now + ttl;
                lease = \<lparr> l_run_id = r_id r, l_environment_id = r_environment_id r,
                          l_claim_token = token, l_slot_class = r_slot_class r,
                          l_claimed_by = worker, l_expires_at = unix expires,
                          l_heartbeat_at = unix now, l_created_at = unix now \<rparr> in
            bindr (insert_lease lease db) (\<lambda>db1.
            let p = (\<lambda>x. r_id x = r_id r \<and> r_state x = RunQueued \<and> \<not> r_cancel_requested x);
                db2 = db1\<lparr>deploy_runs := sql_update p (\<lambda>x. x\<lparr>r_state := RunPreparing,
                        r_claimed_at := unix now, r_heartbeat_at := unix now,
                        r_lease_token := token, r_lease_until := unix expires\<rparr>) (deploy_runs db1)\<rparr> in
            if sql_count p (deploy_runs db1) \<noteq> 1 then Err ErrLeaseLost
            else
              bindr (appendEventTx now (r_id r) 0 EventRunState ''status'' []
                       (mustJSON [(''state'', run_state_json RunPreparing), (''worker'', GStr worker)]) db2)
                (\<lambda>(event, db3).
              Ok (Some \<lparr> lease_RunID = r_id r, lease_EnvironmentID = r_environment_id r,
                         lease_Token = token, lease_SlotClass = r_slot_class r,
                         lease_ClaimedBy = worker, lease_ClaimedAt = now,
                         lease_HeartbeatAt = now, lease_ExpiresAt = expires \<rparr>, db3, [event])))))"

text \<open>Eight attempts; only an error that another attempt may not meet is tried again.\<close>

fun claim_attempts ::
  "nat \<Rightarrow> nat \<Rightarrow> string \<Rightarrow> QueueBudget \<Rightarrow> go_duration \<Rightarrow> (nat \<Rightarrow> go_time) \<Rightarrow> (nat \<Rightarrow> string option)
     \<Rightarrow> deploy_error \<Rightarrow> db \<Rightarrow> QueueLease option tx" where
  "claim_attempts 0 attempt worker budget ttl clock rand lastErr db = Err lastErr"
| "claim_attempts (Suc n) attempt worker budget ttl clock rand lastErr db =
     (case claimNextOnce worker budget ttl (clock attempt) (rand attempt) db of
        Inr x \<Rightarrow> Ok x
      | Inl e \<Rightarrow> if retryableClaimError e
                then claim_attempts n (Suc attempt) worker budget ttl clock rand e db
                else Err e)"

definition ClaimNext ::
  "string \<Rightarrow> QueueBudget \<Rightarrow> go_duration \<Rightarrow> (nat \<Rightarrow> go_time) \<Rightarrow> (nat \<Rightarrow> string option) \<Rightarrow> ostore
     \<Rightarrow> (deploy_error + QueueLease option) \<times> ostore" where
  "ClaimNext worker budget ttl clock rand s =
     commit (claim_attempts 8 0 worker budget ttl clock rand ErrLeaseLost (o_db s)) s"

subsection \<open>Holding a lease\<close>

definition Heartbeat :: "int \<Rightarrow> string \<Rightarrow> go_duration \<Rightarrow> go_time \<Rightarrow> db \<Rightarrow> unit tx" where
  "Heartbeat runID claimToken ttl now db =
     (let expires = now + lease_ttl ttl;
          p = (\<lambda>l. l_run_id l = runID \<and> l_claim_token l = claimToken \<and> unix now \<le> l_expires_at l) in
      if sql_count p (deploy_queue_leases db) \<noteq> 1 then Err ErrLeaseLost
      else Ok ((), db\<lparr>
        deploy_queue_leases := sql_update p (\<lambda>l. l\<lparr>l_heartbeat_at := unix now,
          l_expires_at := unix expires\<rparr>) (deploy_queue_leases db),
        deploy_runs := sql_update (\<lambda>r. r_id r = runID \<and> r_lease_token r = claimToken)
          (\<lambda>r. r\<lparr>r_heartbeat_at := unix now, r_lease_until := unix expires\<rparr>) (deploy_runs db)\<rparr>, []))"

definition lease_of :: "db \<Rightarrow> int \<Rightarrow> string \<Rightarrow> lease_row option" where
  "lease_of db runID claimToken =
     find (\<lambda>l. l_run_id l = runID \<and> l_claim_token l = claimToken) (deploy_queue_leases db)"

definition assertLeaseTx :: "int \<Rightarrow> string \<Rightarrow> go_time \<Rightarrow> db \<Rightarrow> deploy_error + unit" where
  "assertLeaseTx runID claimToken now db =
     (if claimToken = [] then Err ErrLeaseLost
      else case lease_of db runID claimToken of
        None \<Rightarrow> Err ErrLeaseLost
      | Some l \<Rightarrow> if l_expires_at l < unix now then Err ErrLeaseLost else Ok ())"

definition SetRunCommits :: "int \<Rightarrow> string \<Rightarrow> string \<Rightarrow> string \<Rightarrow> go_time \<Rightarrow> db \<Rightarrow> unit tx" where
  "SetRunCommits runID claimToken fromCommit toCommit now db =
     bindr (assertLeaseTx runID claimToken now db) (\<lambda>_.
     Ok ((), db\<lparr>deploy_runs := sql_update (\<lambda>r. r_id r = runID \<and> r_lease_token r = claimToken)
       (\<lambda>r. r\<lparr>r_from_commit := (if fromCommit \<noteq> [] then fromCommit else r_from_commit r),
             r_to_commit := (if toCommit \<noteq> [] then toCommit else r_to_commit r)\<rparr>) (deploy_runs db)\<rparr>, []))"

record TransitionDetail =
  detail_Code :: string
  detail_Reason :: string

definition noDetail :: TransitionDetail where
  "noDetail = \<lparr> detail_Code = [], detail_Reason = [] \<rparr>"

definition ValidateRunTransition :: "RunState \<Rightarrow> RunState \<Rightarrow> deploy_error + unit" where
  "ValidateRunTransition from to =
     guardr (CanTransitionRun from to)
       (ErrInvalidTransition (run_state_string from @ '' -> '' @ run_state_string to))"

definition transitionRunTx ::
  "int \<Rightarrow> string \<Rightarrow> RunState \<Rightarrow> TransitionDetail \<Rightarrow> go_time \<Rightarrow> db \<Rightarrow> EngineRun tx" where
  "transitionRunTx runID claimToken to detail now db =
     bindr (assertLeaseTx runID claimToken now db) (\<lambda>_.
     case run_by_id db runID of
       None \<Rightarrow> Err ErrRunNotFound
     | Some row \<Rightarrow>
         let from = r_state row in
         if Terminal from then Err ErrRunTerminal
         else
           bindr (ValidateRunTransition from to) (\<lambda>_.
           let ended = (if Terminal to then unix now else 0);
               p = (\<lambda>r. r_id r = runID \<and> r_state r = from \<and> r_lease_token r = claimToken);
               db1 = db\<lparr>deploy_runs := sql_update p (\<lambda>r. r\<lparr>r_state := to,
                       r_status := legacyStatus to, r_ended_at := ended,
                       r_terminal_code := detail_Code detail, r_terminal_reason := detail_Reason detail,
                       r_lease_token := (if ended \<noteq> 0 then [] else r_lease_token r),
                       r_lease_until := (if ended \<noteq> 0 then 0 else r_lease_until r)\<rparr>) (deploy_runs db)\<rparr> in
           if sql_count p (deploy_runs db) \<noteq> 1 then Err ErrLeaseLost
           else
             bindr (appendEventTx now runID 0 EventRunState ''status'' []
                      (mustJSON [(''from'', run_state_json from), (''state'', run_state_json to),
                                 (''code'', GStr (detail_Code detail)),
                                 (''reason'', GStr (detail_Reason detail))]) db1)
               (\<lambda>(event, db2).
             let db3 = (if Terminal to
                        then db2\<lparr>deploy_queue_leases := sql_delete
                               (\<lambda>l. l_run_id l = runID \<and> l_claim_token l = claimToken)
                               (deploy_queue_leases db2)\<rparr>
                        else db2) in
             case run_by_id db3 runID of
               None \<Rightarrow> Err ErrRunNotFound
             | Some row' \<Rightarrow> Ok (scanEngineRun row', db3, [event]))))"

text \<open>After a commit the run's subscribers are closed when it ended.\<close>

definition close_if_terminal :: "(deploy_error + EngineRun) \<times> ostore \<Rightarrow> (deploy_error + EngineRun) \<times> ostore" where
  "close_if_terminal x =
     (case x of
        (Inr run, s) \<Rightarrow> (Inr run, if Terminal (State run)
                                then s\<lparr>o_broker := closeRun (ID run) (o_broker s)\<rparr> else s)
      | (Inl e, s) \<Rightarrow> (Inl e, s))"

definition TransitionRun ::
  "int \<Rightarrow> string \<Rightarrow> RunState \<Rightarrow> TransitionDetail \<Rightarrow> go_time \<Rightarrow> ostore
     \<Rightarrow> (deploy_error + EngineRun) \<times> ostore" where
  "TransitionRun runID claimToken to detail now s =
     close_if_terminal (commit (transitionRunTx runID claimToken to detail now (o_db s)) s)"

subsection \<open>Cancellation\<close>

definition requestCancellationTx :: "int \<Rightarrow> go_time \<Rightarrow> db \<Rightarrow> EngineRun tx" where
  "requestCancellationTx runID now db =
     (case run_by_id db runID of
        None \<Rightarrow> Err ErrRunNotFound
      | Some row \<Rightarrow>
          let from = r_state row in
          if Terminal from then Err ErrRunTerminal
          else if \<not> CanTransitionRun from RunCancelling then Err ErrRunNotCancellable
          else
            let db1 = db\<lparr>deploy_runs := sql_update (\<lambda>r. r_id r = runID \<and> r_state r = from)
                  (\<lambda>r. r\<lparr>r_state := RunCancelling, r_cancel_requested := True\<rparr>) (deploy_runs db)\<rparr> in
            bindr (appendEventTx now runID 0 EventRunState ''status'' []
                     (mustJSON [(''from'', run_state_json from), (''state'', run_state_json RunCancelling)]) db1)
              (\<lambda>(event, db2).
            if from = RunQueued \<or> from = RunRequested \<or> from = RunValidating then
              let db3 = db2\<lparr>deploy_runs := sql_update (\<lambda>r. r_id r = runID \<and> r_state r = RunCancelling)
                        (\<lambda>r. r\<lparr>r_state := RunCancelled, r_status := legacyStatus RunCancelled,
                              r_ended_at := unix now, r_lease_token := [], r_lease_until := 0\<rparr>)
                        (deploy_runs db2),
                      deploy_queue_leases := sql_delete (\<lambda>l. l_run_id l = runID) (deploy_queue_leases db2)\<rparr> in
              bindr (appendEventTx now runID 0 EventRunState ''status'' []
                       (mustJSON [(''from'', run_state_json RunCancelling),
                                  (''state'', run_state_json RunCancelled)]) db3)
                (\<lambda>(event', db4).
              case run_by_id db4 runID of
                None \<Rightarrow> Err ErrRunNotFound
              | Some row' \<Rightarrow> Ok (scanEngineRun row', db4, [event, event']))
            else
              case run_by_id db2 runID of
                None \<Rightarrow> Err ErrRunNotFound
              | Some row' \<Rightarrow> Ok (scanEngineRun row', db2, [event])))"

definition RequestCancellation ::
  "int \<Rightarrow> go_time \<Rightarrow> ostore \<Rightarrow> (deploy_error + EngineRun) \<times> ostore" where
  "RequestCancellation runID now s =
     close_if_terminal (commit (requestCancellationTx runID now (o_db s)) s)"

subsection \<open>Reading and reclaiming leases\<close>

definition scanLease :: "lease_row \<Rightarrow> QueueLease" where
  "scanLease l =
     \<lparr> lease_RunID = l_run_id l, lease_EnvironmentID = l_environment_id l,
       lease_Token = l_claim_token l, lease_SlotClass = l_slot_class l,
       lease_ClaimedBy = l_claimed_by l, lease_ClaimedAt = of_unix (l_created_at l),
       lease_HeartbeatAt = of_unix (l_heartbeat_at l), lease_ExpiresAt = of_unix (l_expires_at l) \<rparr>"

definition ActiveLease :: "db \<Rightarrow> int \<Rightarrow> deploy_error + QueueLease" where
  "ActiveLease db runID =
     (case find (\<lambda>l. l_run_id l = runID) (deploy_queue_leases db) of
        None \<Rightarrow> Err ErrLeaseLost
      | Some l \<Rightarrow> Ok (scanLease l))"

definition ExpiredLeases :: "go_time \<Rightarrow> db \<Rightarrow> QueueLease list" where
  "ExpiredLeases now db =
     map scanLease (sort_key (\<lambda>l. (l_expires_at l, l_run_id l))
       (filter (\<lambda>l. l_expires_at l < unix now) (deploy_queue_leases db)))"

definition ReclaimExpiredLease ::
  "QueueLease \<Rightarrow> string \<Rightarrow> go_duration \<Rightarrow> go_time \<Rightarrow> string option \<Rightarrow> db \<Rightarrow> QueueLease tx" where
  "ReclaimExpiredLease expired worker ttl now rnd db =
     (if worker = [] then Err (ErrMessage ''deployment worker identity is required'')
      else
        bindr (newClaimToken rnd) (\<lambda>token.
        let expires = now + lease_ttl ttl;
            p = (\<lambda>l. l_run_id l = lease_RunID expired \<and> l_claim_token l = lease_Token expired \<and>
                     l_expires_at l < unix now);
            q = (\<lambda>r. r_id r = lease_RunID expired \<and> r_lease_token r = lease_Token expired) in
        if \<exists>l \<in> set (deploy_queue_leases db). \<not> p l \<and> l_claim_token l = token
           \<and> sql_exists p (deploy_queue_leases db)
        then Err (ErrUniqueConstraint ''deploy_queue_leases.claim_token'')
        else if sql_count p (deploy_queue_leases db) \<noteq> 1 then Err ErrLeaseLost
        else if sql_count q (deploy_runs db) \<noteq> 1 then Err ErrLeaseLost
        else Ok (\<lparr> lease_RunID = lease_RunID expired, lease_EnvironmentID = lease_EnvironmentID expired,
                   lease_Token = token, lease_SlotClass = lease_SlotClass expired,
                   lease_ClaimedBy = worker, lease_ClaimedAt = lease_ClaimedAt expired,
                   lease_HeartbeatAt = now, lease_ExpiresAt = expires \<rparr>,
                 db\<lparr>deploy_queue_leases := sql_update p (\<lambda>l. l\<lparr>l_claim_token := token,
                      l_claimed_by := worker, l_heartbeat_at := unix now, l_expires_at := unix expires\<rparr>)
                      (deploy_queue_leases db),
                    deploy_runs := sql_update q (\<lambda>r. r\<lparr>r_lease_token := token,
                      r_heartbeat_at := unix now, r_lease_until := unix expires\<rparr>) (deploy_runs db)\<rparr>,
                 [])))"

subsection \<open>Superseding\<close>

record RunRequest =
  req_ProjectID :: int
  req_EnvironmentID :: int
  req_Operation :: Operation
  req_Trigger :: TriggerKind
  req_Actor :: string
  req_IdempotencyKey :: string
  req_RequestDigest :: string
  req_PlanRevision :: int
  req_RetryOfRunID :: int
  req_VariableSnapshotRunID :: int
  req_Priority :: int
  req_SlotClass :: SlotClass
  req_Metadata :: string
  req_Steps :: "StepKey list"

fun automaticTrigger :: "TriggerKind \<Rightarrow> bool" where
  "automaticTrigger TriggerManual = False"
| "automaticTrigger TriggerRollback = False"
| "automaticTrigger TriggerMigration = False"
| "automaticTrigger (TriggerOther s) = False"
| "automaticTrigger _ = True"

definition changedPaths :: "string \<Rightarrow> string list" where
  "changedPaths raw = json_strings_field ''changedPaths'' raw"

definition coversPaths :: "string list \<Rightarrow> string list \<Rightarrow> bool" where
  "coversPaths newer older = list_all (\<lambda>path. path \<in> set newer) older"

definition protected_run :: "TriggerKind \<Rightarrow> Operation \<Rightarrow> bool" where
  "protected_run trigger operation =
     (trigger = TriggerManual \<or> trigger = TriggerRollback \<or>
      operation = OperationRollback \<or> operation = OperationRemoveManaged)"

definition supersedable :: "RunRequest \<Rightarrow> string \<Rightarrow> run_row \<Rightarrow> bool" where
  "supersedable req environmentKind candidate =
     (\<not> protected_run (r_trigger candidate) (r_operation candidate) \<and>
      \<not> (environmentKind = ''production'' \<and>
         (\<not> automaticTrigger (req_Trigger req) \<or> \<not> automaticTrigger (r_trigger candidate))) \<and>
      coversPaths (changedPaths (req_Metadata req)) (changedPaths (r_metadata_json candidate)))"

fun supersede_each ::
  "RunRequest \<Rightarrow> int \<Rightarrow> string \<Rightarrow> go_time \<Rightarrow> run_row list \<Rightarrow> db \<Rightarrow> RunEvent list
     \<Rightarrow> deploy_error + db \<times> RunEvent list" where
  "supersede_each req newRunID kind now [] db events = Ok (db, events)"
| "supersede_each req newRunID kind now (c # cs) db events =
     (if \<not> supersedable req kind c then supersede_each req newRunID kind now cs db events
      else
        let p = (\<lambda>r. r_id r = r_id c \<and> r_state r = RunQueued) in
        if sql_count p (deploy_runs db) \<noteq> 1 then supersede_each req newRunID kind now cs db events
        else
          let db1 = db\<lparr>deploy_runs := sql_update p (\<lambda>r. r\<lparr>r_state := RunSuperseded,
                r_status := legacyStatus RunSuperseded, r_ended_at := unix now,
                r_superseded_by := newRunID, r_terminal_code := ''superseded'',
                r_terminal_reason := ''Replaced by a newer queued run''\<rparr>) (deploy_runs db)\<rparr> in
          bindr (appendEventTx now (r_id c) 0 EventRunState ''status'' []
                   (mustJSON [(''state'', run_state_json RunSuperseded), (''supersededBy'', GInt newRunID)]) db1)
            (\<lambda>(event, db2). supersede_each req newRunID kind now cs db2 (events @ [event])))"

definition supersede_candidates :: "RunRequest \<Rightarrow> int \<Rightarrow> db \<Rightarrow> run_row list" where
  "supersede_candidates req newRunID db =
     sort_key (\<lambda>r. (r_requested_at r, r_id r))
       (filter (\<lambda>r. r_environment_id r = req_EnvironmentID req \<and> r_state r = RunQueued \<and> r_id r \<noteq> newRunID \<and>
          \<not> (\<exists>l \<in> set (deploy_queue_leases db). l_run_id l = r_id r)) (deploy_runs db))"

definition supersedeEligibleTx ::
  "RunRequest \<Rightarrow> int \<Rightarrow> string \<Rightarrow> go_time \<Rightarrow> db \<Rightarrow> RunEvent list \<Rightarrow> deploy_error + db \<times> RunEvent list" where
  "supersedeEligibleTx req newRunID environmentKind now db events =
     (if protected_run (req_Trigger req) (req_Operation req) then Ok (db, events)
      else supersede_each req newRunID environmentKind now (supersede_candidates req newRunID db) db events)"

end
