(* ===== verification/Deploy_Leases.thy ===== *)
theory Deploy_Leases
  imports Deploy_Queue
begin

text \<open>
  The lease discipline of the queue: the invariant that ties the lease table to the runs, the
  paths a run's state may take, and that every operation of Deploy_Queue keeps both.
  \<open>lease_inv\<close> says that a run is in a claimed state exactly when one lease names it, that lease
  and run carry the same token, environment and slot class, and that tokens, runs and
  environments are unique among leases. \<open>runs_follow\<close> says that between two databases every run
  moved along the edges of the run machine only.
\<close>

subsection \<open>The invariant\<close>

definition claimed_state :: "RunState \<Rightarrow> bool" where
  "claimed_state s =
     (s \<in> {RunPreparing, RunRunning, RunVerifying, RunActivating, RunFailedActivation,
           RunRestoringPrevious, RunCancelling})"

definition lease_matches :: "lease_row \<Rightarrow> run_row \<Rightarrow> bool" where
  "lease_matches l r \<longleftrightarrow>
     r_id r = l_run_id l \<and> r_environment_id r = l_environment_id l \<and>
     r_lease_token r = l_claim_token l \<and> r_slot_class r = l_slot_class l \<and> claimed_state (r_state r)"

definition idle_run :: "run_row \<Rightarrow> bool" where
  "idle_run r \<longleftrightarrow> (r_state r = RunQueued \<or> Terminal (r_state r)) \<and> r_lease_token r = []"

definition lease_inv :: "db \<Rightarrow> bool" where
  "lease_inv db \<longleftrightarrow>
     distinct (map r_id (deploy_runs db)) \<and>
     (\<forall>r \<in> set (deploy_runs db). r_id r < next_run_id db) \<and>
     distinct (map l_run_id (deploy_queue_leases db)) \<and>
     distinct (map l_environment_id (deploy_queue_leases db)) \<and>
     distinct (map l_claim_token (deploy_queue_leases db)) \<and>
     (\<forall>l \<in> set (deploy_queue_leases db). l_claim_token l \<noteq> [] \<and>
        (\<exists>r \<in> set (deploy_runs db). lease_matches l r)) \<and>
     (\<forall>r \<in> set (deploy_runs db). idle_run r \<or>
        (\<exists>l \<in> set (deploy_queue_leases db). lease_matches l r))"

lemma claimed_not_idle: "lease_matches l r \<Longrightarrow> \<not> idle_run r"
  by (auto simp: lease_matches_def idle_run_def claimed_state_def)

lemma lease_inv_distinct:
  "lease_inv db \<Longrightarrow> distinct (map r_id (deploy_runs db))"
  "lease_inv db \<Longrightarrow> distinct (map l_run_id (deploy_queue_leases db))"
  "lease_inv db \<Longrightarrow> distinct (map l_claim_token (deploy_queue_leases db))"
  by (simp_all add: lease_inv_def)

lemma lease_inv_lease:
  assumes "lease_inv db" and "l \<in> set (deploy_queue_leases db)"
  shows "l_claim_token l \<noteq> [] \<and> (\<exists>r. run_by_id db (l_run_id l) = Some r \<and> lease_matches l r)"
proof -
  from assms obtain r where r: "r \<in> set (deploy_runs db)" "lease_matches l r" "l_claim_token l \<noteq> []"
    unfolding lease_inv_def by blast
  then have "run_by_id db (r_id r) = Some r"
    using assms(1) by (intro run_by_id_unique) (simp add: lease_inv_def)
  with r show ?thesis by (metis lease_matches_def)
qed

text \<open>The lease of a run is the only one that can match it.\<close>

lemma lease_inv_run:
  assumes "lease_inv db" and "r \<in> set (deploy_runs db)"
    and "l \<in> set (deploy_queue_leases db)" and "l_run_id l = r_id r"
  shows "lease_matches l r"
proof -
  from lease_inv_lease [OF assms(1,3)] assms(4) obtain r' where
    "run_by_id db (r_id r) = Some r'" "lease_matches l r'" by auto
  moreover have "run_by_id db (r_id r) = Some r"
    using assms(1,2) by (intro run_by_id_unique) (simp_all add: lease_inv_def)
  ultimately show ?thesis by simp
qed

text \<open>
  Four ways to change a run and its lease that keep the invariant: the holder changes both, an
  idle run stays idle, a queued run is claimed, and a held run ends and gives its lease back.
\<close>

lemma lease_inv_held:
  assumes inv: "lease_inv db"
    and runs: "row_changed r_id (deploy_runs db) r r' (deploy_runs db')"
    and leases: "row_changed l_run_id (deploy_queue_leases db) l l' (deploy_queue_leases db')"
    and "l_run_id l = r_id r" and "l_environment_id l' = l_environment_id l"
    and "lease_matches l' r'" and "l_claim_token l' \<noteq> []"
    and fresh: "\<And>x. x \<in> set (deploy_queue_leases db) \<Longrightarrow> x \<noteq> l \<Longrightarrow> l_claim_token x \<noteq> l_claim_token l'"
    and "next_run_id db' = next_run_id db"
  shows "lease_inv db'"
proof -
  have key: "(r_id x = r_id r) = (x = r)" if "x \<in> set (deploy_runs db)" for x
    using row_changed_in [OF runs] lease_inv_distinct(1) [OF inv] that
    by (intro distinct_map_key) auto
  have lkey: "(l_run_id x = l_run_id l) = (x = l)" if "x \<in> set (deploy_queue_leases db)" for x
    using row_changed_in [OF leases] lease_inv_distinct(2) [OF inv] that
    by (intro distinct_map_key) auto
  note sets = row_changed_set [OF runs] row_changed_set [OF leases]
  have l: "l \<in> set (deploy_queue_leases db)" "l_run_id l' = l_run_id l" and
       r: "r \<in> set (deploy_runs db)" "r_id r' = r_id r"
    using row_changed_in [OF leases] row_changed_in [OF runs] by auto
  have old_l: "l_claim_token x \<noteq> [] \<and> (\<exists>y \<in> set (deploy_runs db) - {r}. lease_matches x y)"
    if "x \<in> set (deploy_queue_leases db) - {l}" for x
  proof -
    from that inv obtain y where y: "y \<in> set (deploy_runs db)" "lease_matches x y" "l_claim_token x \<noteq> []"
      unfolding lease_inv_def by blast
    moreover have "y \<noteq> r" using y(2) that lkey [of x] assms(4) by (auto simp: lease_matches_def)
    ultimately show ?thesis by blast
  qed
  have old_r: "idle_run y \<or> (\<exists>x \<in> set (deploy_queue_leases db) - {l}. lease_matches x y)"
    if "y \<in> set (deploy_runs db) - {r}" for y
  proof (rule disjCI)
    assume n: "\<not> (\<exists>x \<in> set (deploy_queue_leases db) - {l}. lease_matches x y)"
    have "\<not> lease_matches l y" using that key [of y] assms(4) by (auto simp: lease_matches_def)
    with n inv that show "idle_run y" unfolding lease_inv_def by blast
  qed
  show ?thesis unfolding lease_inv_def
  proof (intro conjI)
    show "distinct (map r_id (deploy_runs db'))" by (rule row_changed_distinct [OF runs])
    show "distinct (map l_run_id (deploy_queue_leases db'))" by (rule row_changed_distinct [OF leases])
    show "distinct (map l_environment_id (deploy_queue_leases db'))"
      using inv row_changed_map [OF leases, of l_environment_id] assms(5) by (simp add: lease_inv_def)
    show "distinct (map l_claim_token (deploy_queue_leases db'))"
      using distinct_map_replace [OF leases lease_inv_distinct(3) [OF inv] fresh] by blast
    show "\<forall>r \<in> set (deploy_runs db'). r_id r < next_run_id db'"
      using inv r by (auto simp: sets assms(9) lease_inv_def)
    show "\<forall>l \<in> set (deploy_queue_leases db'). l_claim_token l \<noteq> [] \<and>
            (\<exists>r \<in> set (deploy_runs db'). lease_matches l r)"
      unfolding sets using assms(6,7) old_l by blast
    show "\<forall>r \<in> set (deploy_runs db'). idle_run r \<or> (\<exists>l \<in> set (deploy_queue_leases db'). lease_matches l r)"
      unfolding sets using assms(6) old_r by blast
  qed
qed

lemma lease_inv_idle:
  assumes inv: "lease_inv db"
    and runs: "row_changed r_id (deploy_runs db) r r' (deploy_runs db')"
    and "idle_run r" and "idle_run r'"
    and "deploy_queue_leases db' = deploy_queue_leases db"
    and "next_run_id db' = next_run_id db"
  shows "lease_inv db'"
proof -
  have ids: "distinct (map r_id (deploy_runs db'))" by (rule row_changed_distinct [OF runs])
  have r: "r \<in> set (deploy_runs db)" "r_id r' = r_id r" using row_changed_in [OF runs] by auto
  then have "r_id r' < next_run_id db" using inv by (simp add: lease_inv_def)
  moreover have "\<forall>l \<in> set (deploy_queue_leases db). l_claim_token l \<noteq> [] \<and>
            (\<exists>r \<in> set (deploy_runs db'). lease_matches l r)"
    unfolding row_changed_set [OF runs] using inv assms(3) claimed_not_idle
    unfolding lease_inv_def by blast
  moreover have "\<forall>r \<in> set (deploy_runs db'). idle_run r \<or> (\<exists>l \<in> set (deploy_queue_leases db). lease_matches l r)"
    unfolding row_changed_set [OF runs] using inv assms(4) unfolding lease_inv_def by blast
  ultimately show ?thesis
    using inv ids by (auto simp: lease_inv_def assms(5,6) row_changed_set [OF runs])
qed

lemma lease_inv_claim:
  assumes inv: "lease_inv db"
    and runs: "row_changed r_id (deploy_runs db) r r' (deploy_runs db')"
    and "idle_run r" and "lease_matches l r'" and "l_claim_token l \<noteq> []"
    and leases: "deploy_queue_leases db' = deploy_queue_leases db @ [l]"
    and fresh: "\<forall>x \<in> set (deploy_queue_leases db). l_run_id x \<noteq> l_run_id l \<and>
       l_claim_token x \<noteq> l_claim_token l \<and> l_environment_id x \<noteq> l_environment_id l"
    and "next_run_id db' = next_run_id db"
  shows "lease_inv db'"
proof -
  have r: "r \<in> set (deploy_runs db)" "r_id r' = r_id r" using row_changed_in [OF runs] by auto
  show ?thesis unfolding lease_inv_def
  proof (intro conjI)
    show "distinct (map r_id (deploy_runs db'))" by (rule row_changed_distinct [OF runs])
    show "distinct (map l_run_id (deploy_queue_leases db'))"
      "distinct (map l_environment_id (deploy_queue_leases db'))"
      "distinct (map l_claim_token (deploy_queue_leases db'))"
      using inv fresh by (auto simp: lease_inv_def leases)
    show "\<forall>r \<in> set (deploy_runs db'). r_id r < next_run_id db'"
      using inv r by (auto simp: row_changed_set [OF runs] assms(8) lease_inv_def)
    show "\<forall>l \<in> set (deploy_queue_leases db'). l_claim_token l \<noteq> [] \<and>
            (\<exists>r \<in> set (deploy_runs db'). lease_matches l r)"
      using inv assms(3-5) claimed_not_idle
      unfolding lease_inv_def leases row_changed_set [OF runs] set_append list.set by blast
    show "\<forall>r \<in> set (deploy_runs db'). idle_run r \<or> (\<exists>l \<in> set (deploy_queue_leases db'). lease_matches l r)"
      using inv assms(4)
      unfolding lease_inv_def leases row_changed_set [OF runs] set_append list.set by blast
  qed
qed

lemma lease_inv_release:
  assumes inv: "lease_inv db"
    and runs: "row_changed r_id (deploy_runs db) r r' (deploy_runs db')"
    and "idle_run r'"
    and leases: "deploy_queue_leases db' = sql_delete p (deploy_queue_leases db)"
    and p: "\<And>x. x \<in> set (deploy_queue_leases db) \<Longrightarrow> p x \<longleftrightarrow> l_run_id x = r_id r"
    and "next_run_id db' = next_run_id db"
  shows "lease_inv db'"
proof -
  have r: "r \<in> set (deploy_runs db)" "r_id r' = r_id r" using row_changed_in [OF runs] by auto
  have key: "(r_id x = r_id r) = (x = r)" if "x \<in> set (deploy_runs db)" for x
    using r lease_inv_distinct(1) [OF inv] that by (intro distinct_map_key) auto
  have ls: "set (deploy_queue_leases db') = {x \<in> set (deploy_queue_leases db). l_run_id x \<noteq> r_id r}"
    using p by (auto simp: leases)
  show ?thesis unfolding lease_inv_def
  proof (intro conjI)
    show "distinct (map r_id (deploy_runs db'))" by (rule row_changed_distinct [OF runs])
    show "distinct (map l_run_id (deploy_queue_leases db'))"
      "distinct (map l_environment_id (deploy_queue_leases db'))"
      "distinct (map l_claim_token (deploy_queue_leases db'))"
      using inv unfolding lease_inv_def leases by (auto intro: distinct_sql_delete)
    show "\<forall>r \<in> set (deploy_runs db'). r_id r < next_run_id db'"
      using inv r by (auto simp: row_changed_set [OF runs] assms(6) lease_inv_def)
    show "\<forall>l \<in> set (deploy_queue_leases db'). l_claim_token l \<noteq> [] \<and>
            (\<exists>r \<in> set (deploy_runs db'). lease_matches l r)"
    proof (intro ballI)
      fix l assume l: "l \<in> set (deploy_queue_leases db')"
      then obtain y where y: "y \<in> set (deploy_runs db)" "lease_matches l y" "l_claim_token l \<noteq> []"
        using inv unfolding ls lease_inv_def by blast
      then have "y \<noteq> r" using l by (auto simp: ls lease_matches_def)
      with y show "l_claim_token l \<noteq> [] \<and> (\<exists>r \<in> set (deploy_runs db'). lease_matches l r)"
        unfolding row_changed_set [OF runs] by blast
    qed
    show "\<forall>r \<in> set (deploy_runs db'). idle_run r \<or> (\<exists>l \<in> set (deploy_queue_leases db'). lease_matches l r)"
    proof (intro ballI)
      fix y assume "y \<in> set (deploy_runs db')"
      then consider "y = r'" | "y \<in> set (deploy_runs db)" "y \<noteq> r"
        unfolding row_changed_set [OF runs] by blast
      then show "idle_run y \<or> (\<exists>l \<in> set (deploy_queue_leases db'). lease_matches l y)"
      proof cases
        case 2
        then have "lease_matches l y \<Longrightarrow> l_run_id l \<noteq> r_id r" for l
          using key [of y] by (auto simp: lease_matches_def)
        with 2 inv show ?thesis unfolding ls lease_inv_def by blast
      qed (use assms(3) in simp)
    qed
  qed
qed

subsection \<open>Paths of runs and the event log\<close>

definition run_identity :: "run_row \<Rightarrow> _" where
  "run_identity r =
     (r_project_id r, r_environment_id r, r_operation r, r_trigger r, r_actor r, r_requested_at r,
      r_idempotency_key r, r_request_digest r, r_plan_revision r, r_retry_of_run_id r,
      r_priority r, r_slot_class r, r_metadata_json r)"

text \<open>The unique index over project, environment, operation and idempotency key.\<close>

definition idem_key :: "run_row \<Rightarrow> int \<times> int \<times> Operation \<times> string" where
  "idem_key r = (r_project_id r, r_environment_id r, r_operation r, r_idempotency_key r)"

definition idem_inv :: "db \<Rightarrow> bool" where
  "idem_inv db \<longleftrightarrow>
     distinct (map idem_key (filter (\<lambda>r. r_idempotency_key r \<noteq> []) (deploy_runs db)))"

lemma idem_inv_identity:
  assumes "map run_identity (deploy_runs db') = map run_identity (deploy_runs db)" and "idem_inv db"
  shows "idem_inv db'"
proof -
  have "map idem_key (filter (\<lambda>r. r_idempotency_key r \<noteq> []) rows) =
      map (\<lambda>i. (fst i, fst (snd i), fst (snd (snd i)), fst (snd (snd (snd (snd (snd (snd i))))))))
        (filter (\<lambda>i. fst (snd (snd (snd (snd (snd (snd i)))))) \<noteq> []) (map run_identity rows))" for rows
    by (induction rows) (auto simp: idem_key_def run_identity_def)
  with assms show ?thesis by (simp add: idem_inv_def)
qed

definition runs_follow :: "db \<Rightarrow> db \<Rightarrow> bool" where
  "runs_follow db db' \<longleftrightarrow>
     (\<forall>k r. run_by_id db k = Some r \<longrightarrow>
        (\<exists>r' ts. run_by_id db' k = Some r' \<and> run_identity r' = run_identity r \<and>
           run_path (r_state r) ts (r_state r'))) \<and>
     (idem_inv db \<longrightarrow> idem_inv db')"

lemma runs_follow_refl: "runs_follow db db"
  by (auto simp: runs_follow_def intro: run_path.intros)

lemma runs_follow_cong: "deploy_runs db' = deploy_runs db \<Longrightarrow> runs_follow db db'"
  by (auto simp: runs_follow_def run_by_id_def idem_inv_def intro: run_path.intros)

lemma runs_follow_trans:
  assumes "runs_follow db1 db2" and "runs_follow db2 db3"
  shows "runs_follow db1 db3"
  unfolding runs_follow_def
proof (intro conjI allI impI)
  assume "idem_inv db1"
  with assms show "idem_inv db3" by (simp add: runs_follow_def)
next
  fix k r assume "run_by_id db1 k = Some r"
  with assms(1) obtain r2 ts where 2: "run_by_id db2 k = Some r2" "run_identity r2 = run_identity r"
    "run_path (r_state r) ts (r_state r2)" unfolding runs_follow_def by blast
  with assms(2) obtain r3 us where 3: "run_by_id db3 k = Some r3" "run_identity r3 = run_identity r2"
    "run_path (r_state r2) us (r_state r3)" unfolding runs_follow_def by blast
  from 2 3 show "\<exists>r' ts. run_by_id db3 k = Some r' \<and> run_identity r' = run_identity r \<and>
      run_path (r_state r) ts (r_state r')"
    by (intro exI [of _ r3] exI [of _ "ts @ us"]) (simp add: run_path_append)
qed

lemma runs_follow_changed:
  assumes "row_changed r_id (deploy_runs db) r r' (deploy_runs db')"
    and "run_identity r' = run_identity r" and "run_path (r_state r) ts (r_state r')"
  shows "runs_follow db db'"
proof -
  have "distinct (map r_id (deploy_runs db))" "r \<in> set (deploy_runs db)"
    using assms(1) by (auto simp: row_changed_def)
  then have "run_by_id db (r_id r) = Some r" by (rule run_by_id_unique)
  moreover have "map run_identity (deploy_runs db') = map run_identity (deploy_runs db)"
    by (rule row_changed_map [OF assms(1,2)])
  then have "idem_inv db \<Longrightarrow> idem_inv db'" by (rule idem_inv_identity)
  ultimately show ?thesis
    using assms(2,3) row_changed_find [OF assms(1)]
    by (auto simp: runs_follow_def run_by_id_def intro: run_path.intros)
qed

lemma run_path_1: "CanTransitionRun s t \<Longrightarrow> run_path s [t] t"
  by (auto intro: run_path.intros)

text \<open>The rows that a list of events added to the log, numbered one after the other.\<close>

definition chunk_next :: "chunk_row list \<Rightarrow> int \<Rightarrow> int" where
  "chunk_next cs runID = sql_max (\<lambda>c. c_run_id c = runID) c_seq cs + 1"

definition chunk_of :: "chunk_row \<Rightarrow> RunEvent \<Rightarrow> bool" where
  "chunk_of c ev \<longleftrightarrow>
     c_run_id c = ev_RunID ev \<and> c_seq c = ev_Seq ev \<and> c_event_type c = ev_Type ev \<and>
     c_step_id c = ev_StepID ev \<and> \<not> c_compacted c \<and> ev_Data ev = EventBytes (c_data_json c)"

fun logged :: "chunk_row list \<Rightarrow> RunEvent list \<Rightarrow> chunk_row list \<Rightarrow> bool" where
  "logged cs [] cs' \<longleftrightarrow> cs' = cs"
| "logged cs (ev # evs) cs' \<longleftrightarrow>
     (\<exists>c. chunk_of c ev \<and> ev_Seq ev = chunk_next cs (ev_RunID ev) \<and> logged (cs @ [c]) evs cs')"

lemma logged_append: "logged cs evs cs' \<Longrightarrow> logged cs' evs' cs'' \<Longrightarrow> logged cs (evs @ evs') cs''"
  by (induction cs evs cs' rule: logged.induct) auto

lemma appended_logged: "appended runID db ev db' \<Longrightarrow> logged (deploy_log_chunks db) [ev] (deploy_log_chunks db')"
  by (auto simp: appended_def chunk_of_def chunk_next_def next_seq_def)

lemma appended_run: "appended runID db ev db' \<Longrightarrow> ev_RunID ev = runID"
  by (auto simp: appended_def)

definition chunks_inv :: "chunk_row list \<Rightarrow> bool" where
  "chunks_inv cs \<longleftrightarrow> (\<forall>k. let ss = map c_seq (filter (\<lambda>c. c_run_id c = k) cs) in
     sorted_wrt (<) ss \<and> (\<forall>s \<in> set ss. 0 < s))"

lemma seq_inv_chunks: "seq_inv db \<longleftrightarrow> chunks_inv (deploy_log_chunks db)"
  by (simp add: seq_inv_def seqs_def chunks_inv_def Let_def)

lemma chunk_next_upper: "c \<in> set cs \<Longrightarrow> c_run_id c = k \<Longrightarrow> c_seq c < chunk_next cs k"
  using sql_max_upper [of c cs "\<lambda>c. c_run_id c = k" c_seq] by (simp add: chunk_next_def)

lemma chunk_next_pos: "chunks_inv cs \<Longrightarrow> 0 < chunk_next cs k"
proof -
  assume "chunks_inv cs"
  then have "\<forall>c \<in> set cs. c_run_id c = k \<longrightarrow> 0 \<le> c_seq c" by (fastforce simp: chunks_inv_def Let_def)
  then show ?thesis using sql_max_nonneg [of cs "\<lambda>c. c_run_id c = k" c_seq] by (simp add: chunk_next_def)
qed

lemma chunks_inv_snoc:
  "chunks_inv cs \<Longrightarrow> c_seq c = chunk_next cs (c_run_id c) \<Longrightarrow> chunks_inv (cs @ [c])"
  using chunk_next_pos [of cs "c_run_id c"]
  by (auto simp: chunks_inv_def Let_def sorted_wrt_append chunk_next_upper)

lemma logged_chunks_inv: "logged cs evs cs' \<Longrightarrow> chunks_inv cs \<Longrightarrow> chunks_inv cs'"
  by (induction cs evs cs' rule: logged.induct) (auto simp: chunk_of_def, metis chunks_inv_snoc)

text \<open>What a committed transaction with its events keeps.\<close>

definition tx_step :: "db \<Rightarrow> RunEvent list \<Rightarrow> db \<Rightarrow> bool" where
  "tx_step db evs db' \<longleftrightarrow>
     lease_inv db' \<and> runs_follow db db' \<and> logged (deploy_log_chunks db) evs (deploy_log_chunks db')"

lemma tx_step_trans: "tx_step db1 evs db2 \<Longrightarrow> tx_step db2 evs' db3 \<Longrightarrow> tx_step db1 (evs @ evs') db3"
  by (auto simp: tx_step_def intro: runs_follow_trans logged_append)

lemma tx_step_refl: "lease_inv db \<Longrightarrow> tx_step db [] db"
  by (simp add: tx_step_def runs_follow_refl)

subsection \<open>Claiming\<close>

lemma insert_lease_Ok:
  "insert_lease l db = Ok db' \<Longrightarrow>
   db' = db\<lparr>deploy_queue_leases := deploy_queue_leases db @ [l]\<rparr> \<and>
   (\<forall>x \<in> set (deploy_queue_leases db). l_run_id x \<noteq> l_run_id l \<and>
      l_claim_token x \<noteq> l_claim_token l \<and> l_environment_id x \<noteq> l_environment_id l)"
  by (auto simp: insert_lease_def split: if_splits)

lemma hex_encode_nonempty: "raw \<noteq> [] \<Longrightarrow> hex_encode raw \<noteq> []"
  by (metis length_hex_encode length_0_conv mult_eq_0_iff zero_neq_numeral)

definition claims :: "string \<Rightarrow> go_duration \<Rightarrow> go_time \<Rightarrow> string \<Rightarrow> run_row \<Rightarrow> lease_row \<Rightarrow> run_row \<Rightarrow> bool" where
  "claims worker ttl now token r l r' \<longleftrightarrow>
     l = \<lparr> l_run_id = r_id r, l_environment_id = r_environment_id r, l_claim_token = token,
           l_slot_class = r_slot_class r, l_claimed_by = worker, l_expires_at = unix (now + lease_ttl ttl),
           l_heartbeat_at = unix now, l_created_at = unix now \<rparr> \<and>
     r' = r\<lparr>r_state := RunPreparing, r_claimed_at := unix now, r_heartbeat_at := unix now,
            r_lease_token := token, r_lease_until := unix (now + lease_ttl ttl)\<rparr>"

lemma claimNextOnce_Some:
  assumes inv: "distinct (map r_id (deploy_runs db))"
    and ok: "claimNextOnce worker budget ttl now rnd db = Ok (Some q, db', evs)"
  obtains raw r l r' ev db2 where
    "rnd = Some raw" "lease_Token q = hex_encode raw" "lease_RunID q = r_id r"
    "sql_first_by claim_order (claimable (open_classes (budget_normalized budget) db) db) (deploy_runs db) = Some r"
    "claims worker ttl now (hex_encode raw) r l r'"
    "\<forall>x \<in> set (deploy_queue_leases db). l_run_id x \<noteq> l_run_id l \<and>
       l_claim_token x \<noteq> l_claim_token l \<and> l_environment_id x \<noteq> l_environment_id l"
    "row_changed r_id (deploy_runs db) r r' (deploy_runs db')"
    "deploy_queue_leases db' = deploy_queue_leases db @ [l]"
    "next_run_id db' = next_run_id db" "deploy_environments db' = deploy_environments db"
    "logged (deploy_log_chunks db) evs (deploy_log_chunks db')" "evs = [ev]" "ev_RunID ev = r_id r"
    "appended (r_id r) db2 ev db'"
proof -
  let ?b = "budget_normalized budget"
  let ?sel = "sql_first_by claim_order (claimable (open_classes ?b db) db) (deploy_runs db)"
  from ok obtain r where sel: "?sel = Some r"
    by (auto simp: claimNextOnce_def Let_def split: if_splits option.splits)
  then have r: "r \<in> set (deploy_runs db)" "r_state r = RunQueued" "\<not> r_cancel_requested r"
    by (auto dest!: sql_first_by_Some simp: claimable_def)
  from ok obtain raw where raw: "rnd = Some raw"
    by (auto simp: claimNextOnce_def Let_def sel newClaimToken_def split: if_splits option.splits)
  obtain l r' where cl: "claims worker ttl now (hex_encode raw) r l r'"
    by (simp add: claims_def)
  let ?p = "\<lambda>x. r_id x = r_id r \<and> r_state x = RunQueued \<and> \<not> r_cancel_requested x"
  let ?f = "\<lambda>x. x\<lparr>r_state := RunPreparing, r_claimed_at := unix now, r_heartbeat_at := unix now,
      r_lease_token := hex_encode raw, r_lease_until := unix (now + lease_ttl ttl)\<rparr>"
  have chg: "row_changed r_id (deploy_runs db) r r' (sql_update ?p ?f (deploy_runs db))"
    using sql_update_row_changed [of r_id "deploy_runs db" r ?p ?f] inv r cl
    by (auto simp: claims_def)
  from ok obtain ev where ins: "insert_lease l db = Ok (db\<lparr>deploy_queue_leases := deploy_queue_leases db @ [l]\<rparr>)"
    and app: "appendEventTx now (r_id r) 0 EventRunState ''status'' []
      (mustJSON [(''state'', run_state_json RunPreparing), (''worker'', GStr worker)])
      (db\<lparr>deploy_queue_leases := deploy_queue_leases db @ [l],
          deploy_runs := sql_update ?p ?f (deploy_runs db)\<rparr>) = Ok (ev, db')"
    and evs: "evs = [ev]" and q: "lease_Token q = hex_encode raw" "lease_RunID q = r_id r"
    using cl unfolding claimNextOnce_def Let_def sel raw newClaimToken_def claims_def
    by (auto simp: bindr_eq_Ok split: if_split_asm dest!: insert_lease_Ok)
  note ap = appendEventTx_Ok [OF app, THEN conjunct1]
  show thesis
  proof (rule that [OF raw q sel cl])
    show "\<forall>x \<in> set (deploy_queue_leases db). l_run_id x \<noteq> l_run_id l \<and>
       l_claim_token x \<noteq> l_claim_token l \<and> l_environment_id x \<noteq> l_environment_id l"
      using insert_lease_Ok [OF ins] by blast
    show "row_changed r_id (deploy_runs db) r r' (deploy_runs db')"
      using chg appended_frame [OF ap] by simp
    show "logged (deploy_log_chunks db) evs (deploy_log_chunks db')"
      using appended_logged [OF ap] evs by simp
    show "ev_RunID ev = r_id r" by (rule appended_run [OF ap])
    show "appended (r_id r) (db\<lparr>deploy_queue_leases := deploy_queue_leases db @ [l],
          deploy_runs := sql_update ?p ?f (deploy_runs db)\<rparr>) ev db'" by (rule ap)
  qed (use appended_frame [OF ap] evs in simp_all)
qed

lemma claimNextOnce_None:
  "claimNextOnce worker budget ttl now rnd db = Ok (None, db', evs) \<Longrightarrow> db' = db \<and> evs = []"
  by (auto simp: claimNextOnce_def Let_def bindr_eq_Ok split: if_splits option.splits)

lemma idle_queued: "lease_inv db \<Longrightarrow> r \<in> set (deploy_runs db) \<Longrightarrow> r_state r = RunQueued \<Longrightarrow> idle_run r"
  by (auto simp: lease_inv_def lease_matches_def claimed_state_def)

lemma claimNextOnce_step:
  assumes inv: "lease_inv db" and ok: "claimNextOnce worker budget ttl now rnd db = Ok (q, db', evs)"
    and rnd: "\<And>raw. rnd = Some raw \<Longrightarrow> raw \<noteq> []"
  shows "tx_step db evs db'"
proof (cases q)
  case None
  with ok have "db' = db \<and> evs = []" by (auto dest: claimNextOnce_None)
  with inv show ?thesis by (auto intro: tx_step_refl)
next
  case (Some lease)
  from claimNextOnce_Some [OF lease_inv_distinct(1) [OF inv] ok [unfolded Some]]
  obtain raw r l r' where c:
    "rnd = Some raw"
    "sql_first_by claim_order (claimable (open_classes (budget_normalized budget) db) db) (deploy_runs db) = Some r"
    "claims worker ttl now (hex_encode raw) r l r'"
    "\<forall>x \<in> set (deploy_queue_leases db). l_run_id x \<noteq> l_run_id l \<and>
       l_claim_token x \<noteq> l_claim_token l \<and> l_environment_id x \<noteq> l_environment_id l"
    "row_changed r_id (deploy_runs db) r r' (deploy_runs db')"
    "deploy_queue_leases db' = deploy_queue_leases db @ [l]"
    "next_run_id db' = next_run_id db" "logged (deploy_log_chunks db) evs (deploy_log_chunks db')"
    by metis
  from c(2) have q: "r \<in> set (deploy_runs db)" "r_state r = RunQueued"
    by (auto dest!: sql_first_by_Some simp: claimable_def)
  have "lease_matches l r'" "run_identity r' = run_identity r" "l_claim_token l \<noteq> []"
    using c(3) hex_encode_nonempty [OF rnd [OF c(1)]]
    by (auto simp: claims_def lease_matches_def claimed_state_def run_identity_def)
  moreover have "run_path (r_state r) [RunPreparing] (r_state r')"
    using c(3) q run_path_1 [of RunQueued RunPreparing] by (auto simp: claims_def CanTransitionRun_def)
  ultimately show ?thesis
    unfolding tx_step_def
    using lease_inv_claim [OF inv c(5) idle_queued [OF inv q] _ _ c(6,4,7)] runs_follow_changed [OF c(5)] c(8)
    by blast
qed

lemma claim_attempts_step:
  assumes inv: "lease_inv db" and rnd: "\<And>n raw. rand n = Some raw \<Longrightarrow> raw \<noteq> []"
  shows "claim_attempts k n worker budget ttl clock rand e db = Ok (q, db', evs) \<Longrightarrow> tx_step db evs db'"
proof (induction k arbitrary: n e)
  case (Suc k)
  then show ?case
    by (auto split: sum.splits if_splits intro: claimNextOnce_step [OF inv] dest: rnd)
qed simp

subsection \<open>The holder of a lease\<close>

lemma assertLeaseTx_Ok:
  assumes "assertLeaseTx runID claimToken now db = Ok u"
  obtains l where "l \<in> set (deploy_queue_leases db)" "l_run_id l = runID" "l_claim_token l = claimToken"
    "claimToken \<noteq> []" "unix now \<le> l_expires_at l"
proof -
  from assms obtain l where "lease_of db runID claimToken = Some l" "claimToken \<noteq> []" "\<not> l_expires_at l < unix now"
    by (auto simp: assertLeaseTx_def split: if_splits option.splits)
  with that show thesis by (auto simp: lease_of_def dest!: find_Some_in)
qed

lemma assertLeaseTx_held:
  assumes "lease_inv db" and "assertLeaseTx runID claimToken now db = Ok u"
  obtains l r where "l \<in> set (deploy_queue_leases db)" "l_run_id l = runID" "l_claim_token l = claimToken"
    "claimToken \<noteq> []" "unix now \<le> l_expires_at l"
    "run_by_id db runID = Some r" "r \<in> set (deploy_runs db)" "r_id r = runID" "lease_matches l r"
proof -
  obtain l where l: "l \<in> set (deploy_queue_leases db)" "l_run_id l = runID" "l_claim_token l = claimToken"
    "claimToken \<noteq> []" "unix now \<le> l_expires_at l"
    by (rule assertLeaseTx_Ok [OF assms(2)])
  from lease_inv_lease [OF assms(1) l(1)] l obtain r where "run_by_id db runID = Some r" "lease_matches l r"
    by auto
  with run_by_id_Some [of db runID r] l that show thesis by blast
qed

text \<open>An update of the run by its lease holder that keeps it claimed.\<close>

lemma held_update_step:
  assumes inv: "lease_inv db" and l: "l \<in> set (deploy_queue_leases db)" "l_run_id l = r_id r"
    and r: "row_changed r_id (deploy_runs db) r r' (deploy_runs db')"
    and same: "run_identity r' = run_identity r" "r_lease_token r' = r_lease_token r" "claimed_state (r_state r')"
      "run_path (r_state r) ts (r_state r')"
    and "deploy_queue_leases db' = deploy_queue_leases db" "next_run_id db' = next_run_id db"
      "logged (deploy_log_chunks db) evs (deploy_log_chunks db')"
  shows "tx_step db evs db'"
proof -
  have m: "lease_matches l r"
    using row_changed_in [OF r] l by (intro lease_inv_run [OF inv]) auto
  have leases: "row_changed l_run_id (deploy_queue_leases db) l l (deploy_queue_leases db')"
    using lease_inv_distinct(2) [OF inv] l by (simp add: row_changed_refl assms(9))
  have "lease_matches l r'"
    using m same row_changed_in [OF r] by (simp add: lease_matches_def run_identity_def)
  moreover have "l_claim_token x \<noteq> l_claim_token l" if "x \<in> set (deploy_queue_leases db)" "x \<noteq> l" for x
    using distinct_map_key [OF lease_inv_distinct(3) [OF inv] l(1) that(1)] that(2) by simp
  moreover have "l_claim_token l \<noteq> []" using lease_inv_lease [OF inv l(1)] by simp
  ultimately have "lease_inv db'"
    using lease_inv_held [OF inv r leases l(2) refl] assms(10) by blast
  then show ?thesis
    using runs_follow_changed [OF r same(1,4)] assms(11) by (simp add: tx_step_def)
qed

lemma SetRunCommits_step:
  assumes inv: "lease_inv db" and ok: "SetRunCommits runID tok fc tc now db = Ok (u, db', evs)"
  shows "tx_step db evs db'"
proof -
  from ok have a: "assertLeaseTx runID tok now db = Ok ()"
    by (auto simp: SetRunCommits_def bindr_eq_Ok)
  obtain l r where l: "l \<in> set (deploy_queue_leases db)" "l_run_id l = runID" "l_claim_token l = tok"
    and r: "r \<in> set (deploy_runs db)" "r_id r = runID" "lease_matches l r"
    by (rule assertLeaseTx_held [OF inv a])
  let ?f = "\<lambda>r. r\<lparr>r_from_commit := (if fc \<noteq> [] then fc else r_from_commit r),
             r_to_commit := (if tc \<noteq> [] then tc else r_to_commit r)\<rparr>"
  have chg: "row_changed r_id (deploy_runs db) r (?f r) (deploy_runs db')"
    using ok a l r sql_update_row_changed [of r_id "deploy_runs db" r "\<lambda>x. r_id x = runID \<and> r_lease_token x = tok" ?f]
      lease_inv_distinct(1) [OF inv]
    by (auto simp: SetRunCommits_def lease_matches_def)
  show ?thesis
    by (rule held_update_step [OF inv l(1) _ chg])
       (use ok a l r in \<open>auto simp: SetRunCommits_def run_identity_def lease_matches_def intro: run_path.intros\<close>)
qed

lemma Heartbeat_step:
  assumes inv: "lease_inv db" and ok: "Heartbeat runID tok ttl now db = Ok (u, db', evs)"
  shows "tx_step db evs db'"
proof -
  let ?p = "\<lambda>l. l_run_id l = runID \<and> l_claim_token l = tok \<and> unix now \<le> l_expires_at l"
  let ?f = "\<lambda>l. l\<lparr>l_heartbeat_at := unix now, l_expires_at := unix (now + lease_ttl ttl)\<rparr>"
  let ?g = "\<lambda>r. r\<lparr>r_heartbeat_at := unix now, r_lease_until := unix (now + lease_ttl ttl)\<rparr>"
  from ok have n: "sql_count ?p (deploy_queue_leases db) = 1" and
    db': "db' = db\<lparr>deploy_queue_leases := sql_update ?p ?f (deploy_queue_leases db),
      deploy_runs := sql_update (\<lambda>r. r_id r = runID \<and> r_lease_token r = tok) ?g (deploy_runs db)\<rparr>" "evs = []"
    by (auto simp: Heartbeat_def Let_def split: if_splits)
  have "sql_count ?p (deploy_queue_leases db) = 1 \<longleftrightarrow> (\<exists>l \<in> set (deploy_queue_leases db). ?p l)"
    by (rule sql_count_eq_1 [OF lease_inv_distinct(2) [OF inv], of _ runID]) simp
  with n obtain l where l: "l \<in> set (deploy_queue_leases db)" "?p l" by auto
  obtain r where r: "r \<in> set (deploy_runs db)" "lease_matches l r" and t: "l_claim_token l \<noteq> []"
    using lease_inv_lease [OF inv l(1)] by (auto dest: run_by_id_Some)
  have chg: "row_changed r_id (deploy_runs db) r (?g r) (deploy_runs db')"
    using sql_update_row_changed [of r_id "deploy_runs db" r "\<lambda>x. r_id x = runID \<and> r_lease_token x = tok" ?g]
      lease_inv_distinct(1) [OF inv] l r by (auto simp: db' lease_matches_def)
  have lchg: "row_changed l_run_id (deploy_queue_leases db) l (?f l) (deploy_queue_leases db')"
    using sql_update_row_changed [of l_run_id "deploy_queue_leases db" l ?p ?f]
      lease_inv_distinct(2) [OF inv] l by (auto simp: db')
  have "lease_inv db'"
  proof (rule lease_inv_held [OF inv chg lchg])
    show "l_claim_token x \<noteq> l_claim_token (?f l)" if "x \<in> set (deploy_queue_leases db)" "x \<noteq> l" for x
      using distinct_map_key [OF lease_inv_distinct(3) [OF inv] l(1) that(1)] that(2) by simp
  qed (use r t in \<open>simp_all add: lease_matches_def db'\<close>)
  moreover have "runs_follow db db'"
    by (rule runs_follow_changed [OF chg]) (auto simp: run_identity_def intro: run_path.intros)
  ultimately show ?thesis by (simp add: tx_step_def db')
qed

subsection \<open>Transitions\<close>

definition transitioned :: "RunState \<Rightarrow> TransitionDetail \<Rightarrow> go_time \<Rightarrow> run_row \<Rightarrow> run_row" where
  "transitioned to detail now r =
     r\<lparr>r_state := to, r_status := legacyStatus to, r_ended_at := (if Terminal to then unix now else 0),
       r_terminal_code := detail_Code detail, r_terminal_reason := detail_Reason detail,
       r_lease_token := (if Terminal to \<and> unix now \<noteq> 0 then [] else r_lease_token r),
       r_lease_until := (if Terminal to \<and> unix now \<noteq> 0 then 0 else r_lease_until r)\<rparr>"

lemma transitionRunTx_Ok:
  assumes inv: "lease_inv db" and ok: "transitionRunTx runID tok to detail now db = Ok (x, db', evs)"
  obtains l r ev where
    "l \<in> set (deploy_queue_leases db)" "l_run_id l = runID" "l_claim_token l = tok" "unix now \<le> l_expires_at l"
    "run_by_id db runID = Some r" "r_id r = runID" "lease_matches l r"
    "CanTransitionRun (r_state r) to"
    "row_changed r_id (deploy_runs db) r (transitioned to detail now r) (deploy_runs db')"
    "deploy_queue_leases db' = (if Terminal to
       then sql_delete (\<lambda>l. l_run_id l = runID \<and> l_claim_token l = tok) (deploy_queue_leases db)
       else deploy_queue_leases db)"
    "next_run_id db' = next_run_id db" "logged (deploy_log_chunks db) evs (deploy_log_chunks db')"
    "evs = [ev]" "ev_RunID ev = runID" "x = scanEngineRun (transitioned to detail now r)"
proof -
  from ok have a: "assertLeaseTx runID tok now db = Ok ()"
    by (auto simp: transitionRunTx_def bindr_eq_Ok)
  obtain l r where l: "l \<in> set (deploy_queue_leases db)" "l_run_id l = runID" "l_claim_token l = tok"
      "tok \<noteq> []" "unix now \<le> l_expires_at l"
    and r: "run_by_id db runID = Some r" "r \<in> set (deploy_runs db)" "r_id r = runID" "lease_matches l r"
    by (rule assertLeaseTx_held [OF inv a])
  let ?p = "\<lambda>x. r_id x = runID \<and> r_state x = r_state r \<and> r_lease_token x = tok"
  let ?f = "\<lambda>r. r\<lparr>r_state := to, r_status := legacyStatus to,
       r_ended_at := (if Terminal to then unix now else 0),
       r_terminal_code := detail_Code detail, r_terminal_reason := detail_Reason detail,
       r_lease_token := (if (if Terminal to then unix now else 0) \<noteq> 0 then [] else r_lease_token r),
       r_lease_until := (if (if Terminal to then unix now else 0) \<noteq> 0 then 0 else r_lease_until r)\<rparr>"
  let ?db1 = "db\<lparr>deploy_runs := sql_update ?p ?f (deploy_runs db)\<rparr>"
  have fr: "?f r = transitioned to detail now r" by (simp add: transitioned_def)
  have chg: "row_changed r_id (deploy_runs db) r (transitioned to detail now r) (deploy_runs ?db1)"
    unfolding fr [symmetric]
    using sql_update_row_changed [of r_id "deploy_runs db" r ?p ?f] lease_inv_distinct(1) [OF inv] l r
    by (auto simp: lease_matches_def)
  from ok a r obtain ev db2 where can: "CanTransitionRun (r_state r) to"
    and app: "appendEventTx now runID 0 EventRunState ''status'' []
      (mustJSON [(''from'', run_state_json (r_state r)), (''state'', run_state_json to),
        (''code'', GStr (detail_Code detail)), (''reason'', GStr (detail_Reason detail))]) ?db1 = Ok (ev, db2)"
    and evs: "evs = [ev]"
    and db': "db' = (if Terminal to
        then db2\<lparr>deploy_queue_leases := sql_delete (\<lambda>l. l_run_id l = runID \<and> l_claim_token l = tok)
               (deploy_queue_leases db2)\<rparr> else db2)"
    and x: "map_option scanEngineRun (run_by_id db2 runID) = Some x"
    unfolding transitionRunTx_def Let_def ValidateRunTransition_def
    by (auto simp: bindr_eq_Ok split: if_split_asm option.split_asm)
  note ap = appendEventTx_Ok [OF app, THEN conjunct1]
  note fr2 = appended_frame [OF ap]
  have "run_by_id db2 runID = Some (transitioned to detail now r)"
    using row_changed_find [OF chg, of runID] fr2 r by (simp add: run_by_id_def)
  with x have "x = scanEngineRun (transitioned to detail now r)" by simp
  moreover have "logged (deploy_log_chunks db) evs (deploy_log_chunks db')"
    using appended_logged [OF ap] evs by (simp add: db')
  moreover have "ev_RunID ev = runID" by (rule appended_run [OF ap])
  moreover have "row_changed r_id (deploy_runs db) r (transitioned to detail now r) (deploy_runs db')"
  proof -
    have "deploy_runs db' = deploy_runs db2" by (simp add: db')
    moreover have "deploy_runs db2 = deploy_runs ?db1" using fr2 by blast
    ultimately show ?thesis using chg by argo
  qed
  moreover have "deploy_queue_leases db' = (if Terminal to
       then sql_delete (\<lambda>l. l_run_id l = runID \<and> l_claim_token l = tok) (deploy_queue_leases db)
       else deploy_queue_leases db)" "next_run_id db' = next_run_id db"
    using fr2 by (simp_all add: db')
  ultimately show thesis
    using that [OF l(1-3,5) r(1,3,4) can _ _ _ _ evs] by blast
qed

lemma claimed_not_Terminal: "claimed_state s \<Longrightarrow> \<not> Terminal s"
  by (auto simp: claimed_state_def)

lemma claimed_transition: "claimed_state s \<Longrightarrow> CanTransitionRun s t \<Longrightarrow> claimed_state t \<or> Terminal t"
  by (cases s) (auto simp: claimed_state_def CanTransitionRun_def)

lemma transitionRunTx_step:
  assumes inv: "lease_inv db" and ok: "transitionRunTx runID tok to detail now db = Ok (x, db', evs)"
    and now: "unix now \<noteq> 0"
  shows "tx_step db evs db'"
proof -
  obtain l r where l: "l \<in> set (deploy_queue_leases db)" "l_run_id l = runID" "l_claim_token l = tok"
    and r: "r_id r = runID" "lease_matches l r" and can: "CanTransitionRun (r_state r) to"
    and chg: "row_changed r_id (deploy_runs db) r (transitioned to detail now r) (deploy_runs db')"
    and leases: "deploy_queue_leases db' = (if Terminal to
       then sql_delete (\<lambda>l. l_run_id l = runID \<and> l_claim_token l = tok) (deploy_queue_leases db)
       else deploy_queue_leases db)"
    and rest: "next_run_id db' = next_run_id db" "logged (deploy_log_chunks db) evs (deploy_log_chunks db')"
    by (rule transitionRunTx_Ok [OF inv ok])
  have id: "run_identity (transitioned to detail now r) = run_identity r"
    by (simp add: transitioned_def run_identity_def)
  have path: "run_path (r_state r) [to] (r_state (transitioned to detail now r))"
    using run_path_1 [OF can] by (simp add: transitioned_def)
  show ?thesis
  proof (cases "Terminal to")
    case False
    then have "claimed_state to" using claimed_transition [OF _ can] r by (auto simp: lease_matches_def)
    with False show ?thesis
      by (intro held_update_step [OF inv l(1) _ chg id]) (use l r path leases rest in \<open>auto simp: transitioned_def\<close>)
  next
    case True
    have "(l_run_id x = runID \<and> l_claim_token x = tok) = (l_run_id x = r_id r)"
      if "x \<in> set (deploy_queue_leases db)" for x
      using distinct_map_key [OF lease_inv_distinct(2) [OF inv] l(1) that] l r(1) by auto
    moreover have "idle_run (transitioned to detail now r)"
      using True now by (simp add: idle_run_def transitioned_def)
    ultimately have "lease_inv db'"
      using lease_inv_release [OF inv chg, of "\<lambda>l. l_run_id l = runID \<and> l_claim_token l = tok"]
        leases True rest by simp
    then show ?thesis using runs_follow_changed [OF chg id path] rest by (simp add: tx_step_def)
  qed
qed

subsection \<open>Cancellation\<close>

lemma requestCancellationTx_Ok:
  assumes inv: "lease_inv db" and ok: "requestCancellationTx runID now db = Ok (x, db', evs)"
  obtains r r' where
    "run_by_id db runID = Some r" "CanTransitionRun (r_state r) RunCancelling" "x = scanEngineRun r'"
    "row_changed r_id (deploy_runs db) r r' (deploy_runs db')"
    "r_state r = RunQueued \<and> deploy_queue_leases db' = sql_delete (\<lambda>l. l_run_id l = runID) (deploy_queue_leases db) \<and>
       r' = r\<lparr>r_state := RunCancelled, r_cancel_requested := True, r_status := legacyStatus RunCancelled,
              r_ended_at := unix now, r_lease_token := [], r_lease_until := 0\<rparr> \<or>
     claimed_state (r_state r) \<and> deploy_queue_leases db' = deploy_queue_leases db \<and>
       r' = r\<lparr>r_state := RunCancelling, r_cancel_requested := True\<rparr>"
    "next_run_id db' = next_run_id db" "logged (deploy_log_chunks db) evs (deploy_log_chunks db')"
proof -
  from ok obtain r where r: "run_by_id db runID = Some r"
    by (auto simp: requestCancellationTx_def split: option.splits)
  then have rin: "r \<in> set (deploy_runs db)" "r_id r = runID" by (auto dest: run_by_id_Some)
  let ?from = "r_state r"
  let ?p1 = "\<lambda>x. r_id x = runID \<and> r_state x = ?from"
  let ?f1 = "\<lambda>r. r\<lparr>r_state := RunCancelling, r_cancel_requested := True\<rparr>"
  let ?p2 = "\<lambda>x. r_id x = runID \<and> r_state x = RunCancelling"
  let ?f2 = "\<lambda>r. r\<lparr>r_state := RunCancelled, r_status := legacyStatus RunCancelled,
       r_ended_at := unix now, r_lease_token := [], r_lease_until := 0\<rparr>"
  let ?db1 = "db\<lparr>deploy_runs := sql_update ?p1 ?f1 (deploy_runs db)\<rparr>"
  have chg1: "row_changed r_id (deploy_runs db) r (?f1 r) (deploy_runs ?db1)"
    using sql_update_row_changed [of r_id "deploy_runs db" r ?p1 ?f1] lease_inv_distinct(1) [OF inv] rin by auto
  from ok r obtain ev db2 where can: "CanTransitionRun ?from RunCancelling"
    and app: "appendEventTx now runID 0 EventRunState ''status'' []
       (mustJSON [(''from'', run_state_json ?from), (''state'', run_state_json RunCancelling)]) ?db1 = Ok (ev, db2)"
    by (auto simp: requestCancellationTx_def Let_def bindr_eq_Ok split: if_split_asm)
  note ap = appendEventTx_Ok [OF app, THEN conjunct1]
  note fr = appended_frame [OF ap]
  have vis: "?from = RunQueued \<or> claimed_state ?from"
    using inv rin(1) can CanTransitionRun_not_Terminal [OF can]
    by (auto simp: lease_inv_def idle_run_def lease_matches_def)
  show thesis
  proof (cases "?from = RunQueued")
    case False
    then have c: "claimed_state ?from" using vis by simp
    with False ok r can app have "db' = db2" "evs = [ev]" "run_by_id db2 runID = map_option ?f1 (Some r) \<Longrightarrow> x = scanEngineRun (?f1 r)"
      by (auto simp: requestCancellationTx_def Let_def claimed_state_def CanTransitionRun_not_Terminal
          split: if_split_asm option.split_asm)
    moreover have "run_by_id db2 runID = Some (?f1 r)"
      using row_changed_find [OF chg1, of runID] fr rin by (simp add: run_by_id_def)
    ultimately show thesis
      using that [OF r can _ _ disjI2, of "?f1 r"] chg1 c fr appended_logged [OF ap] by simp
  next
    case True
    let ?db3 = "db2\<lparr>deploy_runs := sql_update ?p2 ?f2 (deploy_runs db2),
       deploy_queue_leases := sql_delete (\<lambda>l. l_run_id l = runID) (deploy_queue_leases db2)\<rparr>"
    from True ok r can app obtain ev2 where
      app2: "appendEventTx now runID 0 EventRunState ''status'' []
         (mustJSON [(''from'', run_state_json RunCancelling), (''state'', run_state_json RunCancelled)]) ?db3 = Ok (ev2, db')"
      and evs: "evs = [ev, ev2]" and x: "map_option scanEngineRun (run_by_id db' runID) = Some x"
      by (auto simp: requestCancellationTx_def Let_def bindr_eq_Ok CanTransitionRun_not_Terminal
          split: if_split_asm option.split_asm)
    note ap2 = appendEventTx_Ok [OF app2, THEN conjunct1]
  note fr2 = appended_frame [OF ap2]
    have "row_changed r_id (deploy_runs ?db1) (?f1 r) (?f2 (?f1 r)) (sql_update ?p2 ?f2 (deploy_runs db2))"
      using sql_update_row_changed [of r_id "deploy_runs ?db1" "?f1 r" ?p2 ?f2]
        row_changed_distinct [OF chg1] row_changed_in [OF chg1] rin fr by auto
    then have chg: "row_changed r_id (deploy_runs db) r (?f2 (?f1 r)) (deploy_runs db')"
      using row_changed_trans [OF chg1] fr2 by simp
    then have "run_by_id db' runID = Some (?f2 (?f1 r))"
      using row_changed_find [OF chg, of runID] rin by (simp add: run_by_id_def)
    with x have "x = scanEngineRun (?f2 (?f1 r))" by simp
    moreover have "logged (deploy_log_chunks db) ([ev] @ [ev2]) (deploy_log_chunks db')"
      by (rule logged_append [of _ _ "deploy_log_chunks db2"])
         (use appended_logged [OF ap] appended_logged [OF ap2] in simp_all)
    ultimately show thesis
      using that [OF r can _ chg disjI1] True fr fr2 evs by simp
  qed
qed

lemma requestCancellationTx_step:
  assumes inv: "lease_inv db" and ok: "requestCancellationTx runID now db = Ok (x, db', evs)"
  shows "tx_step db evs db'"
proof -
  obtain r r' where r: "run_by_id db runID = Some r" and can: "CanTransitionRun (r_state r) RunCancelling"
    and chg: "row_changed r_id (deploy_runs db) r r' (deploy_runs db')"
    and c: "r_state r = RunQueued \<and> deploy_queue_leases db' = sql_delete (\<lambda>l. l_run_id l = runID) (deploy_queue_leases db) \<and>
       r' = r\<lparr>r_state := RunCancelled, r_cancel_requested := True, r_status := legacyStatus RunCancelled,
              r_ended_at := unix now, r_lease_token := [], r_lease_until := 0\<rparr> \<or>
     claimed_state (r_state r) \<and> deploy_queue_leases db' = deploy_queue_leases db \<and>
       r' = r\<lparr>r_state := RunCancelling, r_cancel_requested := True\<rparr>"
    and rest: "next_run_id db' = next_run_id db" "logged (deploy_log_chunks db) evs (deploy_log_chunks db')"
    by (rule requestCancellationTx_Ok [OF inv ok])
  have rin: "r \<in> set (deploy_runs db)" "r_id r = runID" using r by (auto dest: run_by_id_Some)
  from c show ?thesis
  proof
    assume q: "r_state r = RunQueued \<and> deploy_queue_leases db' = sql_delete (\<lambda>l. l_run_id l = runID) (deploy_queue_leases db) \<and>
       r' = r\<lparr>r_state := RunCancelled, r_cancel_requested := True, r_status := legacyStatus RunCancelled,
              r_ended_at := unix now, r_lease_token := [], r_lease_until := 0\<rparr>"
    then have "lease_inv db'"
      by (intro lease_inv_release [OF inv chg]) (use rin rest in \<open>auto simp: idle_run_def\<close>)
    moreover have "run_path RunQueued [RunCancelling, RunCancelled] RunCancelled"
      by (auto intro!: run_path.intros simp: CanTransitionRun_def)
    ultimately show ?thesis
      using q rest runs_follow_changed [OF chg] by (auto simp: tx_step_def run_identity_def)
  next
    assume q: "claimed_state (r_state r) \<and> deploy_queue_leases db' = deploy_queue_leases db \<and>
       r' = r\<lparr>r_state := RunCancelling, r_cancel_requested := True\<rparr>"
    then have "\<not> idle_run r" by (auto simp: idle_run_def claimed_state_def)
    then obtain l where "l \<in> set (deploy_queue_leases db)" "l_run_id l = r_id r"
      using inv rin(1) by (auto simp: lease_inv_def lease_matches_def)
    then show ?thesis
      by (rule held_update_step [OF inv _ _ chg])
         (use q rest run_path_1 [OF can] in \<open>auto simp: run_identity_def claimed_state_def\<close>)
  qed
qed

subsection \<open>Reclaiming an expired lease\<close>

lemma ReclaimExpiredLease_Ok:
  assumes inv: "lease_inv db" and ok: "ReclaimExpiredLease expired worker ttl now rnd db = Ok (q, db', evs)"
  obtains raw l r where
    "rnd = Some raw" "l \<in> set (deploy_queue_leases db)" "l_run_id l = lease_RunID expired"
    "l_claim_token l = lease_Token expired" "l_expires_at l < unix now"
    "lease_RunID q = lease_RunID expired" "lease_Token q = hex_encode raw"
    "\<forall>x \<in> set (deploy_queue_leases db). x \<noteq> l \<longrightarrow> l_claim_token x \<noteq> hex_encode raw"
    "row_changed l_run_id (deploy_queue_leases db) l
       (l\<lparr>l_claim_token := hex_encode raw, l_claimed_by := worker, l_heartbeat_at := unix now,
          l_expires_at := unix (now + lease_ttl ttl)\<rparr>) (deploy_queue_leases db')"
    "r_id r = lease_RunID expired"
    "row_changed r_id (deploy_runs db) r
       (r\<lparr>r_lease_token := hex_encode raw, r_heartbeat_at := unix now,
          r_lease_until := unix (now + lease_ttl ttl)\<rparr>) (deploy_runs db')"
    "next_run_id db' = next_run_id db" "deploy_log_chunks db' = deploy_log_chunks db" "evs = []"
proof -
  from ok obtain raw where raw: "rnd = Some raw"
    by (auto simp: ReclaimExpiredLease_def newClaimToken_def split: if_splits option.splits)
  let ?tok = "hex_encode raw"
  let ?p = "\<lambda>l. l_run_id l = lease_RunID expired \<and> l_claim_token l = lease_Token expired \<and> l_expires_at l < unix now"
  let ?q = "\<lambda>r. r_id r = lease_RunID expired \<and> r_lease_token r = lease_Token expired"
  let ?f = "\<lambda>l. l\<lparr>l_claim_token := ?tok, l_claimed_by := worker, l_heartbeat_at := unix now,
          l_expires_at := unix (now + lease_ttl ttl)\<rparr>"
  let ?g = "\<lambda>r. r\<lparr>r_lease_token := ?tok, r_heartbeat_at := unix now, r_lease_until := unix (now + lease_ttl ttl)\<rparr>"
  have np: "sql_count ?p (deploy_queue_leases db) = 1 \<longleftrightarrow> (\<exists>l \<in> set (deploy_queue_leases db). ?p l)"
    by (rule sql_count_eq_1 [OF lease_inv_distinct(2) [OF inv], of _ "lease_RunID expired"]) simp
  have nq: "sql_count ?q (deploy_runs db) = 1 \<longleftrightarrow> (\<exists>r \<in> set (deploy_runs db). ?q r)"
    by (rule sql_count_eq_1 [OF lease_inv_distinct(1) [OF inv], of _ "lease_RunID expired"]) simp
  from ok raw np nq obtain l r where l: "l \<in> set (deploy_queue_leases db)" "?p l"
    and r: "r \<in> set (deploy_runs db)" "?q r"
    and fresh: "\<not> (\<exists>l \<in> set (deploy_queue_leases db). \<not> ?p l \<and> l_claim_token l = ?tok \<and> sql_exists ?p (deploy_queue_leases db))"
    and db': "db' = db\<lparr>deploy_queue_leases := sql_update ?p ?f (deploy_queue_leases db),
      deploy_runs := sql_update ?q ?g (deploy_runs db)\<rparr>"
    and res: "lease_RunID q = lease_RunID expired" "lease_Token q = ?tok" "evs = []"
  proof -
    from ok raw have "\<not> (\<exists>l \<in> set (deploy_queue_leases db). \<not> ?p l \<and> l_claim_token l = ?tok \<and> sql_exists ?p (deploy_queue_leases db))"
      "sql_count ?p (deploy_queue_leases db) = 1" "sql_count ?q (deploy_runs db) = 1"
      "db' = db\<lparr>deploy_queue_leases := sql_update ?p ?f (deploy_queue_leases db),
        deploy_runs := sql_update ?q ?g (deploy_runs db)\<rparr>"
      "lease_RunID q = lease_RunID expired" "lease_Token q = ?tok" "evs = []"
      unfolding ReclaimExpiredLease_def newClaimToken_def Let_def
      by (simp_all only: option.case bindr_simps split: if_split_asm) (auto simp only: QueueLease.simps)
    then show thesis using that np nq by blast
  qed
  have "l_claim_token x \<noteq> ?tok" if "x \<in> set (deploy_queue_leases db)" "x \<noteq> l" for x
  proof -
    have "\<not> ?p x" using distinct_map_key [OF lease_inv_distinct(2) [OF inv] l(1) that(1)] that(2) l(2) by simp
    with fresh l that show ?thesis by auto
  qed
  moreover have "row_changed l_run_id (deploy_queue_leases db) l (?f l) (deploy_queue_leases db')"
    using sql_update_row_changed [of l_run_id "deploy_queue_leases db" l ?p ?f] lease_inv_distinct(2) [OF inv] l
    by (auto simp: db')
  moreover have "row_changed r_id (deploy_runs db) r (?g r) (deploy_runs db')"
    using sql_update_row_changed [of r_id "deploy_runs db" r ?q ?g] lease_inv_distinct(1) [OF inv] r
    by (auto simp: db')
  moreover have "next_run_id db' = next_run_id db" "deploy_log_chunks db' = deploy_log_chunks db"
    by (simp_all add: db')
  ultimately show thesis
    using that [OF raw l(1), of r] l(2) r(2) res by blast
qed

lemma ReclaimExpiredLease_step:
  assumes inv: "lease_inv db" and ok: "ReclaimExpiredLease expired worker ttl now rnd db = Ok (q, db', evs)"
    and rnd: "\<And>raw. rnd = Some raw \<Longrightarrow> raw \<noteq> []"
  shows "tx_step db evs db'"
proof -
  obtain raw l r where raw: "rnd = Some raw"
    and l: "l \<in> set (deploy_queue_leases db)" "l_run_id l = lease_RunID expired"
    and fresh: "\<forall>x \<in> set (deploy_queue_leases db). x \<noteq> l \<longrightarrow> l_claim_token x \<noteq> hex_encode raw"
    and lchg: "row_changed l_run_id (deploy_queue_leases db) l
       (l\<lparr>l_claim_token := hex_encode raw, l_claimed_by := worker, l_heartbeat_at := unix now,
          l_expires_at := unix (now + lease_ttl ttl)\<rparr>) (deploy_queue_leases db')"
    and r: "r_id r = lease_RunID expired"
    and chg: "row_changed r_id (deploy_runs db) r
       (r\<lparr>r_lease_token := hex_encode raw, r_heartbeat_at := unix now,
          r_lease_until := unix (now + lease_ttl ttl)\<rparr>) (deploy_runs db')"
    and rest: "next_run_id db' = next_run_id db" "deploy_log_chunks db' = deploy_log_chunks db" "evs = []"
    by (rule ReclaimExpiredLease_Ok [OF inv ok])
  have m: "lease_matches l r" using row_changed_in [OF chg] l r by (intro lease_inv_run [OF inv]) auto
  have "lease_inv db'"
    by (rule lease_inv_held [OF inv chg lchg])
       (use m l r fresh rest hex_encode_nonempty [OF rnd [OF raw]] in \<open>auto simp: lease_matches_def\<close>)
  moreover have "runs_follow db db'"
    by (rule runs_follow_changed [OF chg, of "[]"]) (auto simp: run_identity_def intro: run_path.intros)
  ultimately show ?thesis using rest by (simp add: tx_step_def)
qed

subsection \<open>Superseding\<close>

lemma supersede_one_step:
  assumes inv: "lease_inv db"
    and n: "sql_count (\<lambda>r. r_id r = k \<and> r_state r = RunQueued) (deploy_runs db) = 1"
    and app: "appendEventTx now k 0 EventRunState ''status'' [] data
      (db\<lparr>deploy_runs := sql_update (\<lambda>r. r_id r = k \<and> r_state r = RunQueued)
         (\<lambda>r. r\<lparr>r_state := RunSuperseded, r_status := legacyStatus RunSuperseded, r_ended_at := unix now,
                r_superseded_by := newRunID, r_terminal_code := ''superseded'',
                r_terminal_reason := ''Replaced by a newer queued run''\<rparr>) (deploy_runs db)\<rparr>) = Ok (ev, db')"
  shows "tx_step db [ev] db' \<and> deploy_queue_leases db' = deploy_queue_leases db \<and>
    deploy_environments db' = deploy_environments db \<and> next_run_id db' = next_run_id db"
proof -
  let ?p = "\<lambda>r. r_id r = k \<and> r_state r = RunQueued"
  let ?f = "\<lambda>r. r\<lparr>r_state := RunSuperseded, r_status := legacyStatus RunSuperseded, r_ended_at := unix now,
                r_superseded_by := newRunID, r_terminal_code := ''superseded'',
                r_terminal_reason := ''Replaced by a newer queued run''\<rparr>"
  have "sql_count ?p (deploy_runs db) = 1 \<longleftrightarrow> (\<exists>r \<in> set (deploy_runs db). ?p r)"
    by (rule sql_count_eq_1 [OF lease_inv_distinct(1) [OF inv], of _ k]) simp
  with n obtain r where r: "r \<in> set (deploy_runs db)" "?p r" by auto
  note ap = appendEventTx_Ok [OF app, THEN conjunct1]
  note fr = appended_frame [OF ap]
  have chg: "row_changed r_id (deploy_runs db) r (?f r) (deploy_runs db')"
    using sql_update_row_changed [of r_id "deploy_runs db" r ?p ?f] lease_inv_distinct(1) [OF inv] r fr by auto
  have idle: "idle_run r" using idle_queued [OF inv r(1)] r(2) by simp
  have "lease_inv db'"
    by (rule lease_inv_idle [OF inv chg idle]) (use idle fr in \<open>auto simp: idle_run_def\<close>)
  moreover have "run_path RunQueued [RunSuperseded] RunSuperseded"
    by (rule run_path_1) (simp add: CanTransitionRun_def)
  then have "runs_follow db db'"
    by (intro runs_follow_changed [OF chg]) (use r(2) in \<open>auto simp: run_identity_def\<close>)
  moreover have "logged (deploy_log_chunks db) [ev] (deploy_log_chunks db')"
    using appended_logged [OF ap] by simp
  ultimately show ?thesis using fr by (simp add: tx_step_def)
qed

lemma supersede_each_step:
  "supersede_each req newRunID kind now cs db events = Ok (db', events') \<Longrightarrow> lease_inv db \<Longrightarrow>
   \<exists>new. events' = events @ new \<and> tx_step db new db' \<and> deploy_queue_leases db' = deploy_queue_leases db \<and>
     deploy_environments db' = deploy_environments db \<and> next_run_id db' = next_run_id db"
proof (induction req newRunID kind now cs db events rule: supersede_each.induct)
  case (1 req newRunID kind now db events)
  then show ?case by (auto intro: tx_step_refl)
next
  case (2 req newRunID kind now c cs db events)
  let ?p = "\<lambda>r. r_id r = r_id c \<and> r_state r = RunQueued"
  show ?case
  proof (cases "supersedable req kind c \<and> sql_count ?p (deploy_runs db) = 1")
    case False
    then show ?thesis using 2 by (auto simp: Let_def split: if_splits)
  next
    case True
    from 2(4) True obtain ev db2 where
      app: "appendEventTx now (r_id c) 0 EventRunState ''status'' []
        (mustJSON [(''state'', run_state_json RunSuperseded), (''supersededBy'', GInt newRunID)])
        (db\<lparr>deploy_runs := sql_update ?p (\<lambda>r. r\<lparr>r_state := RunSuperseded,
           r_status := legacyStatus RunSuperseded, r_ended_at := unix now, r_superseded_by := newRunID,
           r_terminal_code := ''superseded'', r_terminal_reason := ''Replaced by a newer queued run''\<rparr>)
           (deploy_runs db)\<rparr>) = Ok (ev, db2)"
      and rec: "supersede_each req newRunID kind now cs db2 (events @ [ev]) = Ok (db', events')"
      by (auto simp: Let_def bindr_eq_Ok)
    have one: "tx_step db [ev] db2 \<and> deploy_queue_leases db2 = deploy_queue_leases db \<and>
      deploy_environments db2 = deploy_environments db \<and> next_run_id db2 = next_run_id db"
      using supersede_one_step [OF 2(5) _ app] True by blast
    then have "lease_inv db2" by (simp add: tx_step_def)
    with 2(3) [OF _ refl _ refl rec] True
    obtain new where "events' = (events @ [ev]) @ new" "tx_step db2 new db'"
      "deploy_queue_leases db' = deploy_queue_leases db2"
      "deploy_environments db' = deploy_environments db2" "next_run_id db' = next_run_id db2"
      by auto
    then show ?thesis
      using one tx_step_trans [of db "[ev]" db2 new db'] by (intro exI [of _ "ev # new"]) simp
  qed
qed

subsection \<open>Fencing\<close>

text \<open>
  The contract of an operation that only the holder of a live lease may perform: it succeeds only
  when the lease table has the run with that very token, not expired. What follows for every such
  operation: a worker whose lease was taken over, or whose run ended, is refused and changes
  nothing, and two tokens never both succeed on one run.
\<close>

definition holds_lease :: "db \<Rightarrow> int \<Rightarrow> string \<Rightarrow> go_time \<Rightarrow> bool" where
  "holds_lease db runID claimToken now \<longleftrightarrow>
     (\<exists>l \<in> set (deploy_queue_leases db). l_run_id l = runID \<and> l_claim_token l = claimToken \<and>
        unix now \<le> l_expires_at l)"

lemma assertLeaseTx_holds: "assertLeaseTx runID tok now db = Ok u \<Longrightarrow> holds_lease db runID tok now"
  by (erule assertLeaseTx_Ok) (auto simp: holds_lease_def)

lemma holds_lease_one:
  assumes "lease_inv db" and "holds_lease db runID tok now" and "holds_lease db runID tok' now'"
  shows "tok = tok'"
proof -
  from assms(2,3) obtain l l' where "l \<in> set (deploy_queue_leases db)" "l_run_id l = runID" "l_claim_token l = tok"
    "l' \<in> set (deploy_queue_leases db)" "l_run_id l' = runID" "l_claim_token l' = tok'"
    by (auto simp: holds_lease_def)
  with distinct_map_key [OF lease_inv_distinct(2) [OF assms(1)]] show ?thesis by metis
qed

lemma holds_lease_claimed:
  assumes "lease_inv db" and "holds_lease db runID tok now"
  obtains r where "run_by_id db runID = Some r" "claimed_state (r_state r)" "r_lease_token r = tok"
  using assms lease_inv_lease [OF assms(1)] that by (fastforce simp: holds_lease_def lease_matches_def)

lemma reclaim_fences:
  assumes inv: "lease_inv db" and ok: "ReclaimExpiredLease expired worker ttl now rnd db = Ok (q, db', evs)"
    and rnd: "\<And>raw. rnd = Some raw \<Longrightarrow> raw \<noteq> [] \<and> hex_encode raw \<noteq> lease_Token expired"
  shows "\<not> holds_lease db' (lease_RunID expired) (lease_Token expired) now'"
proof
  assume old: "holds_lease db' (lease_RunID expired) (lease_Token expired) now'"
  obtain raw l where raw: "rnd = Some raw" and l: "l_run_id l = lease_RunID expired"
    and chg: "row_changed l_run_id (deploy_queue_leases db) l
       (l\<lparr>l_claim_token := hex_encode raw, l_claimed_by := worker, l_heartbeat_at := unix now,
          l_expires_at := unix (now + lease_ttl ttl)\<rparr>) (deploy_queue_leases db')"
    by (rule ReclaimExpiredLease_Ok [OF inv ok]) blast
  have "lease_inv db'" using ReclaimExpiredLease_step [OF inv ok] rnd by (simp add: tx_step_def)
  moreover have "holds_lease db' (lease_RunID expired) (hex_encode raw) (now + lease_ttl ttl)"
    using row_changed_in [OF chg] l unfolding holds_lease_def
    by (intro bexI [of _ "l\<lparr>l_claim_token := hex_encode raw, l_claimed_by := worker,
      l_heartbeat_at := unix now, l_expires_at := unix (now + lease_ttl ttl)\<rparr>"]) simp_all
  ultimately have "hex_encode raw = lease_Token expired" using old by (rule holds_lease_one)
  with rnd raw show False by blast
qed

locale fenced_operation =
  fixes op :: "int \<Rightarrow> string \<Rightarrow> go_time \<Rightarrow> db \<Rightarrow> 'a tx"
  assumes needs_lease: "op runID tok now db = Ok x \<Longrightarrow> holds_lease db runID tok now"
begin

lemma refused: "\<not> holds_lease db runID tok now \<Longrightarrow> \<exists>e. op runID tok now db = Err e"
  using needs_lease [of runID tok now db] by (cases "op runID tok now db") auto

lemma refused_unchanged:
  "\<not> holds_lease (o_db s) runID tok now \<Longrightarrow> \<exists>e. commit (op runID tok now (o_db s)) s = (Err e, s)"
  using refused [of "o_db s" runID tok now] by auto

lemma one_holder:
  "lease_inv db \<Longrightarrow> op runID tok now db = Ok x \<Longrightarrow> op runID tok' now' db = Ok y \<Longrightarrow> tok = tok'"
  by (blast intro: holds_lease_one needs_lease)

lemma ended_refused:
  assumes "lease_inv db" and "run_by_id db runID = Some r" and "\<not> claimed_state (r_state r)"
  shows "\<exists>e. op runID tok now db = Err e"
proof (rule refused, rule notI)
  assume "holds_lease db runID tok now"
  with assms show False by (elim holds_lease_claimed [OF assms(1)]) simp
qed

lemma fenced_after_reclaim:
  assumes "lease_inv db" and "ReclaimExpiredLease expired worker ttl now rnd db = Ok (q, db', evs)"
    and "\<And>raw. rnd = Some raw \<Longrightarrow> raw \<noteq> [] \<and> hex_encode raw \<noteq> lease_Token expired"
  shows "\<exists>e. op (lease_RunID expired) (lease_Token expired) now' db' = Err e"
  by (rule refused, rule reclaim_fences [OF assms])

end

interpretation commits: fenced_operation "\<lambda>runID tok. SetRunCommits runID tok fc tc" for fc tc
  by unfold_locales (auto simp: SetRunCommits_def bindr_eq_Ok intro: assertLeaseTx_holds)

interpretation transition: fenced_operation "\<lambda>runID tok. transitionRunTx runID tok to detail" for to detail
  by unfold_locales (auto simp: transitionRunTx_def bindr_eq_Ok intro: assertLeaseTx_holds)

interpretation heartbeat: fenced_operation "\<lambda>runID tok. Heartbeat runID tok ttl" for ttl
proof unfold_locales
  fix runID tok now db x
  assume "Heartbeat runID tok ttl now db = Ok x"
  then have "sql_count (\<lambda>l. l_run_id l = runID \<and> l_claim_token l = tok \<and> unix now \<le> l_expires_at l)
      (deploy_queue_leases db) \<noteq> 0"
    by (auto simp: Heartbeat_def Let_def simp del: sql_count_0 split: if_splits)
  then show "holds_lease db runID tok now" by (auto simp: holds_lease_def)
qed

subsection \<open>Slots\<close>

text \<open>A claim never opens more leases of a class than the budget allows.\<close>

lemma claim_slot_bound:
  assumes inv: "distinct (map r_id (deploy_runs db))"
    and ok: "claimNextOnce worker budget ttl now rnd db = Ok (Some q, db', evs)"
  shows "int (slot_count SlotHeavy db') \<le> max (int (slot_count SlotHeavy db)) (Heavy (budget_normalized budget)) \<and>
         int (slot_count SlotLight db') \<le> max (int (slot_count SlotLight db)) (Light (budget_normalized budget))"
proof -
  obtain raw r l r' where sel:
    "sql_first_by claim_order (claimable (open_classes (budget_normalized budget) db) db) (deploy_runs db) = Some r"
    and cl: "claims worker ttl now (hex_encode raw) r l r'"
    and leases: "deploy_queue_leases db' = deploy_queue_leases db @ [l]"
    by (rule claimNextOnce_Some [OF inv ok]) blast
  from sel have "l_slot_class l \<in> set (open_classes (budget_normalized budget) db)"
    using cl by (auto dest!: sql_first_by_Some simp: claimable_def claims_def)
  then show ?thesis by (auto simp: slot_count_def leases open_classes_def split: if_splits)
qed

lemma claim_attempts_Ok:
  "claim_attempts k n worker budget ttl clock rand e db = Ok x \<Longrightarrow>
   \<exists>i. claimNextOnce worker budget ttl (clock i) (rand i) db = Ok x"
  by (induction k arbitrary: n e) (auto split: sum.splits if_splits)

end
