(* ===== verification/Deploy_Enqueue.thy ===== *)
theory Deploy_Enqueue
  imports Deploy_Leases
begin

text \<open>
  Requesting a run (orchestration_store.go): the normalisation of the request, its idempotent
  replay, the immutable snapshots of variables and plan inputs, the insertion of the run with its
  steps and its first three events in one transaction, and the retry of a finished run.
  The lemmas show that a new run is visible only as queued, with its steps pending in the order
  asked for; that the same key and digest return the same run and a different digest conflicts;
  and that superseding never touches a run that was started by hand, rolls back, removes a
  deployment or has a lease.
\<close>

subsection \<open>Digests\<close>

definition digestBytes :: "externals \<Rightarrow> string list \<Rightarrow> string" where
  "digestBytes x parts =
     ''sha256:'' @ hex_encode (x_sha256 x (concat (map (\<lambda>part. part @ [byte 0]) parts)))"

text \<open>The expression \<open>^[a-z0-9][a-z0-9+._-]{0,31}:[0-9a-f]{32,128}$\<close>; no class has a colon.\<close>

definition lower_or_digit :: "char \<Rightarrow> bool" where
  "lower_or_digit c = (CHR ''a'' \<le> c \<and> c \<le> CHR ''z'' \<or> is_digit c)"

definition lower_hex :: "char \<Rightarrow> bool" where
  "lower_hex c = (CHR ''a'' \<le> c \<and> c \<le> CHR ''f'' \<or> is_digit c)"

definition contentDigestRE :: "string \<Rightarrow> bool" where
  "contentDigestRE s =
     (let name = takeWhile (\<lambda>c. c \<noteq> CHR '':'') s;
          rest = dropWhile (\<lambda>c. c \<noteq> CHR '':'') s in
      name \<noteq> [] \<and> lower_or_digit (hd name) \<and> length name \<le> 32 \<and>
      list_all (\<lambda>c. lower_or_digit c \<or> c \<in> {CHR ''+'', CHR ''.'', CHR ''_'', CHR ''-''}) (tl name) \<and>
      rest \<noteq> [] \<and> 32 \<le> length (tl rest) \<and> length (tl rest) \<le> 128 \<and> list_all lower_hex (tl rest))"

record ReleaseVariableSnapshot =
  var_Name :: string
  var_Sensitivity :: string
  var_Scopes :: string
  var_ValueDigest :: string

text \<open>\<open>json.Marshal\<close> prints a struct's fields in the order of their declaration.\<close>

definition marshal_struct :: "(string \<times> string) list \<Rightarrow> string" where
  "marshal_struct kvs = ''{'' @ join '','' (map (\<lambda>(k, v). marshal_string k @ '':'' @ v) kvs) @ ''}''"

definition marshal_list :: "string list \<Rightarrow> string" where
  "marshal_list items = ''['' @ join '','' items @ '']''"

definition marshal_variable :: "ReleaseVariableSnapshot \<Rightarrow> string" where
  "marshal_variable v =
     marshal_struct [(''name'', marshal_string (var_Name v)),
                     (''sensitivity'', marshal_string (var_Sensitivity v)),
                     (''scopes'', marshal_string (var_Scopes v)),
                     (''valueDigest'', marshal_string (var_ValueDigest v))]"

definition digestReleaseVariables :: "externals \<Rightarrow> ReleaseVariableSnapshot list \<Rightarrow> string" where
  "digestReleaseVariables x variables =
     digestBytes x [marshal_list (map marshal_variable (sort_key var_Name variables))]"

subsection \<open>Snapshots\<close>

record runVariableRevisionRef =
  ref_id :: int
  ref_snapshot :: ReleaseVariableSnapshot

definition scan_ref :: "var_row \<Rightarrow> runVariableRevisionRef" where
  "scan_ref v =
     \<lparr> ref_id = v_id v,
       ref_snapshot = \<lparr> var_Name = v_key v, var_Sensitivity = v_sensitivity v,
                        var_Scopes = v_scopes v, var_ValueDigest = v_value_digest v \<rparr> \<rparr>"

definition variable_query :: "int \<Rightarrow> int \<Rightarrow> db \<Rightarrow> runVariableRevisionRef list" where
  "variable_query environmentID copyFromRunID db =
     map scan_ref
       (if copyFromRunID = 0
        then sort_key (\<lambda>v. (v_key v, v_id v))
               (filter (\<lambda>v. v_environment_id v = environmentID \<and> v_active v) (deploy_variable_revisions db))
        else concat (map (\<lambda>rv. filter (\<lambda>v. v_id v = rv_variable_revision_id rv \<and> v_environment_id v = environmentID)
                                  (deploy_variable_revisions db))
               (sort_key rv_ordinal
                  (filter (\<lambda>rv. rv_run_id rv = copyFromRunID) (deploy_run_variable_revisions db)))))"

text \<open>The loop over the rows: every value has a digest and no two neighbours share a name.\<close>

fun collect_refs ::
  "runVariableRevisionRef list \<Rightarrow> runVariableRevisionRef list \<Rightarrow> deploy_error + runVariableRevisionRef list" where
  "collect_refs [] refs = Ok refs"
| "collect_refs (ref # rows) refs =
     (if \<not> contentDigestRE (var_ValueDigest (ref_snapshot ref))
      then Err (ErrInvalidPlan (''variable '' @ var_Name (ref_snapshot ref) @ '' has no immutable value digest''))
      else if refs \<noteq> [] \<and> var_Name (ref_snapshot (last refs)) = var_Name (ref_snapshot ref)
      then Err (ErrInvalidPlan (''variable '' @ var_Name (ref_snapshot ref) @ '' has multiple active revisions''))
      else collect_refs rows (refs @ [ref]))"

definition retry_variable_source :: "int \<Rightarrow> int \<Rightarrow> db \<Rightarrow> deploy_error + string" where
  "retry_variable_source environmentID copyFromRunID db =
     (if copyFromRunID = 0 then Ok []
      else case find (\<lambda>v. vs_run_id v = copyFromRunID) (deploy_run_variable_snapshots db) of
        None \<Rightarrow> Err (ErrInvalidPlan ''retry source has no variable snapshot'')
      | Some v \<Rightarrow>
          if vs_environment_id v \<noteq> environmentID
          then Err (ErrInvalidPlan ''retry variable snapshot belongs to another environment'')
          else Ok (vs_digest v))"

definition snapshotRunVariablesTx ::
  "externals \<Rightarrow> int \<Rightarrow> int \<Rightarrow> int \<Rightarrow> go_time \<Rightarrow> db \<Rightarrow> deploy_error + db" where
  "snapshotRunVariablesTx x runID environmentID copyFromRunID now db =
     bindr (retry_variable_source environmentID copyFromRunID db) (\<lambda>expectedDigest.
     bindr (collect_refs (variable_query environmentID copyFromRunID db) []) (\<lambda>refs.
     let digest = digestReleaseVariables x (map ref_snapshot refs) in
     if expectedDigest \<noteq> [] \<and> expectedDigest \<noteq> digest
     then Err (ErrInvalidPlan ''retry variable snapshot digest does not match its revisions'')
     else Ok (db\<lparr>
       deploy_run_variable_snapshots := deploy_run_variable_snapshots db @
         [\<lparr> vs_run_id = runID, vs_environment_id = environmentID, vs_digest = digest,
            vs_copied_from_run_id = copyFromRunID, vs_created_at = unix now \<rparr>],
       deploy_run_variable_revisions := deploy_run_variable_revisions db @
         map (\<lambda>(i, ref). \<lparr> rv_run_id = runID, rv_variable_revision_id = ref_id ref, rv_ordinal = int i + 1 \<rparr>)
           (enumerate 0 refs)\<rparr>)))"

definition all_or_none :: "'a option list \<Rightarrow> 'a list option" where
  "all_or_none xs = (if None \<in> set xs then None else Some (map the xs))"

text \<open>\<open>json.Marshal\<close> of \<open>[]json.RawMessage\<close>: each document is compacted; a malformed one is an error.\<close>

definition marshal_raws :: "string list \<Rightarrow> deploy_error + string" where
  "marshal_raws raws =
     (if list_all (\<lambda>r. r = [] \<or> json_valid r) raws
      then Ok (marshal_list (map (\<lambda>r. marshal (GRaw r)) raws))
      else Err (ErrMessage ''json: error calling MarshalJSON for type json.RawMessage''))"

definition query_raws :: "string option list \<Rightarrow> deploy_error + string list" where
  "query_raws rows = (case all_or_none rows of None \<Rightarrow> Err (ErrMessage ''malformed JSON'') | Some rs \<Rightarrow> Ok rs)"

definition plan_inputs :: "externals \<Rightarrow> int \<Rightarrow> int \<Rightarrow> db \<Rightarrow> deploy_error + string \<times> string \<times> string" where
  "plan_inputs x environmentID copyFromRunID db =
     (if copyFromRunID \<noteq> 0 then
        case find (\<lambda>p. ps_run_id p = copyFromRunID) (deploy_run_plan_snapshots db) of
          None \<Rightarrow> Err (ErrInvalidPlan ''retry source has no dependency/check snapshot'')
        | Some p \<Rightarrow>
            if ps_environment_id p \<noteq> environmentID
            then Err (ErrInvalidPlan ''retry plan snapshot belongs to another environment'')
            else Ok (ps_dependencies_json p, ps_checks_json p, ps_digest p)
      else
        bindr (query_raws (map (x_dep_json x)
          (sort_key (\<lambda>d. (d_kind d, d_resource_kind d, d_resource_id d))
            (filter (\<lambda>d. d_environment_id d = environmentID \<and> d_release_id d = 0) (deploy_dependencies db)))))
          (\<lambda>dependencies.
        bindr (query_raws (map (x_check_json x)
          (sort_key (\<lambda>c. (k_ordinal c, k_name c))
            (filter (\<lambda>c. k_environment_id c = environmentID) (deploy_checks db)))))
          (\<lambda>checks.
        bindr (marshal_raws dependencies) (\<lambda>dependenciesJSON.
        bindr (marshal_raws checks) (\<lambda>checksJSON. Ok (dependenciesJSON, checksJSON, []))))))"

definition snapshotRunPlanInputsTx ::
  "externals \<Rightarrow> int \<Rightarrow> int \<Rightarrow> int \<Rightarrow> go_time \<Rightarrow> db \<Rightarrow> deploy_error + db" where
  "snapshotRunPlanInputsTx x runID environmentID copyFromRunID now db =
     bindr (plan_inputs x environmentID copyFromRunID db)
       (\<lambda>(dependenciesJSON, checksJSON, expectedDigest).
     if \<not> json_valid dependenciesJSON \<or> \<not> json_valid checksJSON
     then Err (ErrInvalidPlan ''dependency/check snapshot is malformed'')
     else
       let digest = digestBytes x [dependenciesJSON, checksJSON] in
       if expectedDigest \<noteq> [] \<and> expectedDigest \<noteq> digest
       then Err (ErrInvalidPlan ''retry dependency/check snapshot digest is inconsistent'')
       else Ok (db\<lparr>deploy_run_plan_snapshots := deploy_run_plan_snapshots db @
         [\<lparr> ps_run_id = runID, ps_environment_id = environmentID,
            ps_dependencies_json = dependenciesJSON, ps_checks_json = checksJSON, ps_digest = digest,
            ps_copied_from_run_id = copyFromRunID, ps_created_at = unix now \<rparr>]\<rparr>))"

subsection \<open>The request\<close>

fun steps_distinct_valid :: "StepKey list \<Rightarrow> StepKey list \<Rightarrow> bool" where
  "steps_distinct_valid seen [] = True"
| "steps_distinct_valid seen (key # keys) =
     (if \<not> validStepKey key \<or> key \<in> set seen then False else steps_distinct_valid (key # seen) keys)"

definition normalizeRunRequest :: "RunRequest \<Rightarrow> deploy_error + RunRequest" where
  "normalizeRunRequest req =
     (if req_ProjectID req \<le> 0 \<or> req_EnvironmentID req \<le> 0
      then Err (ErrMessage ''invalid deployment or environment id'')
      else if \<not> validOperation (req_Operation req) then Err (ErrMessage ''invalid deployment operation'')
      else if \<not> validTrigger (req_Trigger req) then Err (ErrMessage ''invalid deployment trigger'')
      else if req_RequestDigest req = [] then Err (ErrMessage ''request digest is required'')
      else if 256 < length (req_IdempotencyKey req) \<or> 256 < length (req_RequestDigest req)
      then Err (ErrMessage ''idempotency key or request digest is too long'')
      else if req_PlanRevision req \<le> 0 then Err (ErrMessage ''plan revision must be positive'')
      else
        let req = (if req_Priority req = 0 then req\<lparr>req_Priority := defaultPriority\<rparr> else req);
            req = (if req_SlotClass req = SlotOther [] then req\<lparr>req_SlotClass := SlotLight\<rparr> else req) in
        if \<not> slot_valid (req_SlotClass req) then Err (ErrMessage ''invalid deployment slot class'')
        else
          let req = (if req_Metadata req = [] then req\<lparr>req_Metadata := ''{}''\<rparr> else req) in
          if \<not> json_valid (req_Metadata req) \<or> maxEventBytes < length (req_Metadata req)
          then Err (ErrMessage ''invalid or oversized deployment metadata'')
          else
            let req = (if req_Steps req = [] then req\<lparr>req_Steps := DefaultStepKeys\<rparr> else req) in
            if \<not> steps_distinct_valid [] (req_Steps req)
            then Err (ErrMessage ''invalid or duplicate deployment step'')
            else Ok req)"

definition same_request :: "RunRequest \<Rightarrow> run_row \<Rightarrow> bool" where
  "same_request req r =
     (r_project_id r = req_ProjectID req \<and> r_environment_id r = req_EnvironmentID req \<and>
      r_operation r = req_Operation req \<and> r_idempotency_key r = req_IdempotencyKey req)"

definition idempotentRun :: "db \<Rightarrow> RunRequest \<Rightarrow> deploy_error + EngineRun option" where
  "idempotentRun db req =
     (case find (same_request req) (deploy_runs db) of
        None \<Rightarrow> Ok None
      | Some r \<Rightarrow> if r_request_digest r \<noteq> req_RequestDigest req then Err ErrIdempotencyConflict
                 else Ok (Some (scanEngineRun r)))"

definition setRunStateTx :: "int \<Rightarrow> RunState \<Rightarrow> go_time \<Rightarrow> db \<Rightarrow> db" where
  "setRunStateTx runID state now db =
     (let queuedAt = (if state = RunQueued then unix now else 0) in
      db\<lparr>deploy_runs := sql_update (\<lambda>r. r_id r = runID)
           (\<lambda>r. r\<lparr>r_state := state, r_queued_at := (if queuedAt \<noteq> 0 then queuedAt else r_queued_at r)\<rparr>)
           (deploy_runs db)\<rparr>)"

text \<open>The row of a new run: the columns of the statement, and the schema's defaults for the rest.\<close>

definition new_run_row :: "int \<Rightarrow> RunRequest \<Rightarrow> go_time \<Rightarrow> run_row" where
  "new_run_row runID req now =
     \<lparr> r_id = runID, r_project_id = req_ProjectID req, r_environment_id = req_EnvironmentID req,
       r_started_at = unix now, r_ended_at = 0, r_status = ''running'', r_state = RunRequested,
       r_operation = req_Operation req, r_trigger = req_Trigger req, r_actor = req_Actor req,
       r_from_commit = [], r_to_commit = [], r_log = [], r_requested_at = unix now,
       r_queued_at = 0, r_claimed_at = 0, r_heartbeat_at = 0, r_cancel_requested = False,
       r_superseded_by = 0, r_retry_of_run_id = req_RetryOfRunID req,
       r_idempotency_key = req_IdempotencyKey req, r_request_digest = req_RequestDigest req,
       r_plan_revision = req_PlanRevision req, r_release_id = 0, r_candidate_release_id = 0,
       r_terminal_code = [], r_terminal_reason = [], r_lease_token = [], r_lease_until = 0,
       r_priority = req_Priority req, r_slot_class = req_SlotClass req,
       r_metadata_json = req_Metadata req \<rparr>"

definition insert_run :: "RunRequest \<Rightarrow> go_time \<Rightarrow> db \<Rightarrow> deploy_error + int \<times> db" where
  "insert_run req now db =
     (if req_IdempotencyKey req \<noteq> [] \<and> (\<exists>r \<in> set (deploy_runs db). same_request req r)
      then Err (ErrUniqueConstraint ''deploy_runs.project_id'')
      else let runID = next_run_id db in
        Ok (runID, db\<lparr>deploy_runs := deploy_runs db @ [new_run_row runID req now],
                      next_run_id := runID + 1\<rparr>))"

definition new_step_row :: "int \<Rightarrow> int \<Rightarrow> nat \<Rightarrow> StepKey \<Rightarrow> step_row" where
  "new_step_row stepID runID ordinal key =
     \<lparr> s_id = stepID, s_run_id = runID, s_step_key = key, s_ordinal = int ordinal + 1,
       s_status = StepPending, s_attempt = 1, s_timeout_seconds = 0, s_started_at = 0, s_ended_at = 0,
       s_evidence_json = ''{}'', s_error_code = [], s_error_message = [],
       s_cleanup_json = ''{}'', s_last_seq = 0 \<rparr>"

fun insert_steps :: "int \<Rightarrow> nat \<Rightarrow> StepKey list \<Rightarrow> db \<Rightarrow> db" where
  "insert_steps runID ordinal [] db = db"
| "insert_steps runID ordinal (key # keys) db =
     insert_steps runID (Suc ordinal) keys
       (db\<lparr>deploy_steps := deploy_steps db @ [new_step_row (next_step_id db) runID ordinal key],
          next_step_id := next_step_id db + 1\<rparr>)"

fun first_states :: "int \<Rightarrow> go_time \<Rightarrow> RunState list \<Rightarrow> db \<Rightarrow> RunEvent list \<Rightarrow> deploy_error + db \<times> RunEvent list" where
  "first_states runID now [] db events = Ok (db, events)"
| "first_states runID now (state # states) db events =
     (let db1 = (if state \<noteq> RunRequested then setRunStateTx runID state now db else db) in
      bindr (appendEventTx now runID 0 EventRunState ''status'' []
               (mustJSON [(''state'', run_state_json state)]) db1)
        (\<lambda>(event, db2). first_states runID now states db2 (events @ [event])))"

definition enqueueTx :: "externals \<Rightarrow> RunRequest \<Rightarrow> go_time \<Rightarrow> db \<Rightarrow> EngineRun tx" where
  "enqueueTx x req now db =
     (case find (\<lambda>e. e_id e = req_EnvironmentID req \<and> e_project_id e = req_ProjectID req \<and> e_archived_at e = 0)
             (deploy_environments db) of
        None \<Rightarrow> Err ErrEnvironmentNotFound
      | Some env \<Rightarrow>
          bindr (insert_run req now db) (\<lambda>(runID, db1).
          bindr (snapshotRunVariablesTx x runID (req_EnvironmentID req) (req_VariableSnapshotRunID req) now db1) (\<lambda>db2.
          bindr (snapshotRunPlanInputsTx x runID (req_EnvironmentID req) (req_VariableSnapshotRunID req) now db2) (\<lambda>db3.
          let db4 = insert_steps runID 0 (req_Steps req) db3 in
          bindr (first_states runID now [RunRequested, RunValidating, RunQueued] db4 []) (\<lambda>(db5, events).
          bindr (supersedeEligibleTx req runID (e_kind env) now db5 events) (\<lambda>(db6, events).
          case run_by_id db6 runID of
            None \<Rightarrow> Err ErrRunNotFound
          | Some row \<Rightarrow> Ok (scanEngineRun row, db6, events)))))))"

text \<open>
  The insertion of the run is the only statement of the transaction that can violate a unique
  index, because every later row carries the new run's identifier; a violation is answered with
  the run that holds the key.
\<close>

definition Enqueue ::
  "externals \<Rightarrow> RunRequest \<Rightarrow> go_time \<Rightarrow> ostore \<Rightarrow> (deploy_error + EngineRun option \<times> bool) \<times> ostore" where
  "Enqueue x req0 now s =
     (case normalizeRunRequest req0 of
        Inl e \<Rightarrow> (Err e, s)
      | Inr req \<Rightarrow>
          let replay = (if req_IdempotencyKey req \<noteq> [] then idempotentRun (o_db s) req else Ok None) in
          case replay of
            Inl e \<Rightarrow> (Err e, s)
          | Inr (Some run) \<Rightarrow> (Ok (Some run, False), s)
          | Inr None \<Rightarrow>
              (case commit (enqueueTx x req now (o_db s)) s of
                 (Inr run, s') \<Rightarrow> (Ok (Some run, True), s')
               | (Inl e, s') \<Rightarrow>
                   if req_IdempotencyKey req \<noteq> [] \<and> isUniqueConstraint e
                   then (bindr (idempotentRun (o_db s') req) (\<lambda>run. Ok (run, False)), s')
                   else (Err e, s')))"

subsection \<open>Retry\<close>

fun ordered_keys_from :: "StepKey list \<Rightarrow> RunStep list \<Rightarrow> StepKey list" where
  "ordered_keys_from seen [] = []"
| "ordered_keys_from seen (step # steps) =
     (if step_Key step \<in> set seen then ordered_keys_from seen steps
      else step_Key step # ordered_keys_from (step_Key step # seen) steps)"

definition orderedKeys :: "RunStep list \<Rightarrow> StepKey list" where
  "orderedKeys steps = ordered_keys_from [] steps"

definition retry_request :: "EngineRun \<Rightarrow> RunStep list \<Rightarrow> string \<Rightarrow> string \<Rightarrow> RunRequest" where
  "retry_request prior steps actor idempotencyKey =
     \<lparr> req_ProjectID = ProjectID prior, req_EnvironmentID = EnvironmentID prior,
       req_Operation = run_Operation prior, req_Trigger = TriggerManual, req_Actor = actor,
       req_IdempotencyKey = idempotencyKey,
       req_RequestDigest = RequestDigest prior @ '':retry:'' @ int_dec (ID prior),
       req_PlanRevision = PlanRevision prior, req_RetryOfRunID = ID prior,
       req_VariableSnapshotRunID = ID prior, req_Priority = Priority prior,
       req_SlotClass = run_SlotClass prior, req_Metadata = Metadata prior,
       req_Steps = orderedKeys steps \<rparr>"

definition Retry ::
  "externals \<Rightarrow> int \<Rightarrow> string \<Rightarrow> string \<Rightarrow> go_time \<Rightarrow> ostore
     \<Rightarrow> (deploy_error + EngineRun option \<times> bool) \<times> ostore" where
  "Retry x runID actor idempotencyKey now s =
     (case Run (o_db s) runID of
        Inl e \<Rightarrow> (Err e, s)
      | Inr prior \<Rightarrow>
          if State prior \<noteq> RunFailed \<and> State prior \<noteq> RunCancelled then (Err ErrRunNotRetryable, s)
          else Enqueue x (retry_request prior (Steps (o_db s) runID) actor idempotencyKey) now s)"

subsection \<open>What superseding leaves alone\<close>

lemma run_by_id_update_other:
  "\<forall>r. r_id (f r) = r_id r \<Longrightarrow> (\<And>r. p r \<Longrightarrow> r_id r \<noteq> k) \<Longrightarrow>
   run_by_id (db\<lparr>deploy_runs := sql_update p f (deploy_runs db)\<rparr>) k = run_by_id db k"
  by (auto simp: run_by_id_def intro!: find_sql_update_other)

lemma supersede_each_untouched:
  "supersede_each req newRunID kind now cs db events = Ok (db', events') \<Longrightarrow>
   \<forall>c \<in> set cs. r_id c = k \<longrightarrow> \<not> supersedable req kind c \<Longrightarrow> run_by_id db' k = run_by_id db k"
proof (induction req newRunID kind now cs db events rule: supersede_each.induct)
  case (2 req newRunID kind now c cs db events)
  let ?p = "\<lambda>r. r_id r = r_id c \<and> r_state r = RunQueued"
  show ?case
  proof (cases "supersedable req kind c \<and> sql_count ?p (deploy_runs db) = 1")
    case False
    then show ?thesis using 2 by (auto simp: Let_def split: if_splits)
  next
    case True
    let ?db1 = "db\<lparr>deploy_runs := sql_update ?p (\<lambda>r. r\<lparr>r_state := RunSuperseded,
           r_status := legacyStatus RunSuperseded, r_ended_at := unix now, r_superseded_by := newRunID,
           r_terminal_code := ''superseded'', r_terminal_reason := ''Replaced by a newer queued run''\<rparr>)
           (deploy_runs db)\<rparr>"
    from 2(4) True obtain ev db2 where
      app: "appendEventTx now (r_id c) 0 EventRunState ''status'' []
        (mustJSON [(''state'', run_state_json RunSuperseded), (''supersededBy'', GInt newRunID)]) ?db1 = Ok (ev, db2)"
      and rec: "supersede_each req newRunID kind now cs db2 (events @ [ev]) = Ok (db', events')"
      by (auto simp: Let_def bindr_eq_Ok)
    have "run_by_id db' k = run_by_id db2 k" using 2(3) [OF _ refl _ refl rec] True 2(5) by auto
    also have "\<dots> = run_by_id ?db1 k"
      using appended_frame [OF appendEventTx_Ok [OF app, THEN conjunct1]] by blast
    also have "\<dots> = run_by_id db k"
      by (rule run_by_id_update_other) (use True 2(5) in auto)
    finally show ?thesis .
  qed
qed simp

lemma supersedeEligibleTx_step:
  assumes "supersedeEligibleTx req newRunID kind now db events = Ok (db', events')" and "lease_inv db"
  shows "\<exists>new. events' = events @ new \<and> tx_step db new db' \<and> deploy_queue_leases db' = deploy_queue_leases db \<and>
     deploy_environments db' = deploy_environments db \<and> next_run_id db' = next_run_id db"
proof (cases "protected_run (req_Trigger req) (req_Operation req)")
  case True
  with assms show ?thesis by (auto simp: supersedeEligibleTx_def intro: tx_step_refl)
next
  case False
  with assms(1) have "supersede_each req newRunID kind now (supersede_candidates req newRunID db) db events = Ok (db', events')"
    by (simp add: supersedeEligibleTx_def)
  from supersede_each_step [OF this assms(2)] show ?thesis .
qed

lemma supersedeEligibleTx_untouched:
  assumes ok: "supersedeEligibleTx req newRunID kind now db events = Ok (db', events')"
    and d: "distinct (map r_id (deploy_runs db))" and r: "run_by_id db k = Some r"
    and "k = newRunID \<or> r_state r \<noteq> RunQueued \<or> r_environment_id r \<noteq> req_EnvironmentID req \<or>
      protected_run (r_trigger r) (r_operation r) \<or>
      (\<exists>l \<in> set (deploy_queue_leases db). l_run_id l = k) \<or> protected_run (req_Trigger req) (req_Operation req)"
  shows "run_by_id db' k = run_by_id db k"
proof (cases "protected_run (req_Trigger req) (req_Operation req)")
  case True
  with ok show ?thesis by (simp add: supersedeEligibleTx_def)
next
  case False
  with ok have ok': "supersede_each req newRunID kind now (supersede_candidates req newRunID db) db events = Ok (db', events')"
    by (simp add: supersedeEligibleTx_def)
  have "\<not> supersedable req kind c" if "c \<in> set (supersede_candidates req newRunID db)" "r_id c = k" for c
  proof -
    from that have "c \<in> set (deploy_runs db)" by (auto simp: supersede_candidates_def)
    with d that r have "c = r" using run_by_id_unique [OF d, of c] by simp
    with that assms(4) False r show ?thesis by (auto simp: supersede_candidates_def supersedable_def)
  qed
  then show ?thesis using supersede_each_untouched [OF ok'] by blast
qed

subsection \<open>The new run\<close>

definition queued_row :: "int \<Rightarrow> RunRequest \<Rightarrow> go_time \<Rightarrow> run_row" where
  "queued_row runID req now = (new_run_row runID req now)\<lparr>r_state := RunQueued, r_queued_at := unix now\<rparr>"

definition new_steps :: "int \<Rightarrow> int \<Rightarrow> nat \<Rightarrow> StepKey list \<Rightarrow> step_row list" where
  "new_steps stepID runID ordinal keys =
     map (\<lambda>i. new_step_row (stepID + int i) runID (ordinal + i) (keys ! i)) [0 ..< length keys]"

lemma new_steps_Cons:
  "new_steps stepID runID ordinal (key # keys) =
   new_step_row stepID runID ordinal key # new_steps (stepID + 1) runID (Suc ordinal) keys"
  by (simp add: new_steps_def upt_conv_Cons map_Suc_upt [symmetric] add.assoc del: upt_Suc)

lemma insert_steps_eq:
  "insert_steps runID ordinal keys db =
   db\<lparr>deploy_steps := deploy_steps db @ new_steps (next_step_id db) runID ordinal keys,
      next_step_id := next_step_id db + int (length keys)\<rparr>"
  by (induction keys arbitrary: ordinal db) (auto simp: new_steps_Cons, simp add: new_steps_def)

lemma collect_refs_names: "collect_refs rows refs = Ok refs' \<Longrightarrow> refs' = refs @ rows"
  by (induction rows refs rule: collect_refs.induct) (auto split: if_splits)

lemma snapshotRunVariablesTx_Ok:
  assumes "snapshotRunVariablesTx x runID env copy now db = Ok db'"
  shows "\<exists>vs rv. db' = db\<lparr>deploy_run_variable_snapshots := vs, deploy_run_variable_revisions := rv\<rparr>"
  using assms by (auto simp: snapshotRunVariablesTx_def bindr_eq_Ok Let_def split: if_splits)

lemma snapshotRunPlanInputsTx_Ok:
  assumes "snapshotRunPlanInputsTx x runID env copy now db = Ok db'"
  shows "\<exists>ps. db' = db\<lparr>deploy_run_plan_snapshots := ps\<rparr>"
  using assms by (auto simp: snapshotRunPlanInputsTx_def bindr_eq_Ok Let_def split: if_splits)

lemma insert_run_Ok:
  assumes "insert_run req now db = Ok (runID, db')"
  shows "runID = next_run_id db \<and>
    db' = db\<lparr>deploy_runs := deploy_runs db @ [new_run_row runID req now], next_run_id := runID + 1\<rparr> \<and>
    (req_IdempotencyKey req \<noteq> [] \<longrightarrow> (\<forall>r \<in> set (deploy_runs db). \<not> same_request req r))"
  using assms by (auto simp: insert_run_def Let_def split: if_splits)

lemma setRunStateTx_last:
  assumes "\<forall>r \<in> set rows. r_id r \<noteq> runID" and "deploy_runs db = rows @ [row]" and "r_id row = runID"
  shows "setRunStateTx runID state now db =
    db\<lparr>deploy_runs := rows @ [row\<lparr>r_state := state,
         r_queued_at := (if state = RunQueued \<and> unix now \<noteq> 0 then unix now else r_queued_at row)\<rparr>]\<rparr>"
  using assms by (simp add: setRunStateTx_def Let_def sql_update_none)

lemma first_states_Ok:
  assumes ok: "first_states runID now [RunRequested, RunValidating, RunQueued] db [] = Ok (db', evs)"
    and rows: "\<forall>r \<in> set rows. r_id r \<noteq> runID" and runs: "deploy_runs db = rows @ [new_run_row runID req now]"
  shows "\<exists>cs. db' = db\<lparr>deploy_runs := rows @ [queued_row runID req now], deploy_log_chunks := cs\<rparr> \<and>
     logged (deploy_log_chunks db) evs cs \<and> length evs = 3 \<and>
     (\<forall>ev \<in> set evs. ev_RunID ev = runID \<and> ev_Type ev = EventRunState)"
proof -
  have id: "r_id (new_run_row runID req now) = runID" by (simp add: new_run_row_def)
  from ok obtain e1 d1 e2 d2 e3 where
    a1: "appendEventTx now runID 0 EventRunState ''status'' [] (mustJSON [(''state'', run_state_json RunRequested)]) db = Ok (e1, d1)"
    and a2: "appendEventTx now runID 0 EventRunState ''status'' [] (mustJSON [(''state'', run_state_json RunValidating)])
       (setRunStateTx runID RunValidating now d1) = Ok (e2, d2)"
    and a3: "appendEventTx now runID 0 EventRunState ''status'' [] (mustJSON [(''state'', run_state_json RunQueued)])
       (setRunStateTx runID RunQueued now d2) = Ok (e3, db')"
    and evs: "evs = [e1, e2, e3]"
    by (auto simp: bindr_eq_Ok Let_def)
  note p1 = appendEventTx_Ok [OF a1, THEN conjunct1] and p2 = appendEventTx_Ok [OF a2, THEN conjunct1]
    and p3 = appendEventTx_Ok [OF a3, THEN conjunct1]
  obtain c1 where d1: "d1 = db\<lparr>deploy_log_chunks := deploy_log_chunks db @ [c1]\<rparr>"
    using p1 by (auto simp: appended_def)
  have s1: "setRunStateTx runID RunValidating now d1 =
      d1\<lparr>deploy_runs := rows @ [(new_run_row runID req now)\<lparr>r_state := RunValidating\<rparr>]\<rparr>"
    using setRunStateTx_last [OF rows, of d1] id by (simp add: d1 runs)
  obtain c2 where d2: "d2 = d1\<lparr>deploy_runs := rows @ [(new_run_row runID req now)\<lparr>r_state := RunValidating\<rparr>],
      deploy_log_chunks := deploy_log_chunks db @ [c1, c2]\<rparr>"
    using p2 unfolding s1 by (auto simp: appended_def d1)
  have s2: "setRunStateTx runID RunQueued now d2 = d2\<lparr>deploy_runs := rows @ [queued_row runID req now]\<rparr>"
    using setRunStateTx_last [OF rows, of d2] id by (simp add: d2 queued_row_def new_run_row_def)
  obtain c3 where d3: "db' = d2\<lparr>deploy_runs := rows @ [queued_row runID req now],
      deploy_log_chunks := deploy_log_chunks db @ [c1, c2, c3]\<rparr>"
    using p3 unfolding s2 by (auto simp: appended_def d1 d2)
  have "logged (deploy_log_chunks db) [e1] (deploy_log_chunks d1)"
    "logged (deploy_log_chunks d1) [e2] (deploy_log_chunks d2)"
    "logged (deploy_log_chunks d2) [e3] (deploy_log_chunks db')"
    using appended_logged [OF p1] appended_logged [OF p2] appended_logged [OF p3]
    by (simp_all add: setRunStateTx_def Let_def)
  then have "logged (deploy_log_chunks db) ([e1] @ [e2] @ [e3]) (deploy_log_chunks db')"
    by (blast intro: logged_append)
  moreover have "\<forall>ev \<in> set evs. ev_RunID ev = runID \<and> ev_Type ev = EventRunState"
    using appendEventTx_Ok [OF a1] appendEventTx_Ok [OF a2] appendEventTx_Ok [OF a3]
      appended_run [OF p1] appended_run [OF p2] appended_run [OF p3] by (simp add: evs)
  moreover have "db' = db\<lparr>deploy_runs := rows @ [queued_row runID req now], deploy_log_chunks := deploy_log_chunks db'\<rparr>"
    by (simp add: d1 d2 d3)
  moreover have "evs = [e1] @ [e2] @ [e3]" by (simp add: evs)
  ultimately show ?thesis by (metis evs length_Cons list.size(3) numeral_3_eq_3)
qed

lemma enqueueTx_Ok:
  assumes inv: "lease_inv db" and ok: "enqueueTx x req now db = Ok (run, db', evs)"
  obtains env db5 evs0 row where
    "env \<in> set (deploy_environments db)" "e_id env = req_EnvironmentID req"
    "e_project_id env = req_ProjectID req" "e_archived_at env = 0"
    "req_IdempotencyKey req \<noteq> [] \<longrightarrow> (\<forall>r \<in> set (deploy_runs db). \<not> same_request req r)"
    "deploy_runs db5 = deploy_runs db @ [queued_row (next_run_id db) req now]"
    "deploy_queue_leases db5 = deploy_queue_leases db" "next_run_id db5 = next_run_id db + 1"
    "deploy_environments db5 = deploy_environments db"
    "deploy_steps db5 = deploy_steps db @ new_steps (next_step_id db) (next_run_id db) 0 (req_Steps req)"
    "logged (deploy_log_chunks db) evs0 (deploy_log_chunks db5)" "length evs0 = 3"
    "\<forall>ev \<in> set evs0. ev_RunID ev = next_run_id db \<and> ev_Type ev = EventRunState"
    "supersedeEligibleTx req (next_run_id db) (e_kind env) now db5 evs0 = Ok (db', evs)"
    "run_by_id db' (next_run_id db) = Some row" "run = scanEngineRun row"
proof -
  let ?id = "next_run_id db"
  from ok obtain env where env: "find (\<lambda>e. e_id e = req_EnvironmentID req \<and> e_project_id e = req_ProjectID req \<and> e_archived_at e = 0)
             (deploy_environments db) = Some env"
    by (auto simp: enqueueTx_def split: option.splits)
  note env' = find_Some_in [OF env]
  from ok env obtain i db1 db2 db3 db5 evs0 row where
    i: "insert_run req now db = Ok (i, db1)"
    and v: "snapshotRunVariablesTx x i (req_EnvironmentID req) (req_VariableSnapshotRunID req) now db1 = Ok db2"
    and pl: "snapshotRunPlanInputsTx x i (req_EnvironmentID req) (req_VariableSnapshotRunID req) now db2 = Ok db3"
    and f: "first_states i now [RunRequested, RunValidating, RunQueued] (insert_steps i 0 (req_Steps req) db3) [] = Ok (db5, evs0)"
    and s: "supersedeEligibleTx req i (e_kind env) now db5 evs0 = Ok (db', evs)"
    and row: "run_by_id db' i = Some row" "run = scanEngineRun row"
    by (auto simp: enqueueTx_def Let_def bindr_eq_Ok simp del: first_states.simps split: option.split_asm)
  note ins = insert_run_Ok [OF i]
  obtain vs rv where db2: "db2 = db1\<lparr>deploy_run_variable_snapshots := vs, deploy_run_variable_revisions := rv\<rparr>"
    using snapshotRunVariablesTx_Ok [OF v] by blast
  obtain ps where db3: "db3 = db2\<lparr>deploy_run_plan_snapshots := ps\<rparr>"
    using snapshotRunPlanInputsTx_Ok [OF pl] by blast
  have "\<forall>r \<in> set (deploy_runs db). r_id r \<noteq> ?id" using inv by (auto simp: lease_inv_def)
  then obtain cs where db5: "db5 = (insert_steps i 0 (req_Steps req) db3)\<lparr>deploy_runs := deploy_runs db @ [queued_row i req now],
      deploy_log_chunks := cs\<rparr>" and l: "logged (deploy_log_chunks db) evs0 cs" "length evs0 = 3"
      "\<forall>ev \<in> set evs0. ev_RunID ev = ?id \<and> ev_Type ev = EventRunState"
    using first_states_Ok [OF f, of "deploy_runs db" req] ins
    by (auto simp: insert_steps_eq db2 db3)
  show thesis
  proof (rule that [of env db5 evs0 row])
    show "deploy_runs db5 = deploy_runs db @ [queued_row ?id req now]" using ins by (simp add: db5)
    show "deploy_steps db5 = deploy_steps db @ new_steps (next_step_id db) ?id 0 (req_Steps req)"
      using ins by (simp add: db5 insert_steps_eq db2 db3)
  qed (use env' ins l s row in \<open>auto simp: db5 insert_steps_eq db2 db3\<close>)
qed

lemma queued_row_idle: "idle_run (queued_row k req now)"
  by (simp add: idle_run_def queued_row_def new_run_row_def)

lemma lease_inv_new_run:
  assumes inv: "lease_inv db" and runs: "deploy_runs db' = deploy_runs db @ [r]" and "idle_run r"
    and "r_id r = next_run_id db" and "next_run_id db' = next_run_id db + 1"
    and leases: "deploy_queue_leases db' = deploy_queue_leases db"
  shows "lease_inv db'"
proof -
  have "\<forall>x \<in> set (deploy_runs db). r_id x < next_run_id db" using inv by (simp add: lease_inv_def)
  then have "distinct (map r_id (deploy_runs db'))" "\<forall>x \<in> set (deploy_runs db'). r_id x < next_run_id db'"
    using lease_inv_distinct(1) [OF inv] assms(4,5) by (auto simp: runs)
  moreover have "\<forall>l \<in> set (deploy_queue_leases db). l_claim_token l \<noteq> [] \<and> (\<exists>r \<in> set (deploy_runs db'). lease_matches l r)"
    using inv unfolding lease_inv_def runs by auto
  moreover have "\<forall>r \<in> set (deploy_runs db'). idle_run r \<or> (\<exists>l \<in> set (deploy_queue_leases db). lease_matches l r)"
    using inv assms(3) unfolding lease_inv_def runs by auto
  ultimately show ?thesis using inv by (auto simp: lease_inv_def leases)
qed

lemma runs_follow_new_run:
  assumes "deploy_runs db' = deploy_runs db @ [queued_row k req now]"
    and "req_IdempotencyKey req \<noteq> [] \<longrightarrow> (\<forall>r \<in> set (deploy_runs db). \<not> same_request req r)"
  shows "runs_follow db db'"
proof -
  have "same_request req r" if "idem_key (queued_row k req now) = idem_key r" for r
    using that by (auto simp: same_request_def idem_key_def queued_row_def new_run_row_def)
  moreover have "r_idempotency_key (queued_row k req now) = req_IdempotencyKey req"
    by (simp add: queued_row_def new_run_row_def)
  ultimately have "idem_inv db \<longrightarrow> idem_inv db'"
    using assms by (auto simp: idem_inv_def)
  then show ?thesis
    by (auto simp: runs_follow_def run_by_id_def assms(1) find_append intro: run_path.intros)
qed

lemma enqueueTx_step:
  assumes inv: "lease_inv db" and ok: "enqueueTx x req now db = Ok (run, db', evs)"
  shows "tx_step db evs db'"
proof -
  obtain env :: env_row and db5 evs0 where
    fresh: "req_IdempotencyKey req \<noteq> [] \<longrightarrow> (\<forall>r \<in> set (deploy_runs db). \<not> same_request req r)"
    and runs: "deploy_runs db5 = deploy_runs db @ [queued_row (next_run_id db) req now]"
    and rest: "deploy_queue_leases db5 = deploy_queue_leases db" "next_run_id db5 = next_run_id db + 1"
    and log: "logged (deploy_log_chunks db) evs0 (deploy_log_chunks db5)"
    and sup: "supersedeEligibleTx req (next_run_id db) (e_kind env) now db5 evs0 = Ok (db', evs)"
    by (rule enqueueTx_Ok [OF inv ok])
  have inv5: "lease_inv db5"
    by (rule lease_inv_new_run [OF inv runs queued_row_idle])
       (use rest in \<open>simp_all add: queued_row_def new_run_row_def\<close>)
  then have "tx_step db evs0 db5"
    using runs_follow_new_run [OF runs fresh] log by (simp add: tx_step_def)
  then show ?thesis using supersedeEligibleTx_step [OF sup inv5] tx_step_trans by blast
qed

text \<open>The request's run as it stands after the commit.\<close>

lemma enqueueTx_run:
  assumes inv: "lease_inv db" and ok: "enqueueTx x req now db = Ok (run, db', evs)"
  shows "run_by_id db' (next_run_id db) = Some (queued_row (next_run_id db) req now) \<and>
         run = scanEngineRun (queued_row (next_run_id db) req now)"
proof -
  obtain env :: env_row and db5 evs0 row where
    runs: "deploy_runs db5 = deploy_runs db @ [queued_row (next_run_id db) req now]"
    and rest: "deploy_queue_leases db5 = deploy_queue_leases db" "next_run_id db5 = next_run_id db + 1"
    and sup: "supersedeEligibleTx req (next_run_id db) (e_kind env) now db5 evs0 = Ok (db', evs)"
    and row: "run_by_id db' (next_run_id db) = Some row" "run = scanEngineRun row"
    by (rule enqueueTx_Ok [OF inv ok])
  have inv5: "lease_inv db5"
    by (rule lease_inv_new_run [OF inv runs queued_row_idle])
       (use rest in \<open>simp_all add: queued_row_def new_run_row_def\<close>)
  have "run_by_id db5 (r_id (queued_row (next_run_id db) req now)) = Some (queued_row (next_run_id db) req now)"
    by (rule run_by_id_unique [OF lease_inv_distinct(1) [OF inv5]]) (simp add: runs)
  then have q: "run_by_id db5 (next_run_id db) = Some (queued_row (next_run_id db) req now)"
    by (simp add: queued_row_def new_run_row_def)
  then have "run_by_id db' (next_run_id db) = run_by_id db5 (next_run_id db)"
    by (rule supersedeEligibleTx_untouched [OF sup lease_inv_distinct(1) [OF inv5]]) simp
  with q row show ?thesis by simp
qed

subsection \<open>Replays\<close>

lemma idem_inv_unique:
  assumes "idem_inv db" and "r \<in> set (deploy_runs db)" and "r' \<in> set (deploy_runs db)"
    and "r_idempotency_key r \<noteq> []" and "idem_key r' = idem_key r"
  shows "r' = r"
proof -
  have "r_idempotency_key r' \<noteq> []" using assms(4,5) by (simp add: idem_key_def)
  with assms show ?thesis
    using distinct_map_key [of idem_key "filter (\<lambda>r. r_idempotency_key r \<noteq> []) (deploy_runs db)" r r']
    by (auto simp: idem_inv_def)
qed

lemma idempotentRun_known:
  assumes "idem_inv db" and "run_by_id db k = Some r" and "same_request req r" and "req_IdempotencyKey req \<noteq> []"
  shows "idempotentRun db req =
    (if r_request_digest r \<noteq> req_RequestDigest req then Err ErrIdempotencyConflict else Ok (Some (scanEngineRun r)))"
proof -
  have r: "r \<in> set (deploy_runs db)" using run_by_id_Some [OF assms(2)] by simp
  then obtain r' where f: "find (same_request req) (deploy_runs db) = Some r'"
    using assms(3) by (cases "find (same_request req) (deploy_runs db)") (auto simp: find_None_iff)
  then have "r' \<in> set (deploy_runs db)" "same_request req r'" by (auto dest: find_Some_in)
  then have "r' = r"
    using idem_inv_unique [OF assms(1) r] assms(3,4) by (auto simp: same_request_def idem_key_def)
  with f show ?thesis by (simp add: idempotentRun_def)
qed

lemma normalizeRunRequest_Ok:
  assumes "normalizeRunRequest req = Ok req'"
  shows "req_IdempotencyKey req' = req_IdempotencyKey req \<and> req_RequestDigest req' = req_RequestDigest req \<and>
    req_ProjectID req' = req_ProjectID req \<and> req_EnvironmentID req' = req_EnvironmentID req \<and>
    req_Operation req' = req_Operation req \<and> req_Trigger req' = req_Trigger req \<and>
    req_Steps req' = (if req_Steps req = [] then DefaultStepKeys else req_Steps req) \<and>
    slot_valid (req_SlotClass req')"
  using assms by (auto simp: normalizeRunRequest_def Let_def split: if_splits)

lemma Enqueue_new:
  assumes "Enqueue x req0 now s = (Ok (Some run, True), s')"
  obtains req evs where "normalizeRunRequest req0 = Ok req" "enqueueTx x req now (o_db s) = Ok (run, o_db s', evs)"
    "s' = s\<lparr>o_db := o_db s', o_broker := publish evs (o_broker s)\<rparr>"
proof -
  from assms obtain req where n: "normalizeRunRequest req0 = Ok req"
    by (auto simp: Enqueue_def split: sum.splits)
  with assms have c: "commit (enqueueTx x req now (o_db s)) s = (Ok run, s')"
    by (auto simp: Enqueue_def Let_def bindr_def split: sum.splits option.splits prod.splits if_splits)
  then obtain db' evs where e: "enqueueTx x req now (o_db s) = Ok (run, db', evs)"
    "s' = s\<lparr>o_db := db', o_broker := publish evs (o_broker s)\<rparr>"
    by (cases "enqueueTx x req now (o_db s)") auto
  with n that show thesis by auto
qed

lemma Enqueue_cases:
  assumes "Enqueue x req0 now s = (res, s')"
  shows "s' = s \<or> (\<exists>req run evs. normalizeRunRequest req0 = Ok req \<and> res = Ok (Some run, True) \<and>
     enqueueTx x req now (o_db s) = Ok (run, o_db s', evs) \<and>
     s' = s\<lparr>o_db := o_db s', o_broker := publish evs (o_broker s)\<rparr>)"
proof (cases "s' = s")
  case False
  from assms False obtain req where n: "normalizeRunRequest req0 = Ok req"
    by (auto simp: Enqueue_def split: sum.splits)
  with assms False have "\<exists>run. commit (enqueueTx x req now (o_db s)) s = (Ok run, s') \<and> res = Ok (Some run, True)"
    by (auto simp: Enqueue_def Let_def split: sum.splits option.splits prod.splits if_splits dest: commit_Err)
  then show ?thesis using n by (cases "enqueueTx x req now (o_db s)") auto
qed simp

lemma Enqueue_known:
  assumes "normalizeRunRequest req0 = Ok req" and "req_IdempotencyKey req0 \<noteq> []"
    and "idem_inv (o_db s)" and "run_by_id (o_db s) k = Some r" and "same_request req0 r"
  shows "Enqueue x req0 now s =
    (if r_request_digest r \<noteq> req_RequestDigest req0 then (Err ErrIdempotencyConflict, s)
     else (Ok (Some (scanEngineRun r), False), s))"
proof -
  note n = normalizeRunRequest_Ok [OF assms(1)]
  then have "same_request req r" using assms(5) by (simp add: same_request_def)
  then show ?thesis
    using idempotentRun_known [OF assms(3,4)] assms(1,2) n by (simp add: Enqueue_def)
qed

lemma run_identity_same_request: "run_identity r = run_identity r' \<Longrightarrow> same_request req r = same_request req r'"
  by (simp add: run_identity_def same_request_def)

lemma Enqueue_later:
  assumes inv: "lease_inv (o_db s)" and new: "Enqueue x req0 now s = (Ok (Some run, True), s')"
    and follow: "runs_follow (o_db s') (o_db s'')"
  obtains r where "run_by_id (o_db s'') (ID run) = Some r" "same_request req0 r"
    "r_request_digest r = req_RequestDigest req0" "ID run = next_run_id (o_db s)"
proof -
  obtain req evs where n: "normalizeRunRequest req0 = Ok req" and e: "enqueueTx x req now (o_db s) = Ok (run, o_db s', evs)"
    by (rule Enqueue_new [OF new])
  note q = enqueueTx_run [OF inv e] and n' = normalizeRunRequest_Ok [OF n]
  obtain r where r: "run_by_id (o_db s'') (next_run_id (o_db s)) = Some r"
    "run_identity r = run_identity (queued_row (next_run_id (o_db s)) req now)"
    using follow q by (auto simp: runs_follow_def)
  moreover have "ID run = next_run_id (o_db s)"
    using q by (simp add: scanEngineRun_def queued_row_def new_run_row_def)
  moreover have "same_request req0 (queued_row (next_run_id (o_db s)) req now)"
    "r_request_digest r = req_RequestDigest req0"
    using n' r(2) by (simp_all add: same_request_def queued_row_def new_run_row_def run_identity_def)
  ultimately show thesis using that run_identity_same_request [OF r(2)] by simp
qed

end
