(* ===== verification/Deploy_Steps.thy ===== *)
theory Deploy_Steps
  imports Deploy_Enqueue
begin

text \<open>
  Steps of a run (orchestration_steps.go): the fenced transition of the latest attempt of a step
  and the retry that opens a new attempt.
  The lemmas show that a finished attempt is never rewritten: a transition changes one open
  attempt along an edge of the step machine, or adds the next attempt after a failure.
\<close>

subsection \<open>Transitions\<close>

record StepTransition =
  in_State :: StepState
  in_Retry :: bool
  in_Evidence :: string
  in_Cleanup :: string
  in_ErrorCode :: string
  in_ErrorMessage :: string

definition step_to :: "StepState \<Rightarrow> StepTransition" where
  "step_to state =
     \<lparr> in_State = state, in_Retry = False, in_Evidence = [], in_Cleanup = [],
       in_ErrorCode = [], in_ErrorMessage = [] \<rparr>"

definition ValidateStepTransition :: "StepState \<Rightarrow> StepState \<Rightarrow> deploy_error + unit" where
  "ValidateStepTransition from to =
     guardr (CanTransitionStep from to)
       (ErrInvalidTransition (step_state_string from @ '' -> '' @ step_state_string to))"

fun stepAttemptTerminal :: "StepState \<Rightarrow> bool" where
  "stepAttemptTerminal StepPassed = True"
| "stepAttemptTerminal StepWarning = True"
| "stepAttemptTerminal StepFailed = True"
| "stepAttemptTerminal StepSkipped = True"
| "stepAttemptTerminal StepCancelled = True"
| "stepAttemptTerminal StepUnavailable = True"
| "stepAttemptTerminal _ = False"

definition latest_step :: "int \<Rightarrow> StepKey \<Rightarrow> db \<Rightarrow> step_row option" where
  "latest_step runID key db =
     sql_first_by (\<lambda>s. - s_attempt s) (\<lambda>s. s_run_id s = runID \<and> s_step_key s = key) (deploy_steps db)"

definition step_by_id :: "db \<Rightarrow> int \<Rightarrow> step_row option" where
  "step_by_id db stepID = find (\<lambda>s. s_id s = stepID) (deploy_steps db)"

text \<open>The new attempt of a failed step.\<close>

definition new_attempt :: "int \<Rightarrow> step_row \<Rightarrow> step_row" where
  "new_attempt stepID current =
     \<lparr> s_id = stepID, s_run_id = s_run_id current, s_step_key = s_step_key current,
       s_ordinal = s_ordinal current, s_status = StepPending, s_attempt = s_attempt current + 1,
       s_timeout_seconds = s_timeout_seconds current, s_started_at = 0, s_ended_at = 0,
       s_evidence_json = ''{}'', s_error_code = [], s_error_message = [],
       s_cleanup_json = ''{}'', s_last_seq = 0 \<rparr>"

definition insert_attempt :: "step_row \<Rightarrow> db \<Rightarrow> deploy_error + int \<times> db" where
  "insert_attempt current db =
     (if \<exists>s \<in> set (deploy_steps db). s_run_id s = s_run_id current \<and> s_step_key s = s_step_key current \<and>
           s_attempt s = s_attempt current + 1
      then Err (ErrUniqueConstraint ''deploy_steps.run_id'')
      else Ok (next_step_id db,
        db\<lparr>deploy_steps := deploy_steps db @ [new_attempt (next_step_id db) current],
           next_step_id := next_step_id db + 1\<rparr>))"

definition update_attempt :: "StepTransition \<Rightarrow> go_time \<Rightarrow> step_row \<Rightarrow> step_row \<Rightarrow> step_row" where
  "update_attempt input now current s =
     (let started = (if in_State input = StepRunning \<and> s_started_at current = 0 then unix now else 0);
          ended = (if stepAttemptTerminal (in_State input) then unix now else 0) in
      s\<lparr>s_status := in_State input,
        s_started_at := (if started \<noteq> 0 then started else s_started_at s),
        s_ended_at := (if ended \<noteq> 0 then ended else s_ended_at s),
        s_evidence_json := (if in_Evidence input \<noteq> [] then in_Evidence input else validRawJSON (s_evidence_json current)),
        s_error_code := in_ErrorCode input, s_error_message := in_ErrorMessage input,
        s_cleanup_json := (if in_Cleanup input \<noteq> [] then in_Cleanup input else validRawJSON (s_cleanup_json current))\<rparr>)"

definition write_step :: "StepTransition \<Rightarrow> go_time \<Rightarrow> step_row \<Rightarrow> db \<Rightarrow> deploy_error + int \<times> db" where
  "write_step input now current db =
     (if s_status current = StepFailed \<and> in_State input = StepPending then
        if \<not> in_Retry input then Err (ErrInvalidTransition ''failed step retry must increment attempt'')
        else insert_attempt current db
      else
        let p = (\<lambda>s. s_id s = s_id current \<and> s_status s = s_status current) in
        if sql_count p (deploy_steps db) \<noteq> 1
        then Err (ErrInvalidTransition ''deployment step changed concurrently'')
        else Ok (s_id current,
                 db\<lparr>deploy_steps := sql_update p (update_attempt input now current) (deploy_steps db)\<rparr>))"

definition set_last_seq :: "(step_row \<Rightarrow> bool) \<Rightarrow> int \<Rightarrow> db \<Rightarrow> db" where
  "set_last_seq p seq db =
     db\<lparr>deploy_steps := sql_update p (\<lambda>s. s\<lparr>s_last_seq := seq\<rparr>) (deploy_steps db)\<rparr>"

definition step_event_data :: "RunStep \<Rightarrow> string" where
  "step_event_data updated =
     mustJSON [(''key'', GStr (step_key_string (step_Key updated))),
               (''state'', GStr (step_state_string (step_State updated))),
               (''attempt'', GInt (step_Attempt updated)), (''evidence'', GRaw (step_Evidence updated)),
               (''errorCode'', GStr (step_ErrorCode updated)),
               (''errorMessage'', GStr (step_ErrorMessage updated))]"

definition transitionStepTx ::
  "int \<Rightarrow> StepKey \<Rightarrow> string \<Rightarrow> StepTransition \<Rightarrow> go_time \<Rightarrow> db \<Rightarrow> RunStep tx" where
  "transitionStepTx runID key claimToken input now db =
     (if \<not> validStepKey key then Err (ErrMessage ''invalid deployment step'')
      else if maxEventBytes < length (in_Evidence input) \<or> maxEventBytes < length (in_Cleanup input)
      then Err ErrEventPayloadTooLarge
      else if in_Evidence input \<noteq> [] \<and> \<not> json_valid (in_Evidence input) \<or>
              in_Cleanup input \<noteq> [] \<and> \<not> json_valid (in_Cleanup input)
      then Err (ErrMessage ''deployment step evidence is not valid JSON'')
      else if 8192 < length (in_ErrorMessage input) \<or> 128 < length (in_ErrorCode input)
      then Err (ErrMessage ''deployment step error is too large'')
      else
        bindr (assertLeaseTx runID claimToken now db) (\<lambda>_.
        case latest_step runID key db of
          None \<Rightarrow> Err ErrStepNotFound
        | Some current \<Rightarrow>
            bindr (ValidateStepTransition (s_status current) (in_State input)) (\<lambda>_.
            bindr (write_step input now current db) (\<lambda>(stepID, db1).
            case step_by_id db1 stepID of
              None \<Rightarrow> Err ErrStepNotFound
            | Some row \<Rightarrow>
                let updated = scanRunStep row in
                bindr (appendEventTx now runID (step_ID updated) EventStepState ''status'' []
                         (step_event_data updated) db1) (\<lambda>(event, db2).
                Ok (updated\<lparr>step_LastSeq := ev_Seq event\<rparr>,
                    set_last_seq (\<lambda>s. s_id s = step_ID updated) (ev_Seq event) db2, [event]))))))"

definition TransitionStep ::
  "int \<Rightarrow> StepKey \<Rightarrow> string \<Rightarrow> StepTransition \<Rightarrow> go_time \<Rightarrow> ostore \<Rightarrow> (deploy_error + RunStep) \<times> ostore" where
  "TransitionStep runID key claimToken input now s =
     commit (transitionStepTx runID key claimToken input now (o_db s)) s"

subsection \<open>The latest attempts\<close>

text \<open>The map from a key to its attempt with the greatest number.\<close>

definition latestAttempts :: "RunStep list \<Rightarrow> StepKey \<Rightarrow> RunStep option" where
  "latestAttempts steps =
     foldl (\<lambda>m step. case m (step_Key step) of
              Some prior \<Rightarrow> if step_Attempt prior < step_Attempt step then m(step_Key step \<mapsto> step) else m
            | None \<Rightarrow> m(step_Key step \<mapsto> step)) (\<lambda>_. None) steps"

subsection \<open>Attempts\<close>

definition step_inv :: "db \<Rightarrow> bool" where
  "step_inv db \<longleftrightarrow>
     distinct (map s_id (deploy_steps db)) \<and> (\<forall>s \<in> set (deploy_steps db). s_id s < next_step_id db) \<and>
     distinct (map (\<lambda>s. (s_run_id s, s_step_key s, s_attempt s)) (deploy_steps db)) \<and>
     (\<forall>s \<in> set (deploy_steps db). s_run_id s < next_run_id db)"

text \<open>An edge inside one attempt; the retry edge leaves a failed attempt and opens another.\<close>

definition attempt_edge :: "StepState \<Rightarrow> StepState \<Rightarrow> bool" where
  "attempt_edge a b \<longleftrightarrow> CanTransitionStep a b \<and> a \<noteq> StepFailed"

lemma attempt_edge_open: "attempt_edge a b \<Longrightarrow> \<not> stepAttemptTerminal a"
  by (cases a) (auto simp: attempt_edge_def CanTransitionStep_def)

definition step_content :: "step_row \<Rightarrow> step_row" where
  "step_content s = s\<lparr>s_last_seq := 0\<rparr>"

definition attempt_follows :: "step_row \<Rightarrow> step_row \<Rightarrow> bool" where
  "attempt_follows s s' \<longleftrightarrow>
     s_id s' = s_id s \<and> s_run_id s' = s_run_id s \<and> s_step_key s' = s_step_key s \<and>
     s_ordinal s' = s_ordinal s \<and> s_attempt s' = s_attempt s \<and>
     attempt_edge\<^sup>*\<^sup>* (s_status s) (s_status s') \<and>
     (stepAttemptTerminal (s_status s) \<longrightarrow> step_content s' = step_content s)"

definition steps_follow :: "db \<Rightarrow> db \<Rightarrow> bool" where
  "steps_follow db db' \<longleftrightarrow> (\<forall>s \<in> set (deploy_steps db). \<exists>s' \<in> set (deploy_steps db'). attempt_follows s s')"

lemma attempt_follows_refl: "attempt_follows s s"
  by (simp add: attempt_follows_def)

lemma terminal_stuck: "attempt_edge\<^sup>*\<^sup>* a b \<Longrightarrow> stepAttemptTerminal a \<Longrightarrow> b = a"
  by (induction rule: rtranclp_induct) (auto dest: attempt_edge_open)

lemma attempt_follows_trans: "attempt_follows s s' \<Longrightarrow> attempt_follows s' s'' \<Longrightarrow> attempt_follows s s''"
  unfolding attempt_follows_def by (auto dest: terminal_stuck)

lemma steps_follow_refl: "steps_follow db db"
  by (auto simp: steps_follow_def intro: attempt_follows_refl)

lemma steps_follow_cong: "deploy_steps db' = deploy_steps db \<Longrightarrow> steps_follow db db'"
  by (auto simp: steps_follow_def intro: attempt_follows_refl)

lemma steps_follow_trans: "steps_follow db1 db2 \<Longrightarrow> steps_follow db2 db3 \<Longrightarrow> steps_follow db1 db3"
  unfolding steps_follow_def by (meson attempt_follows_trans)

lemma steps_follow_append: "deploy_steps db' = deploy_steps db @ ss \<Longrightarrow> steps_follow db db'"
  by (auto simp: steps_follow_def intro: attempt_follows_refl)

lemma steps_follow_changed:
  assumes "row_changed s_id (deploy_steps db) s s' (deploy_steps db')" and "attempt_follows s s'"
  shows "steps_follow db db'"
  using assms(2) unfolding steps_follow_def row_changed_set [OF assms(1)]
  by (metis attempt_follows_refl insert_Diff insert_Diff_single insert_iff row_changed_in [OF assms(1)])

lemma attempt_follows_last_seq: "attempt_follows s (s\<lparr>s_last_seq := n\<rparr>)"
  by (simp add: attempt_follows_def step_content_def)

lemma set_last_seq_follow: "steps_follow db (set_last_seq p n db)"
  by (auto simp: steps_follow_def set_last_seq_def set_sql_update image_iff
      intro: attempt_follows_refl attempt_follows_last_seq)

lemma map_via:
  assumes "map k xs = map k ys" and "\<And>s. g s = h (k s)"
  shows "map g xs = map g ys"
proof -
  have "map g zs = map h (map k zs)" for zs using assms(2) by simp
  then show ?thesis by (simp only: assms(1))
qed

lemma step_inv_cong:
  assumes "step_inv db" and "map (\<lambda>s. (s_id s, s_run_id s, s_step_key s, s_attempt s)) (deploy_steps db') =
    map (\<lambda>s. (s_id s, s_run_id s, s_step_key s, s_attempt s)) (deploy_steps db)"
    and "next_step_id db' = next_step_id db" and "next_run_id db \<le> next_run_id db'"
  shows "step_inv db'"
proof -
  have "map s_id (deploy_steps db') = map s_id (deploy_steps db)"
    "map (\<lambda>s. (s_run_id s, s_step_key s, s_attempt s)) (deploy_steps db') =
     map (\<lambda>s. (s_run_id s, s_step_key s, s_attempt s)) (deploy_steps db)"
    "map s_run_id (deploy_steps db') = map s_run_id (deploy_steps db)"
    using map_via [OF assms(2), of s_id fst] map_via [OF assms(2), of "\<lambda>s. (s_run_id s, s_step_key s, s_attempt s)" snd]
      map_via [OF assms(2), of s_run_id "\<lambda>k. fst (snd k)"] by simp_all
  then have eq: "distinct (map s_id (deploy_steps db'))"
    "distinct (map (\<lambda>s. (s_run_id s, s_step_key s, s_attempt s)) (deploy_steps db'))"
    "s_id ` set (deploy_steps db') = s_id ` set (deploy_steps db)"
    "s_run_id ` set (deploy_steps db') = s_run_id ` set (deploy_steps db)"
    using assms(1) by (simp_all add: step_inv_def flip: set_map)
  have "s_id s < next_step_id db'" "s_run_id s < next_run_id db'" if "s \<in> set (deploy_steps db')" for s
  proof -
    have "s_id s \<in> s_id ` set (deploy_steps db)" "s_run_id s \<in> s_run_id ` set (deploy_steps db)"
      using that by (simp_all flip: eq(3,4))
    moreover have "\<forall>s \<in> set (deploy_steps db). s_id s < next_step_id db \<and> s_run_id s < next_run_id db"
      using assms(1) by (simp add: step_inv_def)
    ultimately show "s_id s < next_step_id db'" "s_run_id s < next_run_id db'"
      using assms(3,4) by auto
  qed
  with eq show ?thesis by (simp add: step_inv_def)
qed

lemma lease_inv_cong:
  "lease_inv db \<Longrightarrow> deploy_runs db' = deploy_runs db \<Longrightarrow> deploy_queue_leases db' = deploy_queue_leases db \<Longrightarrow>
   next_run_id db' = next_run_id db \<Longrightarrow> lease_inv db'"
  by (simp add: lease_inv_def)

lemma latest_step_Some:
  assumes "latest_step runID key db = Some s"
  shows "s \<in> set (deploy_steps db) \<and> s_run_id s = runID \<and> s_step_key s = key \<and>
    (\<forall>x \<in> set (deploy_steps db). s_run_id x = runID \<and> s_step_key x = key \<longrightarrow> s_attempt x \<le> s_attempt s)"
  using sql_first_by_Some [OF assms [unfolded latest_step_def]] by auto

text \<open>What one transition writes: the next attempt, or the open attempt along an edge.\<close>

lemma write_step_Ok:
  assumes inv: "step_inv db" and w: "write_step input now current db = Ok (stepID, db')"
    and current: "current \<in> set (deploy_steps db)" and can: "CanTransitionStep (s_status current) (in_State input)"
  shows "(\<exists>new. s_status current = StepFailed \<and> in_State input = StepPending \<and> in_Retry input \<and>
            s_id new = stepID \<and> stepID = next_step_id db \<and> s_run_id new = s_run_id current \<and>
            s_step_key new = s_step_key current \<and> s_attempt new = s_attempt current + 1 \<and>
            s_status new = StepPending \<and>
            db' = db\<lparr>deploy_steps := deploy_steps db @ [new], next_step_id := next_step_id db + 1\<rparr> \<and>
            (\<forall>s \<in> set (deploy_steps db). (s_run_id s, s_step_key s, s_attempt s) \<noteq> (s_run_id new, s_step_key new, s_attempt new))) \<or>
         (stepID = s_id current \<and> attempt_edge (s_status current) (in_State input) \<and>
            row_changed s_id (deploy_steps db) current (update_attempt input now current current) (deploy_steps db') \<and>
            (\<exists>ss. db' = db\<lparr>deploy_steps := ss\<rparr>))"
proof (cases "s_status current = StepFailed \<and> in_State input = StepPending")
  case True
  with w have ins: "insert_attempt current db = Ok (stepID, db')" "in_Retry input"
    by (auto simp: write_step_def split: if_splits)
  then show ?thesis using True
    by (intro disjI1 exI [of _ "new_attempt (next_step_id db) current"])
       (auto simp: insert_attempt_def new_attempt_def split: if_splits)
next
  case False
  have "s_status current \<noteq> StepFailed"
    using False can by (auto simp: CanTransitionStep_def)
  moreover have "row_changed s_id (deploy_steps db) current (update_attempt input now current current)
      (sql_update (\<lambda>s. s_id s = s_id current \<and> s_status s = s_status current) (update_attempt input now current) (deploy_steps db))"
    by (rule sql_update_row_changed) (use inv current in \<open>auto simp: step_inv_def update_attempt_def Let_def\<close>)
  ultimately show ?thesis
    using False w can by (auto simp: write_step_def Let_def attempt_edge_def split: if_splits)
qed

lemma update_attempt_follows:
  "attempt_edge (s_status s) (in_State input) \<Longrightarrow> attempt_follows s (update_attempt input now s s)"
  by (auto simp: attempt_follows_def update_attempt_def Let_def dest: attempt_edge_open)

lemma write_step_inv:
  assumes inv: "step_inv db" and w: "write_step input now current db = Ok (stepID, db')"
    and current: "current \<in> set (deploy_steps db)" and can: "CanTransitionStep (s_status current) (in_State input)"
  shows "step_inv db' \<and> steps_follow db db' \<and> deploy_runs db' = deploy_runs db \<and>
    deploy_queue_leases db' = deploy_queue_leases db \<and> next_run_id db' = next_run_id db \<and>
    deploy_log_chunks db' = deploy_log_chunks db \<and> deploy_environments db' = deploy_environments db"
  using write_step_Ok [OF assms]
proof (elim disjE exE conjE)
  fix new
  assume new: "s_id new = stepID" "stepID = next_step_id db" "s_run_id new = s_run_id current"
    "\<forall>s \<in> set (deploy_steps db). (s_run_id s, s_step_key s, s_attempt s) \<noteq> (s_run_id new, s_step_key new, s_attempt new)"
    and db': "db' = db\<lparr>deploy_steps := deploy_steps db @ [new], next_step_id := next_step_id db + 1\<rparr>"
  have "step_inv db'"
    using inv current new unfolding step_inv_def by (auto simp: db' image_iff)
  with steps_follow_append [of db' db "[new]"] show ?thesis by (simp add: db')
next
  fix ss
  assume e: "attempt_edge (s_status current) (in_State input)"
    and chg: "row_changed s_id (deploy_steps db) current (update_attempt input now current current) (deploy_steps db')"
    and db': "db' = db\<lparr>deploy_steps := ss\<rparr>"
  have "step_inv db'"
    by (rule step_inv_cong [OF inv row_changed_map [OF chg]])
       (simp_all add: update_attempt_def Let_def db')
  with steps_follow_changed [OF chg update_attempt_follows [OF e]] show ?thesis by (simp add: db')
qed

definition steps_ok :: "db \<Rightarrow> db \<Rightarrow> bool" where
  "steps_ok db db' \<longleftrightarrow> (step_inv db \<longrightarrow> step_inv db' \<and> steps_follow db db')"

lemma steps_ok_refl: "steps_ok db db"
  by (simp add: steps_ok_def steps_follow_refl)

lemma steps_ok_trans [trans]: "steps_ok db1 db2 \<Longrightarrow> steps_ok db2 db3 \<Longrightarrow> steps_ok db1 db3"
  unfolding steps_ok_def using steps_follow_trans by blast

lemma steps_ok_cong:
  "deploy_steps db' = deploy_steps db \<Longrightarrow> next_step_id db' = next_step_id db \<Longrightarrow>
   next_run_id db \<le> next_run_id db' \<Longrightarrow> steps_ok db db'"
  by (auto simp: steps_ok_def steps_follow_cong intro: step_inv_cong)

lemma set_last_seq_ok: "steps_ok db (set_last_seq p n db)"
  unfolding steps_ok_def
proof (intro impI conjI set_last_seq_follow)
  assume "step_inv db"
  then show "step_inv (set_last_seq p n db)"
    by (rule step_inv_cong) (simp_all add: set_last_seq_def map_sql_update_same)
qed

lemma tx_step_same:
  assumes "lease_inv db" and "deploy_runs db' = deploy_runs db"
    and "deploy_queue_leases db' = deploy_queue_leases db" and "next_run_id db' = next_run_id db"
    and "logged (deploy_log_chunks db) evs (deploy_log_chunks db')"
  shows "tx_step db evs db'"
  using assms lease_inv_cong [OF assms(1-4)] runs_follow_cong [OF assms(2)] by (simp add: tx_step_def)

lemma transitionStepTx_Ok:
  assumes "transitionStepTx runID key tok input now db = Ok (x, db', evs)"
  obtains current stepID db1 row ev db2 where
    "assertLeaseTx runID tok now db = Ok ()" "latest_step runID key db = Some current"
    "CanTransitionStep (s_status current) (in_State input)"
    "write_step input now current db = Ok (stepID, db1)" "step_by_id db1 stepID = Some row"
    "appendEventTx now runID (s_id row) EventStepState ''status'' [] (step_event_data (scanRunStep row)) db1 = Ok (ev, db2)"
    "x = (scanRunStep row)\<lparr>step_LastSeq := ev_Seq ev\<rparr>" "evs = [ev]"
    "db' = set_last_seq (\<lambda>s. s_id s = s_id row) (ev_Seq ev) db2"
proof -
  have id: "step_ID (scanRunStep row) = s_id row" for row by (simp add: scanRunStep_def)
  from assms obtain current where c: "assertLeaseTx runID tok now db = Ok ()" "latest_step runID key db = Some current"
    by (auto simp: transitionStepTx_def bindr_eq_Ok split: if_split_asm option.split_asm)
  with assms obtain stepID db1 row where
    w: "CanTransitionStep (s_status current) (in_State input)"
    "write_step input now current db = Ok (stepID, db1)" "step_by_id db1 stepID = Some row"
    by (auto simp: transitionStepTx_def ValidateStepTransition_def bindr_eq_Ok split: if_split_asm option.split_asm)
  with assms c that show thesis
    by (auto simp: transitionStepTx_def ValidateStepTransition_def bindr_eq_Ok Let_def id
        split: if_split_asm)
qed

lemma transitionStepTx_step:
  assumes inv: "lease_inv db" "step_inv db" and ok: "transitionStepTx runID key tok input now db = Ok (x, db', evs)"
  shows "tx_step db evs db' \<and> step_inv db' \<and> steps_follow db db'"
proof -
  obtain current stepID db1 row ev db2 where
    cur: "latest_step runID key db = Some current"
    and can: "CanTransitionStep (s_status current) (in_State input)"
    and w: "write_step input now current db = Ok (stepID, db1)"
    and app: "appendEventTx now runID (s_id row) EventStepState ''status'' [] (step_event_data (scanRunStep row)) db1 = Ok (ev, db2)"
    and db': "evs = [ev]" "db' = set_last_seq (\<lambda>s. s_id s = s_id row) (ev_Seq ev) db2"
    by (rule transitionStepTx_Ok [OF ok])
  note ap = appendEventTx_Ok [OF app, THEN conjunct1]
  note fr = appended_frame [OF ap]
  have c: "current \<in> set (deploy_steps db)" using latest_step_Some [OF cur] by simp
  note wi = write_step_inv [OF inv(2) w c can]
  have "steps_ok db db1" using wi by (simp add: steps_ok_def)
  also have "steps_ok db1 db2" using fr by (intro steps_ok_cong) simp_all
  also have "steps_ok db2 db'" unfolding db' by (rule set_last_seq_ok)
  finally have "step_inv db' \<and> steps_follow db db'" using inv(2) by (simp add: steps_ok_def)
  moreover have "tx_step db evs db'"
    by (rule tx_step_same [OF inv(1)])
       (use wi fr appended_logged [OF ap] in \<open>simp_all add: db' set_last_seq_def\<close>)
  ultimately show ?thesis by simp
qed

interpretation step: fenced_operation "\<lambda>runID tok. transitionStepTx runID key tok input" for key input
  by unfold_locales (auto elim!: transitionStepTx_Ok intro: assertLeaseTx_holds)

end
