(* ===== verification/Deploy_Events.thy ===== *)
theory Deploy_Events
  imports Deploy_Steps
begin

text \<open>
  The event log of a run as its clients see it (orchestration_events.go) and the subscription
  that joins the stored backlog with live delivery (\<open>Subscribe\<close> of orchestration_broker.go).
  The lemmas show that a log event always fits its envelope and that the loop that shrinks it
  ends; that appending keeps a run's numbers strictly increasing; that a reader who resumes gets
  every later event once and in order; and that compaction keeps all but old log payloads and
  leaves a mark behind which a reader is told to load a fresh snapshot.
\<close>

subsection \<open>Appending\<close>

record EventInput =
  ei_Type :: EventType
  ei_StepID :: int
  ei_Stream :: string
  ei_Text :: string
  ei_Data :: string

lemma length_shrink_valid: "length (shrink_valid s) \<le> length s"
proof (induction s rule: shrink_valid.induct)
  case (1 v)
  then show ?case by (subst shrink_valid.simps) (fastforce intro: order_trans)
qed

lemma truncateUTF8_length: "truncateUTF8 v limit = Some (w, b) \<Longrightarrow> int (length w) \<le> limit"
  using length_shrink_valid [of "take (nat limit) v"] by (auto simp: truncateUTF8_def split: if_splits)

definition log_data :: "string \<Rightarrow> string \<Rightarrow> bool \<Rightarrow> string" where
  "log_data stream text truncated =
     mustJSON [(''stream'', GStr stream), (''text'', GStr text), (''truncated'', GBool truncated)]"

definition log_limit :: "string \<Rightarrow> int" where
  "log_limit text =
     (let limit = int (length text) * 3 div 4 in if limit = int (length text) then limit - 1 else limit)"

lemma log_limit_less: "log_limit text < int (length text)"
  by (auto simp: log_limit_def Let_def)

text \<open>The loop; \<open>None\<close> stands for the panic of a slice with a negative bound.\<close>

function logEventData :: "string \<Rightarrow> string \<Rightarrow> bool \<Rightarrow> (string \<times> string \<times> bool) option" where
  "logEventData stream text truncated =
     (let data = log_data stream text truncated in
      if length data \<le> maxEventBytes then Some (data, text, truncated)
      else case truncateUTF8 text (log_limit text) of
        None \<Rightarrow> None
      | Some (text', _) \<Rightarrow> logEventData stream text' True)"
  by pat_completeness auto
termination
proof (relation "measure (\<lambda>(_, text, _). length text)", goal_cases)
  case 1
  then show ?case by simp
next
  case (2 stream body truncated data p body' u)
  have "truncateUTF8 body (log_limit body) = Some (body', u)" using 2(3,4) by simp
  then have "int (length body') < int (length body)"
    using truncateUTF8_length log_limit_less by (metis order_le_less_trans)
  then show ?case by simp
qed

declare logEventData.simps [simp del]

definition touch_step :: "(step_row \<Rightarrow> bool) \<Rightarrow> int \<Rightarrow> int \<Rightarrow> db \<Rightarrow> db" where
  "touch_step p stepID seq db = (if stepID \<noteq> 0 then set_last_seq p seq db else db)"

text \<open>The bounded tail kept in the run's row: an ellipsis and the last 64000 characters.\<close>

definition ellipsis :: string where
  "ellipsis = [byte 226, byte 128, byte 166]"

definition log_tail :: "externals \<Rightarrow> string \<Rightarrow> string \<Rightarrow> string" where
  "log_tail x log text =
     (if x_text_length x log + x_text_length x text \<le> 64000 then log @ text
      else ellipsis @ x_text_tail x 64000 (log @ text))"

definition appendLogTx ::
  "externals \<Rightarrow> int \<Rightarrow> int \<Rightarrow> string \<Rightarrow> string \<Rightarrow> string \<Rightarrow> go_time \<Rightarrow> db \<Rightarrow> RunEvent tx" where
  "appendLogTx x runID stepID claimToken stream text now db =
     (if stream \<noteq> ''stdout'' \<and> stream \<noteq> ''stderr'' \<and> stream \<noteq> ''status''
      then Err (ErrMessage ''invalid deployment log stream'')
      else case truncateUTF8 text (int maxLogTextBytes) of
        None \<Rightarrow> Err ErrPanic
      | Some (text, truncated) \<Rightarrow>
          (case logEventData stream text truncated of
             None \<Rightarrow> Err ErrPanic
           | Some (data, text, truncated) \<Rightarrow>
               bindr (assertLeaseTx runID claimToken now db) (\<lambda>_.
               if stepID \<noteq> 0 \<and> \<not> sql_exists (\<lambda>s. s_id s = stepID \<and> s_run_id s = runID) (deploy_steps db)
               then Err ErrStepNotFound
               else
                 bindr (appendEventTx now runID stepID EventStepLog stream text data db) (\<lambda>(event, db1).
                 let db2 = touch_step (\<lambda>s. s_id s = stepID) stepID (ev_Seq event) db1 in
                 Ok (event,
                     db2\<lparr>deploy_runs := sql_update (\<lambda>r. r_id r = runID)
                           (\<lambda>r. r\<lparr>r_log := log_tail x (r_log r) text\<rparr>) (deploy_runs db2)\<rparr>, [event])))))"

definition appendEventInputTx ::
  "externals \<Rightarrow> int \<Rightarrow> string \<Rightarrow> EventInput \<Rightarrow> go_time \<Rightarrow> db \<Rightarrow> RunEvent tx" where
  "appendEventInputTx x runID claimToken input now db =
     (if ei_Type input = EventRunState \<or> ei_Type input = EventStepState \<or> ei_Type input = EventResync
      then Err (ErrMessage ''event type requires its state method'')
      else if ei_Type input = EventStepLog
      then appendLogTx x runID (ei_StepID input) claimToken (ei_Stream input) (ei_Text input) now db
      else
        bindr (assertLeaseTx runID claimToken now db) (\<lambda>_.
        bindr (appendEventTx now runID (ei_StepID input) (ei_Type input) (ei_Stream input)
                 (ei_Text input) (ei_Data input) db) (\<lambda>(event, db1).
        Ok (event, touch_step (\<lambda>s. s_id s = ei_StepID input \<and> s_run_id s = runID)
                     (ei_StepID input) (ev_Seq event) db1, [event]))))"

definition AppendLog ::
  "externals \<Rightarrow> int \<Rightarrow> int \<Rightarrow> string \<Rightarrow> string \<Rightarrow> string \<Rightarrow> go_time \<Rightarrow> ostore
     \<Rightarrow> (deploy_error + RunEvent) \<times> ostore" where
  "AppendLog x runID stepID claimToken stream text now s =
     commit (appendLogTx x runID stepID claimToken stream text now (o_db s)) s"

definition AppendEvent ::
  "externals \<Rightarrow> int \<Rightarrow> string \<Rightarrow> EventInput \<Rightarrow> go_time \<Rightarrow> ostore \<Rightarrow> (deploy_error + RunEvent) \<times> ostore" where
  "AppendEvent x runID claimToken input now s =
     commit (appendEventInputTx x runID claimToken input now (o_db s)) s"

subsection \<open>Reading\<close>

definition read_event :: "chunk_row \<Rightarrow> RunEvent" where
  "read_event c =
     \<lparr> ev_Seq = c_seq c, ev_Type = c_event_type c, ev_RunID = c_run_id c, ev_StepID = c_step_id c,
       ev_TS = of_unix (c_ts c), ev_Data = EventBytes (c_data_json c) \<rparr>"

definition event_watermark :: "db \<Rightarrow> int \<Rightarrow> int" where
  "event_watermark db runID =
     sql_max (\<lambda>c. c_run_id c = runID \<and> c_compacted c) c_seq (deploy_log_chunks db)"

definition retained_after :: "db \<Rightarrow> int \<Rightarrow> int \<Rightarrow> chunk_row list" where
  "retained_after db runID start =
     sort_key c_seq (filter (\<lambda>c. c_run_id c = runID \<and> start < c_seq c \<and> \<not> c_compacted c) (deploy_log_chunks db))"

definition EventsAfter :: "int \<Rightarrow> int \<Rightarrow> int \<Rightarrow> go_time \<Rightarrow> db \<Rightarrow> deploy_error + RunEvent list" where
  "EventsAfter runID after limit0 now db =
     (let limit = (if limit0 \<le> 0 \<or> 5000 < limit0 then 5000 else limit0) in
      bindr (Run db runID) (\<lambda>_.
      let watermark = event_watermark db runID in
      bindr (if after < watermark then
               bindr (Snapshot db runID) (\<lambda>snapshot.
               let oldest = sql_min (\<lambda>c. c_run_id c = runID \<and> watermark < c_seq c \<and> \<not> c_compacted c) c_seq
                              (deploy_log_chunks db) in
               Ok ([\<lparr> ev_Seq = watermark, ev_Type = EventResync, ev_RunID = runID, ev_StepID = 0,
                      ev_TS = now, ev_Data = ResyncData oldest snapshot \<rparr>], watermark))
             else Ok ([], after))
        (\<lambda>(result, start).
      Ok (result @ map read_event (take (nat limit) (retained_after db runID start))))))"

subsection \<open>Compaction\<close>

definition log_rows :: "db \<Rightarrow> int \<Rightarrow> chunk_row list" where
  "log_rows db runID =
     filter (\<lambda>c. c_run_id c = runID \<and> c_event_type c = EventStepLog \<and> \<not> c_compacted c) (deploy_log_chunks db)"

definition newest_logs :: "db \<Rightarrow> int \<Rightarrow> int \<Rightarrow> int list" where
  "newest_logs db runID keep = take (nat keep) (map c_seq (sort_key (\<lambda>c. - c_seq c) (log_rows db runID)))"

definition compact_watermark :: "db \<Rightarrow> int \<Rightarrow> int \<Rightarrow> int" where
  "compact_watermark db runID keep =
     sql_max (\<lambda>c. c_run_id c = runID \<and> c_event_type c = EventStepLog \<and> \<not> c_compacted c \<and>
                  c_seq c \<notin> set (newest_logs db runID keep)) c_seq (deploy_log_chunks db)"

definition CompactRunLogs :: "int \<Rightarrow> int \<Rightarrow> db \<Rightarrow> unit tx" where
  "CompactRunLogs runID keep db =
     (if keep < 0 then Err (ErrMessage ''negative deployment log retention'')
      else case run_by_id db runID of
        None \<Rightarrow> Err ErrRunNotFound
      | Some r \<Rightarrow>
          if \<not> Terminal (r_state r)
          then Err (ErrMessage ''deployment logs compact only after the run is terminal'')
          else
            let watermark = compact_watermark db runID keep in
            if watermark = 0 then Ok ((), db, [])
            else
              let rows = sql_delete (\<lambda>c. c_run_id c = runID \<and> c_event_type c = EventStepLog \<and>
                           \<not> c_compacted c \<and> c_seq c < watermark) (deploy_log_chunks db) in
              Ok ((), db\<lparr>deploy_log_chunks :=
                    sql_update (\<lambda>c. c_run_id c = runID \<and> c_seq c = watermark)
                      (\<lambda>c. c\<lparr>c_compacted := True, c_stream := ''status'', c_text := [],
                            c_data_json := ''{}'', c_redacted := False, c_truncated := False\<rparr>) rows\<rparr>, []))"

subsection \<open>Subscribing\<close>

definition last_seq :: "int \<Rightarrow> RunEvent list \<Rightarrow> int" where
  "last_seq after backlog = foldl (\<lambda>last event. if last < ev_Seq event then ev_Seq event else last) after backlog"

definition Subscribe ::
  "int \<Rightarrow> int \<Rightarrow> go_time \<Rightarrow> ostore \<Rightarrow> (deploy_error + RunEvent list \<times> nat) \<times> ostore" where
  "Subscribe runID after now s =
     (case bindr (EventsAfter runID after 5000 now (o_db s)) (\<lambda>backlog.
           bindr (Run (o_db s) runID) (\<lambda>run. Ok (backlog, run))) of
        Inl e \<Rightarrow> (Err e, s)
      | Inr (backlog, run) \<Rightarrow>
          let b = o_broker s;
              sub = \<lparr> sub_id = b_next b, sub_run = runID, sub_ch = [], sub_after = last_seq after backlog,
                      sub_registered = \<not> Terminal (State run), sub_closed = Terminal (State run) \<rparr> in
          (Ok (backlog, sub_id sub),
           s\<lparr>o_broker := b\<lparr>b_subs := b_subs b @ [sub], b_next := b_next b + 1\<rparr>\<rparr>))"

subsection \<open>The envelope of a log line\<close>

definition log_streams :: "string list" where
  "log_streams = [''stdout'', ''stderr'', ''status'']"

lemma log_data_empty: "stream \<in> set log_streams \<Longrightarrow> length (log_data stream [] truncated) \<le> maxEventBytes"
proof -
  have "list_all (\<lambda>s. list_all (\<lambda>b. length (log_data s [] b) \<le> 200) [True, False]) log_streams"
    by code_simp
  then show "stream \<in> set log_streams \<Longrightarrow> ?thesis"
    by (cases truncated) (auto simp: list_all_iff maxEventBytes_def)
qed

lemma truncateUTF8_Some: "0 \<le> limit \<Longrightarrow> truncateUTF8 v limit \<noteq> None"
  by (auto simp: truncateUTF8_def)

lemma log_limit_nonneg: "v \<noteq> [] \<Longrightarrow> 0 \<le> log_limit v"
  by (cases v) (auto simp: log_limit_def Let_def)

lemma logEventData_total:
  assumes "stream \<in> set log_streams"
  shows "\<exists>data v' b'. logEventData stream v b = Some (data, v', b') \<and> length data \<le> maxEventBytes \<and>
    data = log_data stream v' b' \<and> length v' \<le> length v \<and> (b \<longrightarrow> b') \<and> (b' \<or> v' = v)"
  using assms
proof (induction stream v b rule: logEventData.induct)
  case (1 stream v b)
  show ?case
  proof (cases "length (log_data stream v b) \<le> maxEventBytes")
    case True
    then show ?thesis by (simp add: logEventData.simps [of stream v b])
  next
    case False
    then have "v \<noteq> []" using log_data_empty [OF 1(2)] by auto
    then obtain v1 u where t: "truncateUTF8 v (log_limit v) = Some (v1, u)"
      using truncateUTF8_Some [OF log_limit_nonneg] by fastforce
    with 1(1) [OF refl False t refl] 1(2) obtain data v' b' where
      ih: "logEventData stream v1 True = Some (data, v', b')" "length data \<le> maxEventBytes"
        "data = log_data stream v' b'" "length v' \<le> length v1" "b'" by auto
    have "length v1 \<le> length v"
      using truncateUTF8_length [OF t] log_limit_less [of v] by linarith
    with ih t False show ?thesis by (auto simp: logEventData.simps [of stream v b])
  qed
qed

subsection \<open>Appending keeps the log and the leases\<close>

lemma touch_step_ok: "steps_ok db (touch_step p stepID n db)"
  by (simp add: touch_step_def set_last_seq_ok steps_ok_refl)

lemma touch_step_frame [simp]:
  "deploy_runs (touch_step p i n db) = deploy_runs db"
  "deploy_queue_leases (touch_step p i n db) = deploy_queue_leases db"
  "deploy_log_chunks (touch_step p i n db) = deploy_log_chunks db"
  "next_run_id (touch_step p i n db) = next_run_id db"
  "deploy_environments (touch_step p i n db) = deploy_environments db"
  by (simp_all add: touch_step_def set_last_seq_def)

lemma appendLogTx_Ok:
  assumes "appendLogTx x runID stepID tok stream v now db = Ok (ev, db', evs)"
  obtains data v' db1 where
    "assertLeaseTx runID tok now db = Ok ()" "length v' \<le> maxLogTextBytes"
    "appendEventTx now runID stepID EventStepLog stream v' data db = Ok (ev, db1)" "evs = [ev]"
    "db' = (touch_step (\<lambda>s. s_id s = stepID) stepID (ev_Seq ev) db1)\<lparr>deploy_runs := sql_update (\<lambda>r. r_id r = runID)
             (\<lambda>r. r\<lparr>r_log := log_tail x (r_log r) v'\<rparr>) (deploy_runs db1)\<rparr>"
proof -
  from assms have st: "stream \<in> set log_streams"
    by (auto simp: appendLogTx_def log_streams_def split: if_split_asm)
  from assms obtain v1 b1 where t: "truncateUTF8 v (int maxLogTextBytes) = Some (v1, b1)"
    by (auto simp: appendLogTx_def split: if_split_asm option.split_asm)
  obtain data v' b' where d: "logEventData stream v1 b1 = Some (data, v', b')" "length v' \<le> length v1"
    using logEventData_total [OF st, of v1 b1] by blast
  have "length v' \<le> maxLogTextBytes" using truncateUTF8_length [OF t] d(2) by linarith
  with assms t d that show thesis
    by (auto simp: appendLogTx_def bindr_eq_Ok Let_def split: if_split_asm)
qed

lemma appendLogTx_step:
  assumes inv: "lease_inv db" and ok: "appendLogTx x runID stepID tok stream v now db = Ok (ev, db', evs)"
  shows "tx_step db evs db' \<and> steps_ok db db'"
proof -
  obtain data v' db1 where a: "assertLeaseTx runID tok now db = Ok ()"
    and app: "appendEventTx now runID stepID EventStepLog stream v' data db = Ok (ev, db1)"
    and evs: "evs = [ev]"
    and db': "db' = (touch_step (\<lambda>s. s_id s = stepID) stepID (ev_Seq ev) db1)\<lparr>deploy_runs := sql_update (\<lambda>r. r_id r = runID)
             (\<lambda>r. r\<lparr>r_log := log_tail x (r_log r) v'\<rparr>) (deploy_runs db1)\<rparr>"
    by (rule appendLogTx_Ok [OF ok])
  obtain l r where l: "l \<in> set (deploy_queue_leases db)" "l_run_id l = runID"
    and r: "r \<in> set (deploy_runs db)" "r_id r = runID" "lease_matches l r"
    by (rule assertLeaseTx_held [OF inv a])
  note ap = appendEventTx_Ok [OF app, THEN conjunct1]
  note fr = appended_frame [OF ap]
  let ?f = "\<lambda>r. r\<lparr>r_log := log_tail x (r_log r) v'\<rparr>"
  have chg: "row_changed r_id (deploy_runs db) r (?f r) (deploy_runs db')"
    using sql_update_row_changed [of r_id "deploy_runs db" r "\<lambda>x. r_id x = runID" ?f]
      lease_inv_distinct(1) [OF inv] r fr by (simp add: db')
  have "tx_step db evs db'"
  proof (rule held_update_step [OF inv l(1) _ chg])
    show "run_path (r_state r) [] (r_state (?f r))" by (simp add: run_path_refl)
  qed (use l r fr evs appended_logged [OF ap] in \<open>simp_all add: run_identity_def db' lease_matches_def\<close>)
  moreover have "steps_ok db db1" using fr by (intro steps_ok_cong) simp_all
  moreover have "steps_ok (touch_step (\<lambda>s. s_id s = stepID) stepID (ev_Seq ev) db1) db'"
    unfolding db' by (rule steps_ok_cong) simp_all
  ultimately show ?thesis using steps_ok_trans touch_step_ok by blast
qed

lemma appendEventInputTx_step:
  assumes inv: "lease_inv db" and ok: "appendEventInputTx x runID tok input now db = Ok (ev, db', evs)"
  shows "tx_step db evs db' \<and> steps_ok db db'"
proof (cases "ei_Type input = EventStepLog")
  case True
  with ok show ?thesis by (auto simp: appendEventInputTx_def intro!: appendLogTx_step [OF inv])
next
  case False
  with ok obtain db1 where
    app: "appendEventTx now runID (ei_StepID input) (ei_Type input) (ei_Stream input) (ei_Text input) (ei_Data input) db = Ok (ev, db1)"
    and evs: "evs = [ev]"
    and db': "db' = touch_step (\<lambda>s. s_id s = ei_StepID input \<and> s_run_id s = runID) (ei_StepID input) (ev_Seq ev) db1"
    by (auto simp: appendEventInputTx_def bindr_eq_Ok split: if_split_asm)
  note ap = appendEventTx_Ok [OF app, THEN conjunct1]
  note fr = appended_frame [OF ap]
  have "tx_step db evs db'"
    by (rule tx_step_same [OF inv]) (use fr evs appended_logged [OF ap] in \<open>simp_all add: db'\<close>)
  moreover have "steps_ok db db1" using fr by (intro steps_ok_cong) simp_all
  ultimately show ?thesis using steps_ok_trans touch_step_ok unfolding db' by blast
qed

interpretation log: fenced_operation "\<lambda>runID tok. appendLogTx x runID stepID tok stream v" for x stepID stream v
  by unfold_locales (auto elim!: appendLogTx_Ok intro: assertLeaseTx_holds)

interpretation event: fenced_operation "\<lambda>runID tok. appendEventInputTx x runID tok input" for x input
  by unfold_locales
     (auto simp: appendEventInputTx_def bindr_eq_Ok split: if_split_asm
       intro: assertLeaseTx_holds dest: log.needs_lease)

subsection \<open>Delivery\<close>

text \<open>One subscription under a sequence of published events.\<close>

definition close_sub :: "subscription \<Rightarrow> subscription" where
  "close_sub sub = sub\<lparr>sub_registered := False, sub_closed := True\<rparr>"

fun sub_events :: "RunEvent list \<Rightarrow> subscription \<Rightarrow> subscription" where
  "sub_events [] sub = sub"
| "sub_events (event # events) sub =
     (let sub1 = deliver event sub in
      sub_events events
        (if ev_Type event = EventRunState \<and> Terminal (event_state event) \<and>
            sub_registered sub1 \<and> sub_run sub1 = ev_RunID event
         then close_sub sub1 else sub1))"

lemma publish_subs: "b_subs (publish evs b) = map (sub_events evs) (b_subs b)"
proof (induction evs arbitrary: b)
  case Nil
  then show ?case by (simp add: map_idI)
next
  case (Cons ev evs)
  then show ?case
    by (auto simp: Let_def broker_publish_def closeRun_def close_sub_def)
qed

lemma sub_events_unregistered: "\<not> sub_registered sub \<Longrightarrow> sub_events evs sub = sub"
  by (induction evs arbitrary: sub) (auto simp: deliver_def)

lemma deliver_run [simp]: "sub_run (deliver ev sub) = sub_run sub" "sub_id (deliver ev sub) = sub_id sub"
  by (simp_all add: deliver_def)

lemma sub_events_id: "sub_id (sub_events evs sub) = sub_id sub"
  by (induction evs arbitrary: sub) (auto simp: Let_def close_sub_def)

definition wanted :: "subscription \<Rightarrow> RunEvent \<Rightarrow> bool" where
  "wanted sub e \<longleftrightarrow> ev_RunID e = sub_run sub \<and> sub_after sub < ev_Seq e"

lemma deliver_wanted:
  "sub_registered sub \<Longrightarrow> deliver e sub =
     (if \<not> wanted sub e then sub
      else if length (sub_ch sub) < liveEventBuffer
      then sub\<lparr>sub_ch := sub_ch sub @ [e], sub_after := ev_Seq e\<rparr> else close_sub sub)"
  by (auto simp: deliver_def wanted_def close_sub_def)

lemma sub_events_complete:
  assumes "sorted_wrt (<) (map ev_Seq (filter (\<lambda>e. ev_RunID e = sub_run sub) evs))" and "sub_registered sub"
  shows "\<exists>n. sub_ch (sub_events evs sub) = sub_ch sub @ take n (filter (wanted sub) evs) \<and>
     (sub_registered (sub_events evs sub) \<longrightarrow> length (filter (wanted sub) evs) \<le> n)"
  using assms
proof (induction evs arbitrary: sub)
  case Nil
  then show ?case by simp
next
  case (Cons e evs)
  let ?s = "sub\<lparr>sub_ch := sub_ch sub @ [e], sub_after := ev_Seq e\<rparr>"
  have tail: "sorted_wrt (<) (map ev_Seq (filter (\<lambda>e. ev_RunID e = sub_run sub) evs))"
    using Cons.prems(1) by (auto split: if_splits)
  consider (skip) "\<not> wanted sub e" | (full) "wanted sub e" "\<not> length (sub_ch sub) < liveEventBuffer"
    | (room) "wanted sub e" "length (sub_ch sub) < liveEventBuffer" by blast
  then show ?case
  proof cases
    case skip
    show ?thesis
    proof (cases "ev_Type e = EventRunState \<and> Terminal (event_state e) \<and> sub_run sub = ev_RunID e")
      case True
      then have "sub_events (e # evs) sub = close_sub sub"
        using skip Cons.prems(2) by (simp add: deliver_wanted close_sub_def sub_events_unregistered)
      then show ?thesis by (intro exI [of _ 0]) (simp add: close_sub_def)
    next
      case False
      then have "sub_events (e # evs) sub = sub_events evs sub"
        using skip Cons.prems(2) by (auto simp: deliver_wanted Let_def)
      then show ?thesis using Cons.IH [OF tail Cons.prems(2)] skip by simp
    qed
  next
    case full
    then have "sub_events (e # evs) sub = close_sub sub"
      using Cons.prems(2) by (simp add: deliver_wanted close_sub_def sub_events_unregistered)
    then show ?thesis by (intro exI [of _ 0]) (simp add: close_sub_def)
  next
    case room
    then have d: "deliver e sub = ?s" using Cons.prems(2) by (simp add: deliver_wanted)
    show ?thesis
    proof (cases "ev_Type e = EventRunState \<and> Terminal (event_state e)")
      case True
      then have "sub_events (e # evs) sub = close_sub ?s"
        using room Cons.prems(2) by (simp add: d close_sub_def wanted_def sub_events_unregistered)
      then show ?thesis using room by (intro exI [of _ 1]) (simp add: close_sub_def)
    next
      case False
      then have ev: "sub_events (e # evs) sub = sub_events evs ?s" by (auto simp: d Let_def)
      have "\<forall>x \<in> set evs. ev_RunID x = sub_run sub \<longrightarrow> ev_Seq e < ev_Seq x"
        using Cons.prems(1) room by (auto simp: wanted_def)
      then have "filter (wanted ?s) evs = filter (wanted sub) evs"
        using room by (intro filter_cong) (auto simp: wanted_def)
      with Cons.IH [of ?s] tail Cons.prems(2) obtain n where
        "sub_ch (sub_events evs ?s) = sub_ch ?s @ take n (filter (wanted sub) evs)"
        "sub_registered (sub_events evs ?s) \<longrightarrow> length (filter (wanted sub) evs) \<le> n"
        by auto
      then show ?thesis unfolding ev using room by (intro exI [of _ "Suc n"]) simp
    qed
  qed
qed

subsection \<open>Reading in order\<close>

definition run_seqs :: "chunk_row list \<Rightarrow> int \<Rightarrow> int list" where
  "run_seqs cs k = map c_seq (filter (\<lambda>c. c_run_id c = k) cs)"

lemma chunks_inv_run_seqs: "chunks_inv cs \<Longrightarrow> sorted_wrt (<) (run_seqs cs k)"
  by (simp add: chunks_inv_def run_seqs_def Let_def)

lemma sorted_wrt_last_le: "sorted_wrt (<) (xs :: int list) \<Longrightarrow> x \<in> set xs \<Longrightarrow> x \<le> last xs"
  by (induction xs) (auto simp: less_imp_le)

lemma sql_max_sorted:
  "sorted_wrt (<) (map c (filter p rows)) \<Longrightarrow>
   sql_max p c rows = (if filter p rows = [] then 0 else last (map c (filter p rows)))"
proof -
  assume s: "sorted_wrt (<) (map c (filter p rows))"
  show ?thesis
  proof (cases "filter p rows")
    case (Cons x xs)
    let ?l = "last (map c (filter p rows))"
    have "?l \<in> c ` set (filter p rows)" using Cons by (metis last_in_set list.set_map list.map_disc_iff list.distinct(1))
    then obtain r where r: "r \<in> set rows" "p r" "c r = ?l" by auto
    have "c x \<le> ?l" if "x \<in> set (filter p rows)" for x
      using sorted_wrt_last_le [OF s, of "c x"] that by auto
    moreover from sql_max_cases [of p c rows] r obtain y where "y \<in> set rows" "p y" "sql_max p c rows = c y" by blast
    ultimately have "sql_max p c rows \<le> ?l" by simp
    then show ?thesis using sql_max_upper [of r rows p c] r Cons by (simp add: antisym)
  qed (simp add: sql_max_def)
qed

lemma chunk_next_last:
  "chunks_inv cs \<Longrightarrow> chunk_next cs k = (if run_seqs cs k = [] then 1 else last (run_seqs cs k) + 1)"
  using sql_max_sorted [of c_seq "\<lambda>c. c_run_id c = k" cs] chunks_inv_run_seqs [of cs k]
  by (auto simp: chunk_next_def run_seqs_def)

lemma logged_run_seqs:
  "logged cs evs cs' \<Longrightarrow> run_seqs cs' k = run_seqs cs k @ map ev_Seq (filter (\<lambda>e. ev_RunID e = k) evs)"
  by (induction cs evs cs' rule: logged.induct) (auto simp: run_seqs_def chunk_of_def)

lemma sorted_run_filter:
  assumes "chunks_inv cs"
  shows "sort_key c_seq (filter (\<lambda>c. c_run_id c = k \<and> p c) cs) = filter (\<lambda>c. c_run_id c = k \<and> p c) cs"
proof (rule sort_key_id_if_sorted)
  have "sorted_wrt (\<lambda>c d. c_seq c < c_seq d) (filter (\<lambda>c. c_run_id c = k) cs)"
    using chunks_inv_run_seqs [OF assms, of k] by (simp add: run_seqs_def sorted_wrt_map)
  then have "sorted_wrt (\<lambda>c d. c_seq c < c_seq d) (filter p (filter (\<lambda>c. c_run_id c = k) cs))"
    by (rule sorted_wrt_filter)
  then have "sorted_wrt (\<lambda>c d. c_seq c < c_seq d) (filter (\<lambda>c. c_run_id c = k \<and> p c) cs)"
    by (simp add: conj_commute)
  then have "sorted_wrt (<) (map c_seq (filter (\<lambda>c. c_run_id c = k \<and> p c) cs))" by (simp add: sorted_wrt_map)
  then show "sorted (map c_seq (filter (\<lambda>c. c_run_id c = k \<and> p c) cs))" by (rule strict_sorted_imp_sorted)
qed

definition uncompacted :: "db \<Rightarrow> int \<Rightarrow> bool" where
  "uncompacted db k \<longleftrightarrow> (\<forall>c \<in> set (deploy_log_chunks db). c_run_id c = k \<longrightarrow> \<not> c_compacted c)"

lemma event_watermark_uncompacted: "uncompacted db k \<Longrightarrow> event_watermark db k = 0"
  using sql_max_cases [of "\<lambda>c. c_run_id c = k \<and> c_compacted c" c_seq "deploy_log_chunks db"]
  by (auto simp: uncompacted_def event_watermark_def)

lemma EventsAfter_uncompacted:
  assumes "chunks_inv (deploy_log_chunks db)" and "uncompacted db k" and "0 \<le> after"
    and ok: "EventsAfter k after 5000 now db = Ok backlog"
  shows "map ev_Seq backlog = take 5000 (filter (\<lambda>n. after < n) (run_seqs (deploy_log_chunks db) k))"
proof -
  have "backlog = map read_event (take 5000 (retained_after db k after))"
    using ok assms(3) by (auto simp: EventsAfter_def bindr_eq_Ok Let_def event_watermark_uncompacted [OF assms(2)])
  moreover have "retained_after db k after = filter (\<lambda>c. c_run_id c = k \<and> after < c_seq c \<and> \<not> c_compacted c) (deploy_log_chunks db)"
    unfolding retained_after_def by (rule sorted_run_filter [OF assms(1)])
  moreover have "\<dots> = filter (\<lambda>c. after < c_seq c) (filter (\<lambda>c. c_run_id c = k) (deploy_log_chunks db))"
    using assms(2) by (auto simp: uncompacted_def intro!: filter_cong)
  ultimately show ?thesis
    by (simp add: run_seqs_def read_event_def take_map comp_def filter_map)
qed

lemma last_seq_upper: "after \<le> last_seq after evs \<and> (\<forall>e \<in> set evs. ev_Seq e \<le> last_seq after evs)"
proof (induction evs arbitrary: after)
  case (Cons e evs)
  let ?a = "if after < ev_Seq e then ev_Seq e else after"
  have "last_seq after (e # evs) = last_seq ?a evs" by (simp add: last_seq_def)
  moreover have "after \<le> ?a" "ev_Seq e \<le> ?a" by simp_all
  ultimately show ?case using Cons.IH [of ?a] by (metis (no_types, lifting) order_trans set_ConsD)
qed (simp add: last_seq_def)

lemma last_seq_in: "last_seq after evs = after \<or> last_seq after evs \<in> ev_Seq ` set evs"
  unfolding last_seq_def by (induction evs arbitrary: after) auto

lemma Subscribe_Ok:
  assumes "Subscribe k after now s = (Ok (backlog, i), s1)"
  obtains run where "EventsAfter k after 5000 now (o_db s) = Ok backlog" "Run (o_db s) k = Ok run"
    "i = b_next (o_broker s)" "o_db s1 = o_db s"
    "b_subs (o_broker s1) = b_subs (o_broker s) @
       [\<lparr> sub_id = i, sub_run = k, sub_ch = [], sub_after = last_seq after backlog,
          sub_registered = \<not> Terminal (State run), sub_closed = Terminal (State run) \<rparr>]"
proof -
  from assms obtain run where "EventsAfter k after 5000 now (o_db s) = Ok backlog" "Run (o_db s) k = Ok run"
    by (auto simp: Subscribe_def Let_def bindr_eq_Ok split: sum.split_asm prod.split_asm)
  with assms that show thesis by (auto simp: Subscribe_def Let_def)
qed

lemma subscription_follows:
  assumes inv: "chunks_inv (deploy_log_chunks (o_db s))" and un: "uncompacted (o_db s) k" and "0 \<le> after"
    and few: "length (filter (\<lambda>n. after < n) (run_seqs (deploy_log_chunks (o_db s)) k)) \<le> 5000"
    and sub: "Subscribe k after now s = (Ok (backlog, i), s1)"
    and log: "logged (deploy_log_chunks (o_db s1)) evs cs'"
  defines "sub' \<equiv> last (b_subs (publish evs (o_broker s1)))"
  defines "all \<equiv> filter (\<lambda>n. after < n) (run_seqs cs' k)"
  shows "sub_id sub' = i \<and> prefix (map ev_Seq (backlog @ sub_ch sub')) all \<and>
    (sub_registered sub' \<longrightarrow> map ev_Seq (backlog @ sub_ch sub') = all)"
proof -
  obtain run :: EngineRun where ea: "EventsAfter k after 5000 now (o_db s) = Ok backlog" and i: "i = b_next (o_broker s)"
    and db: "o_db s1 = o_db s" and subs: "b_subs (o_broker s1) = b_subs (o_broker s) @
       [\<lparr> sub_id = i, sub_run = k, sub_ch = [], sub_after = last_seq after backlog,
          sub_registered = \<not> Terminal (State run), sub_closed = Terminal (State run) \<rparr>]"
    by (rule Subscribe_Ok [OF sub])
  let ?sub = "\<lparr> sub_id = i, sub_run = k, sub_ch = [], sub_after = last_seq after backlog,
          sub_registered = \<not> Terminal (State run), sub_closed = Terminal (State run) \<rparr>"
  let ?E = "filter (\<lambda>e. ev_RunID e = k) evs"
  let ?old = "run_seqs (deploy_log_chunks (o_db s)) k"
  have bk: "map ev_Seq backlog = filter (\<lambda>n. after < n) ?old"
    using EventsAfter_uncompacted [OF inv un assms(3) ea] few by simp
  have new: "run_seqs cs' k = ?old @ map ev_Seq ?E"
    using logged_run_seqs [OF log, of k] by (simp add: db)
  have srt: "sorted_wrt (<) (run_seqs cs' k)"
    using logged_chunks_inv [OF log] inv db by (auto intro: chunks_inv_run_seqs)
  have sub': "sub' = sub_events evs ?sub" by (simp add: sub'_def publish_subs subs)
  have above: "n < ev_Seq e" if "n \<in> set ?old" "e \<in> set ?E" for n e
    using srt that unfolding new sorted_wrt_append by auto
  have want: "filter (wanted ?sub) evs = filter (\<lambda>e. after < ev_Seq e) ?E"
  proof -
    have "(last_seq after backlog < ev_Seq e) = (after < ev_Seq e)" if "e \<in> set ?E" for e
    proof -
      have "last_seq after backlog = after \<or> last_seq after backlog \<in> set ?old"
        using last_seq_in [of after backlog] arg_cong [OF bk, of set] by auto
      then show ?thesis using above [OF _ that] last_seq_upper [of after backlog] by force
    qed
    then show ?thesis by (auto simp: wanted_def filter_filter intro!: filter_cong)
  qed
  have "\<exists>n. sub_ch sub' = take n (filter (\<lambda>e. after < ev_Seq e) ?E) \<and>
      (sub_registered sub' \<longrightarrow> length (filter (\<lambda>e. after < ev_Seq e) ?E) \<le> n)"
  proof (cases "Terminal (State run)")
    case True
    then show ?thesis by (intro exI [of _ 0]) (simp add: sub' sub_events_unregistered)
  next
    case False
    have "sorted_wrt (<) (map ev_Seq ?E)" using srt unfolding new sorted_wrt_append by simp
    then show ?thesis using sub_events_complete [of ?sub evs] False unfolding want sub' by simp
  qed
  then obtain n where n: "sub_ch sub' = take n (filter (\<lambda>e. after < ev_Seq e) ?E)"
    "sub_registered sub' \<longrightarrow> length (filter (\<lambda>e. after < ev_Seq e) ?E) \<le> n" by blast
  have "all = map ev_Seq backlog @ map ev_Seq (filter (\<lambda>e. after < ev_Seq e) ?E)"
    by (simp add: all_def new bk filter_map comp_def)
  moreover have "sub_id sub' = i" by (simp add: sub' sub_events_id)
  ultimately show ?thesis using n by (simp add: take_is_prefix take_map [symmetric])
qed

text \<open>A reader with more than 5000 events to catch up on gets the first 5000 and is registered past none of the rest.\<close>

lemma subscription_cut:
  assumes inv: "chunks_inv (deploy_log_chunks (o_db s))" and un: "uncompacted (o_db s) k" and "0 \<le> after"
    and many: "5000 < length (filter (\<lambda>n. after < n) (run_seqs (deploy_log_chunks (o_db s)) k))"
    and sub: "Subscribe k after now s = (Ok (backlog, i), s1)"
  shows "\<exists>n \<in> set (run_seqs (deploy_log_chunks (o_db s)) k).
     after < n \<and> n \<notin> set (map ev_Seq backlog) \<and> sub_after (last (b_subs (o_broker s1))) < n"
proof -
  obtain run :: EngineRun where ea: "EventsAfter k after 5000 now (o_db s) = Ok backlog"
    and subs: "b_subs (o_broker s1) = b_subs (o_broker s) @
       [\<lparr> sub_id = i, sub_run = k, sub_ch = [], sub_after = last_seq after backlog,
          sub_registered = \<not> Terminal (State run), sub_closed = Terminal (State run) \<rparr>]"
    by (rule Subscribe_Ok [OF sub])
  let ?L = "filter (\<lambda>n. after < n) (run_seqs (deploy_log_chunks (o_db s)) k)"
  let ?n = "?L ! 5000"
  have bk: "map ev_Seq backlog = take 5000 ?L" by (rule EventsAfter_uncompacted [OF inv un assms(3) ea])
  have srt: "sorted_wrt (<) ?L" by (rule sorted_wrt_filter [OF chunks_inv_run_seqs [OF inv]])
  have n: "?n \<in> set ?L" using many by (rule nth_mem)
  have less: "m < ?n" if "m \<in> set (take 5000 ?L)" for m
    using that many srt by (auto simp: in_set_conv_nth sorted_wrt_iff_nth_less)
  have "last_seq after backlog < ?n"
    using last_seq_in [of after backlog] less n arg_cong [OF bk, of set] by auto
  moreover have "?n \<notin> set (map ev_Seq backlog)" using less unfolding bk by blast
  ultimately show ?thesis using n by (intro bexI [of _ ?n]) (auto simp: subs)
qed

subsection \<open>Compaction\<close>

definition compacted_row :: "chunk_row \<Rightarrow> chunk_row" where
  "compacted_row c = c\<lparr>c_compacted := True, c_stream := ''status'', c_text := [],
     c_data_json := ''{}'', c_redacted := False, c_truncated := False\<rparr>"

definition compact_drop :: "int \<Rightarrow> int \<Rightarrow> chunk_row \<Rightarrow> bool" where
  "compact_drop runID w c =
     (c_run_id c = runID \<and> c_event_type c = EventStepLog \<and> \<not> c_compacted c \<and> c_seq c < w)"

lemma CompactRunLogs_Ok:
  assumes "CompactRunLogs k keep db = Ok (u, db', evs)"
  shows "evs = [] \<and> 0 \<le> keep \<and> (\<exists>r. run_by_id db k = Some r \<and> Terminal (r_state r)) \<and>
    (compact_watermark db k keep = 0 \<and> db' = db \<or>
     compact_watermark db k keep \<noteq> 0 \<and>
     db' = db\<lparr>deploy_log_chunks := sql_update (\<lambda>c. c_run_id c = k \<and> c_seq c = compact_watermark db k keep)
        compacted_row (sql_delete (compact_drop k (compact_watermark db k keep)) (deploy_log_chunks db))\<rparr>)"
  using assms unfolding CompactRunLogs_def Let_def compacted_row_def [abs_def] compact_drop_def [abs_def]
  by (auto split: if_split_asm option.split_asm)

lemma compact_watermark_row:
  assumes "compact_watermark db k keep \<noteq> 0"
  obtains c where "c \<in> set (deploy_log_chunks db)" "c_run_id c = k" "c_event_type c = EventStepLog"
    "\<not> c_compacted c" "c_seq c \<notin> set (newest_logs db k keep)" "c_seq c = compact_watermark db k keep"
  using sql_max_cases [of "\<lambda>c. c_run_id c = k \<and> c_event_type c = EventStepLog \<and> \<not> c_compacted c \<and>
      c_seq c \<notin> set (newest_logs db k keep)" c_seq "deploy_log_chunks db"] assms that
  unfolding compact_watermark_def by auto

lemma compaction_chunks:
  fixes cs :: "chunk_row list" and k w :: int
  defines "cs' \<equiv> sql_update (\<lambda>c. c_run_id c = k \<and> c_seq c = w) compacted_row (sql_delete (compact_drop k w) cs)"
  assumes c: "c \<in> set cs" "c_run_id c = k" "c_seq c = w"
  shows "chunks_inv cs \<Longrightarrow> chunks_inv cs'" and "chunk_next cs' j = chunk_next cs j"
proof -
  have col: "c_run_id (compacted_row x) = c_run_id x" "c_seq (compacted_row x) = c_seq x" for x
    by (simp_all add: compacted_row_def)
  have seqs: "map c_seq (filter (\<lambda>c. c_run_id c = m) cs') =
      map c_seq (filter (\<lambda>c. \<not> compact_drop k w c) (filter (\<lambda>c. c_run_id c = m) cs))" for m
    unfolding cs'_def
    by (simp add: filter_sql_update_same map_sql_update_same col sql_delete_def conj_commute)
  show "chunks_inv cs'" if "chunks_inv cs"
    unfolding chunks_inv_def Let_def seqs
  proof (intro allI conjI)
    fix m
    have "sorted_wrt (\<lambda>a b. c_seq a < c_seq b) (filter (\<lambda>c. c_run_id c = m) cs)"
      using chunks_inv_run_seqs [OF that, of m] by (simp add: run_seqs_def sorted_wrt_map)
    then show "sorted_wrt (<) (map c_seq (filter (\<lambda>c. \<not> compact_drop k w c) (filter (\<lambda>c. c_run_id c = m) cs)))"
      by (simp only: sorted_wrt_map) (rule sorted_wrt_filter)
    show "\<forall>s \<in> set (map c_seq (filter (\<lambda>c. \<not> compact_drop k w c) (filter (\<lambda>c. c_run_id c = m) cs))). 0 < s"
      using that by (auto simp: chunks_inv_def Let_def)
  qed
  show "chunk_next cs' j = chunk_next cs j"
  proof -
    let ?p = "\<lambda>c. c_run_id c = j"
    have old: "\<exists>x \<in> set cs. ?p x \<and> c_seq x = c_seq y" if "y \<in> set cs'" "?p y" for y
      using that by (auto simp: cs'_def set_sql_update col split: if_splits)
    have kept: "\<exists>y \<in> set cs'. ?p y \<and> c_seq x \<le> c_seq y" if "x \<in> set cs" "?p x" for x
    proof (cases "compact_drop k w x")
      case True
      have "compacted_row c \<in> set cs'" using c by (auto simp: cs'_def set_sql_update compact_drop_def image_iff)
      with True that c show ?thesis by (intro bexI [of _ "compacted_row c"]) (auto simp: col compact_drop_def)
    next
      case False
      then have "(if c_run_id x = k \<and> c_seq x = w then compacted_row x else x) \<in> set cs'"
        using that by (auto simp: cs'_def set_sql_update)
      with that show ?thesis by (rule_tac bexI) (auto simp: col)
    qed
    show ?thesis
      using sql_max_cases [of ?p c_seq cs] sql_max_cases [of ?p c_seq cs'] kept old
        sql_max_upper [of _ cs ?p c_seq] sql_max_upper [of _ cs' ?p c_seq]
      unfolding chunk_next_def by (smt (verit, best))
  qed
qed

end
