(* ===== verification/Deploy_Activation.thy ===== *)
theory Deploy_Activation
  imports Deploy_Events
begin

text \<open>
  Activation of a release (activation_store.go): the runtime that belongs to a candidate release,
  the compare-and-swap of an environment's live release, the retirement of its predecessor and
  the port leases of candidates. All of it is fenced by the queue lease except the return of a port
  lease, which is guarded by its own token.
  A release row holds the columns these statements read or write; creating a release is the
  concern of release_store.go.
  The lemmas show that an environment has exactly the live release its pointer names, before and
  after an activation, that a candidate whose predecessor is no longer live is refused, and that no
  two unexpired leases share a port.
\<close>

subsection \<open>Runtimes\<close>

record ReleaseRuntime =
  rr_ReleaseID :: int
  rr_EnvironmentID :: int
  rr_Kind :: string
  rr_RuntimeID :: string
  rr_Name :: string
  rr_WorkingDirectory :: string
  rr_Host :: string
  rr_Port :: int
  rr_State :: string
  rr_Metadata :: string
  rr_CreatedAt :: go_time
  rr_UpdatedAt :: go_time

definition scanReleaseRuntime :: "runtime_row \<Rightarrow> ReleaseRuntime" where
  "scanReleaseRuntime r =
     \<lparr> rr_ReleaseID = rt_release_id r, rr_EnvironmentID = rt_environment_id r, rr_Kind = rt_kind r,
       rr_RuntimeID = rt_runtime_id r, rr_Name = rt_name r,
       rr_WorkingDirectory = rt_working_directory r, rr_Host = rt_host r, rr_Port = rt_port r,
       rr_State = rt_state r, rr_Metadata = validRawJSON (rt_metadata_json r),
       rr_CreatedAt = of_unix (rt_created_at r), rr_UpdatedAt = of_unix (rt_updated_at r) \<rparr>"

record ReleaseRuntimeInput =
  ri_ReleaseID :: int
  ri_Kind :: string
  ri_RuntimeID :: string
  ri_Name :: string
  ri_WorkingDirectory :: string
  ri_Host :: string
  ri_Port :: int
  ri_Metadata :: string

definition release_by_id :: "db \<Rightarrow> int \<Rightarrow> release_row option" where
  "release_by_id db releaseID = find (\<lambda>r. rel_id r = releaseID) (deploy_releases db)"

definition runtime_by_release :: "db \<Rightarrow> int \<Rightarrow> runtime_row option" where
  "runtime_by_release db releaseID = find (\<lambda>r. rt_release_id r = releaseID) (deploy_release_runtimes db)"

definition env_by_id :: "db \<Rightarrow> int \<Rightarrow> env_row option" where
  "env_by_id db environmentID = find (\<lambda>e. e_id e = environmentID) (deploy_environments db)"

definition RuntimeForRelease :: "db \<Rightarrow> int \<Rightarrow> deploy_error + ReleaseRuntime" where
  "RuntimeForRelease db releaseID =
     (case runtime_by_release db releaseID of
        None \<Rightarrow> Err ErrArtifactMissing
      | Some r \<Rightarrow> Ok (scanReleaseRuntime r))"

definition runtime_input_invalid :: "ReleaseRuntimeInput \<Rightarrow> bool" where
  "runtime_input_invalid input =
     (ri_ReleaseID input \<le> 0 \<or> (ri_Kind input \<noteq> ''container'' \<and> ri_Kind input \<noteq> ''compose'') \<or>
      ri_RuntimeID input = [] \<or> ri_Port input < 0 \<or> 65535 < ri_Port input \<or>
      maxEventBytes < length (ri_Metadata input) \<or>
      (ri_Metadata input \<noteq> [] \<and> \<not> json_valid (ri_Metadata input)))"

definition same_runtime :: "ReleaseRuntime \<Rightarrow> ReleaseRuntimeInput \<Rightarrow> bool" where
  "same_runtime existing input =
     (rr_Kind existing = ri_Kind input \<and> rr_RuntimeID existing = ri_RuntimeID input \<and>
      rr_Name existing = ri_Name input \<and> rr_WorkingDirectory existing = ri_WorkingDirectory input \<and>
      rr_Host existing = ri_Host input \<and> rr_Port existing = ri_Port input \<and>
      rr_Metadata existing = ri_Metadata input)"

definition RecordCandidateRuntime ::
  "EngineRun \<Rightarrow> string \<Rightarrow> ReleaseRuntimeInput \<Rightarrow> go_time \<Rightarrow> db \<Rightarrow> ReleaseRuntime tx" where
  "RecordCandidateRuntime run claimToken input now db =
     (if runtime_input_invalid input
      then Err (ErrInvalidPlan ''candidate runtime identity is invalid'')
      else
        let input = (if ri_Metadata input = [] then input\<lparr>ri_Metadata := ''{}''\<rparr> else input) in
        bindr (assertLeaseTx (ID run) claimToken now db) (\<lambda>_.
        case release_by_id db (ri_ReleaseID input) of
          None \<Rightarrow> Err ErrArtifactMissing
        | Some rel \<Rightarrow>
            if rel_run_id rel \<noteq> ID run \<or> rel_environment_id rel \<noteq> EnvironmentID run \<or>
               rel_state rel \<noteq> ''candidate''
            then Err (ErrInvalidPlan ''runtime does not belong to this candidate release'')
            else case runtime_by_release db (ri_ReleaseID input) of
              Some row \<Rightarrow>
                if \<not> same_runtime (scanReleaseRuntime row) input
                then Err (ErrInvalidPlan ''candidate release already names another runtime'')
                else Ok (scanReleaseRuntime row, db, [])
            | None \<Rightarrow>
                let row = \<lparr> rt_release_id = ri_ReleaseID input, rt_environment_id = EnvironmentID run,
                            rt_kind = ri_Kind input, rt_runtime_id = ri_RuntimeID input,
                            rt_name = ri_Name input, rt_working_directory = ri_WorkingDirectory input,
                            rt_host = ri_Host input, rt_port = ri_Port input, rt_state = ''candidate'',
                            rt_metadata_json = ri_Metadata input, rt_created_at = unix now,
                            rt_updated_at = unix now \<rparr> in
                Ok (scanReleaseRuntime row,
                    db\<lparr>deploy_release_runtimes := deploy_release_runtimes db @ [row]\<rparr>, [])))"

definition runtime_states :: "string list" where
  "runtime_states = [''candidate'', ''ready'', ''live'', ''draining'', ''stopped'', ''retired'', ''failed'']"

definition SetRuntimeState :: "int \<Rightarrow> string \<Rightarrow> int \<Rightarrow> string \<Rightarrow> go_time \<Rightarrow> db \<Rightarrow> unit tx" where
  "SetRuntimeState runID claimToken releaseID state now db =
     (if state \<notin> set runtime_states then Err (ErrMessage ''invalid release runtime state'')
      else
        bindr (assertLeaseTx runID claimToken now db) (\<lambda>_.
        let p = (\<lambda>r. rt_release_id r = releaseID) in
        if sql_count p (deploy_release_runtimes db) \<noteq> 1 then Err ErrArtifactMissing
        else Ok ((), db\<lparr>deploy_release_runtimes := sql_update p
               (\<lambda>r. r\<lparr>rt_state := state, rt_updated_at := unix now\<rparr>) (deploy_release_runtimes db)\<rparr>, [])))"

subsection \<open>The live release\<close>

definition LiveRelease :: "int \<Rightarrow> db \<Rightarrow> deploy_error + release_row" where
  "LiveRelease environmentID db =
     (case env_by_id db environmentID of
        None \<Rightarrow> Err ErrEnvironmentNotFound
      | Some e \<Rightarrow>
          if e_live_release_id e = 0 then Err ErrArtifactMissing
          else case release_by_id db (e_live_release_id e) of
            None \<Rightarrow> Err ErrArtifactMissing
          | Some r \<Rightarrow> Ok r)"

definition set_run_release :: "int \<Rightarrow> int \<Rightarrow> db \<Rightarrow> db" where
  "set_run_release runID releaseID db =
     db\<lparr>deploy_runs := sql_update (\<lambda>r. r_id r = runID) (\<lambda>r. r\<lparr>r_release_id := releaseID\<rparr>) (deploy_runs db)\<rparr>"

definition LinkRunToLiveRelease :: "int \<Rightarrow> string \<Rightarrow> int \<Rightarrow> go_time \<Rightarrow> db \<Rightarrow> unit tx" where
  "LinkRunToLiveRelease runID claimToken releaseID now db =
     bindr (assertLeaseTx runID claimToken now db) (\<lambda>_.
     case run_by_id db runID of
       None \<Rightarrow> Err (ErrMessage ''sql: no rows in result set'')
     | Some r \<Rightarrow>
         (case env_by_id db (r_environment_id r) of
            None \<Rightarrow> Err (ErrMessage ''sql: no rows in result set'')
          | Some e \<Rightarrow>
              if releaseID \<noteq> e_live_release_id e
              then Err (ErrInvalidPlan ''run target is no longer the live release'')
              else Ok ((), set_run_release runID releaseID db, [])))"

definition set_release :: "int \<Rightarrow> (release_row \<Rightarrow> release_row) \<Rightarrow> db \<Rightarrow> db" where
  "set_release releaseID f db =
     db\<lparr>deploy_releases := sql_update (\<lambda>r. rel_id r = releaseID) f (deploy_releases db)\<rparr>"

definition set_runtime :: "(runtime_row \<Rightarrow> bool) \<Rightarrow> string \<Rightarrow> go_time \<Rightarrow> db \<Rightarrow> db" where
  "set_runtime p state now db =
     db\<lparr>deploy_release_runtimes := sql_update p (\<lambda>r. r\<lparr>rt_state := state, rt_updated_at := unix now\<rparr>)
          (deploy_release_runtimes db)\<rparr>"

definition retain_previous :: "int \<Rightarrow> go_time \<Rightarrow> db \<Rightarrow> db" where
  "retain_previous liveReleaseID now db =
     (if liveReleaseID = 0 then db
      else set_runtime (\<lambda>r. rt_release_id r = liveReleaseID \<and> rt_state r \<in> {''live'', ''ready'', ''candidate''})
             ''draining'' now
             (set_release liveReleaseID (\<lambda>r. r\<lparr>rel_state := ''retained''\<rparr>) db))"

definition point_live :: "int \<Rightarrow> int \<Rightarrow> go_time \<Rightarrow> db \<Rightarrow> db" where
  "point_live environmentID releaseID now db =
     db\<lparr>deploy_environments := sql_update (\<lambda>e. e_id e = environmentID)
          (\<lambda>e. e\<lparr>e_live_release_id := releaseID, e_updated_at := unix now\<rparr>) (deploy_environments db)\<rparr>"

definition ActivateCandidate :: "int \<Rightarrow> string \<Rightarrow> int \<Rightarrow> go_time \<Rightarrow> db \<Rightarrow> release_row tx" where
  "ActivateCandidate runID claimToken releaseID now db =
     bindr (assertLeaseTx runID claimToken now db) (\<lambda>_.
     case release_by_id db releaseID of
       None \<Rightarrow> Err ErrArtifactMissing
     | Some candidate \<Rightarrow>
         if rel_run_id candidate \<noteq> runID \<or> rel_state candidate \<noteq> ''candidate''
         then Err (ErrInvalidPlan ''release is not this run's candidate'')
         else case env_by_id db (rel_environment_id candidate) of
           None \<Rightarrow> Err (ErrMessage ''sql: no rows in result set'')
         | Some e \<Rightarrow>
             let liveReleaseID = e_live_release_id e in
             if liveReleaseID \<noteq> rel_predecessor_release_id candidate
             then Err (ErrInvalidPlan ''live release changed after candidate creation'')
             else case runtime_by_release db releaseID of
               None \<Rightarrow> Err ErrArtifactMissing
             | Some rt \<Rightarrow>
                 if rt_state rt \<noteq> ''ready'' \<and> rt_state rt \<noteq> ''candidate''
                 then Err (ErrInvalidPlan ''candidate runtime is not ready'')
                 else
                   let db1 = retain_previous liveReleaseID now db;
                       db2 = set_release releaseID (\<lambda>r. r\<lparr>rel_state := ''live'', rel_activated_at := unix now\<rparr>) db1;
                       db3 = set_runtime (\<lambda>r. rt_release_id r = releaseID) ''live'' now db2;
                       db4 = point_live (rel_environment_id candidate) releaseID now db3;
                       db5 = set_run_release runID releaseID db4 in
                   (case release_by_id db5 releaseID of
                      None \<Rightarrow> Err (ErrMessage ''sql: no rows in result set'')
                    | Some activated \<Rightarrow> Ok (activated, db5, [])))"

definition MarkPreviousRetired :: "int \<Rightarrow> string \<Rightarrow> int \<Rightarrow> go_time \<Rightarrow> db \<Rightarrow> int tx" where
  "MarkPreviousRetired runID claimToken candidateReleaseID now db =
     bindr (assertLeaseTx runID claimToken now db) (\<lambda>_.
     case find (\<lambda>r. rel_id r = candidateReleaseID \<and> rel_run_id r = runID \<and> rel_state r = ''live'')
            (deploy_releases db) of
       None \<Rightarrow> Err ErrArtifactMissing
     | Some r \<Rightarrow>
         let predecessorID = rel_predecessor_release_id r in
         if predecessorID = 0 then Ok (0, db, [])
         else Ok (predecessorID,
                  set_runtime (\<lambda>r. rt_release_id r = predecessorID) ''retired'' now
                    (set_release predecessorID (\<lambda>r. r\<lparr>rel_retired_at := unix now\<rparr>) db), []))"

subsection \<open>Port leases\<close>

record PortLease =
  pl_ID :: int
  pl_EnvironmentID :: int
  pl_RunID :: int
  pl_Address :: string
  pl_Port :: int
  pl_Protocol :: string
  pl_Token :: string
  pl_ExpiresAt :: go_time

definition insert_port_lease :: "port_lease_row \<Rightarrow> db \<Rightarrow> deploy_error + int \<times> db" where
  "insert_port_lease l db =
     (if \<exists>x \<in> set (deploy_port_leases db). p_token x = p_token l
      then Err (ErrUniqueConstraint ''deploy_port_leases.token'')
      else if \<exists>x \<in> set (deploy_port_leases db).
                p_address x = p_address l \<and> p_port x = p_port l \<and> p_protocol x = p_protocol l
      then Err (ErrUniqueConstraint ''deploy_port_leases.address'')
      else if env_by_id db (p_environment_id l) = None then Err ErrForeignKey
      else Ok (next_port_lease_id db,
               db\<lparr>deploy_port_leases := deploy_port_leases db @ [l\<lparr>p_id := next_port_lease_id db\<rparr>],
                  next_port_lease_id := next_port_lease_id db + 1\<rparr>))"

text \<open>One attempt: \<open>port\<close> is the port the probing listener was bound to.\<close>

definition portLeaseTx ::
  "int \<Rightarrow> int \<Rightarrow> string \<Rightarrow> string \<Rightarrow> int \<Rightarrow> go_duration \<Rightarrow> go_time \<Rightarrow> string option \<Rightarrow> db \<Rightarrow> PortLease tx" where
  "portLeaseTx runID environmentID claimToken address port ttl now rnd db =
     bindr (assertLeaseTx runID claimToken now db) (\<lambda>_.
     let db1 = db\<lparr>deploy_port_leases := sql_delete (\<lambda>l. p_expires_at l < unix now) (deploy_port_leases db)\<rparr> in
     bindr (newClaimToken rnd) (\<lambda>token.
     let expires = now + ttl in
     bindr (insert_port_lease
              \<lparr> p_id = 0, p_environment_id = environmentID, p_run_id = runID, p_address = address,
                p_port = port, p_protocol = ''tcp'', p_token = token, p_expires_at = unix expires,
                p_created_at = unix now \<rparr> db1) (\<lambda>(leaseID, db2).
     Ok (\<lparr> pl_ID = leaseID, pl_EnvironmentID = environmentID, pl_RunID = runID, pl_Address = address,
           pl_Port = port, pl_Protocol = ''tcp'', pl_Token = token, pl_ExpiresAt = expires \<rparr>, db2, []))))"

text \<open>
  \<open>listen i\<close> is what the i-th \<open>net.Listen\<close> on the address gives: the bound port, or \<open>None\<close> when
  it fails; with a preferred port the system binds that one.
\<close>

fun port_attempts ::
  "nat \<Rightarrow> nat \<Rightarrow> int \<Rightarrow> int \<Rightarrow> string \<Rightarrow> string \<Rightarrow> int \<Rightarrow> go_duration \<Rightarrow> (nat \<Rightarrow> int option) \<Rightarrow> (nat \<Rightarrow> go_time)
     \<Rightarrow> (nat \<Rightarrow> string option) \<Rightarrow> db \<Rightarrow> PortLease tx" where
  "port_attempts 0 i runID environmentID claimToken address preferredPort ttl listen clock rand db = Err ErrPortUnavailable"
| "port_attempts (Suc n) i runID environmentID claimToken address preferredPort ttl listen clock rand db =
     (case listen i of
        None \<Rightarrow> Err ErrPortUnavailable
      | Some port \<Rightarrow>
          (case portLeaseTx runID environmentID claimToken address port ttl (clock i) (rand i) db of
             Inr x \<Rightarrow> Ok x
           | Inl e \<Rightarrow>
               if preferredPort \<noteq> 0 \<or> \<not> isUniqueConstraint e then Err e
               else port_attempts n (Suc i) runID environmentID claimToken address preferredPort ttl listen clock rand db))"

definition AcquirePortLease ::
  "int \<Rightarrow> int \<Rightarrow> string \<Rightarrow> string \<Rightarrow> int \<Rightarrow> go_duration \<Rightarrow> (nat \<Rightarrow> int option) \<Rightarrow> (nat \<Rightarrow> go_time)
     \<Rightarrow> (nat \<Rightarrow> string option) \<Rightarrow> db \<Rightarrow> PortLease tx" where
  "AcquirePortLease runID environmentID claimToken address0 preferredPort ttl0 listen clock rand db =
     (let address = (if address0 = [] then ''127.0.0.1'' else address0) in
      if address \<noteq> ''127.0.0.1'' \<and> address \<noteq> ''::1'' then Err ErrPortUnavailable
      else if preferredPort < 0 \<or> 65535 < preferredPort then Err ErrPortUnavailable
      else port_attempts 16 0 runID environmentID claimToken address preferredPort
             (if ttl0 \<le> 0 then 30 * minute else ttl0) listen clock rand db)"

text \<open>The deletion is a statement of its own: it has happened when the count is reported.\<close>

definition ReleasePortLease :: "int \<Rightarrow> string \<Rightarrow> db \<Rightarrow> (deploy_error + unit) \<times> db" where
  "ReleasePortLease runID token db =
     (if token = [] then (Ok (), db)
      else
        let p = (\<lambda>l. p_run_id l = runID \<and> p_token l = token);
            db' = db\<lparr>deploy_port_leases := sql_delete p (deploy_port_leases db)\<rparr> in
        (if 1 < sql_count p (deploy_port_leases db)
         then Err (ErrMessage ''multiple deployment port leases matched one token'') else Ok (), db'))"

subsection \<open>Fencing and frames\<close>

interpretation runtime_state: fenced_operation "\<lambda>runID tok. SetRuntimeState runID tok releaseID state" for releaseID state
  by unfold_locales (auto simp: SetRuntimeState_def bindr_eq_Ok split: if_split_asm intro: assertLeaseTx_holds)

interpretation link: fenced_operation "\<lambda>runID tok. LinkRunToLiveRelease runID tok releaseID" for releaseID
  by unfold_locales (auto simp: LinkRunToLiveRelease_def bindr_eq_Ok intro: assertLeaseTx_holds)

interpretation activate: fenced_operation "\<lambda>runID tok. ActivateCandidate runID tok releaseID" for releaseID
  by unfold_locales (auto simp: ActivateCandidate_def bindr_eq_Ok intro: assertLeaseTx_holds)

interpretation retire: fenced_operation "\<lambda>runID tok. MarkPreviousRetired runID tok releaseID" for releaseID
  by unfold_locales (auto simp: MarkPreviousRetired_def bindr_eq_Ok intro: assertLeaseTx_holds)

interpretation port: fenced_operation
  "\<lambda>runID tok now. portLeaseTx runID environmentID tok address p ttl now rnd" for environmentID address p ttl rnd
  by unfold_locales (auto simp: portLeaseTx_def bindr_eq_Ok intro: assertLeaseTx_holds)

lemmas activation_defs = retain_previous_def set_release_def set_runtime_def point_live_def set_run_release_def

lemma set_run_release_step:
  assumes inv: "lease_inv db" and a: "assertLeaseTx runID tok now db = Ok ()"
    and db': "deploy_runs db' = deploy_runs (set_run_release runID releaseID db)"
      "deploy_queue_leases db' = deploy_queue_leases db" "next_run_id db' = next_run_id db"
      "deploy_log_chunks db' = deploy_log_chunks db"
  shows "tx_step db [] db'"
proof -
  obtain l r where l: "l \<in> set (deploy_queue_leases db)" "l_run_id l = runID"
    and r: "r \<in> set (deploy_runs db)" "r_id r = runID" "lease_matches l r"
    by (rule assertLeaseTx_held [OF inv a])
  let ?f = "\<lambda>r. r\<lparr>r_release_id := releaseID\<rparr>"
  have chg: "row_changed r_id (deploy_runs db) r (?f r) (deploy_runs db')"
    using sql_update_row_changed [of r_id "deploy_runs db" r "\<lambda>x. r_id x = runID" ?f]
      lease_inv_distinct(1) [OF inv] r by (simp add: db' set_run_release_def)
  show ?thesis
  proof (rule held_update_step [OF inv l(1) _ chg])
    show "run_path (r_state r) [] (r_state (?f r))" by (simp add: run_path_refl)
  qed (use l r db' in \<open>simp_all add: run_identity_def lease_matches_def\<close>)
qed

lemma ActivateCandidate_Ok:
  assumes ok: "ActivateCandidate runID tok releaseID now db = Ok (rel, db', evs)"
  obtains c e rt where
    "assertLeaseTx runID tok now db = Ok ()" "evs = []" "release_by_id db releaseID = Some c"
    "rel_run_id c = runID" "rel_state c = ''candidate''" "env_by_id db (rel_environment_id c) = Some e"
    "e_live_release_id e = rel_predecessor_release_id c" "runtime_by_release db releaseID = Some rt"
    "rt_state rt = ''ready'' \<or> rt_state rt = ''candidate''"
    "db' = set_run_release runID releaseID (point_live (rel_environment_id c) releaseID now
       (set_runtime (\<lambda>r. rt_release_id r = releaseID) ''live'' now
         (set_release releaseID (\<lambda>r. r\<lparr>rel_state := ''live'', rel_activated_at := unix now\<rparr>)
           (retain_previous (e_live_release_id e) now db))))"
    "release_by_id db' releaseID = Some rel"
proof -
  from ok obtain c where c: "assertLeaseTx runID tok now db = Ok ()" "release_by_id db releaseID = Some c"
    by (auto simp: ActivateCandidate_def bindr_eq_Ok split: option.split_asm)
  with ok obtain e where e: "rel_run_id c = runID" "rel_state c = ''candidate''"
    "env_by_id db (rel_environment_id c) = Some e"
    by (auto simp: ActivateCandidate_def split: if_split_asm option.split_asm)
  with ok c obtain rt where rt: "e_live_release_id e = rel_predecessor_release_id c"
    "runtime_by_release db releaseID = Some rt" "rt_state rt = ''ready'' \<or> rt_state rt = ''candidate''"
    by (auto simp: ActivateCandidate_def Let_def split: if_split_asm option.split_asm)
  show thesis
    by (rule that [OF c(1) _ c(2) e rt]) (use ok c e rt in \<open>auto simp: ActivateCandidate_def Let_def split: option.split_asm\<close>)
qed

lemma ActivateCandidate_step:
  assumes inv: "lease_inv db" and ok: "ActivateCandidate runID tok releaseID now db = Ok (rel, db', evs)"
  shows "tx_step db evs db' \<and> steps_ok db db'"
proof -
  obtain c :: release_row and e :: env_row where a: "assertLeaseTx runID tok now db = Ok ()" and evs: "evs = []"
    and db': "db' = set_run_release runID releaseID (point_live (rel_environment_id c) releaseID now
       (set_runtime (\<lambda>r. rt_release_id r = releaseID) ''live'' now
         (set_release releaseID (\<lambda>r. r\<lparr>rel_state := ''live'', rel_activated_at := unix now\<rparr>)
           (retain_previous (e_live_release_id e) now db))))"
    by (rule ActivateCandidate_Ok [OF ok]) blast
  have "tx_step db [] db'"
    by (rule set_run_release_step [OF inv a, of _ releaseID]) (simp_all add: db' activation_defs)
  moreover have "steps_ok db db'" by (rule steps_ok_cong) (simp_all add: db' activation_defs)
  ultimately show ?thesis by (simp add: evs)
qed

lemma LinkRunToLiveRelease_step:
  assumes inv: "lease_inv db" and ok: "LinkRunToLiveRelease runID tok releaseID now db = Ok (u, db', evs)"
  shows "tx_step db evs db' \<and> steps_ok db db'"
proof -
  from ok have a: "assertLeaseTx runID tok now db = Ok ()" and db': "db' = set_run_release runID releaseID db" "evs = []"
    by (auto simp: LinkRunToLiveRelease_def bindr_eq_Ok split: option.split_asm if_split_asm)
  have "tx_step db [] db'"
    by (rule set_run_release_step [OF inv a, of _ releaseID]) (simp_all add: db' set_run_release_def)
  moreover have "steps_ok db db'" by (rule steps_ok_cong) (simp_all add: db' set_run_release_def)
  ultimately show ?thesis by (simp add: db')
qed

text \<open>The other operations touch neither runs, steps, leases nor the log.\<close>

lemma quiet_step:
  assumes "lease_inv db" and "deploy_runs db' = deploy_runs db" "deploy_queue_leases db' = deploy_queue_leases db"
    "deploy_log_chunks db' = deploy_log_chunks db" "deploy_steps db' = deploy_steps db"
    "next_run_id db' = next_run_id db" "next_step_id db' = next_step_id db"
  shows "tx_step db [] db' \<and> steps_ok db db'"
  using assms by (auto intro!: tx_step_same steps_ok_cong)

lemma RecordCandidateRuntime_step:
  "lease_inv db \<Longrightarrow> RecordCandidateRuntime run tok input now db = Ok (x, db', evs) \<Longrightarrow>
   evs = [] \<and> tx_step db evs db' \<and> steps_ok db db'"
  using quiet_step [of db db']
  by (auto simp: RecordCandidateRuntime_def bindr_eq_Ok Let_def split: if_split_asm option.split_asm)

lemma SetRuntimeState_step:
  "lease_inv db \<Longrightarrow> SetRuntimeState runID tok releaseID state now db = Ok (x, db', evs) \<Longrightarrow>
   evs = [] \<and> tx_step db evs db' \<and> steps_ok db db'"
  using quiet_step [of db db']
  by (auto simp: SetRuntimeState_def bindr_eq_Ok Let_def split: if_split_asm option.split_asm)

lemma MarkPreviousRetired_step:
  "lease_inv db \<Longrightarrow> MarkPreviousRetired runID tok releaseID now db = Ok (x, db', evs) \<Longrightarrow>
   evs = [] \<and> tx_step db evs db' \<and> steps_ok db db'"
  using quiet_step [of db db']
  by (auto simp: MarkPreviousRetired_def activation_defs bindr_eq_Ok Let_def split: if_split_asm option.split_asm)

lemma portLeaseTx_step:
  "lease_inv db \<Longrightarrow> portLeaseTx runID env tok address p ttl now rnd db = Ok (x, db', evs) \<Longrightarrow>
   evs = [] \<and> tx_step db evs db' \<and> steps_ok db db'"
  using quiet_step [of db db']
  by (auto simp: portLeaseTx_def insert_port_lease_def bindr_eq_Ok Let_def split: if_split_asm option.split_asm)

subsection \<open>One live release per environment\<close>

definition live_inv :: "db \<Rightarrow> bool" where
  "live_inv db \<longleftrightarrow>
     distinct (map rel_id (deploy_releases db)) \<and> distinct (map e_id (deploy_environments db)) \<and>
     (\<forall>r \<in> set (deploy_releases db). rel_id r \<noteq> 0) \<and>
     (\<forall>e \<in> set (deploy_environments db). e_live_release_id e \<noteq> 0 \<longrightarrow>
        (\<exists>r \<in> set (deploy_releases db). rel_id r = e_live_release_id e \<and>
           rel_environment_id r = e_id e \<and> rel_state r = ''live'')) \<and>
     (\<forall>r \<in> set (deploy_releases db). rel_state r = ''live'' \<longrightarrow>
        (\<exists>e \<in> set (deploy_environments db). e_id e = rel_environment_id r \<and> e_live_release_id e = rel_id r))"

lemma live_inv_unique:
  assumes "live_inv db" and "r \<in> set (deploy_releases db)" "r' \<in> set (deploy_releases db)"
    and "rel_state r = ''live''" "rel_state r' = ''live''" "rel_environment_id r = rel_environment_id r'"
  shows "r = r'"
proof -
  from assms obtain e e' where e: "e \<in> set (deploy_environments db)" "e_id e = rel_environment_id r" "e_live_release_id e = rel_id r"
    and e': "e' \<in> set (deploy_environments db)" "e_id e' = rel_environment_id r'" "e_live_release_id e' = rel_id r'"
    unfolding live_inv_def by meson
  have "e = e'" using distinct_map_key [of e_id "deploy_environments db" e' e] e e' assms(1,6) by (auto simp: live_inv_def)
  then show ?thesis using distinct_map_key [of rel_id "deploy_releases db" r' r] e e' assms by (auto simp: live_inv_def)
qed

lemma live_inv_cong:
  "live_inv db \<Longrightarrow> deploy_releases db' = deploy_releases db \<Longrightarrow> deploy_environments db' = deploy_environments db \<Longrightarrow>
   live_inv db'"
  by (simp add: live_inv_def)

text \<open>The tables after an activation, row by row.\<close>

definition activated_release :: "int \<Rightarrow> int \<Rightarrow> go_time \<Rightarrow> release_row \<Rightarrow> release_row" where
  "activated_release releaseID liveID now r =
     (if rel_id r = releaseID then r\<lparr>rel_state := ''live'', rel_activated_at := unix now\<rparr>
      else if liveID \<noteq> 0 \<and> rel_id r = liveID then r\<lparr>rel_state := ''retained''\<rparr> else r)"

definition activated_env :: "int \<Rightarrow> int \<Rightarrow> go_time \<Rightarrow> env_row \<Rightarrow> env_row" where
  "activated_env environmentID releaseID now e =
     (if e_id e = environmentID then e\<lparr>e_live_release_id := releaseID, e_updated_at := unix now\<rparr> else e)"

lemma ActivateCandidate_tables:
  assumes inv: "live_inv db" and ok: "ActivateCandidate runID tok releaseID now db = Ok (rel, db', evs)"
  obtains c e where "c \<in> set (deploy_releases db)" "rel_id c = releaseID" "rel_run_id c = runID"
    "rel_state c = ''candidate''" "e \<in> set (deploy_environments db)" "e_id e = rel_environment_id c"
    "e_live_release_id e = rel_predecessor_release_id c"
    "deploy_releases db' = map (activated_release releaseID (e_live_release_id e) now) (deploy_releases db)"
    "deploy_environments db' = map (activated_env (e_id e) releaseID now) (deploy_environments db)"
proof -
  obtain c :: release_row and e :: env_row where c: "release_by_id db releaseID = Some c" "rel_run_id c = runID" "rel_state c = ''candidate''"
    and e: "env_by_id db (rel_environment_id c) = Some e" "e_live_release_id e = rel_predecessor_release_id c"
    and db': "db' = set_run_release runID releaseID (point_live (rel_environment_id c) releaseID now
       (set_runtime (\<lambda>r. rt_release_id r = releaseID) ''live'' now
         (set_release releaseID (\<lambda>r. r\<lparr>rel_state := ''live'', rel_activated_at := unix now\<rparr>)
           (retain_previous (e_live_release_id e) now db))))"
    by (rule ActivateCandidate_Ok [OF ok]) blast
  have cin: "c \<in> set (deploy_releases db)" "rel_id c = releaseID"
    using find_Some_in [OF c(1) [unfolded release_by_id_def]] by simp_all
  have ein: "e \<in> set (deploy_environments db)" "e_id e = rel_environment_id c"
    using find_Some_in [OF e(1) [unfolded env_by_id_def]] by simp_all
  have diff: "e_live_release_id e \<noteq> releaseID"
  proof
    assume "e_live_release_id e = releaseID"
    with inv ein cin obtain r where "r \<in> set (deploy_releases db)" "rel_id r = releaseID" "rel_state r = ''live''"
      unfolding live_inv_def by metis
    then show False
      using distinct_map_key [of rel_id "deploy_releases db" c r] inv cin c(3) by (auto simp: live_inv_def)
  qed
  have "deploy_releases db' = map (activated_release releaseID (e_live_release_id e) now) (deploy_releases db)"
    using diff by (auto simp: db' activation_defs activated_release_def sql_update_def)
  moreover have "deploy_environments db' = map (activated_env (e_id e) releaseID now) (deploy_environments db)"
    using ein by (auto simp: db' activation_defs activated_env_def sql_update_def)
  ultimately show thesis using that [OF cin c(2,3) ein e(2)] by blast
qed

lemma ActivateCandidate_live_inv:
  assumes inv: "live_inv db" and ok: "ActivateCandidate runID tok releaseID now db = Ok (rel, db', evs)"
  shows "live_inv db'"
proof -
  obtain c :: release_row and e :: env_row where c: "c \<in> set (deploy_releases db)" "rel_id c = releaseID" "rel_state c = ''candidate''"
    and e: "e \<in> set (deploy_environments db)" "e_id e = rel_environment_id c"
    and rels: "deploy_releases db' = map (activated_release releaseID (e_live_release_id e) now) (deploy_releases db)"
    and envs: "deploy_environments db' = map (activated_env (e_id e) releaseID now) (deploy_environments db)"
    by (rule ActivateCandidate_tables [OF inv ok])
  let ?f = "activated_release releaseID (e_live_release_id e) now"
  let ?g = "activated_env (e_id e) releaseID now"
  have ids: "rel_id (?f r) = rel_id r" "rel_environment_id (?f r) = rel_environment_id r" "e_id (?g x) = e_id x" for r x
    by (simp_all add: activated_release_def activated_env_def)
  have ckey: "(rel_id r = releaseID) = (r = c)" if "r \<in> set (deploy_releases db)" for r
    using distinct_map_key [of rel_id "deploy_releases db" c r] inv c that by (auto simp: live_inv_def)
  have ekey: "(e_id x = e_id e) = (x = e)" if "x \<in> set (deploy_environments db)" for x
    using distinct_map_key [of e_id "deploy_environments db" e x] inv e that by (auto simp: live_inv_def)
  have env_side: "\<exists>r \<in> set (deploy_releases db'). rel_id r = e_live_release_id (?g x) \<and>
      rel_environment_id r = e_id (?g x) \<and> rel_state r = ''live''"
    if x: "x \<in> set (deploy_environments db)" "e_live_release_id (?g x) \<noteq> 0" for x
  proof (cases "x = e")
    case True
    moreover have "?f c \<in> set (deploy_releases db')" using c(1) by (simp add: rels)
    ultimately show ?thesis using c e
      by (intro bexI [of _ "?f c"]) (auto simp: activated_env_def activated_release_def)
  next
    case False
    then have gx: "?g x = x" using ekey [OF x(1)] by (simp add: activated_env_def)
    with x inv obtain r where r: "r \<in> set (deploy_releases db)" "rel_id r = e_live_release_id x"
      "rel_environment_id r = e_id x" "rel_state r = ''live''" unfolding live_inv_def by metis
    have "r \<noteq> c" using r c by auto
    moreover have "rel_id r \<noteq> e_live_release_id e \<or> e_live_release_id e = 0"
    proof (rule disjCI)
      assume "e_live_release_id e \<noteq> 0"
      with inv e obtain r' where r': "r' \<in> set (deploy_releases db)" "rel_id r' = e_live_release_id e"
        "rel_environment_id r' = e_id e" unfolding live_inv_def by metis
      show "rel_id r \<noteq> e_live_release_id e"
      proof
        assume "rel_id r = e_live_release_id e"
        then have "r = r'" using distinct_map_key [of rel_id "deploy_releases db" r' r] inv r r' by (auto simp: live_inv_def)
        with r r' ekey [OF x(1)] False show False by simp
      qed
    qed
    ultimately have "?f r = r" using ckey [OF r(1)] by (auto simp: activated_release_def)
    then have "r \<in> set (deploy_releases db')" using r(1) by (metis imageI list.set_map rels)
    with r gx show ?thesis by auto
  qed
  have rel_side: "\<exists>x \<in> set (deploy_environments db'). e_id x = rel_environment_id (?f r) \<and> e_live_release_id x = rel_id (?f r)"
    if r: "r \<in> set (deploy_releases db)" "rel_state (?f r) = ''live''" for r
  proof (cases "r = c")
    case True
    moreover have "?g e \<in> set (deploy_environments db')" using e(1) by (simp add: envs)
    ultimately show ?thesis using c e
      by (intro bexI [of _ "?g e"]) (auto simp: activated_env_def activated_release_def)
  next
    case False
    then have n: "rel_id r \<noteq> releaseID" using ckey [OF r(1)] by simp
    with r(2) have "rel_state r = ''live''" and nl: "\<not> (e_live_release_id e \<noteq> 0 \<and> rel_id r = e_live_release_id e)"
      by (auto simp: activated_release_def split: if_splits)
    with r(1) inv obtain x where x: "x \<in> set (deploy_environments db)" "e_id x = rel_environment_id r"
      "e_live_release_id x = rel_id r" unfolding live_inv_def by metis
    have "rel_id r \<noteq> 0" using inv r(1) by (simp add: live_inv_def)
    then have "x \<noteq> e" using nl x by auto
    then have "?g x = x" using ekey [OF x(1)] by (simp add: activated_env_def)
    then have "x \<in> set (deploy_environments db')" using x(1) by (metis imageI list.set_map envs)
    with x ids show ?thesis by auto
  qed
  have "rel_id \<circ> ?f = rel_id" "e_id \<circ> ?g = e_id" by (simp_all add: fun_eq_iff ids)
  then show ?thesis
    using inv env_side rel_side unfolding live_inv_def by (auto simp: rels envs ids)
qed

subsection \<open>Ports\<close>

definition port_inv :: "db \<Rightarrow> bool" where
  "port_inv db \<longleftrightarrow>
     distinct (map (\<lambda>l. (p_address l, p_port l, p_protocol l)) (deploy_port_leases db)) \<and>
     distinct (map p_token (deploy_port_leases db))"

lemma portLeaseTx_Ok:
  assumes "portLeaseTx runID env tok address p ttl now rnd db = Ok (x, db', evs)"
  obtains l where "p_address l = address" "p_port l = p" "p_run_id l = runID" "p_protocol l = ''tcp''"
    "p_token l = pl_Token x" "p_expires_at l = unix (now + ttl)" "pl_Port x = p" "pl_Address x = address"
    "deploy_port_leases db' = sql_delete (\<lambda>l. p_expires_at l < unix now) (deploy_port_leases db) @ [l]"
    "\<forall>y \<in> set (deploy_port_leases db). p_address y = address \<and> p_port y = p \<and> p_protocol y = ''tcp'' \<longrightarrow>
       p_expires_at y < unix now"
    "\<forall>y \<in> set (sql_delete (\<lambda>l. p_expires_at l < unix now) (deploy_port_leases db)). p_token y \<noteq> pl_Token x"
  using assms unfolding portLeaseTx_def insert_port_lease_def Let_def
  by (auto simp: bindr_eq_Ok split: if_split_asm) force

lemma portLeaseTx_port_inv:
  assumes "port_inv db" and "portLeaseTx runID env tok address p ttl now rnd db = Ok (x, db', evs)"
  shows "port_inv db'"
proof -
  obtain l where "p_address l = address" "p_port l = p" "p_protocol l = ''tcp''" "p_token l = pl_Token x"
    "deploy_port_leases db' = sql_delete (\<lambda>l. p_expires_at l < unix now) (deploy_port_leases db) @ [l]"
    "\<forall>y \<in> set (deploy_port_leases db). p_address y = address \<and> p_port y = p \<and> p_protocol y = ''tcp'' \<longrightarrow>
       p_expires_at y < unix now"
    "\<forall>y \<in> set (sql_delete (\<lambda>l. p_expires_at l < unix now) (deploy_port_leases db)). p_token y \<noteq> pl_Token x"
    by (rule portLeaseTx_Ok [OF assms(2)])
  with assms(1) show ?thesis by (auto simp: port_inv_def distinct_sql_delete)
qed

lemma port_attempts_Ok:
  "port_attempts n i runID env tok address preferred ttl listen clock rand db = Ok y \<Longrightarrow>
   \<exists>j p. listen j = Some p \<and> portLeaseTx runID env tok address p ttl (clock j) (rand j) db = Ok y"
  by (induction n arbitrary: i) (auto split: option.split_asm sum.split_asm if_split_asm)

lemma AcquirePortLease_Ok:
  assumes "AcquirePortLease runID env tok address preferred ttl listen clock rand db = Ok y"
  obtains j p a d where "listen j = Some p" "a \<in> {''127.0.0.1'', ''::1''}" "0 < d"
    "portLeaseTx runID env tok a p d (clock j) (rand j) db = Ok y"
proof -
  let ?a = "if address = [] then ''127.0.0.1'' else address"
  let ?d = "if ttl \<le> 0 then 30 * minute else ttl"
  from assms have a: "?a \<in> {''127.0.0.1'', ''::1''}"
    and p: "port_attempts 16 0 runID env tok ?a preferred ?d listen clock rand db = Ok y"
    by (auto simp: AcquirePortLease_def Let_def split: if_split_asm)
  have "0 < ?d" by (simp add: minute_def second_def)
  with port_attempts_Ok [OF p] a that show thesis by blast
qed

end
