(* ===== verification/Deploy_Machine.thy ===== *)
theory Deploy_Machine
  imports Deploy_Activation
begin

text \<open>
  The store as one machine: the invariant of all tables together, the contract every operation of
  the store meets (locale \<open>store_operation\<close>, interpreted for each of them), the step relation whose
  steps are the operations in any order and by any caller, and what holds in every reachable store.
\<close>

subsection \<open>The invariant of the store\<close>

definition store_inv :: "db \<Rightarrow> bool" where
  "store_inv db \<longleftrightarrow>
     lease_inv db \<and> idem_inv db \<and> chunks_inv (deploy_log_chunks db) \<and> step_inv db \<and> live_inv db \<and> port_inv db"

text \<open>From one store to a later one: the invariant holds on, runs and attempts only move forward.\<close>

definition store_ok :: "ostore \<Rightarrow> ostore \<Rightarrow> bool" where
  "store_ok s s' \<longleftrightarrow>
     (store_inv (o_db s) \<longrightarrow>
        store_inv (o_db s') \<and> runs_follow (o_db s) (o_db s') \<and> steps_follow (o_db s) (o_db s'))"

lemma store_ok_refl: "store_ok s s"
  by (simp add: store_ok_def runs_follow_refl steps_follow_refl)

lemma store_ok_trans [trans]: "store_ok s s' \<Longrightarrow> store_ok s' s'' \<Longrightarrow> store_ok s s''"
  unfolding store_ok_def by (meson runs_follow_trans steps_follow_trans)

text \<open>The parts of the tables that most operations leave alone.\<close>

definition side_tables :: "db \<Rightarrow> _" where
  "side_tables db = (deploy_releases db, deploy_environments db, deploy_port_leases db)"

lemma store_okI:
  assumes "lease_inv (o_db s) \<Longrightarrow> step_inv (o_db s) \<Longrightarrow> tx_step (o_db s) evs (o_db s') \<and> steps_ok (o_db s) (o_db s')"
    and "side_tables (o_db s') = side_tables (o_db s)"
  shows "store_ok s s'"
  using assms unfolding store_ok_def store_inv_def
  by (auto simp: tx_step_def steps_ok_def runs_follow_def side_tables_def live_inv_def port_inv_def
      dest: logged_chunks_inv)

subsection \<open>Frames of the queue's operations\<close>

lemma appended_tables:
  "appended k db ev db' \<Longrightarrow> deploy_steps db' = deploy_steps db \<and> next_step_id db' = next_step_id db \<and>
   next_run_id db' = next_run_id db \<and> side_tables db' = side_tables db"
  using appended_frame [of k db ev db' k] by (simp add: side_tables_def)

definition queue_frame :: "db \<Rightarrow> db \<Rightarrow> bool" where
  "queue_frame db db' \<longleftrightarrow>
     deploy_steps db' = deploy_steps db \<and> next_step_id db' = next_step_id db \<and>
     next_run_id db' = next_run_id db \<and> side_tables db' = side_tables db"

lemma queue_frame_steps_ok: "queue_frame db db' \<Longrightarrow> steps_ok db db'"
  by (auto simp: queue_frame_def intro: steps_ok_cong)

lemma queue_frame_append:
  "appendEventTx now k i ty st v d db1 = Ok (ev, db2) \<Longrightarrow> queue_frame db db1 \<Longrightarrow> queue_frame db db2"
  using appended_tables [OF appendEventTx_Ok [THEN conjunct1]] by (fastforce simp: queue_frame_def)

lemma queue_frame_update:
  "queue_frame db db' \<Longrightarrow> queue_frame db (db'\<lparr>deploy_runs := rs\<rparr>)"
  "queue_frame db db' \<Longrightarrow> queue_frame db (db'\<lparr>deploy_queue_leases := ls\<rparr>)"
  "queue_frame db db' \<Longrightarrow> queue_frame db (db'\<lparr>deploy_log_chunks := cs\<rparr>)"
  "queue_frame db db"
  by (simp_all add: queue_frame_def side_tables_def)

lemma claimNextOnce_frame:
  "claimNextOnce worker budget ttl now rnd db = Ok (q, db', evs) \<Longrightarrow> queue_frame db db'"
  unfolding claimNextOnce_def Let_def insert_lease_def newClaimToken_def
  by (auto simp: bindr_eq_Ok intro!: queue_frame_update elim!: queue_frame_append
      split: if_split_asm option.split_asm prod.split_asm)

lemma transitionRunTx_frame:
  "transitionRunTx runID tok to detail now db = Ok (x, db', evs) \<Longrightarrow> queue_frame db db'"
  unfolding transitionRunTx_def Let_def
  by (auto simp: bindr_eq_Ok intro!: queue_frame_update elim!: queue_frame_append
      split: if_split_asm option.split_asm prod.split_asm)

lemma requestCancellationTx_frame:
  "requestCancellationTx runID now db = Ok (x, db', evs) \<Longrightarrow> queue_frame db db'"
  unfolding requestCancellationTx_def Let_def
  by (auto simp: bindr_eq_Ok intro!: queue_frame_update elim!: queue_frame_append
      split: if_split_asm option.split_asm prod.split_asm)

lemma quiet_frames:
  "Heartbeat runID tok ttl now db = Ok (u, db', evs) \<Longrightarrow> queue_frame db db'"
  "SetRunCommits runID tok fc tc now db = Ok (u, db', evs) \<Longrightarrow> queue_frame db db'"
  "ReclaimExpiredLease expired worker ttl now rnd db = Ok (q, db', evs) \<Longrightarrow> queue_frame db db'"
  "CompactRunLogs runID keep db = Ok (u, db', evs) \<Longrightarrow> queue_frame db db'"
  by (auto simp: Heartbeat_def SetRunCommits_def ReclaimExpiredLease_def CompactRunLogs_def
      newClaimToken_def Let_def bindr_eq_Ok intro!: queue_frame_update split: if_split_asm option.split_asm)

subsection \<open>The tables after a request\<close>

lemma queue_frame_trans: "queue_frame db1 db2 \<Longrightarrow> queue_frame db2 db3 \<Longrightarrow> queue_frame db1 db3"
  by (simp add: queue_frame_def)

lemma setRunStateTx_frame: "queue_frame db db' \<Longrightarrow> queue_frame db (setRunStateTx k st now db')"
  by (simp add: setRunStateTx_def Let_def queue_frame_update)

lemma first_states_frame: "first_states k now sts db evs = Ok (db', evs') \<Longrightarrow> queue_frame db db'"
proof (induction k now sts db evs rule: first_states.induct)
  case (1 k now db evs)
  then show ?case by (auto intro: queue_frame_update)
next
  case (2 k now st sts db evs)
  let ?db1 = "if st \<noteq> RunRequested then setRunStateTx k st now db else db"
  from 2(2) obtain ev db2 where
    a: "appendEventTx now k 0 EventRunState ''status'' [] (mustJSON [(''state'', run_state_json st)]) ?db1 = Ok (ev, db2)"
    and r: "first_states k now sts db2 (evs @ [ev]) = Ok (db', evs')"
    by (auto simp: Let_def bindr_eq_Ok)
  have "queue_frame db ?db1" by (auto intro: setRunStateTx_frame queue_frame_update)
  then have "queue_frame db db2" by (rule queue_frame_append [OF a])
  moreover have "queue_frame db2 db'" by (rule 2(1) [OF refl r])
  ultimately show ?case by (rule queue_frame_trans)
qed

lemma supersede_each_frame:
  "supersede_each req newRunID kind now cs db events = Ok (db', events') \<Longrightarrow> queue_frame db db'"
proof (induction cs arbitrary: db events)
  case Nil
  then show ?case by (auto intro: queue_frame_update)
next
  case (Cons c cs)
  let ?p = "\<lambda>r. r_id r = r_id c \<and> r_state r = RunQueued"
  show ?case
  proof (cases "supersedable req kind c \<and> sql_count ?p (deploy_runs db) = 1")
    case False
    with Cons show ?thesis by (auto simp: Let_def split: if_split_asm)
  next
    case True
    with Cons.prems obtain rs ev db2 where
      a: "appendEventTx now (r_id c) 0 EventRunState ''status'' []
        (mustJSON [(''state'', run_state_json RunSuperseded), (''supersededBy'', GInt newRunID)])
        (db\<lparr>deploy_runs := rs\<rparr>) = Ok (ev, db2)"
      and r: "supersede_each req newRunID kind now cs db2 (events @ [ev]) = Ok (db', events')"
      by (auto simp: Let_def bindr_eq_Ok)
    have "queue_frame db db2" by (rule queue_frame_append [OF a]) (intro queue_frame_update)
    then show ?thesis using Cons.IH [OF r] by (rule queue_frame_trans)
  qed
qed

lemma supersedeEligibleTx_frame:
  "supersedeEligibleTx req newRunID kind now db events = Ok (db', events') \<Longrightarrow> queue_frame db db'"
  by (auto simp: supersedeEligibleTx_def split: if_split_asm dest: supersede_each_frame intro: queue_frame_update)

lemma enqueueTx_tables:
  assumes ok: "enqueueTx x req now db = Ok (run, db', evs)"
  shows "side_tables db' = side_tables db \<and> next_run_id db' = next_run_id db + 1 \<and>
    deploy_steps db' = deploy_steps db @ new_steps (next_step_id db) (next_run_id db) 0 (req_Steps req) \<and>
    next_step_id db' = next_step_id db + int (length (req_Steps req))"
proof -
  from ok obtain env where env: "find (\<lambda>e. e_id e = req_EnvironmentID req \<and> e_project_id e = req_ProjectID req \<and> e_archived_at e = 0)
             (deploy_environments db) = Some env"
    by (auto simp: enqueueTx_def split: option.splits)
  from ok env obtain i db1 db2 db3 db5 evs0 row where
    i: "insert_run req now db = Ok (i, db1)"
    and v: "snapshotRunVariablesTx x i (req_EnvironmentID req) (req_VariableSnapshotRunID req) now db1 = Ok db2"
    and pl: "snapshotRunPlanInputsTx x i (req_EnvironmentID req) (req_VariableSnapshotRunID req) now db2 = Ok db3"
    and f: "first_states i now [RunRequested, RunValidating, RunQueued] (insert_steps i 0 (req_Steps req) db3) [] = Ok (db5, evs0)"
    and s: "supersedeEligibleTx req i (e_kind env) now db5 evs0 = Ok (db', evs)"
    by (auto simp: enqueueTx_def Let_def bindr_eq_Ok simp del: first_states.simps split: option.split_asm)
  have "queue_frame (insert_steps i 0 (req_Steps req) db3) db'"
    using first_states_frame [OF f] supersedeEligibleTx_frame [OF s] by (rule queue_frame_trans)
  with insert_run_Ok [OF i] snapshotRunVariablesTx_Ok [OF v] snapshotRunPlanInputsTx_Ok [OF pl] show ?thesis
    by (auto simp: queue_frame_def insert_steps_eq side_tables_def)
qed

lemma steps_distinct_valid_distinct:
  "steps_distinct_valid seen keys \<Longrightarrow> distinct keys \<and> set keys \<inter> set seen = {} \<and> (\<forall>k \<in> set keys. validStepKey k)"
proof (induction keys arbitrary: seen)
  case (Cons key keys)
  then have "validStepKey key" "key \<notin> set seen" "steps_distinct_valid (key # seen) keys"
    by (auto split: if_split_asm)
  with Cons.IH [of "key # seen"] show ?case by auto
qed simp

lemma if_err: "(if c then Err e else x) = Ok y \<Longrightarrow> x = Ok y"
  by (simp split: if_split_asm)

lemma if_err_last: "(if \<not> c then Err e else Ok x) = Ok y \<Longrightarrow> c \<and> x = y"
  by (simp split: if_split_asm)

lemma normalizeRunRequest_steps:
  "normalizeRunRequest req = Ok req' \<Longrightarrow> distinct (req_Steps req') \<and> (\<forall>k \<in> set (req_Steps req'). validStepKey k)"
proof -
  assume n: "normalizeRunRequest req = Ok req'"
  note l = if_err_last [OF if_err [OF if_err [OF if_err [OF if_err [OF if_err [OF if_err [OF if_err [OF if_err
    [OF n [unfolded normalizeRunRequest_def Let_def]]]]]]]]]]
  have "steps_distinct_valid [] (req_Steps req')"
    using l [THEN conjunct1] unfolding l [THEN conjunct2] .
  then show ?thesis using steps_distinct_valid_distinct by blast
qed

lemma new_steps_facts:
  "map s_id (new_steps i k o' keys) = map (\<lambda>n. i + int n) [0 ..< length keys]"
  "map s_step_key (new_steps i k o' keys) = keys"
  "s \<in> set (new_steps i k o' keys) \<Longrightarrow> s_run_id s = k \<and> s_attempt s = 1 \<and> i \<le> s_id s \<and> s_id s < i + int (length keys)"
  by (auto simp: new_steps_def new_step_row_def comp_def map_nth)

lemma enqueueTx_steps_ok:
  assumes ok: "enqueueTx x req now db = Ok (run, db', evs)" and d: "distinct (req_Steps req)"
  shows "steps_ok db db'"
  unfolding steps_ok_def
proof (intro impI conjI)
  note t = enqueueTx_tables [OF ok]
  let ?new = "new_steps (next_step_id db) (next_run_id db) 0 (req_Steps req)"
  show "steps_follow db db'" by (rule steps_follow_append) (use t in simp)
  assume inv: "step_inv db"
  have "distinct (map s_id ?new)"
    unfolding new_steps_facts(1) by (simp add: distinct_map inj_on_def)
  moreover have "distinct (map s_step_key ?new)" using d by (simp only: new_steps_facts(2))
  then have "distinct (map (\<lambda>s. (s_run_id s, s_step_key s, s_attempt s)) ?new)"
    by (auto simp: distinct_map inj_on_def)
  moreover have "set (map s_id (deploy_steps db)) \<inter> set (map s_id ?new) = {}"
    using inv new_steps_facts(3) by (fastforce simp: step_inv_def)
  moreover have "set (map (\<lambda>s. (s_run_id s, s_step_key s, s_attempt s)) (deploy_steps db)) \<inter>
      set (map (\<lambda>s. (s_run_id s, s_step_key s, s_attempt s)) ?new) = {}"
    using inv new_steps_facts(3) by (fastforce simp: step_inv_def)
  moreover have "\<forall>s \<in> set (deploy_steps db @ ?new). s_id s < next_step_id db' \<and> s_run_id s < next_run_id db'"
    using inv t new_steps_facts(3) [of _ "next_step_id db" "next_run_id db" 0 "req_Steps req"]
    by (fastforce simp: step_inv_def)
  ultimately show "step_inv db'"
    using inv t by (simp add: step_inv_def)
qed

subsection \<open>The contract of the store's operations\<close>

locale store_operation =
  fixes op :: "go_time \<Rightarrow> ostore \<Rightarrow> 'r \<times> ostore"
  assumes keeps: "unix now \<noteq> 0 \<Longrightarrow> store_ok s (snd (op now s))"
begin

lemma invariant: "unix now \<noteq> 0 \<Longrightarrow> store_inv (o_db s) \<Longrightarrow> store_inv (o_db (snd (op now s)))"
  using keeps by (auto simp: store_ok_def)

lemma terminal_stays:
  assumes "unix now \<noteq> 0" and "store_inv (o_db s)" and "run_by_id (o_db s) k = Some r" and "Terminal (r_state r)"
  shows "\<exists>r'. run_by_id (o_db (snd (op now s))) k = Some r' \<and> r_state r' = r_state r \<and> run_identity r' = run_identity r"
proof -
  have "runs_follow (o_db s) (o_db (snd (op now s)))"
    using keeps [OF assms(1), of s] assms(2) by (simp add: store_ok_def)
  with assms(3) obtain r' ts where
    "run_by_id (o_db (snd (op now s))) k = Some r'" "run_identity r' = run_identity r" "run_path (r_state r) ts (r_state r')"
    unfolding runs_follow_def by blast
  moreover from this(3) have "r_state r' = r_state r"
    using assms(4) by cases (auto dest: Terminal_no_transition)
  ultimately show ?thesis by blast
qed

lemma attempt_frozen:
  assumes "unix now \<noteq> 0" and "store_inv (o_db s)" and "st \<in> set (deploy_steps (o_db s))"
    and "stepAttemptTerminal (s_status st)"
  shows "\<exists>st' \<in> set (deploy_steps (o_db (snd (op now s)))). step_content st' = step_content st"
  using keeps [OF assms(1), of s] assms(2-4) by (force simp: store_ok_def steps_follow_def attempt_follows_def)

end

lemma store_ok_commit:
  assumes "\<And>x db' evs. lease_inv (o_db s) \<Longrightarrow> step_inv (o_db s) \<Longrightarrow> tx = Ok (x, db', evs) \<Longrightarrow>
      tx_step (o_db s) evs db' \<and> steps_ok (o_db s) db'"
    and "\<And>x db' evs. tx = Ok (x, db', evs) \<Longrightarrow> side_tables db' = side_tables (o_db s)"
  shows "store_ok s (snd (commit tx s))"
proof (cases tx)
  case (Inl e)
  then show ?thesis by (simp add: store_ok_refl)
next
  case (Inr y)
  obtain x db' evs where "y = (x, db', evs)" by (cases y)
  with Inr assms show ?thesis by (auto intro!: store_okI)
qed

lemma close_if_terminal_db: "o_db (snd (close_if_terminal x)) = o_db (snd x)"
  by (auto simp: close_if_terminal_def split: prod.splits sum.splits)

lemma store_ok_db: "o_db s2 = o_db s1 \<Longrightarrow> store_ok s s1 \<Longrightarrow> store_ok s s2"
  by (simp add: store_ok_def)

interpretation transition_run: store_operation "TransitionRun runID tok to detail" for runID tok to detail
proof unfold_locales
  fix now s assume now: "unix now \<noteq> 0"
  have "store_ok s (snd (commit (transitionRunTx runID tok to detail now (o_db s)) s))"
    by (rule store_ok_commit)
       (auto dest: transitionRunTx_frame transitionRunTx_step [OF _ _ now] simp: queue_frame_def intro: queue_frame_steps_ok)
  then show "store_ok s (snd (TransitionRun runID tok to detail now s))"
    unfolding TransitionRun_def by (rule store_ok_db [OF close_if_terminal_db])
qed

interpretation request_cancellation: store_operation "RequestCancellation runID" for runID
proof unfold_locales
  fix now s
  have "store_ok s (snd (commit (requestCancellationTx runID now (o_db s)) s))"
    by (rule store_ok_commit)
       (auto dest: requestCancellationTx_frame requestCancellationTx_step simp: queue_frame_def intro: queue_frame_steps_ok)
  then show "store_ok s (snd (RequestCancellation runID now s))"
    unfolding RequestCancellation_def by (rule store_ok_db [OF close_if_terminal_db])
qed

interpretation heartbeat_op: store_operation "\<lambda>now s. commit (Heartbeat runID tok ttl now (o_db s)) s" for runID tok ttl
  by unfold_locales (rule store_ok_commit, auto dest: quiet_frames Heartbeat_step simp: queue_frame_def intro: queue_frame_steps_ok)

interpretation commits_op: store_operation "\<lambda>now s. commit (SetRunCommits runID tok fc tc now (o_db s)) s" for runID tok fc tc
  by unfold_locales (rule store_ok_commit, auto dest: quiet_frames SetRunCommits_step simp: queue_frame_def intro: queue_frame_steps_ok)

definition rand_ok :: "(nat \<Rightarrow> string option) \<Rightarrow> bool" where
  "rand_ok rand \<longleftrightarrow> (\<forall>n. rand n \<noteq> Some [])"

lemma claim_attempts_frame:
  "claim_attempts k n worker budget ttl clock rand e db = Ok (q, db', evs) \<Longrightarrow> queue_frame db db'"
  using claim_attempts_Ok [of k n worker budget ttl clock rand e db] claimNextOnce_frame by blast

lemma ClaimNext_ok: "rand_ok rand \<Longrightarrow> store_ok s (snd (ClaimNext worker budget ttl clock rand s))"
  unfolding ClaimNext_def rand_ok_def
  by (rule store_ok_commit)
     (auto dest: claim_attempts_frame simp: queue_frame_def intro: queue_frame_steps_ok claim_attempts_step)

lemma ReclaimExpiredLease_ok:
  "rnd \<noteq> Some [] \<Longrightarrow> store_ok s (snd (commit (ReclaimExpiredLease expired worker ttl now rnd (o_db s)) s))"
  by (rule store_ok_commit)
     (auto dest: quiet_frames simp: queue_frame_def intro: queue_frame_steps_ok ReclaimExpiredLease_step)

lemma transitionStepTx_side:
  "transitionStepTx runID key tok input now db = Ok (x, db', evs) \<Longrightarrow> side_tables db' = side_tables db"
  by (erule transitionStepTx_Ok)
     (auto simp: write_step_def insert_attempt_def set_last_seq_def side_tables_def Let_def
       split: if_split_asm dest!: appendEventTx_Ok [THEN conjunct1] appended_frame)

lemma appendLogTx_side:
  "appendLogTx x runID stepID tok stream v now db = Ok (ev, db', evs) \<Longrightarrow> side_tables db' = side_tables db"
  by (erule appendLogTx_Ok)
     (auto simp: touch_step_def set_last_seq_def side_tables_def
       dest!: appendEventTx_Ok [THEN conjunct1] appended_frame)

lemma appendEventInputTx_side:
  "appendEventInputTx x runID tok input now db = Ok (ev, db', evs) \<Longrightarrow> side_tables db' = side_tables db"
  by (auto simp: appendEventInputTx_def bindr_eq_Ok touch_step_def set_last_seq_def side_tables_def
       split: if_split_asm dest!: appendEventTx_Ok [THEN conjunct1] appended_frame
       dest: appendLogTx_side [unfolded side_tables_def])

interpretation transition_step: store_operation "TransitionStep runID key tok input" for runID key tok input
  unfolding TransitionStep_def
  by unfold_locales (rule store_ok_commit, auto dest: transitionStepTx_side transitionStepTx_step simp: steps_ok_def)

interpretation append_log: store_operation "AppendLog x runID stepID tok stream v" for x runID stepID tok stream v
  unfolding AppendLog_def
  by unfold_locales (rule store_ok_commit, auto dest: appendLogTx_side appendLogTx_step)

interpretation append_event: store_operation "AppendEvent x runID tok input" for x runID tok input
  unfolding AppendEvent_def
  by unfold_locales (rule store_ok_commit, auto dest: appendEventInputTx_side appendEventInputTx_step)

lemma quiet_sides:
  "LinkRunToLiveRelease runID tok rel now db = Ok (u, db', evs) \<Longrightarrow> side_tables db' = side_tables db"
  "RecordCandidateRuntime run tok input now db = Ok (rt, db', evs) \<Longrightarrow> side_tables db' = side_tables db"
  "SetRuntimeState runID tok rel st now db = Ok (u, db', evs) \<Longrightarrow> side_tables db' = side_tables db"
  by (auto simp: LinkRunToLiveRelease_def RecordCandidateRuntime_def SetRuntimeState_def set_run_release_def
      bindr_eq_Ok Let_def side_tables_def split: option.split_asm if_split_asm)

interpretation link_op: store_operation "\<lambda>now s. commit (LinkRunToLiveRelease runID tok rel now (o_db s)) s" for runID tok rel
  by unfold_locales (rule store_ok_commit, auto dest: LinkRunToLiveRelease_step quiet_sides)

interpretation record_runtime: store_operation "\<lambda>now s. commit (RecordCandidateRuntime run tok input now (o_db s)) s" for run tok input
  by unfold_locales (rule store_ok_commit, auto dest: RecordCandidateRuntime_step quiet_sides)

interpretation runtime_state_op: store_operation "\<lambda>now s. commit (SetRuntimeState runID tok rel st now (o_db s)) s" for runID tok rel st
  by unfold_locales (rule store_ok_commit, auto dest: SetRuntimeState_step quiet_sides)

subsection \<open>Operations on releases, ports and logs\<close>

lemma live_inv_same_keys:
  assumes "live_inv db" and "map (\<lambda>r. (rel_id r, rel_environment_id r, rel_state r)) (deploy_releases db') =
      map (\<lambda>r. (rel_id r, rel_environment_id r, rel_state r)) (deploy_releases db)"
    and "deploy_environments db' = deploy_environments db"
  shows "live_inv db'"
proof -
  let ?k = "\<lambda>r. (rel_id r, rel_environment_id r, rel_state r)"
  have "map rel_id (deploy_releases db') = map rel_id (deploy_releases db)"
    using map_via [OF assms(2), of rel_id fst] by simp
  moreover have sets: "?k ` set (deploy_releases db') = ?k ` set (deploy_releases db)"
    using arg_cong [OF assms(2), of set] by simp
  have *: "(\<exists>r \<in> set (deploy_releases db'). P (?k r)) \<longleftrightarrow> (\<exists>r \<in> set (deploy_releases db). P (?k r))" for P
    using sets by (metis (no_types, lifting) imageE image_eqI)
  have **: "(\<forall>r \<in> set (deploy_releases db'). P (?k r)) \<longleftrightarrow> (\<forall>r \<in> set (deploy_releases db). P (?k r))" for P
    using * [of "\<lambda>k. \<not> P k"] by blast
  ultimately show ?thesis
    using assms(1) assms(3) * [of "\<lambda>(i, e, st). i = _ \<and> e = _ \<and> st = ''live''"]
      ** [of "\<lambda>(i, e, st). i \<noteq> 0"]
      ** [of "\<lambda>(i, e, st). st = ''live'' \<longrightarrow> (\<exists>x \<in> set (deploy_environments db). e_id x = e \<and> e_live_release_id x = i)"]
    unfolding live_inv_def by simp
qed

lemma store_ok_tx:
  assumes "\<And>x db' evs. store_inv (o_db s) \<Longrightarrow> tx = Ok (x, db', evs) \<Longrightarrow>
      tx_step (o_db s) evs db' \<and> steps_ok (o_db s) db' \<and> live_inv db' \<and> port_inv db'"
  shows "store_ok s (snd (commit tx s))"
proof (cases tx)
  case (Inl e)
  then show ?thesis by (simp add: store_ok_refl)
next
  case (Inr y)
  obtain x db' evs where y: "y = (x, db', evs)" by (cases y)
  show ?thesis unfolding store_ok_def
  proof (intro impI)
    assume inv: "store_inv (o_db s)"
    with assms Inr y have t: "tx_step (o_db s) evs db' \<and> steps_ok (o_db s) db' \<and> live_inv db' \<and> port_inv db'"
      by blast
    then have "chunks_inv (deploy_log_chunks db')"
      using inv logged_chunks_inv by (auto simp: tx_step_def store_inv_def)
    with t inv Inr y show "store_inv (o_db (snd (commit tx s))) \<and> runs_follow (o_db s) (o_db (snd (commit tx s))) \<and>
        steps_follow (o_db s) (o_db (snd (commit tx s)))"
      by (auto simp: store_inv_def tx_step_def steps_ok_def runs_follow_def)
  qed
qed

lemma ports_cong: "port_inv db \<Longrightarrow> deploy_port_leases db' = deploy_port_leases db \<Longrightarrow> port_inv db'"
  by (simp add: port_inv_def)

interpretation activate_op: store_operation "\<lambda>now s. commit (ActivateCandidate runID tok rel now (o_db s)) s" for runID tok rel
proof unfold_locales
  fix now s
  show "store_ok s (snd (commit (ActivateCandidate runID tok rel now (o_db s)) s))"
  proof (rule store_ok_tx)
    fix x db' evs
    assume inv: "store_inv (o_db s)" and ok: "ActivateCandidate runID tok rel now (o_db s) = Ok (x, db', evs)"
    have "deploy_port_leases db' = deploy_port_leases (o_db s)"
      by (rule ActivateCandidate_Ok [OF ok]) (simp add: activation_defs)
    with inv ActivateCandidate_step [OF _ ok] ActivateCandidate_live_inv [OF _ ok]
    show "tx_step (o_db s) evs db' \<and> steps_ok (o_db s) db' \<and> live_inv db' \<and> port_inv db'"
      by (auto simp: store_inv_def intro: ports_cong)
  qed
qed

interpretation retire_op: store_operation "\<lambda>now s. commit (MarkPreviousRetired runID tok rel now (o_db s)) s" for runID tok rel
proof unfold_locales
  fix now s
  show "store_ok s (snd (commit (MarkPreviousRetired runID tok rel now (o_db s)) s))"
  proof (rule store_ok_tx)
    fix x db' evs
    assume inv: "store_inv (o_db s)" and ok: "MarkPreviousRetired runID tok rel now (o_db s) = Ok (x, db', evs)"
    have "deploy_port_leases db' = deploy_port_leases (o_db s)" "deploy_environments db' = deploy_environments (o_db s)"
      "map (\<lambda>r. (rel_id r, rel_environment_id r, rel_state r)) (deploy_releases db') =
       map (\<lambda>r. (rel_id r, rel_environment_id r, rel_state r)) (deploy_releases (o_db s))"
      using ok by (auto simp: MarkPreviousRetired_def bindr_eq_Ok Let_def set_runtime_def set_release_def
          map_sql_update_same simp del: map_map split: option.split_asm if_split_asm)
    with inv MarkPreviousRetired_step [OF _ ok] live_inv_same_keys [of "o_db s" db']
    show "tx_step (o_db s) evs db' \<and> steps_ok (o_db s) db' \<and> live_inv db' \<and> port_inv db'"
      by (auto simp: store_inv_def intro: ports_cong)
  qed
qed

lemma AcquirePortLease_ok:
  "store_ok s (snd (commit (AcquirePortLease runID env tok address preferred ttl listen clock rand (o_db s)) s))"
proof (rule store_ok_tx)
  fix x db' evs
  assume inv: "store_inv (o_db s)"
    and ok: "AcquirePortLease runID env tok address preferred ttl listen clock rand (o_db s) = Ok (x, db', evs)"
  obtain j p a d where p: "portLeaseTx runID env tok a p d (clock j) (rand j) (o_db s) = Ok (x, db', evs)"
    by (rule AcquirePortLease_Ok [OF ok])
  have "deploy_releases db' = deploy_releases (o_db s)" "deploy_environments db' = deploy_environments (o_db s)"
    using p by (auto simp: portLeaseTx_def insert_port_lease_def bindr_eq_Ok Let_def split: if_split_asm)
  with inv portLeaseTx_step [OF _ p] portLeaseTx_port_inv [OF _ p]
  show "tx_step (o_db s) evs db' \<and> steps_ok (o_db s) db' \<and> live_inv db' \<and> port_inv db'"
    by (auto simp: store_inv_def intro: live_inv_cong)
qed

lemma ReleasePortLease_ok: "store_ok s (s\<lparr>o_db := snd (ReleasePortLease runID token (o_db s))\<rparr>)"
proof -
  let ?db' = "snd (ReleasePortLease runID token (o_db s))"
  have fr: "deploy_runs ?db' = deploy_runs (o_db s)" "deploy_queue_leases ?db' = deploy_queue_leases (o_db s)"
    "deploy_steps ?db' = deploy_steps (o_db s)" "deploy_log_chunks ?db' = deploy_log_chunks (o_db s)"
    "deploy_releases ?db' = deploy_releases (o_db s)" "deploy_environments ?db' = deploy_environments (o_db s)"
    "next_run_id ?db' = next_run_id (o_db s)" "next_step_id ?db' = next_step_id (o_db s)"
    by (auto simp: ReleasePortLease_def Let_def)
  have "port_inv (o_db s) \<Longrightarrow> port_inv ?db'"
    by (auto simp: ReleasePortLease_def Let_def port_inv_def distinct_sql_delete)
  then show ?thesis
    using fr by (auto simp: store_ok_def store_inv_def lease_inv_def idem_inv_def step_inv_def live_inv_def
        intro: runs_follow_cong steps_follow_cong)
qed

lemma CompactRunLogs_ok: "store_ok s (snd (commit (CompactRunLogs runID keep (o_db s)) s))"
proof (cases "CompactRunLogs runID keep (o_db s)")
  case (Inl e)
  then show ?thesis by (simp add: store_ok_refl)
next
  case (Inr y)
  obtain u db' evs where y: "y = (u, db', evs)" by (cases y)
  let ?w = "compact_watermark (o_db s) runID keep"
  from CompactRunLogs_Ok [OF Inr [unfolded y]] consider "db' = o_db s"
    | "?w \<noteq> 0" "db' = (o_db s)\<lparr>deploy_log_chunks := sql_update (\<lambda>c. c_run_id c = runID \<and> c_seq c = ?w)
        compacted_row (sql_delete (compact_drop runID ?w) (deploy_log_chunks (o_db s)))\<rparr>"
    by blast
  then show ?thesis
  proof cases
    case 1
    then show ?thesis using Inr y by (simp add: store_ok_def runs_follow_refl steps_follow_refl)
  next
    case 2
    obtain c where c: "c \<in> set (deploy_log_chunks (o_db s))" "c_run_id c = runID" "c_seq c = ?w"
      by (rule compact_watermark_row [OF 2(1)])
    have "chunks_inv (deploy_log_chunks (o_db s)) \<Longrightarrow> chunks_inv (deploy_log_chunks db')"
      using compaction_chunks(1) [OF c] 2(2) by simp
    then show ?thesis
      using Inr y 2(2) by (auto simp: store_ok_def store_inv_def lease_inv_def idem_inv_def step_inv_def
          live_inv_def port_inv_def intro: runs_follow_cong steps_follow_cong)
  qed
qed

interpretation enqueue: store_operation "Enqueue x req" for x req
proof unfold_locales
  fix now s
  show "store_ok s (snd (Enqueue x req now s))"
  proof (cases "Enqueue x req now s")
    case (Pair res s')
    from Enqueue_cases [OF Pair] consider "s' = s"
      | req' run evs where "normalizeRunRequest req = Ok req'" "enqueueTx x req' now (o_db s) = Ok (run, o_db s', evs)"
      by blast
    then show ?thesis
    proof cases
      case 1
      then show ?thesis using Pair by (simp add: store_ok_refl)
    next
      case 2
      have "store_ok s s'"
        by (rule store_okI [of _ evs])
           (use enqueueTx_step [OF _ 2(2)] enqueueTx_steps_ok [OF 2(2)] normalizeRunRequest_steps [OF 2(1)]
              enqueueTx_tables [OF 2(2)] in auto)
      then show ?thesis using Pair by simp
    qed
  qed
qed

interpretation retry: store_operation "Retry x runID actor key" for x runID actor key
proof unfold_locales
  fix now s assume "unix now \<noteq> 0"
  then show "store_ok s (snd (Retry x runID actor key now s))"
    using enqueue.keeps by (auto simp: Retry_def store_ok_refl split: sum.split)
qed

subsection \<open>The machine\<close>

text \<open>
  Any operation, by any caller, with any arguments. The clock does not read the epoch and random
  tokens have bytes. Creating a release or an environment belongs to other parts of the program
  and happens before the first step here.
\<close>

inductive store_step :: "externals \<Rightarrow> ostore \<Rightarrow> ostore \<Rightarrow> bool" for x where
  step_Enqueue: "unix now \<noteq> 0 \<Longrightarrow> store_step x s (snd (Enqueue x req now s))"
| step_Retry: "unix now \<noteq> 0 \<Longrightarrow> store_step x s (snd (Retry x runID actor key now s))"
| step_ClaimNext: "rand_ok rand \<Longrightarrow> store_step x s (snd (ClaimNext w budget ttl clock rand s))"
| step_Heartbeat: "unix now \<noteq> 0 \<Longrightarrow> store_step x s (snd (commit (Heartbeat runID tok ttl now (o_db s)) s))"
| step_SetRunCommits: "unix now \<noteq> 0 \<Longrightarrow> store_step x s (snd (commit (SetRunCommits runID tok fc tc now (o_db s)) s))"
| step_TransitionRun: "unix now \<noteq> 0 \<Longrightarrow> store_step x s (snd (TransitionRun runID tok to detail now s))"
| step_RequestCancellation: "unix now \<noteq> 0 \<Longrightarrow> store_step x s (snd (RequestCancellation runID now s))"
| step_Reclaim: "rnd \<noteq> Some [] \<Longrightarrow>
    store_step x s (snd (commit (ReclaimExpiredLease expired w ttl now rnd (o_db s)) s))"
| step_TransitionStep: "unix now \<noteq> 0 \<Longrightarrow> store_step x s (snd (TransitionStep runID k tok input now s))"
| step_AppendLog: "unix now \<noteq> 0 \<Longrightarrow> store_step x s (snd (AppendLog x runID stepID tok stream v now s))"
| step_AppendEvent: "unix now \<noteq> 0 \<Longrightarrow> store_step x s (snd (AppendEvent x runID tok ev now s))"
| step_Compact: "store_step x s (snd (commit (CompactRunLogs runID keep (o_db s)) s))"
| step_RecordRuntime: "unix now \<noteq> 0 \<Longrightarrow> store_step x s (snd (commit (RecordCandidateRuntime run tok ri now (o_db s)) s))"
| step_RuntimeState: "unix now \<noteq> 0 \<Longrightarrow> store_step x s (snd (commit (SetRuntimeState runID tok rel st now (o_db s)) s))"
| step_Link: "unix now \<noteq> 0 \<Longrightarrow> store_step x s (snd (commit (LinkRunToLiveRelease runID tok rel now (o_db s)) s))"
| step_Activate: "unix now \<noteq> 0 \<Longrightarrow> store_step x s (snd (commit (ActivateCandidate runID tok rel now (o_db s)) s))"
| step_Retire: "unix now \<noteq> 0 \<Longrightarrow> store_step x s (snd (commit (MarkPreviousRetired runID tok rel now (o_db s)) s))"
| step_AcquirePort: "store_step x s
    (snd (commit (AcquirePortLease runID env tok address preferred ttl listen clock rand (o_db s)) s))"
| step_ReleasePort: "store_step x s (s\<lparr>o_db := snd (ReleasePortLease runID token (o_db s))\<rparr>)"
| step_Subscribe: "store_step x s (snd (Subscribe runID after now s))"
| step_broker: "store_step x s (s\<lparr>o_broker := b\<rparr>)"

lemma Subscribe_db: "o_db (snd (Subscribe runID after now s)) = o_db s"
  by (auto simp: Subscribe_def Let_def split: sum.split)

lemma store_step_ok: "store_step x s s' \<Longrightarrow> store_ok s s'"
proof (induction rule: store_step.induct)
  case (step_Subscribe s runID after now)
  then show ?case using store_ok_refl by (rule store_ok_db [OF Subscribe_db])
next
  case (step_broker s b)
  then show ?case by (simp add: store_ok_def runs_follow_refl steps_follow_refl)
qed (blast intro: enqueue.keeps retry.keeps ClaimNext_ok heartbeat_op.keeps commits_op.keeps transition_run.keeps
  request_cancellation.keeps ReclaimExpiredLease_ok transition_step.keeps append_log.keeps append_event.keeps
  CompactRunLogs_ok record_runtime.keeps runtime_state_op.keeps link_op.keeps activate_op.keeps retire_op.keeps
  AcquirePortLease_ok ReleasePortLease_ok)+

definition store_reaches :: "externals \<Rightarrow> ostore \<Rightarrow> ostore \<Rightarrow> bool" where
  "store_reaches x = (store_step x)\<^sup>*\<^sup>*"

lemma store_reaches_ok: "store_reaches x s s' \<Longrightarrow> store_ok s s'"
  unfolding store_reaches_def
  by (induction rule: rtranclp_induct) (auto intro: store_ok_refl store_ok_trans store_step_ok)

text \<open>A store with environments and releases, but no run yet.\<close>

definition fresh_store :: "ostore \<Rightarrow> bool" where
  "fresh_store s \<longleftrightarrow>
     deploy_runs (o_db s) = [] \<and> deploy_steps (o_db s) = [] \<and> deploy_log_chunks (o_db s) = [] \<and>
     deploy_queue_leases (o_db s) = [] \<and> deploy_port_leases (o_db s) = [] \<and> live_inv (o_db s)"

lemma fresh_store_inv: "fresh_store s \<Longrightarrow> store_inv (o_db s)"
  by (simp add: fresh_store_def store_inv_def lease_inv_def idem_inv_def chunks_inv_def step_inv_def port_inv_def)

end
