(* ===== verification/Deploy_Engine.thy ===== *)
theory Deploy_Engine
  imports Deploy_Machine
begin

text \<open>
  The deployment engine (engine.go): the worker that drives a claimed run through its steps,
  finishes, fails or cancels it, and the recovery of claims left by an earlier process.
  A worker is a sequence of calls on the store. Between any two of its calls other goroutines
  (handlers, the operator's cancellation, other workers, the adapters of the running step) may have
  used the store or cancelled the worker's context: \<open>g_other\<close> says what they did before the n-th
  call, and every theorem holds for any such interference that keeps the invariants of the store.
  The adapters are parameters: \<open>g_execute\<close> gives the output a step writes and its result,
  \<open>g_cleaner\<close> the cleanup after a cancellation, \<open>g_reconcile\<close> the decision about an interrupted step.
\<close>

subsection \<open>The worker's world\<close>

datatype ctx_cause = OperatorCancellation | LeaseLostCause | OtherCause string

datatype ctx_state = CtxActive | CtxCancelled ctx_cause

fun cause_text :: "ctx_cause \<Rightarrow> string" where
  "cause_text OperatorCancellation = ''deployment cancellation requested by operator''"
| "cause_text LeaseLostCause = ''deployment queue lease was lost''"
| "cause_text (OtherCause s) = s"

record world =
  w_store :: ostore
  w_ctx :: ctx_state
  w_tick :: nat

record StepResult =
  res_State :: StepState
  res_Evidence :: string
  res_Cleanup :: string
  res_ErrorCode :: string
  res_ErrorMessage :: string
  res_FromCommit :: string
  res_ToCommit :: string
  res_Recovered :: bool

definition emptyResult :: StepResult where
  "emptyResult =
     \<lparr> res_State = StepStateOther [], res_Evidence = [], res_Cleanup = [], res_ErrorCode = [],
       res_ErrorMessage = [], res_FromCommit = [], res_ToCommit = [], res_Recovered = False \<rparr>"

record StepExecution =
  ex_Run :: EngineRun
  ex_Step :: RunStep
  ex_ClaimToken :: string

datatype StepOutput = OutLog string string | OutEvent EventInput

datatype ReconcileAction = ReconcileResume | ReconcileComplete | ReconcileFail | ReconcileOther string

record ReconcileResult =
  rec_Action :: ReconcileAction
  rec_StepResult :: StepResult
  rec_TerminalCode :: string
  rec_Reason :: string

record ReconcileRequest =
  rq_Run :: EngineRun
  rq_Step :: "RunStep option"
  rq_Lease :: QueueLease

text \<open>
  \<open>g_cleaner\<close> is \<open>None\<close> when the executor is no \<open>RunCancellationCleaner\<close>; its result is the cleanup
  document and whether it reported an error. \<open>g_incomplete\<close> is the document decoded, with its
  fields \<open>completed\<close> and \<open>error\<close> set, and encoded again by encoding/json.
\<close>

record engine_env =
  g_ext :: externals
  g_clock :: "nat \<Rightarrow> go_time"
  g_rand :: "nat \<Rightarrow> string option"
  g_other :: "nat \<Rightarrow> ostore \<times> ctx_state \<Rightarrow> ostore \<times> ctx_state"
  g_execute :: "StepExecution \<Rightarrow> nat \<Rightarrow> StepOutput list \<times> StepResult"
  g_cleaner :: "(EngineRun \<Rightarrow> string \<Rightarrow> nat \<Rightarrow> string \<times> bool) option"
  g_incomplete :: "string \<Rightarrow> string"
  g_reconcile :: "ReconcileRequest \<Rightarrow> ReconcileResult"

type_synonym 'a eng = "world \<Rightarrow> (deploy_error + 'a) \<times> world"

definition returnw :: "'a \<Rightarrow> 'a eng" where
  "returnw x w = (Ok x, w)"

definition failw :: "deploy_error \<Rightarrow> 'a eng" where
  "failw e w = (Err e, w)"

definition bindw :: "'a eng \<Rightarrow> ('a \<Rightarrow> 'b eng) \<Rightarrow> 'b eng" where
  "bindw m f w = (case m w of (Inl e, w') \<Rightarrow> (Err e, w') | (Inr x, w') \<Rightarrow> f x w')"

text \<open>What other goroutines did before this call, and the next call's number.\<close>

definition interfere :: "engine_env \<Rightarrow> world \<Rightarrow> world" where
  "interfere g w =
     (let (s, c) = g_other g (w_tick w) (w_store w, w_ctx w) in
      \<lparr> w_store = s, w_ctx = c, w_tick = Suc (w_tick w) \<rparr>)"

text \<open>A call with \<open>context.Background()\<close>, and one with the worker's context, which fails once it is cancelled.\<close>

definition bg_call :: "engine_env \<Rightarrow> (go_time \<Rightarrow> ostore \<Rightarrow> (deploy_error + 'a) \<times> ostore) \<Rightarrow> 'a eng" where
  "bg_call g op w =
     (let w1 = interfere g w; (r, s) = op (g_clock g (w_tick w1)) (w_store w1) in (r, w1\<lparr>w_store := s\<rparr>))"

definition ctx_call :: "engine_env \<Rightarrow> (go_time \<Rightarrow> ostore \<Rightarrow> (deploy_error + 'a) \<times> ostore) \<Rightarrow> 'a eng" where
  "ctx_call g op w =
     (if w_ctx (interfere g w) \<noteq> CtxActive then (Err ErrContextCanceled, interfere g w)
      else bg_call g op w)"

text \<open>\<open>ctx.Err()\<close> with the cause.\<close>

definition ctx_state_now :: "ctx_state eng" where
  "ctx_state_now w = (Ok (w_ctx w), w)"

definition query :: "(db \<Rightarrow> deploy_error + 'a) \<Rightarrow> go_time \<Rightarrow> ostore \<Rightarrow> (deploy_error + 'a) \<times> ostore" where
  "query f now s = (f (o_db s), s)"

definition transact :: "(go_time \<Rightarrow> db \<Rightarrow> 'a tx) \<Rightarrow> go_time \<Rightarrow> ostore \<Rightarrow> (deploy_error + 'a) \<times> ostore" where
  "transact f now s = commit (f now (o_db s)) s"

subsection \<open>Configuration\<close>

record EngineConfig =
  cfg_WorkerID :: string
  cfg_Budget :: QueueBudget
  cfg_LeaseTTL :: go_duration
  cfg_PollEvery :: go_duration
  cfg_HotLogLimit :: int

text \<open>\<open>host\<close> is \<open>os.Hostname()\<close> (\<open>None\<close> when it fails), \<open>pid\<close> the process identifier.\<close>

definition config_normalized :: "string option \<Rightarrow> int \<Rightarrow> EngineConfig \<Rightarrow> EngineConfig" where
  "config_normalized host pid c =
     \<lparr> cfg_WorkerID =
         (if cfg_WorkerID c = []
          then (case host of None \<Rightarrow> ''localhost'' | Some h \<Rightarrow> if h = [] then ''localhost'' else h)
                 @ '':'' @ int_dec pid
          else cfg_WorkerID c),
       cfg_Budget = budget_normalized (cfg_Budget c),
       cfg_LeaseTTL = (if cfg_LeaseTTL c \<le> 0 then defaultLeaseTTL else cfg_LeaseTTL c),
       cfg_PollEvery = (if cfg_PollEvery c \<le> 0 then 250 * millisecond else cfg_PollEvery c),
       cfg_HotLogLimit = (if cfg_HotLogLimit c \<le> 0 then 10000 else cfg_HotLogLimit c) \<rparr>"

subsection \<open>Moving the run\<close>

definition transition :: "engine_env \<Rightarrow> QueueLease \<Rightarrow> RunState \<Rightarrow> TransitionDetail \<Rightarrow> EngineRun eng" where
  "transition g lease to detail =
     ctx_call g (TransitionRun (lease_RunID lease) (lease_Token lease) to detail)"

definition run_now :: "engine_env \<Rightarrow> int \<Rightarrow> EngineRun eng" where
  "run_now g runID = ctx_call g (query (\<lambda>db. Run db runID))"

definition advanceRunForStep :: "engine_env \<Rightarrow> QueueLease \<Rightarrow> RunState \<Rightarrow> StepKey \<Rightarrow> unit eng" where
  "advanceRunForStep g lease state key =
     (let move = (\<lambda>to. bindw (transition g lease to noDetail) (\<lambda>_. returnw ())) in
      case key of
        StepBuildArtifact \<Rightarrow> if state = RunPreparing then move RunRunning else returnw ()
      | StepVerifyReadiness \<Rightarrow>
          bindw (if state = RunPreparing then bindw (move RunRunning) (\<lambda>_. returnw RunRunning) else returnw state)
            (\<lambda>state. if state = RunRunning then move RunVerifying else returnw ())
      | StepActivate \<Rightarrow>
          bindw (if state = RunPreparing then bindw (move RunRunning) (\<lambda>_. returnw RunRunning) else returnw state)
            (\<lambda>state. bindw (if state = RunRunning then bindw (move RunVerifying) (\<lambda>_. returnw RunVerifying) else returnw state)
            (\<lambda>state. if state = RunVerifying then move RunActivating else returnw ()))
      | _ \<Rightarrow> returnw ())"

fun success_steps :: "engine_env \<Rightarrow> QueueLease \<Rightarrow> RunState list \<Rightarrow> EngineRun \<Rightarrow> EngineRun eng" where
  "success_steps g lease [] run = returnw run"
| "success_steps g lease (next_state # states) run =
     (if State run = next_state \<or> \<not> CanTransitionRun (State run) next_state
      then success_steps g lease states run
      else bindw (transition g lease next_state noDetail) (success_steps g lease states))"

definition finishSuccess :: "engine_env \<Rightarrow> QueueLease \<Rightarrow> unit eng" where
  "finishSuccess g lease =
     bindw (run_now g (lease_RunID lease)) (\<lambda>run.
     bindw (success_steps g lease [RunRunning, RunVerifying, RunActivating, RunSucceeded] run) (\<lambda>run.
     if Terminal (State run) then returnw ()
     else failw (ErrMessage ''run could not converge to success'')))"

definition failRun :: "engine_env \<Rightarrow> QueueLease \<Rightarrow> string \<Rightarrow> string \<Rightarrow> bool \<Rightarrow> unit eng" where
  "failRun g lease code reason recovered =
     (let detail = \<lparr> detail_Code = code, detail_Reason = reason \<rparr>;
          done = (\<lambda>m. bindw m (\<lambda>_. returnw ())) in
      bindw (run_now g (lease_RunID lease)) (\<lambda>run.
      bindw (if State run = RunActivating then transition g lease RunFailedActivation detail else returnw run) (\<lambda>run.
      if State run = RunFailedActivation \<and> recovered
      then bindw (transition g lease RunRestoringPrevious detail)
             (\<lambda>_. done (transition g lease RunRolledBack detail))
      else done (transition g lease RunFailed detail))))"

subsection \<open>Cancellation\<close>

definition cleanup_document :: "engine_env \<Rightarrow> string \<times> bool \<Rightarrow> string" where
  "cleanup_document g c =
     (let cleanup = (if fst c = [] then mustJSON [(''completed'', GBool (\<not> snd c))] else fst c) in
      if snd c then g_incomplete g cleanup else cleanup)"

definition cleanup_event :: "string \<Rightarrow> EventInput" where
  "cleanup_event cleanup =
     \<lparr> ei_Type = EventStepEvidence, ei_StepID = 0, ei_Stream = [], ei_Text = [],
       ei_Data = mustJSON [(''phase'', GStr ''cancellation_cleanup''), (''cleanup'', GRaw cleanup)] \<rparr>"

fun cancel_steps ::
  "engine_env \<Rightarrow> (StepKey \<Rightarrow> RunStep option) \<Rightarrow> int \<Rightarrow> string \<Rightarrow> StepKey list \<Rightarrow> unit eng" where
  "cancel_steps g latest runID claimToken [] = returnw ()"
| "cancel_steps g latest runID claimToken (key # keys) =
     (case latest key of
        None \<Rightarrow> cancel_steps g latest runID claimToken keys
      | Some step \<Rightarrow>
          if stepAttemptTerminal (step_State step) \<or> \<not> CanTransitionStep (step_State step) StepCancelled
          then cancel_steps g latest runID claimToken keys
          else bindw (bg_call g (TransitionStep runID key claimToken (step_to StepCancelled)))
                 (\<lambda>_. cancel_steps g latest runID claimToken keys))"

definition CancelOpenSteps :: "engine_env \<Rightarrow> int \<Rightarrow> string \<Rightarrow> unit eng" where
  "CancelOpenSteps g runID claimToken =
     bindw (bg_call g (query (\<lambda>db. Ok (Steps db runID)))) (\<lambda>steps.
     cancel_steps g (latestAttempts steps) runID claimToken DefaultStepKeys)"

definition finishCancellation :: "engine_env \<Rightarrow> QueueLease \<Rightarrow> unit eng" where
  "finishCancellation g lease =
     bindw (bg_call g (query (\<lambda>db. Run db (lease_RunID lease)))) (\<lambda>run.
     if Terminal (State run) then returnw ()
     else
       bindw (if State run \<noteq> RunCancelling
              then bindw (bg_call g (RequestCancellation (lease_RunID lease))) (\<lambda>_. returnw ())
              else returnw ()) (\<lambda>_.
       bindw (case g_cleaner g of
                None \<Rightarrow> returnw ()
              | Some cleaner \<Rightarrow>
                  (\<lambda>w. bindw (bg_call g (AppendEvent (g_ext g) (lease_RunID lease) (lease_Token lease)
                          (cleanup_event (cleanup_document g (cleaner run (lease_Token lease) (w_tick w))))))
                         (\<lambda>_. returnw ()) w)) (\<lambda>_.
       bindw (CancelOpenSteps g (lease_RunID lease) (lease_Token lease)) (\<lambda>_.
       bindw (bg_call g (TransitionRun (lease_RunID lease) (lease_Token lease) RunCancelled
                \<lparr> detail_Code = ''cancelled'', detail_Reason = ''Cancelled by operator'' \<rparr>))
         (\<lambda>_. returnw ())))))"

subsection \<open>Executing the steps\<close>

text \<open>The output of a step; the first failure is kept and stops all later output.\<close>

fun run_outputs :: "engine_env \<Rightarrow> int \<Rightarrow> int \<Rightarrow> string \<Rightarrow> StepOutput list \<Rightarrow> world \<Rightarrow> deploy_error option \<times> world" where
  "run_outputs g runID stepID claimToken [] w = (None, w)"
| "run_outputs g runID stepID claimToken (out # outs) w =
     (case bg_call g (case out of
          OutLog stream body \<Rightarrow> AppendLog (g_ext g) runID stepID claimToken stream body
        | OutEvent input \<Rightarrow> AppendEvent (g_ext g) runID claimToken (input\<lparr>ei_StepID := stepID\<rparr>)) w of
        (Inl e, w') \<Rightarrow> (Some e, w')
      | (Inr _, w') \<Rightarrow> run_outputs g runID stepID claimToken outs w')"

fun allowedExecutorResult :: "StepState \<Rightarrow> bool" where
  "allowedExecutorResult StepPassed = True"
| "allowedExecutorResult StepWarning = True"
| "allowedExecutorResult StepFailed = True"
| "allowedExecutorResult StepSkipped = True"
| "allowedExecutorResult StepCancelled = True"
| "allowedExecutorResult StepUnavailable = True"
| "allowedExecutorResult _ = False"

definition failed_result :: "string \<Rightarrow> string \<Rightarrow> StepResult" where
  "failed_result code message =
     emptyResult\<lparr>res_State := StepFailed, res_ErrorCode := code, res_ErrorMessage := message\<rparr>"

definition accepted_result :: "deploy_error option \<Rightarrow> StepResult \<Rightarrow> StepResult" where
  "accepted_result outErr result0 =
     (let result = (case outErr of None \<Rightarrow> result0
                     | Some e \<Rightarrow> failed_result ''event_persist_failed'' (error_text e));
          result = (if res_State result = StepStateOther [] then result\<lparr>res_State := StepPassed\<rparr> else result) in
      if \<not> allowedExecutorResult (res_State result)
      then failed_result ''internal_error''
             (''adapter returned invalid terminal state '' @ marshal_string (step_state_string (res_State result)))
      else result)"

definition step_input :: "StepResult \<Rightarrow> StepTransition" where
  "step_input result =
     \<lparr> in_State = res_State result, in_Retry = False, in_Evidence = res_Evidence result,
       in_Cleanup = res_Cleanup result, in_ErrorCode = res_ErrorCode result,
       in_ErrorMessage = res_ErrorMessage result \<rparr>"

definition cancelled_input :: "ctx_cause \<Rightarrow> StepResult \<Rightarrow> StepTransition" where
  "cancelled_input cause result =
     (step_to StepCancelled)\<lparr>
       in_Cleanup := (if res_Cleanup result = []
                      then mustJSON [(''context'', GStr ''cancelled''), (''cause'', GStr (cause_text cause))]
                      else res_Cleanup result),
       in_ErrorCode := res_ErrorCode result, in_ErrorMessage := res_ErrorMessage result\<rparr>"

definition finish_step :: "engine_env \<Rightarrow> QueueLease \<Rightarrow> StepKey \<Rightarrow> StepResult \<Rightarrow> RunStep eng" where
  "finish_step g lease key result =
     bindw (if res_FromCommit result \<noteq> [] \<or> res_ToCommit result \<noteq> []
            then ctx_call g (transact (SetRunCommits (lease_RunID lease) (lease_Token lease)
                   (res_FromCommit result) (res_ToCommit result)))
            else returnw ()) (\<lambda>_.
     ctx_call g (TransitionStep (lease_RunID lease) key (lease_Token lease) (step_input result)))"

text \<open>What follows the execution of a step, by the state of the context.\<close>

definition after_execute :: "engine_env \<Rightarrow> QueueLease \<Rightarrow> StepKey \<Rightarrow> deploy_error option \<Rightarrow> StepResult \<Rightarrow> bool eng" where
  "after_execute g lease key outErr result w =
     (case w_ctx w of
        CtxCancelled LeaseLostCause \<Rightarrow> (Err ErrLeaseLost, w)
      | CtxCancelled cause \<Rightarrow>
          bindw (bg_call g (TransitionStep (lease_RunID lease) key (lease_Token lease) (cancelled_input cause result)))
            (\<lambda>_. bindw (finishCancellation g lease) (\<lambda>_. returnw False)) w
      | CtxActive \<Rightarrow>
          (let result = accepted_result outErr result in
           bindw (finish_step g lease key result) (\<lambda>_.
           if res_State result = StepFailed \<or> res_State result = StepUnavailable
           then bindw (failRun g lease (res_ErrorCode result) (res_ErrorMessage result) (res_Recovered result))
                  (\<lambda>_. returnw False)
           else if res_State result = StepCancelled
           then bindw (finishCancellation g lease) (\<lambda>_. returnw False)
           else returnw True) w))"

text \<open>
  One step of a run: what the loop body does after \<open>latest[key]\<close> was found open. The result says
  whether the loop goes on.
\<close>

definition execute_step :: "engine_env \<Rightarrow> QueueLease \<Rightarrow> StepKey \<Rightarrow> bool eng" where
  "execute_step g lease key =
     bindw (ctx_call g (TransitionStep (lease_RunID lease) key (lease_Token lease) (step_to StepRunning))) (\<lambda>step.
     bindw (run_now g (lease_RunID lease)) (\<lambda>run w0.
     let (outs, result) = g_execute g \<lparr> ex_Run = run, ex_Step = step, ex_ClaimToken = lease_Token lease \<rparr> (w_tick w0);
         (outErr, w1) = run_outputs g (lease_RunID lease) (step_ID step) (lease_Token lease) outs w0 in
     after_execute g lease key outErr result (interfere g w1)))"

text \<open>
  The loop over the ordered keys. Every key of the list has an entry in \<open>latest\<close>: both are read from
  the same steps (\<open>latestAttempts_known\<close>), so the missing entry is the panic of no execution.
\<close>

fun execute_keys :: "engine_env \<Rightarrow> QueueLease \<Rightarrow> (StepKey \<Rightarrow> RunStep option) \<Rightarrow> StepKey list \<Rightarrow> bool eng" where
  "execute_keys g lease latest [] = returnw True"
| "execute_keys g lease latest (key # keys) =
     bindw (run_now g (lease_RunID lease)) (\<lambda>run.
     if Terminal (State run) then returnw False
     else bindw ctx_state_now (\<lambda>ctx.
       if State run = RunCancelling \<or> CancelRequested run \<or> ctx \<noteq> CtxActive
       then bindw (finishCancellation g lease) (\<lambda>_. returnw False)
       else
         bindw (advanceRunForStep g lease (State run) key) (\<lambda>_.
         case latest key of
           None \<Rightarrow> failw ErrPanic
         | Some step \<Rightarrow>
             if stepAttemptTerminal (step_State step) then execute_keys g lease latest keys
             else if step_State step = StepRunning
             then failw (ErrMessage ''step is still running without reconciliation'')
             else bindw (execute_step g lease key) (\<lambda>goes_on.
               if goes_on then execute_keys g lease latest keys else returnw False))))"

definition execute :: "engine_env \<Rightarrow> EngineConfig \<Rightarrow> QueueLease \<Rightarrow> unit eng" where
  "execute g cfg lease =
     bindw (ctx_call g (query (\<lambda>db. Snapshot db (lease_RunID lease)))) (\<lambda>snapshot.
     bindw (execute_keys g lease (latestAttempts (snap_Steps snapshot)) (orderedKeys (snap_Steps snapshot))) (\<lambda>all_done.
     if \<not> all_done then returnw ()
     else
       bindw (finishSuccess g lease) (\<lambda>_.
       bg_call g (transact (\<lambda>_. CompactRunLogs (lease_RunID lease) (cfg_HotLogLimit cfg))))))"

subsection \<open>Recovery\<close>

definition unavailableExecutor :: "StepExecution \<Rightarrow> StepResult" where
  "unavailableExecutor execution =
     emptyResult\<lparr>res_State := StepUnavailable, res_ErrorCode := ''adapter_unavailable'',
       res_ErrorMessage := ''no adapter owns deployment step '' @ step_key_string (step_Key (ex_Step execution))\<rparr>"

definition conservativeReconciler :: "ReconcileRequest \<Rightarrow> ReconcileResult" where
  "conservativeReconciler request =
     \<lparr> rec_Action = ReconcileFail, rec_StepResult = emptyResult,
       rec_TerminalCode = ''restart_evidence_missing'',
       rec_Reason = ''Cannot prove the outcome of interrupted step '' @
         (case rq_Step request of None \<Rightarrow> ''unknown side effect'' | Some s \<Rightarrow> step_key_string (step_Key s)) \<rparr>"

definition active_step :: "RunStep list \<Rightarrow> RunStep option" where
  "active_step steps =
     foldl (\<lambda>active step.
        if step_State step = StepRunning \<and>
           (case active of None \<Rightarrow> True
            | Some a \<Rightarrow> step_Ordinal a < step_Ordinal step \<or> step_Attempt a < step_Attempt step)
        then Some step else active) None steps"

definition reconcilePreparation :: "engine_env \<Rightarrow> RunStep option \<Rightarrow> ReconcileResult \<Rightarrow> QueueLease \<Rightarrow> unit eng" where
  "reconcilePreparation g active decision lease =
     (let step = (\<lambda>key input. bindw (ctx_call g (TransitionStep (lease_RunID lease) key (lease_Token lease) input))
                    (\<lambda>_. returnw ()));
          result = rec_StepResult decision in
      case active of
        None \<Rightarrow>
          if rec_Action decision = ReconcileFail
          then failRun g lease (rec_TerminalCode decision) (rec_Reason decision) (res_Recovered result)
          else returnw ()
      | Some a \<Rightarrow>
          (case rec_Action decision of
             ReconcileComplete \<Rightarrow>
               step (step_Key a)
                 (step_input (if res_State result = StepStateOther [] then result\<lparr>res_State := StepPassed\<rparr> else result))
           | ReconcileResume \<Rightarrow>
               bindw (step (step_Key a) ((step_to StepFailed)\<lparr>in_ErrorCode := ''interrupted'',
                        in_ErrorMessage := ''Backend restarted during step''\<rparr>))
                 (\<lambda>_. step (step_Key a) ((step_to StepPending)\<lparr>in_Retry := True\<rparr>))
           | ReconcileFail \<Rightarrow>
               (let state = (if res_State result \<noteq> StepFailed \<and> res_State result \<noteq> StepUnavailable
                             then StepFailed else res_State result) in
                bindw (step (step_Key a) ((step_input result)\<lparr>in_State := state,
                         in_ErrorCode := rec_TerminalCode decision, in_ErrorMessage := rec_Reason decision\<rparr>))
                  (\<lambda>_. failRun g lease (rec_TerminalCode decision) (rec_Reason decision) (res_Recovered result)))
           | ReconcileOther _ \<Rightarrow> failw (ErrMessage ''invalid reconciliation action'')))"

text \<open>The body of a worker: the preparation of a recovered run, if any, and then the steps.\<close>

definition worker :: "engine_env \<Rightarrow> EngineConfig \<Rightarrow> QueueLease \<Rightarrow> unit eng option \<Rightarrow> unit eng" where
  "worker g cfg lease prepared =
     bindw (case prepared of None \<Rightarrow> returnw () | Some p \<Rightarrow> p) (\<lambda>_. execute g cfg lease)"

text \<open>
  The recovery loop: every expired lease is taken over under a new token before its steps are
  read; the result is the list of workers to start, each with its lease and its decision.
\<close>

fun reconcile_leases ::
  "engine_env \<Rightarrow> EngineConfig \<Rightarrow> QueueLease list \<Rightarrow> (QueueLease \<times> RunStep option \<times> ReconcileResult) list eng" where
  "reconcile_leases g cfg [] = returnw []"
| "reconcile_leases g cfg (stale # rest) = (\<lambda>w.
     case ctx_call g (transact (\<lambda>now. ReclaimExpiredLease stale (cfg_WorkerID cfg) (cfg_LeaseTTL cfg) now (g_rand g (w_tick w)))) w of
       (Inl e, w') \<Rightarrow> if e = ErrLeaseLost then reconcile_leases g cfg rest w' else (Err e, w')
     | (Inr lease, w') \<Rightarrow>
         bindw (ctx_call g (query (\<lambda>db. Snapshot db (lease_RunID lease)))) (\<lambda>snapshot.
         let active = active_step (snap_Steps snapshot);
             decision = g_reconcile g \<lparr> rq_Run = snap_Run snapshot, rq_Step = active, rq_Lease = lease \<rparr> in
         bindw (reconcile_leases g cfg rest) (\<lambda>workers. returnw ((lease, active, decision) # workers))) w')"

definition reconcileExpired ::
  "engine_env \<Rightarrow> EngineConfig \<Rightarrow> (QueueLease \<times> RunStep option \<times> ReconcileResult) list eng" where
  "reconcileExpired g cfg =
     bindw (ctx_call g (\<lambda>now s. (Ok (ExpiredLeases now (o_db s)), s))) (reconcile_leases g cfg)"

subsection \<open>What the engine keeps\<close>

text \<open>
  The rest of the program, as a worker relies on it: between two calls it uses the store through
  its operations only, so the invariant holds and runs and attempts move forward; clocks do not
  read the epoch and random tokens have bytes.
\<close>

definition rely :: "engine_env \<Rightarrow> bool" where
  "rely g \<longleftrightarrow>
     (\<forall>n s c. store_ok s (fst (g_other g n (s, c)))) \<and>
     (\<forall>n. unix (g_clock g n) \<noteq> 0) \<and> (\<forall>n. g_rand g n \<noteq> Some [])"

named_theorems eng \<open>rules for what a computation of the engine keeps\<close>

definition eng_ok :: "'a eng \<Rightarrow> bool" where
  "eng_ok m \<longleftrightarrow> (\<forall>w. store_ok (w_store w) (w_store (snd (m w))))"

lemma eng_ok_returnw [eng]: "eng_ok (returnw x)"
  by (simp add: eng_ok_def returnw_def store_ok_refl)

lemma eng_ok_failw [eng]: "eng_ok (failw e)"
  by (simp add: eng_ok_def failw_def store_ok_refl)

lemma eng_ok_ctx_state_now [eng]: "eng_ok ctx_state_now"
  by (simp add: eng_ok_def ctx_state_now_def store_ok_refl)

lemma eng_ok_bindw [eng]:
  assumes "eng_ok m" and "\<And>x. eng_ok (f x)"
  shows "eng_ok (bindw m f)"
  unfolding eng_ok_def
proof
  fix w
  obtain r w' where m: "m w = (r, w')" by fastforce
  then have 1: "store_ok (w_store w) (w_store w')" using assms(1) by (metis eng_ok_def snd_conv)
  show "store_ok (w_store w) (w_store (snd (bindw m f w)))"
  proof (cases r)
    case (Inr x)
    have "store_ok (w_store w') (w_store (snd (f x w')))" using assms(2) by (simp add: eng_ok_def)
    with 1 m Inr show ?thesis by (auto simp: bindw_def intro: store_ok_trans)
  qed (use 1 m in \<open>simp add: bindw_def\<close>)
qed

lemma eng_ok_if [eng]: "(b \<Longrightarrow> eng_ok m) \<Longrightarrow> (\<not> b \<Longrightarrow> eng_ok n) \<Longrightarrow> eng_ok (if b then m else n)"
  by simp

lemma interfere_ok: "rely g \<Longrightarrow> store_ok (w_store w) (w_store (interfere g w))"
  by (auto simp: rely_def interfere_def Let_def split: prod.split) (metis fst_conv)

lemma bg_call_ok:
  assumes "rely g" and "\<And>now s. unix now \<noteq> 0 \<Longrightarrow> store_ok s (snd (op now s))"
  shows "eng_ok (bg_call g op)"
  unfolding eng_ok_def
proof
  fix w
  let ?w1 = "interfere g w"
  have "store_ok (w_store ?w1) (snd (op (g_clock g (w_tick ?w1)) (w_store ?w1)))"
    using assms by (simp add: rely_def)
  then show "store_ok (w_store w) (w_store (snd (bg_call g op w)))"
    using interfere_ok [OF assms(1), of w]
    by (auto simp: bg_call_def Let_def split: prod.split intro: store_ok_trans)
qed

lemma ctx_call_ok:
  assumes "rely g" and "\<And>now s. unix now \<noteq> 0 \<Longrightarrow> store_ok s (snd (op now s))"
  shows "eng_ok (ctx_call g op)"
  using bg_call_ok [OF assms] interfere_ok [OF assms(1)] by (auto simp: eng_ok_def ctx_call_def)

lemma query_ok: "store_ok s (snd (query f now s))"
  by (simp add: query_def store_ok_refl)

lemmas call_ok = bg_call_ok ctx_call_ok query_ok transition_run.keeps transition_step.keeps append_log.keeps
  append_event.keeps request_cancellation.keeps

lemma op_calls_ok [eng]:
  "rely g \<Longrightarrow> eng_ok (bg_call g (query f))" "rely g \<Longrightarrow> eng_ok (ctx_call g (query f))"
  "rely g \<Longrightarrow> eng_ok (bg_call g (TransitionRun k tok to d))" "rely g \<Longrightarrow> eng_ok (ctx_call g (TransitionRun k tok to d))"
  "rely g \<Longrightarrow> eng_ok (bg_call g (TransitionStep k key tok inp))" "rely g \<Longrightarrow> eng_ok (ctx_call g (TransitionStep k key tok inp))"
  "rely g \<Longrightarrow> eng_ok (bg_call g (AppendLog x k i tok st v))" "rely g \<Longrightarrow> eng_ok (bg_call g (AppendEvent x k tok ei))"
  "rely g \<Longrightarrow> eng_ok (bg_call g (RequestCancellation k))"
  "rely g \<Longrightarrow> eng_ok (ctx_call g (transact (SetRunCommits k tok fc tc)))"
  "rely g \<Longrightarrow> eng_ok (bg_call g (transact (\<lambda>_. CompactRunLogs k keep)))"
  by ((rule bg_call_ok ctx_call_ok; assumption?), simp_all add: transact_def call_ok commits_op.keeps CompactRunLogs_ok)+

lemma transition_ok [eng]: "rely g \<Longrightarrow> eng_ok (transition g lease to d)"
  unfolding transition_def by (rule eng)

lemma run_now_ok [eng]: "rely g \<Longrightarrow> eng_ok (run_now g k)"
  unfolding run_now_def by (rule eng)

lemma advanceRunForStep_ok [eng]: "rely g \<Longrightarrow> eng_ok (advanceRunForStep g lease st key)"
  unfolding advanceRunForStep_def Let_def by (cases key; simp only: StepKey.case) (rule eng | assumption)+

lemma success_steps_ok [eng]: "rely g \<Longrightarrow> eng_ok (success_steps g lease states run)"
proof (induction states arbitrary: run)
  case Nil
  show ?case by (simp only: success_steps.simps) (rule eng)
next
  case (Cons st states)
  show ?case by (simp only: success_steps.simps) (rule eng Cons.prems Cons.IH)+
qed

lemma finishSuccess_ok [eng]: "rely g \<Longrightarrow> eng_ok (finishSuccess g lease)"
  unfolding finishSuccess_def by (rule eng | assumption)+

lemma failRun_ok [eng]: "rely g \<Longrightarrow> eng_ok (failRun g lease code reason rec)"
  unfolding failRun_def Let_def by (rule eng | assumption)+

lemma cancel_steps_ok [eng]: "rely g \<Longrightarrow> eng_ok (cancel_steps g latest k tok keys)"
proof (induction keys)
  case Nil
  show ?case by (simp only: cancel_steps.simps) (rule eng)
next
  case (Cons key keys)
  show ?case
    by (cases "latest key"; simp only: cancel_steps.simps option.case) (rule Cons.IH eng Cons.prems)+
qed

lemma CancelOpenSteps_ok [eng]: "rely g \<Longrightarrow> eng_ok (CancelOpenSteps g k tok)"
  unfolding CancelOpenSteps_def by (rule eng | assumption)+

lemma eng_ok_tick: "(\<And>n. eng_ok (m n)) \<Longrightarrow> eng_ok (\<lambda>w. m (w_tick w) w)"
  by (simp add: eng_ok_def)

lemma finishCancellation_ok [eng]: "rely g \<Longrightarrow> eng_ok (finishCancellation g lease)"
  unfolding finishCancellation_def
  by (cases "g_cleaner g"; simp only: option.case)
     (rule eng eng_ok_tick [where m = "\<lambda>n. bindw (bg_call g (AppendEvent _ _ _ (cleanup_event (cleanup_document g (_ n))))) _"] | assumption)+

lemma run_outputs_ok: "rely g \<Longrightarrow> store_ok (w_store w) (w_store (snd (run_outputs g k i tok outs w)))"
proof (induction outs arbitrary: w)
  case Nil
  then show ?case by (simp add: store_ok_refl)
next
  case (Cons out outs)
  let ?m = "bg_call g (case out of OutLog stream body \<Rightarrow> AppendLog (g_ext g) k i tok stream body
        | OutEvent input \<Rightarrow> AppendEvent (g_ext g) k tok (input\<lparr>ei_StepID := i\<rparr>))"
  have "eng_ok ?m" using Cons.prems by (cases out) (simp_all add: eng)
  then have "store_ok (w_store w) (w_store (snd (?m w)))" by (simp add: eng_ok_def)
  then show ?case
    using Cons by (auto split: prod.split sum.split intro: store_ok_trans)
qed

lemma finish_step_ok [eng]: "rely g \<Longrightarrow> eng_ok (finish_step g lease key res)"
  unfolding finish_step_def by (rule eng | assumption)+

lemma after_execute_ok [eng]:
  assumes "rely g"
  shows "eng_ok (after_execute g lease key outErr result)"
proof -
  let ?fin = "\<lambda>cause. bindw (bg_call g (TransitionStep (lease_RunID lease) key (lease_Token lease) (cancelled_input cause result)))
       (\<lambda>_. bindw (finishCancellation g lease) (\<lambda>_. returnw False))"
  let ?go = "\<lambda>result. bindw (finish_step g lease key result) (\<lambda>_.
          if res_State result = StepFailed \<or> res_State result = StepUnavailable
          then bindw (failRun g lease (res_ErrorCode result) (res_ErrorMessage result) (res_Recovered result)) (\<lambda>_. returnw False)
          else if res_State result = StepCancelled then bindw (finishCancellation g lease) (\<lambda>_. returnw False)
          else returnw True)"
  have "eng_ok (?fin cause)" "eng_ok (?go res)" for cause res by (rule eng assms)+
  then show ?thesis
    by (auto simp: eng_ok_def after_execute_def Let_def store_ok_refl split: ctx_state.split ctx_cause.split)
qed

lemma execute_step_ok [eng]:
  assumes "rely g"
  shows "eng_ok (execute_step g lease key)"
  unfolding execute_step_def
proof (rule eng assms)+
  fix step run
  show "eng_ok (\<lambda>w0. let (outs, result) = g_execute g \<lparr> ex_Run = run, ex_Step = step, ex_ClaimToken = lease_Token lease \<rparr> (w_tick w0);
         (outErr, w1) = run_outputs g (lease_RunID lease) (step_ID step) (lease_Token lease) outs w0 in
     after_execute g lease key outErr result (interfere g w1))"
    unfolding eng_ok_def
  proof
    fix w0 :: world
    obtain outs result where e: "g_execute g \<lparr> ex_Run = run, ex_Step = step, ex_ClaimToken = lease_Token lease \<rparr> (w_tick w0) = (outs, result)"
      by fastforce
    obtain outErr w1 where o: "run_outputs g (lease_RunID lease) (step_ID step) (lease_Token lease) outs w0 = (outErr, w1)"
      by fastforce
    have "store_ok (w_store w0) (w_store w1)"
      using run_outputs_ok [OF assms, of w0 "lease_RunID lease" "step_ID step" "lease_Token lease" outs] o by simp
    also have "store_ok (w_store w1) (w_store (interfere g w1))" by (rule interfere_ok [OF assms])
    also have "store_ok (w_store (interfere g w1)) (w_store (snd (after_execute g lease key outErr result (interfere g w1))))"
      using after_execute_ok [OF assms] by (simp add: eng_ok_def)
    finally show "store_ok (w_store w0) (w_store (snd (let (outs, result) =
           g_execute g \<lparr> ex_Run = run, ex_Step = step, ex_ClaimToken = lease_Token lease \<rparr> (w_tick w0);
         (outErr, w1) = run_outputs g (lease_RunID lease) (step_ID step) (lease_Token lease) outs w0 in
       after_execute g lease key outErr result (interfere g w1))))"
      by (simp add: e o)
  qed
qed

lemma execute_keys_ok [eng]: "rely g \<Longrightarrow> eng_ok (execute_keys g lease latest keys)"
proof (induction keys)
  case Nil
  show ?case by (simp only: execute_keys.simps) (rule eng)
next
  case (Cons key keys)
  show ?case
    by (cases "latest key"; simp only: execute_keys.simps option.case) (rule Cons.IH eng Cons.prems)+
qed

lemma execute_ok [eng]: "rely g \<Longrightarrow> eng_ok (execute g cfg lease)"
  unfolding execute_def by (rule eng | assumption)+

lemma reconcilePreparation_ok [eng]: "rely g \<Longrightarrow> eng_ok (reconcilePreparation g active decision lease)"
  unfolding reconcilePreparation_def Let_def
  by (cases active; cases "rec_Action decision"; simp only: option.case ReconcileAction.case)
     (rule eng | assumption)+

end
