(* ===== verification/Deploy_Worker.thy ===== *)
theory Deploy_Worker
  imports Deploy_Engine
begin

text \<open>
  What a worker achieves: pre- and postconditions for the engine's computations over stores that
  meet the invariant, the runs that have ended, and that a worker which returns without an error
  leaves its run in a terminal state.
\<close>

subsection \<open>Pre- and postconditions\<close>

definition ended :: "int \<Rightarrow> db \<Rightarrow> bool" where
  "ended k db \<longleftrightarrow> (case run_by_id db k of None \<Rightarrow> False | Some r \<Rightarrow> Terminal (r_state r))"

definition triple :: "(db \<Rightarrow> bool) \<Rightarrow> 'a eng \<Rightarrow> ('a \<Rightarrow> db \<Rightarrow> bool) \<Rightarrow> bool" where
  "triple P m Q \<longleftrightarrow> (\<forall>w x w'. store_inv (o_db (w_store w)) \<and> P (o_db (w_store w)) \<and> m w = (Ok x, w') \<longrightarrow>
     store_inv (o_db (w_store w')) \<and> Q x (o_db (w_store w')))"

named_theorems trip \<open>rules for the conditions of a computation of the engine\<close>

lemma triple_return: "(\<And>db. P db \<Longrightarrow> Q x db) \<Longrightarrow> triple P (returnw x) Q"
  by (auto simp: triple_def returnw_def)

lemma triple_fail [trip]: "triple P (failw e) Q"
  by (simp add: triple_def failw_def)

lemma triple_bind:
  assumes "triple P m R" and "\<And>x. triple (R x) (f x) Q"
  shows "triple P (bindw m f) Q"
  unfolding triple_def
proof (intro allI impI, elim conjE)
  fix w y w'
  assume w: "store_inv (o_db (w_store w))" "P (o_db (w_store w))" and b: "bindw m f w = (Ok y, w')"
  from b obtain x w1 where m: "m w = (Ok x, w1)" and f: "f x w1 = (Ok y, w')"
    by (auto simp: bindw_def split: prod.split_asm sum.split_asm)
  from w m assms(1) have "store_inv (o_db (w_store w1))" "R x (o_db (w_store w1))" by (auto simp: triple_def)
  with f assms(2) [of x] show "store_inv (o_db (w_store w')) \<and> Q y (o_db (w_store w'))"
    by (auto simp: triple_def)
qed

lemma triple_if: "(b \<Longrightarrow> triple P m Q) \<Longrightarrow> (\<not> b \<Longrightarrow> triple P n Q) \<Longrightarrow> triple P (if b then m else n) Q"
  by simp

text \<open>A computation that chooses another by the world it starts in.\<close>

lemma triple_at: "(\<And>w. \<exists>m'. triple P m' Q \<and> m w = m' w) \<Longrightarrow> triple P m Q"
  unfolding triple_def by metis

lemma triple_weaken: "triple P m R \<Longrightarrow> (\<And>db. P' db \<Longrightarrow> P db) \<Longrightarrow> (\<And>x db. R x db \<Longrightarrow> Q x db) \<Longrightarrow> triple P' m Q"
  unfolding triple_def by meson

lemma triple_any: "eng_ok m \<Longrightarrow> triple P m (\<lambda>_ _. True)"
  unfolding triple_def eng_ok_def store_ok_def by (metis snd_conv)

lemma triple_then:
  "eng_ok m \<Longrightarrow> (\<And>x. triple (\<lambda>_. True) (f x) Q) \<Longrightarrow> triple P (bindw m f) Q"
  by (rule triple_bind [OF triple_any])

subsection \<open>Ended runs stay ended\<close>

lemma ended_follow:
  assumes "runs_follow db db'" and "ended k db"
  shows "ended k db'"
proof -
  from assms(2) obtain r where r: "run_by_id db k = Some r" "Terminal (r_state r)"
    by (auto simp: ended_def split: option.split_asm)
  with assms(1) obtain r' ts where r': "run_by_id db' k = Some r'" "run_path (r_state r) ts (r_state r')"
    unfolding runs_follow_def by blast
  from r'(2) r(2) have "r_state r' = r_state r" by cases (auto dest: Terminal_no_transition)
  with r r' show ?thesis by (simp add: ended_def)
qed

lemma triple_ended: "eng_ok m \<Longrightarrow> triple (ended k) m (\<lambda>_. ended k)"
  unfolding triple_def eng_ok_def store_ok_def by (metis snd_conv ended_follow)

subsection \<open>The calls\<close>

lemma bg_call_triple:
  assumes "rely g"
    and "\<And>now s x s'. unix now \<noteq> 0 \<Longrightarrow> store_inv (o_db s) \<Longrightarrow> op now s = (Ok x, s') \<Longrightarrow>
      store_inv (o_db s') \<and> Q x (o_db s')"
  shows "triple P (bg_call g op) Q"
  unfolding triple_def
proof (intro allI impI, elim conjE)
  fix w x w'
  assume inv: "store_inv (o_db (w_store w))" and c: "bg_call g op w = (Ok x, w')"
  let ?w1 = "interfere g w"
  from c obtain s where s: "op (g_clock g (w_tick ?w1)) (w_store ?w1) = (Ok x, s)" "w_store w' = s"
    by (auto simp: bg_call_def Let_def split: prod.split_asm)
  have "store_inv (o_db (w_store ?w1))"
    using interfere_ok [OF assms(1), of w] inv by (simp add: store_ok_def)
  then show "store_inv (o_db (w_store w')) \<and> Q x (o_db (w_store w'))"
    using assms(2) [OF _ _ s(1)] assms(1) s(2) by (simp add: rely_def)
qed

lemma ctx_call_triple:
  assumes "rely g"
    and "\<And>now s x s'. unix now \<noteq> 0 \<Longrightarrow> store_inv (o_db s) \<Longrightarrow> op now s = (Ok x, s') \<Longrightarrow>
      store_inv (o_db s') \<and> Q x (o_db s')"
  shows "triple P (ctx_call g op) Q"
  using bg_call_triple [of g op Q P, OF assms] by (auto simp: triple_def ctx_call_def split: if_split_asm)

definition reads_run :: "int \<Rightarrow> EngineRun \<Rightarrow> db \<Rightarrow> bool" where
  "reads_run k run db \<longleftrightarrow> (Terminal (State run) \<longrightarrow> ended k db)"

lemma query_run: "query (\<lambda>db. Run db k) now s = (Ok run, s') \<Longrightarrow> s' = s \<and> reads_run k run (o_db s)"
  by (auto simp: query_def Run_def reads_run_def ended_def scanEngineRun_def split: option.split_asm)

lemma TransitionRun_reads:
  assumes "store_inv (o_db s)" and "TransitionRun k tok to d now s = (Ok run, s')" and "unix now \<noteq> 0"
  shows "store_inv (o_db s') \<and> reads_run k run (o_db s') \<and> State run = to"
proof -
  have "store_inv (o_db s')"
    using transition_run.invariant [OF assms(3,1), of k tok to d] assms(2) by simp
  moreover from assms(2) obtain db' evs where
      t: "transitionRunTx k tok to d now (o_db s) = Ok (run, db', evs)" and s': "o_db s' = db'"
    by (auto simp: TransitionRun_def close_if_terminal_def commit_def split: sum.split_asm prod.split_asm if_split_asm)
  have li: "lease_inv (o_db s)" using assms(1) by (simp add: store_inv_def)
  obtain r where r: "run_by_id (o_db s) k = Some r" "r_id r = k"
      and c: "row_changed r_id (deploy_runs (o_db s)) r (transitioned to d now r) (deploy_runs db')"
      and x: "run = scanEngineRun (transitioned to d now r)"
    by (rule transitionRunTx_Ok [OF li t]) blast
  have "run_by_id db' k = Some (transitioned to d now r)"
    using row_changed_find [OF c, of k] r by (simp add: run_by_id_def)
  then have "reads_run k run (o_db s') \<and> State run = to"
    by (simp add: reads_run_def ended_def s' x scanEngineRun_def transitioned_def)
  ultimately show ?thesis by blast
qed

lemma run_now_triple: "rely g \<Longrightarrow> triple P (run_now g k) (reads_run k)"
  unfolding run_now_def by (rule ctx_call_triple) (auto dest: query_run)

lemma bg_run_triple: "rely g \<Longrightarrow> triple P (bg_call g (query (\<lambda>db. Run db k))) (reads_run k)"
  by (rule bg_call_triple) (auto dest: query_run)

lemma transition_triple:
  "rely g \<Longrightarrow> triple P (transition g lease to d) (\<lambda>run db. reads_run (lease_RunID lease) run db \<and> State run = to)"
  unfolding transition_def by (rule ctx_call_triple) (auto dest: TransitionRun_reads)

lemma bg_transition_triple:
  "rely g \<Longrightarrow> triple P (bg_call g (TransitionRun k tok to d)) (\<lambda>run db. reads_run k run db \<and> State run = to)"
  by (rule bg_call_triple) (auto dest: TransitionRun_reads)

lemma transition_ends:
  "rely g \<Longrightarrow> Terminal to \<Longrightarrow> triple P (bindw (transition g lease to d) (\<lambda>_. returnw ())) (\<lambda>_. ended (lease_RunID lease))"
  by (rule triple_bind [OF transition_triple], assumption) (rule triple_return, auto simp: reads_run_def)

subsection \<open>Ending a run\<close>

lemma success_steps_triple:
  "rely g \<Longrightarrow> triple (reads_run (lease_RunID lease) run) (success_steps g lease states run) (reads_run (lease_RunID lease))"
proof (induction states arbitrary: run)
  case Nil
  show ?case by (simp only: success_steps.simps) (rule triple_return)
next
  case (Cons st states)
  show ?case
    by (simp only: success_steps.simps)
       (intro triple_if triple_bind [OF transition_triple] Cons.IH Cons.prems
          triple_weaken [OF Cons.IH]; auto intro: Cons.prems)
qed

lemma finishSuccess_ends: "rely g \<Longrightarrow> triple P (finishSuccess g lease) (\<lambda>_. ended (lease_RunID lease))"
  unfolding finishSuccess_def
  by (rule triple_bind [OF run_now_triple], assumption, rule triple_bind [OF success_steps_triple], assumption)
     (auto intro!: triple_return triple_fail simp: reads_run_def)

lemma failRun_ends: "rely g \<Longrightarrow> triple P (failRun g lease code reason rec) (\<lambda>_. ended (lease_RunID lease))"
  unfolding failRun_def Let_def
  by (intro triple_then triple_if transition_ends run_now_ok transition_ok eng_ok_if eng_ok_returnw) auto

lemma bg_transition_ends:
  "rely g \<Longrightarrow> Terminal to \<Longrightarrow>
   triple P (bindw (bg_call g (TransitionRun k tok to d)) (\<lambda>_. returnw ())) (\<lambda>_. ended k)"
  by (rule triple_bind [OF bg_transition_triple], assumption) (rule triple_return, auto simp: reads_run_def)

lemma cleanup_ok:
  "rely g \<Longrightarrow> eng_ok (case g_cleaner g of
      None \<Rightarrow> returnw ()
    | Some cleaner \<Rightarrow> (\<lambda>w. bindw (bg_call g (AppendEvent (g_ext g) k tok
          (cleanup_event (cleanup_document g (cleaner run tok (w_tick w)))))) (\<lambda>_. returnw ()) w))"
  by (cases "g_cleaner g"; simp only: option.case)
     (rule eng eng_ok_tick [where m = "\<lambda>n. bindw (bg_call g (AppendEvent _ _ _ (cleanup_event (cleanup_document g (_ n))))) _"] | assumption)+

lemma finishCancellation_ends: "rely g \<Longrightarrow> triple P (finishCancellation g lease) (\<lambda>_. ended (lease_RunID lease))"
  unfolding finishCancellation_def
  by (rule triple_bind [OF bg_run_triple], assumption, rule triple_if)
     (rule triple_return triple_then bg_transition_ends cleanup_ok eng | assumption | simp add: reads_run_def)+

lemma ends_False:
  "triple P m (\<lambda>_. ended k) \<Longrightarrow> triple P (bindw m (\<lambda>_. returnw False)) (\<lambda>b db. \<not> b \<longrightarrow> ended k db)"
  by (erule triple_bind) (rule triple_return, simp)

lemma after_execute_ends:
  assumes "rely g"
  shows "triple P (after_execute g lease key outErr result) (\<lambda>b db. \<not> b \<longrightarrow> ended (lease_RunID lease) db)"
proof -
  let ?Q = "\<lambda>b db. \<not> b \<longrightarrow> ended (lease_RunID lease) db"
  let ?fin = "\<lambda>cause. bindw (bg_call g (TransitionStep (lease_RunID lease) key (lease_Token lease) (cancelled_input cause result)))
       (\<lambda>_. bindw (finishCancellation g lease) (\<lambda>_. returnw False))"
  let ?go = "\<lambda>result. bindw (finish_step g lease key result) (\<lambda>_.
          if res_State result = StepFailed \<or> res_State result = StepUnavailable
          then bindw (failRun g lease (res_ErrorCode result) (res_ErrorMessage result) (res_Recovered result)) (\<lambda>_. returnw False)
          else if res_State result = StepCancelled then bindw (finishCancellation g lease) (\<lambda>_. returnw False)
          else returnw True)"
  have 1: "triple P (?fin cause) ?Q" for cause
    by (rule triple_then, rule eng, rule assms) (rule ends_False finishCancellation_ends assms)+
  have 2: "triple P (?go res) ?Q" for res
    by (rule triple_then, rule eng, rule assms)
       (rule triple_if ends_False finishCancellation_ends failRun_ends assms | rule triple_return, simp)+
  show ?thesis
  proof (rule triple_at)
    fix w :: world
    consider "w_ctx w = CtxActive" | "w_ctx w = CtxCancelled LeaseLostCause"
      | cause where "w_ctx w = CtxCancelled cause" "cause \<noteq> LeaseLostCause"
      by (cases "w_ctx w") auto
    then show "\<exists>m'. triple P m' ?Q \<and> after_execute g lease key outErr result w = m' w"
    proof cases
      case 1
      then show ?thesis
        by (intro exI [of _ "?go (accepted_result outErr result)"] conjI 2) (simp add: after_execute_def Let_def)
    next
      case 2
      then show ?thesis
        by (intro exI [of _ "failw ErrLeaseLost"] conjI trip) (simp add: after_execute_def failw_def)
    next
      case (3 cause)
      then show ?thesis
        by (intro exI [of _ "?fin cause"] conjI 1) (simp add: after_execute_def split: ctx_cause.split)
    qed
  qed
qed

lemma execute_step_ends:
  assumes "rely g"
  shows "triple P (execute_step g lease key) (\<lambda>b db. \<not> b \<longrightarrow> ended (lease_RunID lease) db)"
  unfolding execute_step_def
proof (rule triple_then eng assms)+
  fix step run
  show "triple (\<lambda>_. True) (\<lambda>w0. let (outs, result) = g_execute g \<lparr> ex_Run = run, ex_Step = step, ex_ClaimToken = lease_Token lease \<rparr> (w_tick w0);
         (outErr, w1) = run_outputs g (lease_RunID lease) (step_ID step) (lease_Token lease) outs w0 in
     after_execute g lease key outErr result (interfere g w1)) (\<lambda>b db. \<not> b \<longrightarrow> ended (lease_RunID lease) db)"
    unfolding triple_def
  proof (intro allI impI, elim conjE)
    fix w0 b w' assume inv: "store_inv (o_db (w_store w0))"
      and e: "(let (outs, result) = g_execute g \<lparr> ex_Run = run, ex_Step = step, ex_ClaimToken = lease_Token lease \<rparr> (w_tick w0);
         (outErr, w1) = run_outputs g (lease_RunID lease) (step_ID step) (lease_Token lease) outs w0 in
     after_execute g lease key outErr result (interfere g w1)) = (Ok b, w')"
    obtain outs result where x: "g_execute g \<lparr> ex_Run = run, ex_Step = step, ex_ClaimToken = lease_Token lease \<rparr> (w_tick w0) = (outs, result)"
      by fastforce
    obtain outErr w1 where o: "run_outputs g (lease_RunID lease) (step_ID step) (lease_Token lease) outs w0 = (outErr, w1)"
      by fastforce
    have "store_ok (w_store w0) (w_store w1)"
      using run_outputs_ok [OF assms, of w0 "lease_RunID lease" "step_ID step" "lease_Token lease" outs] o by simp
    also have "store_ok (w_store w1) (w_store (interfere g w1))" by (rule interfere_ok [OF assms])
    finally have "store_inv (o_db (w_store (interfere g w1)))" using inv by (simp add: store_ok_def)
    moreover have "after_execute g lease key outErr result (interfere g w1) = (Ok b, w')" using e x o by simp
    ultimately show "store_inv (o_db (w_store w')) \<and> (\<not> b \<longrightarrow> ended (lease_RunID lease) (o_db (w_store w')))"
      using after_execute_ends [OF assms, of "\<lambda>_. True" lease key outErr result] by (auto simp: triple_def)
  qed
qed

lemma execute_keys_ends:
  "rely g \<Longrightarrow> triple P (execute_keys g lease latest keys) (\<lambda>b db. \<not> b \<longrightarrow> ended (lease_RunID lease) db)"
proof (induction keys arbitrary: P)
  case Nil
  show ?case by (simp only: execute_keys.simps) (rule triple_return, simp)
next
  case (Cons key keys)
  let ?Q = "\<lambda>b db. \<not> b \<longrightarrow> ended (lease_RunID lease) db"
  have rest: "triple (\<lambda>_. True) (case latest key of
           None \<Rightarrow> failw ErrPanic
         | Some step \<Rightarrow>
             if stepAttemptTerminal (step_State step) then execute_keys g lease latest keys
             else if step_State step = StepRunning
             then failw (ErrMessage ''step is still running without reconciliation'')
             else bindw (execute_step g lease key) (\<lambda>goes_on.
               if goes_on then execute_keys g lease latest keys else returnw False)) ?Q"
    by (cases "latest key"; simp only: option.case)
       (rule Cons.prems Cons.IH trip triple_if triple_bind [OF execute_step_ends] | rule triple_return, simp)+
  show ?case
    unfolding execute_keys.simps
    by (rule triple_bind [OF run_now_triple], rule Cons.prems, rule triple_if, rule triple_return,
        simp add: reads_run_def, rule triple_then, rule eng)
       (rule triple_if ends_False finishCancellation_ends Cons.prems triple_then eng rest)+
qed

text \<open>A worker that returns without an error leaves its run in a terminal state.\<close>

lemma execute_ends: "rely g \<Longrightarrow> triple P (execute g cfg lease) (\<lambda>_. ended (lease_RunID lease))"
  unfolding execute_def
  by (rule triple_then, rule eng, assumption, rule triple_bind [OF execute_keys_ends], assumption, rule triple_if)
     (rule triple_return triple_bind [OF finishSuccess_ends] triple_ended eng | assumption | simp)+

subsection \<open>The latest attempts\<close>

lemma latestAttempts_fold_known:
  "step_Key s \<in> dom (foldl (\<lambda>m step. case m (step_Key step) of
        Some prior \<Rightarrow> if step_Attempt prior < step_Attempt step then m(step_Key step \<mapsto> step) else m
      | None \<Rightarrow> m(step_Key step \<mapsto> step)) m steps)"
  if "s \<in> set steps \<or> step_Key s \<in> dom m"
  using that
proof (induction steps arbitrary: m)
  case (Cons a steps)
  show ?case unfolding foldl_Cons
    by (rule Cons.IH) (use Cons.prems in \<open>auto split: option.split\<close>)
qed simp

lemma latestAttempts_known: "s \<in> set steps \<Longrightarrow> latestAttempts steps (step_Key s) \<noteq> None"
  using latestAttempts_fold_known [of s steps "\<lambda>_. None"] by (auto simp: latestAttempts_def dom_def)

subsection \<open>Results and cancellations the engine does not carry through\<close>

text \<open>Calls before which nobody else acts.\<close>

definition undisturbed :: "engine_env \<Rightarrow> world \<Rightarrow> bool" where
  "undisturbed g w \<longleftrightarrow> g_other g (w_tick w) (w_store w, w_ctx w) = (w_store w, w_ctx w)"

lemma undisturbed_interfere: "undisturbed g w \<Longrightarrow> interfere g w = w\<lparr>w_tick := Suc (w_tick w)\<rparr>"
  by (simp add: undisturbed_def interfere_def)

lemma undisturbed_call:
  "undisturbed g w \<Longrightarrow> w_ctx w = CtxActive \<Longrightarrow>
   ctx_call g op w =
     (fst (op (g_clock g (Suc (w_tick w))) (w_store w)),
      w\<lparr>w_tick := Suc (w_tick w), w_store := snd (op (g_clock g (Suc (w_tick w))) (w_store w))\<rparr>)"
  by (simp add: ctx_call_def bg_call_def undisturbed_interfere Let_def split_beta)

lemma TransitionStep_refused:
  assumes "latest_step runID key (o_db s) = Some st"
    and "\<not> CanTransitionStep (s_status st) (in_State input)"
  shows "snd (TransitionStep runID key tok input now s) = s \<and>
    (\<exists>e. fst (TransitionStep runID key tok input now s) = Err e)"
  using assms
  by (auto simp: TransitionStep_def transitionStepTx_def bindr_def guardr_def ValidateStepTransition_def commit_def
      split: sum.split)

lemma after_execute_skipped:
  assumes "undisturbed g w" and "w_ctx w = CtxActive" and "res_State result = StepSkipped"
    and "res_FromCommit result = []" and "res_ToCommit result = []"
    and "latest_step (lease_RunID lease) key (o_db (w_store w)) = Some st" and "s_status st = StepRunning"
  shows "\<exists>e. fst (after_execute g lease key None result w) = Err e"
    and "w_store (snd (after_execute g lease key None result w)) = w_store w"
proof -
  have a: "accepted_result None result = result" using assms(3) by (simp add: accepted_result_def Let_def)
  have c: "\<not> CanTransitionStep (s_status st) (in_State (step_input result))"
    using assms(3,7) by (simp add: step_input_def CanTransitionStep_def)
  obtain e where "TransitionStep (lease_RunID lease) key (lease_Token lease) (step_input result)
      (g_clock g (Suc (w_tick w))) (w_store w) = (Err e, w_store w)"
    using TransitionStep_refused [OF assms(6) c, of "lease_Token lease" "g_clock g (Suc (w_tick w))"]
    by (metis prod.collapse)
  then have "after_execute g lease key None result w = (Err e, w\<lparr>w_tick := Suc (w_tick w), w_store := w_store w\<rparr>)"
    using assms(1-5) by (simp add: after_execute_def finish_step_def bindw_def returnw_def undisturbed_call a)
  then show "\<exists>e. fst (after_execute g lease key None result w) = Err e"
    "w_store (snd (after_execute g lease key None result w)) = w_store w"
    by auto
qed

text \<open>A context cancelled between two steps fails the read of the run before the cancellation is seen.\<close>

lemma execute_keys_cancelled:
  assumes "undisturbed g w" and "w_ctx w = CtxCancelled cause"
  shows "execute_keys g lease latest (key # keys) w = (Err ErrContextCanceled, w\<lparr>w_tick := Suc (w_tick w)\<rparr>)"
  using assms by (simp add: bindw_def run_now_def ctx_call_def undisturbed_interfere)

end
