(* ===== verification/Deploy_Samples.thy ===== *)
theory Deploy_Samples
  imports Deploy_Worker
begin

text \<open>
  Concrete stores on which the properties of the orchestration are applied: a database with two
  environments and no run, a request, a store with one claimed run in a given state, and an engine
  whose adapters answer at once and beside which nobody else uses the store.
\<close>

definition sampleExt :: externals where
  "sampleExt =
     \<lparr> x_sha256 = (\<lambda>s. take 16 (s @ replicate 16 (CHR ''x''))), x_text_length = length,
       x_text_tail = (\<lambda>n s. drop (length s - n) s), x_dep_json = (\<lambda>_. Some ''{}''),
       x_check_json = (\<lambda>_. Some ''{}'') \<rparr>"

definition sampleEnv :: "int \<Rightarrow> env_row" where
  "sampleEnv k =
     \<lparr> e_id = k, e_project_id = 1, e_slug = ''production'', e_kind = ''production'',
       e_desired_revision = 1, e_live_release_id = 0,
       e_strategy = ''stop_first'', e_expected_downtime = 1, e_updated_at = 1, e_archived_at = 0 \<rparr>"

definition emptyDb :: db where
  "emptyDb =
     \<lparr> deploy_environments = [sampleEnv 1, sampleEnv 2], deploy_sources = [], deploy_build_plans = [],
       deploy_runtime_plans = [], deploy_runs = [], deploy_steps = [],
       deploy_log_chunks = [], deploy_queue_leases = [], deploy_variable_revisions = [],
       deploy_run_variable_snapshots = [], deploy_run_variable_revisions = [],
       deploy_run_plan_snapshots = [], deploy_dependencies = [], deploy_checks = [],
       deploy_releases = [], deploy_release_runtimes = [], deploy_port_leases = [],
       next_run_id = 1, next_step_id = 1, next_port_lease_id = 1,
       next_source_id = 1, next_build_plan_id = 1, next_runtime_plan_id = 1, next_variable_id = 1 \<rparr>"

definition store_of :: "db \<Rightarrow> ostore" where
  "store_of db = \<lparr> o_db = db, o_broker = newEventBroker \<rparr>"

definition sampleReq :: RunRequest where
  "sampleReq =
     \<lparr> req_ProjectID = 1, req_EnvironmentID = 1, req_Operation = OperationDeploy,
       req_Trigger = TriggerManual, req_Actor = ''admin'', req_IdempotencyKey = ''k'',
       req_RequestDigest = ''d'', req_PlanRevision = 1, req_RetryOfRunID = 0,
       req_VariableSnapshotRunID = 0, req_Priority = 100, req_SlotClass = SlotLight,
       req_Metadata = ''{}'', req_Steps = [StepNotify] \<rparr>"

definition sampleTime :: go_time where
  "sampleTime = 5000000000"

definition queuedDb :: db where
  "queuedDb = emptyDb\<lparr>deploy_runs := [queued_row 1 sampleReq sampleTime],
     deploy_steps := [new_step_row 1 1 0 StepNotify], next_run_id := 2, next_step_id := 2\<rparr>"

definition sampleLease :: lease_row where
  "sampleLease =
     \<lparr> l_run_id = 1, l_environment_id = 1, l_claim_token = ''aa'', l_slot_class = SlotLight,
       l_claimed_by = ''w'', l_expires_at = 9, l_heartbeat_at = 4, l_created_at = 4 \<rparr>"

definition claimedDb :: "RunState \<Rightarrow> StepState \<Rightarrow> db" where
  "claimedDb state step_state =
     queuedDb\<lparr>deploy_runs := [(queued_row 1 sampleReq sampleTime)\<lparr>r_state := state, r_lease_token := ''aa'', r_lease_until := 9\<rparr>],
       deploy_steps := [(new_step_row 1 1 0 StepNotify)\<lparr>s_status := step_state\<rparr>],
       deploy_queue_leases := [sampleLease]\<rparr>"

lemmas sample_defs = sampleEnv_def emptyDb_def store_of_def sampleReq_def sampleTime_def queuedDb_def
  sampleLease_def claimedDb_def queued_row_def new_run_row_def new_step_row_def

lemma fresh_emptyDb: "fresh_store (store_of emptyDb)"
  by (simp add: fresh_store_def sample_defs live_inv_def)

lemma queuedDb_inv: "store_inv queuedDb"
  by (simp add: store_inv_def sample_defs lease_inv_def idem_inv_def chunks_inv_def step_inv_def live_inv_def
      port_inv_def idle_run_def unix_def)

lemma claimedDb_inv: "claimed_state st \<Longrightarrow> store_inv (claimedDb st sst)"
  by (simp add: store_inv_def sample_defs lease_inv_def idem_inv_def chunks_inv_def step_inv_def live_inv_def
      port_inv_def lease_matches_def)

lemma sampleTime_unix [simp]: "unix sampleTime = 5"
  by (simp add: sampleTime_def unix_def second_def)

text \<open>Some operations on these stores, evaluated.\<close>

lemma sample_normalized: "normalizeRunRequest sampleReq = Ok sampleReq"
proof -
  have "json_valid ''{}''" by code_simp
  then show ?thesis
    by (simp add: normalizeRunRequest_def sampleReq_def validStepKey_def DefaultStepKeys_def maxEventBytes_def Let_def slot_valid_def)
qed

lemma sample_enqueueTx: "\<exists>run db' evs. enqueueTx sampleExt sampleReq sampleTime emptyDb = Ok (run, db', evs)"
proof -
  have "case enqueueTx sampleExt sampleReq sampleTime emptyDb of Inr x \<Rightarrow> True | Inl e \<Rightarrow> False" by code_simp
  then show ?thesis by (cases "enqueueTx sampleExt sampleReq sampleTime emptyDb") auto
qed

lemma sample_enqueued: "\<exists>run s. Enqueue sampleExt sampleReq sampleTime (store_of emptyDb) = (Ok (Some run, True), s)"
proof -
  have "idempotentRun emptyDb sampleReq = Ok None" by (simp add: idempotentRun_def emptyDb_def)
  moreover have "req_IdempotencyKey sampleReq \<noteq> []" by (simp add: sampleReq_def)
  moreover obtain run db' evs where "enqueueTx sampleExt sampleReq sampleTime emptyDb = Ok (run, db', evs)"
    using sample_enqueueTx by blast
  ultimately show ?thesis by (simp add: Enqueue_def sample_normalized store_of_def)
qed

lemma sample_claimed:
  "\<exists>q db' evs. claimNextOnce ''w'' \<lparr> Heavy = 1, Light = 2 \<rparr> second sampleTime (Some ''a'') queuedDb = Ok (Some q, db', evs)"
proof -
  have "case claimNextOnce ''w'' \<lparr> Heavy = 1, Light = 2 \<rparr> second sampleTime (Some ''a'') queuedDb of
      Inr (Some q, x) \<Rightarrow> True | _ \<Rightarrow> False" by code_simp
  then show ?thesis
    by (auto split: sum.split_asm option.split_asm)
qed

end
