(* ===== verification/Deploy_Properties.thy ===== *)
theory Deploy_Properties
  imports Deploy_Samples
begin

text \<open>
  The properties of the deployment orchestration, each with an application to a concrete store
  where it has a hypothesis. The proofs rest on the lemmas of the component theories.
\<close>

subsection \<open>The store as a whole\<close>

text \<open>
  C1: the store's invariant holds in every store that any sequence of its operations reaches from
  one without runs. The invariant says that every claimed run has exactly one lease with its token
  and its environment, that an idempotency key names one run, that event numbers of a run are
  unique, that attempts of a step are numbered apart, that an environment has at most one live
  release, and that no port is leased twice.
\<close>

theorem reachable_store_invariant:
  assumes "fresh_store s0" and "store_reaches x s0 s"
  shows "store_inv (o_db s)"
  using store_reaches_ok [OF assms(2)] fresh_store_inv [OF assms(1)] by (simp add: store_ok_def)

lemma sample_reaches:
  "store_reaches sampleExt (store_of emptyDb) (snd (Enqueue sampleExt sampleReq sampleTime (store_of emptyDb)))"
  unfolding store_reaches_def by (intro r_into_rtranclp step_Enqueue) simp

theorem reachable_store_invariant_witness:
  "fresh_store (store_of emptyDb) \<and>
   store_reaches sampleExt (store_of emptyDb) (snd (Enqueue sampleExt sampleReq sampleTime (store_of emptyDb))) \<and>
   store_inv (o_db (snd (Enqueue sampleExt sampleReq sampleTime (store_of emptyDb))))"
  using reachable_store_invariant [OF fresh_emptyDb sample_reaches] fresh_emptyDb sample_reaches by blast



text \<open>
  C3: whatever operations run, a run keeps its identity and its state moves along the edges of the
  run machine, at most nine of them; a finished run does not move any more.
\<close>

theorem run_trajectory:
  assumes "store_inv (o_db s)" and "store_reaches x s s'" and "run_by_id (o_db s) k = Some r"
  shows "\<exists>r' ts. run_by_id (o_db s') k = Some r' \<and> run_identity r' = run_identity r \<and>
    run_path (r_state r) ts (r_state r') \<and> length ts \<le> 9 \<and> (Terminal (r_state r) \<longrightarrow> r_state r' = r_state r)"
proof -
  have "runs_follow (o_db s) (o_db s')"
    using store_reaches_ok [OF assms(2)] assms(1) by (simp add: store_ok_def)
  with assms(3) obtain r' ts where r': "run_by_id (o_db s') k = Some r'" "run_identity r' = run_identity r"
    "run_path (r_state r) ts (r_state r')" unfolding runs_follow_def by blast
  have "length ts \<le> 9" using run_path_rank [OF r'(3)] run_rank_le [of "r_state r'"] by linarith
  moreover have "Terminal (r_state r) \<Longrightarrow> r_state r' = r_state r"
    using r'(3) by cases (auto dest: Terminal_no_transition)
  ultimately show ?thesis using r' by blast
qed

lemma cancel_reaches: "store_reaches x s (snd (RequestCancellation k sampleTime s))"
  unfolding store_reaches_def by (intro r_into_rtranclp step_RequestCancellation) simp

theorem run_trajectory_witness:
  "\<exists>r' ts. run_by_id (o_db (snd (RequestCancellation 1 sampleTime (store_of queuedDb)))) 1 = Some r' \<and>
     run_identity r' = run_identity (queued_row 1 sampleReq sampleTime) \<and>
     run_path RunQueued ts (r_state r') \<and> length ts \<le> 9"
  using run_trajectory [of "store_of queuedDb" sampleExt "snd (RequestCancellation 1 sampleTime (store_of queuedDb))" 1
    "queued_row 1 sampleReq sampleTime", OF _ cancel_reaches] queuedDb_inv
  by (simp add: store_of_def run_by_id_def) (auto simp: sample_defs)

subsection \<open>Claims and leases\<close>

text \<open>
  C4: a claim takes a queued run that nobody asked to cancel, in an environment without a lease,
  and of all runs it could take the one with the highest priority, among these the one requested
  first, among these the one with the smallest identifier. The run is then being prepared under
  the new token and covered by a lease of its environment and slot class.
\<close>

theorem claim_takes_first_in_order:
  assumes "store_inv (o_db s)" and "ClaimNext who budget ttl clock rand s = (Ok (Some q), s')"
  shows "\<exists>r \<in> set (deploy_runs (o_db s)). r_id r = lease_RunID q \<and> r_state r = RunQueued \<and>
    \<not> r_cancel_requested r \<and>
    (\<forall>l \<in> set (deploy_queue_leases (o_db s)). l_environment_id l \<noteq> r_environment_id r) \<and>
    (\<forall>r2 \<in> set (deploy_runs (o_db s)).
       claimable (open_classes (budget_normalized budget) (o_db s)) (o_db s) r2 \<longrightarrow>
         r_priority r2 < r_priority r \<or> r_priority r2 = r_priority r \<and>
           (r_requested_at r < r_requested_at r2 \<or>
            r_requested_at r = r_requested_at r2 \<and> r_id r \<le> r_id r2)) \<and>
    (\<exists>r'. run_by_id (o_db s') (r_id r) = Some r' \<and> r_state r' = RunPreparing \<and>
       r_lease_token r' = lease_Token q \<and>
       (\<exists>l \<in> set (deploy_queue_leases (o_db s')). lease_matches l r'))"
proof -
  have inv: "distinct (map r_id (deploy_runs (o_db s)))" using assms(1) by (simp add: store_inv_def lease_inv_def)
  from assms(2) obtain db' evs where c: "claim_attempts 8 0 who budget ttl clock rand ErrLeaseLost (o_db s) = Ok (Some q, db', evs)"
    and s': "o_db s' = db'"
    by (auto simp: ClaimNext_def commit_def split: sum.split_asm prod.split_asm)
  from claim_attempts_Ok [OF c] obtain i where
    o: "claimNextOnce who budget ttl (clock i) (rand i) (o_db s) = Ok (Some q, db', evs)" by blast
  obtain raw r l r' where r: "lease_Token q = hex_encode raw" "lease_RunID q = r_id r"
      "sql_first_by claim_order (claimable (open_classes (budget_normalized budget) (o_db s)) (o_db s)) (deploy_runs (o_db s)) = Some r"
      "claims who ttl (clock i) (hex_encode raw) r l r'"
      "row_changed r_id (deploy_runs (o_db s)) r r' (deploy_runs db')"
      "deploy_queue_leases db' = deploy_queue_leases (o_db s) @ [l]"
    by (rule claimNextOnce_Some [OF inv o]) blast
  note first = sql_first_by_Some [OF r(3)]
  have "run_by_id db' (r_id r) = Some r'"
    using row_changed_find [OF r(5), of "r_id r"] r(4) by (simp add: run_by_id_def claims_def)
  moreover have "lease_matches l r'" "r_state r' = RunPreparing" "r_lease_token r' = lease_Token q"
    using r(1,4) by (simp_all add: claims_def lease_matches_def claimed_state_def)
  ultimately show ?thesis
    using first r(2,6) s'
    by (intro bexI [of _ r]) (auto simp: claimable_def claim_order_def less_eq_prod_def)
qed

lemma sample_ClaimNext:
  "\<exists>q s'. ClaimNext ''w'' \<lparr> Heavy = 1, Light = 2 \<rparr> second (\<lambda>_. sampleTime) (\<lambda>_. Some ''a'') (store_of queuedDb) = (Ok (Some q), s')"
proof -
  obtain q db' evs where
    "claimNextOnce ''w'' \<lparr> Heavy = 1, Light = 2 \<rparr> second sampleTime (Some ''a'') queuedDb = Ok (Some q, db', evs)"
    using sample_claimed by blast
  then have "claim_attempts 8 0 ''w'' \<lparr> Heavy = 1, Light = 2 \<rparr> second (\<lambda>_. sampleTime) (\<lambda>_. Some ''a'') ErrLeaseLost queuedDb
      = Ok (Some q, db', evs)" by (simp add: numeral_eq_Suc)
  then show ?thesis by (simp add: ClaimNext_def store_of_def)
qed

theorem claim_takes_first_in_order_witness:
  "\<exists>q s'. ClaimNext ''w'' \<lparr> Heavy = 1, Light = 2 \<rparr> second (\<lambda>_. sampleTime) (\<lambda>_. Some ''a'') (store_of queuedDb) = (Ok (Some q), s') \<and>
     lease_RunID q = 1 \<and> (\<exists>r'. run_by_id (o_db s') 1 = Some r' \<and> r_state r' = RunPreparing)"
proof -
  obtain q s' where c: "ClaimNext ''w'' \<lparr> Heavy = 1, Light = 2 \<rparr> second (\<lambda>_. sampleTime) (\<lambda>_. Some ''a'') (store_of queuedDb) = (Ok (Some q), s')"
    using sample_ClaimNext by blast
  have inv: "store_inv (o_db (store_of queuedDb))" using queuedDb_inv by (simp add: store_of_def)
  have "deploy_runs (o_db (store_of queuedDb)) = [queued_row 1 sampleReq sampleTime]"
    by (simp add: store_of_def queuedDb_def)
  moreover have "r_id (queued_row 1 sampleReq sampleTime) = 1" by (simp add: queued_row_def new_run_row_def)
  ultimately have "lease_RunID q = 1 \<and> (\<exists>r'. run_by_id (o_db s') 1 = Some r' \<and> r_state r' = RunPreparing)"
    using claim_takes_first_in_order [OF inv c] by auto
  with c show ?thesis by blast
qed

text \<open>
  A claim never opens more leases of a slot class than the normalised budget allows; a class
  over its budget only shrinks.
\<close>

theorem claim_within_budget:
  assumes "store_inv (o_db s)" and "ClaimNext who budget ttl clock rand s = (Ok (Some q), s')"
  shows "int (slot_count SlotHeavy (o_db s')) \<le> max (int (slot_count SlotHeavy (o_db s))) (Heavy (budget_normalized budget)) \<and>
         int (slot_count SlotLight (o_db s')) \<le> max (int (slot_count SlotLight (o_db s))) (Light (budget_normalized budget))"
proof -
  have inv: "distinct (map r_id (deploy_runs (o_db s)))" using assms(1) by (simp add: store_inv_def lease_inv_def)
  from assms(2) obtain db' evs where c: "claim_attempts 8 0 who budget ttl clock rand ErrLeaseLost (o_db s) = Ok (Some q, db', evs)"
    and s': "o_db s' = db'"
    by (auto simp: ClaimNext_def commit_def split: sum.split_asm prod.split_asm)
  from claim_attempts_Ok [OF c] obtain i where
    "claimNextOnce who budget ttl (clock i) (rand i) (o_db s) = Ok (Some q, db', evs)" by blast
  from claim_slot_bound [OF inv this] show ?thesis by (simp add: s')
qed

theorem claim_within_budget_witness:
  "\<exists>q s'. ClaimNext ''w'' \<lparr> Heavy = 1, Light = 2 \<rparr> second (\<lambda>_. sampleTime) (\<lambda>_. Some ''a'') (store_of queuedDb) = (Ok (Some q), s') \<and>
     slot_count SlotLight (o_db s') \<le> 2"
proof -
  obtain q s' where c: "ClaimNext ''w'' \<lparr> Heavy = 1, Light = 2 \<rparr> second (\<lambda>_. sampleTime) (\<lambda>_. Some ''a'') (store_of queuedDb) = (Ok (Some q), s')"
    using sample_ClaimNext by blast
  have inv: "store_inv (o_db (store_of queuedDb))" using queuedDb_inv by (simp add: store_of_def)
  have "slot_count SlotLight (o_db (store_of queuedDb)) = 0"
    by (simp add: slot_count_def store_of_def queuedDb_def emptyDb_def)
  with claim_within_budget [OF inv c] have "slot_count SlotLight (o_db s') \<le> 2"
    by (simp add: budget_normalized_def)
  with c show ?thesis by blast
qed









subsection \<open>Cancellation\<close>

text \<open>
  C7: from activation on a run cannot be cancelled: the request is refused without an effect, and
  no later operation brings the run to a cancelled state.
\<close>

theorem no_cancellation_after_activation:
  assumes "store_inv (o_db s)" and "run_by_id (o_db s) k = Some r"
    and "r_state r \<in> {RunActivating, RunFailedActivation, RunRestoringPrevious}"
    and "store_reaches x s s'"
  shows "RequestCancellation k now s = (Err ErrRunNotCancellable, s) \<and>
    (\<exists>r'. run_by_id (o_db s') k = Some r' \<and> r_state r' \<noteq> RunCancelling \<and> r_state r' \<noteq> RunCancelled \<and>
       r_state r' \<noteq> RunSuperseded)"
proof -
  have "\<not> Terminal (r_state r)" "\<not> CanTransitionRun (r_state r) RunCancelling"
    using assms(3) by (auto simp: CanTransitionRun_Cancelling)
  then have "requestCancellationTx k now (o_db s) = Err ErrRunNotCancellable"
    using assms(2) by (simp add: requestCancellationTx_def Let_def)
  moreover have "runs_follow (o_db s) (o_db s')"
    using store_reaches_ok [OF assms(4)] assms(1) by (simp add: store_ok_def)
  with assms(2) obtain r' ts where "run_by_id (o_db s') k = Some r'" "run_path (r_state r) ts (r_state r')"
    unfolding runs_follow_def by blast
  moreover from this(2) run_path_after_activation have
    "r_state r' \<in> {RunActivating, RunFailedActivation, RunRestoringPrevious, RunSucceeded, RunFailed, RunRolledBack}"
    using assms(3) by blast
  ultimately show ?thesis
    by (auto simp: RequestCancellation_def close_if_terminal_def)
qed

theorem no_cancellation_after_activation_witness:
  "RequestCancellation 1 sampleTime (store_of (claimedDb RunActivating StepRunning)) =
   (Err ErrRunNotCancellable, store_of (claimedDb RunActivating StepRunning))"
  using no_cancellation_after_activation [of "store_of (claimedDb RunActivating StepRunning)" 1
    "(queued_row 1 sampleReq sampleTime)\<lparr>r_state := RunActivating, r_lease_token := ''aa'', r_lease_until := 9\<rparr>"
    sampleExt "store_of (claimedDb RunActivating StepRunning)" sampleTime]
    claimedDb_inv [of RunActivating StepRunning]
  by (simp add: store_of_def claimed_state_def store_reaches_def run_by_id_def claimedDb_def)
     (simp add: queued_row_def new_run_row_def)

text \<open>
  An accepted cancellation ends a queued run at once; a claimed run is marked and keeps its
  token and its lease, so that its worker can clean up and end it.
\<close>

theorem cancellation_effect:
  assumes "store_inv (o_db s)" and "RequestCancellation k now s = (Ok run, s')"
  shows "\<exists>r r'. run_by_id (o_db s) k = Some r \<and> run_by_id (o_db s') k = Some r' \<and> r_cancel_requested r' \<and>
    (r_state r = RunQueued \<and> r_state r' = RunCancelled \<and> r_lease_token r' = [] \<and>
       (\<forall>l \<in> set (deploy_queue_leases (o_db s')). l_run_id l \<noteq> k) \<or>
     claimed_state (r_state r) \<and> r_state r' = RunCancelling \<and> r_lease_token r' = r_lease_token r \<and>
       deploy_queue_leases (o_db s') = deploy_queue_leases (o_db s))"
proof -
  have inv: "lease_inv (o_db s)" using assms(1) by (simp add: store_inv_def)
  from assms(2) obtain db' evs where t: "requestCancellationTx k now (o_db s) = Ok (run, db', evs)" and s': "o_db s' = db'"
    by (auto simp: RequestCancellation_def close_if_terminal_def commit_def split: sum.split_asm prod.split_asm if_split_asm)
  obtain r r' where r: "run_by_id (o_db s) k = Some r" "row_changed r_id (deploy_runs (o_db s)) r r' (deploy_runs db')"
    and alt: "r_state r = RunQueued \<and> deploy_queue_leases db' = sql_delete (\<lambda>l. l_run_id l = k) (deploy_queue_leases (o_db s)) \<and>
       r' = r\<lparr>r_state := RunCancelled, r_cancel_requested := True, r_status := legacyStatus RunCancelled,
              r_ended_at := unix now, r_lease_token := [], r_lease_until := 0\<rparr> \<or>
     claimed_state (r_state r) \<and> deploy_queue_leases db' = deploy_queue_leases (o_db s) \<and>
       r' = r\<lparr>r_state := RunCancelling, r_cancel_requested := True\<rparr>"
    by (rule requestCancellationTx_Ok [OF inv t]) blast
  have "r_id r = k" using r(1) by (auto simp: run_by_id_def find_Some_iff)
  then have "run_by_id db' k = Some r'"
    using row_changed_find [OF r(2), of k] alt by (auto simp: run_by_id_def)
  with r(1) alt s' show ?thesis by (auto simp: sql_delete_def)
qed

lemma sample_cancelled: "\<exists>run s'. RequestCancellation 1 sampleTime (store_of queuedDb) = (Ok run, s')"
proof -
  have "case requestCancellationTx 1 sampleTime queuedDb of Inr x \<Rightarrow> True | Inl e \<Rightarrow> False" by code_simp
  then obtain run db' evs where "requestCancellationTx 1 sampleTime queuedDb = Ok (run, db', evs)"
    by (cases "requestCancellationTx 1 sampleTime queuedDb") auto
  then show ?thesis by (simp add: RequestCancellation_def store_of_def close_if_terminal_def)
qed

theorem cancellation_effect_witness:
  "\<exists>run s' r'. RequestCancellation 1 sampleTime (store_of queuedDb) = (Ok run, s') \<and>
     run_by_id (o_db s') 1 = Some r' \<and> r_state r' = RunCancelled"
proof -
  obtain run s' where c: "RequestCancellation 1 sampleTime (store_of queuedDb) = (Ok run, s')"
    using sample_cancelled by blast
  have inv: "store_inv (o_db (store_of queuedDb))" using queuedDb_inv by (simp add: store_of_def)
  have "run_by_id (o_db (store_of queuedDb)) 1 = Some (queued_row 1 sampleReq sampleTime)"
    by (simp add: store_of_def queuedDb_def run_by_id_def queued_row_def new_run_row_def)
  moreover have "r_state (queued_row 1 sampleReq sampleTime) = RunQueued" by (simp add: queued_row_def)
  ultimately show ?thesis
    using cancellation_effect [OF inv c] c by (auto simp: claimed_state_def)
qed

subsection \<open>Requests\<close>

text \<open>
  A request that creates a run adds one row, queued and idle, with the steps asked for (the
  default list when none were) pending at their first attempt in that order, after the steps that
  were there; and the first three events of the transaction are the run's own.
\<close>

theorem enqueue_creates_queued_run:
  assumes "store_inv (o_db s)" and "Enqueue x req now s = (Ok (Some run, True), s')"
  shows "\<exists>r req' ss. normalizeRunRequest req = Ok req' \<and> ID run = next_run_id (o_db s) \<and>
    run_by_id (o_db s) (ID run) = None \<and> run_by_id (o_db s') (ID run) = Some r \<and>
    r_state r = RunQueued \<and> idle_run r \<and> same_request req r \<and> r_request_digest r = req_RequestDigest req \<and>
    deploy_steps (o_db s') = deploy_steps (o_db s) @ ss \<and>
    map s_step_key ss = (if req_Steps req = [] then DefaultStepKeys else req_Steps req) \<and>
    (\<forall>st \<in> set ss. s_run_id st = ID run \<and> s_status st = StepPending \<and> s_attempt st = 1) \<and>
    map s_ordinal ss = map int [1 ..< Suc (length ss)]"
proof -
  have inv: "lease_inv (o_db s)" using assms(1) by (simp add: store_inv_def)
  obtain req' evs where n: "normalizeRunRequest req = Ok req'" and e: "enqueueTx x req' now (o_db s) = Ok (run, o_db s', evs)"
    by (rule Enqueue_new [OF assms(2)])
  let ?k = "next_run_id (o_db s)"
  let ?r = "queued_row ?k req' now"
  note n' = normalizeRunRequest_Ok [OF n]
  have r: "run_by_id (o_db s') ?k = Some ?r" "ID run = ?k"
    using enqueueTx_run [OF inv e] by (simp_all add: scanEngineRun_def queued_row_def new_run_row_def)
  have none: "run_by_id (o_db s) ?k = None"
    using inv by (auto simp: run_by_id_def lease_inv_def find_None_iff)
  have st: "deploy_steps (o_db s') = deploy_steps (o_db s) @ new_steps (next_step_id (o_db s)) ?k 0 (req_Steps req')"
    using enqueueTx_tables [OF e] by simp
  let ?ss = "new_steps (next_step_id (o_db s)) ?k 0 (req_Steps req')"
  have "map s_step_key ?ss = req_Steps req'"
    by (simp add: new_steps_def new_step_row_def comp_def map_nth)
  moreover have "map s_ordinal ?ss = map int [1 ..< Suc (length ?ss)]"
    by (rule nth_equalityI) (simp_all add: new_steps_def new_step_row_def del: upt_Suc)
  moreover have "same_request req ?r \<and> r_request_digest ?r = req_RequestDigest req \<and> r_state ?r = RunQueued"
    using n' by (simp add: same_request_def queued_row_def new_run_row_def)
  moreover have "\<forall>st \<in> set ?ss. s_run_id st = ?k \<and> s_status st = StepPending \<and> s_attempt st = 1"
    by (auto simp: new_steps_def new_step_row_def)
  ultimately show ?thesis
    using n n' r none st queued_row_idle [of ?k req' now]
    by (intro exI [of _ ?r] exI [of _ req'] exI [of _ ?ss]) auto
qed

theorem enqueue_creates_queued_run_witness:
  "\<exists>run s'. Enqueue sampleExt sampleReq sampleTime (store_of emptyDb) = (Ok (Some run, True), s') \<and> ID run = 1 \<and>
     (\<exists>r. run_by_id (o_db s') 1 = Some r \<and> r_state r = RunQueued)"
proof -
  obtain run s' where e: "Enqueue sampleExt sampleReq sampleTime (store_of emptyDb) = (Ok (Some run, True), s')"
    using sample_enqueued by blast
  have inv: "store_inv (o_db (store_of emptyDb))" by (rule fresh_store_inv [OF fresh_emptyDb])
  have "next_run_id (o_db (store_of emptyDb)) = 1" by (simp add: store_of_def emptyDb_def)
  with enqueue_creates_queued_run [OF inv e] e show ?thesis by auto
qed

text \<open>
  C8: a request with an idempotency key is answered with the run it created for as long as that
  run exists: whatever happened to the store in between, the same request returns it and creates
  nothing, and the same key with another digest is a conflict without an effect.
\<close>

theorem idempotent_replay:
  assumes "store_inv (o_db s)" and "Enqueue x req now s = (Ok (Some run, True), s')"
    and "unix now \<noteq> 0" and "store_reaches y s' s''" and "req_IdempotencyKey req \<noteq> []"
    and "normalizeRunRequest other = Ok other'" and "req_RequestDigest other \<noteq> req_RequestDigest req"
    and "req_ProjectID other = req_ProjectID req" and "req_EnvironmentID other = req_EnvironmentID req"
    and "req_Operation other = req_Operation req" and "req_IdempotencyKey other = req_IdempotencyKey req"
  shows "(\<exists>run'. Enqueue z req now' s'' = (Ok (Some run', False), s'') \<and> ID run' = ID run) \<and>
    Enqueue z other now' s'' = (Err ErrIdempotencyConflict, s'')"
proof -
  have inv: "lease_inv (o_db s)" using assms(1) by (simp add: store_inv_def)
  obtain req' where n: "normalizeRunRequest req = Ok req'" by (rule Enqueue_new [OF assms(2)])
  have inv': "store_inv (o_db s')" using enqueue.invariant [OF assms(3,1), of x req] assms(2) by simp
  then have f: "runs_follow (o_db s') (o_db s'')" and inv2: "store_inv (o_db s'')"
    using store_reaches_ok [OF assms(4)] by (simp_all add: store_ok_def)
  obtain r where r: "run_by_id (o_db s'') (ID run) = Some r" "same_request req r"
    "r_request_digest r = req_RequestDigest req"
    by (rule Enqueue_later [OF inv assms(2) f])
  have idem: "idem_inv (o_db s'')" using inv2 by (simp add: store_inv_def)
  have "ID (scanEngineRun r) = ID run" using run_by_id_Some [OF r(1)] by (simp add: scanEngineRun_def)
  then have same: "\<exists>run'. Enqueue z req now' s'' = (Ok (Some run', False), s'') \<and> ID run' = ID run"
    using Enqueue_known [OF n assms(5) idem r(1,2), of z now'] r(3) by simp
  have "same_request other r" using r(2) assms(8-11) by (simp add: same_request_def)
  then have "Enqueue z other now' s'' = (Err ErrIdempotencyConflict, s'')"
    using Enqueue_known [OF assms(6) _ idem r(1), of z now'] r(3) assms(5,7,11) by simp
  with same show ?thesis by blast
qed

lemma sample_normalized_other:
  "normalizeRunRequest (sampleReq\<lparr>req_RequestDigest := ''e''\<rparr>) = Ok (sampleReq\<lparr>req_RequestDigest := ''e''\<rparr>)"
proof -
  have "json_valid ''{}''" by code_simp
  then show ?thesis
    by (simp add: normalizeRunRequest_def sampleReq_def validStepKey_def DefaultStepKeys_def maxEventBytes_def
        Let_def slot_valid_def)
qed

theorem idempotent_replay_witness:
  "\<exists>run s'. Enqueue sampleExt sampleReq sampleTime (store_of emptyDb) = (Ok (Some run, True), s') \<and>
     Enqueue sampleExt (sampleReq\<lparr>req_RequestDigest := ''e''\<rparr>) sampleTime s' = (Err ErrIdempotencyConflict, s') \<and>
     (\<exists>run'. Enqueue sampleExt sampleReq sampleTime s' = (Ok (Some run', False), s') \<and> ID run' = ID run)"
proof -
  obtain run s' where e: "Enqueue sampleExt sampleReq sampleTime (store_of emptyDb) = (Ok (Some run, True), s')"
    using sample_enqueued by blast
  have inv: "store_inv (o_db (store_of emptyDb))" by (rule fresh_store_inv [OF fresh_emptyDb])
  have u: "unix sampleTime \<noteq> 0" by simp
  have stay: "store_reaches sampleExt s' s'" by (simp add: store_reaches_def)
  have key: "req_IdempotencyKey sampleReq \<noteq> []" by (simp add: sampleReq_def)
  note t = idempotent_replay [OF inv e u stay key sample_normalized_other]
  show ?thesis using e t by (auto simp: sampleReq_def)
qed

text \<open>
  A request never supersedes a run that someone else should finish: a run that is not queued,
  has a lease, belongs to another environment, was started by hand or by a rollback, rolls back or
  removes the deployment is left as it was; and a request by hand supersedes nothing.
\<close>

theorem superseding_spares:
  assumes "store_inv db" and "supersedeEligibleTx req newRunID kind now db events = Ok (db', events')"
    and "run_by_id db k = Some r"
    and "k = newRunID \<or> r_state r \<noteq> RunQueued \<or> r_environment_id r \<noteq> req_EnvironmentID req \<or>
      protected_run (r_trigger r) (r_operation r) \<or>
      (\<exists>l \<in> set (deploy_queue_leases db). l_run_id l = k) \<or> protected_run (req_Trigger req) (req_Operation req)"
  shows "run_by_id db' k = Some r"
proof -
  have "distinct (map r_id (deploy_runs db))" using assms(1) by (simp add: store_inv_def lease_inv_def)
  from supersedeEligibleTx_untouched [OF assms(2) this assms(3,4)] assms(3) show ?thesis by simp
qed

lemma sample_supersede:
  "supersedeEligibleTx (sampleReq\<lparr>req_Trigger := TriggerGitHub\<rparr>) 7 ''staging'' sampleTime queuedDb [] = Ok (queuedDb, [])"
  by (simp add: supersedeEligibleTx_def supersede_candidates_def supersedable_def protected_run_def sample_defs)

theorem superseding_spares_witness:
  "supersedeEligibleTx (sampleReq\<lparr>req_Trigger := TriggerGitHub\<rparr>) 7 ''staging'' sampleTime queuedDb [] = Ok (queuedDb, []) \<and>
   run_by_id queuedDb 1 = Some (queued_row 1 sampleReq sampleTime)"
proof -
  have "run_by_id queuedDb 1 = Some (queued_row 1 sampleReq sampleTime)"
    by (simp add: run_by_id_def queuedDb_def queued_row_def new_run_row_def)
  from superseding_spares [OF queuedDb_inv sample_supersede this] sample_supersede show ?thesis
    by (simp add: protected_run_def queued_row_def new_run_row_def sampleReq_def)
qed

end
