(* ===== verification/Deploy_Run_Properties.thy ===== *)
theory Deploy_Run_Properties
  imports Deploy_Samples
begin

text \<open>
  The properties of a running deployment: its steps, its events and their readers, the release it
  activates, the ports it reserves and the engine that drives it.
\<close>

subsection \<open>Steps\<close>

text \<open>
  C9: whatever operations run, an attempt of a step keeps its run, key, position and number, and
  a finished attempt keeps all it recorded: its state, times, evidence, error and cleanup.
\<close>

theorem finished_attempts_are_frozen:
  assumes "store_inv (o_db s)" and "store_reaches x s s'" and "st \<in> set (deploy_steps (o_db s))"
  shows "\<exists>st' \<in> set (deploy_steps (o_db s')). attempt_follows st st' \<and>
    (stepAttemptTerminal (s_status st) \<longrightarrow> st'\<lparr>s_last_seq := 0\<rparr> = st\<lparr>s_last_seq := 0\<rparr>)"
proof -
  have "steps_follow (o_db s) (o_db s')" using store_reaches_ok [OF assms(2)] assms(1) by (simp add: store_ok_def)
  then obtain st' where "st' \<in> set (deploy_steps (o_db s'))" "attempt_follows st st'"
    using assms(3) by (auto simp: steps_follow_def)
  then show ?thesis by (intro bexI [of _ st']) (auto simp: attempt_follows_def step_content_def)
qed

lemma sample_step_reaches: "store_reaches x s (snd (TransitionStep k key tok input sampleTime s))"
  unfolding store_reaches_def by (intro r_into_rtranclp step_TransitionStep) simp

theorem finished_attempts_are_frozen_witness:
  "\<exists>st' \<in> set (deploy_steps (o_db (snd (TransitionStep 1 StepNotify ''aa'' (step_to StepRunning) sampleTime
      (store_of (claimedDb RunRunning StepPassed)))))). s_status st' = StepPassed"
proof -
  have inv: "store_inv (o_db (store_of (claimedDb RunRunning StepPassed)))"
    using claimedDb_inv [of RunRunning StepPassed] by (simp add: store_of_def claimed_state_def)
  have st: "(new_step_row 1 1 0 StepNotify)\<lparr>s_status := StepPassed\<rparr> \<in>
      set (deploy_steps (o_db (store_of (claimedDb RunRunning StepPassed))))"
    by (simp add: store_of_def claimedDb_def)
  from finished_attempts_are_frozen [OF inv
      sample_step_reaches [where x = sampleExt and k = 1 and key = StepNotify and tok = "''aa''"
        and input = "step_to StepRunning"] st]
  obtain st' where s: "st' \<in> set (deploy_steps (o_db (snd (TransitionStep 1 StepNotify ''aa'' (step_to StepRunning)
      sampleTime (store_of (claimedDb RunRunning StepPassed))))))"
    "attempt_edge\<^sup>*\<^sup>* StepPassed (s_status st')"
    by (auto simp: attempt_follows_def)
  have "s_status st' = StepPassed" by (rule terminal_stuck [OF s(2)]) simp
  with s(1) show ?thesis by blast
qed

text \<open>
  A failed step goes on only by an explicit retry back to pending, which opens a new attempt
  with the next number and leaves the failed one as it was.
\<close>

theorem retry_opens_a_new_attempt:
  assumes "store_inv db" and "transitionStepTx k key tok input now db = Ok (step, db', evs)"
    and "latest_step k key db = Some cur" and "s_status cur = StepFailed"
  shows "in_State input = StepPending \<and> in_Retry input \<and> step_State step = StepPending \<and>
    step_Attempt step = s_attempt cur + 1 \<and>
    (\<exists>old \<in> set (deploy_steps db'). step_content old = step_content cur)"
proof -
  obtain current stepID db1 and row :: step_row and ev :: RunEvent where cur': "latest_step k key db = Some current"
    and can: "CanTransitionStep (s_status current) (in_State input)"
    and w: "write_step input now current db = Ok (stepID, db1)" and r: "step_by_id db1 stepID = Some row"
    and x: "step = (scanRunStep row)\<lparr>step_LastSeq := ev_Seq ev\<rparr>"
    by (rule transitionStepTx_Ok [OF assms(2)]) blast
  have eq: "current = cur" using cur' assms(3) by simp
  have pend: "in_State input = StepPending" using can assms(4) by (simp add: eq CanTransitionStep_def)
  with w assms(4) have retry: "in_Retry input" and ins: "insert_attempt cur db = Ok (stepID, db1)"
    by (auto simp: write_step_def eq split: if_split_asm)
  have in_db: "cur \<in> set (deploy_steps db)" using latest_step_Some [OF assms(3)] by simp
  from ins have d1: "stepID = next_step_id db" "deploy_steps db1 = deploy_steps db @ [new_attempt (next_step_id db) cur]"
    by (auto simp: insert_attempt_def split: if_split_asm)
  have fresh: "\<forall>s \<in> set (deploy_steps db). s_id s \<noteq> next_step_id db" using assms(1) by (auto simp: store_inv_def step_inv_def)
  then have "find (\<lambda>s. s_id s = next_step_id db) (deploy_steps db) = None" by (simp add: find_None_iff)
  then have "row = new_attempt (next_step_id db) cur"
    using r d1 by (auto simp: step_by_id_def new_attempt_def find_append)
  then have "step_State step = StepPending \<and> step_Attempt step = s_attempt cur + 1"
    by (simp add: x scanRunStep_def new_attempt_def)
  moreover have "steps_follow db db'"
    using transitionStepTx_step [OF _ _ assms(2)] assms(1) by (simp add: store_inv_def)
  then have "\<exists>old \<in> set (deploy_steps db'). step_content old = step_content cur"
    using in_db assms(4) by (fastforce simp: steps_follow_def attempt_follows_def)
  ultimately show ?thesis using pend retry by simp
qed

lemma sample_retry:
  "\<exists>step db' evs. transitionStepTx 1 StepNotify ''aa'' ((step_to StepPending)\<lparr>in_Retry := True\<rparr>) sampleTime
     (claimedDb RunRunning StepFailed) = Ok (step, db', evs)"
proof -
  have "case transitionStepTx 1 StepNotify ''aa'' ((step_to StepPending)\<lparr>in_Retry := True\<rparr>) sampleTime
     (claimedDb RunRunning StepFailed) of Inr x \<Rightarrow> True | Inl e \<Rightarrow> False" by code_simp
  then show ?thesis by (auto split: sum.split_asm)
qed

theorem retry_opens_a_new_attempt_witness:
  "\<exists>step db' evs. transitionStepTx 1 StepNotify ''aa'' ((step_to StepPending)\<lparr>in_Retry := True\<rparr>) sampleTime
     (claimedDb RunRunning StepFailed) = Ok (step, db', evs) \<and> step_Attempt step = 2"
proof -
  obtain step db' evs where t: "transitionStepTx 1 StepNotify ''aa'' ((step_to StepPending)\<lparr>in_Retry := True\<rparr>) sampleTime
     (claimedDb RunRunning StepFailed) = Ok (step, db', evs)" using sample_retry by blast
  have inv: "store_inv (claimedDb RunRunning StepFailed)" by (rule claimedDb_inv) (simp add: claimed_state_def)
  have cur: "latest_step 1 StepNotify (claimedDb RunRunning StepFailed) =
      Some ((new_step_row 1 1 0 StepNotify)\<lparr>s_status := StepFailed\<rparr>)"
    by (simp add: latest_step_def sql_first_by_def claimedDb_def new_step_row_def)
  have f: "s_status ((new_step_row 1 1 0 StepNotify)\<lparr>s_status := StepFailed\<rparr>) = StepFailed" by simp
  have a: "s_attempt ((new_step_row 1 1 0 StepNotify)\<lparr>s_status := StepFailed\<rparr>) = 1" by (simp add: new_step_row_def)
  from retry_opens_a_new_attempt [OF inv t cur f] a have "step_Attempt step = 2" by simp
  with t show ?thesis by blast
qed

subsection \<open>Events\<close>

text \<open>
  An appended event gets the number after the largest of its run; the numbers of the run's
  events stay increasing, and those of other runs are untouched.
\<close>

theorem events_are_numbered_in_order:
  assumes "store_inv db" and "appendEventTx now k i ty stream v data db = Ok (ev, db')"
  shows "run_seqs (deploy_log_chunks db') k = run_seqs (deploy_log_chunks db) k @ [ev_Seq ev] \<and>
    sorted_wrt (<) (run_seqs (deploy_log_chunks db') k) \<and>
    ev_Seq ev = (if run_seqs (deploy_log_chunks db) k = [] then 1 else last (run_seqs (deploy_log_chunks db) k) + 1) \<and>
    (\<forall>h. h \<noteq> k \<longrightarrow> run_seqs (deploy_log_chunks db') h = run_seqs (deploy_log_chunks db) h)"
proof -
  note a = appendEventTx_Ok [OF assms(2), THEN conjunct1]
  note l = appended_logged [OF a]
  have r: "ev_RunID ev = k" by (rule appended_run [OF a])
  have inv: "chunks_inv (deploy_log_chunks db)" using assms(1) by (simp add: store_inv_def)
  have "ev_Seq ev = next_seq db k" using a by (auto simp: appended_def)
  then have "ev_Seq ev = (if run_seqs (deploy_log_chunks db) k = [] then 1 else last (run_seqs (deploy_log_chunks db) k) + 1)"
    using chunk_next_last [OF inv, of k] by (simp add: chunk_next_def next_seq_def)
  then show ?thesis
    using logged_run_seqs [OF l] chunks_inv_run_seqs [OF logged_chunks_inv [OF l inv], of k] by (simp add: r)
qed

lemma sample_event:
  "\<exists>ev db'. appendEventTx sampleTime 1 0 EventFinding ''status'' ''hi'' ''{}'' (claimedDb RunRunning StepRunning) = Ok (ev, db')"
proof -
  have "case appendEventTx sampleTime 1 0 EventFinding ''status'' ''hi'' ''{}'' (claimedDb RunRunning StepRunning) of
    Inr x \<Rightarrow> True | Inl e \<Rightarrow> False" by code_simp
  then show ?thesis by (auto split: sum.split_asm)
qed

theorem events_are_numbered_in_order_witness:
  "\<exists>ev db'. appendEventTx sampleTime 1 0 EventFinding ''status'' ''hi'' ''{}'' (claimedDb RunRunning StepRunning) = Ok (ev, db') \<and>
     ev_Seq ev = 1 \<and> run_seqs (deploy_log_chunks db') 1 = [1]"
proof -
  obtain ev db' where e: "appendEventTx sampleTime 1 0 EventFinding ''status'' ''hi'' ''{}'' (claimedDb RunRunning StepRunning) = Ok (ev, db')"
    using sample_event by blast
  have inv: "store_inv (claimedDb RunRunning StepRunning)" by (rule claimedDb_inv) (simp add: claimed_state_def)
  have "run_seqs (deploy_log_chunks (claimedDb RunRunning StepRunning)) 1 = []"
    by (simp add: run_seqs_def claimedDb_def queuedDb_def emptyDb_def)
  with events_are_numbered_in_order [OF inv e] e show ?thesis by auto
qed

text \<open>
  C10: the event of a log line always fits its limit: for each of the three streams the encoder
  returns, after finitely many cuts, valid JSON of at most 262144 bytes for a text that is not
  longer than the given one and is marked as truncated whenever it is shorter, whatever bytes the
  text has.
\<close>

theorem log_event_fits:
  assumes "stream \<in> set log_streams"
  shows "\<exists>data v' cut. logEventData stream v b = Some (data, v', cut) \<and> length data \<le> 262144 \<and> json_valid data \<and>
    length v' \<le> length v \<and> (b \<longrightarrow> cut) \<and> (cut \<or> v' = v)"
proof -
  have "json_valid (log_data stream v' cut)" for v' cut
    unfolding log_data_def mustJSON_def by (rule json_valid_marshal) (simp_all add: max_nesting_def)
  then show ?thesis using logEventData_total [OF assms, of v b] by (auto simp: maxEventBytes_def)
qed

theorem log_event_fits_witness:
  "\<exists>data v' cut. logEventData ''stdout'' ''built'' False = Some (data, v', cut) \<and> length data \<le> 262144"
  using log_event_fits [of "''stdout''" "''built''" False] by (auto simp: log_streams_def)


definition sampleChunk :: "int \<Rightarrow> chunk_row" where
  "sampleChunk n =
     \<lparr> c_run_id = 1, c_step_id = 0, c_seq = n, c_event_type = EventFinding, c_stream = ''status'', c_ts = 5,
       c_text = [], c_data_json = ''{}'', c_redacted = False, c_truncated = False, c_compacted = False \<rparr>"






text \<open>
  A reader with more than 5000 events to catch up on misses some for good: an event that is
  committed lies beyond the backlog it gets and beyond the position its channel starts from.
\<close>

theorem long_backlog_is_cut:
  assumes "store_inv (o_db s)" and "uncompacted (o_db s) k" and "0 \<le> after"
    and "5000 < length (filter (\<lambda>n. after < n) (run_seqs (deploy_log_chunks (o_db s)) k))"
    and "Subscribe k after now s = (Ok (backlog, i), s1)"
  shows "\<exists>n \<in> set (run_seqs (deploy_log_chunks (o_db s)) k).
     after < n \<and> n \<notin> set (map ev_Seq backlog) \<and> sub_after (last (b_subs (o_broker s1))) < n"
proof -
  have "chunks_inv (deploy_log_chunks (o_db s))" using assms(1) by (simp add: store_inv_def)
  from subscription_cut [OF this assms(2-5)] show ?thesis .
qed

definition manyDb :: db where
  "manyDb = (claimedDb RunRunning StepRunning)\<lparr>deploy_log_chunks := map sampleChunk [1..5001]\<rparr>"

lemma run_seqs_many: "run_seqs (map sampleChunk ns) k = (if k = 1 then ns else [])"
proof (induction ns)
  case (Cons n ns)
  have "c_run_id (sampleChunk n) = 1" "c_seq (sampleChunk n) = n" by (simp_all add: sampleChunk_def)
  with Cons show ?case by (cases "k = 1") (simp_all add: run_seqs_def)
qed (simp add: run_seqs_def)

lemma manyDb_inv: "store_inv manyDb"
proof -
  have "chunks_inv (map sampleChunk [1..5001])"
  proof -
    have "sorted_wrt (<) [1..5001::int]" by (simp add: strict_sorted_iff del: upto_rec_numeral)
    moreover have "\<forall>s \<in> set [1..5001::int]. 0 < s" by (simp del: upto_rec_numeral)
    ultimately have "sorted_wrt (<) (run_seqs (map sampleChunk [1..5001]) k) \<and>
        (\<forall>s \<in> set (run_seqs (map sampleChunk [1..5001]) k). 0 < s)" for k
      by (simp add: run_seqs_many del: upto_rec_numeral)
    then show ?thesis by (simp only: chunks_inv_def run_seqs_def Let_def) blast
  qed
  moreover have "store_inv (claimedDb RunRunning StepRunning)" by (rule claimedDb_inv) (simp add: claimed_state_def)
  ultimately show ?thesis
    by (simp add: store_inv_def manyDb_def lease_inv_def idem_inv_def step_inv_def live_inv_def port_inv_def del: upto_rec_numeral)
qed

lemma manyDb_uncompacted: "uncompacted manyDb 1"
  by (auto simp: uncompacted_def manyDb_def sampleChunk_def simp del: upto_rec_numeral)

lemma sample_subscribed_many: "\<exists>backlog i s1. Subscribe 1 0 sampleTime (store_of manyDb) = (Ok (backlog, i), s1)"
proof -
  have "event_watermark manyDb 1 = 0" by (rule event_watermark_uncompacted [OF manyDb_uncompacted])
  moreover obtain run where "Run manyDb 1 = Ok run"
    by (simp add: Run_def run_by_id_def manyDb_def claimedDb_def queued_row_def new_run_row_def del: upto_rec_numeral)
  ultimately show ?thesis
    by (simp add: Subscribe_def EventsAfter_def store_of_def Let_def bindr_def del: upto_rec_numeral)
qed

theorem long_backlog_is_cut_witness:
  "\<exists>backlog i s1. Subscribe 1 0 sampleTime (store_of manyDb) = (Ok (backlog, i), s1) \<and>
     (\<exists>n \<in> set (run_seqs (deploy_log_chunks manyDb) 1). n \<notin> set (map ev_Seq backlog))"
proof -
  obtain backlog i s1 where s: "Subscribe 1 0 sampleTime (store_of manyDb) = (Ok (backlog, i), s1)"
    using sample_subscribed_many by blast
  have db: "o_db (store_of manyDb) = manyDb" by (simp add: store_of_def)
  have seqs: "run_seqs (deploy_log_chunks manyDb) 1 = [1..5001]"
    by (simp add: manyDb_def run_seqs_many del: upto_rec_numeral)
  have "filter (\<lambda>n. 0 < n) [1..5001::int] = [1..5001]" by (rule filter_True) (simp del: upto_rec_numeral)
  then have many: "5000 < length (filter (\<lambda>n. 0 < n) (run_seqs (deploy_log_chunks (o_db (store_of manyDb))) 1))"
    by (simp add: db seqs del: upto_rec_numeral)
  have pos: "(0::int) \<le> 0" by simp
  from long_backlog_is_cut [OF _ _ pos many s] manyDb_inv manyDb_uncompacted s show ?thesis
    unfolding db by blast
qed

lemma newest_log_above:
  assumes "b \<in> set (log_rows db k)" and "c_seq b \<notin> set (newest_logs db k keep)" and "a \<in> set (newest_logs db k keep)"
  shows "c_seq b < a"
proof -
  let ?L = "map c_seq (sort_key (\<lambda>c. - c_seq c) (log_rows db k))"
  have "c_seq b \<in> set ?L" using assms(1) by simp
  then have low: "c_seq b \<in> set (drop (nat keep) ?L)"
    using assms(2) unfolding newest_logs_def by (metis append_take_drop_id Un_iff set_append)
  have "sorted (map (\<lambda>c. - c_seq c) (sort_key (\<lambda>c. - c_seq c) (log_rows db k)))" by (rule sorted_sort_key)
  then have "sorted_wrt (\<lambda>x y. y \<le> x) ?L" by (simp add: sorted_wrt_map)
  then have "sorted_wrt (\<lambda>x y. y \<le> x) (take (nat keep) ?L @ drop (nat keep) ?L)" by simp
  then have "\<forall>x \<in> set (take (nat keep) ?L). \<forall>y \<in> set (drop (nat keep) ?L). y \<le> x"
    unfolding sorted_wrt_append by blast
  moreover have "a \<in> set (take (nat keep) ?L)" using assms(3) by (simp only: newest_logs_def)
  ultimately have "c_seq b \<le> a" using low by blast
  moreover have "c_seq b \<noteq> a" using assms(2,3) by blast
  ultimately show ?thesis by simp
qed

text \<open>
  Compaction runs only after the run has ended; it keeps every event that is no log line, all
  events of other runs and the newest log lines asked for, and it frees no number, so later events
  are numbered as if nothing had been dropped.
\<close>

theorem compaction_keeps:
  assumes "store_inv db" and "CompactRunLogs k keep db = Ok (u, db', evs)"
  shows "ended k db \<and> next_seq db' j = next_seq db j \<and>
    (\<forall>c \<in> set (deploy_log_chunks db).
       c_run_id c \<noteq> k \<or> c_event_type c \<noteq> EventStepLog \<or> c_compacted c \<or> c_seq c \<in> set (newest_logs db k keep) \<longrightarrow>
       c \<in> set (deploy_log_chunks db'))"
proof -
  note ok = CompactRunLogs_Ok [OF assms(2)]
  have e: "ended k db" using ok by (auto simp: ended_def)
  show ?thesis
  proof (cases "compact_watermark db k keep = 0")
    case True
    with ok e show ?thesis by auto
  next
    case False
    obtain w where w: "w \<in> set (deploy_log_chunks db)" "c_run_id w = k" "c_event_type w = EventStepLog" "\<not> c_compacted w"
      "c_seq w \<notin> set (newest_logs db k keep)" "c_seq w = compact_watermark db k keep"
      using False by (rule compact_watermark_row)
    have "next_seq db' j = next_seq db j"
      using compaction_chunks(2) [OF w(1,2,6), of j] ok False by (auto simp: chunk_next_def next_seq_def)
    moreover have "c \<in> set (deploy_log_chunks db')"
      if c: "c \<in> set (deploy_log_chunks db)"
        and keep: "c_run_id c \<noteq> k \<or> c_event_type c \<noteq> EventStepLog \<or> c_compacted c \<or> c_seq c \<in> set (newest_logs db k keep)" for c
    proof -
      have srt: "sorted_wrt (<) (run_seqs (deploy_log_chunks db) k)"
        using assms(1) by (intro chunks_inv_run_seqs) (simp add: store_inv_def)
      then have d: "distinct (map c_seq (filter (\<lambda>c. c_run_id c = k) (deploy_log_chunks db)))"
        by (simp add: run_seqs_def strict_sorted_iff)
      have wk: "w \<in> set (filter (\<lambda>c. c_run_id c = k) (deploy_log_chunks db))" using w(1,2) by simp
      have same: "c = w" if "c_run_id c = k" "c_seq c = c_seq w"
        using distinct_map_key [OF d wk, of c] c that by simp
      have above: "c_seq w < c_seq c" if "c_seq c \<in> set (newest_logs db k keep)"
        by (rule newest_log_above [OF _ w(5) that]) (use w in \<open>simp add: log_rows_def\<close>)
      have "\<not> compact_drop k (compact_watermark db k keep) c"
        using keep above w(6) by (auto simp: compact_drop_def)
      moreover have "\<not> (c_run_id c = k \<and> c_seq c = compact_watermark db k keep)"
        using same keep above w by auto
      ultimately show ?thesis
        using ok False c by (force simp: sql_update_def sql_delete_def)
    qed
    ultimately show ?thesis using e by blast
  qed
qed

definition endedDb :: db where
  "endedDb = queuedDb\<lparr>deploy_runs := [(queued_row 1 sampleReq sampleTime)\<lparr>r_state := RunSucceeded\<rparr>],
     deploy_log_chunks := [sampleChunk 1, (sampleChunk 2)\<lparr>c_event_type := EventStepLog\<rparr>]\<rparr>"

lemma sample_compacted: "\<exists>db' evs. CompactRunLogs 1 0 endedDb = Ok ((), db', evs)"
  by (simp add: CompactRunLogs_def endedDb_def run_by_id_def queued_row_def new_run_row_def Let_def)

theorem compaction_keeps_witness:
  "\<exists>db' evs. CompactRunLogs 1 0 endedDb = Ok ((), db', evs) \<and> sampleChunk 1 \<in> set (deploy_log_chunks db') \<and> next_seq db' 1 = 3"
proof -
  obtain db' evs where c: "CompactRunLogs 1 0 endedDb = Ok ((), db', evs)" using sample_compacted by blast
  have inv: "store_inv endedDb"
    by (simp add: store_inv_def endedDb_def sampleChunk_def sample_defs lease_inv_def idem_inv_def chunks_inv_def
        step_inv_def live_inv_def port_inv_def idle_run_def)
  have "next_seq endedDb 1 = 3" by (simp add: next_seq_def endedDb_def sampleChunk_def sql_max_def)
  moreover have "sampleChunk 1 \<in> set (deploy_log_chunks endedDb)" "c_event_type (sampleChunk 1) \<noteq> EventStepLog"
    by (simp_all add: endedDb_def sampleChunk_def)
  ultimately show ?thesis using compaction_keeps [OF inv c, of 1] c by auto
qed

subsection \<open>Activation\<close>

text \<open>
  C12: activating a candidate replaces exactly the release the candidate was created from: before,
  that predecessor was the live release of the environment; after, the candidate is, it is the only
  release of the environment in state live, the predecessor is retained and no other release changed.
\<close>

theorem activation_replaces_the_predecessor:
  assumes "store_inv db" and "ActivateCandidate k tok rel now db = Ok (row, db', evs)"
  shows "\<exists>c e. release_by_id db rel = Some c \<and> rel_run_id c = k \<and> env_by_id db (rel_environment_id c) = Some e \<and>
    e_live_release_id e = rel_predecessor_release_id c \<and>
    (\<exists>e'. env_by_id db' (rel_environment_id c) = Some e' \<and> e_live_release_id e' = rel) \<and>
    (\<forall>r \<in> set (deploy_releases db'). rel_environment_id r = rel_environment_id c \<longrightarrow>
       (rel_state r = ''live'') = (rel_id r = rel)) \<and>
    (\<forall>r \<in> set (deploy_releases db). rel_id r \<noteq> rel \<and> rel_id r \<noteq> rel_predecessor_release_id c \<longrightarrow>
       r \<in> set (deploy_releases db')) \<and>
    (\<forall>r \<in> set (deploy_releases db'). rel_id r = rel_predecessor_release_id c \<longrightarrow> rel_state r = ''retained'')"
proof -
  have inv: "live_inv db" using assms(1) by (simp add: store_inv_def)
  note inv' = ActivateCandidate_live_inv [OF inv assms(2)]
  obtain c :: release_row and e :: env_row where
    c: "c \<in> set (deploy_releases db)" "rel_id c = rel" "rel_run_id c = k" "rel_state c = ''candidate''"
    and e: "e \<in> set (deploy_environments db)" "e_id e = rel_environment_id c" "e_live_release_id e = rel_predecessor_release_id c"
    and rels: "deploy_releases db' = map (activated_release rel (e_live_release_id e) now) (deploy_releases db)"
    and envs: "deploy_environments db' = map (activated_env (e_id e) rel now) (deploy_environments db)"
    by (rule ActivateCandidate_tables [OF inv assms(2)]) blast
  have dr: "distinct (map rel_id (deploy_releases db))" and de: "distinct (map e_id (deploy_environments db))"
    and nz: "\<forall>r \<in> set (deploy_releases db). rel_id r \<noteq> 0"
    using inv by (simp_all add: live_inv_def)
  have fc: "release_by_id db rel = Some c"
    using find_key_unique [OF dr c(1)] by (simp add: release_by_id_def c(2))
  have fe: "env_by_id db (rel_environment_id c) = Some e"
    using find_key_unique [OF de e(1)] by (simp add: env_by_id_def e(2))
  let ?e' = "activated_env (e_id e) rel now e"
  have "?e' \<in> set (deploy_environments db')" using e by (simp add: envs)
  moreover have "distinct (map e_id (deploy_environments db'))" using inv' by (simp add: live_inv_def)
  moreover have "e_id ?e' = rel_environment_id c" "e_live_release_id ?e' = rel" using e by (simp_all add: activated_env_def)
  ultimately have fe': "env_by_id db' (rel_environment_id c) = Some ?e'"
    using find_key_unique [of e_id "deploy_environments db'" ?e'] by (simp add: env_by_id_def)
  have pred: "rel_predecessor_release_id c \<noteq> rel"
  proof
    assume p: "rel_predecessor_release_id c = rel"
    then have "e_live_release_id e = rel_id c" "rel_id c \<noteq> 0" using e(3) c nz by auto
    then obtain r where "r \<in> set (deploy_releases db)" "rel_id r = rel_id c" "rel_state r = ''live''"
      using inv e(1) unfolding live_inv_def by metis
    with distinct_map_key [OF dr this(1) c(1)] c(4) show False by auto
  qed
  let ?c' = "activated_release rel (e_live_release_id e) now c"
  have c': "?c' \<in> set (deploy_releases db')" "rel_state ?c' = ''live''" "rel_id ?c' = rel"
      "rel_environment_id ?c' = rel_environment_id c"
    using c by (simp_all add: rels activated_release_def)
  have live: "(rel_state r = ''live'') = (rel_id r = rel)"
    if r: "r \<in> set (deploy_releases db')" "rel_environment_id r = rel_environment_id c" for r
  proof
    assume "rel_state r = ''live''"
    with live_inv_unique [OF inv' r(1) c'(1)] c' r(2) show "rel_id r = rel" by simp
  next
    assume "rel_id r = rel"
    moreover have "distinct (map rel_id (deploy_releases db'))" using inv' by (simp add: live_inv_def)
    ultimately have "r = ?c'" using distinct_map_key [of rel_id "deploy_releases db'" ?c' r] r(1) c' by simp
    then show "rel_state r = ''live''" using c'(2) by simp
  qed
  have "r \<in> set (deploy_releases db')"
    if "r \<in> set (deploy_releases db)" "rel_id r \<noteq> rel" "rel_id r \<noteq> rel_predecessor_release_id c" for r
    using that e(3) by (force simp: rels activated_release_def)
  moreover have "rel_state r = ''retained''"
    if "r \<in> set (deploy_releases db')" "rel_id r = rel_predecessor_release_id c" for r
    using that pred nz e(3) by (auto simp: rels activated_release_def split: if_split_asm)
  ultimately show ?thesis
    using fc c(3) fe e(3) fe' live \<open>e_live_release_id ?e' = rel\<close> by blast
qed

definition sampleRelease :: "int \<Rightarrow> int \<Rightarrow> int \<Rightarrow> string \<Rightarrow> release_row" where
  "sampleRelease n run predecessor state =
     \<lparr> rel_id = n, rel_environment_id = 1, rel_number = n, rel_run_id = run, rel_predecessor_release_id = predecessor,
       rel_state = state, rel_plan_revision = 1, rel_source_id = 0, rel_build_plan_id = 0, rel_runtime_plan_id = 0,
       rel_activated_at = 0, rel_retired_at = 0 \<rparr>"

definition sampleRuntime :: "int \<Rightarrow> runtime_row" where
  "sampleRuntime n =
     \<lparr> rt_release_id = n, rt_environment_id = 1, rt_kind = ''container'', rt_runtime_id = ''c'', rt_name = ''c'',
       rt_working_directory = [], rt_host = ''127.0.0.1'', rt_port = 8000, rt_state = ''ready'',
       rt_metadata_json = ''{}'', rt_created_at = 1, rt_updated_at = 1 \<rparr>"

definition candidateDb :: db where
  "candidateDb = (claimedDb RunActivating StepRunning)\<lparr>
     deploy_environments := [(sampleEnv 1)\<lparr>e_live_release_id := 1\<rparr>, sampleEnv 2],
     deploy_releases := [sampleRelease 1 0 0 ''live'', sampleRelease 2 1 1 ''candidate'', sampleRelease 3 0 1 ''candidate''],
     deploy_release_runtimes := [sampleRuntime 2, sampleRuntime 3]\<rparr>"

lemma candidateDb_inv: "store_inv candidateDb"
  by (simp add: store_inv_def candidateDb_def sampleRelease_def sample_defs lease_inv_def idem_inv_def chunks_inv_def
      step_inv_def live_inv_def port_inv_def lease_matches_def claimed_state_def)

lemma sample_assert: "assertLeaseTx 1 ''aa'' sampleTime candidateDb = Ok ()"
  by (simp add: assertLeaseTx_def lease_of_def candidateDb_def claimedDb_def sampleLease_def)

lemma sample_activated: "\<exists>row db' evs. ActivateCandidate 1 ''aa'' 2 sampleTime candidateDb = Ok (row, db', evs)"
  unfolding ActivateCandidate_def sample_assert bindr_def
  by (simp add: release_by_id_def env_by_id_def runtime_by_release_def Let_def candidateDb_def sampleRelease_def
      sampleRuntime_def sampleEnv_def retain_previous_def set_release_def set_runtime_def point_live_def
      set_run_release_def sql_update_def)

theorem activation_replaces_the_predecessor_witness:
  "\<exists>row db' evs. ActivateCandidate 1 ''aa'' 2 sampleTime candidateDb = Ok (row, db', evs) \<and>
     (\<exists>e'. env_by_id db' 1 = Some e' \<and> e_live_release_id e' = 2)"
proof -
  obtain row db' evs where a: "ActivateCandidate 1 ''aa'' 2 sampleTime candidateDb = Ok (row, db', evs)"
    using sample_activated by blast
  have "release_by_id candidateDb 2 = Some (sampleRelease 2 1 1 ''candidate'')"
    by (simp add: release_by_id_def candidateDb_def sampleRelease_def)
  moreover have "rel_environment_id (sampleRelease 2 1 1 ''candidate'') = 1" by (simp add: sampleRelease_def)
  ultimately show ?thesis using activation_replaces_the_predecessor [OF candidateDb_inv a] a by auto
qed

text \<open>
  Of two candidates created from the same live release, only the first can be activated: once
  one is live, the other is refused for every run, token and time.
\<close>

theorem second_candidate_is_refused:
  assumes "store_inv db" and "ActivateCandidate k tok rel now db = Ok (row, db', evs)"
    and "release_by_id db rel = Some c1" and "release_by_id db rel2 = Some c2" and "rel2 \<noteq> rel"
    and "rel_environment_id c2 = rel_environment_id c1"
    and "rel_predecessor_release_id c2 = rel_predecessor_release_id c1"
  shows "\<exists>e. ActivateCandidate k2 tok2 rel2 now2 db' = Err e"
proof (rule ccontr)
  assume "\<not> ?thesis"
  then obtain row2 db2 evs2 where second: "ActivateCandidate k2 tok2 rel2 now2 db' = Ok (row2, db2, evs2)"
    by (cases "ActivateCandidate k2 tok2 rel2 now2 db'") auto
  have inv: "live_inv db" using assms(1) by (simp add: store_inv_def)
  note inv' = ActivateCandidate_live_inv [OF inv assms(2)]
  obtain c :: release_row and e :: env_row where
    c: "c \<in> set (deploy_releases db)" "rel_id c = rel" "rel_state c = ''candidate''"
    and e: "e \<in> set (deploy_environments db)" "e_id e = rel_environment_id c" "e_live_release_id e = rel_predecessor_release_id c"
    and rels: "deploy_releases db' = map (activated_release rel (e_live_release_id e) now) (deploy_releases db)"
    and envs: "deploy_environments db' = map (activated_env (e_id e) rel now) (deploy_environments db)"
    by (rule ActivateCandidate_tables [OF inv assms(2)]) blast
  obtain d :: release_row and f :: env_row where
    d: "d \<in> set (deploy_releases db')" "rel_id d = rel2"
    and f: "f \<in> set (deploy_environments db')" "e_id f = rel_environment_id d" "e_live_release_id f = rel_predecessor_release_id d"
    by (rule ActivateCandidate_tables [OF inv' second]) blast
  have dr: "distinct (map rel_id (deploy_releases db))" and de: "distinct (map e_id (deploy_environments db))"
    and nz: "\<forall>r \<in> set (deploy_releases db). rel_id r \<noteq> 0"
    using inv by (simp_all add: live_inv_def)
  have c1: "c1 \<in> set (deploy_releases db)" "rel_id c1 = rel" and c2: "c2 \<in> set (deploy_releases db)" "rel_id c2 = rel2"
    using assms(3,4) by (auto simp: release_by_id_def dest: find_Some_in)
  have cc: "c1 = c" using distinct_map_key [OF dr c(1) c1(1)] c(2) c1(2) by simp
  from d(1) obtain d0 where d0: "d0 \<in> set (deploy_releases db)" "d = activated_release rel (e_live_release_id e) now d0"
    by (auto simp: rels)
  have "rel_id d0 = rel2" using d0(2) d(2) by (simp add: activated_release_def split: if_split_asm)
  then have "d0 = c2" using distinct_map_key [OF dr c2(1) d0(1)] c2(2) by simp
  then have dd: "rel_environment_id d = rel_environment_id c2" "rel_predecessor_release_id d = rel_predecessor_release_id c2"
    using d0(2) by (simp_all add: activated_release_def)
  from f(1) obtain f0 where f0: "f0 \<in> set (deploy_environments db)" "f = activated_env (e_id e) rel now f0"
    by (auto simp: envs)
  have "e_id f0 = e_id e" using f0(2) f(2) dd(1) assms(6) e(2) cc by (simp add: activated_env_def split: if_split_asm)
  then have "e_live_release_id f = rel" using f0(2) by (simp add: activated_env_def)
  then have pre: "e_live_release_id e = rel" using f(3) dd(2) assms(7) e(3) cc by simp
  have "rel \<noteq> 0" using nz c(1,2) by auto
  with pre obtain r where "r \<in> set (deploy_releases db)" "rel_id r = rel" "rel_state r = ''live''"
    using inv e(1) unfolding live_inv_def by metis
  with distinct_map_key [OF dr c(1) this(1)] c(2,3) show False by auto
qed

theorem second_candidate_is_refused_witness:
  "\<exists>row db' evs. ActivateCandidate 1 ''aa'' 2 sampleTime candidateDb = Ok (row, db', evs) \<and>
     (\<exists>e. ActivateCandidate 1 ''aa'' 3 sampleTime db' = Err e)"
proof -
  obtain row db' evs where a: "ActivateCandidate 1 ''aa'' 2 sampleTime candidateDb = Ok (row, db', evs)"
    using sample_activated by blast
  have c: "release_by_id candidateDb 2 = Some (sampleRelease 2 1 1 ''candidate'')"
    "release_by_id candidateDb 3 = Some (sampleRelease 3 0 1 ''candidate'')"
    by (simp_all add: release_by_id_def candidateDb_def sampleRelease_def)
  have "rel_environment_id (sampleRelease 3 0 1 ''candidate'') = rel_environment_id (sampleRelease 2 1 1 ''candidate'')"
    "rel_predecessor_release_id (sampleRelease 3 0 1 ''candidate'') = rel_predecessor_release_id (sampleRelease 2 1 1 ''candidate'')"
    by (simp_all add: sampleRelease_def)
  from second_candidate_is_refused [OF candidateDb_inv a c _ this, of 1 "''aa''" sampleTime] a show ?thesis by auto
qed

text \<open>
  A port lease is granted on a loopback address for a port no unexpired lease holds; all
  unexpired leases stay, and afterwards the new lease is the only one for its port.
\<close>

theorem port_lease_is_exclusive:
  assumes "store_inv db" and "AcquirePortLease k env tok address preferred ttl listen clock rand db = Ok (p, db', evs)"
  shows "(pl_Address p = ''127.0.0.1'' \<or> pl_Address p = ''::1'') \<and>
    (\<exists>l \<in> set (deploy_port_leases db'). p_token l = pl_Token p \<and> p_run_id l = k \<and>
       (\<forall>y \<in> set (deploy_port_leases db'). p_address y = pl_Address p \<and> p_port y = pl_Port p \<and>
          p_protocol y = ''tcp'' \<longrightarrow> y = l)) \<and>
    (\<exists>n. \<forall>y \<in> set (deploy_port_leases db). unix (clock n) \<le> p_expires_at y \<longrightarrow> y \<in> set (deploy_port_leases db'))"
proof -
  obtain j q a d where a: "a \<in> {''127.0.0.1'', ''::1''}"
    and t: "portLeaseTx k env tok a q d (clock j) (rand j) db = Ok (p, db', evs)"
    by (rule AcquirePortLease_Ok [OF assms(2)]) blast
  have inv: "port_inv db'" by (rule portLeaseTx_port_inv [OF _ t]) (use assms(1) in \<open>simp add: store_inv_def\<close>)
  obtain l :: port_lease_row where l: "p_address l = a" "p_port l = q" "p_run_id l = k" "p_protocol l = ''tcp''"
      "p_token l = pl_Token p" "pl_Port p = q" "pl_Address p = a"
    and tab: "deploy_port_leases db' = sql_delete (\<lambda>l. p_expires_at l < unix (clock j)) (deploy_port_leases db) @ [l]"
    by (rule portLeaseTx_Ok [OF t]) blast
  have dist: "distinct (map (\<lambda>l. (p_address l, p_port l, p_protocol l)) (deploy_port_leases db'))"
    using inv by (simp add: port_inv_def)
  have lin: "l \<in> set (deploy_port_leases db')" by (simp add: tab)
  have "y = l" if "y \<in> set (deploy_port_leases db')" "p_address y = pl_Address p" "p_port y = pl_Port p" "p_protocol y = ''tcp''" for y
    using distinct_map_key [OF dist lin that(1)] that l by simp
  moreover have "y \<in> set (deploy_port_leases db')"
    if "y \<in> set (deploy_port_leases db)" "unix (clock j) \<le> p_expires_at y" for y
    using that by (simp add: tab sql_delete_def)
  ultimately show ?thesis using a l lin by blast
qed

lemma sample_port:
  "\<exists>p db' evs. AcquirePortLease 1 1 ''aa'' [] 0 second (\<lambda>_. Some 40000) (\<lambda>_. sampleTime) (\<lambda>_. Some ''a'') candidateDb = Ok (p, db', evs)"
proof -
  have "\<exists>p db' evs. portLeaseTx 1 1 ''aa'' ''127.0.0.1'' 40000 second sampleTime (Some ''a'') candidateDb = Ok (p, db', evs)"
    unfolding portLeaseTx_def sample_assert
    by (simp add: bindr_def Let_def newClaimToken_def insert_port_lease_def env_by_id_def candidateDb_def claimedDb_def
        queuedDb_def emptyDb_def sampleEnv_def)
  then obtain p db' evs where
    "portLeaseTx 1 1 ''aa'' ''127.0.0.1'' 40000 second sampleTime (Some ''a'') candidateDb = Ok (p, db', evs)" by blast
  moreover have "\<not> second \<le> 0" by (simp add: second_def)
  moreover have "(16::nat) = Suc 15" by simp
  ultimately show ?thesis unfolding AcquirePortLease_def Let_def by (simp only: port_attempts.simps) simp
qed

theorem port_lease_is_exclusive_witness:
  "\<exists>p db' evs. AcquirePortLease 1 1 ''aa'' [] 0 second (\<lambda>_. Some 40000) (\<lambda>_. sampleTime) (\<lambda>_. Some ''a'') candidateDb = Ok (p, db', evs) \<and>
     (\<exists>l \<in> set (deploy_port_leases db'). p_token l = pl_Token p)"
proof -
  obtain p db' evs where p: "AcquirePortLease 1 1 ''aa'' [] 0 second (\<lambda>_. Some 40000) (\<lambda>_. sampleTime) (\<lambda>_. Some ''a'') candidateDb = Ok (p, db', evs)"
    using sample_port by blast
  from port_lease_is_exclusive [OF candidateDb_inv p] p show ?thesis by blast
qed

end
