(* ===== verification/Deploy_Engine_Properties.thy ===== *)
theory Deploy_Engine_Properties
  imports Deploy_Samples
begin

text \<open>The properties of the engine that drives a claimed run.\<close>

definition sampleEngine :: "StepState \<Rightarrow> engine_env" where
  "sampleEngine st =
     \<lparr> g_ext = sampleExt, g_clock = (\<lambda>_. sampleTime), g_rand = (\<lambda>_. Some ''a''), g_other = (\<lambda>_ sc. sc),
       g_execute = (\<lambda>_ _. ([], emptyResult\<lparr>res_State := st\<rparr>)), g_cleaner = None, g_incomplete = (\<lambda>_. ''{}''),
       g_reconcile = conservativeReconciler \<rparr>"

definition sampleQueueLease :: QueueLease where
  "sampleQueueLease = scanLease sampleLease"

definition sampleConfig :: EngineConfig where
  "sampleConfig = config_normalized None 1 \<lparr> cfg_WorkerID = ''w'', cfg_Budget = \<lparr> Heavy = 1, Light = 2 \<rparr>,
     cfg_LeaseTTL = 0, cfg_PollEvery = 0, cfg_HotLogLimit = 0 \<rparr>"

definition world_of :: "db \<Rightarrow> world" where
  "world_of db = \<lparr> w_store = store_of db, w_ctx = CtxActive, w_tick = 0 \<rparr>"

lemma rely_sample: "rely (sampleEngine st)"
  by (simp add: rely_def sampleEngine_def store_ok_refl)

lemma world_of_inv: "claimed_state st \<Longrightarrow> store_inv (o_db (w_store (world_of (claimedDb st sst))))"
  using claimedDb_inv by (simp add: world_of_def store_of_def)

lemma ended_run: "ended k db \<Longrightarrow> \<exists>r. run_by_id db k = Some r \<and> Terminal (r_state r)"
  by (simp add: ended_def split: option.split_asm)

text \<open>
  C13: a worker that returns without an error has brought its run to a terminal state, whatever
  its adapters answer and whatever the rest of the program does to the store and to the worker's
  context between its calls, as long as it uses the store's operations.
\<close>

theorem worker_ends_its_run:
  assumes "rely g" and "store_inv (o_db (w_store w))" and "execute g cfg lease w = (Ok (), w')"
  shows "\<exists>r. run_by_id (o_db (w_store w')) (lease_RunID lease) = Some r \<and> Terminal (r_state r)"
proof (rule ended_run)
  show "ended (lease_RunID lease) (o_db (w_store w'))"
    using execute_ends [OF assms(1), of "\<lambda>_. True" cfg lease] assms(2,3) unfolding triple_def by blast
qed

lemma sample_executed:
  "\<exists>w'. execute (sampleEngine StepPassed) sampleConfig sampleQueueLease (world_of (claimedDb RunActivating StepPassed)) = (Ok (), w')"
proof -
  have "case fst (execute (sampleEngine StepPassed) sampleConfig sampleQueueLease (world_of (claimedDb RunActivating StepPassed))) of
     Inr u \<Rightarrow> True | Inl e \<Rightarrow> False" by code_simp
  then show ?thesis
    by (cases "execute (sampleEngine StepPassed) sampleConfig sampleQueueLease (world_of (claimedDb RunActivating StepPassed))")
       (auto split: sum.split_asm)
qed

theorem worker_ends_its_run_witness:
  "\<exists>w' r. execute (sampleEngine StepPassed) sampleConfig sampleQueueLease (world_of (claimedDb RunActivating StepPassed)) = (Ok (), w') \<and>
     run_by_id (o_db (w_store w')) 1 = Some r \<and> Terminal (r_state r)"
proof -
  obtain w' where e: "execute (sampleEngine StepPassed) sampleConfig sampleQueueLease (world_of (claimedDb RunActivating StepPassed)) = (Ok (), w')"
    using sample_executed by blast
  have "lease_RunID sampleQueueLease = 1" by (simp add: sampleQueueLease_def scanLease_def sampleLease_def)
  with worker_ends_its_run [OF rely_sample world_of_inv e] e show ?thesis by (auto simp: claimed_state_def)
qed



text \<open>
  A recovered run whose outcome nobody can prove is failed: with the conservative reconciler
  a preparation that succeeds leaves the run in a terminal state, so no step of it runs again.
\<close>

theorem unproven_recovery_fails_the_run:
  assumes "rely g" and "store_inv (o_db (w_store w))"
    and "reconcilePreparation g active (conservativeReconciler request) lease w = (Ok (), w')"
  shows "\<exists>r. run_by_id (o_db (w_store w')) (lease_RunID lease) = Some r \<and> Terminal (r_state r)"
proof -
  have act: "rec_Action (conservativeReconciler request) = ReconcileFail" by (simp add: conservativeReconciler_def)
  have "triple (\<lambda>_. True) (reconcilePreparation g active (conservativeReconciler request) lease) (\<lambda>_. ended (lease_RunID lease))"
  proof (cases active)
    case None
    show ?thesis
      unfolding reconcilePreparation_def Let_def None option.case act simp_thms if_True
      by (rule failRun_ends [OF assms(1)])
  next
    case (Some a)
    show ?thesis
      unfolding reconcilePreparation_def Let_def Some option.case act ReconcileAction.case
      by (intro triple_then failRun_ends eng_ok_bindw op_calls_ok eng_ok_returnw assms)
  qed
  then show ?thesis using assms(2,3) unfolding triple_def by (blast intro: ended_run)
qed

definition sampleRequest :: ReconcileRequest where
  "sampleRequest = \<lparr> rq_Run = scanEngineRun (queued_row 1 sampleReq sampleTime), rq_Step = None, rq_Lease = sampleQueueLease \<rparr>"

lemma sample_recovered:
  "\<exists>w'. reconcilePreparation (sampleEngine StepPassed) None (conservativeReconciler sampleRequest) sampleQueueLease
     (world_of (claimedDb RunRunning StepPassed)) = (Ok (), w')"
proof -
  have "case fst (reconcilePreparation (sampleEngine StepPassed) None (conservativeReconciler sampleRequest) sampleQueueLease
     (world_of (claimedDb RunRunning StepPassed))) of Inr u \<Rightarrow> True | Inl e \<Rightarrow> False" by code_simp
  then show ?thesis
    by (cases "reconcilePreparation (sampleEngine StepPassed) None (conservativeReconciler sampleRequest) sampleQueueLease
     (world_of (claimedDb RunRunning StepPassed))") (auto split: sum.split_asm)
qed

theorem unproven_recovery_fails_the_run_witness:
  "\<exists>w' r. reconcilePreparation (sampleEngine StepPassed) None (conservativeReconciler sampleRequest) sampleQueueLease
     (world_of (claimedDb RunRunning StepPassed)) = (Ok (), w') \<and>
     run_by_id (o_db (w_store w')) 1 = Some r \<and> Terminal (r_state r)"
proof -
  obtain w' where e: "reconcilePreparation (sampleEngine StepPassed) None (conservativeReconciler sampleRequest) sampleQueueLease
     (world_of (claimedDb RunRunning StepPassed)) = (Ok (), w')" using sample_recovered by blast
  have "lease_RunID sampleQueueLease = 1" by (simp add: sampleQueueLease_def scanLease_def sampleLease_def)
  with unproven_recovery_fails_the_run [OF rely_sample world_of_inv e] e show ?thesis by (auto simp: claimed_state_def)
qed

text \<open>
  An adapter that reports a running step as skipped, which the engine accepts as a result,
  stops the worker: the step machine has no edge from running to skipped, so the step's update is
  refused, the worker returns that error and the run stays claimed with its step running.
\<close>

theorem skipped_result_stops_the_worker:
  assumes "undisturbed g w" and "w_ctx w = CtxActive" and "res_State result = StepSkipped"
    and "res_FromCommit result = []" and "res_ToCommit result = []"
    and "latest_step (lease_RunID lease) key (o_db (w_store w)) = Some st" and "s_status st = StepRunning"
  shows "allowedExecutorResult (res_State result) \<and> (\<exists>e. fst (after_execute g lease key None result w) = Err e) \<and>
    w_store (snd (after_execute g lease key None result w)) = w_store w"
  using after_execute_skipped [OF assms] assms(3) by simp

theorem skipped_result_stops_the_worker_witness:
  "\<exists>e. fst (after_execute (sampleEngine StepSkipped) sampleQueueLease StepNotify None (emptyResult\<lparr>res_State := StepSkipped\<rparr>)
     (world_of (claimedDb RunActivating StepRunning))) = Err e"
proof -
  have u: "undisturbed (sampleEngine StepSkipped) (world_of (claimedDb RunActivating StepRunning))"
    by (simp add: undisturbed_def sampleEngine_def)
  have c: "w_ctx (world_of (claimedDb RunActivating StepRunning)) = CtxActive" by (simp add: world_of_def)
  have l: "latest_step (lease_RunID sampleQueueLease) StepNotify (o_db (w_store (world_of (claimedDb RunActivating StepRunning)))) =
      Some ((new_step_row 1 1 0 StepNotify)\<lparr>s_status := StepRunning\<rparr>)"
    by (simp add: latest_step_def sql_first_by_def world_of_def store_of_def claimedDb_def new_step_row_def
        sampleQueueLease_def scanLease_def sampleLease_def)
  from skipped_result_stops_the_worker [OF u c _ _ _ l, of "emptyResult\<lparr>res_State := StepSkipped\<rparr>"]
  show ?thesis by (simp add: emptyResult_def)
qed

text \<open>
  An operator's cancellation that reaches the worker between two steps is not carried out: the
  worker reads the run with its cancelled context before it looks at the cancellation, so it stops
  with the context's error and the run stays as it was, neither cleaned up nor ended.
\<close>

theorem cancellation_between_steps_is_lost:
  assumes "undisturbed g w" and "w_ctx w = CtxCancelled cause"
  shows "execute_keys g lease latest (key # keys) w = (Err ErrContextCanceled, w\<lparr>w_tick := Suc (w_tick w)\<rparr>)"
  by (rule execute_keys_cancelled [OF assms])

theorem cancellation_between_steps_is_lost_witness:
  "fst (execute_keys (sampleEngine StepPassed) sampleQueueLease (\<lambda>_. None) [StepNotify]
      ((world_of (claimedDb RunCancelling StepPending))\<lparr>w_ctx := CtxCancelled OperatorCancellation\<rparr>)) = Err ErrContextCanceled"
  using cancellation_between_steps_is_lost [of "sampleEngine StepPassed"
    "(world_of (claimedDb RunCancelling StepPending))\<lparr>w_ctx := CtxCancelled OperatorCancellation\<rparr>"
    OperatorCancellation sampleQueueLease "\<lambda>_. None" StepNotify "[]"]
  by (simp add: undisturbed_def sampleEngine_def)

end
