(* ===== verification/Go_Codec.thy ===== *)
theory Go_Codec
  imports Go_Json
begin

text \<open>
  The text codecs of the Go standard library that the authentication sources call, on byte
  strings: encoding/base64 (the three encodings \<open>StdEncoding\<close>, \<open>RawStdEncoding\<close> and
  \<open>RawURLEncoding\<close>), hexadecimal decoding, \<open>strings.Split\<close> at a one-byte separator and the
  integer verb of \<open>fmt.Sscanf\<close>. Each decoder reads back what its encoder prints.
\<close>

subsection \<open>Bytes\<close>

definition nat_of_byte :: "char \<Rightarrow> nat" where
  "nat_of_byte c = of_char c"

lemma nat_of_byte_bound [simp]: "nat_of_byte c < 256"
  by (simp add: nat_of_byte_def)

lemma byte_nat_of_byte [simp]: "byte (nat_of_byte c) = c"
  by (simp add: byte_def nat_of_byte_def)

subsection \<open>Base 64\<close>

definition b64_std :: string where
  "b64_std = ''ABCDEFGHIJKLMNOPQRSTUVWXYZabcdefghijklmnopqrstuvwxyz0123456789+/''"

definition b64_url :: string where
  "b64_url = ''ABCDEFGHIJKLMNOPQRSTUVWXYZabcdefghijklmnopqrstuvwxyz0123456789-_''"

definition b64_alphabet :: "string \<Rightarrow> bool" where
  "b64_alphabet a = (length a = 64 \<and> distinct a \<and> CHR ''='' \<notin> set a \<and>
     CHR 0x0A \<notin> set a \<and> CHR 0x0D \<notin> set a)"

fun b64_encode :: "string \<Rightarrow> bool \<Rightarrow> string \<Rightarrow> string" where
  "b64_encode a pad [] = []"
| "b64_encode a pad [x] =
     [a ! (nat_of_byte x div 4), a ! (nat_of_byte x mod 4 * 16)] @ (if pad then ''=='' else [])"
| "b64_encode a pad [x, y] =
     [a ! (nat_of_byte x div 4), a ! (nat_of_byte x mod 4 * 16 + nat_of_byte y div 16),
      a ! (nat_of_byte y mod 16 * 4)] @ (if pad then ''='' else [])"
| "b64_encode a pad (x # y # z # r) =
     [a ! (nat_of_byte x div 4), a ! (nat_of_byte x mod 4 * 16 + nat_of_byte y div 16),
      a ! (nat_of_byte y mod 16 * 4 + nat_of_byte z div 64), a ! (nat_of_byte z mod 64)] @ b64_encode a pad r"

definition b64_index :: "string \<Rightarrow> char \<Rightarrow> nat option" where
  "b64_index a c =
     (let i = length (takeWhile (\<lambda>x. x \<noteq> c) a) in if i < length a then Some i else None)"

text \<open>
  The quanta of \<open>Encoding.decodeQuantum\<close>: four characters, or at the end of an unpadded text two or
  three; a padded text ends in two characters and \<open>==\<close> or three and \<open>=\<close>, with nothing after it.
  Bits of the last character that no byte takes are dropped, as the decoder is not strict.
\<close>

fun b64_quanta :: "string \<Rightarrow> bool \<Rightarrow> string \<Rightarrow> string option" where
  "b64_quanta a pad [] = Some []"
| "b64_quanta a pad [c0] = None"
| "b64_quanta a pad [c0, c1] =
     (if pad then None else
      case (b64_index a c0, b64_index a c1) of
        (Some i, Some j) \<Rightarrow> Some [byte (i * 4 + j div 16)]
      | _ \<Rightarrow> None)"
| "b64_quanta a pad [c0, c1, c2] =
     (if pad then None else
      case (b64_index a c0, b64_index a c1, b64_index a c2) of
        (Some i, Some j, Some k) \<Rightarrow> Some [byte (i * 4 + j div 16), byte (j mod 16 * 16 + k div 4)]
      | _ \<Rightarrow> None)"
| "b64_quanta a pad (c0 # c1 # c2 # c3 # r) =
     (case (b64_index a c0, b64_index a c1) of
        (Some i, Some j) \<Rightarrow>
          (case b64_index a c2 of
             None \<Rightarrow> if pad \<and> c2 = CHR ''='' \<and> c3 = CHR ''='' \<and> r = []
                     then Some [byte (i * 4 + j div 16)] else None
           | Some k \<Rightarrow>
               (case b64_index a c3 of
                  None \<Rightarrow> if pad \<and> c3 = CHR ''='' \<and> r = []
                          then Some [byte (i * 4 + j div 16), byte (j mod 16 * 16 + k div 4)] else None
                | Some l \<Rightarrow>
                    map_option (\<lambda>bs. byte (i * 4 + j div 16) # byte (j mod 16 * 16 + k div 4) #
                                      byte (k mod 4 * 64 + l) # bs) (b64_quanta a pad r)))
      | _ \<Rightarrow> None)"

text \<open>Line breaks anywhere in the text are skipped.\<close>

definition b64_decode :: "string \<Rightarrow> bool \<Rightarrow> string \<Rightarrow> string option" where
  "b64_decode a pad s = b64_quanta a pad (filter (\<lambda>c. c \<noteq> CHR 0x0A \<and> c \<noteq> CHR 0x0D) s)"

lemma b64_alphabets: "b64_alphabet b64_std" "b64_alphabet b64_url"
  by (simp_all add: b64_alphabet_def b64_std_def b64_url_def)

lemma takeWhile_nth_distinct:
  "distinct a \<Longrightarrow> n < length a \<Longrightarrow> takeWhile (\<lambda>x. x \<noteq> a ! n) a = take n a"
proof (induction a arbitrary: n)
  case Nil
  then show ?case by simp
next
  case (Cons x xs)
  then show ?case by (cases n) (auto simp: nth_Cons')
qed

lemma b64_index_nth [simp]:
  assumes "b64_alphabet a" "n < 64"
  shows "b64_index a (a ! n) = Some n"
  using assms by (simp add: b64_index_def b64_alphabet_def takeWhile_nth_distinct)

lemma b64_index_pad [simp]: "b64_alphabet a \<Longrightarrow> b64_index a CHR ''='' = None"
proof -
  assume "b64_alphabet a"
  then have "takeWhile (\<lambda>x. x \<noteq> CHR ''='') a = a"
    unfolding b64_alphabet_def takeWhile_eq_all_conv by auto
  then have "length (takeWhile (\<lambda>x. x \<noteq> CHR ''='') a) = length a" by (rule arg_cong)
  then show ?thesis by (simp only: b64_index_def Let_def less_irrefl if_False)
qed

text \<open>The six-bit groups of three bytes, and the bytes back from the groups.\<close>

lemma byte_div_16 [simp]: "nat_of_byte c div 16 div 16 = 0" "nat_of_byte c div 64 div 4 = 0"
  using nat_of_byte_bound [of c] by (simp_all add: div_mult2_eq [symmetric])

lemma byte_parts [simp]:
  "nat_of_byte c div 16 mod 16 = nat_of_byte c div 16" "nat_of_byte c div 64 mod 4 = nat_of_byte c div 64"
  using nat_of_byte_bound [of c] by (simp_all add: less_mult_imp_div_less)

lemma sextet_bounds [simp]:
  "nat_of_byte c div 4 < 64" "nat_of_byte c mod 4 * 16 < 64" "nat_of_byte c mod 16 * 4 < 64"
  "nat_of_byte c mod 4 * 16 + nat_of_byte d div 16 < 64" "nat_of_byte c mod 16 * 4 + nat_of_byte d div 64 < 64"
proof -
  have b: "nat_of_byte c < 64 * 4" "nat_of_byte d < 16 * 16" "nat_of_byte d < 4 * 64" by simp_all
  have d: "nat_of_byte d div 16 < 16" "nat_of_byte d div 64 < 4"
    using b less_mult_imp_div_less by blast+
  have m: "nat_of_byte c mod 4 < 4" "nat_of_byte c mod 16 < 16" by simp_all
  show "nat_of_byte c div 4 < 64" using b less_mult_imp_div_less by blast
  show "nat_of_byte c mod 4 * 16 < 64" "nat_of_byte c mod 16 * 4 < 64" using m by linarith+
  show "nat_of_byte c mod 4 * 16 + nat_of_byte d div 16 < 64"
    "nat_of_byte c mod 16 * 4 + nat_of_byte d div 64 < 64" using m d by linarith+
qed

lemma b64_quanta_encode:
  "b64_alphabet a \<Longrightarrow> b64_quanta a pad (b64_encode a pad s) = Some s"
proof (induction a pad s rule: b64_encode.induct)
  case (2 a pad x)
  then show ?case by simp
next
  case (3 a pad x y)
  then show ?case by simp
next
  case (4 a pad x y z r)
  then show ?case by simp
qed simp

lemma b64_encode_set:
  "b64_alphabet a \<Longrightarrow> set (b64_encode a pad s) \<subseteq> insert CHR ''='' (set a)"
proof (induction a pad s rule: b64_encode.induct)
  case (2 a pad x)
  then show ?case by (auto simp: b64_alphabet_def intro!: nth_mem)
next
  case (3 a pad x y)
  then show ?case by (auto simp: b64_alphabet_def intro!: nth_mem)
next
  case (4 a pad x y z r)
  have "a ! n \<in> set a" if "n < 64" for n
    using 4(2) that by (simp add: b64_alphabet_def)
  with 4 show ?case by simp
qed simp

theorem b64_decode_encode: "b64_alphabet a \<Longrightarrow> b64_decode a pad (b64_encode a pad s) = Some s"
proof -
  assume a: "b64_alphabet a"
  have "\<forall>c \<in> set (b64_encode a pad s). c \<noteq> CHR 0x0A \<and> c \<noteq> CHR 0x0D"
    using b64_encode_set [OF a, of pad s] a by (auto simp: b64_alphabet_def)
  then have "filter (\<lambda>c. c \<noteq> CHR 0x0A \<and> c \<noteq> CHR 0x0D) (b64_encode a pad s) = b64_encode a pad s"
    by (simp add: filter_id_conv)
  with a show ?thesis by (simp add: b64_decode_def b64_quanta_encode)
qed

subsection \<open>Hexadecimal\<close>

text \<open>\<open>encoding/hex.DecodeString\<close>: pairs of digits of either case.\<close>

definition hex_digit_value :: "char \<Rightarrow> nat option" where
  "hex_digit_value c =
     (if is_digit c then Some (nat_of_byte c - 48)
      else if in_range 97 102 c then Some (nat_of_byte c - 87)
      else if in_range 65 70 c then Some (nat_of_byte c - 55)
      else None)"

fun hex_decode :: "string \<Rightarrow> string option" where
  "hex_decode [] = Some []"
| "hex_decode [c] = None"
| "hex_decode (c # d # r) =
     (case (hex_digit_value c, hex_digit_value d) of
        (Some i, Some j) \<Rightarrow> map_option (\<lambda>bs. byte (i * 16 + j) # bs) (hex_decode r)
      | _ \<Rightarrow> None)"

lemma hex_digit_value_digit: "hex_digit_value (hex_digit n) = Some (n mod 16)"
proof -
  have "n mod 16 = 0 \<or> n mod 16 = 1 \<or> n mod 16 = 2 \<or> n mod 16 = 3 \<or> n mod 16 = 4 \<or> n mod 16 = 5
    \<or> n mod 16 = 6 \<or> n mod 16 = 7 \<or> n mod 16 = 8 \<or> n mod 16 = 9 \<or> n mod 16 = 10 \<or> n mod 16 = 11
    \<or> n mod 16 = 12 \<or> n mod 16 = 13 \<or> n mod 16 = 14 \<or> n mod 16 = 15"
    by presburger
  then show ?thesis
    by (elim disjE) (simp_all add: hex_digit_def hex_digit_value_def is_digit_def in_range_def nat_of_byte_def)
qed

theorem hex_decode_encode: "hex_decode (hex_encode bs) = Some bs"
proof (induction bs)
  case Nil
  then show ?case by (simp add: hex_encode_def)
next
  case (Cons b bs)
  have eq: "hex_encode (b # bs) = hex_digit (nat_of_byte b div 16) # hex_digit (nat_of_byte b) # hex_encode bs"
    by (simp add: hex_encode_def nat_of_byte_def)
  show ?case
    unfolding eq hex_decode.simps hex_digit_value_digit Cons.IH by simp
qed

subsection \<open>Splitting\<close>

text \<open>\<open>strings.Split\<close> at a one-byte separator.\<close>

fun split_on :: "char \<Rightarrow> string \<Rightarrow> string list" where
  "split_on sep [] = [[]]"
| "split_on sep (c # s) =
     (if c = sep then [] # split_on sep s
      else case split_on sep s of [] \<Rightarrow> [[c]] | w # ws \<Rightarrow> (c # w) # ws)"

lemma split_on_word: "sep \<notin> set w \<Longrightarrow> split_on sep w = [w]"
  by (induction w) auto

lemma split_on_append: "sep \<notin> set w \<Longrightarrow> split_on sep (w @ sep # s) = w # split_on sep s"
  by (induction w) auto

subsection \<open>Scanning integers\<close>

text \<open>
  \<open>fmt.Sscanf\<close>: a literal of the format must match exactly; \<open>%d\<close> skips white space other than a
  line break, reads decimal digits, after a sign for a signed operand, and the number must fit
  the operand. What follows the last operand is not looked at.
\<close>

definition scan_literal :: "string \<Rightarrow> string \<Rightarrow> string option" where
  "scan_literal l s = (if has_prefix s l then Some (drop (length l) s) else None)"

definition scan_space :: "string \<Rightarrow> string option" where
  "scan_space s =
     (let t = trim_left s in if CHR 0x0A \<in> set (take (length s - length t) s) then None else Some t)"

definition digits_value :: "string \<Rightarrow> nat" where
  "digits_value s = fold (\<lambda>c n. n * 10 + (nat_of_byte c - 48)) s 0"

definition scan_uint :: "nat \<Rightarrow> string \<Rightarrow> (nat \<times> string) option" where
  "scan_uint bits s =
     (case scan_space s of
        None \<Rightarrow> None
      | Some t \<Rightarrow>
          (let (ds, r) = span_digits t
           in if ds = [] then None
              else if digits_value ds < 2 ^ bits then Some (digits_value ds, r) else None))"

definition scan_int :: "string \<Rightarrow> (int \<times> string) option" where
  "scan_int s =
     (case scan_space s of
        None \<Rightarrow> None
      | Some t \<Rightarrow>
          (let neg = has_prefix t ''-'';
               u = (if neg \<or> has_prefix t ''+'' then tl t else t);
               (ds, r) = span_digits u;
               v = (if neg then - int (digits_value ds) else int (digits_value ds))
           in if ds = [] then None
              else if - (2 ^ 63) \<le> v \<and> v < 2 ^ 63 then Some (v, r) else None))"

lemma digits_value_nat_dec [simp]: "digits_value (nat_dec n) = n"
proof (induction n rule: nat_dec.induct)
  case (1 n)
  have d: "nat_of_byte (char_of (48 + k)) = 48 + k" if "k < 10" for k
    using that by (simp add: nat_of_byte_def)
  show ?case
  proof (cases "n < 10")
    case True
    then show ?thesis by (simp add: nat_dec.simps [of n] digits_value_def d)
  next
    case False
    with 1 show ?thesis by (simp add: nat_dec.simps [of n] digits_value_def d)
  qed
qed

lemma digit_not_space: "is_digit c \<Longrightarrow> trim_left (c # s) = c # s"
proof -
  assume d: "is_digit c"
  have "\<forall>w \<in> set space_runes. \<not> is_digit (hd w) \<and> w \<noteq> []" by code_simp
  then have "\<not> has_prefix (c # s) w" if "w \<in> set space_runes" for w
    using that d by (cases w) (auto simp: has_prefix_def)
  then have "find (\<lambda>w. has_prefix (c # s) w) space_runes = None"
    by (simp add: find_None_iff)
  then show ?thesis by (simp add: trim_left.simps)
qed

lemma scan_uint_nat_dec:
  assumes "n < 2 ^ bits" and "r \<noteq> [] \<Longrightarrow> \<not> is_digit (hd r)"
  shows "scan_uint bits (nat_dec n @ r) = Some (n, r)"
proof -
  obtain c s where c: "nat_dec n = c # s" "is_digit c"
    using nat_dec_digits [of n] by (cases "nat_dec n") auto
  have "span_digits (nat_dec n @ r) = (nat_dec n, r)"
    using nat_dec_digits [of n] assms(2)
    by (cases r) (auto simp: span_digits_def takeWhile_append2 dropWhile_append2)
  moreover have "scan_space (nat_dec n @ r) = Some (nat_dec n @ r)"
    using c by (simp add: scan_space_def digit_not_space)
  ultimately show ?thesis
    using assms(1) nat_dec_digits [of n] by (simp add: scan_uint_def)
qed

lemma scan_int_nat_dec:
  assumes "n < 2 ^ 63" and "r \<noteq> [] \<Longrightarrow> \<not> is_digit (hd r)"
  shows "scan_int (nat_dec n @ r) = Some (int n, r)"
proof -
  obtain c s where c: "nat_dec n = c # s" "is_digit c"
    using nat_dec_digits [of n] by (cases "nat_dec n") auto
  have "span_digits (nat_dec n @ r) = (nat_dec n, r)"
    using nat_dec_digits [of n] assms(2)
    by (cases r) (auto simp: span_digits_def takeWhile_append2 dropWhile_append2)
  moreover have "scan_space (nat_dec n @ r) = Some (nat_dec n @ r)"
    using c by (simp add: scan_space_def digit_not_space)
  moreover have "\<not> has_prefix (nat_dec n @ r) ''-''" "\<not> has_prefix (nat_dec n @ r) ''+''"
    using c by (auto simp: has_prefix_def is_digit_def in_range_def)
  moreover have "int n < 2 ^ 63" using assms(1) by (metis of_nat_less_numeral_power_cancel_iff)
  ultimately show ?thesis using nat_dec_digits [of n] by (simp add: scan_int_def)
qed

end
