(* ===== verification/Auth_Crypto.thy ===== *)
theory Auth_Crypto
  imports Go_Codec
begin

text \<open>
  Secrets (auth/crypto.go) and roles (auth/roles.go). The ciphers and digests come in as
  parameters: \<open>aead\<close> is what crypto/cipher's interface offers under a key, \<open>sha256\<close> is
  crypto/sha256, and \<open>argon2_IDKey\<close> is the function of the same name of golang.org/x/crypto/argon2.
  \<open>unicode_ToLower\<close> is strings.ToLower on texts with bytes beyond ASCII. Random bytes are
  arguments of the operations that draw them. Around them the texts are built
  and read exactly as the code does it, so a hash that was printed is verified by reading it back.
\<close>

subsection \<open>The libraries\<close>

record aead =
  aead_NonceSize :: nat
  aead_Seal :: "string \<Rightarrow> string \<Rightarrow> string"
  aead_Open :: "string \<Rightarrow> string \<Rightarrow> string option"

record crypto_lib =
  sha256 :: "string \<Rightarrow> string"
  gcm :: "string \<Rightarrow> aead"
  argon2_IDKey :: "string \<Rightarrow> string \<Rightarrow> nat \<Rightarrow> nat \<Rightarrow> nat \<Rightarrow> nat \<Rightarrow> string"
  argon2_Version :: nat
  unicode_ToLower :: "string \<Rightarrow> string"

datatype authError =
    ErrDecrypt
  | ErrInvalidCredentials
  | ErrAccountLocked
  | ErrAccountDisabled
  | ErrInvalidTOTP
  | ErrNotFound
  | ErrLastAdmin
  | ErrSessionInvalid
  | ErrTokenInvalid
  | ErrUnknownRole string
  | ErrUserExists string
  | ErrTokenRole string string
  | ErrText string
  | ErrSQL

subsection \<open>Sealing\<close>

text \<open>A sealer is the cipher under the operator's key.\<close>

record Sealer =
  sealer_aead :: aead

definition NewSealer :: "crypto_lib \<Rightarrow> string \<Rightarrow> authError + Sealer" where
  "NewSealer lib masterKeyHex =
     (case hex_decode (trim_space masterKeyHex) of
        None \<Rightarrow> Err (ErrText ''master key is not valid hex'')
      | Some key \<Rightarrow>
          if length key \<noteq> 32
          then Err (ErrText (''master key must decode to 32 bytes, got '' @ nat_dec (length key)))
          else Ok \<lparr> sealer_aead = gcm lib key \<rparr>)"

definition Seal :: "Sealer \<Rightarrow> string \<Rightarrow> string \<Rightarrow> string" where
  "Seal s nonce plaintext = b64_encode b64_std True (nonce @ aead_Seal (sealer_aead s) nonce plaintext)"

definition Open :: "Sealer \<Rightarrow> string \<Rightarrow> authError + string" where
  "Open s sealed =
     (if sealed = [] then Ok []
      else case b64_decode b64_std True sealed of
             None \<Rightarrow> Err ErrDecrypt
           | Some raw \<Rightarrow>
               (let ns = aead_NonceSize (sealer_aead s)
                in if length raw < ns then Err ErrDecrypt
                   else case aead_Open (sealer_aead s) (take ns raw) (drop ns raw) of
                          None \<Rightarrow> Err ErrDecrypt
                        | Some pt \<Rightarrow> Ok pt))"

text \<open>What the documentation of \<open>cipher.AEAD\<close> promises of opening what was sealed.\<close>

definition aead_inverse :: "aead \<Rightarrow> bool" where
  "aead_inverse a \<longleftrightarrow>
     (\<forall>nonce pt. length nonce = aead_NonceSize a \<longrightarrow> aead_Open a nonce (aead_Seal a nonce pt) = Some pt)"

lemma b64_encode_empty [simp]: "b64_encode a pad s = [] \<longleftrightarrow> s = []"
  by (cases "(a, pad, s)" rule: b64_encode.cases) auto

lemma Open_Seal:
  assumes "aead_inverse (sealer_aead s)" and "length nonce = aead_NonceSize (sealer_aead s)" and "nonce \<noteq> []"
  shows "Open s (Seal s nonce pt) = Ok pt"
  using assms by (simp add: Open_def Seal_def b64_decode_encode b64_alphabets Let_def aead_inverse_def)

subsection \<open>Passwords\<close>

record argonParams =
  ap_time :: nat
  ap_memory :: nat
  ap_threads :: nat
  ap_keyLen :: nat

definition defaultArgon :: argonParams where
  "defaultArgon = \<lparr> ap_time = 3, ap_memory = 64 * 1024, ap_threads = 4, ap_keyLen = 32 \<rparr>"

definition raw_std_encode :: "string \<Rightarrow> string" where
  "raw_std_encode = b64_encode b64_std False"

definition HashPassword :: "crypto_lib \<Rightarrow> string \<Rightarrow> string \<Rightarrow> string" where
  "HashPassword lib salt password =
     (let p = defaultArgon;
          sum = argon2_IDKey lib password salt (ap_time p) (ap_memory p) (ap_threads p) (ap_keyLen p)
      in ''$argon2id$v='' @ nat_dec (argon2_Version lib) @ ''$m='' @ nat_dec (ap_memory p) @ '',t='' @ nat_dec (ap_time p) @
         '',p='' @ nat_dec (ap_threads p) @ ''$'' @ raw_std_encode salt @ ''$'' @ raw_std_encode sum)"

definition scan_version :: "string \<Rightarrow> int option" where
  "scan_version s = Option.bind (scan_literal ''v='' s) (\<lambda>r. map_option fst (scan_int r))"

definition scan_params :: "string \<Rightarrow> (nat \<times> nat \<times> nat) option" where
  "scan_params s =
     Option.bind (scan_literal ''m='' s) (\<lambda>r0.
     Option.bind (scan_uint 32 r0) (\<lambda>(m, r1).
     Option.bind (scan_literal '',t='' r1) (\<lambda>r2.
     Option.bind (scan_uint 32 r2) (\<lambda>(t, r3).
     Option.bind (scan_literal '',p='' r3) (\<lambda>r4.
     Option.bind (scan_uint 8 r4) (\<lambda>(p, r5).
     Some (m, t, p)))))))"

definition VerifyPassword :: "crypto_lib \<Rightarrow> string \<Rightarrow> string \<Rightarrow> bool" where
  "VerifyPassword lib password encoded =
     (let parts = split_on (CHR ''$'') encoded
      in if length parts \<noteq> 6 \<or> parts ! 1 \<noteq> ''argon2id'' then False
         else case scan_version (parts ! 2) of
           None \<Rightarrow> False
         | Some version \<Rightarrow>
             if version \<noteq> int (argon2_Version lib) then False
             else case scan_params (parts ! 3) of
               None \<Rightarrow> False
             | Some (memory, time, threads) \<Rightarrow>
                 (case b64_decode b64_std False (parts ! 4) of
                    None \<Rightarrow> False
                  | Some salt \<Rightarrow>
                      (case b64_decode b64_std False (parts ! 5) of
                         None \<Rightarrow> False
                       | Some want \<Rightarrow>
                           argon2_IDKey lib password salt time memory threads (length want mod 2 ^ 32) = want)))"

lemma dollar_b64: "CHR ''$'' \<notin> set (raw_std_encode s)"
  using b64_encode_set [OF b64_alphabets(1), of False s] by (auto simp: raw_std_encode_def b64_std_def)

lemma dollar_nat_dec: "CHR ''$'' \<notin> set (nat_dec n)"
proof
  assume "CHR ''$'' \<in> set (nat_dec n)"
  then have "is_digit CHR ''$''" using nat_dec_digits [of n] by blast
  then show False by (simp add: is_digit_def in_range_def)
qed

lemma hash_parts:
  "split_on (CHR ''$'') (HashPassword lib salt password) =
     [[], ''argon2id'', ''v='' @ nat_dec (argon2_Version lib),
      ''m='' @ nat_dec (64 * 1024) @ '',t='' @ nat_dec 3 @ '',p='' @ nat_dec 4,
      raw_std_encode salt, raw_std_encode (argon2_IDKey lib password salt 3 (64 * 1024) 4 32)]"
proof -
  have "HashPassword lib salt password =
    [] @ CHR ''$'' # ''argon2id'' @ CHR ''$'' # (''v='' @ nat_dec (argon2_Version lib)) @ CHR ''$'' #
    (''m='' @ nat_dec (64 * 1024) @ '',t='' @ nat_dec 3 @ '',p='' @ nat_dec 4) @ CHR ''$'' #
    raw_std_encode salt @ CHR ''$'' # raw_std_encode (argon2_IDKey lib password salt 3 (64 * 1024) 4 32)"
    by (simp add: HashPassword_def defaultArgon_def Let_def)
  then show ?thesis
    by (simp add: split_on_append split_on_word dollar_b64 dollar_nat_dec del: append_Cons append_assoc)
qed

lemma scan_version_print: "n < 2 ^ 63 \<Longrightarrow> scan_version (''v='' @ nat_dec n) = Some (int n)"
  using scan_int_nat_dec [of n "[]"] by (simp add: scan_version_def scan_literal_def has_prefix_def)

lemma scan_params_print:
  assumes "m < 2 ^ 32" "t < 2 ^ 32" "p < 2 ^ 8"
  shows "scan_params (''m='' @ nat_dec m @ '',t='' @ nat_dec t @ '',p='' @ nat_dec p) = Some (m, t, p)"
proof -
  have "\<not> is_digit (CHR '','')" by (simp add: is_digit_def in_range_def)
  then have "scan_uint 32 (nat_dec m @ '',t='' @ nat_dec t @ '',p='' @ nat_dec p)
      = Some (m, '',t='' @ nat_dec t @ '',p='' @ nat_dec p)"
    "scan_uint 32 (nat_dec t @ '',p='' @ nat_dec p) = Some (t, '',p='' @ nat_dec p)"
    "scan_uint 8 (nat_dec p) = Some (p, [])"
    using scan_uint_nat_dec [OF assms(1), of "'',t='' @ nat_dec t @ '',p='' @ nat_dec p"]
      scan_uint_nat_dec [OF assms(2), of "'',p='' @ nat_dec p"] scan_uint_nat_dec [OF assms(3), of "[]"]
    by simp_all
  then show ?thesis by (simp add: scan_params_def scan_literal_def has_prefix_def)
qed

lemma VerifyPassword_HashPassword:
  assumes "\<And>pw salt t m p k. length (argon2_IDKey lib pw salt t m p k) = k" and "argon2_Version lib < 2 ^ 63"
  shows "VerifyPassword lib attempt (HashPassword lib salt password) \<longleftrightarrow>
    argon2_IDKey lib attempt salt 3 65536 4 32 = argon2_IDKey lib password salt 3 65536 4 32"
proof -
  have v: "scan_version (''v='' @ nat_dec (argon2_Version lib)) = Some (int (argon2_Version lib))"
    using assms(2) by (rule scan_version_print)
  have p: "scan_params (''m='' @ nat_dec (64 * 1024) @ '',t='' @ nat_dec 3 @ '',p='' @ nat_dec 4) = Some (64 * 1024, 3, 4)"
    by (rule scan_params_print) simp_all
  have d: "b64_decode b64_std False (raw_std_encode s) = Some s" for s
    unfolding raw_std_encode_def by (rule b64_decode_encode [OF b64_alphabets(1)])
  show ?thesis
    unfolding VerifyPassword_def hash_parts by (simp add: v [simplified] p [simplified] d assms(1))
qed

subsection \<open>Random tokens\<close>

definition RandomToken :: "string \<Rightarrow> string" where
  "RandomToken bytes = b64_encode b64_url False bytes"

definition HashToken :: "crypto_lib \<Rightarrow> string \<Rightarrow> string" where
  "HashToken lib token = hex_encode (sha256 lib token)"

definition ConstantTimeEqual :: "string \<Rightarrow> string \<Rightarrow> bool" where
  "ConstantTimeEqual a b = (a = b)"

lemma RandomToken_inject: "RandomToken a = RandomToken b \<longleftrightarrow> a = b"
  using b64_decode_encode [OF b64_alphabets(2), of False]
  unfolding RandomToken_def by (metis option.inject)

lemma hex_encode_inject [simp]: "hex_encode a = hex_encode b \<longleftrightarrow> a = b"
  using hex_decode_encode by (metis option.inject)

lemma HashToken_inject: "inj (sha256 lib) \<Longrightarrow> HashToken lib a = HashToken lib b \<longleftrightarrow> a = b"
  by (simp add: HashToken_def inj_eq)

subsection \<open>Roles\<close>

text \<open>A role is a string, as a column or a request may hold any; three are known.\<close>

type_synonym Role = string

definition RoleAdmin :: Role where
  "RoleAdmin = ''admin''"

definition RoleLimited :: Role where
  "RoleLimited = ''limited''"

definition RoleReadOnly :: Role where
  "RoleReadOnly = ''readonly''"

lemmas role_names = RoleAdmin_def RoleLimited_def RoleReadOnly_def

definition role_Valid :: "Role \<Rightarrow> bool" where
  "role_Valid r = (r \<in> {RoleAdmin, RoleLimited, RoleReadOnly})"

datatype Capability = CapRead | CapServiceControl | CapFileWrite | CapTerminal | CapDestructive | CapSystemAdmin

definition capability_string :: "Capability \<Rightarrow> string" where
  "capability_string c =
     (case c of
        CapRead \<Rightarrow> ''read''
      | CapServiceControl \<Rightarrow> ''service.control''
      | CapFileWrite \<Rightarrow> ''file.write''
      | CapTerminal \<Rightarrow> ''terminal''
      | CapDestructive \<Rightarrow> ''destructive''
      | CapSystemAdmin \<Rightarrow> ''system.admin'')"

text \<open>A lookup in \<open>rolePermissions\<close>; a role that is not a key holds nothing.\<close>

definition rolePermissions :: "Role \<Rightarrow> Capability set" where
  "rolePermissions r =
     (if r = RoleAdmin then {CapRead, CapServiceControl, CapFileWrite, CapTerminal, CapDestructive, CapSystemAdmin}
      else if r = RoleLimited then {CapRead, CapServiceControl, CapFileWrite}
      else if r = RoleReadOnly then {CapRead}
      else {})"

definition role_Can :: "Role \<Rightarrow> Capability \<Rightarrow> bool" where
  "role_Can r c = (c \<in> rolePermissions r)"

definition Capabilities :: "Role \<Rightarrow> Capability list" where
  "Capabilities r =
     filter (role_Can r) [CapRead, CapServiceControl, CapFileWrite, CapTerminal, CapDestructive, CapSystemAdmin]"

text \<open>The rank of a role that is not in the map is the zero value.\<close>

definition role_rank :: "Role \<Rightarrow> int" where
  "role_rank r = (if r = RoleLimited then 1 else if r = RoleAdmin then 2 else 0)"

definition roleAtMost :: "Role \<Rightarrow> Role \<Rightarrow> bool" where
  "roleAtMost want have = (role_rank want \<le> role_rank have)"

lemma set_Capabilities: "set (Capabilities r) = rolePermissions r"
proof -
  have "c \<in> set [CapRead, CapServiceControl, CapFileWrite, CapTerminal, CapDestructive, CapSystemAdmin]" for c
    by (cases c) auto
  then show ?thesis unfolding Capabilities_def role_Can_def set_filter by blast
qed

text \<open>For known roles the rank orders the permissions.\<close>

lemma roleAtMost_permissions:
  "role_Valid want \<Longrightarrow> role_Valid have \<Longrightarrow> roleAtMost want have \<longleftrightarrow> rolePermissions want \<subseteq> rolePermissions have"
  by (auto simp: role_Valid_def roleAtMost_def role_rank_def rolePermissions_def role_names)

lemma effective_permissions:
  assumes "roleAtMost want have" and "role_Valid have"
  shows "rolePermissions want \<subseteq> rolePermissions have"
  using assms by (auto simp: role_Valid_def roleAtMost_def role_rank_def rolePermissions_def role_names split: if_splits)

end
