(* ===== verification/Auth_Users.thy ===== *)
theory Auth_Users
  imports Auth_Crypto
begin

text \<open>
  The tables of the authentication service and its account operations (auth/service.go up to the
  login). A table is the list of its rows; an \<open>AUTOINCREMENT\<close> key comes from a counter; deleting an
  account cascades to its sessions, tokens and recovery codes as the schema says. An operation
  returns its result and the tables it leaves; each statement of it is one step, there is no
  transaction around them. Constraint violations are errors; other failures of the database are
  not modelled.
\<close>

subsection \<open>Tables\<close>

record user_row =
  us_id :: int
  us_username :: string
  us_password_hash :: string
  us_role :: Role
  us_totp_secret :: string
  us_totp_enabled :: int
  us_disabled :: int
  us_must_change_pw :: int
  us_failed_count :: int
  us_locked_until :: unix_seconds
  us_last_login_at :: unix_seconds
  us_created_at :: unix_seconds

record recovery_row =
  rc_user_id :: int
  rc_code_hash :: string
  rc_used_at :: unix_seconds

record session_row =
  se_id :: string
  se_user_id :: int
  se_token_hash :: string
  se_twofa_passed :: int
  se_ip :: string
  se_user_agent :: string
  se_created_at :: unix_seconds
  se_last_seen_at :: unix_seconds
  se_expires_at :: unix_seconds

record token_row =
  tk_id :: int
  tk_user_id :: int
  tk_name :: string
  tk_prefix :: string
  tk_token_hash :: string
  tk_role :: Role
  tk_created_at :: unix_seconds
  tk_expires_at :: unix_seconds
  tk_last_used_at :: unix_seconds
  tk_revoked :: int

record auth_db =
  users :: "user_row list"
  recovery_codes :: "recovery_row list"
  sessions :: "session_row list"
  api_tokens :: "token_row list"
  next_user :: int
  next_token :: int

record Service =
  sv_sealer :: Sealer
  sv_sessionTTL :: go_duration
  sv_idleTTL :: go_duration

type_synonym 'a auth_result = "(authError + 'a) \<times> auth_db"

text \<open>The early return of an operation on an error, with the tables as the statements before left them.\<close>

definition bindd :: "'a auth_result \<Rightarrow> ('a \<Rightarrow> auth_db \<Rightarrow> 'b auth_result) \<Rightarrow> 'b auth_result" where
  "bindd r f = (case r of (Inl e, db) \<Rightarrow> (Inl e, db) | (Inr x, db) \<Rightarrow> f x db)"

lemma bindd_simps [simp, result_simps]:
  "bindd (Inl e, db) f = (Inl e, db)"
  "bindd (Inr x, db) f = f x db"
  by (simp_all add: bindd_def)

definition user_exists :: "auth_db \<Rightarrow> int \<Rightarrow> bool" where
  "user_exists db userID = sql_exists (\<lambda>u. us_id u = userID) (users db)"

definition update_user :: "int \<Rightarrow> (user_row \<Rightarrow> user_row) \<Rightarrow> auth_db \<Rightarrow> auth_db" where
  "update_user userID f db = db\<lparr>users := sql_update (\<lambda>u. us_id u = userID) f (users db)\<rparr>"

definition delete_user :: "int \<Rightarrow> auth_db \<Rightarrow> auth_db" where
  "delete_user userID db =
     db\<lparr>users := sql_delete (\<lambda>u. us_id u = userID) (users db),
        recovery_codes := sql_delete (\<lambda>c. rc_user_id c = userID) (recovery_codes db),
        sessions := sql_delete (\<lambda>s. se_user_id s = userID) (sessions db),
        api_tokens := sql_delete (\<lambda>t. tk_user_id t = userID) (api_tokens db)\<rparr>"

definition RevokeAllSessions :: "int \<Rightarrow> auth_db \<Rightarrow> unit auth_result" where
  "RevokeAllSessions userID db = (Ok (), db\<lparr>sessions := sql_delete (\<lambda>s. se_user_id s = userID) (sessions db)\<rparr>)"

subsection \<open>Accounts\<close>

record User =
  usr_ID :: int
  usr_Username :: string
  usr_Role :: Role
  usr_TOTPEnabled :: bool
  usr_Disabled :: bool
  usr_MustChangePW :: bool
  usr_LastLoginAt :: "go_time option"
  usr_CreatedAt :: go_time

definition scanUser :: "user_row \<Rightarrow> User" where
  "scanUser r =
     \<lparr> usr_ID = us_id r, usr_Username = us_username r, usr_Role = us_role r,
       usr_TOTPEnabled = (us_totp_enabled r = 1), usr_Disabled = (us_disabled r = 1),
       usr_MustChangePW = (us_must_change_pw r = 1),
       usr_LastLoginAt = (if us_last_login_at r > 0 then Some (of_unix (us_last_login_at r)) else None),
       usr_CreatedAt = of_unix (us_created_at r) \<rparr>"

definition UserByID :: "int \<Rightarrow> auth_db \<Rightarrow> authError + User" where
  "UserByID userID db =
     (case find (\<lambda>u. us_id u = userID) (users db) of
        None \<Rightarrow> Err ErrNotFound
      | Some r \<Rightarrow> Ok (scanUser r))"

definition ListUsers :: "auth_db \<Rightarrow> User list" where
  "ListUsers db = map scanUser (sort_key us_username (users db))"

definition is_upper :: "char \<Rightarrow> bool" where
  "is_upper c = in_range 65 90 c"

definition is_lower :: "char \<Rightarrow> bool" where
  "is_lower c = in_range 97 122 c"

text \<open>
  The loop looks at runes; a byte of a rune beyond ASCII is neither letter nor digit here, and such
  a rune is of the fourth class, so the classes of the bytes are those of the runes.
\<close>

definition password_classes :: "string \<Rightarrow> nat" where
  "password_classes pw =
     (let hasUpper = list_ex is_upper pw;
          hasLower = list_ex is_lower pw;
          hasDigit = list_ex is_digit pw;
          hasOther = list_ex (\<lambda>c. \<not> is_upper c \<and> \<not> is_lower c \<and> \<not> is_digit c) pw
      in length (filter (\<lambda>ok. ok) [hasUpper, hasLower, hasDigit, hasOther]))"

definition ValidatePasswordStrength :: "string \<Rightarrow> authError + unit" where
  "ValidatePasswordStrength pw =
     (if length pw < 12 then Err (ErrText ''password must be at least 12 characters'')
      else if password_classes pw < 3
      then Err (ErrText ''password must mix at least three of: uppercase, lowercase, digits, symbols'')
      else Ok ())"

definition to_lower :: "crypto_lib \<Rightarrow> string \<Rightarrow> string" where
  "to_lower lib s = (if list_all (in_range 0 127) s then ascii_lower s else unicode_ToLower lib s)"

definition normalize_username :: "crypto_lib \<Rightarrow> string \<Rightarrow> string" where
  "normalize_username lib username = trim_space (to_lower lib username)"

definition new_user_row :: "int \<Rightarrow> string \<Rightarrow> string \<Rightarrow> Role \<Rightarrow> bool \<Rightarrow> unix_seconds \<Rightarrow> user_row" where
  "new_user_row i username hash role mustChange created =
     \<lparr> us_id = i, us_username = username, us_password_hash = hash, us_role = role, us_totp_secret = [],
       us_totp_enabled = 0, us_disabled = 0, us_must_change_pw = (if mustChange then 1 else 0),
       us_failed_count = 0, us_locked_until = 0, us_last_login_at = 0, us_created_at = created \<rparr>"

definition insert_user :: "string \<Rightarrow> string \<Rightarrow> Role \<Rightarrow> bool \<Rightarrow> go_time \<Rightarrow> auth_db \<Rightarrow> auth_db" where
  "insert_user username hash role mustChange now db =
     db\<lparr>users := users db @ [new_user_row (next_user db) username hash role mustChange (unix now)],
        next_user := next_user db + 1\<rparr>"

definition CreateUser ::
    "crypto_lib \<Rightarrow> string \<Rightarrow> string \<Rightarrow> string \<Rightarrow> Role \<Rightarrow> bool \<Rightarrow> go_time \<Rightarrow> auth_db \<Rightarrow> User auth_result" where
  "CreateUser lib salt name password role mustChange now db =
     (let username = normalize_username lib name
      in if username = [] then (Err (ErrText ''username required''), db)
         else if \<not> role_Valid role then (Err (ErrUnknownRole role), db)
         else bindd (ValidatePasswordStrength password, db) (\<lambda>_ db.
           if sql_exists (\<lambda>u. us_username u = username) (users db) then (Err (ErrUserExists username), db)
           else (let db' = insert_user username (HashPassword lib salt password) role mustChange now db
                 in (UserByID (next_user db) db', db'))))"

definition SetPassword :: "crypto_lib \<Rightarrow> string \<Rightarrow> int \<Rightarrow> string \<Rightarrow> auth_db \<Rightarrow> unit auth_result" where
  "SetPassword lib salt userID password db =
     bindd (ValidatePasswordStrength password, db) (\<lambda>_ db.
       (Ok (), update_user userID
                 (\<lambda>u. u\<lparr>us_password_hash := HashPassword lib salt password, us_must_change_pw := 0\<rparr>) db))"

definition VerifyUserPassword :: "crypto_lib \<Rightarrow> int \<Rightarrow> string \<Rightarrow> auth_db \<Rightarrow> bool" where
  "VerifyUserPassword lib userID password db =
     (case find (\<lambda>u. us_id u = userID) (users db) of
        None \<Rightarrow> False
      | Some r \<Rightarrow> VerifyPassword lib password (us_password_hash r))"

subsection \<open>The last administrator\<close>

definition enabled_admin :: "user_row \<Rightarrow> bool" where
  "enabled_admin u = (us_role u = RoleAdmin \<and> us_disabled u = 0)"

definition guardLastAdmin :: "int \<Rightarrow> auth_db \<Rightarrow> authError + unit" where
  "guardLastAdmin userID db =
     (case find (\<lambda>u. us_id u = userID) (users db) of
        None \<Rightarrow> Err ErrNotFound
      | Some r \<Rightarrow>
          if us_role r \<noteq> RoleAdmin \<or> us_disabled r = 1 then Ok ()
          else if sql_count (\<lambda>u. enabled_admin u \<and> us_id u \<noteq> userID) (users db) = 0 then Err ErrLastAdmin
          else Ok ())"

text \<open>The writes that follow the check.\<close>

definition write_role :: "int \<Rightarrow> Role \<Rightarrow> auth_db \<Rightarrow> auth_db" where
  "write_role userID role db = update_user userID (\<lambda>u. u\<lparr>us_role := role\<rparr>) db"

definition write_disabled :: "int \<Rightarrow> bool \<Rightarrow> auth_db \<Rightarrow> auth_db" where
  "write_disabled userID disabled db = update_user userID (\<lambda>u. u\<lparr>us_disabled := (if disabled then 1 else 0)\<rparr>) db"

definition SetRole :: "int \<Rightarrow> Role \<Rightarrow> auth_db \<Rightarrow> unit auth_result" where
  "SetRole userID role db =
     (if \<not> role_Valid role then (Err (ErrUnknownRole role), db)
      else bindd (if role \<noteq> RoleAdmin then guardLastAdmin userID db else Ok (), db) (\<lambda>_ db.
        (Ok (), write_role userID role db)))"

definition SetDisabled :: "int \<Rightarrow> bool \<Rightarrow> auth_db \<Rightarrow> unit auth_result" where
  "SetDisabled userID disabled db =
     bindd (if disabled then guardLastAdmin userID db else Ok (), db) (\<lambda>_ db.
       (let db' = write_disabled userID disabled db
        in if disabled then RevokeAllSessions userID db' else (Ok (), db')))"

definition DeleteUser :: "int \<Rightarrow> auth_db \<Rightarrow> unit auth_result" where
  "DeleteUser userID db =
     bindd (guardLastAdmin userID db, db) (\<lambda>_ db. (Ok (), delete_user userID db))"

subsection \<open>Invariant\<close>

text \<open>
  What the schema enforces (keys are unique, references hold) and what the operations keep on top
  of it: keys below the counters, flags that are 0 or 1, known roles.
\<close>

definition users_inv :: "auth_db \<Rightarrow> bool" where
  "users_inv db \<longleftrightarrow>
     distinct (map us_id (users db)) \<and> distinct (map us_username (users db)) \<and>
     (\<forall>u \<in> set (users db). us_id u < next_user db \<and> us_disabled u \<in> {0, 1} \<and> role_Valid (us_role u))"

definition refs_inv :: "auth_db \<Rightarrow> bool" where
  "refs_inv db \<longleftrightarrow>
     (\<forall>s \<in> set (sessions db). user_exists db (se_user_id s)) \<and>
     (\<forall>t \<in> set (api_tokens db). user_exists db (tk_user_id t)) \<and>
     (\<forall>c \<in> set (recovery_codes db). user_exists db (rc_user_id c))"

definition keys_inv :: "auth_db \<Rightarrow> bool" where
  "keys_inv db \<longleftrightarrow>
     distinct (map se_id (sessions db)) \<and> distinct (map se_token_hash (sessions db)) \<and>
     distinct (map tk_id (api_tokens db)) \<and> distinct (map tk_token_hash (api_tokens db)) \<and>
     (\<forall>t \<in> set (api_tokens db). tk_id t < next_token db \<and> role_Valid (tk_role t))"

definition auth_inv :: "auth_db \<Rightarrow> bool" where
  "auth_inv db \<longleftrightarrow> users_inv db \<and> refs_inv db \<and> keys_inv db"

definition has_admin :: "auth_db \<Rightarrow> bool" where
  "has_admin db \<longleftrightarrow> (\<exists>u \<in> set (users db). enabled_admin u)"

lemma user_exists_update [simp]: "(\<And>u. us_id (f u) = us_id u) \<Longrightarrow> user_exists (update_user i f db) j = user_exists db j"
  by (auto simp: user_exists_def update_user_def sql)

lemma update_user_frame [simp]:
  "sessions (update_user i f db) = sessions db" "api_tokens (update_user i f db) = api_tokens db"
  "recovery_codes (update_user i f db) = recovery_codes db" "next_user (update_user i f db) = next_user db"
  "next_token (update_user i f db) = next_token db"
  by (simp_all add: update_user_def)

lemma update_user_inv:
  assumes "auth_inv db" and "\<And>u. us_id (f u) = us_id u" "\<And>u. us_username (f u) = us_username u"
    and "\<And>u. role_Valid (us_role u) \<Longrightarrow> role_Valid (us_role (f u))"
    and "\<And>u. us_disabled u \<in> {0, 1} \<Longrightarrow> us_disabled (f u) \<in> {0, 1}"
  shows "auth_inv (update_user i f db)"
proof -
  have "users_inv (update_user i f db)"
    using assms(1,4,5) unfolding users_inv_def auth_inv_def
    by (auto simp: update_user_def map_sql_update_same assms(2,3) set_sql_update image_iff)
  then show ?thesis
    using assms(1) by (simp add: auth_inv_def refs_inv_def keys_inv_def assms(2))
qed

lemma guardLastAdmin_other:
  assumes "users_inv db" and "guardLastAdmin userID db = Ok ()" and "has_admin db"
  shows "\<exists>u \<in> set (users db). enabled_admin u \<and> us_id u \<noteq> userID"
proof (rule ccontr)
  assume none: "\<not> ?thesis"
  obtain u where u: "u \<in> set (users db)" "enabled_admin u" using assms(3) by (auto simp: has_admin_def)
  with none have k: "us_id u = userID" by auto
  have "find (\<lambda>x. us_id x = userID) (users db) = Some u"
    using find_key_unique [of us_id "users db" u] assms(1) u(1) k by (simp add: users_inv_def)
  with assms(2) u(2) none show False
    by (auto simp: guardLastAdmin_def enabled_admin_def split: if_splits)
qed

lemma update_user_keeps_admin:
  assumes "u \<in> set (users db)" "enabled_admin u" "us_id u \<noteq> i"
  shows "has_admin (update_user i f db)"
  using assms unfolding has_admin_def update_user_def by (force simp: set_sql_update)

lemma has_admin_update:
  assumes "has_admin db" and "\<And>u. enabled_admin u \<Longrightarrow> enabled_admin (f u)"
  shows "has_admin (update_user i f db)"
proof -
  obtain u where "u \<in> set (users db)" "enabled_admin u" using assms(1) by (auto simp: has_admin_def)
  then show ?thesis
    using assms(2) unfolding has_admin_def update_user_def
    by (intro bexI [of _ "if us_id u = i then f u else u"]) (auto simp: set_sql_update)
qed

lemma delete_user_inv: "auth_inv db \<Longrightarrow> auth_inv (delete_user i db)"
  unfolding auth_inv_def users_inv_def refs_inv_def keys_inv_def user_exists_def delete_user_def
  by (simp add: distinct_sql_delete) metis

lemma delete_sessions_inv: "auth_inv db \<Longrightarrow> auth_inv (db\<lparr>sessions := sql_delete p (sessions db)\<rparr>)"
  by (auto simp: auth_inv_def users_inv_def refs_inv_def keys_inv_def user_exists_def distinct_sql_delete)

lemma has_admin_users: "users db' = users db \<Longrightarrow> has_admin db' = has_admin db"
  by (simp add: has_admin_def)

end
