(* ===== verification/Auth_Sessions.thy ===== *)
theory Auth_Sessions
  imports Auth_Users
begin

text \<open>
  Browser sessions (auth/session.go) and API tokens (auth/tokens.go). Only the digest of a secret
  is stored; the secret itself is returned once. A session has an absolute and an idle deadline, a
  token at most an absolute one; both stop working with the account they belong to.
\<close>

subsection \<open>Sessions\<close>

record Session =
  ses_ID :: string
  ses_UserID :: int
  ses_TwoFAPassed :: bool
  ses_IP :: string
  ses_UserAgent :: string
  ses_CreatedAt :: go_time
  ses_LastSeenAt :: go_time
  ses_ExpiresAt :: go_time
  ses_Current :: bool

definition truncate_bytes :: "string \<Rightarrow> nat \<Rightarrow> string" where
  "truncate_bytes s n = (if length s \<le> n then s else take n s)"

definition insert_session :: "session_row \<Rightarrow> auth_db \<Rightarrow> unit auth_result" where
  "insert_session r db =
     (if sql_exists (\<lambda>s. se_id s = se_id r \<or> se_token_hash s = se_token_hash r) (sessions db) \<or>
         \<not> user_exists db (se_user_id r)
      then (Err ErrSQL, db)
      else (Ok (), db\<lparr>sessions := sessions db @ [r]\<rparr>))"

text \<open>\<open>tokenBytes\<close> and \<open>idBytes\<close> are the 32 and 12 random bytes drawn.\<close>

definition newSession ::
    "crypto_lib \<Rightarrow> Service \<Rightarrow> string \<Rightarrow> string \<Rightarrow> int \<Rightarrow> string \<Rightarrow> string \<Rightarrow> bool \<Rightarrow> go_time \<Rightarrow> auth_db \<Rightarrow>
     (Session \<times> string) auth_result" where
  "newSession lib sv tokenBytes idBytes userID ip ua twofaPassed now db =
     (let token = RandomToken tokenBytes;
          sess = \<lparr> ses_ID = RandomToken idBytes, ses_UserID = userID, ses_TwoFAPassed = twofaPassed,
                   ses_IP = ip, ses_UserAgent = truncate_bytes ua 256, ses_CreatedAt = now, ses_LastSeenAt = now,
                   ses_ExpiresAt = now + sv_sessionTTL sv, ses_Current = False \<rparr>;
          row = \<lparr> se_id = ses_ID sess, se_user_id = userID, se_token_hash = HashToken lib token,
                  se_twofa_passed = (if twofaPassed then 1 else 0), se_ip = ses_IP sess,
                  se_user_agent = ses_UserAgent sess, se_created_at = unix now, se_last_seen_at = unix now,
                  se_expires_at = unix (ses_ExpiresAt sess) \<rparr>
      in bindd (insert_session row db) (\<lambda>_ db. (Ok (sess, token), db)))"

definition scanSession :: "session_row \<Rightarrow> Session" where
  "scanSession r =
     \<lparr> ses_ID = se_id r, ses_UserID = se_user_id r, ses_TwoFAPassed = (se_twofa_passed r = 1),
       ses_IP = se_ip r, ses_UserAgent = se_user_agent r, ses_CreatedAt = of_unix (se_created_at r),
       ses_LastSeenAt = of_unix (se_last_seen_at r), ses_ExpiresAt = of_unix (se_expires_at r), ses_Current = False \<rparr>"

definition RevokeSession :: "string \<Rightarrow> auth_db \<Rightarrow> unit auth_result" where
  "RevokeSession sessionID db = (Ok (), db\<lparr>sessions := sql_delete (\<lambda>s. se_id s = sessionID) (sessions db)\<rparr>)"

definition touch_session :: "string \<Rightarrow> go_time \<Rightarrow> auth_db \<Rightarrow> auth_db" where
  "touch_session sessionID now db =
     db\<lparr>sessions := sql_update (\<lambda>s. se_id s = sessionID) (\<lambda>s. s\<lparr>se_last_seen_at := unix now\<rparr>) (sessions db)\<rparr>"

definition session_expired :: "Service \<Rightarrow> go_time \<Rightarrow> Session \<Rightarrow> bool" where
  "session_expired sv now sess = (now > ses_ExpiresAt sess \<or> now - ses_LastSeenAt sess > sv_idleTTL sv)"

definition ResolveSession ::
    "crypto_lib \<Rightarrow> Service \<Rightarrow> string \<Rightarrow> go_time \<Rightarrow> auth_db \<Rightarrow> (Session \<times> User) auth_result" where
  "ResolveSession lib sv token now db =
     (if token = [] then (Err ErrSessionInvalid, db)
      else case find (\<lambda>s. se_token_hash s = HashToken lib token) (sessions db) of
        None \<Rightarrow> (Err ErrSessionInvalid, db)
      | Some row \<Rightarrow>
          (let sess = scanSession row
           in if session_expired sv now sess then (Err ErrSessionInvalid, snd (RevokeSession (ses_ID sess) db))
              else case UserByID (ses_UserID sess) db of
                Inl _ \<Rightarrow> (Err ErrSessionInvalid, db)
              | Inr u \<Rightarrow>
                  if usr_Disabled u then (Err ErrAccountDisabled, snd (RevokeAllSessions (usr_ID u) db))
                  else if now - ses_LastSeenAt sess > 30 * second
                  then (Ok (sess\<lparr>ses_LastSeenAt := now\<rparr>, u), touch_session (ses_ID sess) now db)
                  else (Ok (sess, u), db)))"

definition ListSessions :: "int \<Rightarrow> string \<Rightarrow> auth_db \<Rightarrow> Session list" where
  "ListSessions userID currentID db =
     map (\<lambda>r. (scanSession r)\<lparr>ses_Current := (se_id r = currentID)\<rparr>)
       (sort_key (\<lambda>r. - se_last_seen_at r) (filter (\<lambda>r. se_user_id r = userID) (sessions db)))"

definition PurgeExpired :: "go_time \<Rightarrow> auth_db \<Rightarrow> unit auth_result" where
  "PurgeExpired now db = (Ok (), db\<lparr>sessions := sql_delete (\<lambda>s. se_expires_at s < unix now) (sessions db)\<rparr>)"

subsection \<open>Tokens\<close>

definition tokenPrefix :: string where
  "tokenPrefix = ''vpsd_''"

record APIToken =
  tok_ID :: int
  tok_UserID :: int
  tok_Name :: string
  tok_Prefix :: string
  tok_Role :: Role
  tok_CreatedAt :: go_time
  tok_ExpiresAt :: "go_time option"
  tok_LastUsedAt :: "go_time option"
  tok_Revoked :: bool

definition scanAPIToken :: "token_row \<Rightarrow> APIToken" where
  "scanAPIToken r =
     \<lparr> tok_ID = tk_id r, tok_UserID = tk_user_id r, tok_Name = tk_name r, tok_Prefix = tk_prefix r,
       tok_Role = tk_role r, tok_CreatedAt = of_unix (tk_created_at r),
       tok_ExpiresAt = (if tk_expires_at r > 0 then Some (of_unix (tk_expires_at r)) else None),
       tok_LastUsedAt = (if tk_last_used_at r > 0 then Some (of_unix (tk_last_used_at r)) else None),
       tok_Revoked = (tk_revoked r = 1) \<rparr>"

definition apiTokenByID :: "int \<Rightarrow> auth_db \<Rightarrow> authError + APIToken" where
  "apiTokenByID i db =
     (case find (\<lambda>t. tk_id t = i) (api_tokens db) of
        None \<Rightarrow> Err ErrSQL
      | Some r \<Rightarrow> Ok (scanAPIToken r))"

definition insert_token :: "token_row \<Rightarrow> auth_db \<Rightarrow> int auth_result" where
  "insert_token r db =
     (if sql_exists (\<lambda>t. tk_token_hash t = tk_token_hash r) (api_tokens db) \<or> \<not> user_exists db (tk_user_id r)
      then (Err ErrSQL, db)
      else (Ok (next_token db),
            db\<lparr>api_tokens := api_tokens db @ [r\<lparr>tk_id := next_token db\<rparr>], next_token := next_token db + 1\<rparr>))"

definition CreateAPIToken ::
    "crypto_lib \<Rightarrow> string \<Rightarrow> User \<Rightarrow> string \<Rightarrow> Role \<Rightarrow> go_duration \<Rightarrow> go_time \<Rightarrow> auth_db \<Rightarrow>
     (APIToken \<times> string) auth_result" where
  "CreateAPIToken lib secretBytes owner rawName role ttl now db =
     (let name = trim_space rawName
      in if name = [] then (Err (ErrText ''token name required''), db)
         else if \<not> role_Valid role then (Err (ErrUnknownRole role), db)
         else if \<not> roleAtMost role (usr_Role owner) then (Err (ErrTokenRole role (usr_Role owner)), db)
         else
           (let secret = RandomToken secretBytes;
                full = tokenPrefix @ secret;
                expires = (if ttl > 0 then unix (now + ttl) else 0);
                row = \<lparr> tk_id = 0, tk_user_id = usr_ID owner, tk_name = name,
                        tk_prefix = take (length tokenPrefix + 8) full, tk_token_hash = HashToken lib full,
                        tk_role = role, tk_created_at = unix now, tk_expires_at = expires,
                        tk_last_used_at = 0, tk_revoked = 0 \<rparr>
            in bindd (insert_token row db) (\<lambda>i db.
               bindd (apiTokenByID i db, db) (\<lambda>tok db. (Ok (tok, full), db)))))"

definition ListAPITokens :: "int \<Rightarrow> bool \<Rightarrow> auth_db \<Rightarrow> APIToken list" where
  "ListAPITokens userID everyone db =
     map scanAPIToken (sort_key (\<lambda>r. - tk_created_at r)
       (filter (\<lambda>r. everyone \<or> tk_user_id r = userID) (api_tokens db)))"

definition update_token :: "int \<Rightarrow> (token_row \<Rightarrow> token_row) \<Rightarrow> auth_db \<Rightarrow> auth_db" where
  "update_token i f db = db\<lparr>api_tokens := sql_update (\<lambda>t. tk_id t = i) f (api_tokens db)\<rparr>"

definition RevokeAPIToken :: "int \<Rightarrow> auth_db \<Rightarrow> unit auth_result" where
  "RevokeAPIToken i db = (Ok (), update_token i (\<lambda>t. t\<lparr>tk_revoked := 1\<rparr>) db)"

definition DeleteAPIToken :: "int \<Rightarrow> auth_db \<Rightarrow> unit auth_result" where
  "DeleteAPIToken i db = (Ok (), db\<lparr>api_tokens := sql_delete (\<lambda>t. tk_id t = i) (api_tokens db)\<rparr>)"

definition ResolveAPIToken ::
    "crypto_lib \<Rightarrow> string \<Rightarrow> go_time \<Rightarrow> auth_db \<Rightarrow> (APIToken \<times> User \<times> Role) auth_result" where
  "ResolveAPIToken lib presented now db =
     (if \<not> has_prefix presented tokenPrefix then (Err ErrTokenInvalid, db)
      else case find (\<lambda>t. tk_token_hash t = HashToken lib presented) (api_tokens db) of
        None \<Rightarrow> (Err ErrTokenInvalid, db)
      | Some row \<Rightarrow>
          (let t = scanAPIToken row
           in if tok_Revoked t \<or> (case tok_ExpiresAt t of None \<Rightarrow> False | Some e \<Rightarrow> now > e)
              then (Err ErrTokenInvalid, db)
              else case UserByID (tok_UserID t) db of
                Inl _ \<Rightarrow> (Err ErrTokenInvalid, db)
              | Inr u \<Rightarrow>
                  if usr_Disabled u then (Err ErrTokenInvalid, db)
                  else
                    (let effective = (if \<not> roleAtMost (tok_Role t) (usr_Role u) then usr_Role u else tok_Role t)
                     in (Ok (t, u, effective), update_token (tok_ID t) (\<lambda>r. r\<lparr>tk_last_used_at := unix now\<rparr>) db))))"

subsection \<open>What a credential proves\<close>

lemma UserByID_Ok:
  "UserByID i db = Ok u \<Longrightarrow> \<exists>r \<in> set (users db). us_id r = i \<and> u = scanUser r"
  by (auto simp: UserByID_def split: option.splits dest: find_Some_in)

lemma ResolveSession_Ok:
  assumes "ResolveSession lib sv token now db = (Ok (sess, u), db')"
  obtains row r where "row \<in> set (sessions db)" "se_token_hash row = HashToken lib token"
    "now \<le> of_unix (se_expires_at row)" "now - of_unix (se_last_seen_at row) \<le> sv_idleTTL sv"
    "r \<in> set (users db)" "us_id r = se_user_id row" "us_disabled r \<noteq> 1" "u = scanUser r"
    "ses_ID sess = se_id row" "ses_UserID sess = se_user_id row" "ses_TwoFAPassed sess \<longleftrightarrow> se_twofa_passed row = 1"
proof -
  obtain row where row: "find (\<lambda>s. se_token_hash s = HashToken lib token) (sessions db) = Some row"
    using assms by (auto simp: ResolveSession_def split: if_splits option.splits)
  then have alive: "\<not> session_expired sv now (scanSession row)"
    using assms by (auto simp: ResolveSession_def Let_def split: if_splits)
  obtain v where v: "UserByID (se_user_id row) db = Ok v"
    using assms row alive
    by (auto simp: ResolveSession_def Let_def scanSession_def split: if_splits sum.splits)
  have res: "\<not> usr_Disabled v" "u = v" "ses_ID sess = se_id row" "ses_UserID sess = se_user_id row"
    "ses_TwoFAPassed sess \<longleftrightarrow> se_twofa_passed row = 1"
    using assms row alive v by (auto simp: ResolveSession_def Let_def scanSession_def split: if_splits)
  obtain r where r: "r \<in> set (users db)" "us_id r = se_user_id row" "v = scanUser r"
    using UserByID_Ok [OF v] by blast
  show thesis
    using find_Some_in [OF row] alive r res
    by (intro that [of row r]) (auto simp: session_expired_def scanSession_def scanUser_def)
qed

lemma ResolveAPIToken_Ok:
  assumes "ResolveAPIToken lib presented now db = (Ok (t, u, role), db')"
  obtains row r where "row \<in> set (api_tokens db)" "tk_token_hash row = HashToken lib presented"
    "has_prefix presented tokenPrefix" "t = scanAPIToken row" "tk_revoked row \<noteq> 1"
    "tk_expires_at row > 0 \<Longrightarrow> now \<le> of_unix (tk_expires_at row)"
    "r \<in> set (users db)" "us_id r = tk_user_id row" "us_disabled r \<noteq> 1" "u = scanUser r"
    "role = (if roleAtMost (tk_role row) (us_role r) then tk_role row else us_role r)"
proof -
  obtain row where p: "has_prefix presented tokenPrefix"
    and row: "find (\<lambda>s. tk_token_hash s = HashToken lib presented) (api_tokens db) = Some row"
    using assms by (auto simp: ResolveAPIToken_def split: if_splits option.splits)
  have alive: "\<not> (tok_Revoked (scanAPIToken row) \<or>
      (case tok_ExpiresAt (scanAPIToken row) of None \<Rightarrow> False | Some e \<Rightarrow> now > e))"
  proof
    assume "tok_Revoked (scanAPIToken row) \<or>
      (case tok_ExpiresAt (scanAPIToken row) of None \<Rightarrow> False | Some e \<Rightarrow> now > e)"
    with assms p row show False unfolding ResolveAPIToken_def Let_def by simp
  qed
  obtain v where v: "UserByID (tk_user_id row) db = Ok v"
    using assms p row alive
    by (auto simp: ResolveAPIToken_def Let_def scanAPIToken_def split: if_splits sum.splits)
  obtain r where r: "r \<in> set (users db)" "us_id r = tk_user_id row" "v = scanUser r"
    using UserByID_Ok [OF v] by blast
  have "\<not> usr_Disabled v" "u = v" "t = scanAPIToken row"
    "role = (if roleAtMost (tk_role row) (usr_Role v) then tk_role row else usr_Role v)"
    using assms p row alive v
    by (auto simp: ResolveAPIToken_def Let_def scanAPIToken_def split: if_splits)
  with find_Some_in [OF row] p alive r show thesis
    by (intro that [of row r]) (auto simp: scanAPIToken_def scanUser_def)
qed

end
