(* ===== verification/Auth_Login.thy ===== *)
theory Auth_Login
  imports Auth_Sessions
begin

text \<open>
  Login, lockout and the second factor (auth/service.go from \<open>Login\<close> on). The TOTP library
  (github.com/pquerna/otp) is a parameter. A login reads the account row first and decides and
  writes from that copy, so its two halves are separate definitions: \<open>login_row\<close> reads and
  \<open>login_with\<close> acts on what was read.
\<close>

subsection \<open>Login\<close>

definition maxFailedLogins :: int where
  "maxFailedLogins = 5"

definition lockoutWindow :: go_duration where
  "lockoutWindow = 15 * minute"

record LoginResult =
  lr_User :: User
  lr_Token :: string
  lr_SessionID :: string
  lr_NeedsTOTP :: bool
  lr_NeedsEnroll :: bool
  lr_ExpiresAt :: go_time

definition login_row :: "crypto_lib \<Rightarrow> string \<Rightarrow> auth_db \<Rightarrow> user_row option" where
  "login_row lib username db =
     find (\<lambda>u. us_username u = normalize_username lib username) (users db)"

text \<open>The count after one more failure and the end of the lock, 0 for none.\<close>

definition failed_login :: "user_row \<Rightarrow> go_time \<Rightarrow> int \<times> unix_seconds" where
  "failed_login row now =
     (if us_failed_count row + 1 \<ge> maxFailedLogins then (0, unix (now + lockoutWindow))
      else (us_failed_count row + 1, 0))"

definition set_lock :: "int \<Rightarrow> int \<Rightarrow> unix_seconds \<Rightarrow> auth_db \<Rightarrow> auth_db" where
  "set_lock userID failed locked db =
     update_user userID (\<lambda>u. u\<lparr>us_failed_count := failed, us_locked_until := locked\<rparr>) db"

definition login_with ::
    "crypto_lib \<Rightarrow> Service \<Rightarrow> string \<Rightarrow> string \<Rightarrow> user_row \<Rightarrow> string \<Rightarrow> string \<Rightarrow> string \<Rightarrow> go_time \<Rightarrow> auth_db \<Rightarrow>
     LoginResult auth_result" where
  "login_with lib sv tokenBytes idBytes row password ip userAgent now db =
     (let u = scanUser row
      in if us_locked_until row > unix now then (Err ErrAccountLocked, db)
         else if usr_Disabled u then (Err ErrAccountDisabled, db)
         else if \<not> VerifyPassword lib password (us_password_hash row)
         then (let (failed, locked) = failed_login row now
               in (Err (if locked > 0 then ErrAccountLocked else ErrInvalidCredentials),
                   set_lock (usr_ID u) failed locked db))
         else
           bindd (newSession lib sv tokenBytes idBytes (usr_ID u) ip userAgent False now
                    (set_lock (usr_ID u) 0 0 db)) (\<lambda>(sess, token) db.
             (Ok \<lparr> lr_User = u, lr_Token = token, lr_SessionID = ses_ID sess,
                   lr_NeedsTOTP = usr_TOTPEnabled u, lr_NeedsEnroll = (\<not> usr_TOTPEnabled u),
                   lr_ExpiresAt = ses_ExpiresAt sess \<rparr>, db)))"

definition Login ::
    "crypto_lib \<Rightarrow> Service \<Rightarrow> string \<Rightarrow> string \<Rightarrow> string \<Rightarrow> string \<Rightarrow> string \<Rightarrow> string \<Rightarrow> go_time \<Rightarrow> auth_db \<Rightarrow>
     LoginResult auth_result" where
  "Login lib sv tokenBytes idBytes username password ip userAgent now db =
     (case login_row lib username db of
        None \<Rightarrow> (Err ErrInvalidCredentials, db)
      | Some row \<Rightarrow> login_with lib sv tokenBytes idBytes row password ip userAgent now db)"

subsection \<open>Enrollment\<close>

record ValidateOpts =
  vo_Period :: nat
  vo_Skew :: nat
  vo_Digits :: nat

text \<open>
  \<open>totp_Generate issuer account seed\<close> is the secret and the URL of a new key, or an error;
  \<open>totp_Validate code secret now\<close> is the validation with the library's defaults.
\<close>

record totp_lib =
  totp_Generate :: "string \<Rightarrow> string \<Rightarrow> string \<Rightarrow> (string \<times> string) option"
  totp_Validate :: "string \<Rightarrow> string \<Rightarrow> go_time \<Rightarrow> bool"
  totp_ValidateCustom :: "string \<Rightarrow> string \<Rightarrow> go_time \<Rightarrow> ValidateOpts \<Rightarrow> bool option"

definition totpIssuer :: string where
  "totpIssuer = ''Just Dashboard''"

record EnrollmentSecret =
  en_Secret :: string
  en_URL :: string

definition BeginTOTPEnrollment ::
    "totp_lib \<Rightarrow> Service \<Rightarrow> string \<Rightarrow> string \<Rightarrow> int \<Rightarrow> auth_db \<Rightarrow> EnrollmentSecret auth_result" where
  "BeginTOTPEnrollment otp sv seed nonce userID db =
     bindd (UserByID userID db, db) (\<lambda>u db.
       case totp_Generate otp totpIssuer (usr_Username u) seed of
         None \<Rightarrow> (Err (ErrText ''generate''), db)
       | Some (secret, url) \<Rightarrow>
           (Ok \<lparr> en_Secret = secret, en_URL = url \<rparr>,
            update_user userID (\<lambda>r. r\<lparr>us_totp_secret := Seal (sv_sealer sv) nonce secret, us_totp_enabled := 0\<rparr>) db))"

definition totpSecret :: "Service \<Rightarrow> int \<Rightarrow> auth_db \<Rightarrow> authError + string" where
  "totpSecret sv userID db =
     (case find (\<lambda>u. us_id u = userID) (users db) of
        None \<Rightarrow> Err ErrNotFound
      | Some r \<Rightarrow>
          if us_totp_secret r = [] then Err (ErrText ''no enrollment in progress'')
          else Open (sv_sealer sv) (us_totp_secret r))"

text \<open>Ten codes in one transaction; the user of a code must exist.\<close>

definition regenerateRecoveryCodes ::
    "crypto_lib \<Rightarrow> (nat \<Rightarrow> string) \<Rightarrow> int \<Rightarrow> auth_db \<Rightarrow> string list auth_result" where
  "regenerateRecoveryCodes lib seeds userID db =
     (if \<not> user_exists db userID then (Err ErrSQL, db)
      else (let codes = map (\<lambda>i. RandomToken (seeds i)) [0..<10]
            in (Ok codes,
                db\<lparr>recovery_codes := sql_delete (\<lambda>c. rc_user_id c = userID) (recovery_codes db) @
                     map (\<lambda>c. \<lparr> rc_user_id = userID, rc_code_hash = HashToken lib c, rc_used_at = 0 \<rparr>) codes\<rparr>)))"

definition ConfirmTOTPEnrollment ::
    "crypto_lib \<Rightarrow> totp_lib \<Rightarrow> Service \<Rightarrow> (nat \<Rightarrow> string) \<Rightarrow> int \<Rightarrow> string \<Rightarrow> go_time \<Rightarrow> auth_db \<Rightarrow> string list auth_result" where
  "ConfirmTOTPEnrollment lib otp sv seeds userID code now db =
     bindd (totpSecret sv userID db, db) (\<lambda>secret db.
       if \<not> totp_Validate otp code secret now then (Err ErrInvalidTOTP, db)
       else regenerateRecoveryCodes lib seeds userID (update_user userID (\<lambda>r. r\<lparr>us_totp_enabled := 1\<rparr>) db))"

subsection \<open>The second factor\<close>

definition verifyOpts :: ValidateOpts where
  "verifyOpts = \<lparr> vo_Period = 30, vo_Skew = 1, vo_Digits = 6 \<rparr>"

definition strip_code :: "string \<Rightarrow> string" where
  "strip_code code = trim_space (filter (\<lambda>c. c \<noteq> CHR '' '') code)"

definition elevate :: "string \<Rightarrow> int \<Rightarrow> go_time \<Rightarrow> auth_db \<Rightarrow> unit auth_result" where
  "elevate sessionID userID now db =
     (Ok (), update_user userID (\<lambda>u. u\<lparr>us_last_login_at := unix now\<rparr>)
        (db\<lparr>sessions := sql_update (\<lambda>s. se_id s = sessionID) (\<lambda>s. s\<lparr>se_twofa_passed := 1\<rparr>) (sessions db)\<rparr>))"

definition usable_code :: "crypto_lib \<Rightarrow> int \<Rightarrow> string \<Rightarrow> recovery_row \<Rightarrow> bool" where
  "usable_code lib userID code c = (rc_user_id c = userID \<and> rc_code_hash c = HashToken lib code \<and> rc_used_at c = 0)"

definition consumeRecoveryCode :: "crypto_lib \<Rightarrow> int \<Rightarrow> string \<Rightarrow> go_time \<Rightarrow> auth_db \<Rightarrow> bool \<times> auth_db" where
  "consumeRecoveryCode lib userID code now db =
     (sql_count (usable_code lib userID code) (recovery_codes db) = 1,
      db\<lparr>recovery_codes := sql_update (usable_code lib userID code) (\<lambda>c. c\<lparr>rc_used_at := unix now\<rparr>) (recovery_codes db)\<rparr>)"

definition totp_accepts :: "totp_lib \<Rightarrow> Service \<Rightarrow> int \<Rightarrow> string \<Rightarrow> go_time \<Rightarrow> auth_db \<Rightarrow> bool" where
  "totp_accepts otp sv userID code now db =
     (case totpSecret sv userID db of
        Inl _ \<Rightarrow> False
      | Inr secret \<Rightarrow> totp_ValidateCustom otp code secret now verifyOpts = Some True)"

definition VerifySecondFactor ::
    "crypto_lib \<Rightarrow> totp_lib \<Rightarrow> Service \<Rightarrow> string \<Rightarrow> int \<Rightarrow> string \<Rightarrow> go_time \<Rightarrow> auth_db \<Rightarrow> unit auth_result" where
  "VerifySecondFactor lib otp sv sessionID userID rawCode now db =
     (let code = strip_code rawCode
      in if totp_accepts otp sv userID code now db then elevate sessionID userID now db
         else (let (used, db') = consumeRecoveryCode lib userID code now db
               in if used then elevate sessionID userID now db' else (Err ErrInvalidTOTP, db')))"

definition ResetTOTP :: "int \<Rightarrow> auth_db \<Rightarrow> unit auth_result" where
  "ResetTOTP userID db =
     RevokeAllSessions userID
       ((update_user userID (\<lambda>u. u\<lparr>us_totp_enabled := 0, us_totp_secret := []\<rparr>) db)
          \<lparr>recovery_codes := sql_delete (\<lambda>c. rc_user_id c = userID) (recovery_codes db)\<rparr>)"

subsection \<open>What they write\<close>

lemma elevate_Ok: "fst (elevate sessionID userID now db) = Ok ()"
  by (simp add: elevate_def)

text \<open>A code is used up by the attempt that matches it, whether or not that attempt elevates.\<close>

lemma consume_uses_up:
  assumes "unix now \<noteq> 0" and "c \<in> set (recovery_codes (snd (consumeRecoveryCode lib userID code now db)))"
  shows "\<not> usable_code lib userID code c"
proof -
  have rows: "recovery_codes (snd (consumeRecoveryCode lib userID code now db)) =
      sql_update (usable_code lib userID code) (\<lambda>r. r\<lparr>rc_used_at := unix now\<rparr>) (recovery_codes db)"
    by (simp add: consumeRecoveryCode_def)
  have "c \<in> (\<lambda>r. if usable_code lib userID code r then r\<lparr>rc_used_at := unix now\<rparr> else r) ` set (recovery_codes db)"
    using assms(2) unfolding rows set_sql_update .
  then obtain r where "c = (if usable_code lib userID code r then r\<lparr>rc_used_at := unix now\<rparr> else r)"
    by (rule imageE)
  with assms(1) show ?thesis by (cases "usable_code lib userID code r") (simp_all add: usable_code_def)
qed

lemma consume_needs_code:
  "fst (consumeRecoveryCode lib userID code now db) \<Longrightarrow> \<exists>c \<in> set (recovery_codes db). usable_code lib userID code c"
  using sql_count_0 [of "usable_code lib userID code" "recovery_codes db"]
  by (auto simp: consumeRecoveryCode_def)

lemma VerifySecondFactor_Ok:
  assumes "VerifySecondFactor lib otp sv sessionID userID code now db = (Ok (), db')"
  shows "totp_accepts otp sv userID (strip_code code) now db \<or>
    (\<exists>c \<in> set (recovery_codes db). usable_code lib userID (strip_code code) c)"
proof (cases "totp_accepts otp sv userID (strip_code code) now db")
  case False
  with assms have "fst (consumeRecoveryCode lib userID (strip_code code) now db)"
    by (auto simp: VerifySecondFactor_def Let_def split: if_splits prod.splits)
  then show ?thesis using consume_needs_code by blast
qed simp

end
