(* ===== verification/Auth_Machine.thy ===== *)
theory Auth_Machine
  imports Auth_Login
begin

text \<open>
  The authentication service as a whole: every operation that writes is an action, and a trace of
  actions is what happens to the tables when requests are served one after another. Four contracts
  describe an operation: it keeps the invariant and an enabled administrator; it elevates no
  session; it does not bring a blocked account back; it makes no recovery code usable. Each is
  discharged on the model of every operation that has it.
\<close>

subsection \<open>Contracts\<close>

definition elevated :: "auth_db \<Rightarrow> (string \<times> int) set" where
  "elevated db = {(se_id s, se_user_id s) |s. s \<in> set (sessions db) \<and> se_twofa_passed s = 1}"

text \<open>The account is disabled or gone, and its key will not be given out again.\<close>

definition blocked :: "int \<Rightarrow> auth_db \<Rightarrow> bool" where
  "blocked userID db \<longleftrightarrow> userID < next_user db \<and> (\<forall>u \<in> set (users db). us_id u = userID \<longrightarrow> us_disabled u = 1)"

definition usable_codes :: "int \<Rightarrow> auth_db \<Rightarrow> string set" where
  "usable_codes userID db =
     {rc_code_hash c |c. c \<in> set (recovery_codes db) \<and> rc_user_id c = userID \<and> rc_used_at c = 0}"

locale auth_operation =
  fixes op :: "auth_db \<Rightarrow> 'r auth_result"
  assumes keeps_inv: "auth_inv db \<Longrightarrow> auth_inv (snd (op db))"
    and keeps_admin: "auth_inv db \<Longrightarrow> has_admin db \<Longrightarrow> has_admin (snd (op db))"

locale quiet_operation = auth_operation +
  assumes no_elevation: "elevated (snd (op db)) \<subseteq> elevated db"

locale blocking_operation = auth_operation +
  fixes userID :: int
  assumes keeps_blocked: "blocked userID db \<Longrightarrow> blocked userID (snd (op db))"
begin

lemma stays_blocked: "auth_inv db \<Longrightarrow> blocked userID db \<Longrightarrow> auth_inv (snd (op db)) \<and> blocked userID (snd (op db))"
  by (simp add: keeps_inv keeps_blocked)

end

locale sparing_operation = auth_operation +
  fixes owner :: int
  assumes no_new_codes: "usable_codes owner (snd (op db)) \<subseteq> usable_codes owner db"
begin

lemma code_stays_used: "h \<notin> usable_codes owner db \<Longrightarrow> h \<notin> usable_codes owner (snd (op db))"
  using no_new_codes by blast

end

locale ordinary_operation = quiet_operation op + blocking_operation op userID + sparing_operation op owner
  for op :: "auth_db \<Rightarrow> 'r auth_result" and userID owner :: int

subsection \<open>Frames of the statements\<close>

named_theorems auth_frame \<open>what a statement leaves alone\<close>

lemma elevated_cong [auth_frame]: "sessions db' = sessions db \<Longrightarrow> elevated db' = elevated db"
  by (simp add: elevated_def)

lemma usable_codes_cong [auth_frame]: "recovery_codes db' = recovery_codes db \<Longrightarrow> usable_codes i db' = usable_codes i db"
  by (simp add: usable_codes_def)

lemma blocked_cong: "users db' = users db \<Longrightarrow> next_user db' = next_user db \<Longrightarrow> blocked i db' = blocked i db"
  by (simp add: blocked_def)

lemma elevated_delete: "elevated (db\<lparr>sessions := sql_delete p (sessions db)\<rparr>) \<subseteq> elevated db"
  by (auto simp: elevated_def)

lemma blocked_update:
  assumes "blocked i db" and "\<And>u. us_id (f u) = us_id u"
    and "\<And>u. us_id u = i \<Longrightarrow> i = j \<Longrightarrow> us_disabled u = 1 \<Longrightarrow> us_disabled (f u) = 1"
  shows "blocked i (update_user j f db)"
  using assms by (auto simp: blocked_def update_user_def set_sql_update)

lemma auth_inv_users_same:
  assumes "auth_inv db" and "users db' = users db" "next_user db' = next_user db"
    and "set (recovery_codes db') \<subseteq> set (recovery_codes db) \<union> {c. user_exists db (rc_user_id c)}"
    and "sessions db' = sessions db" "api_tokens db' = api_tokens db" "next_token db' = next_token db"
  shows "auth_inv db'"
  using assms by (auto simp: auth_inv_def users_inv_def refs_inv_def keys_inv_def user_exists_def)

lemma insert_session_inv:
  assumes "auth_inv db" and "insert_session r db = (res, db')"
  shows "auth_inv db' \<and> users db' = users db \<and> next_user db' = next_user db \<and> recovery_codes db' = recovery_codes db"
proof -
  have "auth_inv (db\<lparr>sessions := sessions db @ [r]\<rparr>)"
    if "user_exists db (se_user_id r)" "\<forall>s \<in> set (sessions db). se_id s \<noteq> se_id r \<and> se_token_hash s \<noteq> se_token_hash r"
    using assms(1) that by (auto simp: auth_inv_def users_inv_def refs_inv_def keys_inv_def user_exists_def)
  with assms show ?thesis by (auto simp: insert_session_def split: if_splits)
qed

lemma insert_session_elevated:
  assumes "se_twofa_passed r \<noteq> 1"
  shows "elevated (snd (insert_session r db)) \<subseteq> elevated db"
  using assms by (auto simp: insert_session_def elevated_def)

lemma newSession_frame:
  assumes "auth_inv db"
  shows "auth_inv (snd (newSession lib sv tb ib i ip ua passed now db)) \<and>
    users (snd (newSession lib sv tb ib i ip ua passed now db)) = users db \<and>
    next_user (snd (newSession lib sv tb ib i ip ua passed now db)) = next_user db"
  using insert_session_inv [OF assms] unfolding newSession_def Let_def bindd_def
  by (auto split: prod.splits sum.splits)

subsection \<open>Account operations\<close>

lemma insert_user_inv:
  assumes "auth_inv db" and "role_Valid role" and "\<forall>u \<in> set (users db). us_username u \<noteq> username"
  shows "auth_inv (insert_user username hash role mc now db)"
  using assms
  by (auto simp: auth_inv_def users_inv_def refs_inv_def keys_inv_def user_exists_def insert_user_def new_user_row_def)

lemma CreateUser_effect:
  obtains "snd (CreateUser lib salt name pw role mc now db) = db"
  | hash where "role_Valid role" "\<forall>u \<in> set (users db). us_username u \<noteq> normalize_username lib name"
      "snd (CreateUser lib salt name pw role mc now db) = insert_user (normalize_username lib name) hash role mc now db"
  by (cases "normalize_username lib name = []"; cases "role_Valid role"; cases "ValidatePasswordStrength pw";
      cases "\<exists>u \<in> set (users db). us_username u = normalize_username lib name")
     (auto simp: CreateUser_def Let_def)

interpretation create_user: ordinary_operation "CreateUser lib salt name pw role mc now" userID owner
  for lib salt name pw role mc now userID owner
proof unfold_locales
  fix db
  let ?db = "snd (CreateUser lib salt name pw role mc now db)"
  show "auth_inv ?db" if "auth_inv db"
    by (rule CreateUser_effect [of lib salt name pw role mc now db]) (use that insert_user_inv in auto)
  show "has_admin ?db" if "has_admin db"
    by (rule CreateUser_effect [of lib salt name pw role mc now db]) (use that in \<open>auto simp: has_admin_def insert_user_def\<close>)
  show "elevated ?db \<subseteq> elevated db"
    by (rule CreateUser_effect [of lib salt name pw role mc now db]) (auto simp: elevated_def insert_user_def)
  show "blocked userID ?db" if "blocked userID db"
    by (rule CreateUser_effect [of lib salt name pw role mc now db]) (use that in \<open>auto simp: blocked_def insert_user_def new_user_row_def\<close>)
  show "usable_codes owner ?db \<subseteq> usable_codes owner db"
    by (rule CreateUser_effect [of lib salt name pw role mc now db]) (auto simp: usable_codes_def insert_user_def)
qed

text \<open>An operation that only rewrites columns other than the key, name, role and flag of an account.\<close>

lemma ordinary_update:
  assumes "\<And>db. snd (op db) = db \<or> (\<exists>f. snd (op db) = update_user i f db \<and>
      (\<forall>u. us_id (f u) = us_id u \<and> us_username (f u) = us_username u \<and> us_role (f u) = us_role u \<and>
           us_disabled (f u) = us_disabled u))"
  shows "ordinary_operation op userID owner"
proof unfold_locales
  fix db
  show "auth_inv (snd (op db))" if "auth_inv db"
    using assms [of db] that by (auto intro!: update_user_inv)
  show "has_admin (snd (op db))" if "has_admin db"
    using assms [of db] that by (auto simp: enabled_admin_def intro!: has_admin_update)
  show "elevated (snd (op db)) \<subseteq> elevated db"
    using assms [of db] by (auto simp: elevated_def)
  show "blocked userID (snd (op db))" if "blocked userID db"
    using assms [of db] that by (auto intro!: blocked_update)
  show "usable_codes owner (snd (op db)) \<subseteq> usable_codes owner db"
    using assms [of db] by (auto simp: usable_codes_def)
qed

interpretation set_password: ordinary_operation "SetPassword lib salt i pw" userID owner
  for lib salt i pw userID owner
proof (rule ordinary_update [where i = i])
  fix db
  show "snd (SetPassword lib salt i pw db) = db \<or> (\<exists>f. snd (SetPassword lib salt i pw db) = update_user i f db \<and>
      (\<forall>u. us_id (f u) = us_id u \<and> us_username (f u) = us_username u \<and> us_role (f u) = us_role u \<and>
           us_disabled (f u) = us_disabled u))"
    by (cases "ValidatePasswordStrength pw")
       (auto simp: SetPassword_def
         intro!: exI [of _ "\<lambda>u. u\<lparr>us_password_hash := HashPassword lib salt pw, us_must_change_pw := 0\<rparr>"])
qed

lemma SetRole_effect:
  obtains "snd (SetRole i role db) = db"
  | "role_Valid role" "role = RoleAdmin \<or> guardLastAdmin i db = Ok ()" "snd (SetRole i role db) = write_role i role db"
  by (cases "role_Valid role"; cases "role = RoleAdmin"; cases "guardLastAdmin i db") (auto simp: SetRole_def)

interpretation set_role: ordinary_operation "SetRole i role" userID owner for i role userID owner
proof unfold_locales
  fix db
  show "auth_inv (snd (SetRole i role db))" if "auth_inv db"
    by (rule SetRole_effect [of i role db]) (use that in \<open>auto simp: write_role_def intro!: update_user_inv\<close>)
  show "has_admin (snd (SetRole i role db))" if "auth_inv db" "has_admin db"
  proof (rule SetRole_effect [of i role db])
    assume r: "role = RoleAdmin \<or> guardLastAdmin i db = Ok ()" "snd (SetRole i role db) = write_role i role db"
    show ?thesis
    proof (cases "role = RoleAdmin")
      case True
      then show ?thesis using r(2) that(2) by (auto simp: write_role_def enabled_admin_def intro!: has_admin_update)
    next
      case False
      with r(1) guardLastAdmin_other [of db i] that obtain u where "u \<in> set (users db)" "enabled_admin u" "us_id u \<noteq> i"
        by (auto simp: auth_inv_def)
      then show ?thesis unfolding r(2) write_role_def by (rule update_user_keeps_admin)
    qed
  qed (use that in simp)
  show "elevated (snd (SetRole i role db)) \<subseteq> elevated db"
    by (rule SetRole_effect [of i role db]) (auto simp: elevated_def write_role_def)
  show "blocked userID (snd (SetRole i role db))" if "blocked userID db"
    by (rule SetRole_effect [of i role db]) (use that in \<open>auto simp: write_role_def intro!: blocked_update\<close>)
  show "usable_codes owner (snd (SetRole i role db)) \<subseteq> usable_codes owner db"
    by (rule SetRole_effect [of i role db]) (auto simp: usable_codes_def write_role_def)
qed

lemma SetDisabled_effect:
  obtains "snd (SetDisabled i dis db) = db"
  | "\<not> dis" "snd (SetDisabled i dis db) = write_disabled i False db"
  | "dis" "guardLastAdmin i db = Ok ()"
    "snd (SetDisabled i dis db) = snd (RevokeAllSessions i (write_disabled i True db))"
  by (cases "guardLastAdmin i db"; cases dis) (auto simp: SetDisabled_def)

lemma write_disabled_inv: "auth_inv db \<Longrightarrow> auth_inv (write_disabled i d db)"
  unfolding write_disabled_def by (rule update_user_inv) auto

lemma RevokeAllSessions_inv: "auth_inv db \<Longrightarrow> auth_inv (snd (RevokeAllSessions i db))"
  by (simp add: RevokeAllSessions_def delete_sessions_inv)

lemma SetDisabled_keeps_inv: "auth_inv db \<Longrightarrow> auth_inv (snd (SetDisabled i dis db))"
  by (rule SetDisabled_effect [of i dis db]) (simp_all add: write_disabled_inv RevokeAllSessions_inv)

lemma SetDisabled_keeps_admin:
  assumes "auth_inv db" "has_admin db"
  shows "has_admin (snd (SetDisabled i dis db))"
proof (rule SetDisabled_effect [of i dis db])
  assume "snd (SetDisabled i dis db) = write_disabled i False db"
  then show ?thesis using assms by (auto simp: write_disabled_def enabled_admin_def intro!: has_admin_update)
next
  assume d: "guardLastAdmin i db = Ok ()" "snd (SetDisabled i dis db) = snd (RevokeAllSessions i (write_disabled i True db))"
  with guardLastAdmin_other [of db i] assms obtain u where "u \<in> set (users db)" "enabled_admin u" "us_id u \<noteq> i"
    by (auto simp: auth_inv_def)
  then have "has_admin (write_disabled i True db)"
    unfolding write_disabled_def by (rule update_user_keeps_admin)
  then show ?thesis unfolding d(2) by (simp add: RevokeAllSessions_def has_admin_def)
qed (use assms in simp)

interpretation set_disabled: quiet_operation "SetDisabled i dis" for i dis
proof unfold_locales
  fix db
  show "elevated (snd (SetDisabled i dis db)) \<subseteq> elevated db"
    by (rule SetDisabled_effect [of i dis db]) (auto simp: elevated_def write_disabled_def RevokeAllSessions_def)
qed (rule SetDisabled_keeps_inv SetDisabled_keeps_admin; assumption)+

interpretation set_disabled: sparing_operation "SetDisabled i dis" owner for i dis owner
proof unfold_locales
  fix db
  show "usable_codes owner (snd (SetDisabled i dis db)) \<subseteq> usable_codes owner db"
    by (rule SetDisabled_effect [of i dis db]) (auto simp: usable_codes_def write_disabled_def RevokeAllSessions_def)
qed

interpretation delete_user_op: ordinary_operation "DeleteUser i" userID owner for i userID owner
proof unfold_locales
  fix db
  have eff: "snd (DeleteUser i db) = db \<or> guardLastAdmin i db = Ok () \<and> snd (DeleteUser i db) = delete_user i db"
    by (cases "guardLastAdmin i db") (auto simp: DeleteUser_def)
  show "auth_inv (snd (DeleteUser i db))" if "auth_inv db"
    using eff that delete_user_inv by auto
  show "has_admin (snd (DeleteUser i db))" if "auth_inv db" "has_admin db"
  proof (cases "snd (DeleteUser i db) = db")
    case False
    with eff guardLastAdmin_other [of db i] that obtain u where "u \<in> set (users db)" "enabled_admin u" "us_id u \<noteq> i"
      by (auto simp: auth_inv_def)
    with eff False show ?thesis by (auto simp: has_admin_def delete_user_def)
  qed (use that in simp)
  show "elevated (snd (DeleteUser i db)) \<subseteq> elevated db"
    using eff by (auto simp: elevated_def delete_user_def)
  show "blocked userID (snd (DeleteUser i db))" if "blocked userID db"
    using eff that by (auto simp: blocked_def delete_user_def)
  show "usable_codes owner (snd (DeleteUser i db)) \<subseteq> usable_codes owner db"
    using eff by (auto simp: usable_codes_def delete_user_def)
qed

subsection \<open>Session and token operations\<close>

lemma ordinary_delete_sessions:
  assumes "\<And>db. \<exists>p. snd (op db) = db\<lparr>sessions := sql_delete p (sessions db)\<rparr>"
  shows "ordinary_operation op userID owner"
proof unfold_locales
  fix db
  obtain p where p: "snd (op db) = db\<lparr>sessions := sql_delete p (sessions db)\<rparr>" using assms by blast
  show "auth_inv (snd (op db))" if "auth_inv db" unfolding p using that by (rule delete_sessions_inv)
  show "has_admin (snd (op db))" if "has_admin db" using that by (simp add: p has_admin_def)
  show "elevated (snd (op db)) \<subseteq> elevated db" unfolding p by (rule elevated_delete)
  show "blocked userID (snd (op db))" if "blocked userID db" using that by (simp add: p blocked_def)
  show "usable_codes owner (snd (op db)) \<subseteq> usable_codes owner db" by (simp add: p usable_codes_def)
qed

interpretation revoke_session: ordinary_operation "RevokeSession sid" userID owner for sid userID owner
  by (rule ordinary_delete_sessions) (auto simp: RevokeSession_def)

interpretation revoke_all: ordinary_operation "RevokeAllSessions i" userID owner for i userID owner
  by (rule ordinary_delete_sessions) (auto simp: RevokeAllSessions_def)

interpretation purge_expired: ordinary_operation "PurgeExpired now" userID owner for now userID owner
  by (rule ordinary_delete_sessions) (auto simp: PurgeExpired_def)

lemma elevated_map:
  "elevated db = {(i, u). (i, u, 1) \<in> set (map (\<lambda>s. (se_id s, se_user_id s, se_twofa_passed s)) (sessions db))}"
  by (auto simp: elevated_def image_iff)

lemma touch_session_keeps:
  "auth_inv db \<Longrightarrow> auth_inv (touch_session sid now db)" "elevated (touch_session sid now db) = elevated db"
   apply (auto simp: auth_inv_def users_inv_def refs_inv_def keys_inv_def user_exists_def touch_session_def
      set_sql_update map_sql_update_same) []
  apply (simp only: elevated_map touch_session_def auth_db.simps)
  apply (simp add: map_sql_update_same del: set_map)
  done

lemma ResolveSession_effect:
  "snd (ResolveSession lib sv token now db) = db \<or>
   (\<exists>p. snd (ResolveSession lib sv token now db) = db\<lparr>sessions := sql_delete p (sessions db)\<rparr>) \<or>
   (\<exists>sid. snd (ResolveSession lib sv token now db) = touch_session sid now db)"
  by (auto simp: ResolveSession_def RevokeSession_def RevokeAllSessions_def Let_def split: option.splits sum.splits)

interpretation resolve_session: ordinary_operation "ResolveSession lib sv token now" userID owner
  for lib sv token now userID owner
proof unfold_locales
  fix db
  let ?db = "snd (ResolveSession lib sv token now db)"
  note eff = ResolveSession_effect [of lib sv token now db]
  show "auth_inv ?db" if "auth_inv db" using eff that delete_sessions_inv touch_session_keeps by metis
  show "has_admin ?db" if "has_admin db" using eff that by (auto simp: touch_session_def has_admin_def)
  show "elevated ?db \<subseteq> elevated db" using eff elevated_delete touch_session_keeps by (metis order_refl)
  show "blocked userID ?db" if "blocked userID db" using eff that by (auto simp: touch_session_def blocked_def)
  show "usable_codes owner ?db \<subseteq> usable_codes owner db" using eff by (auto simp: touch_session_def usable_codes_def)
qed

text \<open>Operations on the token table leave the other tables alone.\<close>

lemma ordinary_tokens:
  assumes "\<And>db. \<exists>ts n. snd (op db) = db\<lparr>api_tokens := ts, next_token := n\<rparr>"
    and "\<And>db. auth_inv db \<Longrightarrow> auth_inv (snd (op db))"
  shows "ordinary_operation op userID owner"
proof unfold_locales
  fix db
  obtain ts n where p: "snd (op db) = db\<lparr>api_tokens := ts, next_token := n\<rparr>" using assms(1) by blast
  show "has_admin (snd (op db))" if "has_admin db" using that by (simp add: p has_admin_def)
  show "elevated (snd (op db)) \<subseteq> elevated db" by (simp add: p elevated_def)
  show "blocked userID (snd (op db))" if "blocked userID db" using that by (simp add: p blocked_def)
  show "usable_codes owner (snd (op db)) \<subseteq> usable_codes owner db" by (simp add: p usable_codes_def)
qed (rule assms(2))

lemma tokens_same: "\<exists>ts n. (db :: auth_db) = db\<lparr>api_tokens := ts, next_token := n\<rparr>"
  by (intro exI [of _ "api_tokens db"] exI [of _ "next_token db"]) simp

lemma update_token_inv:
  assumes "auth_inv db" and "\<And>t. tk_id (f t) = tk_id t" "\<And>t. tk_user_id (f t) = tk_user_id t"
    "\<And>t. tk_token_hash (f t) = tk_token_hash t" "\<And>t. tk_role (f t) = tk_role t"
  shows "auth_inv (update_token i f db)"
  using assms(1)
  by (auto simp: auth_inv_def users_inv_def refs_inv_def keys_inv_def user_exists_def update_token_def
      set_sql_update map_sql_update_same assms(2-5))

lemma update_token_shape: "\<exists>ts n. update_token i f db = db\<lparr>api_tokens := ts, next_token := n\<rparr>"
  by (intro exI [of _ "sql_update (\<lambda>t. tk_id t = i) f (api_tokens db)"] exI [of _ "next_token db"])
     (simp add: update_token_def)

interpretation revoke_token: ordinary_operation "RevokeAPIToken i" userID owner for i userID owner
proof (rule ordinary_tokens)
  fix db
  show "\<exists>ts n. snd (RevokeAPIToken i db) = db\<lparr>api_tokens := ts, next_token := n\<rparr>"
    using update_token_shape by (simp add: RevokeAPIToken_def)
  show "auth_inv (snd (RevokeAPIToken i db))" if "auth_inv db"
    using that by (simp add: RevokeAPIToken_def) (rule update_token_inv, simp_all)
qed

interpretation delete_token: ordinary_operation "DeleteAPIToken i" userID owner for i userID owner
proof (rule ordinary_tokens)
  fix db
  show "\<exists>ts n. snd (DeleteAPIToken i db) = db\<lparr>api_tokens := ts, next_token := n\<rparr>"
    by (intro exI [of _ "sql_delete (\<lambda>t. tk_id t = i) (api_tokens db)"] exI [of _ "next_token db"])
       (simp add: DeleteAPIToken_def)
  show "auth_inv (snd (DeleteAPIToken i db))" if "auth_inv db"
    using that by (auto simp: DeleteAPIToken_def auth_inv_def users_inv_def refs_inv_def keys_inv_def user_exists_def
        distinct_sql_delete)
qed

lemma ResolveAPIToken_effect:
  "snd (ResolveAPIToken lib presented now db) = db \<or>
   (\<exists>i. snd (ResolveAPIToken lib presented now db) = update_token i (\<lambda>r. r\<lparr>tk_last_used_at := unix now\<rparr>) db)"
  by (auto simp: ResolveAPIToken_def Let_def split: option.splits sum.splits)

interpretation resolve_token: ordinary_operation "ResolveAPIToken lib presented now" userID owner
  for lib presented now userID owner
proof (rule ordinary_tokens)
  fix db
  show "\<exists>ts n. snd (ResolveAPIToken lib presented now db) = db\<lparr>api_tokens := ts, next_token := n\<rparr>"
    using ResolveAPIToken_effect [of lib presented now db] tokens_same update_token_shape by metis
  have "auth_inv (update_token i (\<lambda>r. r\<lparr>tk_last_used_at := unix now\<rparr>) db)" if "auth_inv db" for i
    using that by (rule update_token_inv) simp_all
  then show "auth_inv (snd (ResolveAPIToken lib presented now db))" if "auth_inv db"
    using ResolveAPIToken_effect [of lib presented now db] that by metis
qed

lemma insert_token_shape: "\<exists>ts n. snd (insert_token r db) = db\<lparr>api_tokens := ts, next_token := n\<rparr>"
  using tokens_same [of db] by (auto simp: insert_token_def)

lemma insert_token_inv: "auth_inv db \<Longrightarrow> role_Valid (tk_role r) \<Longrightarrow> auth_inv (snd (insert_token r db))"
  by (auto simp: insert_token_def auth_inv_def users_inv_def refs_inv_def keys_inv_def user_exists_def)

lemma CreateAPIToken_effect:
  "snd (CreateAPIToken lib sb u name role ttl now db) = db \<or>
   role_Valid role \<and> (\<exists>r. tk_role r = role \<and> snd (CreateAPIToken lib sb u name role ttl now db) = snd (insert_token r db))"
proof (cases "trim_space name = [] \<or> \<not> role_Valid role \<or> \<not> roleAtMost role (usr_Role u)")
  case True
  then show ?thesis
    by (cases "trim_space name = []"; cases "role_Valid role") (simp_all add: CreateAPIToken_def Let_def)
next
  case False
  have drop: "snd (bindd (insert_token r db) (\<lambda>i db. bindd (apiTokenByID i db, db) (\<lambda>tok db. (Ok (tok, full), db))))
      = snd (insert_token r db)" for r full
    by (auto simp: bindd_def split: prod.splits sum.splits)
  have "\<exists>r. tk_role r = role \<and> snd (CreateAPIToken lib sb u name role ttl now db) = snd (insert_token r db)"
    unfolding CreateAPIToken_def Let_def using False
    by (simp only: drop if_False de_Morgan_disj simp_thms)
       (rule exI, rule conjI [OF _ refl], simp)
  with False show ?thesis by blast
qed

interpretation create_token: ordinary_operation "CreateAPIToken lib sb u name role ttl now" userID owner
  for lib sb u name role ttl now userID owner
proof (rule ordinary_tokens)
  fix db
  show "\<exists>ts n. snd (CreateAPIToken lib sb u name role ttl now db) = db\<lparr>api_tokens := ts, next_token := n\<rparr>"
    using CreateAPIToken_effect [of lib sb u name role ttl now db] tokens_same insert_token_shape by metis
  show "auth_inv (snd (CreateAPIToken lib sb u name role ttl now db))" if "auth_inv db"
    using CreateAPIToken_effect [of lib sb u name role ttl now db] that insert_token_inv by metis
qed

subsection \<open>Login and second factor\<close>

lemma newSession_effect:
  "\<exists>r. se_twofa_passed r = (if passed then 1 else 0) \<and>
     snd (newSession lib sv tb ib i ip ua passed now db) = snd (insert_session r db)"
  unfolding newSession_def Let_def bindd_def
  by (intro exI [of _ "\<lparr> se_id = RandomToken ib, se_user_id = i, se_token_hash = HashToken lib (RandomToken tb),
        se_twofa_passed = (if passed then 1 else 0), se_ip = ip, se_user_agent = truncate_bytes ua 256,
        se_created_at = unix now, se_last_seen_at = unix now, se_expires_at = unix (now + sv_sessionTTL sv) \<rparr>"])
     (auto split: prod.splits sum.splits)

lemma login_with_effect:
  "snd (login_with lib sv tb ib row pw ip ua now db) = db \<or>
   (\<exists>a b. snd (login_with lib sv tb ib row pw ip ua now db) = set_lock (us_id row) a b db) \<or>
   (\<exists>r. se_twofa_passed r = 0 \<and>
      snd (login_with lib sv tb ib row pw ip ua now db) = snd (insert_session r (set_lock (us_id row) 0 0 db)))"
proof -
  have drop: "snd (bindd x (\<lambda>(sess, token) db. (Ok (f sess token), db))) = snd x" for x :: "(Session \<times> string) auth_result" and f :: "Session \<Rightarrow> string \<Rightarrow> LoginResult"
    by (auto simp: bindd_def split: prod.splits sum.splits)
  show ?thesis
    using newSession_effect [of False lib sv tb ib "us_id row" ip ua now "set_lock (us_id row) 0 0 db"]
    by (auto simp: login_with_def Let_def drop scanUser_def split: prod.splits)
qed

lemma set_lock_inv: "auth_inv db \<Longrightarrow> auth_inv (set_lock i a b db)"
  unfolding set_lock_def by (rule update_user_inv) auto

interpretation login: ordinary_operation "Login lib sv tb ib username pw ip ua now" userID owner
  for lib sv tb ib username pw ip ua now userID owner
proof unfold_locales
  fix db
  let ?db = "snd (Login lib sv tb ib username pw ip ua now db)"
  have eff: "?db = db \<or> (\<exists>i a b. ?db = set_lock i a b db) \<or>
      (\<exists>i r. se_twofa_passed r = 0 \<and> ?db = snd (insert_session r (set_lock i 0 0 db)))"
    using login_with_effect unfolding Login_def by (cases "login_row lib username db") (auto, metis)
  have lock: "auth_inv db \<Longrightarrow> auth_inv (snd (insert_session r (set_lock i a b db)))" for r i a b
    using insert_session_inv [OF set_lock_inv [of db i a b], of r] by (cases "insert_session r (set_lock i a b db)") auto
  show "auth_inv ?db" if "auth_inv db" using eff that lock set_lock_inv by metis
  have adm: "has_admin (set_lock i a b db)" if "has_admin db" for i a b
    unfolding set_lock_def using that by (rule has_admin_update) (simp add: enabled_admin_def)
  have ins: "users (snd (insert_session r db')) = users db' \<and> next_user (snd (insert_session r db')) = next_user db' \<and>
      recovery_codes (snd (insert_session r db')) = recovery_codes db'" for r db'
    by (simp add: insert_session_def)
  have insa: "has_admin (snd (insert_session r db'))" if "has_admin db'" for r db'
    using that ins [of r db'] by (simp add: has_admin_def)
  show "has_admin ?db" if "has_admin db" using eff adm [OF that] that insa by metis
  have el: "elevated (set_lock i a b db) = elevated db" for i a b by (simp add: set_lock_def elevated_def)
  have ei: "elevated (snd (insert_session r (set_lock i a b db))) \<subseteq> elevated db" if "se_twofa_passed r = 0" for r i a b
    using insert_session_elevated [of r "set_lock i a b db"] that el by simp
  show "elevated ?db \<subseteq> elevated db" using eff ei el by (metis order_refl)
  have bl: "blocked userID (set_lock i a b db)" if "blocked userID db" for i a b
    unfolding set_lock_def using that by (rule blocked_update) simp_all
  have insb: "blocked userID (snd (insert_session r db'))" if "blocked userID db'" for r db'
    using that ins [of r db'] by (simp add: blocked_def)
  show "blocked userID ?db" if "blocked userID db" using eff bl [OF that] that insb by metis
  have uc: "usable_codes owner (set_lock i a b db) = usable_codes owner db" for i a b
    by (simp add: set_lock_def usable_codes_def)
  show "usable_codes owner ?db \<subseteq> usable_codes owner db"
  proof -
    have "usable_codes owner (snd (insert_session r (set_lock i a b db))) = usable_codes owner db" for r i a b
      using uc ins [of r "set_lock i a b db"] usable_codes_cong by metis
    with eff uc show ?thesis by (metis order_refl)
  qed
qed

interpretation begin_enrollment: ordinary_operation "BeginTOTPEnrollment otp sv seed nonce i" userID owner
  for otp sv seed nonce i userID owner
proof (rule ordinary_update [where i = i])
  fix db
  show "snd (BeginTOTPEnrollment otp sv seed nonce i db) = db \<or>
     (\<exists>f. snd (BeginTOTPEnrollment otp sv seed nonce i db) = update_user i f db \<and>
      (\<forall>u. us_id (f u) = us_id u \<and> us_username (f u) = us_username u \<and> us_role (f u) = us_role u \<and>
           us_disabled (f u) = us_disabled u))"
  proof (cases "UserByID i db")
    case (Inr u)
    then show ?thesis
    proof (cases "totp_Generate otp totpIssuer (usr_Username u) seed")
      case (Some k)
      then show ?thesis using Inr
        by (cases k) (auto simp: BeginTOTPEnrollment_def
          intro!: exI [of _ "\<lambda>r. r\<lparr>us_totp_secret := Seal (sv_sealer sv) nonce (fst k), us_totp_enabled := 0\<rparr>"])
    qed (simp add: BeginTOTPEnrollment_def)
  qed (simp add: BeginTOTPEnrollment_def)
qed

lemma regenerate_effect:
  "snd (regenerateRecoveryCodes lib seeds i db) = db \<or>
   (user_exists db i \<and> (\<exists>cs. (\<forall>c \<in> set cs. rc_user_id c = i) \<and>
      snd (regenerateRecoveryCodes lib seeds i db) =
        db\<lparr>recovery_codes := sql_delete (\<lambda>c. rc_user_id c = i) (recovery_codes db) @ cs\<rparr>))"
proof (cases "user_exists db i")
  case True
  let ?cs = "map (\<lambda>c. \<lparr>rc_user_id = i, rc_code_hash = HashToken lib c, rc_used_at = 0\<rparr>) (map (\<lambda>k. RandomToken (seeds k)) [0..<10])"
  have "snd (regenerateRecoveryCodes lib seeds i db) =
      db\<lparr>recovery_codes := sql_delete (\<lambda>c. rc_user_id c = i) (recovery_codes db) @ ?cs\<rparr>"
    unfolding regenerateRecoveryCodes_def Let_def using True by (simp only: if_False not_True_eq_False snd_conv)
  moreover have "\<forall>c \<in> set ?cs. rc_user_id c = i" unfolding set_map by (intro ballI) (erule imageE, simp)
  ultimately show ?thesis using True by blast
qed (simp add: regenerateRecoveryCodes_def)

lemma regenerate_frame:
  assumes "auth_inv db"
  shows "auth_inv (snd (regenerateRecoveryCodes lib seeds i db))"
    and "users (snd (regenerateRecoveryCodes lib seeds i db)) = users db"
    and "next_user (snd (regenerateRecoveryCodes lib seeds i db)) = next_user db"
    and "sessions (snd (regenerateRecoveryCodes lib seeds i db)) = sessions db"
    and "owner \<noteq> i \<Longrightarrow> usable_codes owner (snd (regenerateRecoveryCodes lib seeds i db)) \<subseteq> usable_codes owner db"
proof -
  note eff = regenerate_effect [of lib seeds i db]
  have "auth_inv (db\<lparr>recovery_codes := sql_delete (\<lambda>c. rc_user_id c = i) (recovery_codes db) @ cs\<rparr>)"
    if "user_exists db i" "\<forall>c \<in> set cs. rc_user_id c = i" for cs
    by (rule auth_inv_users_same [OF assms]) (use that in auto)
  with eff assms show "auth_inv (snd (regenerateRecoveryCodes lib seeds i db))" by metis
  show "users (snd (regenerateRecoveryCodes lib seeds i db)) = users db"
    "next_user (snd (regenerateRecoveryCodes lib seeds i db)) = next_user db"
    "sessions (snd (regenerateRecoveryCodes lib seeds i db)) = sessions db"
    using eff by auto
  show "owner \<noteq> i \<Longrightarrow> usable_codes owner (snd (regenerateRecoveryCodes lib seeds i db)) \<subseteq> usable_codes owner db"
    using eff by (auto simp: usable_codes_def)
qed

interpretation regenerate: quiet_operation "regenerateRecoveryCodes lib seeds i" for lib seeds i
proof unfold_locales
  fix db
  note eff = regenerate_effect [of lib seeds i db]
  show "auth_inv (snd (regenerateRecoveryCodes lib seeds i db))" if "auth_inv db"
    by (rule regenerate_frame [OF that])
  show "has_admin (snd (regenerateRecoveryCodes lib seeds i db))" if "has_admin db"
    using eff that by (auto simp: has_admin_def)
  show "elevated (snd (regenerateRecoveryCodes lib seeds i db)) \<subseteq> elevated db"
    using eff by (auto simp: elevated_def)
qed

interpretation regenerate: blocking_operation "regenerateRecoveryCodes lib seeds i" userID for lib seeds i userID
proof unfold_locales
  fix db
  show "blocked userID (snd (regenerateRecoveryCodes lib seeds i db))" if "blocked userID db"
    using regenerate_effect [of lib seeds i db] that by (auto simp: blocked_def)
qed

lemma confirm_effect:
  "snd (ConfirmTOTPEnrollment lib otp sv seeds i code now db) = db \<or>
   snd (ConfirmTOTPEnrollment lib otp sv seeds i code now db) =
     snd (regenerateRecoveryCodes lib seeds i (update_user i (\<lambda>r. r\<lparr>us_totp_enabled := 1\<rparr>) db))"
  by (auto simp: ConfirmTOTPEnrollment_def bindd_def split: sum.splits)

lemma enable_totp_frame:
  "auth_inv db \<Longrightarrow> auth_inv (update_user i (\<lambda>r. r\<lparr>us_totp_enabled := 1\<rparr>) db)"
  "has_admin db \<Longrightarrow> has_admin (update_user i (\<lambda>r. r\<lparr>us_totp_enabled := 1\<rparr>) db)"
  "blocked userID db \<Longrightarrow> blocked userID (update_user i (\<lambda>r. r\<lparr>us_totp_enabled := 1\<rparr>) db)"
    apply (rule update_user_inv; simp)
   apply (rule has_admin_update; simp add: enabled_admin_def)
  apply (rule blocked_update; simp)
  done

interpretation confirm: quiet_operation "ConfirmTOTPEnrollment lib otp sv seeds i code now" for lib otp sv seeds i code now
proof unfold_locales
  fix db
  note eff = confirm_effect [of lib otp sv seeds i code now db]
  let ?db = "update_user i (\<lambda>r. r\<lparr>us_totp_enabled := 1\<rparr>) db"
  show "auth_inv (snd (ConfirmTOTPEnrollment lib otp sv seeds i code now db))" if "auth_inv db"
    using eff regenerate.keeps_inv [of ?db lib seeds i] enable_totp_frame(1) that by metis
  show "has_admin (snd (ConfirmTOTPEnrollment lib otp sv seeds i code now db))" if "auth_inv db" "has_admin db"
    using eff regenerate.keeps_admin [of ?db lib seeds i] enable_totp_frame(1,2) that by metis
  have "elevated ?db = elevated db" by (simp add: elevated_def)
  then show "elevated (snd (ConfirmTOTPEnrollment lib otp sv seeds i code now db)) \<subseteq> elevated db"
    using eff regenerate.no_elevation [of lib seeds i ?db] by (metis order_refl)
qed

interpretation confirm: blocking_operation "ConfirmTOTPEnrollment lib otp sv seeds i code now" userID
  for lib otp sv seeds i code now userID
proof unfold_locales
  fix db
  show "blocked userID (snd (ConfirmTOTPEnrollment lib otp sv seeds i code now db))" if "blocked userID db"
    using confirm_effect [of lib otp sv seeds i code now db]
      regenerate.keeps_blocked [of userID "update_user i (\<lambda>r. r\<lparr>us_totp_enabled := 1\<rparr>) db" lib seeds i]
      enable_totp_frame(3) that by metis
qed

lemma confirm_codes:
  assumes "auth_inv db" "owner \<noteq> i"
  shows "usable_codes owner (snd (ConfirmTOTPEnrollment lib otp sv seeds i code now db)) \<subseteq> usable_codes owner db"
proof -
  have "usable_codes owner (update_user i (\<lambda>r. r\<lparr>us_totp_enabled := 1\<rparr>) db) = usable_codes owner db"
    by (simp add: usable_codes_def)
  with confirm_effect [of lib otp sv seeds i code now db]
    regenerate_frame(5) [OF enable_totp_frame(1) [OF assms(1), of i] assms(2), of lib seeds]
  show ?thesis by (metis order_refl)
qed

interpretation reset_totp: ordinary_operation "ResetTOTP i" userID owner for i userID owner
proof unfold_locales
  fix db
  let ?u = "update_user i (\<lambda>u. u\<lparr>us_totp_enabled := 0, us_totp_secret := []\<rparr>) db"
  let ?r = "?u\<lparr>recovery_codes := sql_delete (\<lambda>c. rc_user_id c = i) (recovery_codes db)\<rparr>"
  have eq: "snd (ResetTOTP i db) = snd (RevokeAllSessions i ?r)" by (simp add: ResetTOTP_def)
  have u: "auth_inv ?u" if "auth_inv db" by (rule update_user_inv) (use that in simp_all)
  have "auth_inv ?r" if "auth_inv db" by (rule auth_inv_users_same [OF u [OF that]]) auto
  then show "auth_inv (snd (ResetTOTP i db))" if "auth_inv db"
    using that RevokeAllSessions_inv eq by metis
  have "has_admin ?u" if "has_admin db" by (rule has_admin_update) (use that in \<open>simp_all add: enabled_admin_def\<close>)
  then show "has_admin (snd (ResetTOTP i db))" if "has_admin db"
    using that by (simp add: eq RevokeAllSessions_def has_admin_def)
  show "elevated (snd (ResetTOTP i db)) \<subseteq> elevated db" by (auto simp: eq RevokeAllSessions_def elevated_def)
  have "blocked userID ?u" if "blocked userID db" by (rule blocked_update) (use that in simp_all)
  then show "blocked userID (snd (ResetTOTP i db))" if "blocked userID db"
    using that by (simp add: eq RevokeAllSessions_def blocked_def)
  show "usable_codes owner (snd (ResetTOTP i db)) \<subseteq> usable_codes owner db"
    by (auto simp: eq RevokeAllSessions_def usable_codes_def)
qed

lemma consume_frame:
  "auth_inv db \<Longrightarrow> auth_inv (snd (consumeRecoveryCode lib i code now db))"
  "users (snd (consumeRecoveryCode lib i code now db)) = users db"
  "next_user (snd (consumeRecoveryCode lib i code now db)) = next_user db"
  "sessions (snd (consumeRecoveryCode lib i code now db)) = sessions db"
  by (auto simp: consumeRecoveryCode_def auth_inv_def users_inv_def refs_inv_def keys_inv_def user_exists_def set_sql_update)

lemma consume_codes:
  assumes "unix now \<noteq> 0"
  shows "usable_codes owner (snd (consumeRecoveryCode lib i code now db)) \<subseteq> usable_codes owner db"
  using assms by (auto simp: consumeRecoveryCode_def usable_codes_def set_sql_update)

lemma elevate_frame:
  "auth_inv db \<Longrightarrow> auth_inv (snd (elevate sid i now db))"
  "has_admin db \<Longrightarrow> has_admin (snd (elevate sid i now db))"
  "blocked userID db \<Longrightarrow> blocked userID (snd (elevate sid i now db))"
  "recovery_codes (snd (elevate sid i now db)) = recovery_codes db"
  "elevated (snd (elevate sid i now db)) \<subseteq> elevated db \<union> {(sid, u) |u. True}"
proof -
  let ?s = "db\<lparr>sessions := sql_update (\<lambda>s. se_id s = sid) (\<lambda>s. s\<lparr>se_twofa_passed := 1\<rparr>) (sessions db)\<rparr>"
  have eq: "snd (elevate sid i now db) = update_user i (\<lambda>u. u\<lparr>us_last_login_at := unix now\<rparr>) ?s"
    by (simp add: elevate_def)
  have s: "auth_inv ?s" if "auth_inv db"
    using that by (auto simp: auth_inv_def users_inv_def refs_inv_def keys_inv_def user_exists_def
        set_sql_update map_sql_update_same)
  show "auth_inv (snd (elevate sid i now db))" if "auth_inv db"
    unfolding eq by (rule update_user_inv) (use s [OF that] in simp_all)
  show "has_admin (snd (elevate sid i now db))" if "has_admin db"
    unfolding eq by (rule has_admin_update) (use that in \<open>simp_all add: enabled_admin_def has_admin_def\<close>)
  show "blocked userID (snd (elevate sid i now db))" if "blocked userID db"
    unfolding eq by (rule blocked_update) (use that in \<open>simp_all add: blocked_def\<close>)
  show "recovery_codes (snd (elevate sid i now db)) = recovery_codes db" by (simp add: eq)
  show "elevated (snd (elevate sid i now db)) \<subseteq> elevated db \<union> {(sid, u) |u. True}"
    by (auto simp: eq elevated_def set_sql_update)
qed

lemma verify_effect:
  "snd (VerifySecondFactor lib otp sv sid i code now db) = snd (elevate sid i now db) \<or>
   snd (VerifySecondFactor lib otp sv sid i code now db) =
     snd (elevate sid i now (snd (consumeRecoveryCode lib i (strip_code code) now db))) \<or>
   snd (VerifySecondFactor lib otp sv sid i code now db) = snd (consumeRecoveryCode lib i (strip_code code) now db) \<and>
     fst (VerifySecondFactor lib otp sv sid i code now db) \<noteq> Ok ()"
  by (auto simp: VerifySecondFactor_def Let_def split: prod.splits)

interpretation verify: blocking_operation "VerifySecondFactor lib otp sv sid i code now" userID
  for lib otp sv sid i code now userID
proof unfold_locales
  fix db
  note eff = verify_effect [of lib otp sv sid i code now db]
  note c = consume_frame [where lib = lib and i = i and code = "strip_code code" and now = now]
  show "auth_inv (snd (VerifySecondFactor lib otp sv sid i code now db))" if "auth_inv db"
    using eff c(1) [OF that] elevate_frame(1) that by metis
  show "has_admin (snd (VerifySecondFactor lib otp sv sid i code now db))" if "has_admin db"
    using eff has_admin_users [OF c(2)] elevate_frame(2) that by metis
  show "blocked userID (snd (VerifySecondFactor lib otp sv sid i code now db))" if "blocked userID db"
    using eff blocked_cong [OF c(2,3)] elevate_frame(3) that by metis
qed

lemma verify_codes:
  assumes "unix now \<noteq> 0"
  shows "usable_codes owner (snd (VerifySecondFactor lib otp sv sid i code now db)) \<subseteq> usable_codes owner db"
proof -
  have "usable_codes owner (snd (elevate sid i now db')) = usable_codes owner db'" for db'
    by (rule usable_codes_cong [OF elevate_frame(4)])
  with verify_effect [of lib otp sv sid i code now db] consume_codes [OF assms, of owner lib i "strip_code code" db]
  show ?thesis by (metis order_refl)
qed

subsection \<open>Traces\<close>

datatype auth_action =
    DoCreateUser string string string Role bool
  | DoSetPassword string int string
  | DoSetRole int Role
  | DoSetDisabled int bool
  | DoDeleteUser int
  | DoLogin string string string string string string
  | DoResolveSession string
  | DoRevokeSession string
  | DoRevokeAllSessions int
  | DoPurgeExpired
  | DoBeginEnrollment string string int
  | DoConfirmEnrollment "nat \<Rightarrow> string" int string
  | DoVerify string int string
  | DoResetTOTP int
  | DoRegenerate "nat \<Rightarrow> string" int
  | DoCreateToken string User string Role go_duration
  | DoResolveToken string
  | DoRevokeToken int
  | DoDeleteToken int

fun run_action :: "crypto_lib \<Rightarrow> totp_lib \<Rightarrow> Service \<Rightarrow> auth_action \<Rightarrow> go_time \<Rightarrow> auth_db \<Rightarrow> auth_db" where
  "run_action lib otp sv (DoCreateUser salt name pw role mc) now db = snd (CreateUser lib salt name pw role mc now db)"
| "run_action lib otp sv (DoSetPassword salt i pw) now db = snd (SetPassword lib salt i pw db)"
| "run_action lib otp sv (DoSetRole i role) now db = snd (SetRole i role db)"
| "run_action lib otp sv (DoSetDisabled i dis) now db = snd (SetDisabled i dis db)"
| "run_action lib otp sv (DoDeleteUser i) now db = snd (DeleteUser i db)"
| "run_action lib otp sv (DoLogin tb ib name pw ip ua) now db = snd (Login lib sv tb ib name pw ip ua now db)"
| "run_action lib otp sv (DoResolveSession token) now db = snd (ResolveSession lib sv token now db)"
| "run_action lib otp sv (DoRevokeSession sid) now db = snd (RevokeSession sid db)"
| "run_action lib otp sv (DoRevokeAllSessions i) now db = snd (RevokeAllSessions i db)"
| "run_action lib otp sv DoPurgeExpired now db = snd (PurgeExpired now db)"
| "run_action lib otp sv (DoBeginEnrollment seed nonce i) now db = snd (BeginTOTPEnrollment otp sv seed nonce i db)"
| "run_action lib otp sv (DoConfirmEnrollment seeds i code) now db = snd (ConfirmTOTPEnrollment lib otp sv seeds i code now db)"
| "run_action lib otp sv (DoVerify sid i code) now db = snd (VerifySecondFactor lib otp sv sid i code now db)"
| "run_action lib otp sv (DoResetTOTP i) now db = snd (ResetTOTP i db)"
| "run_action lib otp sv (DoRegenerate seeds i) now db = snd (regenerateRecoveryCodes lib seeds i db)"
| "run_action lib otp sv (DoCreateToken sb u name role ttl) now db = snd (CreateAPIToken lib sb u name role ttl now db)"
| "run_action lib otp sv (DoResolveToken presented) now db = snd (ResolveAPIToken lib presented now db)"
| "run_action lib otp sv (DoRevokeToken i) now db = snd (RevokeAPIToken i db)"
| "run_action lib otp sv (DoDeleteToken i) now db = snd (DeleteAPIToken i db)"

type_synonym trace = "(auth_action \<times> go_time) list"

fun run_trace :: "crypto_lib \<Rightarrow> totp_lib \<Rightarrow> Service \<Rightarrow> trace \<Rightarrow> auth_db \<Rightarrow> auth_db" where
  "run_trace lib otp sv [] db = db"
| "run_trace lib otp sv ((a, now) # tr) db = run_trace lib otp sv tr (run_action lib otp sv a now db)"

lemma run_trace_append: "run_trace lib otp sv (as @ bs) db = run_trace lib otp sv bs (run_trace lib otp sv as db)"
  by (induction as arbitrary: db) auto

lemmas all_keep_inv = create_user.keeps_inv set_password.keeps_inv set_role.keeps_inv set_disabled.keeps_inv
  delete_user_op.keeps_inv login.keeps_inv resolve_session.keeps_inv revoke_session.keeps_inv revoke_all.keeps_inv
  purge_expired.keeps_inv begin_enrollment.keeps_inv confirm.keeps_inv verify.keeps_inv reset_totp.keeps_inv
  regenerate.keeps_inv create_token.keeps_inv resolve_token.keeps_inv revoke_token.keeps_inv delete_token.keeps_inv

lemmas all_keep_admin = create_user.keeps_admin set_password.keeps_admin set_role.keeps_admin set_disabled.keeps_admin
  delete_user_op.keeps_admin login.keeps_admin resolve_session.keeps_admin revoke_session.keeps_admin revoke_all.keeps_admin
  purge_expired.keeps_admin begin_enrollment.keeps_admin confirm.keeps_admin verify.keeps_admin reset_totp.keeps_admin
  regenerate.keeps_admin create_token.keeps_admin resolve_token.keeps_admin revoke_token.keeps_admin delete_token.keeps_admin

lemmas all_quiet = create_user.no_elevation set_password.no_elevation set_role.no_elevation set_disabled.no_elevation
  delete_user_op.no_elevation login.no_elevation resolve_session.no_elevation revoke_session.no_elevation
  revoke_all.no_elevation purge_expired.no_elevation begin_enrollment.no_elevation confirm.no_elevation
  reset_totp.no_elevation regenerate.no_elevation create_token.no_elevation resolve_token.no_elevation
  revoke_token.no_elevation delete_token.no_elevation

lemmas all_blocking = create_user.keeps_blocked set_password.keeps_blocked set_role.keeps_blocked
  delete_user_op.keeps_blocked login.keeps_blocked resolve_session.keeps_blocked revoke_session.keeps_blocked
  revoke_all.keeps_blocked purge_expired.keeps_blocked begin_enrollment.keeps_blocked confirm.keeps_blocked
  verify.keeps_blocked reset_totp.keeps_blocked regenerate.keeps_blocked create_token.keeps_blocked
  resolve_token.keeps_blocked revoke_token.keeps_blocked delete_token.keeps_blocked

lemmas all_sparing = create_user.no_new_codes set_password.no_new_codes set_role.no_new_codes set_disabled.no_new_codes
  delete_user_op.no_new_codes login.no_new_codes resolve_session.no_new_codes revoke_session.no_new_codes
  revoke_all.no_new_codes purge_expired.no_new_codes begin_enrollment.no_new_codes reset_totp.no_new_codes
  create_token.no_new_codes resolve_token.no_new_codes revoke_token.no_new_codes delete_token.no_new_codes

lemma run_action_inv: "auth_inv db \<Longrightarrow> auth_inv (run_action lib otp sv a now db)"
  by (cases a) (simp_all add: all_keep_inv)

lemma run_action_admin: "auth_inv db \<Longrightarrow> has_admin db \<Longrightarrow> has_admin (run_action lib otp sv a now db)"
  by (cases a) (simp_all add: all_keep_admin)

definition elevates :: "auth_action \<Rightarrow> string \<Rightarrow> bool" where
  "elevates a sid = (case a of DoVerify s _ _ \<Rightarrow> s = sid | _ \<Rightarrow> False)"

lemma run_action_quiet: "\<forall>sid. \<not> elevates a sid \<Longrightarrow> elevated (run_action lib otp sv a now db) \<subseteq> elevated db"
  by (cases a) (simp_all add: all_quiet elevates_def)

lemma run_action_elevated:
  assumes "x \<in> elevated (run_action lib otp sv a now db)" and "x \<notin> elevated db"
  obtains i code where "a = DoVerify (fst x) i code" "VerifySecondFactor lib otp sv (fst x) i code now db = (Ok (), run_action lib otp sv a now db)"
proof (cases "\<exists>sid i code. a = DoVerify sid i code")
  case True
  then obtain sid i code where DoVerify: "a = DoVerify sid i code" by blast
  let ?r = "VerifySecondFactor lib otp sv sid i code now db"
  have c: "elevated (snd (consumeRecoveryCode lib i (strip_code code) now db)) = elevated db"
    by (rule elevated_cong [OF consume_frame(4)])
  have "fst ?r = Ok ()" using verify_effect [of lib otp sv sid i code now db] c assms DoVerify
    by (cases "fst ?r") (auto simp: VerifySecondFactor_def elevate_Ok Let_def split: prod.splits if_splits)
  moreover have "fst x = sid"
    using verify_effect [of lib otp sv sid i code now db] c assms DoVerify
      elevate_frame(5) [of sid i now db] elevate_frame(5) [of sid i now "snd (consumeRecoveryCode lib i (strip_code code) now db)"]
    by auto
  ultimately show thesis using DoVerify by (intro that [of i code]) (auto simp: prod_eq_iff)
next
  case False
  then have "\<forall>sid. \<not> elevates a sid" by (cases a) (auto simp: elevates_def)
  from run_action_quiet [OF this] assms show thesis by blast
qed

definition unblocks :: "int \<Rightarrow> auth_action \<Rightarrow> bool" where
  "unblocks i a = (case a of DoSetDisabled j dis \<Rightarrow> j = i \<and> \<not> dis | _ \<Rightarrow> False)"

lemma SetDisabled_blocked:
  assumes "blocked userID db" and "\<not> (i = userID \<and> \<not> dis)"
  shows "blocked userID (snd (SetDisabled i dis db))"
  by (rule SetDisabled_effect [of i dis db])
     (use assms in \<open>auto simp: write_disabled_def RevokeAllSessions_def blocked_def update_user_def set_sql_update\<close>)

lemma run_action_blocked:
  "blocked userID db \<Longrightarrow> \<not> unblocks userID a \<Longrightarrow> blocked userID (run_action lib otp sv a now db)"
  by (cases a) (simp_all add: all_blocking unblocks_def SetDisabled_blocked)

definition renews_codes :: "int \<Rightarrow> auth_action \<Rightarrow> bool" where
  "renews_codes i a =
     (case a of DoRegenerate _ j \<Rightarrow> j = i | DoConfirmEnrollment _ j _ \<Rightarrow> j = i | _ \<Rightarrow> False)"

lemma run_action_codes:
  assumes "auth_inv db" "\<not> renews_codes owner a" "unix now \<noteq> 0"
  shows "usable_codes owner (run_action lib otp sv a now db) \<subseteq> usable_codes owner db"
  using assms
  by (cases a) (simp_all add: all_sparing renews_codes_def confirm_codes verify_codes regenerate_frame(5))

lemma run_trace_inv: "auth_inv db \<Longrightarrow> auth_inv (run_trace lib otp sv tr db)"
  by (induction tr arbitrary: db) (auto simp: run_action_inv)

lemma run_trace_admin: "auth_inv db \<Longrightarrow> has_admin db \<Longrightarrow> has_admin (run_trace lib otp sv tr db)"
  by (induction tr arbitrary: db) (auto simp: run_action_inv run_action_admin)

lemma run_trace_blocked:
  "blocked userID db \<Longrightarrow> list_all (\<lambda>(a, now). \<not> unblocks userID a) tr \<Longrightarrow> blocked userID (run_trace lib otp sv tr db)"
  by (induction tr arbitrary: db) (auto simp: run_action_blocked)

lemma run_trace_codes:
  "auth_inv db \<Longrightarrow> list_all (\<lambda>(a, now). \<not> renews_codes owner a \<and> unix now \<noteq> 0) tr \<Longrightarrow>
   usable_codes owner (run_trace lib otp sv tr db) \<subseteq> usable_codes owner db"
proof (induction tr arbitrary: db)
  case (Cons x tr)
  obtain a now where x: "x = (a, now)" by (cases x)
  have "usable_codes owner (run_trace lib otp sv tr (run_action lib otp sv a now db))
      \<subseteq> usable_codes owner (run_action lib otp sv a now db)"
    using Cons.prems x by (intro Cons.IH run_action_inv) auto
  also have "\<dots> \<subseteq> usable_codes owner db" using Cons.prems x by (intro run_action_codes) auto
  finally show ?case by (simp add: x)
qed simp

lemma run_trace_elevated:
  assumes "x \<in> elevated (run_trace lib otp sv tr db)" and "x \<notin> elevated db"
  shows "\<exists>pre now i code post. tr = pre @ (DoVerify (fst x) i code, now) # post \<and>
    fst (VerifySecondFactor lib otp sv (fst x) i code now (run_trace lib otp sv pre db)) = Ok ()"
  using assms
proof (induction tr arbitrary: db)
  case (Cons y tr)
  obtain a now where y: "y = (a, now)" by (cases y)
  show ?case
  proof (cases "x \<in> elevated (run_action lib otp sv a now db)")
    case True
    obtain i code where a: "a = DoVerify (fst x) i code"
      and "VerifySecondFactor lib otp sv (fst x) i code now db = (Ok (), run_action lib otp sv a now db)"
      by (rule run_action_elevated [OF True Cons.prems(2)])
    from this(2) have "fst (VerifySecondFactor lib otp sv (fst x) i code now db) = Ok ()" by (simp only: fst_conv)
    then have "y # tr = [] @ (DoVerify (fst x) i code, now) # tr \<and>
        fst (VerifySecondFactor lib otp sv (fst x) i code now (run_trace lib otp sv [] db)) = Ok ()"
      by (simp add: y a)
    then show ?thesis by blast
  next
    case False
    have "x \<in> elevated (run_trace lib otp sv tr (run_action lib otp sv a now db))" using Cons.prems(1) y by simp
    from Cons.IH [OF this False]
    obtain pre now' i code post where "tr = pre @ (DoVerify (fst x) i code, now') # post"
      "fst (VerifySecondFactor lib otp sv (fst x) i code now' (run_trace lib otp sv pre (run_action lib otp sv a now db))) = Ok ()"
      by blast
    then have "y # tr = (y # pre) @ (DoVerify (fst x) i code, now') # post \<and>
        fst (VerifySecondFactor lib otp sv (fst x) i code now' (run_trace lib otp sv (y # pre) db)) = Ok ()"
      by (simp add: y)
    then show ?thesis by blast
  qed
qed simp

end
