(* ===== verification/Auth_Http.thy ===== *)
theory Auth_Http
  imports Auth_Machine
begin

text \<open>
  The layers in front of a handler (httpx): errors and their rendering (respond.go), the principal
  of a request (context.go, authmw.go), the rate limiter (ratelimit.go), the CSRF header (csrf.go)
  and the typed confirmation (confirm.go). A handler is a function from the request, the principal
  in its context and the server state to a response and the next state; a middleware maps handlers
  to handlers. The address of a request is the one \<open>ClientIP\<close> resolves. The token bucket
  (golang.org/x/time/rate) is a parameter.
\<close>

subsection \<open>Requests, errors, responses\<close>

record http_request =
  rq_Method :: string
  rq_Header :: "string \<Rightarrow> string"
  rq_Cookie :: "string \<Rightarrow> string option"
  rq_Query :: "string \<Rightarrow> string"
  rq_ClientIP :: string
  rq_UserAgent :: string
  rq_now :: go_time

record APIError =
  ae_Status :: int
  ae_Code :: string
  ae_Message :: string
  ae_Phrase :: string

definition http_Err :: "int \<Rightarrow> string \<Rightarrow> string \<Rightarrow> APIError" where
  "http_Err status code msg = \<lparr> ae_Status = status, ae_Code = code, ae_Message = msg, ae_Phrase = [] \<rparr>"

definition ErrUnauthorized :: APIError where
  "ErrUnauthorized = http_Err 401 ''unauthorized'' ''authentication required''"

definition HttpErrNotFound :: APIError where
  "HttpErrNotFound = http_Err 404 ''not_found'' ''not found''"

definition BadRequest :: "string \<Rightarrow> APIError" where
  "BadRequest msg = http_Err 400 ''bad_request'' msg"

definition Internal :: APIError where
  "Internal = http_Err 500 ''internal'' ''internal error''"

text \<open>What a handler writes: the status, the cookie it sets (name, value, age) and the body.\<close>

datatype body =
    NoBody
  | ErrorBody APIError
  | RateLimited
  | StatusBody bool "User option" "Capability list" bool bool
  | EnrollBody EnrollmentSecret
  | CodesBody "string list"
  | SessionsBody "Session list"
  | UsersBody "User list"
  | UserBody User
  | TokensBody "APIToken list"
  | TokenBody APIToken string

record response =
  rs_Status :: int
  rs_Cookie :: "(string \<times> int) option"
  rs_Body :: body

definition http_JSON :: "int \<Rightarrow> body \<Rightarrow> response" where
  "http_JSON status b = \<lparr> rs_Status = status, rs_Cookie = None, rs_Body = b \<rparr>"

definition WriteError :: "APIError \<Rightarrow> response" where
  "WriteError e = http_JSON (ae_Status e) (ErrorBody e)"

subsection \<open>Rate limits\<close>

record 'l rate_lib =
  rate_NewLimiter :: "int \<Rightarrow> int \<Rightarrow> 'l"
  rate_Allow :: "'l \<Rightarrow> go_time \<Rightarrow> bool \<times> 'l"

record 'l bucket =
  bk_lim :: 'l
  bk_seen :: go_time

record 'l Limiter =
  lm_buckets :: "(string \<times> 'l bucket) list"
  lm_perMinute :: int
  lm_burst :: int
  lm_ttl :: go_duration

definition NewLimiter :: "int \<Rightarrow> int \<Rightarrow> 'l Limiter" where
  "NewLimiter perMinute burst =
     \<lparr> lm_buckets = [], lm_perMinute = perMinute, lm_burst = burst, lm_ttl = 10 * minute \<rparr>"

definition sweep :: "go_time \<Rightarrow> 'l Limiter \<Rightarrow> 'l Limiter" where
  "sweep now l = l\<lparr>lm_buckets := filter (\<lambda>(k, b). \<not> bk_seen b < now - lm_ttl l) (lm_buckets l)\<rparr>"

definition Allow :: "'l rate_lib \<Rightarrow> string \<Rightarrow> go_time \<Rightarrow> 'l Limiter \<Rightarrow> bool \<times> 'l Limiter" where
  "Allow rl key now l =
     (let lim = (case map_of (lm_buckets l) key of
                   None \<Rightarrow> rate_NewLimiter rl (lm_perMinute l) (lm_burst l)
                 | Some b \<Rightarrow> bk_lim b);
          (ok, lim') = rate_Allow rl lim now
      in (ok, l\<lparr>lm_buckets := (key, \<lparr> bk_lim = lim', bk_seen = now \<rparr>) # filter (\<lambda>(k, _). k \<noteq> key) (lm_buckets l)\<rparr>))"

text \<open>A key has its own bucket: a request under another key does not touch it.\<close>

lemma Allow_other: "k \<noteq> key \<Longrightarrow> map_of (lm_buckets (snd (Allow rl key now l))) k = map_of (lm_buckets l) k"
proof -
  assume "k \<noteq> key"
  then have "map_of (filter (\<lambda>(k, _). k \<noteq> key) bs) k = map_of bs k" for bs :: "(string \<times> 'a bucket) list"
    by (induction bs) auto
  with \<open>k \<noteq> key\<close> show ?thesis by (simp add: Allow_def Let_def split: prod.splits)
qed

subsection \<open>Server state and principals\<close>

record 'l web =
  w_db :: auth_db
  w_apiLim :: "'l Limiter"
  w_loginLim :: "'l Limiter"
  w_destrLim :: "'l Limiter"

record 'l web_env =
  e_lib :: crypto_lib
  e_totp :: totp_lib
  e_svc :: Service
  e_rate :: "'l rate_lib"

record Principal =
  pr_User :: "User option"
  pr_Role :: Role
  pr_SessionID :: string
  pr_TokenID :: int
  pr_Kind :: string
  pr_IP :: string
  pr_UserAgent :: string

type_synonym 'l handler = "http_request \<Rightarrow> Principal option \<Rightarrow> 'l web \<Rightarrow> response \<times> 'l web"

definition principal_Can :: "Principal \<Rightarrow> Capability \<Rightarrow> bool" where
  "principal_Can p c = role_Can (pr_Role p) c"

definition pr_Username :: "Principal \<Rightarrow> string" where
  "pr_Username p = (case pr_User p of None \<Rightarrow> [] | Some u \<Rightarrow> usr_Username u)"

definition pr_UserID :: "Principal \<Rightarrow> int" where
  "pr_UserID p = (case pr_User p of None \<Rightarrow> 0 | Some u \<Rightarrow> usr_ID u)"

definition MustPrincipal :: "Principal option \<Rightarrow> Principal" where
  "MustPrincipal ctx =
     (case ctx of
        Some p \<Rightarrow> p
      | None \<Rightarrow> \<lparr> pr_User = None, pr_Role = RoleReadOnly, pr_SessionID = [], pr_TokenID = 0, pr_Kind = [],
                  pr_IP = [], pr_UserAgent = [] \<rparr>)"

subsection \<open>Authentication\<close>

definition SessionCookie :: string where
  "SessionCookie = ''vpsd_session''"

definition sessionToken :: "http_request \<Rightarrow> string" where
  "sessionToken rq = (case rq_Cookie rq SessionCookie of None \<Rightarrow> [] | Some v \<Rightarrow> v)"

definition bearerToken :: "http_request \<Rightarrow> string" where
  "bearerToken rq =
     (let h = rq_Header rq ''Authorization'';
          p = ''bearer ''
      in if h = [] then []
         else if length h > length p \<and> ascii_lower (take (length p) h) = p
         then trim_space (drop (length p) h) else [])"

definition session_principal :: "http_request \<Rightarrow> Session \<Rightarrow> User \<Rightarrow> Principal" where
  "session_principal rq sess u =
     \<lparr> pr_User = Some u, pr_Role = usr_Role u, pr_SessionID = ses_ID sess, pr_TokenID = 0, pr_Kind = ''session'',
       pr_IP = rq_ClientIP rq, pr_UserAgent = rq_UserAgent rq \<rparr>"

definition resolve_bearer :: "'l web_env \<Rightarrow> string \<Rightarrow> http_request \<Rightarrow> auth_db \<Rightarrow> (APIError + Principal) \<times> auth_db" where
  "resolve_bearer env bearer rq db =
     (case ResolveAPIToken (e_lib env) bearer (rq_now rq) db of
        (Inl _, db') \<Rightarrow> (Err (http_Err 401 ''unauthorized'' ''api token invalid, revoked or expired''), db')
      | (Inr (tok, user, role), db') \<Rightarrow>
          (Ok \<lparr> pr_User = Some user, pr_Role = role, pr_SessionID = [], pr_TokenID = tok_ID tok, pr_Kind = ''token'',
                pr_IP = rq_ClientIP rq, pr_UserAgent = rq_UserAgent rq \<rparr>, db'))"

definition resolve :: "'l web_env \<Rightarrow> http_request \<Rightarrow> auth_db \<Rightarrow> (APIError + Principal) \<times> auth_db" where
  "resolve env rq db =
     (if bearerToken rq \<noteq> [] then resolve_bearer env (bearerToken rq) rq db
      else if sessionToken rq = [] then (Err ErrUnauthorized, db)
      else case ResolveSession (e_lib env) (e_svc env) (sessionToken rq) (rq_now rq) db of
             (Inl e, db') \<Rightarrow>
               (Err (if e = ErrAccountDisabled then http_Err 403 ''account_disabled'' ''account disabled''
                     else http_Err 401 ''unauthorized'' ''session invalid or expired''), db')
           | (Inr (sess, user), db') \<Rightarrow>
               if \<not> ses_TwoFAPassed sess
               then (Err (http_Err 401 (if usr_TOTPEnabled user then ''totp_required'' else ''totp_enrollment_required'')
                            ''two-factor authentication required''), db')
               else (Ok (session_principal rq sess user), db'))"

definition Authenticate :: "'l web_env \<Rightarrow> 'l handler \<Rightarrow> 'l handler" where
  "Authenticate env h rq ctx s =
     (case resolve env rq (w_db s) of
        (Inl e, db') \<Rightarrow> (WriteError e, s\<lparr>w_db := db'\<rparr>)
      | (Inr p, db') \<Rightarrow> h rq (Some p) (s\<lparr>w_db := db'\<rparr>))"

text \<open>For the second-factor routes: a session whose second factor is outstanding is enough.\<close>

definition AuthenticatePartial :: "'l web_env \<Rightarrow> 'l handler \<Rightarrow> 'l handler" where
  "AuthenticatePartial env h rq ctx s =
     (if sessionToken rq = [] then (WriteError ErrUnauthorized, s)
      else case ResolveSession (e_lib env) (e_svc env) (sessionToken rq) (rq_now rq) (w_db s) of
             (Inl _, db') \<Rightarrow>
               (WriteError (http_Err 401 ''unauthorized'' ''session invalid or expired''), s\<lparr>w_db := db'\<rparr>)
           | (Inr (sess, user), db') \<Rightarrow> h rq (Some (session_principal rq sess user)) (s\<lparr>w_db := db'\<rparr>))"

definition RequireCapability :: "Capability \<Rightarrow> 'l handler \<Rightarrow> 'l handler" where
  "RequireCapability c h rq ctx s =
     (if \<not> principal_Can (MustPrincipal ctx) c
      then (WriteError (http_Err 403 ''forbidden''
              (''your role does not permit this action ('' @ capability_string c @ '')'')), s)
      else h rq ctx s)"

definition RequireSession :: "'l handler \<Rightarrow> 'l handler" where
  "RequireSession h rq ctx s =
     (if pr_Kind (MustPrincipal ctx) \<noteq> ''session''
      then (WriteError (http_Err 403 ''session_required''
              ''this action requires an interactive session, not an API token''), s)
      else h rq ctx s)"

subsection \<open>CSRF, rate and confirmation\<close>

definition csrfSafeMethod :: "string \<Rightarrow> bool" where
  "csrfSafeMethod m = (m \<in> {''GET'', ''HEAD'', ''OPTIONS'', ''TRACE''})"

definition RequireCSRF :: "'l handler \<Rightarrow> 'l handler" where
  "RequireCSRF h rq ctx s =
     (if csrfSafeMethod (rq_Method rq) then h rq ctx s
      else if (case ctx of None \<Rightarrow> False | Some p \<Rightarrow> pr_Kind p \<noteq> ''session'') then h rq ctx s
      else if rq_Header rq ''X-JD-CSRF'' \<noteq> ''1''
      then (WriteError (http_Err 403 ''csrf_required'' ''browser state changes require the CSRF request header''), s)
      else h rq ctx s)"

definition reject :: response where
  "reject = http_JSON 429 RateLimited"

definition limiter_Middleware :: "'l web_env \<Rightarrow> 'l handler \<Rightarrow> 'l handler" where
  "limiter_Middleware env h rq ctx s =
     (let (ok, l) = Allow (e_rate env) (rq_ClientIP rq) (rq_now rq) (w_loginLim s)
      in if \<not> ok then (reject, s\<lparr>w_loginLim := l\<rparr>) else h rq ctx (s\<lparr>w_loginLim := l\<rparr>))"

definition principal_key :: "Principal \<Rightarrow> http_request \<Rightarrow> string" where
  "principal_key p rq = pr_Username p @ ''|'' @ rq_ClientIP rq"

definition ByPrincipal_api :: "'l web_env \<Rightarrow> 'l handler \<Rightarrow> 'l handler" where
  "ByPrincipal_api env h rq ctx s =
     (let (ok, l) = Allow (e_rate env) (principal_key (MustPrincipal ctx) rq) (rq_now rq) (w_apiLim s)
      in if \<not> ok then (reject, s\<lparr>w_apiLim := l\<rparr>) else h rq ctx (s\<lparr>w_apiLim := l\<rparr>))"

definition ByPrincipal_destr :: "'l web_env \<Rightarrow> 'l handler \<Rightarrow> 'l handler" where
  "ByPrincipal_destr env h rq ctx s =
     (let (ok, l) = Allow (e_rate env) (principal_key (MustPrincipal ctx) rq) (rq_now rq) (w_destrLim s)
      in if \<not> ok then (reject, s\<lparr>w_destrLim := l\<rparr>) else h rq ctx (s\<lparr>w_destrLim := l\<rparr>))"

definition requireConfirmation :: "http_request \<Rightarrow> string \<Rightarrow> bool \<Rightarrow> APIError + unit" where
  "requireConfirmation rq phrase allowQuery =
     (let header = trim_space (rq_Header rq ''X-Confirm'');
          got = (if header = [] \<and> allowQuery then trim_space (rq_Query rq ''confirm'') else header)
      in if got = []
         then Err \<lparr> ae_Status = 428, ae_Code = ''confirmation_required'',
                    ae_Message = ''type \"'' @ phrase @ ''\" to confirm this irreversible action'', ae_Phrase = phrase \<rparr>
         else if got \<noteq> phrase
         then Err \<lparr> ae_Status = 412, ae_Code = ''confirmation_mismatch'',
                    ae_Message = ''confirmation text does not match \"'' @ phrase @ ''\"'', ae_Phrase = phrase \<rparr>
         else Ok ())"

definition RequireTypedConfirmation :: "http_request \<Rightarrow> string \<Rightarrow> APIError + unit" where
  "RequireTypedConfirmation rq phrase = requireConfirmation rq phrase False"

definition RequireTypedConfirmationWS :: "http_request \<Rightarrow> string \<Rightarrow> APIError + unit" where
  "RequireTypedConfirmationWS rq phrase = requireConfirmation rq phrase True"

end
