(* ===== verification/Auth_Handlers.thy ===== *)
theory Auth_Handlers
  imports Auth_Http
begin

text \<open>
  The authentication and account handlers (api/handlers_auth.go) and their routes (api/routes.go).
  The body of a request comes decoded, as the result of \<open>DecodeJSON\<close>, and the numeric URL parameter
  as the result of \<open>ParseInt\<close>; random bytes are arguments. A request is served at one instant.
  The audit log is not modelled, so the annotations for it are left out.
\<close>

text \<open>An early return of a handler with an error.\<close>

definition orFail :: "APIError + 'a \<Rightarrow> ('a \<Rightarrow> response \<times> 'l web) \<Rightarrow> 'l web \<Rightarrow> response \<times> 'l web" where
  "orFail r f s = (case r of Inl e \<Rightarrow> (WriteError e, s) | Inr x \<Rightarrow> f x)"

text \<open>A call of the service: its tables are kept whether or not it fails.\<close>

definition svc_call ::
    "'a auth_result \<Rightarrow> (authError \<Rightarrow> APIError) \<Rightarrow> 'l web \<Rightarrow> ('a \<Rightarrow> 'l web \<Rightarrow> response \<times> 'l web) \<Rightarrow> response \<times> 'l web" where
  "svc_call r fail s k =
     (case r of
        (Inl e, db) \<Rightarrow> (WriteError (fail e), s\<lparr>w_db := db\<rparr>)
      | (Inr x, db) \<Rightarrow> k x (s\<lparr>w_db := db\<rparr>))"

lemma orFail_simps [simp]: "orFail (Inl e) f s = (WriteError e, s)" "orFail (Inr x) f s = f x"
  by (simp_all add: orFail_def)

lemma svc_call_simps [simp]:
  "svc_call (Inl e, db) fail s k = (WriteError (fail e), s\<lparr>w_db := db\<rparr>)"
  "svc_call (Inr x, db) fail s k = k x (s\<lparr>w_db := db\<rparr>)"
  by (simp_all add: svc_call_def)

definition internal :: "authError \<Rightarrow> APIError" where
  "internal e = Internal"

fun auth_message :: "authError \<Rightarrow> string" where
  "auth_message ErrInvalidCredentials = ''invalid username or password''"
| "auth_message ErrAccountLocked = ''account temporarily locked after repeated failed logins''"
| "auth_message ErrAccountDisabled = ''account disabled''"
| "auth_message ErrInvalidTOTP = ''invalid verification code''"
| "auth_message ErrNotFound = ''not found''"
| "auth_message ErrLastAdmin = ''cannot remove the last enabled admin''"
| "auth_message ErrSessionInvalid = ''session invalid or expired''"
| "auth_message ErrTokenInvalid = ''api token invalid, revoked or expired''"
| "auth_message ErrDecrypt = ''decrypt failed''"
| "auth_message (ErrUnknownRole r) = ''unknown role '' @ r"
| "auth_message (ErrUserExists u) = ''user '' @ u @ '' already exists''"
| "auth_message (ErrTokenRole r own) = ''cannot mint a '' @ r @ '' token from a '' @ own @ '' account''"
| "auth_message (ErrText m) = m"
| "auth_message ErrSQL = ''constraint failed''"

definition mapAuthError :: "authError \<Rightarrow> APIError" where
  "mapAuthError e =
     (if e = ErrLastAdmin then http_Err 409 ''last_admin'' (auth_message e)
      else if e = ErrNotFound then HttpErrNotFound
      else BadRequest (auth_message e))"

definition bad_request :: "authError \<Rightarrow> APIError" where
  "bad_request e = BadRequest (auth_message e)"

subsection \<open>Signing in\<close>

record loginRequest =
  lq_Username :: string
  lq_Password :: string

definition login_error :: "authError \<Rightarrow> APIError" where
  "login_error e =
     (case e of
        ErrAccountLocked \<Rightarrow> http_Err 429 ''account_locked'' (auth_message e)
      | ErrAccountDisabled \<Rightarrow> http_Err 403 ''account_disabled'' (auth_message e)
      | ErrInvalidCredentials \<Rightarrow> http_Err 401 ''invalid_credentials'' (auth_message e)
      | _ \<Rightarrow> Internal)"

definition handleLogin :: "'l web_env \<Rightarrow> string \<Rightarrow> string \<Rightarrow> APIError + loginRequest \<Rightarrow> 'l handler" where
  "handleLogin env tokenBytes idBytes decoded rq ctx s =
     orFail decoded (\<lambda>req.
       svc_call (Login (e_lib env) (e_svc env) tokenBytes idBytes (lq_Username req) (lq_Password req)
                   (rq_ClientIP rq) (rq_UserAgent rq) (rq_now rq) (w_db s)) login_error s (\<lambda>res s.
         ((http_JSON 200 (StatusBody (\<not> lr_NeedsTOTP res \<and> \<not> lr_NeedsEnroll res) (Some (lr_User res))
             (Capabilities (usr_Role (lr_User res))) (lr_NeedsTOTP res) (lr_NeedsEnroll res)))
          \<lparr>rs_Cookie := Some (lr_Token res, (lr_ExpiresAt res - rq_now rq) div second)\<rparr>, s))) s"

definition handleLogout :: "'l handler" where
  "handleLogout rq ctx s =
     (let p = MustPrincipal ctx;
          db' = (if pr_SessionID p \<noteq> [] then snd (RevokeSession (pr_SessionID p) (w_db s)) else w_db s)
      in ((http_JSON 204 NoBody)\<lparr>rs_Cookie := Some ([], -1)\<rparr>, s\<lparr>w_db := db'\<rparr>))"

definition handleSession :: "'l handler" where
  "handleSession rq ctx s =
     (case ctx of
        None \<Rightarrow> (http_JSON 200 (StatusBody False None [] False False), s)
      | Some p \<Rightarrow>
          (case pr_User p of
             None \<Rightarrow> (http_JSON 200 (StatusBody False None [] False False), s)
           | Some u \<Rightarrow>
               (let current = find ses_Current (ListSessions (pr_UserID p) (pr_SessionID p) (w_db s));
                    pending = (case current of None \<Rightarrow> False | Some sess \<Rightarrow> \<not> ses_TwoFAPassed sess)
                in (http_JSON 200 (StatusBody (\<not> pending) (Some u) (Capabilities (pr_Role p))
                      (pending \<and> usr_TOTPEnabled u) (pending \<and> \<not> usr_TOTPEnabled u)), s))))"

definition handleTOTPSetup :: "'l web_env \<Rightarrow> string \<Rightarrow> string \<Rightarrow> 'l handler" where
  "handleTOTPSetup env seed nonce rq ctx s =
     (let p = MustPrincipal ctx
      in if (case pr_User p of None \<Rightarrow> False | Some u \<Rightarrow> usr_TOTPEnabled u)
         then (WriteError (http_Err 409 ''totp_already_enabled''
                 ''two-factor is already enrolled; an admin must reset it first''), s)
         else svc_call (BeginTOTPEnrollment (e_totp env) (e_svc env) seed nonce (pr_UserID p) (w_db s)) internal s
                (\<lambda>enroll s. (http_JSON 200 (EnrollBody enroll), s)))"

definition handleTOTPEnable :: "'l web_env \<Rightarrow> (nat \<Rightarrow> string) \<Rightarrow> APIError + string \<Rightarrow> 'l handler" where
  "handleTOTPEnable env seeds decoded rq ctx s =
     orFail decoded (\<lambda>code.
       (let p = MustPrincipal ctx
        in svc_call (ConfirmTOTPEnrollment (e_lib env) (e_totp env) (e_svc env) seeds (pr_UserID p) code (rq_now rq) (w_db s))
             (\<lambda>e. if e = ErrInvalidTOTP then http_Err 401 ''invalid_code'' (auth_message e) else Internal) s (\<lambda>codes s.
             (let (r, db) = VerifySecondFactor (e_lib env) (e_totp env) (e_svc env) (pr_SessionID p) (pr_UserID p) code (rq_now rq) (w_db s);
                  db' = (if is_ok r then db else snd (RevokeSession (pr_SessionID p) db))
              in (http_JSON 200 (CodesBody codes), s\<lparr>w_db := db'\<rparr>))))) s"

definition handleTOTPVerify :: "'l web_env \<Rightarrow> APIError + string \<Rightarrow> 'l handler" where
  "handleTOTPVerify env decoded rq ctx s =
     orFail decoded (\<lambda>code.
       (let p = MustPrincipal ctx;
            (ok, l) = Allow (e_rate env) (''totp|'' @ pr_Username p @ ''|'' @ rq_ClientIP rq) (rq_now rq) (w_loginLim s);
            s = s\<lparr>w_loginLim := l\<rparr>
        in if \<not> ok then (WriteError (http_Err 429 ''rate_limited'' ''too many verification attempts''), s)
           else svc_call (VerifySecondFactor (e_lib env) (e_totp env) (e_svc env) (pr_SessionID p) (pr_UserID p) code (rq_now rq) (w_db s))
                  (\<lambda>e. http_Err 401 ''invalid_code'' ''invalid verification code'') s (\<lambda>_ s.
                  (http_JSON 200 (StatusBody True (pr_User p) (Capabilities (pr_Role p)) False False), s)))) s"

subsection \<open>One's own account\<close>

record changePasswordRequest =
  cp_CurrentPassword :: string
  cp_NewPassword :: string

definition handleChangePassword :: "'l web_env \<Rightarrow> string \<Rightarrow> APIError + changePasswordRequest \<Rightarrow> 'l handler" where
  "handleChangePassword env salt decoded rq ctx s =
     orFail decoded (\<lambda>req.
       (let p = MustPrincipal ctx
        in if \<not> VerifyUserPassword (e_lib env) (pr_UserID p) (cp_CurrentPassword req) (w_db s)
           then (WriteError (http_Err 401 ''invalid_credentials'' ''current password is incorrect''), s)
           else svc_call (SetPassword (e_lib env) salt (pr_UserID p) (cp_NewPassword req) (w_db s)) bad_request s (\<lambda>_ s.
                svc_call (RevokeAllSessions (pr_UserID p) (w_db s)) internal s (\<lambda>_ s.
                ((http_JSON 204 NoBody)\<lparr>rs_Cookie := Some ([], -1)\<rparr>, s))))) s"

definition handleRecoveryCodesRegen :: "'l web_env \<Rightarrow> (nat \<Rightarrow> string) \<Rightarrow> 'l handler" where
  "handleRecoveryCodesRegen env seeds rq ctx s =
     svc_call (regenerateRecoveryCodes (e_lib env) seeds (pr_UserID (MustPrincipal ctx)) (w_db s)) internal s
       (\<lambda>codes s. (http_JSON 200 (CodesBody codes), s))"

definition handleListOwnSessions :: "'l handler" where
  "handleListOwnSessions rq ctx s =
     (let p = MustPrincipal ctx
      in (http_JSON 200 (SessionsBody (ListSessions (pr_UserID p) (pr_SessionID p) (w_db s))), s))"

definition handleRevokeOwnSession :: "string \<Rightarrow> 'l handler" where
  "handleRevokeOwnSession sid rq ctx s =
     (let p = MustPrincipal ctx
      in if \<not> list_ex (\<lambda>sess. ses_ID sess = sid) (ListSessions (pr_UserID p) (pr_SessionID p) (w_db s))
         then (WriteError HttpErrNotFound, s)
         else (http_JSON 204 NoBody, s\<lparr>w_db := snd (RevokeSession sid (w_db s))\<rparr>))"

subsection \<open>Account administration\<close>

record createUserRequest =
  cu_Username :: string
  cu_Password :: string
  cu_Role :: Role

definition handleListUsers :: "'l handler" where
  "handleListUsers rq ctx s = (http_JSON 200 (UsersBody (ListUsers (w_db s))), s)"

definition handleCreateUser :: "'l web_env \<Rightarrow> string \<Rightarrow> APIError + createUserRequest \<Rightarrow> 'l handler" where
  "handleCreateUser env salt decoded rq ctx s =
     orFail decoded (\<lambda>req.
       svc_call (CreateUser (e_lib env) salt (cu_Username req) (cu_Password req) (cu_Role req) True (rq_now rq) (w_db s))
         bad_request s (\<lambda>u s. (http_JSON 201 (UserBody u), s))) s"

record updateUserRequest =
  uq_Role :: "Role option"
  uq_Disabled :: "bool option"
  uq_Password :: "string option"

definition invalid_id :: "string \<Rightarrow> int option \<Rightarrow> APIError + int" where
  "invalid_id msg parsed = (case parsed of None \<Rightarrow> Err (BadRequest msg) | Some i \<Rightarrow> Ok i)"

definition find_target :: "int \<Rightarrow> 'l web \<Rightarrow> APIError + User" where
  "find_target i s = (case UserByID i (w_db s) of Inl _ \<Rightarrow> Err HttpErrNotFound | Inr u \<Rightarrow> Ok u)"

text \<open>The three optional changes, each on its own and in this order.\<close>

definition update_role :: "int \<Rightarrow> updateUserRequest \<Rightarrow> auth_db \<Rightarrow> unit auth_result" where
  "update_role i req db = (case uq_Role req of None \<Rightarrow> (Ok (), db) | Some role \<Rightarrow> SetRole i role db)"

definition update_disabled :: "int \<Rightarrow> updateUserRequest \<Rightarrow> auth_db \<Rightarrow> unit auth_result" where
  "update_disabled i req db = (case uq_Disabled req of None \<Rightarrow> (Ok (), db) | Some d \<Rightarrow> SetDisabled i d db)"

definition update_password :: "crypto_lib \<Rightarrow> string \<Rightarrow> int \<Rightarrow> updateUserRequest \<Rightarrow> auth_db \<Rightarrow> unit auth_result" where
  "update_password lib salt i req db =
     (case uq_Password req of
        None \<Rightarrow> (Ok (), db)
      | Some pw \<Rightarrow> bindd (SetPassword lib salt i pw db) (\<lambda>_ db. RevokeAllSessions i db))"

definition handleUpdateUser :: "'l web_env \<Rightarrow> string \<Rightarrow> int option \<Rightarrow> APIError + updateUserRequest \<Rightarrow> 'l handler" where
  "handleUpdateUser env salt parsed decoded rq ctx s =
     orFail (invalid_id ''invalid user id'' parsed) (\<lambda>i.
     orFail decoded (\<lambda>req.
     orFail (find_target i s) (\<lambda>target.
       svc_call (update_role i req (w_db s)) mapAuthError s (\<lambda>_ s.
       svc_call (update_disabled i req (w_db s)) mapAuthError s (\<lambda>_ s.
       svc_call (update_password (e_lib env) salt i req (w_db s)) bad_request s (\<lambda>_ s.
       svc_call (UserByID i (w_db s), w_db s) internal s (\<lambda>updated s.
         (http_JSON 200 (UserBody updated), s)))))) s) s) s"

definition handleDeleteUser :: "int option \<Rightarrow> 'l handler" where
  "handleDeleteUser parsed rq ctx s =
     orFail (invalid_id ''invalid user id'' parsed) (\<lambda>i.
     orFail (find_target i s) (\<lambda>target.
     orFail (RequireTypedConfirmation rq (usr_Username target)) (\<lambda>_.
       svc_call (DeleteUser i (w_db s)) mapAuthError s (\<lambda>_ s. (http_JSON 204 NoBody, s))) s) s) s"

definition handleResetUserTOTP :: "int option \<Rightarrow> 'l handler" where
  "handleResetUserTOTP parsed rq ctx s =
     orFail (invalid_id ''invalid user id'' parsed) (\<lambda>i.
     orFail (find_target i s) (\<lambda>target.
       svc_call (ResetTOTP i (w_db s)) internal s (\<lambda>_ s. (http_JSON 204 NoBody, s))) s) s"

subsection \<open>API tokens\<close>

record createTokenRequest =
  ct_Name :: string
  ct_Role :: Role
  ct_TTLDays :: int

definition handleListTokens :: "'l handler" where
  "handleListTokens rq ctx s =
     (let p = MustPrincipal ctx
      in (http_JSON 200 (TokensBody (ListAPITokens (pr_UserID p) (principal_Can p CapSystemAdmin) (w_db s))), s))"

text \<open>
  \<open>time.Duration(days) * 24 * time.Hour\<close> is a product of 64-bit integers and wraps around. The route
  requires a session, so the principal has a user.
\<close>

definition wrap64 :: "int \<Rightarrow> int" where
  "wrap64 x = (x + 2 ^ 63) mod 2 ^ 64 - 2 ^ 63"

definition token_ttl :: "int \<Rightarrow> go_duration" where
  "token_ttl days = (if days > 0 then wrap64 (days * 24 * (60 * minute)) else 0)"

definition handleCreateToken :: "'l web_env \<Rightarrow> string \<Rightarrow> APIError + createTokenRequest \<Rightarrow> 'l handler" where
  "handleCreateToken env secretBytes decoded rq ctx s =
     orFail decoded (\<lambda>req.
       (case pr_User (MustPrincipal ctx) of
          None \<Rightarrow> (WriteError Internal, s)
        | Some owner \<Rightarrow>
            (let ttl = token_ttl (ct_TTLDays req)
             in svc_call (CreateAPIToken (e_lib env) secretBytes owner (ct_Name req) (ct_Role req) ttl (rq_now rq) (w_db s))
                  bad_request s (\<lambda>(tok, secret) s. (http_JSON 201 (TokenBody tok secret), s))))) s"

definition handleRevokeToken :: "int option \<Rightarrow> 'l handler" where
  "handleRevokeToken parsed rq ctx s =
     orFail (invalid_id ''invalid token id'' parsed) (\<lambda>i.
       (let p = MustPrincipal ctx
        in if \<not> list_ex (\<lambda>t. tok_ID t = i) (ListAPITokens (pr_UserID p) (principal_Can p CapSystemAdmin) (w_db s))
           then (WriteError HttpErrNotFound, s)
           else (http_JSON 204 NoBody, s\<lparr>w_db := snd (RevokeAPIToken i (w_db s))\<rparr>))) s"

subsection \<open>Routes\<close>

text \<open>The login route, the half-authenticated group, and the group behind a full authentication.\<close>

definition login_group :: "'l web_env \<Rightarrow> 'l handler \<Rightarrow> 'l handler" where
  "login_group env h = limiter_Middleware env (RequireCSRF h)"

definition partial_group :: "'l web_env \<Rightarrow> 'l handler \<Rightarrow> 'l handler" where
  "partial_group env h = AuthenticatePartial env (RequireCSRF h)"

definition api_group :: "'l web_env \<Rightarrow> 'l handler \<Rightarrow> 'l handler" where
  "api_group env h = Authenticate env (ByPrincipal_api env (RequireCSRF h))"

definition account_group :: "'l web_env \<Rightarrow> 'l handler \<Rightarrow> 'l handler" where
  "account_group env h = api_group env (RequireSession h)"

definition users_group :: "'l web_env \<Rightarrow> 'l handler \<Rightarrow> 'l handler" where
  "users_group env h = api_group env (RequireCapability CapSystemAdmin (RequireSession h))"

definition destructive :: "'l web_env \<Rightarrow> 'l handler \<Rightarrow> 'l handler" where
  "destructive env h = RequireCapability CapDestructive (ByPrincipal_destr env h)"

datatype route =
    PostLogin string string "APIError + loginRequest"
  | GetSession
  | PostSetup string string
  | PostEnable "nat \<Rightarrow> string" "APIError + string"
  | PostVerify "APIError + string"
  | PostLogout
  | PostPassword string "APIError + changePasswordRequest"
  | PostRecoveryCodes "nat \<Rightarrow> string"
  | GetSessions
  | DeleteSession string
  | GetTokens
  | PostToken string "APIError + createTokenRequest"
  | DeleteToken "int option"
  | GetUsers
  | PostUser string "APIError + createUserRequest"
  | PatchUser string "int option" "APIError + updateUserRequest"
  | PostResetTOTP "int option"
  | RemoveUser "int option"

fun serve :: "'l web_env \<Rightarrow> route \<Rightarrow> http_request \<Rightarrow> 'l web \<Rightarrow> response \<times> 'l web" where
  "serve env (PostLogin tb ib d) rq s = login_group env (handleLogin env tb ib d) rq None s"
| "serve env GetSession rq s = partial_group env handleSession rq None s"
| "serve env (PostSetup seed nonce) rq s = partial_group env (handleTOTPSetup env seed nonce) rq None s"
| "serve env (PostEnable seeds d) rq s = partial_group env (handleTOTPEnable env seeds d) rq None s"
| "serve env (PostVerify d) rq s = partial_group env (handleTOTPVerify env d) rq None s"
| "serve env PostLogout rq s = partial_group env handleLogout rq None s"
| "serve env (PostPassword salt d) rq s = account_group env (handleChangePassword env salt d) rq None s"
| "serve env (PostRecoveryCodes seeds) rq s = account_group env (handleRecoveryCodesRegen env seeds) rq None s"
| "serve env GetSessions rq s = account_group env handleListOwnSessions rq None s"
| "serve env (DeleteSession sid) rq s = account_group env (handleRevokeOwnSession sid) rq None s"
| "serve env GetTokens rq s = api_group env handleListTokens rq None s"
| "serve env (PostToken sb d) rq s = api_group env (RequireSession (handleCreateToken env sb d)) rq None s"
| "serve env (DeleteToken i) rq s = api_group env (RequireSession (handleRevokeToken i)) rq None s"
| "serve env GetUsers rq s = users_group env handleListUsers rq None s"
| "serve env (PostUser salt d) rq s = users_group env (handleCreateUser env salt d) rq None s"
| "serve env (PatchUser salt i d) rq s = users_group env (handleUpdateUser env salt i d) rq None s"
| "serve env (PostResetTOTP i) rq s = users_group env (handleResetUserTOTP i) rq None s"
| "serve env (RemoveUser i) rq s = users_group env (destructive env (handleDeleteUser i)) rq None s"

end
