(* ===== verification/Auth_Server.thy ===== *)
theory Auth_Server
  imports Auth_Handlers
begin

text \<open>
  The handlers against the service: whatever a request does to the tables is a sequence of the
  actions of the service, so every contract of the actions holds for requests. The admission lemmas
  say with which principal the body of a protected route runs.
\<close>

subsection \<open>Requests as traces\<close>

definition reach :: "'l web_env \<Rightarrow> 'l web \<Rightarrow> 'l web \<Rightarrow> bool" where
  "reach env s s' \<longleftrightarrow> (\<exists>tr. w_db s' = run_trace (e_lib env) (e_totp env) (e_svc env) tr (w_db s))"

lemma reach_same [intro]: "w_db s' = w_db s \<Longrightarrow> reach env s s'"
  unfolding reach_def by (rule exI [of _ "[]"]) simp

lemma reach_refl [simp]: "reach env s s"
  by (rule reach_same) simp

lemma reach_trans: "reach env s s' \<Longrightarrow> reach env s' s'' \<Longrightarrow> reach env s s''"
  unfolding reach_def using run_trace_append by metis

lemma reach_action:
  "w_db s' = run_action (e_lib env) (e_totp env) (e_svc env) a now (w_db s) \<Longrightarrow> reach env s s'"
  unfolding reach_def by (rule exI [of _ "[(a, now)]"]) simp

lemma reach_svc_call:
  assumes "reach env s (s\<lparr>w_db := snd r\<rparr>)" and "\<And>x s'. reach env s' (snd (k x s'))"
  shows "reach env s (snd (svc_call r fail s k))"
proof (cases r)
  case (Pair a db)
  show ?thesis
  proof (cases a)
    case (Inr x)
    have "reach env (s\<lparr>w_db := db\<rparr>) (snd (k x (s\<lparr>w_db := db\<rparr>)))" by (rule assms(2))
    with assms(1) Inr Pair show ?thesis by (auto intro: reach_trans)
  qed (use assms(1) Pair in simp)
qed

lemma reach_orFail: "(\<And>x. reach env s (snd (f x))) \<Longrightarrow> reach env s (snd (orFail r f s))"
  by (cases r) auto

lemma reach_if: "(b \<Longrightarrow> reach env s (snd x)) \<Longrightarrow> (\<not> b \<Longrightarrow> reach env s (snd y)) \<Longrightarrow> reach env s (snd (if b then x else y))"
  by simp

lemma reach_bindd:
  assumes "reach env s (s\<lparr>w_db := snd r\<rparr>)" and "\<And>x db. reach env (s\<lparr>w_db := db\<rparr>) (s\<lparr>w_db := snd (f x db)\<rparr>)"
  shows "reach env s (s\<lparr>w_db := snd (bindd r f)\<rparr>)"
proof (cases r)
  case (Pair a db)
  show ?thesis
  proof (cases a)
    case (Inr x)
    with assms(1) assms(2) [of db x] Pair show ?thesis by (auto intro: reach_trans)
  qed (use assms(1) Pair in simp)
qed

text \<open>The calls of the service, one by one.\<close>

lemma reach_calls:
  "reach env s (s\<lparr>w_db := snd (CreateUser (e_lib env) salt n pw role mc now (w_db s))\<rparr>)"
  "reach env s (s\<lparr>w_db := snd (SetPassword (e_lib env) salt i pw (w_db s))\<rparr>)"
  "reach env s (s\<lparr>w_db := snd (SetRole i role (w_db s))\<rparr>)"
  "reach env s (s\<lparr>w_db := snd (SetDisabled i d (w_db s))\<rparr>)"
  "reach env s (s\<lparr>w_db := snd (DeleteUser i (w_db s))\<rparr>)"
  "reach env s (s\<lparr>w_db := snd (Login (e_lib env) (e_svc env) tb ib n pw ip ua now (w_db s))\<rparr>)"
  "reach env s (s\<lparr>w_db := snd (ResolveSession (e_lib env) (e_svc env) tok now (w_db s))\<rparr>)"
  "reach env s (s\<lparr>w_db := snd (RevokeSession sid (w_db s))\<rparr>)"
  "reach env s (s\<lparr>w_db := snd (RevokeAllSessions i (w_db s))\<rparr>)"
  "reach env s (s\<lparr>w_db := snd (BeginTOTPEnrollment (e_totp env) (e_svc env) seed nonce i (w_db s))\<rparr>)"
  "reach env s (s\<lparr>w_db := snd (ConfirmTOTPEnrollment (e_lib env) (e_totp env) (e_svc env) seeds i code now (w_db s))\<rparr>)"
  "reach env s (s\<lparr>w_db := snd (VerifySecondFactor (e_lib env) (e_totp env) (e_svc env) sid i code now (w_db s))\<rparr>)"
  "reach env s (s\<lparr>w_db := snd (ResetTOTP i (w_db s))\<rparr>)"
  "reach env s (s\<lparr>w_db := snd (regenerateRecoveryCodes (e_lib env) seeds i (w_db s))\<rparr>)"
  "reach env s (s\<lparr>w_db := snd (CreateAPIToken (e_lib env) sb u n role ttl now (w_db s))\<rparr>)"
  "reach env s (s\<lparr>w_db := snd (ResolveAPIToken (e_lib env) tok now (w_db s))\<rparr>)"
  "reach env s (s\<lparr>w_db := snd (RevokeAPIToken i (w_db s))\<rparr>)"
  by (rule reach_action [where now = now], simp, rule run_action.simps [symmetric])+

lemma reach_calls_at:
  "reach env s (s\<lparr>w_db := snd (SetPassword (e_lib env) salt i pw db)\<rparr>)" if "w_db s = db"
  using that reach_calls(2) by blast

lemma reach_update_user:
  "reach env s (s\<lparr>w_db := snd (update_role i req (w_db s))\<rparr>)"
  "reach env s (s\<lparr>w_db := snd (update_disabled i req (w_db s))\<rparr>)"
  "reach env s (s\<lparr>w_db := snd (update_password (e_lib env) salt i req (w_db s))\<rparr>)"
proof -
  show "reach env s (s\<lparr>w_db := snd (update_role i req (w_db s))\<rparr>)"
    by (cases "uq_Role req") (auto simp: update_role_def reach_calls)
  show "reach env s (s\<lparr>w_db := snd (update_disabled i req (w_db s))\<rparr>)"
    by (cases "uq_Disabled req") (auto simp: update_disabled_def reach_calls)
  have "reach env (s\<lparr>w_db := db\<rparr>) (s\<lparr>w_db := snd (RevokeAllSessions i db)\<rparr>)" for db
    using reach_calls(9) [of env "s\<lparr>w_db := db\<rparr>"] by simp
  then show "reach env s (s\<lparr>w_db := snd (update_password (e_lib env) salt i req (w_db s))\<rparr>)"
    by (cases "uq_Password req") (auto simp: update_password_def intro!: reach_bindd reach_calls)
qed

definition acts :: "'l web_env \<Rightarrow> 'l handler \<Rightarrow> bool" where
  "acts env h \<longleftrightarrow> (\<forall>rq ctx s. reach env s (snd (h rq ctx s)))"

lemma acts_handlers:
  "acts env (handleLogin env tb ib dl)" "acts env handleLogout" "acts env handleSession"
  "acts env (handleTOTPSetup env seed nonce)" "acts env (handleChangePassword env salt dc)"
  "acts env (handleRecoveryCodesRegen env seeds)" "acts env handleListOwnSessions"
  "acts env (handleRevokeOwnSession sid)" "acts env handleListUsers" "acts env (handleCreateUser env salt du)"
  "acts env (handleUpdateUser env salt i dp)" "acts env (handleDeleteUser i)" "acts env (handleResetUserTOTP i)"
  "acts env handleListTokens" "acts env (handleCreateToken env sb dt)" "acts env (handleRevokeToken i)"
  unfolding acts_def handleLogin_def handleLogout_def handleSession_def handleTOTPSetup_def handleChangePassword_def
    handleRecoveryCodesRegen_def handleListOwnSessions_def handleRevokeOwnSession_def handleListUsers_def
    handleCreateUser_def handleUpdateUser_def handleDeleteUser_def handleResetUserTOTP_def handleListTokens_def
    handleCreateToken_def handleRevokeToken_def Let_def
  by (auto intro!: reach_orFail reach_svc_call reach_if reach_calls reach_update_user split: option.splits prod.splits)

lemma reach_enable_tail:
  "reach env s (snd (let (r, db) = VerifySecondFactor (e_lib env) (e_totp env) (e_svc env) sid i code now (w_db s);
       db' = (if is_ok r then db else snd (RevokeSession sid db)) in (resp, s\<lparr>w_db := db'\<rparr>)))"
proof (cases "VerifySecondFactor (e_lib env) (e_totp env) (e_svc env) sid i code now (w_db s)")
  case (Pair r db)
  have "reach env s (s\<lparr>w_db := db\<rparr>)" using reach_calls(12) [of env s sid i code now] Pair by simp
  moreover have "reach env (s\<lparr>w_db := db\<rparr>) (s\<lparr>w_db := snd (RevokeSession sid db)\<rparr>)"
    using reach_calls(8) [of env "s\<lparr>w_db := db\<rparr>"] by simp
  ultimately show ?thesis using Pair reach_trans by (simp add: Let_def) blast
qed

lemma acts_enable: "acts env (handleTOTPEnable env seeds dc)"
  unfolding acts_def handleTOTPEnable_def
  by (intro allI reach_orFail, subst Let_def, intro reach_svc_call reach_calls reach_enable_tail)

lemma acts_verify: "acts env (handleTOTPVerify env dc)"
  unfolding acts_def
proof (intro allI)
  fix rq ctx s
  have lim: "reach env s (s\<lparr>w_loginLim := l\<rparr>)" for l by (rule reach_same) simp
  have call: "reach env s (snd (svc_call (VerifySecondFactor (e_lib env) (e_totp env) (e_svc env) sid i code now (w_db s)) f
      (s\<lparr>w_loginLim := l\<rparr>) (\<lambda>_ s. (resp, s))))" for sid i code now f l resp
    using reach_calls(12) [of env "s\<lparr>w_loginLim := l\<rparr>" sid i code now]
    by (intro reach_trans [OF lim, of l] reach_svc_call) auto
  show "reach env s (snd (handleTOTPVerify env dc rq ctx s))"
    unfolding handleTOTPVerify_def Let_def by (intro reach_orFail) (auto simp: lim call split: prod.splits)
qed

text \<open>The middlewares keep the property.\<close>

lemma acts_limits:
  assumes "acts env h"
  shows "acts env (limiter_Middleware env h)" "acts env (ByPrincipal_api env h)" "acts env (ByPrincipal_destr env h)"
proof -
  have h: "reach env s (snd (h rq ctx s'))" if "w_db s' = w_db s" for rq ctx s s'
    using assms that reach_trans [OF reach_same] unfolding acts_def by metis
  show "acts env (limiter_Middleware env h)" "acts env (ByPrincipal_api env h)" "acts env (ByPrincipal_destr env h)"
    unfolding acts_def limiter_Middleware_def ByPrincipal_api_def ByPrincipal_destr_def Let_def
    by (auto intro: h split: prod.splits)
qed

lemma acts_guards:
  assumes "acts env h"
  shows "acts env (RequireCSRF h)" "acts env (RequireSession h)" "acts env (RequireCapability c h)"
  using assms by (auto simp: acts_def RequireCSRF_def RequireSession_def RequireCapability_def split: option.splits)

lemma reach_resolve: "reach env s (s\<lparr>w_db := snd (resolve env rq (w_db s))\<rparr>)"
proof -
  have "snd (resolve_bearer env b rq db) = snd (ResolveAPIToken (e_lib env) b (rq_now rq) db)" for b db
    by (auto simp: resolve_bearer_def split: prod.splits sum.splits)
  moreover have "snd (resolve env rq db) = snd (ResolveSession (e_lib env) (e_svc env) (sessionToken rq) (rq_now rq) db)"
    if "bearerToken rq = []" "sessionToken rq \<noteq> []" for db
    using that by (auto simp: resolve_def split: prod.splits sum.splits)
  ultimately show ?thesis
    by (cases "bearerToken rq = []"; cases "sessionToken rq = []") (auto simp: resolve_def reach_calls)
qed

lemma acts_authenticated:
  assumes "acts env h"
  shows "acts env (Authenticate env h)" "acts env (AuthenticatePartial env h)"
proof -
  have h: "reach env s (snd (h rq ctx s'))" if "reach env s s'" for rq ctx s s'
    using assms that reach_trans unfolding acts_def by metis
  show "acts env (Authenticate env h)"
    unfolding acts_def Authenticate_def
  proof (intro allI)
    fix rq ctx s
    show "reach env s (snd (case resolve env rq (w_db s) of (Inl e, db') \<Rightarrow> (WriteError e, s\<lparr>w_db := db'\<rparr>)
        | (Inr p, db') \<Rightarrow> h rq (Some p) (s\<lparr>w_db := db'\<rparr>)))"
      using reach_resolve [of env s rq] by (auto intro!: h split: prod.splits sum.splits)
  qed
  show "acts env (AuthenticatePartial env h)"
    unfolding acts_def AuthenticatePartial_def
  proof (intro allI)
    fix rq ctx s
    show "reach env s (snd (if sessionToken rq = [] then (WriteError ErrUnauthorized, s)
        else case ResolveSession (e_lib env) (e_svc env) (sessionToken rq) (rq_now rq) (w_db s) of
          (Inl _, db') \<Rightarrow> (WriteError (http_Err 401 ''unauthorized'' ''session invalid or expired''), s\<lparr>w_db := db'\<rparr>)
        | (Inr (sess, user), db') \<Rightarrow> h rq (Some (session_principal rq sess user)) (s\<lparr>w_db := db'\<rparr>)))"
      using reach_calls(7) [of env s "sessionToken rq" "rq_now rq"] by (auto intro!: h split: prod.splits sum.splits)
  qed
qed

lemmas acts_rules = acts_handlers acts_enable acts_verify acts_limits acts_guards acts_authenticated

lemma serve_reach: "reach env s (snd (serve env r rq s))"
proof -
  have run: "acts env h \<Longrightarrow> reach env s (snd (h rq None s))" for h by (simp add: acts_def)
  show ?thesis
    by (cases r; simp only: serve.simps login_group_def partial_group_def api_group_def account_group_def
        users_group_def destructive_def; rule run; intro acts_rules)
qed

text \<open>A sequence of requests, served one after another.\<close>

fun serve_all :: "'l web_env \<Rightarrow> (route \<times> http_request) list \<Rightarrow> 'l web \<Rightarrow> 'l web" where
  "serve_all env [] s = s"
| "serve_all env ((r, rq) # rest) s = serve_all env rest (snd (serve env r rq s))"

lemma serve_all_reach: "reach env s (serve_all env reqs s)"
proof (induction reqs arbitrary: s)
  case (Cons x reqs)
  then show ?case by (cases x) (auto intro: reach_trans serve_reach)
qed auto

subsection \<open>Admission\<close>

lemma resolve_Ok:
  assumes "resolve env rq db = (Ok p, db')" and "pr_Kind p = ''session''"
  obtains sess u where
    "ResolveSession (e_lib env) (e_svc env) (sessionToken rq) (rq_now rq) db = (Ok (sess, u), db')"
    "ses_TwoFAPassed sess" "p = session_principal rq sess u"
proof -
  have "bearerToken rq = []"
    using assms by (auto simp: resolve_def resolve_bearer_def split: if_splits prod.splits sum.splits)
  with assms that show thesis
    by (auto simp: resolve_def split: if_splits prod.splits sum.splits)
qed

lemma resolve_bearer_Ok:
  assumes "resolve env rq db = (Ok p, db')" and "bearerToken rq \<noteq> []"
  obtains t u role where "ResolveAPIToken (e_lib env) (bearerToken rq) (rq_now rq) db = (Ok (t, u, role), db')"
    "pr_Role p = role" "pr_User p = Some u" "pr_Kind p = ''token''"
  using assms by (auto simp: resolve_def resolve_bearer_def split: prod.splits sum.splits)

text \<open>The tables a refused request may have touched: only sessions and the use of tokens.\<close>

lemma resolve_frame:
  "users (snd (resolve env rq db)) = users db \<and> recovery_codes (snd (resolve env rq db)) = recovery_codes db"
proof -
  have s: "users (snd (ResolveSession lib sv t n db)) = users db \<and>
      recovery_codes (snd (ResolveSession lib sv t n db)) = recovery_codes db" for lib sv t n
    using ResolveSession_effect [of lib sv t n db] by (auto simp: touch_session_def)
  have t: "users (snd (ResolveAPIToken lib t n db)) = users db \<and>
      recovery_codes (snd (ResolveAPIToken lib t n db)) = recovery_codes db" for lib t n
    using ResolveAPIToken_effect [of lib t n db] by (auto simp: update_token_def)
  have "snd (resolve env rq db) \<in> {db, snd (ResolveAPIToken (e_lib env) (bearerToken rq) (rq_now rq) db),
      snd (ResolveSession (e_lib env) (e_svc env) (sessionToken rq) (rq_now rq) db)}"
    by (auto simp: resolve_def resolve_bearer_def split: prod.splits sum.splits)
  with s t show ?thesis by auto
qed

lemma resolve_status:
  "resolve env rq db = (Err e, db') \<Longrightarrow> ae_Status e \<in> {401, 403}"
  by (auto simp: resolve_def resolve_bearer_def ErrUnauthorized_def http_Err_def split: if_splits prod.splits sum.splits)

subsection \<open>Changes in flight\<close>

text \<open>
  \<open>SetRole\<close>, \<open>SetDisabled\<close> and \<open>DeleteUser\<close> check for another administrator and then write, in
  two statements. When requests are served side by side, other statements run in between: a change
  that has passed its check is in flight until it writes.
\<close>

datatype admin_change = Demote int Role | Disable int | Remove int

definition change_target :: "admin_change \<Rightarrow> int" where
  "change_target c = (case c of Demote i _ \<Rightarrow> i | Disable i \<Rightarrow> i | Remove i \<Rightarrow> i)"

definition apply_change :: "admin_change \<Rightarrow> auth_db \<Rightarrow> auth_db" where
  "apply_change c db =
     (case c of
        Demote i role \<Rightarrow> write_role i role db
      | Disable i \<Rightarrow> write_disabled i True db
      | Remove i \<Rightarrow> delete_user i db)"

inductive interleaved :: "auth_db \<times> admin_change list \<Rightarrow> auth_db \<times> admin_change list \<Rightarrow> bool" where
  Check: "guardLastAdmin (change_target c) db = Ok () \<Longrightarrow> interleaved (db, pending) (db, c # pending)"
| Write: "c \<in> set pending \<Longrightarrow> interleaved (db, pending) (apply_change c db, remove1 c pending)"

text \<open>One after the other, check and write are the operation.\<close>

lemma alone_SetRole:
  "role_Valid role \<Longrightarrow> role \<noteq> RoleAdmin \<Longrightarrow> guardLastAdmin i db = Ok () \<Longrightarrow>
   SetRole i role db = (Ok (), apply_change (Demote i role) db)"
  by (simp add: SetRole_def apply_change_def)

lemma alone_DeleteUser: "guardLastAdmin i db = Ok () \<Longrightarrow> DeleteUser i db = (Ok (), apply_change (Remove i) db)"
  by (simp add: DeleteUser_def apply_change_def)

lemma guard_passes:
  assumes "users_inv db" and "u \<in> set (users db)" "enabled_admin u" "v \<in> set (users db)" "enabled_admin v" "us_id u \<noteq> us_id v"
  shows "guardLastAdmin (us_id u) db = Ok ()"
proof -
  have "find (\<lambda>x. us_id x = us_id u) (users db) = Some u"
    using find_key_unique [of us_id "users db" u] assms(1,2) by (simp add: users_inv_def)
  moreover have "sql_count (\<lambda>x. enabled_admin x \<and> us_id x \<noteq> us_id u) (users db) \<noteq> 0"
    using assms(4-6) by auto
  ultimately show ?thesis by (simp add: guardLastAdmin_def del: sql_count_0)
qed

text \<open>Both changes pass their checks, then both write.\<close>

lemma two_in_flight:
  assumes "guardLastAdmin (change_target c) db = Ok ()" "guardLastAdmin (change_target d) db = Ok ()" "c \<noteq> d"
  shows "interleaved\<^sup>*\<^sup>* (db, []) (apply_change d (apply_change c db), [])"
proof -
  have "interleaved (db, []) (db, [c])" by (rule Check [OF assms(1)])
  moreover have "interleaved (db, [c]) (db, [d, c])" by (rule Check [OF assms(2)])
  moreover have "interleaved (db, [d, c]) (apply_change c db, [d])"
    using Write [of c "[d, c]" db] assms(3) by simp
  moreover have "interleaved (apply_change c db, [d]) (apply_change d (apply_change c db), [])"
    using Write [of d "[d]" "apply_change c db"] by simp
  ultimately show ?thesis by (meson rtranclp.rtrancl_into_rtrancl rtranclp.rtrancl_refl)
qed

subsection \<open>Counting failures\<close>

lemma find_sql_update_same:
  "(\<And>r. q (f r) = q r) \<Longrightarrow> find q (sql_update p f rows) = map_option (\<lambda>r. if p r then f r else r) (find q rows)"
  by (induction rows) auto

lemma login_row_set_lock:
  "login_row lib name db = Some row \<Longrightarrow>
   login_row lib name (set_lock (us_id row) a b db) = Some (row\<lparr>us_failed_count := a, us_locked_until := b\<rparr>)"
  by (simp add: login_row_def set_lock_def update_user_def find_sql_update_same)

lemma login_with_wrong:
  assumes "us_locked_until row \<le> unix now" "us_disabled row \<noteq> 1" "\<not> VerifyPassword lib pw (us_password_hash row)"
  shows "snd (login_with lib sv tb ib row pw ip ua now db)
    = set_lock (us_id row) (fst (failed_login row now)) (snd (failed_login row now)) db"
  using assms by (simp add: login_with_def Let_def scanUser_def split: prod.splits)

lemma write_disabled_blocked:
  assumes "i < next_user db"
  shows "blocked i (snd (RevokeAllSessions i (write_disabled i True db)))"
proof -
  have rows: "users (snd (RevokeAllSessions i (write_disabled i True db)))
      = sql_update (\<lambda>u. us_id u = i) (\<lambda>u. u\<lparr>us_disabled := 1\<rparr>) (users db)"
    "next_user (snd (RevokeAllSessions i (write_disabled i True db))) = next_user db"
    by (simp_all add: RevokeAllSessions_def write_disabled_def update_user_def)
  show ?thesis unfolding blocked_def rows set_sql_update using assms by (simp add: ball_Un)
qed

end
