(* ===== verification/Auth_Properties.thy ===== *)
theory Auth_Properties
  imports Auth_Server
begin

text \<open>
  The properties of authentication and account administration, with a small installation on which
  each is applied: two administrators, one of them enrolled, and libraries that are simple functions
  with the documented laws.
\<close>

subsection \<open>A sample installation\<close>

definition sample_aead :: aead where
  "sample_aead = \<lparr> aead_NonceSize = 1, aead_Seal = (\<lambda>nonce pt. pt), aead_Open = (\<lambda>nonce ct. Some ct) \<rparr>"

definition sample_lib :: crypto_lib where
  "sample_lib =
     \<lparr> sha256 = (\<lambda>s. s), gcm = (\<lambda>key. sample_aead),
       argon2_IDKey = (\<lambda>pw salt t m p k. take k (pw @ replicate k (CHR ''x''))), argon2_Version = 19,
       unicode_ToLower = (\<lambda>s. s) \<rparr>"

definition sample_totp :: totp_lib where
  "sample_totp =
     \<lparr> totp_Generate = (\<lambda>issuer account seed. Some (seed, account)), totp_Validate = (\<lambda>code secret now. code = secret),
       totp_ValidateCustom = (\<lambda>code secret now opts. Some (code = secret)) \<rparr>"

definition sample_service :: Service where
  "sample_service = \<lparr> sv_sealer = \<lparr> sealer_aead = sample_aead \<rparr>, sv_sessionTTL = 1000 * second, sv_idleTTL = 100 * second \<rparr>"

definition sample_user :: "int \<Rightarrow> string \<Rightarrow> user_row" where
  "sample_user i name = new_user_row i name ''h'' RoleAdmin False 1"

definition sample_auth_db :: auth_db where
  "sample_auth_db =
     \<lparr> users = [sample_user 1 ''ann'', sample_user 2 ''bob''],
       recovery_codes = [\<lparr> rc_user_id = 1, rc_code_hash = hex_encode ''c'', rc_used_at = 0 \<rparr>],
       sessions = [\<lparr> se_id = ''s'', se_user_id = 1, se_token_hash = hex_encode ''t'', se_twofa_passed = 0,
                     se_ip = [], se_user_agent = [], se_created_at = 1, se_last_seen_at = 1, se_expires_at = 100 \<rparr>],
       api_tokens = [\<lparr> tk_id = 1, tk_user_id = 1, tk_name = ''n'', tk_prefix = ''vpsd_abcdefgh'',
                       tk_token_hash = hex_encode ''vpsd_abcdefgh'', tk_role = RoleLimited, tk_created_at = 1,
                       tk_expires_at = 0, tk_last_used_at = 0, tk_revoked = 0 \<rparr>],
       next_user = 3, next_token = 2 \<rparr>"

lemmas auth_samples = sample_lib_def sample_totp_def sample_service_def sample_aead_def sample_auth_db_def
  sample_user_def new_user_row_def

lemma sample_auth_inv: "auth_inv sample_auth_db"
  by (simp add: auth_inv_def users_inv_def refs_inv_def keys_inv_def user_exists_def auth_samples role_Valid_def role_names)

lemma sample_has_admin: "has_admin sample_auth_db"
  by (simp add: has_admin_def enabled_admin_def auth_samples)

subsection \<open>Administrators\<close>

text \<open>
  C15: whatever requests are served one after another - accounts demoted, disabled, deleted, anyone
  signing in or out - an enabled administrator remains, and the tables keep their invariant.
\<close>

theorem an_admin_remains:
  assumes "auth_inv (w_db s)" and "has_admin (w_db s)"
  shows "has_admin (w_db (serve_all env reqs s)) \<and> auth_inv (w_db (serve_all env reqs s))"
proof -
  obtain tr where "w_db (serve_all env reqs s) = run_trace (e_lib env) (e_totp env) (e_svc env) tr (w_db s)"
    using serve_all_reach [of env s reqs] by (auto simp: reach_def)
  with assms show ?thesis by (simp add: run_trace_inv run_trace_admin)
qed

definition sample_web :: "unit web" where
  "sample_web = \<lparr> w_db = sample_auth_db, w_apiLim = NewLimiter 60 10, w_loginLim = NewLimiter 60 10,
                  w_destrLim = NewLimiter 60 10 \<rparr>"

definition sample_env :: "unit web_env" where
  "sample_env = \<lparr> e_lib = sample_lib, e_totp = sample_totp, e_svc = sample_service,
                  e_rate = \<lparr> rate_NewLimiter = (\<lambda>a b. ()), rate_Allow = (\<lambda>l t. (True, l)) \<rparr> \<rparr>"

theorem an_admin_remains_witness:
  "\<forall>reqs. has_admin (w_db (serve_all sample_env reqs sample_web)) \<and>
          auth_inv (w_db (serve_all sample_env reqs sample_web))"
  by (intro allI, rule an_admin_remains) (simp_all add: sample_web_def sample_auth_inv sample_has_admin)

text \<open>
  Side by side the check is not enough: when two requests demote the last two administrators
  each other, both checks pass before either writes, and no enabled administrator is left.
\<close>

theorem concurrent_demotions_lock_everyone_out:
  assumes "auth_inv db" and "{u \<in> set (users db). enabled_admin u} = {a, b}" and "us_id a \<noteq> us_id b"
  shows "\<exists>db'. interleaved\<^sup>*\<^sup>* (db, []) (db', []) \<and> \<not> has_admin db'"
proof -
  let ?c = "Demote (us_id a) RoleReadOnly" and ?d = "Demote (us_id b) RoleReadOnly"
  have ab: "a \<in> set (users db)" "enabled_admin a" "b \<in> set (users db)" "enabled_admin b" using assms(2) by auto
  have inv: "users_inv db" using assms(1) by (simp add: auth_inv_def)
  have "guardLastAdmin (change_target ?c) db = Ok ()" "guardLastAdmin (change_target ?d) db = Ok ()"
    using guard_passes [OF inv ab(1,2,3,4) assms(3)] guard_passes [OF inv ab(3,4,1,2)] assms(3)
    by (simp_all add: change_target_def)
  then have "interleaved\<^sup>*\<^sup>* (db, []) (apply_change ?d (apply_change ?c db), [])"
    using assms(3) by (intro two_in_flight) simp_all
  moreover have "\<not> has_admin (apply_change ?d (apply_change ?c db))"
  proof -
    have "u = a \<or> u = b" if "u \<in> set (users db)" "enabled_admin u" for u using assms(2) that by blast
    then show ?thesis
      by (auto simp: has_admin_def apply_change_def write_role_def update_user_def set_sql_update enabled_admin_def role_names)
  qed
  ultimately show ?thesis by blast
qed

theorem concurrent_demotions_lock_everyone_out_witness:
  "\<exists>db'. interleaved\<^sup>*\<^sup>* (sample_auth_db, []) (db', []) \<and> \<not> has_admin db'"
proof (rule concurrent_demotions_lock_everyone_out [OF sample_auth_inv])
  show "{u \<in> set (users sample_auth_db). enabled_admin u} = {sample_user 1 ''ann'', sample_user 2 ''bob''}"
    by (auto simp: auth_samples enabled_admin_def)
  show "us_id (sample_user 1 ''ann'') \<noteq> us_id (sample_user 2 ''bob'')" by (simp add: auth_samples)
qed

subsection \<open>Credentials\<close>

text \<open>
  C16: a request with a bearer token runs with no capability beyond the scope of the token and the
  role its owner holds now, and only while the owner is enabled and the token neither revoked nor
  past its deadline; the principal is never a session.
\<close>

theorem token_never_exceeds_its_owner:
  assumes "auth_inv db" and "resolve env rq db = (Ok p, db')" and "bearerToken rq \<noteq> []"
  shows "pr_Kind p = ''token'' \<and>
    (\<exists>row \<in> set (api_tokens db). \<exists>r \<in> set (users db).
       tk_token_hash row = HashToken (e_lib env) (bearerToken rq) \<and> us_id r = tk_user_id row \<and> us_disabled r = 0 \<and>
       tk_revoked row \<noteq> 1 \<and> (tk_expires_at row \<le> 0 \<or> rq_now rq \<le> of_unix (tk_expires_at row)) \<and>
       rolePermissions (pr_Role p) \<subseteq> rolePermissions (tk_role row) \<inter> rolePermissions (us_role r))"
proof -
  obtain t u role where r: "ResolveAPIToken (e_lib env) (bearerToken rq) (rq_now rq) db = (Ok (t, u, role), db')"
    and p: "pr_Role p = role" "pr_Kind p = ''token''"
    by (rule resolve_bearer_Ok [OF assms(2,3)])
  show ?thesis
  proof (rule ResolveAPIToken_Ok [OF r])
    fix row v
    assume row: "row \<in> set (api_tokens db)" "tk_token_hash row = HashToken (e_lib env) (bearerToken rq)"
      "tk_revoked row \<noteq> 1" "0 < tk_expires_at row \<Longrightarrow> rq_now rq \<le> of_unix (tk_expires_at row)"
      and v: "v \<in> set (users db)" "us_id v = tk_user_id row" "us_disabled v \<noteq> 1"
      and role: "role = (if roleAtMost (tk_role row) (us_role v) then tk_role row else us_role v)"
    have valid: "role_Valid (tk_role row)" "role_Valid (us_role v)" "us_disabled v = 0"
      using assms(1) row(1) v(1,3) by (auto simp: auth_inv_def users_inv_def keys_inv_def)
    have "roleAtMost (us_role v) (tk_role row)" if "\<not> roleAtMost (tk_role row) (us_role v)"
      using that by (simp add: roleAtMost_def)
    with role valid have "rolePermissions role \<subseteq> rolePermissions (tk_role row) \<inter> rolePermissions (us_role v)"
      using roleAtMost_permissions by (auto split: if_splits)
    moreover have "tk_expires_at row \<le> 0 \<or> rq_now rq \<le> of_unix (tk_expires_at row)" using row(4) by linarith
    ultimately show ?thesis using row v valid p by blast
  qed
qed

definition sample_request :: http_request where
  "sample_request =
     \<lparr> rq_Method = ''GET'', rq_Header = (\<lambda>h. if h = ''Authorization'' then ''Bearer vpsd_abcdefgh'' else []),
       rq_Cookie = (\<lambda>c. None), rq_Query = (\<lambda>q. []), rq_ClientIP = ''::1'', rq_UserAgent = [], rq_now = 2 * second \<rparr>"

lemma sample_resolved: "is_ok (fst (resolve sample_env sample_request sample_auth_db))"
  by code_simp

theorem token_never_exceeds_its_owner_witness:
  "\<exists>p db'. resolve sample_env sample_request sample_auth_db = (Ok p, db') \<and> pr_Kind p = ''token''"
proof -
  obtain p db' where r: "resolve sample_env sample_request sample_auth_db = (Ok p, db')"
    using sample_resolved by (cases "resolve sample_env sample_request sample_auth_db") (auto simp: is_ok_iff)
  have "bearerToken sample_request \<noteq> []" by code_simp
  from token_never_exceeds_its_owner [OF sample_auth_inv r this] r show ?thesis by blast
qed

text \<open>
  C17: a password alone elevates nothing: if a session is elevated after any sequence of operations
  and was not before, the second factor was verified for it on the way, at a moment when the TOTP
  library accepted the code for the account or the account had an unused recovery code of that text.
\<close>

theorem elevation_needs_a_second_factor:
  assumes "(sid, i) \<in> elevated (run_trace lib otp sv tr db)" and "(sid, i) \<notin> elevated db"
  shows "\<exists>pre now j code post. tr = pre @ (DoVerify sid j code, now) # post \<and>
    (totp_accepts otp sv j (strip_code code) now (run_trace lib otp sv pre db) \<or>
     (\<exists>c \<in> set (recovery_codes (run_trace lib otp sv pre db)). usable_code lib j (strip_code code) c))"
proof -
  obtain pre now j code post where v: "tr = pre @ (DoVerify sid j code, now) # post"
    "fst (VerifySecondFactor lib otp sv sid j code now (run_trace lib otp sv pre db)) = Ok ()"
    using run_trace_elevated [OF assms] unfolding fst_conv by blast
  then have "VerifySecondFactor lib otp sv sid j code now (run_trace lib otp sv pre db)
      = (Ok (), snd (VerifySecondFactor lib otp sv sid j code now (run_trace lib otp sv pre db)))"
    by (simp add: prod_eq_iff)
  from VerifySecondFactor_Ok [OF this] v(1) show ?thesis by blast
qed

definition sample_verified :: auth_db where
  "sample_verified = run_trace sample_lib sample_totp sample_service [(DoVerify ''s'' 1 ''c'', 2 * second)] sample_auth_db"

lemma sample_verify: "list_ex (\<lambda>s. se_id s = ''s'' \<and> se_user_id s = 1 \<and> se_twofa_passed s = 1) (sessions sample_verified)"
  by code_simp

theorem elevation_needs_a_second_factor_witness:
  "\<exists>pre now j code post. [(DoVerify ''s'' 1 ''c'', 2 * second)] = pre @ (DoVerify ''s'' j code, now) # post \<and>
    (totp_accepts sample_totp sample_service j (strip_code code) now (run_trace sample_lib sample_totp sample_service pre sample_auth_db) \<or>
     (\<exists>c \<in> set (recovery_codes (run_trace sample_lib sample_totp sample_service pre sample_auth_db)).
        usable_code sample_lib j (strip_code code) c))"
proof (rule elevation_needs_a_second_factor [where i = 1])
  have "(''s'', 1) \<in> elevated sample_verified"
    using sample_verify by (force simp: elevated_def list_ex_iff)
  then show "(''s'', 1) \<in> elevated (run_trace sample_lib sample_totp sample_service [(DoVerify ''s'' 1 ''c'', 2 * second)] sample_auth_db)"
    by (simp only: sample_verified_def)
  show "(''s'', 1) \<notin> elevated sample_auth_db" by (simp add: elevated_def auth_samples)
qed

text \<open>
  C18: a recovery code works once: after an attempt that was accepted on a recovery code, no attempt
  with the same code is accepted on it again, whatever happens in between, until the account's codes
  are renewed.
\<close>

theorem recovery_code_works_once:
  assumes "auth_inv db" and "unix now \<noteq> 0"
    and "\<not> totp_accepts otp sv i (strip_code code) now db"
    and "VerifySecondFactor lib otp sv sid i code now db = (Ok (), db')"
    and "list_all (\<lambda>(a, t). \<not> renews_codes i a \<and> unix t \<noteq> 0) tr"
    and "\<not> totp_accepts otp sv i (strip_code code) later (run_trace lib otp sv tr db')"
  shows "fst (VerifySecondFactor lib otp sv sid' i code later (run_trace lib otp sv tr db')) = Err ErrInvalidTOTP"
proof -
  let ?c = "strip_code code" and ?used = "snd (consumeRecoveryCode lib i (strip_code code) now db)"
  have db': "db' = snd (elevate sid i now ?used)"
    using assms(3,4) by (auto simp: VerifySecondFactor_def Let_def split: prod.splits if_splits dest!: sym [of "elevate _ _ _ _"])
  have "HashToken lib ?c \<notin> usable_codes i ?used"
    using consume_uses_up [OF assms(2), of _ lib i ?c db] by (auto simp: usable_codes_def usable_code_def)
  moreover have inv: "auth_inv db'"
    unfolding db' by (intro elevate_frame(1) consume_frame(1) assms(1))
  moreover have "usable_codes i db' = usable_codes i ?used"
    unfolding db' by (rule usable_codes_cong [OF elevate_frame(4)])
  ultimately have "HashToken lib ?c \<notin> usable_codes i (run_trace lib otp sv tr db')"
    using run_trace_codes [OF inv assms(5), of lib otp sv] by blast
  then have "\<forall>c \<in> set (recovery_codes (run_trace lib otp sv tr db')). \<not> usable_code lib i ?c c"
    by (auto simp: usable_codes_def usable_code_def)
  then have "\<not> fst (consumeRecoveryCode lib i ?c later (run_trace lib otp sv tr db'))"
    using consume_needs_code by blast
  with assms(6) show ?thesis by (auto simp: VerifySecondFactor_def Let_def split: prod.splits)
qed

lemma sample_used:
  "is_ok (fst (VerifySecondFactor sample_lib sample_totp sample_service ''s'' 1 ''c'' (2 * second) sample_auth_db))"
  by code_simp

theorem recovery_code_works_once_witness:
  "\<exists>db'. VerifySecondFactor sample_lib sample_totp sample_service ''s'' 1 ''c'' (2 * second) sample_auth_db = (Ok (), db') \<and>
     fst (VerifySecondFactor sample_lib sample_totp sample_service ''s'' 1 ''c'' (3 * second) db') = Err ErrInvalidTOTP"
proof -
  obtain db' where v: "VerifySecondFactor sample_lib sample_totp sample_service ''s'' 1 ''c'' (2 * second) sample_auth_db = (Ok (), db')"
    using sample_used by (cases "VerifySecondFactor sample_lib sample_totp sample_service ''s'' 1 ''c'' (2 * second) sample_auth_db")
      (auto simp: is_ok_iff)
  have u: "unix (2 * second) \<noteq> 0" by (simp add: unix_def second_def)
  have none: "totpSecret sample_service 1 sample_auth_db = Err (ErrText ''no enrollment in progress'')"
    by (simp add: totpSecret_def auth_samples)
  have n1: "\<not> totp_accepts sample_totp sample_service 1 (strip_code ''c'') (2 * second) sample_auth_db"
    by (simp add: totp_accepts_def none)
  have "map us_totp_secret (users (snd (VerifySecondFactor sample_lib sample_totp sample_service ''s'' 1 ''c'' (2 * second) sample_auth_db))) = [[], []]"
    by code_simp
  then have "map us_totp_secret (users db') = [[], []]" using v by simp
  then have "totpSecret sample_service 1 db' = Err ErrNotFound \<or>
      totpSecret sample_service 1 db' = Err (ErrText ''no enrollment in progress'')"
    by (auto simp: totpSecret_def Cons_eq_map_conv map_eq_Cons_conv split: option.splits if_splits)
  then have n2: "\<not> totp_accepts sample_totp sample_service 1 (strip_code ''c'') (3 * second)
      (run_trace sample_lib sample_totp sample_service [] db')"
    by (auto simp: totp_accepts_def)
  show ?thesis using recovery_code_works_once [OF sample_auth_inv u n1 v _ n2] v by auto
qed

subsection \<open>Revocation and lockout\<close>

text \<open>
  Disabling an account works at once and lasts: until it is enabled again neither a session nor
  a token nor a new login of that account is accepted, whatever else happens.
\<close>

theorem disabled_account_is_shut_out:
  assumes "auth_inv db" and "SetDisabled i True db = (Ok (), db1)"
    and "list_all (\<lambda>(a, t). \<not> unblocks i a) tr" and "db2 = run_trace lib otp sv tr db1"
  shows "\<not> (\<exists>sess u. fst (ResolveSession lib sv token now db2) = Ok (sess, u) \<and> usr_ID u = i) \<and>
    \<not> (\<exists>tok u role. fst (ResolveAPIToken lib presented now db2) = Ok (tok, u, role) \<and> usr_ID u = i) \<and>
    \<not> (\<exists>res. fst (Login lib sv tb ib name pw ip ua now db2) = Ok res \<and> usr_ID (lr_User res) = i)"
proof -
  have guard: "guardLastAdmin i db = Ok ()"
    using assms(2) by (cases "guardLastAdmin i db") (simp_all add: SetDisabled_def)
  then have "snd (SetDisabled i True db) = snd (RevokeAllSessions i (write_disabled i True db))"
    by (simp add: SetDisabled_def Let_def)
  then have db1: "db1 = snd (RevokeAllSessions i (write_disabled i True db))"
    unfolding assms(2) snd_conv .
  obtain r where "r \<in> set (users db)" "us_id r = i"
    using guard by (auto simp: guardLastAdmin_def split: option.splits dest: find_Some_in)
  then have "i < next_user db" using assms(1) by (auto simp: auth_inv_def users_inv_def)
  from write_disabled_blocked [OF this] have "blocked i db1" unfolding db1 .
  then have b: "blocked i db2" using run_trace_blocked assms(3,4) by blast
  have "us_disabled u = 1" if "u \<in> set (users db2)" "us_id u = i" for u
    using b that by (simp add: blocked_def)
  then have dis: False if "u \<in> set (users db2)" "us_id u = i" "us_disabled u \<noteq> 1" for u
    using that by blast
  have 1: "\<not> (\<exists>sess u. fst (ResolveSession lib sv token now db2) = Ok (sess, u) \<and> usr_ID u = i)"
  proof clarify
    fix sess u assume "fst (ResolveSession lib sv token now db2) = Ok (sess, u)" and i: "i = usr_ID u"
    then obtain db3 where "ResolveSession lib sv token now db2 = (Ok (sess, u), db3)" by (metis prod.collapse)
    then show False
      by (rule ResolveSession_Ok) (use dis i in \<open>auto simp: scanUser_def\<close>)
  qed
  have 2: "\<not> (\<exists>tok u role. fst (ResolveAPIToken lib presented now db2) = Ok (tok, u, role) \<and> usr_ID u = i)"
  proof clarify
    fix tok u role assume "fst (ResolveAPIToken lib presented now db2) = Ok (tok, u, role)" and i: "i = usr_ID u"
    then obtain db3 where "ResolveAPIToken lib presented now db2 = (Ok (tok, u, role), db3)" by (metis prod.collapse)
    then show False
      by (rule ResolveAPIToken_Ok) (use dis i in \<open>auto simp: scanUser_def\<close>)
  qed
  have "us_id row \<noteq> i \<or> us_disabled row = 1" if "login_row lib name db2 = Some row" for row
    using that dis by (auto simp: login_row_def dest: find_Some_in)
  then have 3: "\<not> (\<exists>res. fst (Login lib sv tb ib name pw ip ua now db2) = Ok res \<and> usr_ID (lr_User res) = i)"
    by (fastforce simp: Login_def login_with_def Let_def bindd_def scanUser_def split: option.splits prod.splits sum.splits if_splits)
  from 1 2 3 show ?thesis by blast
qed

lemma sample_disabled: "is_ok (fst (SetDisabled 1 True sample_auth_db))"
  by code_simp

theorem disabled_account_is_shut_out_witness:
  "\<exists>db1. SetDisabled 1 True sample_auth_db = (Ok (), db1) \<and>
     (\<forall>now. \<not> (\<exists>tok u role. fst (ResolveAPIToken sample_lib ''vpsd_abcdefgh'' now db1) = Ok (tok, u, role) \<and> usr_ID u = 1))"
proof -
  obtain db1 where d: "SetDisabled 1 True sample_auth_db = (Ok (), db1)"
    using sample_disabled by (cases "SetDisabled 1 True sample_auth_db") (auto simp: is_ok_iff)
  from disabled_account_is_shut_out [OF sample_auth_inv d, of "[]"] d show ?thesis by auto
qed

definition guess :: "crypto_lib \<Rightarrow> Service \<Rightarrow> string \<Rightarrow> string \<times> go_time \<Rightarrow> auth_db \<Rightarrow> auth_db" where
  "guess lib sv name g db = snd (Login lib sv [] [] name (fst g) [] [] (snd g) db)"

lemma guess_wrong:
  assumes "login_row lib name db = Some row" "us_locked_until row \<le> unix (snd g)" "us_disabled row \<noteq> 1"
    "\<not> VerifyPassword lib (fst g) (us_password_hash row)"
  shows "login_row lib name (guess lib sv name g db)
    = Some (row\<lparr>us_failed_count := fst (failed_login row (snd g)), us_locked_until := snd (failed_login row (snd g))\<rparr>)"
  using login_with_wrong [OF assms(2-4)] login_row_set_lock [OF assms(1)] assms(1)
  by (simp add: guess_def Login_def)

lemma guesses_wrong:
  assumes "login_row lib name db = Some row" "us_locked_until row = 0" "us_failed_count row = int k" "us_disabled row = 0"
    and "list_all (\<lambda>g. \<not> VerifyPassword lib (fst g) (us_password_hash row) \<and> 0 \<le> unix (snd g)) gs" "k + length gs < 5"
  shows "login_row lib name (fold (guess lib sv name) gs db)
    = Some (row\<lparr>us_failed_count := int (k + length gs), us_locked_until := 0\<rparr>)"
  using assms
proof (induction gs arbitrary: db row k)
  case (Cons g gs)
  have f: "failed_login row (snd g) = (int (Suc k), 0)"
    using Cons.prems(3,6) by (simp add: failed_login_def maxFailedLogins_def)
  have "login_row lib name (guess lib sv name g db) = Some (row\<lparr>us_failed_count := int (Suc k), us_locked_until := 0\<rparr>)"
    using guess_wrong [OF Cons.prems(1), of g sv] Cons.prems(2,4,5) f by simp
  from Cons.IH [OF this, of "Suc k"] Cons.prems(4-6) show ?case by simp
qed simp

text \<open>
  C19: five wrong passwords in a row lock an account for fifteen minutes from the last one: until
  then every login is refused, with the right password too, and changes nothing.
\<close>

theorem five_failures_lock_the_account:
  assumes "login_row lib name db = Some row" "us_locked_until row = 0" "us_failed_count row = 0" "us_disabled row = 0"
    and "length gs = 5" "list_all (\<lambda>g. \<not> VerifyPassword lib (fst g) (us_password_hash row) \<and> 0 \<le> unix (snd g)) gs"
    and "unix now < unix (snd (last gs) + lockoutWindow)"
  shows "Login lib sv tb ib name pw ip ua now (fold (guess lib sv name) gs db)
    = (Err ErrAccountLocked, fold (guess lib sv name) gs db)"
proof -
  obtain gs' g where gs: "gs = gs' @ [g]" "length gs' = 4"
    using assms(5) by (cases gs rule: rev_cases) auto
  let ?db = "fold (guess lib sv name) gs' db"
  have row: "login_row lib name ?db = Some (row\<lparr>us_failed_count := 4, us_locked_until := 0\<rparr>)"
    using guesses_wrong [OF assms(1,2), of 0 gs' sv] assms(3,4,6) gs by simp
  let ?r = "row\<lparr>us_failed_count := 0, us_locked_until := unix (snd g + lockoutWindow)\<rparr>"
  have "login_row lib name (guess lib sv name g ?db) = Some ?r"
    using guess_wrong [OF row, of g sv] assms(4,6) gs(1) by (simp add: failed_login_def maxFailedLogins_def)
  moreover have "unix now < us_locked_until ?r" using assms(7) gs(1) by simp
  ultimately show ?thesis using gs(1) by (simp add: Login_def login_with_def Let_def)
qed

lemma sample_wrong: "\<not> VerifyPassword sample_lib pw ''h''"
  by (simp add: VerifyPassword_def)

theorem five_failures_lock_the_account_witness:
  "Login sample_lib sample_service [] [] ''ann'' ''right'' [] [] (200 * second)
     (fold (guess sample_lib sample_service ''ann'') (replicate 5 (''wrong'', 100 * second)) sample_auth_db)
   = (Err ErrAccountLocked, fold (guess sample_lib sample_service ''ann'') (replicate 5 (''wrong'', 100 * second)) sample_auth_db)"
proof (rule five_failures_lock_the_account)
  have "normalize_username sample_lib ''ann'' = ''ann''" by code_simp
  then show "login_row sample_lib ''ann'' sample_auth_db = Some (sample_user 1 ''ann'')"
    by (simp add: login_row_def auth_samples)
  show "list_all (\<lambda>g. \<not> VerifyPassword sample_lib (fst g) (us_password_hash (sample_user 1 ''ann'')) \<and> 0 \<le> unix (snd g))
      (replicate 5 (''wrong'', 100 * second))"
    using sample_wrong by (simp add: sample_user_def new_user_row_def unix_def second_def list_all_iff)
  show "unix (200 * second) < unix (snd (last (replicate 5 (''wrong'', 100 * second))) + lockoutWindow)"
    by (simp add: unix_def second_def lockoutWindow_def minute_def)
qed (simp_all add: sample_user_def new_user_row_def)

text \<open>
  The failures are counted only one after another. Requests that run side by side read the
  account before any of them writes, so any number of wrong guesses from one such read leaves the
  count where a single one would, and the account open.
\<close>

definition parallel_guess :: "crypto_lib \<Rightarrow> Service \<Rightarrow> user_row \<Rightarrow> string \<times> go_time \<Rightarrow> auth_db \<Rightarrow> auth_db" where
  "parallel_guess lib sv row g db = snd (login_with lib sv [] [] row (fst g) [] [] (snd g) db)"

theorem parallel_guesses_count_once:
  assumes "login_row lib name db = Some row" "us_failed_count row + 1 < maxFailedLogins" "us_disabled row = 0"
    and "list_all (\<lambda>g. \<not> VerifyPassword lib (fst g) (us_password_hash row) \<and> us_locked_until row \<le> unix (snd g)) gs"
    and "gs \<noteq> []"
  shows "login_row lib name (fold (parallel_guess lib sv row) gs db)
    = Some (row\<lparr>us_failed_count := us_failed_count row + 1, us_locked_until := 0\<rparr>)"
proof -
  have one: "parallel_guess lib sv row g db' = set_lock (us_id row) (us_failed_count row + 1) 0 db'"
    if "g \<in> set gs" for g db'
    using login_with_wrong [of row "snd g" lib "fst g"] assms(2-4) that
    by (auto simp: parallel_guess_def failed_login_def list_all_iff)
  have "login_row lib name (fold (parallel_guess lib sv row) gs' db')
      = Some (row\<lparr>us_failed_count := us_failed_count row + 1, us_locked_until := 0\<rparr>)"
    if "set gs' \<subseteq> set gs" "login_row lib name db' = Some (row\<lparr>us_failed_count := us_failed_count row + 1, us_locked_until := 0\<rparr>)"
    for gs' db'
    using that
  proof (induction gs' arbitrary: db')
    case (Cons g gs')
    have "login_row lib name (parallel_guess lib sv row g db')
        = Some (row\<lparr>us_failed_count := us_failed_count row + 1, us_locked_until := 0\<rparr>)"
      using login_row_set_lock [OF Cons.prems(2), of "us_failed_count row + 1" 0] one [of g db'] Cons.prems(1) by simp
    then show ?case using Cons.IH Cons.prems(1) by simp
  qed simp
  note many = this
  obtain g gs' where gs: "gs = g # gs'" using assms(5) by (cases gs) auto
  have "login_row lib name (parallel_guess lib sv row g db)
      = Some (row\<lparr>us_failed_count := us_failed_count row + 1, us_locked_until := 0\<rparr>)"
    using login_row_set_lock [OF assms(1), of "us_failed_count row + 1" 0] one [of g db] gs by simp
  from many [OF _ this, of gs'] gs show ?thesis by auto
qed

theorem parallel_guesses_count_once_witness:
  "login_row sample_lib ''ann'' (fold (parallel_guess sample_lib sample_service (sample_user 1 ''ann''))
      (replicate 1000 (''wrong'', 100 * second)) sample_auth_db)
   = Some ((sample_user 1 ''ann'')\<lparr>us_failed_count := 1, us_locked_until := 0\<rparr>)"
proof -
  have "normalize_username sample_lib ''ann'' = ''ann''" by code_simp
  then have row: "login_row sample_lib ''ann'' sample_auth_db = Some (sample_user 1 ''ann'')"
    by (simp add: login_row_def auth_samples)
  have "login_row sample_lib ''ann'' (fold (parallel_guess sample_lib sample_service (sample_user 1 ''ann''))
      (replicate 1000 (''wrong'', 100 * second)) sample_auth_db)
    = Some ((sample_user 1 ''ann'')\<lparr>us_failed_count := us_failed_count (sample_user 1 ''ann'') + 1, us_locked_until := 0\<rparr>)"
    by (rule parallel_guesses_count_once [OF row])
       (use sample_wrong in \<open>simp_all add: sample_user_def new_user_row_def maxFailedLogins_def list_all_iff unix_def second_def\<close>)
  then show ?thesis by (simp add: sample_user_def new_user_row_def)
qed

text \<open>
  The answer to a login tells whether the name exists: for an account that is locked or disabled
  it is another error, whatever the password, than for a name nobody has.
\<close>

theorem login_reveals_accounts:
  assumes "login_row lib known db = Some row" "us_disabled row = 1 \<or> unix now < us_locked_until row"
    and "login_row lib unknown db = None"
  shows "fst (Login lib sv tb ib known pw ip ua now db) \<in> {Err ErrAccountLocked, Err ErrAccountDisabled} \<and>
    fst (Login lib sv tb ib unknown pw ip ua now db) = Err ErrInvalidCredentials"
  using assms by (auto simp: Login_def login_with_def Let_def scanUser_def)

theorem login_reveals_accounts_witness:
  "fst (Login sample_lib sample_service [] [] ''ann'' ''pw'' [] [] 0 (set_lock 1 0 9 sample_auth_db))
     \<in> {Err ErrAccountLocked, Err ErrAccountDisabled} \<and>
   fst (Login sample_lib sample_service [] [] ''eve'' ''pw'' [] [] 0 (set_lock 1 0 9 sample_auth_db)) = Err ErrInvalidCredentials"
proof (rule login_reveals_accounts)
  have n: "normalize_username sample_lib ''ann'' = ''ann''" "normalize_username sample_lib ''eve'' = ''eve''"
    by code_simp+
  then have "login_row sample_lib ''ann'' sample_auth_db = Some (sample_user 1 ''ann'')"
    by (simp add: login_row_def auth_samples)
  from login_row_set_lock [OF this, of 0 9] show "login_row sample_lib ''ann'' (set_lock 1 0 9 sample_auth_db)
      = Some ((sample_user 1 ''ann'')\<lparr>us_failed_count := 0, us_locked_until := 9\<rparr>)"
    by (simp add: sample_user_def new_user_row_def)
  show "login_row sample_lib ''eve'' (set_lock 1 0 9 sample_auth_db) = None"
    using n by (simp add: login_row_def set_lock_def update_user_def auth_samples)
qed (simp add: unix_def)

subsection \<open>Secrets\<close>

text \<open>
  A password verifies against its stored hash, and another text does only if Argon2 maps both
  to the same key under the stored salt and parameters: what is printed is read back exactly.
\<close>

theorem password_hash_round_trip:
  assumes "\<And>pw salt t m p k. length (argon2_IDKey lib pw salt t m p k) = k" and "argon2_Version lib < 2 ^ 63"
  shows "VerifyPassword lib password (HashPassword lib salt password) \<and>
    (VerifyPassword lib attempt (HashPassword lib salt password) \<longleftrightarrow>
     argon2_IDKey lib attempt salt 3 65536 4 32 = argon2_IDKey lib password salt 3 65536 4 32)"
  using VerifyPassword_HashPassword [OF assms] by simp

theorem password_hash_round_trip_witness:
  "VerifyPassword sample_lib ''pw'' (HashPassword sample_lib ''salt'' ''pw'')"
proof -
  have "length (argon2_IDKey sample_lib pw salt t m p k) = k" for pw salt t m p k
    by (simp add: sample_lib_def)
  moreover have "argon2_Version sample_lib < 2 ^ 63" by (simp add: sample_lib_def)
  ultimately show ?thesis using password_hash_round_trip [of sample_lib] by blast
qed

lemma trim_space_digits:
  assumes "s \<noteq> []" "is_hex (hd s)" "is_hex (last s)"
  shows "trim_space s = s"
proof -
  have w: "\<forall>w \<in> set space_runes. w \<noteq> [] \<and> \<not> is_hex (hd w) \<and> \<not> is_hex (last w)" by code_simp
  have "\<not> has_prefix s w" if "w \<in> set space_runes" for w
    using w that assms(1,2) by (cases s; cases w) (auto simp: has_prefix_def)
  then have "find (\<lambda>w. has_prefix s w) space_runes = None" unfolding find_None_iff by blast
  then have "trim_left s = s" by (subst trim_left.simps) simp
  moreover have "\<not> has_prefix (rev s) (rev w)" if "w \<in> set space_runes" for w
    using w that assms(1,3) by (cases s rule: rev_cases; cases w rule: rev_cases) (auto simp: has_prefix_def)
  then have "find (\<lambda>w. has_prefix (rev s) (rev w)) space_runes = None" unfolding find_None_iff by blast
  then have "trim_left_rev (rev s) = rev s" by (subst trim_left_rev.simps) simp
  ultimately show ?thesis by (simp add: trim_space_def)
qed

text \<open>
  A master key of 32 bytes, given in hexadecimal, makes a sealer that opens again what it
  sealed, for every text, also the empty one; a key of another length is refused.
\<close>

theorem sealed_secret_opens:
  assumes "aead_inverse (gcm lib key)" and "length nonce = aead_NonceSize (gcm lib key)" and "nonce \<noteq> []" and "key \<noteq> []"
  shows "if length key = 32
    then \<exists>sl. NewSealer lib (hex_encode key) = Ok sl \<and> Open sl (Seal sl nonce plaintext) = Ok plaintext
    else \<exists>e. NewSealer lib (hex_encode key) = Err e"
proof -
  obtain b bs b' bs' where key: "key = b # bs" "key = bs' @ [b']"
    using assms(4) by (metis list.exhaust rev_exhaust)
  have "hd (hex_encode key) = hex_digit (of_char b div 16)" by (simp add: key(1) hex_encode_def)
  moreover have "last (hex_encode key) = hex_digit (of_char b')" by (simp add: key(2) hex_encode_def)
  moreover have "hex_encode key \<noteq> []" by (simp add: key(1) hex_encode_def)
  ultimately have "trim_space (hex_encode key) = hex_encode key" by (simp add: trim_space_digits)
  then have new: "NewSealer lib (hex_encode key) = (if length key \<noteq> 32
      then Err (ErrText (''master key must decode to 32 bytes, got '' @ nat_dec (length key)))
      else Ok \<lparr> sealer_aead = gcm lib key \<rparr>)"
    by (simp add: NewSealer_def hex_decode_encode)
  show ?thesis using Open_Seal [of "\<lparr> sealer_aead = gcm lib key \<rparr>" nonce plaintext] assms(1-3) by (simp add: new)
qed

theorem sealed_secret_opens_witness:
  "\<exists>sl. NewSealer sample_lib (hex_encode (replicate 32 (CHR ''k''))) = Ok sl \<and> Open sl (Seal sl ''n'' ''secret'') = Ok ''secret''"
proof -
  have "aead_inverse (gcm sample_lib (replicate 32 (CHR ''k'')))"
    "length ''n'' = aead_NonceSize (gcm sample_lib (replicate 32 (CHR ''k'')))"
    by (simp_all add: aead_inverse_def sample_aead_def sample_lib_def)
  from sealed_secret_opens [OF this] show ?thesis by simp
qed

subsection \<open>The gate in front of account administration\<close>

text \<open>
  C20: the body of an account administration route runs only for a live session whose second factor
  was proved, of an account that is an enabled administrator at this moment, and, unless the method
  is safe, with the CSRF header; otherwise the answer is 401, 403 or 429 and no account and no
  recovery code changed.
\<close>

theorem only_administrators_reach_account_administration:
  "(\<exists>p s' row r. users_group env h rq ctx s = h rq (Some p) s' \<and> pr_SessionID p = se_id row \<and>
      row \<in> set (sessions (w_db s)) \<and> r \<in> set (users (w_db s)) \<and>
      se_token_hash row = HashToken (e_lib env) (sessionToken rq) \<and> se_twofa_passed row = 1 \<and>
      rq_now rq \<le> of_unix (se_expires_at row) \<and> rq_now rq - of_unix (se_last_seen_at row) \<le> sv_idleTTL (e_svc env) \<and>
      us_id r = se_user_id row \<and> us_role r = RoleAdmin \<and> us_disabled r \<noteq> 1 \<and>
      (csrfSafeMethod (rq_Method rq) \<or> rq_Header rq ''X-JD-CSRF'' = ''1'')) \<or>
   (rs_Status (fst (users_group env h rq ctx s)) \<in> {401, 403, 429} \<and>
    users (w_db (snd (users_group env h rq ctx s))) = users (w_db s) \<and>
    recovery_codes (w_db (snd (users_group env h rq ctx s))) = recovery_codes (w_db s))"
proof -
  obtain res db where res: "resolve env rq (w_db s) = (res, db)" by (cases "resolve env rq (w_db s)")
  have frame: "users db = users (w_db s)" "recovery_codes db = recovery_codes (w_db s)"
    using resolve_frame [of env rq "w_db s"] res by auto
  show ?thesis
  proof (cases res)
    case (Inl e)
    with res resolve_status [of env rq "w_db s" e db] frame show ?thesis
      by (auto simp: users_group_def api_group_def Authenticate_def WriteError_def http_JSON_def)
  next
    case (Inr p)
    obtain ok l where lim: "Allow (e_rate env) (principal_key p rq) (rq_now rq) (w_apiLim s) = (ok, l)" by fastforce
    let ?s = "(s\<lparr>w_db := db\<rparr>)\<lparr>w_apiLim := l\<rparr>"
    have eq: "users_group env h rq ctx s = (if \<not> ok then (reject, ?s)
        else RequireCSRF (RequireCapability CapSystemAdmin (RequireSession h)) rq (Some p) ?s)"
      using res Inr lim by (simp add: users_group_def api_group_def Authenticate_def ByPrincipal_api_def MustPrincipal_def)
    show ?thesis
    proof (cases "ok \<and> pr_Kind p = ''session'' \<and> principal_Can p CapSystemAdmin \<and>
        (csrfSafeMethod (rq_Method rq) \<or> rq_Header rq ''X-JD-CSRF'' = ''1'')")
      case True
      then have run: "users_group env h rq ctx s = h rq (Some p) ?s"
        by (auto simp: eq RequireCSRF_def RequireCapability_def RequireSession_def MustPrincipal_def)
      obtain sess u where sess: "ResolveSession (e_lib env) (e_svc env) (sessionToken rq) (rq_now rq) (w_db s) = (Ok (sess, u), db)"
        "ses_TwoFAPassed sess" "p = session_principal rq sess u"
        by (rule resolve_Ok [of env rq "w_db s" p db]) (use res Inr True in auto)
      show ?thesis
      proof (rule ResolveSession_Ok [OF sess(1)], rule disjI1)
        fix row r
        assume row: "row \<in> set (sessions (w_db s))" "se_token_hash row = HashToken (e_lib env) (sessionToken rq)"
          "rq_now rq \<le> of_unix (se_expires_at row)" "rq_now rq - of_unix (se_last_seen_at row) \<le> sv_idleTTL (e_svc env)"
          "r \<in> set (users (w_db s))" "us_id r = se_user_id row" "us_disabled r \<noteq> 1" "u = scanUser r"
          "ses_ID sess = se_id row" "ses_TwoFAPassed sess = (se_twofa_passed row = 1)"
        have "us_role r = RoleAdmin"
          using True row(8) sess(3)
          by (auto simp: principal_Can_def role_Can_def session_principal_def scanUser_def rolePermissions_def split: if_splits)
        with run row sess True show "\<exists>p s' row r. users_group env h rq ctx s = h rq (Some p) s' \<and> pr_SessionID p = se_id row \<and>
          row \<in> set (sessions (w_db s)) \<and> r \<in> set (users (w_db s)) \<and>
          se_token_hash row = HashToken (e_lib env) (sessionToken rq) \<and> se_twofa_passed row = 1 \<and>
          rq_now rq \<le> of_unix (se_expires_at row) \<and> rq_now rq - of_unix (se_last_seen_at row) \<le> sv_idleTTL (e_svc env) \<and>
          us_id r = se_user_id row \<and> us_role r = RoleAdmin \<and> us_disabled r \<noteq> 1 \<and>
          (csrfSafeMethod (rq_Method rq) \<or> rq_Header rq ''X-JD-CSRF'' = ''1'')"
          by (intro exI [of _ p] exI [of _ ?s] exI [of _ row] exI [of _ r]) (simp add: session_principal_def)
      qed
    next
      case False
      then show ?thesis
        using frame by (auto simp: eq reject_def RequireCSRF_def RequireCapability_def RequireSession_def MustPrincipal_def
            WriteError_def http_JSON_def http_Err_def)
    qed
  qed
qed

subsection \<open>Deadlines of tokens\<close>

lemma token_ttl_wraps:
  assumes "106752 \<le> days" "days \<le> 213503"
  shows "token_ttl days < 0"
proof -
  have "(86400000000000 * days + 9223372036854775808) mod 18446744073709551616
      = (86400000000000 * days + 9223372036854775808 - 18446744073709551616) mod 18446744073709551616"
    by (rule minus_mod_self2 [symmetric])
  also have "\<dots> = 86400000000000 * days + 9223372036854775808 - 18446744073709551616"
    by (rule mod_pos_pos_trivial) (use assms in auto)
  finally show ?thesis using assms
    by (simp add: token_ttl_def wrap64_def minute_def second_def)
qed

lemma CreateAPIToken_no_deadline:
  assumes "auth_inv db" and "CreateAPIToken lib sb u name role ttl now db = (Ok (tok, secret), db')" and "ttl \<le> 0"
  shows "tok_ExpiresAt tok = None"
proof -
  let ?row = "\<lparr> tk_id = 0, tk_user_id = usr_ID u, tk_name = trim_space name,
      tk_prefix = take (length tokenPrefix + 8) (tokenPrefix @ RandomToken sb),
      tk_token_hash = HashToken lib (tokenPrefix @ RandomToken sb), tk_role = role, tk_created_at = unix now,
      tk_expires_at = 0, tk_last_used_at = 0, tk_revoked = 0 \<rparr>"
  obtain i db1 where ins: "insert_token ?row db = (Ok i, db1)" and tok: "apiTokenByID i db1 = Ok tok"
    using assms(2,3) by (auto simp: CreateAPIToken_def Let_def bindd_def split: if_splits prod.splits sum.splits)
  have "api_tokens db1 = api_tokens db @ [?row\<lparr>tk_id := i\<rparr>]" "i = next_token db"
    using ins by (auto simp: insert_token_def split: if_splits)
  moreover have "\<forall>t \<in> set (api_tokens db). tk_id t \<noteq> next_token db"
    using assms(1) by (auto simp: auth_inv_def keys_inv_def)
  then have "find (\<lambda>t. tk_id t = next_token db) (api_tokens db) = None"
    unfolding find_None_iff by blast
  ultimately have "tok = scanAPIToken (?row\<lparr>tk_id := i\<rparr>)"
    using tok by (simp add: apiTokenByID_def find_append)
  then show ?thesis by (simp add: scanAPIToken_def)
qed

text \<open>
  The lifetime of a token wraps around: a request for 106752 to 213503 days, about 292 to 585
  years, is answered with a token that has no deadline at all.
\<close>

theorem long_token_lifetime_wraps:
  assumes "auth_inv (w_db s)" and "106752 \<le> ct_TTLDays req" "ct_TTLDays req \<le> 213503"
    and "handleCreateToken env sb (Ok req) rq ctx s = (resp, s')" and "rs_Body resp = TokenBody tok secret"
  shows "tok_ExpiresAt tok = None"
proof -
  obtain u where u: "pr_User (MustPrincipal ctx) = Some u"
    using assms(4,5) by (cases "pr_User (MustPrincipal ctx)") (auto simp: handleCreateToken_def WriteError_def http_JSON_def)
  let ?r = "CreateAPIToken (e_lib env) sb u (ct_Name req) (ct_Role req) (token_ttl (ct_TTLDays req)) (rq_now rq) (w_db s)"
  have "\<exists>db. ?r = (Ok (tok, secret), db)"
    using assms(4,5) u
    by (cases ?r; cases "fst ?r") (auto simp: handleCreateToken_def Let_def WriteError_def http_JSON_def)
  then show ?thesis
    using CreateAPIToken_no_deadline [OF assms(1)] token_ttl_wraps [OF assms(2,3)] by fastforce
qed

definition sample_session_ctx :: "Principal option" where
  "sample_session_ctx =
     Some \<lparr> pr_User = Some (scanUser (sample_user 1 ''ann'')), pr_Role = RoleAdmin, pr_SessionID = ''s'', pr_TokenID = 0,
            pr_Kind = ''session'', pr_IP = [], pr_UserAgent = [] \<rparr>"

definition sample_token_request :: createTokenRequest where
  "sample_token_request = \<lparr> ct_Name = ''ci'', ct_Role = RoleReadOnly, ct_TTLDays = 110000 \<rparr>"

lemma sample_token_created:
  "is_ok (fst (CreateAPIToken sample_lib ''key'' (scanUser (sample_user 1 ''ann'')) ''ci'' RoleReadOnly
     (token_ttl 110000) (2 * second) sample_auth_db))"
  by code_simp

theorem long_token_lifetime_wraps_witness:
  "\<exists>resp s' tok secret. handleCreateToken sample_env ''key'' (Ok sample_token_request) sample_request sample_session_ctx sample_web = (resp, s') \<and>
     rs_Body resp = TokenBody tok secret \<and> tok_ExpiresAt tok = None"
proof -
  obtain tok secret db where c: "CreateAPIToken sample_lib ''key'' (scanUser (sample_user 1 ''ann'')) ''ci'' RoleReadOnly
     (token_ttl 110000) (2 * second) sample_auth_db = (Ok (tok, secret), db)"
    using sample_token_created
    by (cases "CreateAPIToken sample_lib ''key'' (scanUser (sample_user 1 ''ann'')) ''ci'' RoleReadOnly
       (token_ttl 110000) (2 * second) sample_auth_db") (auto simp: is_ok_iff)
  then have h: "handleCreateToken sample_env ''key'' (Ok sample_token_request) sample_request sample_session_ctx sample_web
      = (http_JSON 201 (TokenBody tok secret), sample_web\<lparr>w_db := db\<rparr>)"
    by (simp add: handleCreateToken_def sample_session_ctx_def sample_token_request_def sample_env_def sample_web_def
        sample_request_def MustPrincipal_def Let_def)
  have b: "rs_Body (http_JSON 201 (TokenBody tok secret)) = TokenBody tok secret" by (simp add: http_JSON_def)
  have inv: "auth_inv (w_db sample_web)" by (simp add: sample_web_def sample_auth_inv)
  from long_token_lifetime_wraps [OF inv _ _ h b] h b show ?thesis by (auto simp: sample_token_request_def)
qed

end
