(* ===== verification/Deploy_Variables.thy ===== *)
theory Deploy_Variables
  imports Deploy_Store Go_Codec
begin

text \<open>
  Deployment variables as text (deploy/configuration_store.go, planning_model.go, model.go): the
  names an environment accepts, the typed references \<open>${{kind.target}}\<close>, the validation of one
  write, and the parser of dotenv files. A text is its list of bytes. The parser is the code's loop
  over an offset, written as a recursion over the rest of the input; the map it fills is an
  association list in the order of the entries. An error carries the text of its message, with a
  quoted name written as it is.
  The lemmas bound what the parser accepts and show that every set of variables can be written
  down so that it is read back.
\<close>

subsection \<open>Names\<close>

definition ascii_alpha :: "char \<Rightarrow> bool" where
  "ascii_alpha c = (CHR ''A'' \<le> c \<and> c \<le> CHR ''Z'' \<or> CHR ''a'' \<le> c \<and> c \<le> CHR ''z'')"

definition env_key_char :: "char \<Rightarrow> bool" where
  "env_key_char c = (ascii_alpha c \<or> is_digit c \<or> c = CHR ''_'')"

text \<open>The expression \<open>^[A-Za-z_][A-Za-z0-9_]{0,127}$\<close>.\<close>

definition envKeyRe :: "string \<Rightarrow> bool" where
  "envKeyRe s =
     (case s of [] \<Rightarrow> False
      | c # cs \<Rightarrow> (ascii_alpha c \<or> c = CHR ''_'') \<and> list_all env_key_char cs \<and> length cs \<le> 127)"

definition ValidateEnvKey :: "string \<Rightarrow> deploy_error + unit" where
  "ValidateEnvKey key =
     guardr (envKeyRe key) (ErrMessage (key @ '' is not a valid environment variable name''))"

subsection \<open>References\<close>

record VariableReference =
  vr_Kind :: string
  vr_Target :: string

definition ref_kind_char :: "char \<Rightarrow> bool" where
  "ref_kind_char c = (ascii_alpha c \<or> is_digit c \<or> c \<in> {CHR ''_'', CHR ''-''})"

definition ref_target_char :: "char \<Rightarrow> bool" where
  "ref_target_char c = (ascii_alpha c \<or> is_digit c \<or> c \<in> {CHR ''.'', CHR ''_'', CHR '':'', CHR ''-''})"

text \<open>
  The expression \<open>^\$\{\{[A-Za-z][A-Za-z0-9_-]{0,31}\.[A-Za-z0-9][A-Za-z0-9._:-]{0,222}\}\}$\<close>: the
  first class has no dot and the second no brace, so each part ends where its class does.
\<close>

definition plannedReferenceRE :: "string \<Rightarrow> bool" where
  "plannedReferenceRE s =
     (has_prefix s ''${{'' \<and>
      (let body = drop 3 s;
           kind = takeWhile (\<lambda>c. c \<noteq> CHR ''.'') body;
           rest = drop (length kind) body;
           target = takeWhile ref_target_char (tl rest) in
       kind \<noteq> [] \<and> ascii_alpha (hd kind) \<and> list_all ref_kind_char (tl kind) \<and> length kind \<le> 32 \<and>
       rest \<noteq> [] \<and> target \<noteq> [] \<and> (ascii_alpha (hd target) \<or> is_digit (hd target)) \<and>
       length target \<le> 223 \<and> drop (length target) (tl rest) = ''}}''))"

definition trim_suffix :: "string \<Rightarrow> string \<Rightarrow> string" where
  "trim_suffix s e = (if has_suffix s e then take (length s - length e) s else s)"

definition cut :: "char \<Rightarrow> string \<Rightarrow> (string \<times> string) option" where
  "cut sep s =
     (let front = takeWhile (\<lambda>c. c \<noteq> sep) s in
      case drop (length front) s of [] \<Rightarrow> None | _ # back \<Rightarrow> Some (front, back))"

definition nul_char :: char where
  "nul_char = CHR 0x00"

definition tab_char :: char where
  "tab_char = CHR 0x09"

definition newline_char :: char where
  "newline_char = CHR 0x0A"

definition return_char :: char where
  "return_char = CHR 0x0D"

lemmas control_chars = nul_char_def tab_char_def newline_char_def return_char_def

definition ParseVariableReference :: "string \<Rightarrow> deploy_error + VariableReference" where
  "ParseVariableReference value =
     (if \<not> plannedReferenceRE value then Err (ErrInvalidVariable ''malformed typed reference'')
      else case cut (CHR ''.'') (trim_suffix (trim_prefix value ''${{'') ''}}'') of
        None \<Rightarrow> Err (ErrInvalidVariable ''malformed typed reference'')
      | Some (kind, target) \<Rightarrow>
          if target = [] then Err (ErrInvalidVariable ''malformed typed reference'')
          else if kind = ''variable''
          then (if is_ok (ValidateEnvKey target) then Ok \<lparr> vr_Kind = kind, vr_Target = target \<rparr>
                else Err (ErrInvalidVariable ''variable reference target is invalid''))
          else if kind \<in> {''credential'', ''domain'', ''service'', ''database''}
          then (if 223 < length target \<or> nul_char \<in> set target \<or> return_char \<in> set target \<or> newline_char \<in> set target
                then Err (ErrInvalidVariable ''reference target is invalid'')
                else Ok \<lparr> vr_Kind = kind, vr_Target = target \<rparr>)
          else Err (ErrInvalidVariable (''unsupported reference kind '' @ kind)))"

text \<open>The parsed reference when the text is one; every caller tests only whether there was an error.\<close>

definition reference_of :: "string \<Rightarrow> VariableReference option" where
  "reference_of value = (case ParseVariableReference value of Inl _ \<Rightarrow> None | Inr r \<Rightarrow> Some r)"

lemma reference_of_eq:
  "reference_of v = Some r \<longleftrightarrow> ParseVariableReference v = Inr r"
  "reference_of v = None \<longleftrightarrow> (\<exists>e. ParseVariableReference v = Inl e)"
  by (auto simp: reference_of_def split: sum.splits)

subsection \<open>One write\<close>

definition maxDeploymentVariableValue :: nat where
  "maxDeploymentVariableValue = 65536"

definition maxDotenvBytes :: nat where
  "maxDotenvBytes = 262144"

text \<open>The comparisons, on integers where an evaluation meets them.\<close>

lemma maxDeploymentVariableValue_less [code_unfold]:
  "maxDeploymentVariableValue < n \<longleftrightarrow> (65536::int) < int n"
  by (simp add: maxDeploymentVariableValue_def)

lemma maxDotenvBytes_less [code_unfold]: "maxDotenvBytes < n \<longleftrightarrow> (262144::int) < int n"
  by (simp add: maxDotenvBytes_def)

record VariableWriteRequest =
  vw_Revision :: int
  vw_Value :: "string option"
  vw_Reference :: string
  vw_Sensitivity :: string
  vw_Scopes :: "string list"

fun validate_scopes :: "string list \<Rightarrow> string list \<Rightarrow> deploy_error + unit" where
  "validate_scopes [] seen = Ok ()"
| "validate_scopes (scope # scopes) seen =
     (if scope \<noteq> ''build'' \<and> scope \<noteq> ''runtime'' \<and> scope \<noteq> ''release_task'' \<or> scope \<in> set seen
      then Err (ErrInvalidVariable (''invalid or duplicate scope '' @ scope))
      else validate_scopes scopes (scope # seen))"

definition value_too_large :: "string \<Rightarrow> bool" where
  "value_too_large value \<longleftrightarrow> maxDeploymentVariableValue < length value \<or> nul_char \<in> set value"

definition validateVariableWrite :: "VariableWriteRequest \<Rightarrow> deploy_error + string" where
  "validateVariableWrite request =
     (if vw_Sensitivity request \<noteq> ''plain'' \<and> vw_Sensitivity request \<noteq> ''secret''
      then Err (ErrInvalidVariable ''sensitivity must be plain or secret'')
      else if vw_Scopes request = [] \<or> 3 < length (vw_Scopes request)
      then Err (ErrInvalidVariable ''at least one scope is required'')
      else bindr (validate_scopes (vw_Scopes request) []) (\<lambda>_.
        if (vw_Value request = None) = (vw_Reference request = [])
        then Err (ErrInvalidVariable ''provide exactly one value or reference'')
        else let value = (case vw_Value request of Some v \<Rightarrow> v | None \<Rightarrow> vw_Reference request) in
          if value_too_large value
          then Err (ErrInvalidVariable ''value is invalid or exceeds 64 KiB'')
          else if vw_Reference request \<noteq> []
          then bindr (ParseVariableReference (vw_Reference request)) (\<lambda>reference.
                 if (vr_Kind reference = ''credential'' \<or> vr_Kind reference = ''database'') \<and>
                    vw_Sensitivity request \<noteq> ''secret''
                 then Err (ErrInvalidVariable (vr_Kind reference @ '' references must be secret''))
                 else Ok value)
          else Ok value))"

subsection \<open>Dotenv files\<close>

definition blank :: "char \<Rightarrow> bool" where
  "blank c \<longleftrightarrow> c = CHR '' '' \<or> c = tab_char"

text \<open>\<open>strings.ReplaceAll\<close> of CR LF and then of CR by LF.\<close>

fun replace_crlf :: "string \<Rightarrow> string" where
  "replace_crlf (a # b # s) =
     (if a = return_char \<and> b = newline_char then newline_char # replace_crlf s else a # replace_crlf (b # s))"
| "replace_crlf s = s"

definition normalize_newlines :: "string \<Rightarrow> string" where
  "normalize_newlines s = map (\<lambda>c. if c = return_char then newline_char else c) (replace_crlf s)"

definition line_end :: "string \<Rightarrow> string" where
  "line_end s = dropWhile (\<lambda>c. c \<noteq> newline_char) s"

definition skip_newline :: "string \<Rightarrow> string" where
  "skip_newline s = (case s of c # r \<Rightarrow> if c = newline_char then r else s | [] \<Rightarrow> s)"

text \<open>
  The body of a quoted value: the text, the line on which it ends and the rest of the input, or
  nothing when the quote is never closed.
\<close>

definition unescape :: "char \<Rightarrow> string" where
  "unescape c =
     (if c = CHR ''n'' then [newline_char]
      else if c = CHR ''r'' then [return_char]
      else if c = CHR ''t'' then [tab_char]
      else if c = CHR 0x5C \<or> c = CHR 0x22 then [c]
      else [CHR 0x5C, c])"

definition prepend :: "string \<Rightarrow> (string \<times> 'a) option \<Rightarrow> (string \<times> 'a) option" where
  "prepend s r = map_option (\<lambda>(t, a). (s @ t, a)) r"

fun dotenv_quoted :: "char \<Rightarrow> nat \<Rightarrow> string \<Rightarrow> (string \<times> nat \<times> string) option" where
  "dotenv_quoted q line [] = None"
| "dotenv_quoted q line [ch] =
     (if ch = q then Some ([], line, []) else None)"
| "dotenv_quoted q line (ch # next # rest) =
     (if ch = q then Some ([], line, next # rest)
      else let line' = (if ch = newline_char then line + 1 else line) in
        if q = CHR 0x22 \<and> ch = CHR 0x5C
        then prepend (unescape next) (dotenv_quoted q line' rest)
        else prepend [ch] (dotenv_quoted q line' (next # rest)))"

definition dotenv_value :: "nat \<Rightarrow> string \<Rightarrow> deploy_error + string \<times> nat \<times> string" where
  "dotenv_value line s =
     (if s \<noteq> [] \<and> (hd s = CHR 0x27 \<or> hd s = CHR 0x22)
      then case dotenv_quoted (hd s) line (tl s) of
          None \<Rightarrow> Err (ErrInvalidVariable (''quoted value starting on line '' @ nat_dec line @ '' is not closed''))
        | Some (value, line', rest) \<Rightarrow>
            let after = dropWhile blank rest in
            if after \<noteq> [] \<and> hd after \<noteq> newline_char \<and> hd after \<noteq> CHR ''#''
            then Err (ErrInvalidVariable (''line '' @ nat_dec line' @ '' has text after its quoted value''))
            else Ok (value, line', if after \<noteq> [] \<and> hd after = CHR ''#'' then line_end after else after)
      else Ok (trim_space (takeWhile (\<lambda>c. c \<noteq> newline_char) s), line, line_end s))"

definition dotenv_entry ::
  "nat \<Rightarrow> (string \<times> string) list \<Rightarrow> string \<Rightarrow> deploy_error + string \<times> string \<times> nat \<times> string" where
  "dotenv_entry line result s0 =
     (let s = trim_prefix s0 ''export '';
          name = takeWhile (\<lambda>c. c \<noteq> CHR ''='' \<and> c \<noteq> newline_char) s;
          rest = drop (length name) s in
      if rest = [] \<or> hd rest \<noteq> CHR ''='' then Err (ErrInvalidVariable (''line '' @ nat_dec line @ '' needs NAME=value''))
      else let key = trim_space name in
        if \<not> is_ok (ValidateEnvKey key)
        then Err (ErrInvalidVariable (''line '' @ nat_dec line @ '' has invalid name '' @ key))
        else if key \<in> fst ` set result then Err (ErrInvalidVariable (''duplicate name '' @ key))
        else bindr (dotenv_value line (dropWhile blank (tl rest))) (\<lambda>(value, line', after).
          if value_too_large value
          then Err (ErrInvalidVariable (''value for '' @ key @ '' is invalid or exceeds 64 KiB''))
          else Ok (key, value, line', after)))"

lemma length_line_end: "length (line_end s) \<le> length s"
  by (simp add: line_end_def length_dropWhile_le)

lemma length_skip_newline: "length (skip_newline s) \<le> length s"
  by (auto simp: skip_newline_def split: list.splits)

lemma dotenv_quoted_shorter:
  "dotenv_quoted q line s = Some (v, line', rest) \<Longrightarrow> length rest < length s"
proof (induction q line s arbitrary: v line' rest rule: dotenv_quoted.induct)
  case (3 q line ch nxt s)
  show ?case
  proof (cases "ch = q")
    case True
    with "3.prems" show ?thesis by auto
  next
    case False
    with "3.prems" "3.IH" show ?thesis
      by (fastforce simp: prepend_def Let_def split: if_splits)
  qed
qed (auto split: if_splits)

lemma dotenv_value_shorter:
  assumes "dotenv_value line s = Ok (v, line', rest)"
  shows "length rest \<le> length s"
proof (cases "s \<noteq> [] \<and> (hd s = CHR 0x27 \<or> hd s = CHR 0x22)")
  case True
  with assms obtain after where "dotenv_quoted (hd s) line (tl s) = Some (v, line', after)"
    and rest: "rest = dropWhile blank after \<or> rest = line_end (dropWhile blank after)"
    by (auto simp: dotenv_value_def Let_def split: option.splits if_splits)
  then have "length after < length (tl s)" by (blast intro: dotenv_quoted_shorter)
  moreover have "length rest \<le> length after"
    using rest length_dropWhile_le [of blank after] length_line_end [of "dropWhile blank after"] by auto
  ultimately show ?thesis by simp
next
  case False
  with assms have "rest = line_end s" by (auto simp: dotenv_value_def)
  then show ?thesis by (simp add: length_line_end)
qed

lemma dotenv_entry_shorter:
  assumes "dotenv_entry line result s0 = Ok (k, v, line', rest)"
  shows "length rest < length s0"
proof -
  define s where "s = trim_prefix s0 ''export ''"
  define r where "r = drop (length (takeWhile (\<lambda>c. c \<noteq> CHR ''='' \<and> c \<noteq> newline_char) s)) s"
  have r: "r \<noteq> []" "dotenv_value line (dropWhile blank (tl r)) = Ok (v, line', rest)"
    using assms by (auto simp: dotenv_entry_def Let_def bindr_eq_Ok s_def r_def split: if_splits)
  have "length rest \<le> length (dropWhile blank (tl r))" by (rule dotenv_value_shorter [OF r(2)])
  also have "\<dots> \<le> length (tl r)" by (rule length_dropWhile_le)
  also have "\<dots> < length r" using r(1) by simp
  also have "\<dots> \<le> length s" by (simp add: r_def)
  also have "\<dots> \<le> length s0" by (simp add: s_def trim_prefix_def)
  finally show ?thesis .
qed

lemma line_end_comment: "s \<noteq> [] \<Longrightarrow> hd s \<noteq> newline_char \<Longrightarrow> length (line_end s) < length s"
  by (cases s) (auto simp: line_end_def le_imp_less_Suc length_dropWhile_le)

function dotenv_loop ::
  "nat \<Rightarrow> string \<Rightarrow> (string \<times> string) list \<Rightarrow> deploy_error + (string \<times> string) list" where
  "dotenv_loop line input result =
     (let s = dropWhile blank input in
      if s = [] then Ok result
      else if hd s = newline_char then dotenv_loop (line + 1) (tl s) result
      else if hd s = CHR ''#'' then dotenv_loop (line + 1) (skip_newline (line_end s)) result
      else case dotenv_entry line result s of
          Inl e \<Rightarrow> Err e
        | Inr (key, value, line', rest) \<Rightarrow>
            if 256 < length (result @ [(key, value)])
            then Err (ErrInvalidVariable ''dotenv input exceeds 256 variables'')
            else dotenv_loop (line' + 1) (skip_newline rest) (result @ [(key, value)]))"
  by pat_completeness auto

termination
proof (relation "measure (\<lambda>(line, input, result). length input)", goal_cases)
  case 1
  then show ?case by simp
next
  case (2 line input result s)
  then have "length (tl s) < length s" by simp
  also have "\<dots> \<le> length input" using 2 by (simp add: length_dropWhile_le)
  finally show ?case by simp
next
  case (3 line input result s)
  have "length (skip_newline (line_end s)) \<le> length (line_end s)" by (rule length_skip_newline)
  also have "\<dots> < length s" using 3 by (simp add: line_end_comment)
  also have "\<dots> \<le> length input" using 3 by (simp add: length_dropWhile_le)
  finally show ?case by simp
next
  case (4 line input result s y key z val w line' rest)
  then have "dotenv_entry line result s = Ok (key, val, line', rest)" by simp
  then have "length rest < length s" by (rule dotenv_entry_shorter)
  then have "length (skip_newline rest) < length s" using length_skip_newline [of rest] by simp
  also have "\<dots> \<le> length input" using 4 by (simp add: length_dropWhile_le)
  finally show ?case by simp
qed

declare dotenv_loop.simps [simp del]

definition ParseDotenv :: "string \<Rightarrow> deploy_error + (string \<times> string) list" where
  "ParseDotenv input =
     (if maxDotenvBytes < length input then Err (ErrInvalidVariable ''dotenv input exceeds 256 KiB'')
      else dotenv_loop 1 (normalize_newlines input) [])"


subsection \<open>What the parser accepts\<close>

definition dotenv_ok :: "(string \<times> string) list \<Rightarrow> bool" where
  "dotenv_ok kvs \<longleftrightarrow>
     distinct (map fst kvs) \<and> length kvs \<le> 256 \<and>
     list_all (\<lambda>(k, v). envKeyRe k \<and> \<not> value_too_large v) kvs"

lemma is_ok_ValidateEnvKey [simp]: "is_ok (ValidateEnvKey k) \<longleftrightarrow> envKeyRe k"
  by (simp add: ValidateEnvKey_def guardr_def)

lemma dotenv_entry_ok:
  assumes "dotenv_entry line result s = Ok (k, v, line', rest)"
  shows "envKeyRe k \<and> k \<notin> fst ` set result \<and> \<not> value_too_large v"
  using assms by (auto simp: dotenv_entry_def Let_def bindr_eq_Ok split: if_splits)

lemma dotenv_loop_ok:
  "dotenv_loop line input result = Ok kvs \<Longrightarrow> dotenv_ok result \<Longrightarrow> dotenv_ok kvs"
proof (induction line input result rule: dotenv_loop.induct)
  case (1 line input result)
  define s where "s = dropWhile blank input"
  note step = dotenv_loop.simps [of line input result, unfolded Let_def, folded s_def]
  consider "s = []" | "s \<noteq> []" "hd s = newline_char" | "s \<noteq> []" "hd s \<noteq> newline_char" "hd s = CHR ''#''"
    | "s \<noteq> []" "hd s \<noteq> newline_char" "hd s \<noteq> CHR ''#''" by blast
  then show ?case
  proof cases
    case 1
    with "1.prems" show ?thesis by (simp add: step)
  next
    case 2
    with "1.prems" have "dotenv_loop (line + 1) (tl s) result = Ok kvs" by (simp add: step)
    then show ?thesis by (rule "1.IH"(1) [OF s_def 2 _ "1.prems"(2)])
  next
    case 3
    with "1.prems" have "dotenv_loop (line + 1) (skip_newline (line_end s)) result = Ok kvs" by (simp add: step)
    then show ?thesis by (rule "1.IH"(2) [OF s_def 3 _ "1.prems"(2)])
  next
    case 4
    then obtain k v line' rest where e: "dotenv_entry line result s = Ok (k, v, line', rest)"
      and bound: "\<not> 256 < length (result @ [(k, v)])"
      and loop: "dotenv_loop (line' + 1) (skip_newline rest) (result @ [(k, v)]) = Ok kvs"
      using "1.prems"(1) by (auto simp: step split: sum.splits if_splits)
    have "dotenv_ok (result @ [(k, v)])"
      using "1.prems"(2) dotenv_entry_ok [OF e] bound by (auto simp: dotenv_ok_def)
    with "1.IH"(3) [OF s_def 4 e _ _ _ bound loop] show ?thesis by simp
  qed
qed

lemma ParseDotenv_ok: "ParseDotenv input = Ok kvs \<Longrightarrow> dotenv_ok kvs"
  by (auto simp: ParseDotenv_def dotenv_ok_def dest: dotenv_loop_ok split: if_splits)

subsection \<open>Writing variables down\<close>

text \<open>One entry per line, its value in double quotes with the five escapes of the parser.\<close>

definition escape :: "char \<Rightarrow> string" where
  "escape c =
     (if c = newline_char then [CHR 0x5C, CHR ''n'']
      else if c = return_char then [CHR 0x5C, CHR ''r'']
      else if c = tab_char then [CHR 0x5C, CHR ''t'']
      else if c = CHR 0x5C \<or> c = CHR 0x22 then [CHR 0x5C, c]
      else [c])"

definition write_entry :: "string \<times> string \<Rightarrow> string" where
  "write_entry kv = fst kv @ CHR ''='' # CHR 0x22 # concat (map escape (snd kv)) @ [CHR 0x22, newline_char]"

definition write_dotenv :: "(string \<times> string) list \<Rightarrow> string" where
  "write_dotenv kvs = concat (map write_entry kvs)"

lemma dotenv_quoted_escape_char:
  "s \<noteq> [] \<Longrightarrow> dotenv_quoted (CHR 0x22) line (escape c @ s) = prepend [c] (dotenv_quoted (CHR 0x22) line s)"
  by (cases s) (auto simp: escape_def unescape_def control_chars Let_def)

lemma dotenv_quoted_escape:
  "dotenv_quoted (CHR 0x22) line (concat (map escape v) @ CHR 0x22 # rest) = Some (v, line, rest)"
proof (induction v)
  case Nil
  show ?case by (cases rest) auto
next
  case (Cons c v)
  then show ?case by (simp add: dotenv_quoted_escape_char prepend_def)
qed

lemmas char_ranges = env_key_char_def ascii_alpha_def is_digit_def in_range_def less_eq_char_def

lemma env_key_char_facts:
  "env_key_char c \<Longrightarrow> c \<noteq> CHR ''='' \<and> c \<noteq> newline_char \<and> \<not> blank c \<and> c \<noteq> CHR ''#'' \<and> c \<noteq> CHR '' '' \<and>
     c \<noteq> return_char"
  by (auto simp: char_ranges blank_def control_chars)

lemma envKeyRe_chars: "envKeyRe k \<Longrightarrow> k \<noteq> [] \<and> (\<forall>c \<in> set k. env_key_char c)"
  by (auto simp: envKeyRe_def env_key_char_def list_all_iff split: list.splits)

lemma env_key_char_ascii: "env_key_char c \<Longrightarrow> of_char c < (128::nat) \<and> (32::nat) < of_char c"
  by (auto simp: char_ranges)


text \<open>A text without white space at its ends is left alone by \<open>strings.TrimSpace\<close>.\<close>

lemma trim_space_id:
  assumes P: "\<forall>w \<in> set space_runes. \<not> P (hd w) \<and> \<not> P (last w)" and "s \<noteq> []" "P (hd s)" "P (last s)"
  shows "trim_space s = s"
proof -
  have ne: "w \<noteq> []" if "w \<in> set space_runes" for w using that space_runes_nonempty by blast
  have "\<not> has_prefix s w" if "w \<in> set space_runes" for w
    using bspec [OF P that] ne [OF that] assms(2,3) by (cases s; cases w) (auto simp: has_prefix_def)
  then have "find (\<lambda>w. has_prefix s w) space_runes = None" unfolding find_None_iff by blast
  then have "trim_left s = s" by (subst trim_left.simps) simp
  moreover have "\<not> has_prefix (rev s) (rev w)" if "w \<in> set space_runes" for w
    using bspec [OF P that] ne [OF that] assms(2,4)
    by (cases s rule: rev_cases; cases w rule: rev_cases) (auto simp: has_prefix_def)
  then have "find (\<lambda>w. has_prefix (rev s) (rev w)) space_runes = None" unfolding find_None_iff by blast
  then have "trim_left_rev (rev s) = rev s" by (subst trim_left_rev.simps) simp
  ultimately show ?thesis by (simp add: trim_space_def)
qed

lemma env_key_rune: "\<forall>w \<in> set space_runes. \<not> env_key_char (hd w) \<and> \<not> env_key_char (last w)"
  by code_simp

lemma trim_space_env_key: "envKeyRe k \<Longrightarrow> trim_space k = k"
  by (rule trim_space_id [where P = env_key_char])
    (simp_all add: envKeyRe_chars env_key_rune)

lemma dotenv_value_quoted:
  "dotenv_value line (CHR 0x22 # concat (map escape v) @ CHR 0x22 # newline_char # rest)
     = Ok (v, line, newline_char # rest)"
  by (simp add: dotenv_value_def dotenv_quoted_escape blank_def control_chars)

lemma prefix_before: "w @ t = k @ c # s \<Longrightarrow> c \<notin> set w \<Longrightarrow> \<exists>u. k = w @ u"
  by (auto simp: append_eq_append_conv2 append_eq_Cons_conv)

lemma key_not_export:
  assumes "envKeyRe k"
  shows "trim_prefix (k @ CHR ''='' # s) ''export '' = k @ CHR ''='' # s"
proof -
  have "\<not> has_prefix (k @ CHR ''='' # s) ''export ''"
  proof
    assume "has_prefix (k @ CHR ''='' # s) ''export ''"
    then obtain t where t: "''export '' @ t = k @ CHR ''='' # s" unfolding has_prefix_iff by metis
    have "CHR ''='' \<notin> set ''export ''" by simp
    from prefix_before [OF t this] obtain u where "k = ''export '' @ u" ..
    then have "CHR '' '' \<in> set k" by simp
    with assms show False using envKeyRe_chars env_key_char_facts by blast
  qed
  then show ?thesis by (simp add: trim_prefix_def)
qed

lemma dotenv_entry_written:
  assumes "envKeyRe k" "\<not> value_too_large v" "k \<notin> fst ` set result"
  shows "dotenv_entry line result (write_entry (k, v) @ rest) = Ok (k, v, line, newline_char # rest)"
proof -
  let ?tail = "CHR 0x22 # concat (map escape v) @ CHR 0x22 # newline_char # rest"
  have chars: "\<forall>c \<in> set k. c \<noteq> CHR ''='' \<and> c \<noteq> newline_char"
    using envKeyRe_chars [OF assms(1)] env_key_char_facts by blast
  have name: "takeWhile (\<lambda>c. c \<noteq> CHR ''='' \<and> c \<noteq> newline_char) (k @ CHR ''='' # ?tail) = k"
    using chars by (simp add: takeWhile_append2)
  have "dropWhile blank ?tail = ?tail" by (simp add: blank_def control_chars)
  then show ?thesis
    using assms name key_not_export [OF assms(1)]
    by (simp add: dotenv_entry_def write_entry_def trim_space_env_key dotenv_value_quoted Let_def del: dropWhile.simps)
qed

lemma dotenv_loop_written:
  assumes "dotenv_ok (result @ kvs)"
  shows "dotenv_loop line (write_dotenv kvs) result = Ok (result @ kvs)"
  using assms
proof (induction kvs arbitrary: line result)
  case Nil
  show ?case by (simp add: dotenv_loop.simps write_dotenv_def)
next
  case (Cons kv kvs)
  obtain k v where kv: "kv = (k, v)" by force
  have k: "envKeyRe k" "\<not> value_too_large v" "k \<notin> fst ` set result" "length (result @ [kv]) \<le> 256"
    using Cons.prems by (auto simp: dotenv_ok_def kv)
  let ?s = "write_entry (k, v) @ write_dotenv kvs"
  have hd: "k \<noteq> []" "env_key_char (hd k)" using envKeyRe_chars [OF k(1)] by auto
  then have s: "dropWhile blank ?s = ?s" "?s \<noteq> []" "hd ?s \<noteq> newline_char" "hd ?s \<noteq> CHR ''#''"
    using env_key_char_facts [OF hd(2)] by (auto simp: write_entry_def neq_Nil_conv)
  have "dotenv_loop line (write_dotenv (kv # kvs)) result
      = dotenv_loop (line + 1) (write_dotenv kvs) (result @ [(k, v)])"
  proof -
    have "dotenv_loop line ?s result = dotenv_loop (line + 1) (write_dotenv kvs) (result @ [(k, v)])"
      using k(4) by (subst dotenv_loop.simps)
        (simp add: s dotenv_entry_written [OF k(1,2,3)] kv skip_newline_def Let_def del: append_is_Nil_conv)
    then show ?thesis by (simp add: write_dotenv_def kv)
  qed
  then show ?case using Cons.IH [of "result @ [kv]"] Cons.prems by (simp add: kv)
qed

lemma escape_no_return: "return_char \<notin> set (escape c)"
  by (auto simp: escape_def control_chars)

lemma normalize_newlines_id: "return_char \<notin> set s \<Longrightarrow> normalize_newlines s = s"
proof -
  assume a: "return_char \<notin> set s"
  then have "replace_crlf s = s" by (induction s rule: replace_crlf.induct) auto
  with a show ?thesis by (auto simp: normalize_newlines_def intro: map_idI)
qed

lemma write_dotenv_no_return:
  assumes "dotenv_ok kvs"
  shows "return_char \<notin> set (write_dotenv kvs)"
proof -
  have "return_char \<notin> set (write_entry kv)" if "kv \<in> set kvs" for kv
  proof -
    have "envKeyRe (fst kv)" using assms that by (auto simp: dotenv_ok_def list_all_iff)
    then have "return_char \<notin> set (fst kv)" using envKeyRe_chars env_key_char_facts by blast
    then show ?thesis using escape_no_return by (simp add: write_entry_def) (simp add: control_chars)
  qed
  then show ?thesis by (auto simp: write_dotenv_def)
qed

lemma ParseDotenv_write_dotenv:
  assumes "dotenv_ok kvs" and "length (write_dotenv kvs) \<le> maxDotenvBytes"
  shows "ParseDotenv (write_dotenv kvs) = Ok kvs"
  using assms dotenv_loop_written [of "[]" kvs 1] write_dotenv_no_return [OF assms(1)]
  by (simp add: ParseDotenv_def normalize_newlines_id)

end
