(* ===== verification/Deploy_Graph.thy ===== *)
theory Deploy_Graph
  imports Deploy_Variables "HOL-Library.AList"
begin

text \<open>
  The resolution of variable references (\<open>ResolveVariableGraph\<close>, \<open>resolveScopedVariableValues\<close>,
  \<open>diffNamedDigests\<close> of deploy/configuration_store.go and planning_store.go). A Go map is an
  association list that was built by assignments; the depth-first search carries its colours, its
  results and its stack as a state. It terminates because each visit that recurses colours one more
  name. The reference definition \<open>chase\<close> follows the references from a name, without colours or
  results; the lemmas show that the search answers exactly what chasing answers and that a reported
  cycle is one.
\<close>

subsection \<open>The search\<close>

definition map_assign :: "(string \<times> 'v) list \<Rightarrow> (string \<times> 'v) list" where
  "map_assign kvs = fold (\<lambda>(k, v) m. AList.update k v m) kvs []"

type_synonym external_lookup = "VariableReference \<Rightarrow> deploy_error + string \<times> bool"

record dfs =
  dfs_state :: "string \<Rightarrow> nat"
  dfs_resolved :: "string \<Rightarrow> string"
  dfs_secretLeaf :: "string \<Rightarrow> bool"
  dfs_stack :: "string list"

definition dfs_start :: dfs where
  "dfs_start =
     \<lparr> dfs_state = (\<lambda>_. 0), dfs_resolved = (\<lambda>_. []), dfs_secretLeaf = (\<lambda>_. False), dfs_stack = [] \<rparr>"

definition dfs_enter :: "string \<Rightarrow> dfs \<Rightarrow> dfs" where
  "dfs_enter name st = st\<lparr>dfs_state := (dfs_state st)(name := 1), dfs_stack := dfs_stack st @ [name]\<rparr>"

definition dfs_leave :: "string \<Rightarrow> string \<Rightarrow> bool \<Rightarrow> dfs \<Rightarrow> dfs" where
  "dfs_leave name resolved leaf st =
     st\<lparr>dfs_stack := butlast (dfs_stack st), dfs_state := (dfs_state st)(name := 2),
        dfs_resolved := (dfs_resolved st)(name := resolved),
        dfs_secretLeaf := (dfs_secretLeaf st)(name := leaf)\<rparr>"

definition uncoloured :: "(string \<times> string) list \<Rightarrow> dfs \<Rightarrow> string set" where
  "uncoloured values st = {n \<in> fst ` set values. dfs_state st n \<notin> {1, 2}}"

function visit ::
  "(string \<times> string) list \<Rightarrow> external_lookup option \<Rightarrow> string \<Rightarrow> dfs
     \<Rightarrow> deploy_error + (string \<times> bool) \<times> dfs" where
  "visit values external name st =
     (if dfs_state st name = 2 then Ok ((dfs_resolved st name, dfs_secretLeaf st name), st)
      else if dfs_state st name = 1 then Err (ErrVariableCycle (dfs_stack st @ [name]))
      else case map_of values name of
        None \<Rightarrow> Err (ErrInvalidVariable (''missing variable reference '' @ name))
      | Some raw \<Rightarrow>
          bindr
            (case reference_of raw of
               None \<Rightarrow> Ok ((raw, False), dfs_enter name st)
             | Some reference \<Rightarrow>
                 if vr_Kind reference = ''variable''
                 then visit values external (vr_Target reference) (dfs_enter name st)
                 else case external of
                     None \<Rightarrow> Ok ((raw, False), dfs_enter name st)
                   | Some lookup \<Rightarrow> bindr (lookup reference) (\<lambda>r. Ok (r, dfs_enter name st)))
            (\<lambda>((resolved, leaf), st'). Ok ((resolved, leaf), dfs_leave name resolved leaf st')))"
  by pat_completeness auto
termination
proof (relation "measure (\<lambda>(values, external, name, st). card (uncoloured values st))", goal_cases)
  case 1
  then show ?case by simp
next
  case (2 vs ext name st raw reference)
  then have "name \<in> uncoloured vs st"
    by (force simp: uncoloured_def dest: map_of_SomeD)
  moreover have "uncoloured vs (dfs_enter name st) = uncoloured vs st - {name}"
    by (auto simp: uncoloured_def dfs_enter_def)
  moreover have "finite (uncoloured vs st)" by (simp add: uncoloured_def)
  ultimately show ?case by (simp add: card_Diff1_less del: card_Diff_insert)
qed

declare visit.simps [simp del]

fun visit_all ::
  "(string \<times> string) list \<Rightarrow> external_lookup option \<Rightarrow> string list \<Rightarrow> dfs \<Rightarrow> deploy_error + dfs" where
  "visit_all values external [] st = Ok st"
| "visit_all values external (name # names) st =
     bindr (visit values external name st) (\<lambda>(_, st'). visit_all values external names st')"

definition ResolveVariableGraph ::
  "(string \<times> string) list \<Rightarrow> external_lookup option
     \<Rightarrow> deploy_error + (string \<Rightarrow> string) \<times> (string \<Rightarrow> bool)" where
  "ResolveVariableGraph values external =
     bindr (visit_all values external (sort (remdups (map fst values))) dfs_start) (\<lambda>st.
     Ok (dfs_resolved st, dfs_secretLeaf st))"

subsection \<open>Values of one scope\<close>

record ScopedVariableValue =
  sv_Name :: string
  sv_Value :: string
  sv_Sensitivity :: string
  sv_Scopes :: "string list"
  sv_ValueDigest :: string

definition in_scope :: "string \<Rightarrow> ScopedVariableValue \<Rightarrow> bool" where
  "in_scope scope v = list_ex (\<lambda>candidate. trim_space candidate = scope) (sv_Scopes v)"

definition resolveScopedVariableValues ::
  "ScopedVariableValue list \<Rightarrow> string \<Rightarrow> external_lookup \<Rightarrow> deploy_error + ScopedVariableValue list" where
  "resolveScopedVariableValues all scope external =
     bindr (ResolveVariableGraph (map_assign (map (\<lambda>v. (sv_Name v, sv_Value v)) all)) (Some external))
       (\<lambda>(resolved, leaves).
        Ok (map (\<lambda>v. v\<lparr>sv_Value := resolved (sv_Name v),
                       sv_Sensitivity := if leaves (sv_Name v) then ''secret'' else sv_Sensitivity v\<rparr>)
              (filter (in_scope scope) all)))"

subsection \<open>Differences of named digests\<close>

record PendingChange =
  pc_Kind :: string
  pc_Name :: string
  pc_Change :: string
  pc_BeforeDigest :: string
  pc_AfterDigest :: string

definition digest_or_empty :: "(string \<times> string) list \<Rightarrow> string \<Rightarrow> string" where
  "digest_or_empty m name = (case map_of m name of None \<Rightarrow> [] | Some d \<Rightarrow> d)"

definition diffNamedDigests ::
  "string \<Rightarrow> (string \<times> string) list \<Rightarrow> (string \<times> string) list \<Rightarrow> PendingChange list" where
  "diffNamedDigests kind before_map after_map =
     map (\<lambda>name. \<lparr> pc_Kind = kind, pc_Name = name,
                   pc_Change = (if map_of before_map name = None then ''added''
                                else if map_of after_map name = None then ''removed'' else ''changed''),
                   pc_BeforeDigest = digest_or_empty before_map name,
                   pc_AfterDigest = digest_or_empty after_map name \<rparr>)
       (filter (\<lambda>name. \<not> (map_of before_map name \<noteq> None \<and> map_of after_map name \<noteq> None \<and>
                          digest_or_empty before_map name = digest_or_empty after_map name))
         (sort (remdups (map fst before_map @ map fst after_map))))"

subsection \<open>Following references\<close>

definition ref_edge :: "(string \<times> string) list \<Rightarrow> string \<Rightarrow> string \<Rightarrow> bool" where
  "ref_edge vs n m =
     (case map_of vs n of None \<Rightarrow> False
      | Some raw \<Rightarrow> (case reference_of raw of None \<Rightarrow> False
                     | Some r \<Rightarrow> vr_Kind r = ''variable'' \<and> vr_Target r = m))"

fun chase ::
  "nat \<Rightarrow> (string \<times> string) list \<Rightarrow> external_lookup option \<Rightarrow> string \<Rightarrow> (deploy_error + string \<times> bool) option" where
  "chase 0 vs ext n = None"
| "chase (Suc k) vs ext n =
     (case map_of vs n of
        None \<Rightarrow> Some (Err (ErrInvalidVariable (''missing variable reference '' @ n)))
      | Some raw \<Rightarrow>
          (case reference_of raw of
             None \<Rightarrow> Some (Ok (raw, False))
           | Some r \<Rightarrow>
               if vr_Kind r = ''variable'' then chase k vs ext (vr_Target r)
               else case ext of None \<Rightarrow> Some (Ok (raw, False)) | Some lookup \<Rightarrow> Some (lookup r)))"

text \<open>As many steps as there are names, and one more for a name that is not there.\<close>

definition chase_all ::
  "(string \<times> string) list \<Rightarrow> external_lookup option \<Rightarrow> string \<Rightarrow> (deploy_error + string \<times> bool) option" where
  "chase_all vs ext n = chase (Suc (card (fst ` set vs))) vs ext n"

definition cycle_path :: "(string \<times> string) list \<Rightarrow> string list \<Rightarrow> bool" where
  "cycle_path vs path \<longleftrightarrow> successively (ref_edge vs) path \<and> path \<noteq> [] \<and> last path \<in> set (butlast path)"

lemma ref_edge_in: "ref_edge vs n m \<Longrightarrow> n \<in> fst ` set vs"
  by (force simp: ref_edge_def split: option.splits dest: map_of_SomeD)

lemma chase_edge: "ref_edge vs n m \<Longrightarrow> chase (Suc k) vs ext n = chase k vs ext m"
  by (auto simp: ref_edge_def split: option.splits)

lemma chase_no_edge:
  assumes "\<And>m. \<not> ref_edge vs n m"
  shows "chase (Suc k) vs ext n = chase (Suc 0) vs ext n \<and> chase (Suc 0) vs ext n \<noteq> None"
  using assms [of "vr_Target (the (reference_of (the (map_of vs n))))"]
  by (auto simp: ref_edge_def split: option.splits)

lemma chase_mono: "chase k vs ext n = Some r \<Longrightarrow> k \<le> k' \<Longrightarrow> chase k' vs ext n = Some r"
proof (induction k arbitrary: n k')
  case (Suc k)
  then obtain j where j: "k' = Suc j" "k \<le> j" by (cases k') auto
  show ?case
  proof (cases "\<exists>m. ref_edge vs n m")
    case True
    then obtain m where "ref_edge vs n m" by blast
    with Suc j show ?thesis by (simp add: chase_edge del: chase.simps)
  next
    case False
    with Suc.prems(1) j show ?thesis by (metis chase_no_edge)
  qed
qed simp

text \<open>A path that returns to itself is never left.\<close>

lemma cycle_never_ends:
  assumes "cycle_path vs path" and "n \<in> set path"
  shows "chase k vs ext n = None"
  using assms(2)
proof (induction k arbitrary: n)
  case (Suc k)
  have next_in: "\<exists>m \<in> set path. ref_edge vs x m" if "x \<in> set (butlast path)" for x
  proof -
    from that obtain i where i: "i < length (butlast path)" "butlast path ! i = x" by (auto simp: in_set_conv_nth)
    then have "Suc i < length path" "path ! i = x" by (auto simp: nth_butlast)
    with assms(1) show ?thesis
      unfolding cycle_path_def successively_conv_nth by (metis Suc_lessD nth_mem)
  qed
  from Suc.prems have "n \<in> set (butlast path)"
    using assms(1) unfolding cycle_path_def by (metis append_butlast_last_id in_set_butlast_appendI rotate1.simps(2)
        set_ConsD set_rotate1)
  then obtain m where "m \<in> set path" "ref_edge vs n m" using next_in by blast
  with Suc.IH show ?case by (simp add: chase_edge del: chase.simps)
qed simp

text \<open>Whoever answers at all answers within the bound: the number of steps falls along an edge.\<close>

lemma chase_bound:
  assumes "chase k vs ext n = Some r"
  shows "chase_all vs ext n = Some r"
proof -
  define steps where "steps x = (LEAST k. chase k vs ext x \<noteq> None)" for x
  have ends: "chase (steps x) vs ext x \<noteq> None" if "chase j vs ext x \<noteq> None" for x j
    unfolding steps_def using that by (rule LeastI)
  have least: "steps x \<le> j" if "chase j vs ext x \<noteq> None" for x j
    unfolding steps_def using that by (rule Least_le)
  have descend: "{2..steps x} \<subseteq> steps ` fst ` set vs" if "chase j vs ext x \<noteq> None" for x j
    using that
  proof (induction j arbitrary: x)
    case (Suc j)
    show ?case
    proof (cases "\<exists>m. ref_edge vs x m")
      case True
      then obtain m where e: "ref_edge vs x m" by blast
      then have m: "chase j vs ext m \<noteq> None" using Suc.prems by (simp add: chase_edge del: chase.simps)
      have "chase (steps x) vs ext x \<noteq> None" by (rule ends [OF Suc.prems])
      then obtain i where i: "steps x = Suc i" by (cases "steps x") auto
      have "steps m \<le> i" using \<open>chase (steps x) vs ext x \<noteq> None\<close> i e least by (simp add: chase_edge del: chase.simps)
      moreover have "steps x \<le> Suc (steps m)" using ends [OF m] e least by (simp add: chase_edge del: chase.simps)
      ultimately have "steps x = Suc (steps m)" using i by simp
      then have "{2..steps x} \<subseteq> insert (steps x) {2..steps m}" by auto
      moreover have "steps x \<in> steps ` fst ` set vs" using ref_edge_in [OF e] by blast
      ultimately show ?thesis using Suc.IH [OF m] by blast
    next
      case False
      then have "steps x \<le> Suc 0" using chase_no_edge [of vs x 0 ext] least by blast
      then show ?thesis by auto
    qed
  qed simp
  have some: "chase k vs ext n \<noteq> None" using assms by simp
  have "card {2..steps n} \<le> card (steps ` fst ` set vs)" by (rule card_mono) (auto simp: descend [OF some])
  also have "\<dots> \<le> card (fst ` set vs)" by (rule card_image_le) simp
  finally have bound: "steps n \<le> Suc (card (fst ` set vs))" by simp
  obtain r' where r': "chase (steps n) vs ext n = Some r'" using ends [OF some] by auto
  from chase_mono [OF this least [OF some]] assms have "r' = r" by simp
  with chase_mono [OF r' bound] show ?thesis by (simp add: chase_all_def del: chase.simps)
qed

lemma chase_all_eq: "chase_all vs ext n = Some r \<longleftrightarrow> (\<exists>k. chase k vs ext n = Some r)"
  using chase_bound unfolding chase_all_def by blast

subsection \<open>The search follows references\<close>

definition dfs_inv :: "(string \<times> string) list \<Rightarrow> external_lookup option \<Rightarrow> dfs \<Rightarrow> bool" where
  "dfs_inv vs ext st \<longleftrightarrow>
     (\<forall>n. dfs_state st n = 2 \<longrightarrow> chase_all vs ext n = Some (Ok (dfs_resolved st n, dfs_secretLeaf st n))) \<and>
     (\<forall>n. dfs_state st n = 1 \<longleftrightarrow> n \<in> set (dfs_stack st)) \<and>
     successively (ref_edge vs) (dfs_stack st)"

definition visited ::
  "(string \<times> string) list \<Rightarrow> external_lookup option \<Rightarrow> string \<Rightarrow> dfs
     \<Rightarrow> deploy_error + (string \<times> bool) \<times> dfs \<Rightarrow> bool" where
  "visited vs ext n st result =
     (case result of
        Inr (r, st') \<Rightarrow>
          chase_all vs ext n = Some (Ok r) \<and> dfs_inv vs ext st' \<and> dfs_stack st' = dfs_stack st \<and>
          dfs_state st' n = 2 \<and> (\<forall>x. dfs_state st x = 2 \<longrightarrow> dfs_state st' x = 2)
      | Inl e \<Rightarrow>
          chase_all vs ext n = Some (Err e) \<or> (\<exists>path. e = ErrVariableCycle path \<and> cycle_path vs path))"

lemma dfs_inv_start: "dfs_inv vs ext dfs_start"
  by (simp add: dfs_inv_def dfs_start_def)

lemma dfs_inv_enter:
  assumes "dfs_inv vs ext st" and "dfs_state st n \<noteq> 2" and "dfs_stack st \<noteq> [] \<longrightarrow> ref_edge vs (last (dfs_stack st)) n"
  shows "dfs_inv vs ext (dfs_enter n st)"
  using assms by (auto simp: dfs_inv_def dfs_enter_def successively_append_iff)

lemma dfs_inv_leave:
  assumes "dfs_inv vs ext st'" and "dfs_stack st' = stack @ [n]" and "n \<notin> set stack"
    and "chase_all vs ext n = Some (Ok (rv, leaf))"
  shows "dfs_inv vs ext (dfs_leave n rv leaf st')"
  using assms by (auto simp: dfs_inv_def dfs_leave_def successively_append_iff)

lemma visited_leave:
  assumes "dfs_inv vs ext st" and "dfs_inv vs ext st'" and "dfs_stack st' = dfs_stack st @ [n]"
    and "n \<notin> set (dfs_stack st)" and "\<forall>x. dfs_state st x = 2 \<longrightarrow> dfs_state st' x = 2"
    and "chase_all vs ext n = Some (Ok (rv, leaf))"
  shows "visited vs ext n st (Inr ((rv, leaf), dfs_leave n rv leaf st'))"
  using assms dfs_inv_leave [OF assms(2,3,4,6)] by (auto simp: visited_def dfs_leave_def)


lemma visit_visited:
  assumes "dfs_inv vs ext st" and "dfs_stack st \<noteq> [] \<longrightarrow> ref_edge vs (last (dfs_stack st)) n"
  shows "visited vs ext n st (visit vs ext n st)"
  using assms
proof (induction vs ext n st rule: visit.induct)
  case (1 vs ext n st)
  note step = visit.simps [of vs ext n st]
  have stop: "chase_all vs ext n = Some r" if "chase (Suc 0) vs ext n = Some r" for r
    using that chase_bound by blast
  consider "dfs_state st n = 2" | "dfs_state st n = 1" | "dfs_state st n \<notin> {1, 2}" by auto
  then show ?case
  proof cases
    case 1
    with "1.prems" show ?thesis by (auto simp: step visited_def dfs_inv_def)
  next
    case 2
    then have "n \<in> set (dfs_stack st)" "dfs_stack st \<noteq> []" "successively (ref_edge vs) (dfs_stack st)"
      using "1.prems" by (auto simp: dfs_inv_def)
    then have "cycle_path vs (dfs_stack st @ [n])"
      using "1.prems" by (auto simp: cycle_path_def successively_append_iff)
    with 2 show ?thesis by (auto simp: step visited_def)
  next
    case 3
    have fresh: "n \<notin> set (dfs_stack st)" using 3 "1.prems" by (auto simp: dfs_inv_def)
    have enter: "dfs_inv vs ext (dfs_enter n st)" "dfs_stack (dfs_enter n st) = dfs_stack st @ [n]"
      "\<forall>x. dfs_state st x = 2 \<longrightarrow> dfs_state (dfs_enter n st) x = 2"
      using dfs_inv_enter "1.prems" 3 by (auto simp: dfs_enter_def)
    note leave = visited_leave [OF "1.prems"(1) enter(1,2) fresh enter(3)]
    show ?thesis
    proof (cases "map_of vs n")
      case None
      with 3 show ?thesis using stop by (simp add: step visited_def)
    next
      case (Some raw)
      show ?thesis
      proof (cases "reference_of raw")
        case None
        with 3 Some show ?thesis using leave [OF stop [of "Ok (raw, False)"]] by (simp add: step)
      next
        case (Some r)
        show ?thesis
        proof (cases "vr_Kind r = ''variable''")
          case True
          have e: "ref_edge vs n (vr_Target r)" using \<open>map_of vs n = Some raw\<close> Some True by (simp add: ref_edge_def)
          have here: "chase_all vs ext n = Some x" if "chase_all vs ext (vr_Target r) = Some x" for x
            using that chase_bound chase_edge [OF e] unfolding chase_all_def by metis
          have child: "visited vs ext (vr_Target r) (dfs_enter n st) (visit vs ext (vr_Target r) (dfs_enter n st))"
            using "1.IH" 3 \<open>map_of vs n = Some raw\<close> Some True enter e by simp
          have eq: "visit vs ext n st = bindr (visit vs ext (vr_Target r) (dfs_enter n st))
              (\<lambda>((resolved, leaf), st'). Ok ((resolved, leaf), dfs_leave n resolved leaf st'))"
            using 3 \<open>map_of vs n = Some raw\<close> Some True by (simp add: step)
          show ?thesis
          proof (cases "visit vs ext (vr_Target r) (dfs_enter n st)")
            case (Inl err)
            with child here show ?thesis by (auto simp: eq visited_def)
          next
            case (Inr result)
            obtain rv leaf st' where res: "result = ((rv, leaf), st')" by (metis surj_pair)
            have st': "dfs_inv vs ext st'" "dfs_stack st' = dfs_stack st @ [n]"
              "\<forall>x. dfs_state st x = 2 \<longrightarrow> dfs_state st' x = 2" "chase_all vs ext n = Some (Ok (rv, leaf))"
              using child enter here by (auto simp: Inr res visited_def)
            show ?thesis
              using visited_leave [OF "1.prems"(1) st'(1,2) fresh st'(3,4)] by (simp add: eq Inr res)
          qed
        next
          case False
          show ?thesis
          proof (cases ext)
            case None
            with 3 \<open>map_of vs n = Some raw\<close> Some False show ?thesis
              using leave [OF stop [of "Ok (raw, False)"]] by (simp add: visit.simps [of vs None n st])
          next
            case (Some lookup)
            note facts = 3 \<open>map_of vs n = Some raw\<close> \<open>reference_of raw = Some r\<close> False Some
            show ?thesis
            proof (cases "lookup r")
              case (Inl err)
              with facts show ?thesis using stop [of "Err err"]
                by (simp add: visit.simps [of vs "Some lookup" n st] visited_def)
            next
              case (Inr result)
              then obtain rv leaf where "lookup r = Ok (rv, leaf)" by (cases result) auto
              with facts show ?thesis using leave [OF stop [of "Ok (rv, leaf)"]]
                by (simp add: visit.simps [of vs "Some lookup" n st])
            qed
          qed
        qed
      qed
    qed
  qed
qed

lemma visit_all_Ok:
  assumes "visit_all vs ext ns st = Ok st'" and "dfs_inv vs ext st" and "dfs_stack st = []"
  shows "dfs_inv vs ext st' \<and> (\<forall>n. n \<in> set ns \<or> dfs_state st n = 2 \<longrightarrow> dfs_state st' n = 2)"
  using assms
proof (induction ns arbitrary: st)
  case (Cons n ns)
  then obtain r st1 where v: "visit vs ext n st = Ok (r, st1)" and rest: "visit_all vs ext ns st1 = Ok st'"
    by (auto simp: bindr_eq_Ok)
  from visit_visited [OF Cons.prems(2), of n] Cons.prems(3)
  have "dfs_inv vs ext st1" "dfs_stack st1 = []" "dfs_state st1 n = 2"
    "\<forall>x. dfs_state st x = 2 \<longrightarrow> dfs_state st1 x = 2" by (auto simp: v visited_def)
  with Cons.IH [OF rest] show ?case by auto
qed simp

lemma visit_all_Err:
  assumes "visit_all vs ext ns st = Err e" and "dfs_inv vs ext st" and "dfs_stack st = []"
  shows "(\<exists>n \<in> set ns. chase_all vs ext n = Some (Err e)) \<or> (\<exists>path. e = ErrVariableCycle path \<and> cycle_path vs path)"
  using assms
proof (induction ns arbitrary: st)
  case (Cons n ns)
  note v = visit_visited [OF Cons.prems(2), of n]
  show ?case
  proof (cases "visit vs ext n st")
    case (Inl err)
    with v Cons.prems show ?thesis by (auto simp: visited_def)
  next
    case (Inr result)
    obtain r st1 where res: "result = (r, st1)" by (cases result)
    have "dfs_inv vs ext st1" "dfs_stack st1 = []" using v Cons.prems(3) by (auto simp: Inr res visited_def)
    with Cons.IH [of st1] Cons.prems(1) show ?thesis by (auto simp: Inr res)
  qed
qed simp

lemma graph_search_Ok:
  assumes "ResolveVariableGraph vs ext = Ok (resolved, leaves)" and "n \<in> fst ` set vs"
  shows "chase_all vs ext n = Some (Ok (resolved n, leaves n))"
proof -
  obtain st where st: "visit_all vs ext (sort (remdups (map fst vs))) dfs_start = Ok st"
    "resolved = dfs_resolved st" "leaves = dfs_secretLeaf st"
    using assms(1) by (auto simp: ResolveVariableGraph_def bindr_eq_Ok)
  from visit_all_Ok [OF st(1) dfs_inv_start] assms(2) st(2,3) show ?thesis
    by (auto simp: dfs_start_def dfs_inv_def)
qed

lemma graph_search_Err:
  assumes "ResolveVariableGraph vs ext = Err e"
  shows "(\<exists>n \<in> fst ` set vs. chase_all vs ext n = Some (Err e)) \<or> (\<exists>path. e = ErrVariableCycle path \<and> cycle_path vs path)"
proof -
  have "visit_all vs ext (sort (remdups (map fst vs))) dfs_start = Err e"
    using assms by (auto simp: ResolveVariableGraph_def bindr_eq_Err)
  from visit_all_Err [OF this dfs_inv_start] show ?thesis by (auto simp: dfs_start_def)
qed

lemma cycle_path_name: "cycle_path vs path \<Longrightarrow> \<exists>n \<in> fst ` set vs. chase_all vs ext n = None"
proof -
  assume c: "cycle_path vs path"
  then obtain x y ys where path: "path = x # y # ys"
    by (cases path rule: remdups_adj.cases) (auto simp: cycle_path_def)
  with c have "ref_edge vs x y" by (simp add: cycle_path_def)
  then have "x \<in> fst ` set vs" by (rule ref_edge_in)
  moreover have "chase_all vs ext x = None"
    unfolding chase_all_def using path by (intro cycle_never_ends [OF c]) simp
  ultimately show ?thesis by blast
qed

text \<open>The search succeeds exactly when every name leads to a value, and then answers that value.\<close>

lemma graph_search_iff:
  "is_ok (ResolveVariableGraph vs ext) \<longleftrightarrow> (\<forall>n \<in> fst ` set vs. \<exists>r. chase_all vs ext n = Some (Ok r))"
proof (cases "ResolveVariableGraph vs ext")
  case (Inl e)
  have "\<exists>n \<in> fst ` set vs. \<forall>r. chase_all vs ext n \<noteq> Some (Ok r)"
    using graph_search_Err [OF Inl]
  proof
    assume "\<exists>n \<in> fst ` set vs. chase_all vs ext n = Some (Err e)"
    then obtain n where "n \<in> fst ` set vs" "chase_all vs ext n = Some (Err e)" ..
    then show ?thesis by (intro bexI [of _ n]) simp_all
  next
    assume "\<exists>path. e = ErrVariableCycle path \<and> cycle_path vs path"
    then obtain n where "n \<in> fst ` set vs" "chase_all vs ext n = None" using cycle_path_name by blast
    then show ?thesis by (intro bexI [of _ n]) simp_all
  qed
  with Inl show ?thesis unfolding is_ok_iff by (metis Inl_Inr_False)
next
  case (Inr r)
  obtain resolved leaves where "r = (resolved, leaves)" by (cases r)
  with Inr have "\<forall>n \<in> fst ` set vs. chase_all vs ext n = Some (Ok (resolved n, leaves n))"
    using graph_search_Ok by simp
  with Inr show ?thesis by (metis is_ok_simps(2))
qed

end
