(* ===== verification/Deploy_Config.thy ===== *)
theory Deploy_Config
  imports Deploy_Graph Deploy_Machine Auth_Crypto
begin

text \<open>
  The variables of an environment in the store (deploy/configuration_store.go and the scoped reads
  of planning_store.go): every write seals a new revision of one variable under a new revision of
  the environment's plan, and commits only if the references of the active variables resolve.
  A write is a transaction, a function from the database to an error or to a result with the new
  database. The clock and the nonces of the sealer are arguments, one clock reading for a
  transaction. The table rows are those of the orchestration, so a run that is enqueued pins the
  revisions written here. What a reference to another feature (credential, database, domain, service)
  resolves to is an argument of the scoped reads.
\<close>

subsection \<open>Values and views\<close>

record PlanningStore =
  pl_externals :: externals
  pl_sealer :: Sealer

record storedVariableValue =
  st_id :: int
  st_name :: string
  st_revision :: int
  st_sensitivity :: string
  st_scopes :: "string list"
  st_value :: string
  st_valueDigest :: string
  st_createdBy :: string
  st_createdAt :: go_time
  st_environmentID :: int
  st_desiredRevision :: int
  st_pending :: bool

record DeploymentVariable =
  dv_Name :: string
  dv_Revision :: int
  dv_Sensitivity :: string
  dv_Scopes :: "string list"
  dv_Masked :: string
  dv_ValueDigest :: string
  dv_Reference :: "VariableReference option"
  dv_Pending :: bool
  dv_CreatedBy :: string
  dv_CreatedAt :: go_time
  dv_EnvironmentID :: int
  dv_DesiredRevision :: int

record VariableMutationResult =
  mr_Variable :: "DeploymentVariable option"
  mr_Variables :: "DeploymentVariable list"
  mr_GeneratedValue :: string
  mr_DesiredRevision :: int

record VariableReveal =
  rev_Name :: string
  rev_Value :: string
  rev_Reference :: "VariableReference option"

definition open_value :: "PlanningStore \<Rightarrow> string \<Rightarrow> deploy_error + string" where
  "open_value ps sealed =
     (case Open (pl_sealer ps) sealed of Inl _ \<Rightarrow> Err (ErrMessage ''decrypt failed'') | Inr v \<Rightarrow> Ok v)"

text \<open>A loop that stops at the first error.\<close>

fun each :: "('a \<Rightarrow> 'e + 'b) \<Rightarrow> 'a list \<Rightarrow> 'e + 'b list" where
  "each f [] = Ok []"
| "each f (x # xs) = bindr (f x) (\<lambda>y. bindr (each f xs) (\<lambda>ys. Ok (y # ys)))"

definition live_environment :: "int \<Rightarrow> int \<Rightarrow> env_row \<Rightarrow> bool" where
  "live_environment projectID environmentID e =
     (e_id e = environmentID \<and> e_project_id e = projectID \<and> e_archived_at e = 0)"

definition active_variable :: "int \<Rightarrow> var_row \<Rightarrow> bool" where
  "active_variable environmentID v = (v_environment_id v = environmentID \<and> v_active v)"

definition active_rows :: "int \<Rightarrow> db \<Rightarrow> var_row list" where
  "active_rows environmentID db = sort_key v_key (filter (active_variable environmentID) (deploy_variable_revisions db))"

definition in_live_release :: "env_row \<Rightarrow> var_row \<Rightarrow> db \<Rightarrow> bool" where
  "in_live_release e v db =
     sql_exists (\<lambda>live. rel_id live = e_live_release_id e \<and>
       sql_exists (\<lambda>rv. rv_run_id rv = rel_run_id live \<and> rv_variable_revision_id rv = v_id v)
         (deploy_run_variable_revisions db)) (deploy_releases db)"

definition scan_variable ::
  "PlanningStore \<Rightarrow> env_row \<Rightarrow> db \<Rightarrow> var_row \<Rightarrow> deploy_error + storedVariableValue" where
  "scan_variable ps e db v =
     (case open_value ps (v_value_enc v) of
        Inl _ \<Rightarrow> Err (ErrMessage (''deployment variable '' @ v_key v @ '' cannot be decrypted''))
      | Inr plain \<Rightarrow> Ok \<lparr> st_id = v_id v, st_name = v_key v, st_revision = v_revision v,
          st_sensitivity = v_sensitivity v, st_scopes = split_on (CHR '','') (v_scopes v),
          st_value = plain, st_valueDigest = v_value_digest v, st_createdBy = v_created_by v,
          st_createdAt = of_unix (v_created_at v), st_environmentID = e_id e,
          st_desiredRevision = e_desired_revision e,
          st_pending = (e_live_release_id e = 0 \<or> \<not> in_live_release e v db) \<rparr>)"

definition activeVariableValues ::
  "PlanningStore \<Rightarrow> int \<Rightarrow> int \<Rightarrow> db \<Rightarrow> deploy_error + storedVariableValue list" where
  "activeVariableValues ps projectID environmentID db =
     (case find (live_environment projectID environmentID) (deploy_environments db) of
        None \<Rightarrow> Err ErrEnvironmentNotFound
      | Some e \<Rightarrow> each (scan_variable ps e db) (active_rows environmentID db))"

definition bullet :: string where
  "bullet = [byte 226, byte 128, byte 162]"

definition variable_view :: "storedVariableValue \<Rightarrow> DeploymentVariable" where
  "variable_view v =
     \<lparr> dv_Name = st_name v, dv_Revision = st_revision v, dv_Sensitivity = st_sensitivity v,
       dv_Scopes = st_scopes v,
       dv_Masked = (if st_sensitivity v = ''secret'' then concat (replicate 8 bullet) else ''configured''),
       dv_ValueDigest = st_valueDigest v, dv_Reference = reference_of (st_value v),
       dv_Pending = st_pending v, dv_CreatedBy = st_createdBy v, dv_CreatedAt = st_createdAt v,
       dv_EnvironmentID = st_environmentID v, dv_DesiredRevision = st_desiredRevision v \<rparr>"

definition variableViews :: "storedVariableValue list \<Rightarrow> DeploymentVariable list" where
  "variableViews = map variable_view"

definition ListVariables :: "PlanningStore \<Rightarrow> int \<Rightarrow> int \<Rightarrow> db \<Rightarrow> deploy_error + DeploymentVariable list" where
  "ListVariables ps projectID environmentID db =
     bindr (activeVariableValues ps projectID environmentID db) (\<lambda>vs. Ok (variableViews vs))"

definition RevealVariable ::
  "PlanningStore \<Rightarrow> int \<Rightarrow> int \<Rightarrow> string \<Rightarrow> db \<Rightarrow> deploy_error + VariableReveal" where
  "RevealVariable ps projectID environmentID name db =
     (if \<not> is_ok (ValidateEnvKey name) then Err (ErrInvalidVariable [])
      else bindr (activeVariableValues ps projectID environmentID db) (\<lambda>vs.
        case find (\<lambda>v. st_name v = name) vs of
          None \<Rightarrow> Err (ErrInvalidVariable [])
        | Some v \<Rightarrow> Ok \<lparr> rev_Name = name, rev_Value = st_value v, rev_Reference = reference_of (st_value v) \<rparr>))"

subsection \<open>A new revision of the plan\<close>

text \<open>
  \<open>INSERT INTO t SELECT ... WHERE environment_id = ? AND revision = ?\<close> and the check that it
  copied one row; \<open>(environment_id, revision)\<close> is unique.
\<close>

definition copy_revision ::
  "('r \<Rightarrow> bool) \<Rightarrow> ('r \<Rightarrow> bool) \<Rightarrow> ('r \<Rightarrow> 'r) \<Rightarrow> int \<Rightarrow> 'r list \<Rightarrow> deploy_error + 'r list" where
  "copy_revision is_current is_next renew current rows =
     (case filter is_current rows of
        [r] \<Rightarrow> if sql_exists is_next rows then Err (ErrUniqueConstraint ''environment_id, revision'')
               else Ok (rows @ [renew r])
      | _ \<Rightarrow> Err (ErrInvalidPlan (''revision '' @ int_dec current @ '' has incomplete plan rows'')))"

definition copy_source :: "int \<Rightarrow> int \<Rightarrow> go_time \<Rightarrow> db \<Rightarrow> deploy_error + db" where
  "copy_source environmentID current now db =
     bindr (copy_revision (\<lambda>r. src_environment_id r = environmentID \<and> src_revision r = current)
              (\<lambda>r. src_environment_id r = environmentID \<and> src_revision r = current + 1)
              (\<lambda>r. r\<lparr>src_id := next_source_id db, src_revision := current + 1, src_created_at := unix now\<rparr>)
              current (deploy_sources db))
       (\<lambda>rows. Ok (db\<lparr>deploy_sources := rows, next_source_id := next_source_id db + 1\<rparr>))"

definition copy_build_plan :: "int \<Rightarrow> int \<Rightarrow> go_time \<Rightarrow> db \<Rightarrow> deploy_error + db" where
  "copy_build_plan environmentID current now db =
     bindr (copy_revision (\<lambda>r. bp_environment_id r = environmentID \<and> bp_revision r = current)
              (\<lambda>r. bp_environment_id r = environmentID \<and> bp_revision r = current + 1)
              (\<lambda>r. r\<lparr>bp_id := next_build_plan_id db, bp_revision := current + 1, bp_created_at := unix now\<rparr>)
              current (deploy_build_plans db))
       (\<lambda>rows. Ok (db\<lparr>deploy_build_plans := rows, next_build_plan_id := next_build_plan_id db + 1\<rparr>))"

definition copy_runtime_plan :: "int \<Rightarrow> int \<Rightarrow> go_time \<Rightarrow> db \<Rightarrow> deploy_error + db" where
  "copy_runtime_plan environmentID current now db =
     bindr (copy_revision (\<lambda>r. rp_environment_id r = environmentID \<and> rp_revision r = current)
              (\<lambda>r. rp_environment_id r = environmentID \<and> rp_revision r = current + 1)
              (\<lambda>r. r\<lparr>rp_id := next_runtime_plan_id db, rp_revision := current + 1, rp_created_at := unix now\<rparr>)
              current (deploy_runtime_plans db))
       (\<lambda>rows. Ok (db\<lparr>deploy_runtime_plans := rows, next_runtime_plan_id := next_runtime_plan_id db + 1\<rparr>))"

definition advanceDesiredRevisionTx :: "int \<Rightarrow> int \<Rightarrow> int \<Rightarrow> go_time \<Rightarrow> db \<Rightarrow> deploy_error + int \<times> db" where
  "advanceDesiredRevisionTx projectID environmentID expected now db =
     (case find (live_environment projectID environmentID) (deploy_environments db) of
        None \<Rightarrow> Err ErrEnvironmentNotFound
      | Some e \<Rightarrow>
          let current = e_desired_revision e; next_revision = current + 1;
              updated = (\<lambda>r. live_environment projectID environmentID r \<and> e_desired_revision r = current) in
          if expected \<noteq> current then Err (ErrRevisionConflict current)
          else bindr (copy_source environmentID current now db) (\<lambda>db1.
               bindr (copy_build_plan environmentID current now db1) (\<lambda>db2.
               bindr (copy_runtime_plan environmentID current now db2) (\<lambda>db3.
               if sql_count updated (deploy_environments db3) \<noteq> 1 then Err (ErrRevisionConflict current)
               else Ok (next_revision, db3\<lparr>deploy_environments :=
                 sql_update updated (\<lambda>r. r\<lparr>e_desired_revision := next_revision, e_updated_at := unix now\<rparr>)
                   (deploy_environments db3)\<rparr>)))))"

subsection \<open>Writing a variable\<close>

definition same_variable :: "int \<Rightarrow> string \<Rightarrow> var_row \<Rightarrow> bool" where
  "same_variable environmentID name v = (v_environment_id v = environmentID \<and> v_key v = name)"

definition deactivate_variable :: "int \<Rightarrow> string \<Rightarrow> db \<Rightarrow> db" where
  "deactivate_variable environmentID name db =
     db\<lparr>deploy_variable_revisions :=
       sql_update (\<lambda>v. same_variable environmentID name v \<and> v_active v) (\<lambda>v. v\<lparr>v_active := False\<rparr>)
         (deploy_variable_revisions db)\<rparr>"

definition writeVariableRevisionTx ::
  "PlanningStore \<Rightarrow> int \<Rightarrow> string \<Rightarrow> string \<Rightarrow> string \<Rightarrow> string list \<Rightarrow> string \<Rightarrow> string \<Rightarrow> go_time
     \<Rightarrow> db \<Rightarrow> deploy_error + db" where
  "writeVariableRevisionTx ps environmentID name text sensitivity scopes actor nonce now db =
     (let sealed = Seal (pl_sealer ps) nonce text;
          revision = sql_max (same_variable environmentID name) v_revision (deploy_variable_revisions db) + 1;
          db1 = deactivate_variable environmentID name db in
      if \<not> sql_exists (\<lambda>e. e_id e = environmentID) (deploy_environments db) then Err ErrForeignKey
      else Ok (db1\<lparr>deploy_variable_revisions := deploy_variable_revisions db1 @
             [\<lparr> v_id = next_variable_id db1, v_environment_id = environmentID, v_key = name,
                v_revision = revision, v_sensitivity = sensitivity, v_scopes = join '','' scopes,
                v_value_enc = sealed, v_value_digest = digestBytes (pl_externals ps) [text], v_active = True,
                v_created_by = actor, v_created_at = unix now \<rparr>],
             next_variable_id := next_variable_id db1 + 1\<rparr>))"

definition active_values :: "PlanningStore \<Rightarrow> int \<Rightarrow> db \<Rightarrow> deploy_error + (string \<times> string) list" where
  "active_values ps environmentID db =
     bindr (each (\<lambda>v. bindr (open_value ps (v_value_enc v)) (\<lambda>plain. Ok (v_key v, plain)))
              (active_rows environmentID db)) (\<lambda>kvs. Ok (map_assign kvs))"

definition validateActiveVariableGraphTx :: "PlanningStore \<Rightarrow> int \<Rightarrow> db \<Rightarrow> deploy_error + unit" where
  "validateActiveVariableGraphTx ps environmentID db =
     bindr (active_values ps environmentID db) (\<lambda>kvs.
     bindr (ResolveVariableGraph kvs None) (\<lambda>_. Ok ()))"

text \<open>What a caller reads back after the commit: an error here leaves the write in place.\<close>

definition mutation_result ::
  "PlanningStore \<Rightarrow> int \<Rightarrow> int \<Rightarrow> string option \<Rightarrow> int \<Rightarrow> db \<Rightarrow> (deploy_error + VariableMutationResult) \<times> db" where
  "mutation_result ps projectID environmentID name desired db =
     (bindr (ListVariables ps projectID environmentID db) (\<lambda>vs.
        Ok \<lparr> mr_Variable = (case name of None \<Rightarrow> None | Some n \<Rightarrow> find (\<lambda>v. dv_Name v = n) vs),
             mr_Variables = vs, mr_GeneratedValue = [], mr_DesiredRevision = desired \<rparr>), db)"

definition put_variable_tx ::
  "PlanningStore \<Rightarrow> int \<Rightarrow> int \<Rightarrow> string \<Rightarrow> string \<Rightarrow> string \<Rightarrow> VariableWriteRequest \<Rightarrow> string \<Rightarrow> go_time
     \<Rightarrow> db \<Rightarrow> deploy_error + int \<times> db" where
  "put_variable_tx ps projectID environmentID name actor text request nonce now db =
     bindr (advanceDesiredRevisionTx projectID environmentID (vw_Revision request) now db) (\<lambda>(desired, db1).
     bindr (writeVariableRevisionTx ps environmentID name text (vw_Sensitivity request) (vw_Scopes request)
              actor nonce now db1) (\<lambda>db2.
     bindr (validateActiveVariableGraphTx ps environmentID db2) (\<lambda>_. Ok (desired, db2))))"

definition PutVariable ::
  "PlanningStore \<Rightarrow> int \<Rightarrow> int \<Rightarrow> string \<Rightarrow> string \<Rightarrow> VariableWriteRequest \<Rightarrow> string \<Rightarrow> go_time
     \<Rightarrow> db \<Rightarrow> (deploy_error + VariableMutationResult) \<times> db" where
  "PutVariable ps projectID environmentID name actor request nonce now db =
     (if \<not> is_ok (ValidateEnvKey name) then (Err (ErrInvalidVariable (''invalid name '' @ name)), db)
      else case validateVariableWrite request of
        Inl e \<Rightarrow> (Err e, db)
      | Inr text \<Rightarrow>
          (case put_variable_tx ps projectID environmentID name actor text request nonce now db of
             Inl e \<Rightarrow> (Err e, db)
           | Inr (desired, db') \<Rightarrow> mutation_result ps projectID environmentID (Some name) desired db'))"

text \<open>The 32 random bytes are an argument.\<close>

definition GenerateVariable ::
  "PlanningStore \<Rightarrow> int \<Rightarrow> int \<Rightarrow> string \<Rightarrow> string \<Rightarrow> int \<Rightarrow> string list \<Rightarrow> string \<Rightarrow> string \<Rightarrow> go_time
     \<Rightarrow> db \<Rightarrow> (deploy_error + VariableMutationResult) \<times> db" where
  "GenerateVariable ps projectID environmentID name actor revision scopes raw nonce now db =
     (let generated = b64_encode b64_url False raw;
          request = \<lparr> vw_Revision = revision, vw_Value = Some generated, vw_Reference = [],
                      vw_Sensitivity = ''secret'', vw_Scopes = scopes \<rparr> in
      case PutVariable ps projectID environmentID name actor request nonce now db of
        (Inl e, db') \<Rightarrow> (Err e, db')
      | (Inr result, db') \<Rightarrow> (Ok (result\<lparr>mr_GeneratedValue := generated\<rparr>), db'))"

definition RotateVariable ::
  "PlanningStore \<Rightarrow> int \<Rightarrow> int \<Rightarrow> string \<Rightarrow> string \<Rightarrow> int \<Rightarrow> string \<Rightarrow> string \<Rightarrow> go_time
     \<Rightarrow> db \<Rightarrow> (deploy_error + VariableMutationResult) \<times> db" where
  "RotateVariable ps projectID environmentID name actor revision raw nonce now db =
     (case activeVariableValues ps projectID environmentID db of
        Inl e \<Rightarrow> (Err e, db)
      | Inr vs \<Rightarrow>
          (case find (\<lambda>v. st_name v = name) vs of
             None \<Rightarrow> (Err (ErrInvalidVariable (name @ '' does not exist'')), db)
           | Some v \<Rightarrow>
               if st_sensitivity v \<noteq> ''secret''
               then (Err (ErrInvalidVariable ''only secret variables can be rotated''), db)
               else GenerateVariable ps projectID environmentID name actor revision (st_scopes v) raw nonce now db))"

subsection \<open>Importing and deleting\<close>

record DotenvImportRequest =
  di_Revision :: int
  di_Dotenv :: string
  di_Sensitivity :: string
  di_Scopes :: "string list"

fun write_each ::
  "PlanningStore \<Rightarrow> int \<Rightarrow> DotenvImportRequest \<Rightarrow> string \<Rightarrow> (nat \<Rightarrow> string) \<Rightarrow> go_time
     \<Rightarrow> (string \<times> string) list \<Rightarrow> nat \<Rightarrow> db \<Rightarrow> deploy_error + db" where
  "write_each ps environmentID request actor nonces now [] i db = Ok db"
| "write_each ps environmentID request actor nonces now ((name, text) # kvs) i db =
     bindr (writeVariableRevisionTx ps environmentID name text (di_Sensitivity request) (di_Scopes request)
              actor (nonces i) now db)
       (write_each ps environmentID request actor nonces now kvs (i + 1))"

definition import_dotenv_tx ::
  "PlanningStore \<Rightarrow> int \<Rightarrow> int \<Rightarrow> string \<Rightarrow> DotenvImportRequest \<Rightarrow> (string \<times> string) list \<Rightarrow> (nat \<Rightarrow> string)
     \<Rightarrow> go_time \<Rightarrow> db \<Rightarrow> deploy_error + int \<times> db" where
  "import_dotenv_tx ps projectID environmentID actor request parsed nonces now db =
     bindr (advanceDesiredRevisionTx projectID environmentID (di_Revision request) now db) (\<lambda>(desired, db1).
     bindr (write_each ps environmentID request actor nonces now (sort_key fst parsed) 0 db1) (\<lambda>db2.
     bindr (validateActiveVariableGraphTx ps environmentID db2) (\<lambda>_. Ok (desired, db2))))"

definition ImportDotenv ::
  "PlanningStore \<Rightarrow> int \<Rightarrow> int \<Rightarrow> string \<Rightarrow> DotenvImportRequest \<Rightarrow> (nat \<Rightarrow> string) \<Rightarrow> go_time
     \<Rightarrow> db \<Rightarrow> (deploy_error + VariableMutationResult) \<times> db" where
  "ImportDotenv ps projectID environmentID actor request nonces now db =
     (case ParseDotenv (di_Dotenv request) of
        Inl e \<Rightarrow> (Err e, db)
      | Inr parsed \<Rightarrow>
          if parsed = [] then (Err (ErrInvalidVariable ''dotenv input is empty''), db)
          else (case validateVariableWrite \<lparr> vw_Revision = di_Revision request, vw_Value = Some [],
                       vw_Reference = [], vw_Sensitivity = di_Sensitivity request,
                       vw_Scopes = di_Scopes request \<rparr> of
              Inl e \<Rightarrow> (Err e, db)
            | Inr _ \<Rightarrow>
                (case import_dotenv_tx ps projectID environmentID actor request parsed nonces now db of
                   Inl e \<Rightarrow> (Err e, db)
                 | Inr (desired, db') \<Rightarrow> mutation_result ps projectID environmentID None desired db')))"

definition DeleteVariable ::
  "PlanningStore \<Rightarrow> int \<Rightarrow> int \<Rightarrow> string \<Rightarrow> int \<Rightarrow> go_time \<Rightarrow> db \<Rightarrow> deploy_error + int \<times> db" where
  "DeleteVariable ps projectID environmentID name revision now db =
     (if \<not> is_ok (ValidateEnvKey name) then Err (ErrInvalidVariable [])
      else bindr (advanceDesiredRevisionTx projectID environmentID revision now db) (\<lambda>(desired, db1).
        if sql_count (\<lambda>v. same_variable environmentID name v \<and> v_active v) (deploy_variable_revisions db1) \<noteq> 1
        then Err (ErrInvalidVariable (name @ '' does not exist''))
        else let db2 = deactivate_variable environmentID name db1 in
          bindr (validateActiveVariableGraphTx ps environmentID db2) (\<lambda>_. Ok (desired, db2))))"

end
