(* ===== verification/Deploy_Scoped.thy ===== *)
theory Deploy_Scoped
  imports Deploy_Config
begin

text \<open>
  What the variables of an environment are read for: the values of one scope, either those active
  now (\<open>OpenScopedVariables\<close>) or those a run pinned when it was enqueued
  (\<open>OpenRunScopedVariables\<close>, both in deploy/planning_store.go), and the comparison of the desired
  inputs with those of the live release (\<open>PendingState\<close> of configuration_store.go). References to
  other features are resolved by an argument that gets the plan revision and the run.
\<close>

subsection \<open>Scoped values\<close>

type_synonym external_owner = "int \<Rightarrow> int \<Rightarrow> external_lookup"

definition valid_scope :: "string \<Rightarrow> bool" where
  "valid_scope scope = (scope = ''build'' \<or> scope = ''runtime'' \<or> scope = ''release_task'')"

definition scan_scoped :: "var_row \<Rightarrow> ScopedVariableValue" where
  "scan_scoped v =
     \<lparr> sv_Name = v_key v, sv_Value = [], sv_Sensitivity = v_sensitivity v,
       sv_Scopes = split_on (CHR '','') (v_scopes v), sv_ValueDigest = v_value_digest v \<rparr>"

definition open_scoped :: "PlanningStore \<Rightarrow> var_row \<Rightarrow> deploy_error + ScopedVariableValue" where
  "open_scoped ps v =
     (case open_value ps (v_value_enc v) of
        Inl _ \<Rightarrow> Err (ErrMessage (''deployment variable '' @ v_key v @ '' cannot be decrypted''))
      | Inr plain \<Rightarrow> Ok ((scan_scoped v)\<lparr>sv_Value := plain\<rparr>))"

definition OpenScopedVariables ::
  "PlanningStore \<Rightarrow> external_owner \<Rightarrow> int \<Rightarrow> string \<Rightarrow> db \<Rightarrow> deploy_error + ScopedVariableValue list" where
  "OpenScopedVariables ps external environmentID scope db =
     (if \<not> valid_scope scope then Err (ErrMessage (''invalid deployment variable scope '' @ scope))
      else bindr (each (open_scoped ps) (active_rows environmentID db)) (\<lambda>all.
        case find (\<lambda>e. e_id e = environmentID \<and> e_archived_at e = 0) (deploy_environments db) of
          None \<Rightarrow> Err ErrEnvironmentNotFound
        | Some e \<Rightarrow> resolveScopedVariableValues all scope (external (e_desired_revision e) 0)))"

text \<open>The rows a run pinned, in their order.\<close>

definition pinned_rows :: "int \<Rightarrow> int \<Rightarrow> db \<Rightarrow> var_row list" where
  "pinned_rows runID environmentID db =
     concat (map (\<lambda>rv. filter (\<lambda>v. v_id v = rv_variable_revision_id rv \<and> v_environment_id v = environmentID)
                         (deploy_variable_revisions db))
       (sort_key rv_ordinal (filter (\<lambda>rv. rv_run_id rv = runID) (deploy_run_variable_revisions db))))"

fun check_pinned :: "var_row list \<Rightarrow> string list \<Rightarrow> deploy_error + unit" where
  "check_pinned [] seen = Ok ()"
| "check_pinned (v # vs) seen =
     (if v_key v \<in> set seen \<or> \<not> contentDigestRE (v_value_digest v)
      then Err (ErrInvalidPlan ''run variable snapshot has invalid revision metadata'')
      else check_pinned vs (v_key v # seen))"

definition OpenRunScopedVariables ::
  "PlanningStore \<Rightarrow> external_owner \<Rightarrow> int \<Rightarrow> int \<Rightarrow> string \<Rightarrow> db \<Rightarrow> deploy_error + ScopedVariableValue list" where
  "OpenRunScopedVariables ps external runID environmentID scope db =
     (if \<not> valid_scope scope then Err (ErrMessage (''invalid deployment variable scope '' @ scope))
      else case (find (\<lambda>s. vs_run_id s = runID) (deploy_run_variable_snapshots db), run_by_id db runID) of
        (Some snapshot, Some run) \<Rightarrow>
          if vs_environment_id snapshot \<noteq> environmentID
          then Err (ErrInvalidPlan ''run variable snapshot belongs to another environment'')
          else let rows = pinned_rows runID environmentID db in
            bindr (check_pinned rows []) (\<lambda>_.
            if digestReleaseVariables (pl_externals ps) (map (\<lambda>v. ref_snapshot (scan_ref v)) rows) \<noteq> vs_digest snapshot
            then Err (ErrInvalidPlan ''run variable snapshot digest is inconsistent'')
            else bindr (each (open_scoped ps) rows) (\<lambda>all.
              resolveScopedVariableValues all scope (external (r_plan_revision run) runID)))
      | _ \<Rightarrow> Err (ErrInvalidPlan ''run has no variable snapshot''))"

subsection \<open>The pending state\<close>

record pending_state =
  pn_Pending :: bool
  pn_DesiredRevision :: int
  pn_LiveReleaseID :: int
  pn_LivePlanRevision :: int
  pn_Changes :: "PendingChange list"

definition variableDigestMap :: "var_row list \<Rightarrow> (string \<times> string) list" where
  "variableDigestMap rows = map_assign (map (\<lambda>v. (v_key v, v_value_digest v)) rows)"

definition live_variable_rows :: "int \<Rightarrow> db \<Rightarrow> var_row list" where
  "live_variable_rows runID db =
     sort_key v_key (concat (map (\<lambda>rv. filter (\<lambda>v. v_id v = rv_variable_revision_id rv) (deploy_variable_revisions db))
       (filter (\<lambda>rv. rv_run_id rv = runID) (deploy_run_variable_revisions db))))"

definition digest_change :: "string \<Rightarrow> string \<Rightarrow> string \<Rightarrow> string \<Rightarrow> PendingChange list" where
  "digest_change kind name before_digest after_digest =
     (if before_digest = after_digest then []
      else [\<lparr> pc_Kind = kind, pc_Name = name, pc_Change = ''changed'',
              pc_BeforeDigest = before_digest, pc_AfterDigest = after_digest \<rparr>])"

text \<open>\<open>sql.ErrNoRows\<close> of the statements that expect one row.\<close>

definition one_row :: "('r \<Rightarrow> 'a) \<Rightarrow> 'r option \<Rightarrow> deploy_error + 'a" where
  "one_row c r = (case r of None \<Rightarrow> Err (ErrMessage ''sql: no rows in result set'') | Some x \<Rightarrow> Ok (c x))"

definition plan_change :: "string \<Rightarrow> deploy_error + string \<Rightarrow> deploy_error + string \<Rightarrow> deploy_error + PendingChange list" where
  "plan_change kind before_query after_query =
     bindr before_query (\<lambda>before_digest. bindr after_query (\<lambda>after_digest.
     Ok (digest_change kind (kind @ '' plan'') before_digest after_digest)))"

text \<open>\<open>json.Marshal\<close> with its error dropped leaves no bytes.\<close>

definition marshal_or_empty :: "string list \<Rightarrow> string" where
  "marshal_or_empty raws = (case marshal_raws raws of Inl _ \<Rightarrow> [] | Inr s \<Rightarrow> s)"

definition current_dependencies :: "externals \<Rightarrow> int \<Rightarrow> db \<Rightarrow> deploy_error + string list" where
  "current_dependencies x environmentID db =
     query_raws (map (x_dep_json x)
       (sort_key (\<lambda>d. (d_kind d, d_resource_kind d, d_resource_id d))
         (filter (\<lambda>d. d_environment_id d = environmentID \<and> d_release_id d = 0) (deploy_dependencies db))))"

definition current_checks :: "externals \<Rightarrow> int \<Rightarrow> db \<Rightarrow> deploy_error + string list" where
  "current_checks x environmentID db =
     query_raws (map (x_check_json x)
       (sort_key (\<lambda>c. (k_ordinal c, k_name c))
         (filter (\<lambda>c. k_environment_id c = environmentID) (deploy_checks db))))"

definition pending_changes :: "externals \<Rightarrow> int \<Rightarrow> int \<Rightarrow> release_row \<Rightarrow> db \<Rightarrow> deploy_error + PendingChange list" where
  "pending_changes x environmentID desired live db =
     bindr (plan_change ''source''
       (one_row src_digest (find (\<lambda>r. src_id r = rel_source_id live) (deploy_sources db)))
       (one_row src_digest (find (\<lambda>r. src_environment_id r = environmentID \<and> src_revision r = desired) (deploy_sources db))))
       (\<lambda>c1.
     bindr (plan_change ''build''
       (one_row bp_digest (find (\<lambda>r. bp_id r = rel_build_plan_id live) (deploy_build_plans db)))
       (one_row bp_digest (find (\<lambda>r. bp_environment_id r = environmentID \<and> bp_revision r = desired) (deploy_build_plans db))))
       (\<lambda>c2.
     bindr (plan_change ''runtime''
       (one_row rp_digest (find (\<lambda>r. rp_id r = rel_runtime_plan_id live) (deploy_runtime_plans db)))
       (one_row rp_digest (find (\<lambda>r. rp_environment_id r = environmentID \<and> rp_revision r = desired) (deploy_runtime_plans db))))
       (\<lambda>c3.
     bindr (current_dependencies x environmentID db) (\<lambda>dependencies.
     bindr (one_row id (find (\<lambda>p. ps_run_id p = rel_run_id live) (deploy_run_plan_snapshots db))) (\<lambda>snapshot.
     bindr (current_checks x environmentID db) (\<lambda>checks.
     Ok (c1 @ c2 @ c3 @
         diffNamedDigests ''variable'' (variableDigestMap (live_variable_rows (rel_run_id live) db))
           (variableDigestMap (active_rows environmentID db)) @
         digest_change ''dependency'' ''dependencies''
           (digestBytes x [ps_dependencies_json snapshot]) (digestBytes x [marshal_or_empty dependencies]) @
         digest_change ''check'' ''health checks''
           (digestBytes x [ps_checks_json snapshot]) (digestBytes x [marshal_or_empty checks]))))))))"

definition PendingState :: "externals \<Rightarrow> int \<Rightarrow> int \<Rightarrow> db \<Rightarrow> deploy_error + pending_state" where
  "PendingState x projectID environmentID db =
     (case find (live_environment projectID environmentID) (deploy_environments db) of
        None \<Rightarrow> Err ErrEnvironmentNotFound
      | Some e \<Rightarrow>
          let desired = e_desired_revision e; liveID = e_live_release_id e in
          if liveID = 0
          then Ok \<lparr> pn_Pending = True, pn_DesiredRevision = desired, pn_LiveReleaseID = 0, pn_LivePlanRevision = 0,
                    pn_Changes = [\<lparr> pc_Kind = ''deployment'', pc_Name = ''first release'', pc_Change = ''added'',
                                     pc_BeforeDigest = [], pc_AfterDigest = [] \<rparr>] \<rparr>
          else
            bindr (one_row id (find (\<lambda>r. rel_id r = liveID \<and> rel_environment_id r = environmentID) (deploy_releases db)))
              (\<lambda>live.
            bindr (pending_changes x environmentID desired live db) (\<lambda>changes.
            Ok \<lparr> pn_Pending = (rel_plan_revision live \<noteq> desired \<or> changes \<noteq> []), pn_DesiredRevision = desired,
                 pn_LiveReleaseID = liveID, pn_LivePlanRevision = rel_plan_revision live, pn_Changes = changes \<rparr>)))"

end
