(* ===== verification/Deploy_Config_Machine.thy ===== *)
theory Deploy_Config_Machine
  imports Deploy_Scoped
begin

text \<open>
  The variable operations as steps on the store. What every one of them keeps is stated once, as the
  locale \<open>config_operation\<close>: the tables of the orchestration are not written, no revision of a
  variable is ever changed except for being deactivated, at most one revision of a variable is
  active, and the references of every environment resolve. The locale gives the invariant of the
  orchestration and the pinned values of a run; it is interpreted on the five operations.
\<close>

subsection \<open>What a write changes\<close>

definition engine_tables :: "db \<Rightarrow> _" where
  "engine_tables db =
     (deploy_runs db, deploy_steps db, deploy_log_chunks db, deploy_queue_leases db,
      deploy_run_variable_snapshots db, deploy_run_variable_revisions db, deploy_run_plan_snapshots db,
      deploy_dependencies db, deploy_checks db, deploy_releases db, deploy_release_runtimes db,
      deploy_port_leases db, next_run_id db, next_step_id db, next_port_lease_id db)"

definition env_identity :: "env_row \<Rightarrow> env_row" where
  "env_identity e = e\<lparr>e_desired_revision := 0, e_updated_at := 0\<rparr>"

definition frozen :: "var_row \<Rightarrow> var_row" where
  "frozen v = v\<lparr>v_active := False\<rparr>"

definition vars_grow :: "int \<Rightarrow> var_row list \<Rightarrow> var_row list \<Rightarrow> bool" where
  "vars_grow n vs vs' \<longleftrightarrow> (\<exists>new. map frozen vs' = map frozen vs @ map frozen new \<and> (\<forall>v \<in> set new. n \<le> v_id v))"

definition var_step :: "db \<Rightarrow> db \<Rightarrow> bool" where
  "var_step db db' \<longleftrightarrow>
     engine_tables db' = engine_tables db \<and>
     map env_identity (deploy_environments db') = map env_identity (deploy_environments db) \<and>
     next_variable_id db \<le> next_variable_id db' \<and>
     vars_grow (next_variable_id db) (deploy_variable_revisions db) (deploy_variable_revisions db')"

definition var_inv :: "db \<Rightarrow> bool" where
  "var_inv db \<longleftrightarrow>
     distinct (map v_id (deploy_variable_revisions db)) \<and>
     (\<forall>v \<in> set (deploy_variable_revisions db). v_id v < next_variable_id db) \<and>
     distinct (map (\<lambda>v. (v_environment_id v, v_key v, v_revision v)) (deploy_variable_revisions db)) \<and>
     distinct (map (\<lambda>v. (v_environment_id v, v_key v)) (filter v_active (deploy_variable_revisions db)))"

definition graph_ok :: "PlanningStore \<Rightarrow> int \<Rightarrow> db \<Rightarrow> bool" where
  "graph_ok ps environmentID db \<longleftrightarrow> is_ok (validateActiveVariableGraphTx ps environmentID db)"

definition graphs_ok :: "PlanningStore \<Rightarrow> db \<Rightarrow> bool" where
  "graphs_ok ps db \<longleftrightarrow> (\<forall>k. graph_ok ps k db)"

lemma frozen_simps [simp]:
  "v_id (frozen v) = v_id v" "v_environment_id (frozen v) = v_environment_id v" "v_key (frozen v) = v_key v"
  "v_revision (frozen v) = v_revision v" "v_value_enc (frozen v) = v_value_enc v"
  "v_value_digest (frozen v) = v_value_digest v" "v_sensitivity (frozen v) = v_sensitivity v"
  "v_scopes (frozen v) = v_scopes v" "frozen (v\<lparr>v_active := b\<rparr>) = frozen v"
  by (simp_all add: frozen_def)

lemma vars_grow_refl: "vars_grow n vs vs"
  unfolding vars_grow_def by (intro exI [of _ "[]"]) simp

lemma vars_grow_trans:
  assumes "vars_grow n vs vs'" and "vars_grow m vs' vs''" and "n \<le> m"
  shows "vars_grow n vs vs''"
proof -
  obtain a b where "map frozen vs' = map frozen vs @ map frozen a" "\<forall>v \<in> set a. n \<le> v_id v"
    "map frozen vs'' = map frozen vs' @ map frozen b" "\<forall>v \<in> set b. m \<le> v_id v"
    using assms by (auto simp: vars_grow_def)
  then show ?thesis using assms(3) unfolding vars_grow_def by (intro exI [of _ "a @ b"]) auto
qed

lemma var_step_refl: "var_step db db"
  by (simp add: var_step_def vars_grow_refl)

lemma var_step_trans: "var_step a b \<Longrightarrow> var_step b c \<Longrightarrow> var_step a c"
  unfolding var_step_def using vars_grow_trans by auto

subsection \<open>The parts of a write\<close>

lemma find_live_update:
  assumes "\<And>e. c (f e) = c e"
  shows "map c (sql_update p f rows) = map c rows"
  using assms by (rule map_sql_update_same)

lemma advance_effect:
  assumes "advanceDesiredRevisionTx projectID environmentID expected now db = Ok (desired, db')"
  shows "\<exists>e \<in> set (deploy_environments db). live_environment projectID environmentID e \<and>
           expected = e_desired_revision e \<and> desired = expected + 1 \<and>
           engine_tables db' = engine_tables db \<and>
           deploy_environments db' = sql_update (\<lambda>r. live_environment projectID environmentID r \<and> e_desired_revision r = expected)
             (\<lambda>r. r\<lparr>e_desired_revision := desired, e_updated_at := unix now\<rparr>) (deploy_environments db) \<and>
           deploy_variable_revisions db' = deploy_variable_revisions db \<and>
           next_variable_id db' = next_variable_id db"
proof -
  obtain e where e: "find (live_environment projectID environmentID) (deploy_environments db) = Some e"
    using assms by (auto simp: advanceDesiredRevisionTx_def split: option.splits)
  have "e \<in> set (deploy_environments db)" "live_environment projectID environmentID e"
    using find_Some_in [OF e] by auto
  moreover from assms have "expected = e_desired_revision e"
    by (auto simp: advanceDesiredRevisionTx_def e Let_def split: if_splits)
  ultimately show ?thesis
    using assms
    by (intro bexI [of _ e]) (auto simp: advanceDesiredRevisionTx_def e Let_def bindr_eq_Ok copy_source_def
        copy_build_plan_def copy_runtime_plan_def engine_tables_def split: if_splits)
qed

lemma advance_step:
  assumes "advanceDesiredRevisionTx projectID environmentID expected now db = Ok (desired, db')"
  shows "var_step db db'"
proof -
  from advance_effect [OF assms] have "engine_tables db' = engine_tables db"
    and envs: "deploy_environments db' = sql_update (\<lambda>r. live_environment projectID environmentID r \<and> e_desired_revision r = expected)
             (\<lambda>r. r\<lparr>e_desired_revision := desired, e_updated_at := unix now\<rparr>) (deploy_environments db)"
    and "deploy_variable_revisions db' = deploy_variable_revisions db" "next_variable_id db' = next_variable_id db"
    by auto
  then show ?thesis
    by (simp add: var_step_def vars_grow_refl envs map_sql_update_same env_identity_def)
qed

lemma deactivate_frozen:
  "map frozen (deploy_variable_revisions (deactivate_variable k name db)) = map frozen (deploy_variable_revisions db)"
  by (simp add: deactivate_variable_def map_sql_update_same)

lemma deactivate_step: "var_step db (deactivate_variable k name db)"
  unfolding var_step_def vars_grow_def
  by (auto simp: deactivate_frozen deactivate_variable_def engine_tables_def map_sql_update_same
      intro: exI [of _ "[]"])

lemma map_frozen_via: "(\<And>v. c (frozen v) = c v) \<Longrightarrow> map frozen vs' = map frozen vs \<Longrightarrow> map c vs' = map c vs"
  by (metis (mono_tags, lifting) map_eq_conv map_map comp_apply)

lemma active_after_deactivate:
  "filter v_active (deploy_variable_revisions (deactivate_variable k name db))
     = filter (\<lambda>v. v_active v \<and> \<not> same_variable k name v) (deploy_variable_revisions db)"
proof -
  have "filter v_active (sql_update (\<lambda>v. same_variable k name v \<and> v_active v) (\<lambda>v. v\<lparr>v_active := False\<rparr>) vs)
      = filter (\<lambda>v. v_active v \<and> \<not> same_variable k name v) vs" for vs
    by (induction vs) auto
  then show ?thesis by (simp add: deactivate_variable_def)
qed

lemma deactivate_inv:
  assumes "var_inv db"
  shows "var_inv (deactivate_variable k name db)"
proof -
  let ?vs = "deploy_variable_revisions db"
  let ?vs' = "deploy_variable_revisions (deactivate_variable k name db)"
  have next_id: "next_variable_id (deactivate_variable k name db) = next_variable_id db"
    by (simp add: deactivate_variable_def)
  note same = map_frozen_via [OF _ deactivate_frozen]
  have ids: "map v_id ?vs' = map v_id ?vs"
    and revisions: "map (\<lambda>v. (v_environment_id v, v_key v, v_revision v)) ?vs' = map (\<lambda>v. (v_environment_id v, v_key v, v_revision v)) ?vs"
    by (rule same, simp)+
  have below: "\<forall>v \<in> set ?vs'. v_id v < next_variable_id db"
    using assms ids unfolding var_inv_def by (metis (mono_tags, lifting) image_iff set_map)
  have "filter v_active ?vs' = filter (\<lambda>v. \<not> same_variable k name v) (filter v_active ?vs)"
    unfolding active_after_deactivate by (simp add: conj_commute)
  then have "distinct (map (\<lambda>v. (v_environment_id v, v_key v)) (filter v_active ?vs'))"
    using assms distinct_map_filter' unfolding var_inv_def by metis
  with assms below show ?thesis unfolding var_inv_def ids revisions next_id by blast
qed

lemma write_effect:
  assumes "writeVariableRevisionTx ps k name raw sensitivity scopes actor nonce now db = Ok db'"
  shows "\<exists>row. db' = (deactivate_variable k name db)\<lparr>deploy_variable_revisions :=
            deploy_variable_revisions (deactivate_variable k name db) @ [row], next_variable_id := next_variable_id db + 1\<rparr> \<and>
          row = \<lparr> v_id = next_variable_id db, v_environment_id = k, v_key = name,
                v_revision = sql_max (same_variable k name) v_revision (deploy_variable_revisions db) + 1,
                v_sensitivity = sensitivity, v_scopes = join '','' scopes,
                v_value_enc = Seal (pl_sealer ps) nonce raw, v_value_digest = digestBytes (pl_externals ps) [raw],
                v_active = True, v_created_by = actor, v_created_at = unix now \<rparr>"
  using assms by (auto simp: writeVariableRevisionTx_def Let_def deactivate_variable_def split: if_splits)

lemma write_step:
  assumes "writeVariableRevisionTx ps k name raw sensitivity scopes actor nonce now db = Ok db'"
  shows "var_step db db'"
proof -
  from write_effect [OF assms] obtain row where db': "db' = (deactivate_variable k name db)\<lparr>deploy_variable_revisions :=
      deploy_variable_revisions (deactivate_variable k name db) @ [row], next_variable_id := next_variable_id db + 1\<rparr>"
    and "v_id row = next_variable_id db" by auto
  then show ?thesis
    using deactivate_step [of db k name] unfolding var_step_def vars_grow_def
    by (auto simp: engine_tables_def deactivate_frozen intro!: exI [of _ "[row]"])
qed

lemma write_inv:
  assumes "writeVariableRevisionTx ps k name raw sensitivity scopes actor nonce now db = Ok db'" and "var_inv db"
  shows "var_inv db'"
proof -
  from write_effect [OF assms(1)] obtain row where db': "db' = (deactivate_variable k name db)\<lparr>deploy_variable_revisions :=
      deploy_variable_revisions (deactivate_variable k name db) @ [row], next_variable_id := next_variable_id db + 1\<rparr>"
    and row: "v_id row = next_variable_id db" "v_environment_id row = k" "v_key row = name" "v_active row"
      "v_revision row = sql_max (same_variable k name) v_revision (deploy_variable_revisions db) + 1" by auto
  let ?db1 = "deactivate_variable k name db"
  let ?vs1 = "deploy_variable_revisions ?db1"
  have inv: "var_inv ?db1" using assms(2) by (rule deactivate_inv)
  have next_id: "next_variable_id ?db1 = next_variable_id db" by (simp add: deactivate_variable_def)
  have below: "\<forall>v \<in> set ?vs1. v_id v < next_variable_id db" using inv by (simp add: var_inv_def next_id)
  have revisions: "map (\<lambda>v. (v_environment_id v, v_key v, v_revision v)) ?vs1
        = map (\<lambda>v. (v_environment_id v, v_key v, v_revision v)) (deploy_variable_revisions db)"
    by (rule map_frozen_via [OF _ deactivate_frozen]) simp
  have fresh: "(k, name, v_revision row) \<notin> (\<lambda>v. (v_environment_id v, v_key v, v_revision v)) ` set ?vs1"
  proof
    assume "(k, name, v_revision row) \<in> (\<lambda>v. (v_environment_id v, v_key v, v_revision v)) ` set ?vs1"
    then have "(k, name, v_revision row) \<in> (\<lambda>v. (v_environment_id v, v_key v, v_revision v)) ` set (deploy_variable_revisions db)"
      by (simp only: arg_cong [OF revisions, of set, unfolded set_map])
    then obtain v where "v \<in> set (deploy_variable_revisions db)" "same_variable k name v" "v_revision v = v_revision row"
      by (auto simp: same_variable_def)
    with sql_max_upper [of v "deploy_variable_revisions db" "same_variable k name" v_revision] row(5) show False by simp
  qed
  have inactive: "(k, name) \<notin> (\<lambda>v. (v_environment_id v, v_key v)) ` set (filter v_active ?vs1)"
    unfolding active_after_deactivate by (auto simp: same_variable_def)
  have vs': "deploy_variable_revisions db' = ?vs1 @ [row]" "next_variable_id db' = next_variable_id db + 1"
    by (simp_all add: db')
  have "distinct (map v_id (deploy_variable_revisions db'))"
    using inv below by (auto simp: var_inv_def vs' row(1))
  moreover have "\<forall>v \<in> set (deploy_variable_revisions db'). v_id v < next_variable_id db'"
    using below by (auto simp: vs' row(1))
  moreover have "distinct (map (\<lambda>v. (v_environment_id v, v_key v, v_revision v)) (deploy_variable_revisions db'))"
    using inv fresh by (simp add: var_inv_def vs'(1) row(2,3))
  moreover have "distinct (map (\<lambda>v. (v_environment_id v, v_key v)) (filter v_active (deploy_variable_revisions db')))"
    using inv inactive by (simp add: var_inv_def vs'(1) row(2,3,4))
  ultimately show ?thesis unfolding var_inv_def by blast
qed

subsection \<open>Active rows\<close>

lemma active_rows_cong:
  "deploy_variable_revisions db' = deploy_variable_revisions db \<Longrightarrow> active_rows k db' = active_rows k db"
  by (simp add: active_rows_def)

lemma active_rows_deactivate:
  "active_rows k' (deactivate_variable k name db) =
     (if k' = k then filter (\<lambda>v. v_key v \<noteq> name) (active_rows k db) else active_rows k' db)"
proof -
  have "filter (active_variable k') (sql_update (\<lambda>v. same_variable k name v \<and> v_active v) (\<lambda>v. v\<lparr>v_active := False\<rparr>) vs)
      = (if k' = k then filter (\<lambda>v. v_key v \<noteq> name) (filter (active_variable k) vs) else filter (active_variable k') vs)" for vs
    by (induction vs) (auto simp: active_variable_def [abs_def] same_variable_def)
  then show ?thesis by (simp add: active_rows_def deactivate_variable_def filter_sort del: filter_filter)
qed

lemma active_rows_write:
  assumes "writeVariableRevisionTx ps k name raw sensitivity scopes actor nonce now db = Ok db'" and "k' \<noteq> k"
  shows "active_rows k' db' = active_rows k' db"
proof -
  from write_effect [OF assms(1)] obtain row where db': "db' = (deactivate_variable k name db)\<lparr>deploy_variable_revisions :=
      deploy_variable_revisions (deactivate_variable k name db) @ [row], next_variable_id := next_variable_id db + 1\<rparr>"
    and "v_environment_id row = k" by auto
  then have "active_rows k' db' = active_rows k' (deactivate_variable k name db)"
    using assms(2) by (simp add: active_rows_def active_variable_def)
  with assms(2) show ?thesis by (simp add: active_rows_deactivate)
qed

lemma graph_ok_rows: "active_rows k db' = active_rows k db \<Longrightarrow> graph_ok ps k db' = graph_ok ps k db"
  by (simp add: graph_ok_def validateActiveVariableGraphTx_def active_values_def)

subsection \<open>One write\<close>

definition config_write :: "PlanningStore \<Rightarrow> int \<Rightarrow> db \<Rightarrow> db \<Rightarrow> bool" where
  "config_write ps k db db' \<longleftrightarrow>
     var_step db db' \<and> (var_inv db \<longrightarrow> var_inv db') \<and> graph_ok ps k db' \<and>
     (\<forall>k'. k' \<noteq> k \<longrightarrow> active_rows k' db' = active_rows k' db)"

definition variable_edit :: "int \<Rightarrow> db \<Rightarrow> db \<Rightarrow> bool" where
  "variable_edit k db db' \<longleftrightarrow>
     var_step db db' \<and> (var_inv db \<longrightarrow> var_inv db') \<and> (\<forall>k'. k' \<noteq> k \<longrightarrow> active_rows k' db' = active_rows k' db)"

lemma variable_edit_refl: "variable_edit k db db"
  by (simp add: variable_edit_def var_step_refl)

lemma variable_edit_trans: "variable_edit k a b \<Longrightarrow> variable_edit k b c \<Longrightarrow> variable_edit k a c"
  unfolding variable_edit_def using var_step_trans by fastforce

lemma variable_edit_advance:
  assumes "advanceDesiredRevisionTx p k expected now db = Ok (desired, db')"
  shows "variable_edit k db db'"
proof -
  have same: "deploy_variable_revisions db' = deploy_variable_revisions db" "next_variable_id db' = next_variable_id db"
    using advance_effect [OF assms] by auto
  then have "var_inv db' = var_inv db" by (simp add: var_inv_def)
  with advance_step [OF assms] show ?thesis by (simp add: variable_edit_def active_rows_cong [OF same(1)])
qed

lemma variable_edit_write:
  assumes "writeVariableRevisionTx ps k name raw sensitivity scopes actor nonce now db = Ok db'"
  shows "variable_edit k db db'"
  using write_step [OF assms] write_inv [OF assms] active_rows_write [OF assms] by (simp add: variable_edit_def)

lemma variable_edit_deactivate: "variable_edit k db (deactivate_variable k name db)"
  using deactivate_step deactivate_inv by (simp add: variable_edit_def active_rows_deactivate)

lemma variable_edit_each:
  "write_each ps k request actor nonces now kvs i db = Ok db' \<Longrightarrow> variable_edit k db db'"
proof (induction ps k request actor nonces now kvs i db arbitrary: db' rule: write_each.induct)
  case (2 ps k request actor nonces now name raw kvs i db)
  then obtain db1 where "writeVariableRevisionTx ps k name raw (di_Sensitivity request) (di_Scopes request) actor (nonces i) now db = Ok db1"
    and "write_each ps k request actor nonces now kvs (i + 1) db1 = Ok db'" by (auto simp: bindr_eq_Ok)
  with "2.IH" show ?case by (blast intro: variable_edit_trans variable_edit_write)
qed (simp add: variable_edit_refl)

lemma config_write_edit: "variable_edit k db db' \<Longrightarrow> graph_ok ps k db' \<Longrightarrow> config_write ps k db db'"
  by (simp add: variable_edit_def config_write_def)

lemma put_variable_tx_Ok:
  assumes "put_variable_tx ps p k name actor raw request nonce now db = Ok (desired, db')"
  shows "\<exists>db1. advanceDesiredRevisionTx p k (vw_Revision request) now db = Ok (desired, db1) \<and>
           writeVariableRevisionTx ps k name raw (vw_Sensitivity request) (vw_Scopes request) actor nonce now db1 = Ok db' \<and>
           graph_ok ps k db'"
  using assms by (auto simp: put_variable_tx_def bindr_eq_Ok graph_ok_def)

lemma put_variable_tx_write:
  assumes "put_variable_tx ps p k name actor raw request nonce now db = Ok (desired, db')"
  shows "config_write ps k db db'"
proof -
  from put_variable_tx_Ok [OF assms] obtain db1
    where "advanceDesiredRevisionTx p k (vw_Revision request) now db = Ok (desired, db1)"
      "writeVariableRevisionTx ps k name raw (vw_Sensitivity request) (vw_Scopes request) actor nonce now db1 = Ok db'"
      "graph_ok ps k db'" by blast
  then show ?thesis
    by (blast intro: config_write_edit variable_edit_trans variable_edit_advance variable_edit_write)
qed

lemma PutVariable_write:
  "snd (PutVariable ps p k name actor request nonce now db) = db \<or>
   config_write ps k db (snd (PutVariable ps p k name actor request nonce now db))"
  by (auto simp: PutVariable_def mutation_result_def split: sum.split prod.split dest!: put_variable_tx_write)

lemma GenerateVariable_db:
  "\<exists>request. snd (GenerateVariable ps p k name actor revision scopes raw nonce now db)
     = snd (PutVariable ps p k name actor request nonce now db)"
  unfolding GenerateVariable_def Let_def
  by (rule exI [of _ "\<lparr> vw_Revision = revision, vw_Value = Some (b64_encode b64_url False raw), vw_Reference = [],
        vw_Sensitivity = ''secret'', vw_Scopes = scopes \<rparr>"]) (simp split: prod.split sum.split)

lemma GenerateVariable_write:
  "snd (GenerateVariable ps p k name actor revision scopes raw nonce now db) = db \<or>
   config_write ps k db (snd (GenerateVariable ps p k name actor revision scopes raw nonce now db))"
  using GenerateVariable_db [of ps p k name actor revision scopes raw nonce now db] PutVariable_write by metis

lemma RotateVariable_write:
  "snd (RotateVariable ps p k name actor revision raw nonce now db) = db \<or>
   config_write ps k db (snd (RotateVariable ps p k name actor revision raw nonce now db))"
  using GenerateVariable_write by (auto simp: RotateVariable_def split: sum.split option.split)

lemma import_dotenv_tx_write:
  assumes "import_dotenv_tx ps p k actor request parsed nonces now db = Ok (desired, db')"
  shows "config_write ps k db db'"
proof -
  obtain db1 where "advanceDesiredRevisionTx p k (di_Revision request) now db = Ok (desired, db1)"
    "write_each ps k request actor nonces now (sort_key fst parsed) 0 db1 = Ok db'" "graph_ok ps k db'"
    using assms by (auto simp: import_dotenv_tx_def bindr_eq_Ok graph_ok_def)
  then show ?thesis
    by (blast intro: config_write_edit variable_edit_trans variable_edit_advance variable_edit_each)
qed

lemma ImportDotenv_write:
  "snd (ImportDotenv ps p k actor request nonces now db) = db \<or>
   config_write ps k db (snd (ImportDotenv ps p k actor request nonces now db))"
  by (auto simp: ImportDotenv_def mutation_result_def split: sum.split prod.split dest!: import_dotenv_tx_write)

definition delete_variable :: "PlanningStore \<Rightarrow> int \<Rightarrow> int \<Rightarrow> string \<Rightarrow> int \<Rightarrow> go_time \<Rightarrow> db \<Rightarrow> db" where
  "delete_variable ps p k name revision now db =
     (case DeleteVariable ps p k name revision now db of Inl _ \<Rightarrow> db | Inr (_, db') \<Rightarrow> db')"

lemma DeleteVariable_write:
  assumes "DeleteVariable ps p k name revision now db = Ok (desired, db')"
  shows "config_write ps k db db'"
proof -
  obtain db1 where "advanceDesiredRevisionTx p k revision now db = Ok (desired, db1)"
    "db' = deactivate_variable k name db1" "graph_ok ps k db'"
    using assms by (auto simp: DeleteVariable_def bindr_eq_Ok graph_ok_def Let_def split: if_splits)
  then show ?thesis
    using config_write_edit variable_edit_trans variable_edit_advance variable_edit_deactivate by blast
qed

lemma delete_variable_write:
  "delete_variable ps p k name revision now db = db \<or> config_write ps k db (delete_variable ps p k name revision now db)"
  by (auto simp: delete_variable_def split: sum.split dest: DeleteVariable_write)

subsection \<open>What pinned values depend on\<close>

definition pins_known :: "int \<Rightarrow> db \<Rightarrow> bool" where
  "pins_known runID db \<longleftrightarrow>
     (\<forall>rv \<in> set (deploy_run_variable_revisions db). rv_run_id rv = runID \<longrightarrow>
        rv_variable_revision_id rv < next_variable_id db)"

lemma filter_frozen:
  assumes "vars_grow n vs vs'" and "i < n"
  shows "map frozen (filter (\<lambda>v. v_id v = i \<and> v_environment_id v = k) vs')
       = map frozen (filter (\<lambda>v. v_id v = i \<and> v_environment_id v = k) vs)"
proof -
  obtain new where new: "map frozen vs' = map frozen vs @ map frozen new" "\<forall>v \<in> set new. n \<le> v_id v"
    using assms(1) by (auto simp: vars_grow_def)
  have commute: "map frozen (filter (\<lambda>v. v_id v = i \<and> v_environment_id v = k) xs)
      = filter (\<lambda>v. v_id v = i \<and> v_environment_id v = k) (map frozen xs)" for xs
    by (induction xs) auto
  have "filter (\<lambda>v. v_id v = i \<and> v_environment_id v = k) (map frozen new) = []"
    using new(2) assms(2) by (auto simp: filter_empty_conv)
  then show ?thesis by (simp add: commute new(1))
qed

definition pins_of :: "int \<Rightarrow> db \<Rightarrow> run_var_row list" where
  "pins_of runID db = filter (\<lambda>rv. rv_run_id rv = runID) (deploy_run_variable_revisions db)"

lemma pinned_rows_kept:
  assumes "vars_grow (next_variable_id db) (deploy_variable_revisions db) (deploy_variable_revisions db')"
    and "pins_of runID db' = pins_of runID db" and "pins_known runID db"
  shows "map frozen (pinned_rows runID k db') = map frozen (pinned_rows runID k db)"
proof -
  let ?rvs = "sort_key rv_ordinal (filter (\<lambda>rv. rv_run_id rv = runID) (deploy_run_variable_revisions db))"
  note same = assms(2) [unfolded pins_of_def]
  let ?f = "\<lambda>db rv. map frozen (filter (\<lambda>v. v_id v = rv_variable_revision_id rv \<and> v_environment_id v = k)
      (deploy_variable_revisions db))"
  have "map (?f db') ?rvs = map (?f db) ?rvs"
  proof (rule map_cong [OF refl])
    fix rv assume "rv \<in> set ?rvs"
    with assms show "?f db' rv = ?f db rv"
      by (intro filter_frozen [where n = "next_variable_id db"]) (auto simp: pins_known_def)
  qed
  then show ?thesis by (simp only: pinned_rows_def same map_concat map_map comp_def)
qed

lemma check_pinned_frozen: "check_pinned (map frozen vs) seen = check_pinned vs seen"
  by (induction vs arbitrary: seen) auto

lemma open_scoped_frozen: "each (open_scoped ps) (map frozen vs) = each (open_scoped ps) vs"
proof (induction vs)
  case (Cons v vs)
  have "open_scoped ps (frozen v) = open_scoped ps v"
    by (cases "open_value ps (v_value_enc v)") (simp_all add: open_scoped_def scan_scoped_def)
  with Cons show ?case by simp
qed simp

lemma scan_ref_frozen: "map (\<lambda>v. ref_snapshot (scan_ref v)) (map frozen vs) = map (\<lambda>v. ref_snapshot (scan_ref v)) vs"
  by (simp add: scan_ref_def)

lemma OpenRunScopedVariables_cong:
  assumes "map frozen (pinned_rows runID k db') = map frozen (pinned_rows runID k db)"
    and "find (\<lambda>s. vs_run_id s = runID) (deploy_run_variable_snapshots db') = find (\<lambda>s. vs_run_id s = runID) (deploy_run_variable_snapshots db)"
    and "map_option r_plan_revision (run_by_id db' runID) = map_option r_plan_revision (run_by_id db runID)"
  shows "OpenRunScopedVariables ps ext runID k scope db' = OpenRunScopedVariables ps ext runID k scope db"
proof -
  have "check_pinned (pinned_rows runID k db') seen = check_pinned (pinned_rows runID k db) seen" for seen
    using check_pinned_frozen assms(1) by metis
  note a = this
  have b: "each (open_scoped ps) (pinned_rows runID k db') = each (open_scoped ps) (pinned_rows runID k db)"
    using open_scoped_frozen assms(1) by metis
  have c: "map (\<lambda>v. ref_snapshot (scan_ref v)) (pinned_rows runID k db') = map (\<lambda>v. ref_snapshot (scan_ref v)) (pinned_rows runID k db)"
    using scan_ref_frozen assms(1) by metis
  show ?thesis
  proof (cases "run_by_id db runID")
    case None
    with assms(3) have "run_by_id db' runID = None" by simp
    then show ?thesis unfolding OpenRunScopedVariables_def None assms(2) by (simp split: option.split)
  next
    case (Some r)
    with assms(3) obtain r' where r': "run_by_id db' runID = Some r'" "r_plan_revision r' = r_plan_revision r" by auto
    show ?thesis unfolding OpenRunScopedVariables_def Let_def a b c assms(2) Some r' option.case prod.case ..
  qed
qed

subsection \<open>The operations\<close>

lemma config_write_graphs: "config_write ps k db db' \<Longrightarrow> graphs_ok ps db \<Longrightarrow> graphs_ok ps db'"
  unfolding graphs_ok_def
proof
  fix k'
  assume w: "config_write ps k db db'" and g: "\<forall>k. graph_ok ps k db"
  show "graph_ok ps k' db'"
  proof (cases "k' = k")
    case True
    with w show ?thesis by (simp add: config_write_def)
  next
    case False
    with w have "active_rows k' db' = active_rows k' db" by (simp add: config_write_def)
    from graph_ok_rows [OF this] g show ?thesis by simp
  qed
qed

lemma live_inv_envs:
  assumes "map env_identity (deploy_environments db') = map env_identity (deploy_environments db)"
    and "deploy_releases db' = deploy_releases db" and "live_inv db"
  shows "live_inv db'"
proof -
  let ?pair = "\<lambda>e. (e_id e, e_live_release_id e)"
  have "map ?pair rows = map ?pair (map env_identity rows)" for rows by (simp add: env_identity_def)
  with assms(1) have pairs: "map ?pair (deploy_environments db') = map ?pair (deploy_environments db)" by metis
  have ids: "map e_id (deploy_environments db') = map e_id (deploy_environments db)"
    using map_via [OF pairs, of e_id fst] by simp
  have set_pairs: "?pair ` set (deploy_environments db') = ?pair ` set (deploy_environments db)"
    using arg_cong [OF pairs, of set] by simp
  have all: "(\<forall>e \<in> set (deploy_environments db'). P (e_id e) (e_live_release_id e))
      \<longleftrightarrow> (\<forall>e \<in> set (deploy_environments db). P (e_id e) (e_live_release_id e))" for P
  proof -
    have q: "(\<forall>e \<in> set rows. P (e_id e) (e_live_release_id e)) \<longleftrightarrow> (\<forall>q \<in> ?pair ` set rows. P (fst q) (snd q))" for rows
      by simp
    show ?thesis unfolding q set_pairs ..
  qed
  have ex: "(\<exists>e \<in> set (deploy_environments db'). P (e_id e) (e_live_release_id e))
      \<longleftrightarrow> (\<exists>e \<in> set (deploy_environments db). P (e_id e) (e_live_release_id e))" for P
    using all [of "\<lambda>i l. \<not> P i l"] by blast
  note a = all [of "\<lambda>i l. l \<noteq> 0 \<longrightarrow> (\<exists>r \<in> set (deploy_releases db). rel_id r = l \<and> rel_environment_id r = i \<and> rel_state r = ''live'')"]
  note b = ex [of "\<lambda>i l. i = j \<and> l = m" for j m]
  from assms(3) show ?thesis unfolding live_inv_def assms(2) ids by (simp only: a b simp_thms) (elim conjE, intro conjI)
qed

locale config_operation =
  fixes ps :: PlanningStore and op :: "db \<Rightarrow> db"
  assumes writes: "op db = db \<or> (\<exists>k. config_write ps k db (op db))"
begin

lemma steps: "var_step db (op db)"
  using writes [of db] var_step_refl by (auto simp: config_write_def)

lemma keeps_variables: "var_inv db \<Longrightarrow> var_inv (op db)"
  using writes [of db] by (auto simp: config_write_def)

lemma keeps_graphs: "graphs_ok ps db \<Longrightarrow> graphs_ok ps (op db)"
  using writes [of db] config_write_graphs by metis

lemma keeps_store: "store_inv db \<Longrightarrow> store_inv (op db)"
proof -
  assume inv: "store_inv db"
  have step: "engine_tables (op db) = engine_tables db"
    "map env_identity (deploy_environments (op db)) = map env_identity (deploy_environments db)"
    using steps [of db] by (simp_all add: var_step_def)
  then have "live_inv (op db)"
    using inv live_inv_envs [OF step(2)] by (simp add: engine_tables_def store_inv_def)
  with inv step(1) show ?thesis
    by (simp add: store_inv_def lease_inv_def idem_inv_def step_inv_def port_inv_def engine_tables_def)
qed

lemma keeps_pins_known: "pins_known runID db \<Longrightarrow> pins_known runID (op db)"
  using steps [of db] by (fastforce simp: var_step_def engine_tables_def pins_known_def)

lemma keeps_pinned_values:
  "pins_known runID db \<Longrightarrow>
   OpenRunScopedVariables ps ext runID k scope (op db) = OpenRunScopedVariables ps ext runID k scope db"
  using steps [of db] pinned_rows_kept [of db "op db" runID]
  by (intro OpenRunScopedVariables_cong) (auto simp: var_step_def engine_tables_def pins_of_def run_by_id_def)

end

interpretation put_op: config_operation ps "\<lambda>db. snd (PutVariable ps p k name actor request nonce now db)"
  for ps p k name actor request nonce now
  by unfold_locales (use PutVariable_write in blast)

interpretation generate_op:
  config_operation ps "\<lambda>db. snd (GenerateVariable ps p k name actor revision scopes raw nonce now db)"
  for ps p k name actor revision scopes raw nonce now
  by unfold_locales (use GenerateVariable_write in blast)

interpretation rotate_op:
  config_operation ps "\<lambda>db. snd (RotateVariable ps p k name actor revision raw nonce now db)"
  for ps p k name actor revision raw nonce now
  by unfold_locales (use RotateVariable_write in blast)

interpretation import_op: config_operation ps "\<lambda>db. snd (ImportDotenv ps p k actor request nonces now db)"
  for ps p k actor request nonces now
  by unfold_locales (use ImportDotenv_write in blast)

interpretation delete_op: config_operation ps "\<lambda>db. delete_variable ps p k name revision now db"
  for ps p k name revision now
  by unfold_locales (use delete_variable_write in blast)

text \<open>Any number of edits, of any environment, in any order.\<close>

inductive config_step :: "PlanningStore \<Rightarrow> db \<Rightarrow> db \<Rightarrow> bool" for ps where
  config_Put: "config_step ps db (snd (PutVariable ps p k name actor request nonce now db))"
| config_Generate: "config_step ps db (snd (GenerateVariable ps p k name actor revision scopes raw nonce now db))"
| config_Rotate: "config_step ps db (snd (RotateVariable ps p k name actor revision raw nonce now db))"
| config_Import: "config_step ps db (snd (ImportDotenv ps p k actor imp nonces now db))"
| config_Delete: "config_step ps db (delete_variable ps p k name revision now db)"

definition config_reaches :: "PlanningStore \<Rightarrow> db \<Rightarrow> db \<Rightarrow> bool" where
  "config_reaches ps = (config_step ps)\<^sup>*\<^sup>*"

lemmas config_keeps_store =
  put_op.keeps_store generate_op.keeps_store rotate_op.keeps_store import_op.keeps_store delete_op.keeps_store

lemmas config_keeps_variables =
  put_op.keeps_variables generate_op.keeps_variables rotate_op.keeps_variables import_op.keeps_variables
  delete_op.keeps_variables

lemmas config_keeps_graphs =
  put_op.keeps_graphs generate_op.keeps_graphs rotate_op.keeps_graphs import_op.keeps_graphs delete_op.keeps_graphs

lemmas config_keeps_pins =
  put_op.keeps_pins_known generate_op.keeps_pins_known rotate_op.keeps_pins_known import_op.keeps_pins_known
  delete_op.keeps_pins_known

lemmas config_keeps_values =
  put_op.keeps_pinned_values generate_op.keeps_pinned_values rotate_op.keeps_pinned_values
  import_op.keeps_pinned_values delete_op.keeps_pinned_values

lemma config_step_keeps:
  assumes "config_step ps db db'"
  shows "(store_inv db \<longrightarrow> store_inv db') \<and> (var_inv db \<longrightarrow> var_inv db') \<and> (graphs_ok ps db \<longrightarrow> graphs_ok ps db') \<and>
         (pins_known runID db \<longrightarrow> pins_known runID db' \<and>
            OpenRunScopedVariables ps ext runID k scope db' = OpenRunScopedVariables ps ext runID k scope db)"
  using assms
  by cases (simp_all add: config_keeps_store config_keeps_variables config_keeps_graphs config_keeps_pins
      config_keeps_values)

lemma config_reaches_keeps:
  assumes "config_reaches ps db db'"
  shows "(store_inv db \<longrightarrow> store_inv db') \<and> (var_inv db \<longrightarrow> var_inv db') \<and> (graphs_ok ps db \<longrightarrow> graphs_ok ps db') \<and>
         (pins_known runID db \<longrightarrow> pins_known runID db' \<and>
            OpenRunScopedVariables ps ext runID k scope db' = OpenRunScopedVariables ps ext runID k scope db)"
  using assms unfolding config_reaches_def
proof (induction rule: rtranclp_induct)
  case (step y z)
  from config_step_keeps [OF step.hyps(2), of runID ext k scope] step.IH show ?case by auto
qed simp

end
