(* ===== verification/Deploy_Pins.thy ===== *)
theory Deploy_Pins
  imports Deploy_Config_Machine
begin

text \<open>
  The orchestration and the editing of variables on the same store. No operation of the
  orchestration writes a variable or the pins of a run that exists, so what a run was enqueued with
  is what it reads, whatever happens in between: the lemmas follow the pinned tables through every
  step of both machines.
\<close>

subsection \<open>The pinned tables\<close>

definition pin_tables :: "db \<Rightarrow> _" where
  "pin_tables db =
     (deploy_run_variable_snapshots db, deploy_run_variable_revisions db, deploy_variable_revisions db, next_variable_id db,
      next_run_id db)"

lemma pin_tables_update [simp]:
  "pin_tables (db\<lparr>deploy_runs := a\<rparr>) = pin_tables db"
  "pin_tables (db\<lparr>deploy_steps := b\<rparr>) = pin_tables db"
  "pin_tables (db\<lparr>deploy_log_chunks := c\<rparr>) = pin_tables db"
  "pin_tables (db\<lparr>deploy_queue_leases := d\<rparr>) = pin_tables db"
  "pin_tables (db\<lparr>deploy_releases := e\<rparr>) = pin_tables db"
  "pin_tables (db\<lparr>deploy_release_runtimes := f\<rparr>) = pin_tables db"
  "pin_tables (db\<lparr>deploy_port_leases := g\<rparr>) = pin_tables db"
  "pin_tables (db\<lparr>deploy_environments := h\<rparr>) = pin_tables db"
  "pin_tables (db\<lparr>deploy_run_plan_snapshots := p\<rparr>) = pin_tables db"
  "pin_tables (db\<lparr>next_step_id := j\<rparr>) = pin_tables db"
  "pin_tables (db\<lparr>next_port_lease_id := k\<rparr>) = pin_tables db"
  by (simp_all add: pin_tables_def)

lemma pin_append:
  "appendEventTx now k i ty st v d db = Ok (ev, db') \<Longrightarrow> pin_tables db' = pin_tables db"
  using appendEventTx_Ok [of now k i ty st v d db ev db'] by (auto simp: appended_def)

text \<open>The conclusions about an append are used by \<open>pin_append\<close>, everything else is a record update.\<close>

lemma pin_queue:
  "claimNextOnce worker budget ttl now rnd db = Ok (q, db', evs) \<Longrightarrow> pin_tables db' = pin_tables db"
  "transitionRunTx runID tok to detail now db = Ok (x, db', evs) \<Longrightarrow> pin_tables db' = pin_tables db"
  "requestCancellationTx runID now db = Ok (x, db', evs) \<Longrightarrow> pin_tables db' = pin_tables db"
  unfolding claimNextOnce_def transitionRunTx_def requestCancellationTx_def Let_def insert_lease_def newClaimToken_def
  by (auto simp: bindr_eq_Ok dest!: pin_append split: if_split_asm option.split_asm prod.split_asm)

lemma pin_quiet:
  "Heartbeat runID tok ttl now db = Ok (u, db', evs) \<Longrightarrow> pin_tables db' = pin_tables db"
  "SetRunCommits runID tok fc tc now db = Ok (u, db', evs) \<Longrightarrow> pin_tables db' = pin_tables db"
  "ReclaimExpiredLease expired worker ttl now rnd db = Ok (q, db', evs) \<Longrightarrow> pin_tables db' = pin_tables db"
  "CompactRunLogs runID keep db = Ok (u, db', evs) \<Longrightarrow> pin_tables db' = pin_tables db"
  "LinkRunToLiveRelease runID tok rel now db = Ok (u, db', evs) \<Longrightarrow> pin_tables db' = pin_tables db"
  "RecordCandidateRuntime run tok input now db = Ok (rt, db', evs) \<Longrightarrow> pin_tables db' = pin_tables db"
  "SetRuntimeState runID tok rel st now db = Ok (u, db', evs) \<Longrightarrow> pin_tables db' = pin_tables db"
  by (auto simp: Heartbeat_def SetRunCommits_def ReclaimExpiredLease_def CompactRunLogs_def newClaimToken_def
      LinkRunToLiveRelease_def RecordCandidateRuntime_def SetRuntimeState_def set_run_release_def
      Let_def bindr_eq_Ok split: if_split_asm option.split_asm)

lemma pin_claim:
  "claim_attempts k n worker budget ttl clock rand e db = Ok (q, db', evs) \<Longrightarrow> pin_tables db' = pin_tables db"
  using claim_attempts_Ok [of k n worker budget ttl clock rand e db] pin_queue(1) by blast

lemma pin_step:
  "transitionStepTx runID key tok input now db = Ok (x, db', evs) \<Longrightarrow> pin_tables db' = pin_tables db"
  by (erule transitionStepTx_Ok)
     (auto simp: write_step_def insert_attempt_def set_last_seq_def Let_def split: if_split_asm dest!: pin_append)

lemma pin_log:
  "appendLogTx x runID stepID tok stream v now db = Ok (ev, db', evs) \<Longrightarrow> pin_tables db' = pin_tables db"
  by (erule appendLogTx_Ok) (auto simp: touch_step_def set_last_seq_def dest!: pin_append)

lemma pin_event:
  "appendEventInputTx x runID tok input now db = Ok (ev, db', evs) \<Longrightarrow> pin_tables db' = pin_tables db"
  by (auto simp: appendEventInputTx_def bindr_eq_Ok touch_step_def set_last_seq_def
      split: if_split_asm dest!: pin_append dest: pin_log)

lemma pin_retire:
  "MarkPreviousRetired runID tok rel now db = Ok (x, db', evs) \<Longrightarrow> pin_tables db' = pin_tables db"
  by (auto simp: MarkPreviousRetired_def bindr_eq_Ok Let_def set_runtime_def set_release_def
      split: option.split_asm if_split_asm)

lemma pin_activate:
  "ActivateCandidate runID tok rel now db = Ok (x, db', evs) \<Longrightarrow> pin_tables db' = pin_tables db"
  by (erule ActivateCandidate_Ok) (simp add: activation_defs)

lemma pin_port:
  assumes "AcquirePortLease runID env tok address preferred ttl listen clock rand db = Ok (x, db', evs)"
  shows "pin_tables db' = pin_tables db"
proof -
  obtain j p a d where "portLeaseTx runID env tok a p d (clock j) (rand j) db = Ok (x, db', evs)"
    by (rule AcquirePortLease_Ok [OF assms])
  then show ?thesis by (auto simp: portLeaseTx_def insert_port_lease_def bindr_eq_Ok Let_def split: if_split_asm)
qed

lemma pin_release: "pin_tables (snd (ReleasePortLease runID token db)) = pin_tables db"
  by (simp add: ReleasePortLease_def Let_def)

subsection \<open>A new run\<close>

lemma collect_refs_all:
  "collect_refs rows refs = Ok all \<Longrightarrow> all = refs @ rows \<and>
     (\<forall>r \<in> set rows. contentDigestRE (var_ValueDigest (ref_snapshot r)))"
  by (induction rows refs rule: collect_refs.induct) (auto split: if_splits)

lemma pin_first_states: "first_states k now sts db evs = Ok (db', evs') \<Longrightarrow> pin_tables db' = pin_tables db"
proof (induction k now sts db evs rule: first_states.induct)
  case (2 k now st sts db evs)
  let ?db1 = "if st \<noteq> RunRequested then setRunStateTx k st now db else db"
  from 2(2) obtain ev db2 where
    a: "appendEventTx now k 0 EventRunState ''status'' [] (mustJSON [(''state'', run_state_json st)]) ?db1 = Ok (ev, db2)"
    and r: "first_states k now sts db2 (evs @ [ev]) = Ok (db', evs')"
    by (auto simp: Let_def bindr_eq_Ok)
  have "pin_tables ?db1 = pin_tables db" by (simp add: setRunStateTx_def Let_def)
  with pin_append [OF a] 2(1) [OF refl r] show ?case by simp
qed simp

lemma pin_supersede_each:
  "supersede_each req newRunID kind now cs db events = Ok (db', events') \<Longrightarrow> pin_tables db' = pin_tables db"
proof (induction cs arbitrary: db events)
  case (Cons c cs)
  let ?p = "\<lambda>r. r_id r = r_id c \<and> r_state r = RunQueued"
  show ?case
  proof (cases "supersedable req kind c \<and> sql_count ?p (deploy_runs db) = 1")
    case False
    with Cons show ?thesis by (auto simp: Let_def split: if_split_asm)
  next
    case True
    with Cons.prems obtain rs ev db2 where
      a: "appendEventTx now (r_id c) 0 EventRunState ''status'' []
        (mustJSON [(''state'', run_state_json RunSuperseded), (''supersededBy'', GInt newRunID)])
        (db\<lparr>deploy_runs := rs\<rparr>) = Ok (ev, db2)"
      and r: "supersede_each req newRunID kind now cs db2 (events @ [ev]) = Ok (db', events')"
      by (auto simp: Let_def bindr_eq_Ok)
    from pin_append [OF a] Cons.IH [OF r] show ?thesis by simp
  qed
qed simp

lemma pin_supersede:
  "supersedeEligibleTx req newRunID kind now db events = Ok (db', events') \<Longrightarrow> pin_tables db' = pin_tables db"
  by (auto simp: supersedeEligibleTx_def split: if_split_asm dest: pin_supersede_each)

definition pins_for :: "int \<Rightarrow> runVariableRevisionRef list \<Rightarrow> run_var_row list" where
  "pins_for k refs =
     map (\<lambda>(i, ref). \<lparr> rv_run_id = k, rv_variable_revision_id = ref_id ref, rv_ordinal = int i + 1 \<rparr>) (enumerate 0 refs)"

lemma pin_enqueue:
  assumes ok: "enqueueTx x req now db = Ok (run, db', evs)"
  shows "\<exists>digest copied created.
    collect_refs (variable_query (req_EnvironmentID req) (req_VariableSnapshotRunID req) db) []
      = Ok (variable_query (req_EnvironmentID req) (req_VariableSnapshotRunID req) db) \<and>
    digest = digestReleaseVariables x (map ref_snapshot (variable_query (req_EnvironmentID req) (req_VariableSnapshotRunID req) db)) \<and>
    deploy_run_variable_snapshots db' = deploy_run_variable_snapshots db @
      [\<lparr> vs_run_id = next_run_id db, vs_environment_id = req_EnvironmentID req, vs_digest = digest,
         vs_copied_from_run_id = copied, vs_created_at = created \<rparr>] \<and>
    deploy_run_variable_revisions db' = deploy_run_variable_revisions db @
      pins_for (next_run_id db) (variable_query (req_EnvironmentID req) (req_VariableSnapshotRunID req) db) \<and>
    deploy_variable_revisions db' = deploy_variable_revisions db \<and> next_variable_id db' = next_variable_id db \<and>
    next_run_id db' = next_run_id db + 1"
proof -
  from ok obtain env where env: "find (\<lambda>e. e_id e = req_EnvironmentID req \<and> e_project_id e = req_ProjectID req \<and> e_archived_at e = 0)
             (deploy_environments db) = Some env"
    by (auto simp: enqueueTx_def split: option.splits)
  from ok env obtain i db1 db2 db3 db5 evs0 where
    i: "insert_run req now db = Ok (i, db1)"
    and v: "snapshotRunVariablesTx x i (req_EnvironmentID req) (req_VariableSnapshotRunID req) now db1 = Ok db2"
    and pl: "snapshotRunPlanInputsTx x i (req_EnvironmentID req) (req_VariableSnapshotRunID req) now db2 = Ok db3"
    and f: "first_states i now [RunRequested, RunValidating, RunQueued] (insert_steps i 0 (req_Steps req) db3) [] = Ok (db5, evs0)"
    and s: "supersedeEligibleTx req i (e_kind env) now db5 evs0 = Ok (db', evs)"
    by (auto simp: enqueueTx_def Let_def bindr_eq_Ok simp del: first_states.simps split: option.split_asm)
  have db1: "i = next_run_id db" "pin_tables (db1\<lparr>next_run_id := next_run_id db\<rparr>) = pin_tables db"
    "next_run_id db1 = next_run_id db + 1"
    using insert_run_Ok [OF i] by auto
  have q: "variable_query e c db1 = variable_query e c db" for e c
    using db1(2) by (simp add: variable_query_def pin_tables_def)
  let ?q = "variable_query (req_EnvironmentID req) (req_VariableSnapshotRunID req) db"
  from v have refs: "collect_refs ?q [] = Ok ?q"
    using collect_refs_all by (fastforce simp: snapshotRunVariablesTx_def bindr_eq_Ok Let_def q split: if_splits)
  from v have db2: "db2 = db1\<lparr>
       deploy_run_variable_snapshots := deploy_run_variable_snapshots db1 @
         [\<lparr> vs_run_id = i, vs_environment_id = req_EnvironmentID req,
            vs_digest = digestReleaseVariables x (map ref_snapshot ?q),
            vs_copied_from_run_id = req_VariableSnapshotRunID req, vs_created_at = unix now \<rparr>],
       deploy_run_variable_revisions := deploy_run_variable_revisions db1 @ pins_for i ?q\<rparr>"
    by (auto simp: snapshotRunVariablesTx_def bindr_eq_Ok Let_def q refs pins_for_def split: if_splits)
  have "pin_tables db3 = pin_tables db2" using snapshotRunPlanInputsTx_Ok [OF pl] by auto
  moreover have "pin_tables (insert_steps i 0 (req_Steps req) db3) = pin_tables db3"
    by (simp add: insert_steps_eq)
  ultimately have "pin_tables db' = pin_tables db2"
    using pin_first_states [OF f] pin_supersede [OF s] by simp
  then show ?thesis
    using db1 refs by (simp add: pin_tables_def db2)
qed

subsection \<open>Every step of the orchestration\<close>

lemma pin_commit:
  assumes "\<And>y db' evs. tx = Ok (y, db', evs) \<Longrightarrow> pin_tables db' = pin_tables (o_db s)"
  shows "pin_tables (o_db (snd (commit tx s))) = pin_tables (o_db s)"
proof (cases tx)
  case (Inr z)
  obtain y db' evs where "z = (y, db', evs)" by (cases z)
  with Inr assms show ?thesis by simp
qed simp

lemma store_step_pins:
  assumes "store_step x s s'"
  shows "pin_tables (o_db s') = pin_tables (o_db s) \<or>
         (\<exists>req now run evs. enqueueTx x req now (o_db s) = Ok (run, o_db s', evs))"
  using assms
proof cases
  case (step_Enqueue now req)
  then show ?thesis using Enqueue_cases [of x req now s "fst (Enqueue x req now s)" s'] by auto
next
  case (step_Retry now runID actor key)
  then obtain req where "s' = s \<or> s' = snd (Enqueue x req now s)"
    by (auto simp: Retry_def split: sum.splits if_splits)
  then show ?thesis using Enqueue_cases [of x req now s "fst (Enqueue x req now s)" s'] by auto
next
  case (step_TransitionRun now runID tok to detail)
  have "pin_tables (o_db (snd (commit (transitionRunTx runID tok to detail now (o_db s)) s))) = pin_tables (o_db s)"
    by (rule pin_commit) (rule pin_queue)
  with step_TransitionRun show ?thesis by (simp add: TransitionRun_def close_if_terminal_db)
next
  case (step_RequestCancellation now runID)
  have "pin_tables (o_db (snd (commit (requestCancellationTx runID now (o_db s)) s))) = pin_tables (o_db s)"
    by (rule pin_commit) (rule pin_queue)
  with step_RequestCancellation show ?thesis by (simp add: RequestCancellation_def close_if_terminal_db)
next
  case step_ClaimNext
  then show ?thesis by (simp add: ClaimNext_def) (blast intro: pin_commit pin_claim)
next
  case step_TransitionStep
  then show ?thesis by (simp add: TransitionStep_def) (blast intro: pin_commit pin_step)
next
  case step_AppendLog
  then show ?thesis by (simp add: AppendLog_def) (blast intro: pin_commit pin_log)
next
  case step_AppendEvent
  then show ?thesis by (simp add: AppendEvent_def) (blast intro: pin_commit pin_event)
next
  case step_ReleasePort
  then show ?thesis by (simp add: pin_release)
next
  case step_Subscribe
  then show ?thesis by (simp add: Subscribe_db)
next
  case step_broker
  then show ?thesis by simp
qed (simp, blast intro: pin_commit pin_quiet pin_activate pin_retire pin_port)+

subsection \<open>Both machines\<close>

text \<open>The orchestration and the editor of variables on one store.\<close>

inductive system_step :: "PlanningStore \<Rightarrow> ostore \<Rightarrow> ostore \<Rightarrow> bool" for ps where
  system_store: "store_step (pl_externals ps) s s' \<Longrightarrow> system_step ps s s'"
| system_config: "config_step ps (o_db s) db' \<Longrightarrow> system_step ps s (s\<lparr>o_db := db'\<rparr>)"

definition system_reaches :: "PlanningStore \<Rightarrow> ostore \<Rightarrow> ostore \<Rightarrow> bool" where
  "system_reaches ps = (system_step ps)\<^sup>*\<^sup>*"

text \<open>Foreign keys: a pin names a run and a revision that exist.\<close>

definition pin_inv :: "db \<Rightarrow> bool" where
  "pin_inv db \<longleftrightarrow>
     (\<forall>v \<in> set (deploy_run_variable_snapshots db). vs_run_id v < next_run_id db) \<and>
     (\<forall>rv \<in> set (deploy_run_variable_revisions db).
        rv_run_id rv < next_run_id db \<and> rv_variable_revision_id rv < next_variable_id db)"

definition snapshot_of :: "int \<Rightarrow> db \<Rightarrow> var_snapshot_row option" where
  "snapshot_of runID db = find (\<lambda>v. vs_run_id v = runID) (deploy_run_variable_snapshots db)"

definition pins_stay :: "int \<Rightarrow> db \<Rightarrow> db \<Rightarrow> bool" where
  "pins_stay k db db' \<longleftrightarrow>
     snapshot_of k db' = snapshot_of k db \<and> pins_of k db' = pins_of k db \<and>
     vars_grow (next_variable_id db) (deploy_variable_revisions db) (deploy_variable_revisions db') \<and>
     next_variable_id db \<le> next_variable_id db' \<and> next_run_id db \<le> next_run_id db' \<and>
     (run_by_id db k \<noteq> None \<longrightarrow>
        map_option r_plan_revision (run_by_id db' k) = map_option r_plan_revision (run_by_id db k))"

definition system_inv :: "PlanningStore \<Rightarrow> db \<Rightarrow> bool" where
  "system_inv ps db \<longleftrightarrow> store_inv db \<and> var_inv db \<and> graphs_ok ps db \<and> pin_inv db"

lemma pins_stay_refl: "pins_stay k db db"
  by (simp add: pins_stay_def vars_grow_refl)

lemma pins_stay_trans:
  assumes "pins_stay k a b" and "pins_stay k b c"
  shows "pins_stay k a c"
proof -
  have "run_by_id b k \<noteq> None" if "run_by_id a k \<noteq> None" using assms(1) that by (auto simp: pins_stay_def)
  then show ?thesis using assms unfolding pins_stay_def
    using vars_grow_trans [of "next_variable_id a" _ _ "next_variable_id b"] by auto
qed

lemma pins_stay_opened:
  assumes "pins_stay k db db'" and "pin_inv db" and "run_by_id db k \<noteq> None"
  shows "OpenRunScopedVariables ps ext k env scope db' = OpenRunScopedVariables ps ext k env scope db"
  using assms pinned_rows_kept [of db db' k env]
  by (intro OpenRunScopedVariables_cong) (auto simp: pins_stay_def snapshot_of_def pins_known_def pin_inv_def)

lemma variable_query_ids:
  "var_inv db \<Longrightarrow> r \<in> set (variable_query env copied db) \<Longrightarrow> ref_id r < next_variable_id db"
  by (auto simp: variable_query_def var_inv_def scan_ref_def split: if_splits)

lemma set_pins_for: "rv \<in> set (pins_for k refs) \<Longrightarrow> rv_run_id rv = k \<and> (\<exists>r \<in> set refs. rv_variable_revision_id rv = ref_id r)"
  by (auto simp: pins_for_def enumerate_eq_zip dest: set_zip_rightD)

lemma find_append_other: "\<not> p x \<Longrightarrow> find p (xs @ [x]) = find p xs"
  by (induction xs) auto

lemma store_step_system:
  assumes step: "store_step (pl_externals ps) s s'" and inv: "system_inv ps (o_db s)"
  shows "system_inv ps (o_db s') \<and> (k < next_run_id (o_db s) \<longrightarrow> pins_stay k (o_db s) (o_db s'))"
proof -
  have ok: "store_inv (o_db s')" "runs_follow (o_db s) (o_db s')"
    using store_step_ok [OF step] inv by (auto simp: store_ok_def system_inv_def)
  then have plan: "map_option r_plan_revision (run_by_id (o_db s') k) = map_option r_plan_revision (run_by_id (o_db s) k)"
    if "run_by_id (o_db s) k \<noteq> None" for k
    using that by (fastforce simp: runs_follow_def run_identity_def)
  consider "pin_tables (o_db s') = pin_tables (o_db s)"
    | req now run evs where "enqueueTx (pl_externals ps) req now (o_db s) = Ok (run, o_db s', evs)"
    using store_step_pins [OF step] by blast
  then have "(var_inv (o_db s') \<longleftrightarrow> var_inv (o_db s)) \<and> pin_inv (o_db s') \<and>
      deploy_variable_revisions (o_db s') = deploy_variable_revisions (o_db s) \<and>
      (k < next_run_id (o_db s) \<longrightarrow> pins_stay k (o_db s) (o_db s'))"
  proof cases
    case 1
    then show ?thesis
      using inv plan by (auto simp: pin_tables_def var_inv_def pin_inv_def system_inv_def pins_stay_def snapshot_of_def
          pins_of_def vars_grow_refl)
  next
    case 2
    let ?q = "variable_query (req_EnvironmentID req) (req_VariableSnapshotRunID req) (o_db s)"
    from pin_enqueue [OF 2] obtain row where new:
      "deploy_run_variable_snapshots (o_db s') = deploy_run_variable_snapshots (o_db s) @ [row]"
      "vs_run_id row = next_run_id (o_db s)"
      "deploy_run_variable_revisions (o_db s') = deploy_run_variable_revisions (o_db s) @ pins_for (next_run_id (o_db s)) ?q"
      "deploy_variable_revisions (o_db s') = deploy_variable_revisions (o_db s)"
      "next_variable_id (o_db s') = next_variable_id (o_db s)" "next_run_id (o_db s') = next_run_id (o_db s) + 1"
      by auto
    have "rv_run_id rv = next_run_id (o_db s) \<and> rv_variable_revision_id rv < next_variable_id (o_db s)"
      if "rv \<in> set (pins_for (next_run_id (o_db s)) ?q)" for rv
      using set_pins_for [OF that] variable_query_ids [of "o_db s"] inv unfolding system_inv_def by metis
    then have "pin_inv (o_db s')"
      using inv unfolding pin_inv_def system_inv_def new by (auto simp: new(2))
    moreover have "filter (\<lambda>rv. rv_run_id rv = k) (pins_for (next_run_id (o_db s)) ?q) = []" if "k < next_run_id (o_db s)"
      using that set_pins_for by (fastforce simp: filter_empty_conv)
    ultimately show ?thesis
      using plan new by (auto simp: var_inv_def pins_stay_def snapshot_of_def pins_of_def vars_grow_refl
          find_append_other)
  qed
  moreover from this have "graphs_ok ps (o_db s') = graphs_ok ps (o_db s)"
    using graph_ok_rows active_rows_cong unfolding graphs_ok_def by metis
  ultimately show ?thesis using inv ok by (auto simp: system_inv_def)
qed

lemma config_step_var_step: "config_step ps db db' \<Longrightarrow> var_step db db'"
  by (induction rule: config_step.induct)
     (rule put_op.steps generate_op.steps rotate_op.steps import_op.steps delete_op.steps)+

lemma config_step_system:
  assumes step: "config_step ps db db'" and inv: "system_inv ps db"
  shows "system_inv ps db' \<and> pins_stay k db db'"
proof -
  have v: "var_step db db'" by (rule config_step_var_step [OF step])
  have "store_inv db'" "var_inv db'" "graphs_ok ps db'"
    using config_step_keeps [OF step] inv by (auto simp: system_inv_def)
  moreover have "pin_inv db'"
    using v inv by (fastforce simp: var_step_def engine_tables_def pin_inv_def system_inv_def)
  moreover have "pins_stay k db db'"
    using v by (auto simp: var_step_def engine_tables_def pins_stay_def snapshot_of_def pins_of_def run_by_id_def)
  ultimately show ?thesis by (simp add: system_inv_def)
qed

lemma system_step_keeps:
  assumes "system_step ps s s'" and "system_inv ps (o_db s)"
  shows "system_inv ps (o_db s') \<and> (k < next_run_id (o_db s) \<longrightarrow> pins_stay k (o_db s) (o_db s'))"
  using assms by cases (use store_step_system config_step_system in auto)

lemma system_reaches_keeps:
  assumes "system_reaches ps s s'" and "system_inv ps (o_db s)"
  shows "system_inv ps (o_db s') \<and> (k < next_run_id (o_db s) \<longrightarrow> pins_stay k (o_db s) (o_db s'))"
  using assms unfolding system_reaches_def
proof (induction rule: rtranclp_induct)
  case base
  then show ?case by (simp add: pins_stay_refl)
next
  case (step y z)
  from step.IH [OF step.prems] have y: "system_inv ps (o_db y)" and stay: "k < next_run_id (o_db s) \<longrightarrow> pins_stay k (o_db s) (o_db y)"
    by auto
  from system_step_keeps [OF step.hyps(2) y, of k]
  have z: "system_inv ps (o_db z)" and last: "k < next_run_id (o_db y) \<longrightarrow> pins_stay k (o_db y) (o_db z)" by auto
  have "pins_stay k (o_db s) (o_db z)" if k: "k < next_run_id (o_db s)"
  proof -
    from stay k have sy: "pins_stay k (o_db s) (o_db y)" by blast
    then have "next_run_id (o_db s) \<le> next_run_id (o_db y)" unfolding pins_stay_def by blast
    with last k have "pins_stay k (o_db y) (o_db z)" by simp
    with sy show ?thesis by (rule pins_stay_trans)
  qed
  with z show ?case by blast
qed

end
