(* ===== verification/Deploy_Effects.thy ===== *)
theory Deploy_Effects
  imports Deploy_Pins "HOL-Library.Multiset"
begin

text \<open>
  The effect of single operations: what the rows look like after a variable was written, what the
  reads then answer, and which rows a new run pinned.
\<close>

subsection \<open>Loops that stop at an error\<close>

lemma each_Ok: "each f xs = Ok ys \<longleftrightarrow> list_all2 (\<lambda>x y. f x = Ok y) xs ys"
proof (induction xs arbitrary: ys)
  case (Cons x xs)
  then show ?case by (cases ys) (auto simp: bindr_eq_Ok)
qed auto

lemma each_find:
  assumes "each f xs = Ok ys" and "\<And>x y. f x = Ok y \<Longrightarrow> Q y = P x" and "find P xs = Some x"
  shows "\<exists>y. f x = Ok y \<and> find Q ys = Some y"
  using assms(1,3)
proof (induction xs arbitrary: ys)
  case (Cons a xs)
  then obtain y ys' where "f a = Ok y" "each f xs = Ok ys'" "ys = y # ys'" by (auto simp: bindr_eq_Ok)
  with Cons assms(2) show ?case by (auto split: if_splits)
qed simp

lemma each_is_ok: "is_ok (each f xs) \<longleftrightarrow> (\<forall>x \<in> set xs. is_ok (f x))"
proof (induction xs)
  case (Cons x xs)
  then show ?case by (cases "f x"; cases "each f xs") auto
qed simp

lemma each_mem: "each f xs = Ok ys \<Longrightarrow> y \<in> set ys \<Longrightarrow> \<exists>x \<in> set xs. f x = Ok y"
proof (induction xs arbitrary: ys)
  case (Cons a xs)
  then obtain z zs where "f a = Ok z" "each f xs = Ok zs" "ys = z # zs" by (auto simp: bindr_eq_Ok)
  with Cons show ?case by auto
qed simp

lemma find_only:
  assumes "x \<in> set xs" and "P x" and "\<And>y. y \<in> set xs \<Longrightarrow> P y \<Longrightarrow> y = x"
  shows "find P xs = Some x"
proof (cases "find P xs")
  case None
  with assms(1,2) show ?thesis by (auto simp: find_None_iff)
next
  case (Some y)
  with find_Some_in [OF Some] assms(3) show ?thesis by blast
qed

lemma find_cong_set:
  "(\<And>x. x \<in> set xs \<Longrightarrow> p x = q x) \<Longrightarrow> find p xs = find q xs"
  by (induction xs) auto

subsection \<open>After a write\<close>

definition written_row ::
  "PlanningStore \<Rightarrow> int \<Rightarrow> string \<Rightarrow> string \<Rightarrow> string \<Rightarrow> string list \<Rightarrow> string \<Rightarrow> string \<Rightarrow> go_time \<Rightarrow> db \<Rightarrow> var_row" where
  "written_row ps k name raw sensitivity scopes actor nonce now db =
     \<lparr> v_id = next_variable_id db, v_environment_id = k, v_key = name,
       v_revision = sql_max (same_variable k name) v_revision (deploy_variable_revisions db) + 1,
       v_sensitivity = sensitivity, v_scopes = join '','' scopes,
       v_value_enc = Seal (pl_sealer ps) nonce raw, v_value_digest = digestBytes (pl_externals ps) [raw],
       v_active = True, v_created_by = actor, v_created_at = unix now \<rparr>"

lemma active_rows_written:
  assumes "writeVariableRevisionTx ps k name raw sensitivity scopes actor nonce now db = Ok db'"
  shows "set (active_rows k db') = insert (written_row ps k name raw sensitivity scopes actor nonce now db)
           {v \<in> set (active_rows k db). v_key v \<noteq> name}"
proof -
  let ?row = "written_row ps k name raw sensitivity scopes actor nonce now db"
  from write_effect [OF assms] have "deploy_variable_revisions db' =
      deploy_variable_revisions (deactivate_variable k name db) @ [?row]"
    by (auto simp: written_row_def)
  then have "set (active_rows k db') = insert ?row (set (active_rows k (deactivate_variable k name db)))"
    by (auto simp: active_rows_def active_variable_def written_row_def)
  then show ?thesis by (simp add: active_rows_deactivate)
qed

text \<open>A written transaction, and what a read of the same environment sees of it.\<close>

lemma PutVariable_committed:
  assumes "PutVariable ps p k name actor request nonce now db = (Ok result, db')"
  obtains raw desired db1 where "envKeyRe name" "validateVariableWrite request = Ok raw"
    "advanceDesiredRevisionTx p k (vw_Revision request) now db = Ok (desired, db1)"
    "writeVariableRevisionTx ps k name raw (vw_Sensitivity request) (vw_Scopes request) actor nonce now db1 = Ok db'"
    "ListVariables ps p k db' = Ok (mr_Variables result)" "mr_DesiredRevision result = desired" "graph_ok ps k db'"
    "mr_Variable result = find (\<lambda>v. dv_Name v = name) (mr_Variables result)"
proof -
  obtain raw desired db2 where r: "envKeyRe name" "validateVariableWrite request = Ok raw"
    "put_variable_tx ps p k name actor raw request nonce now db = Ok (desired, db2)"
    "mutation_result ps p k (Some name) desired db2 = (Ok result, db')"
    using assms by (auto simp: PutVariable_def split: if_splits sum.splits)
  from r(4) have "db2 = db'" "ListVariables ps p k db' = Ok (mr_Variables result)" "mr_DesiredRevision result = desired"
    "mr_Variable result = find (\<lambda>v. dv_Name v = name) (mr_Variables result)"
    by (auto simp: mutation_result_def bindr_eq_Ok)
  moreover obtain db1 where "advanceDesiredRevisionTx p k (vw_Revision request) now db = Ok (desired, db1)"
    "writeVariableRevisionTx ps k name raw (vw_Sensitivity request) (vw_Scopes request) actor nonce now db1 = Ok db2"
    "graph_ok ps k db2" using put_variable_tx_Ok [OF r(3)] by blast
  ultimately show thesis using that r(1,2) by metis
qed

lemma scan_variable_facts:
  "scan_variable ps e db v = Ok y \<Longrightarrow> st_name y = v_key v \<and> open_value ps (v_value_enc v) = Ok (st_value y)"
  by (auto simp: scan_variable_def split: sum.splits)

lemma reveal_row:
  assumes vs: "activeVariableValues ps p k db = Ok vs" and row: "v \<in> set (active_rows k db)" "v_key v = name"
    and only: "\<And>w. w \<in> set (active_rows k db) \<Longrightarrow> v_key w = name \<Longrightarrow> w = v" and key: "envKeyRe name"
  shows "\<exists>plain. open_value ps (v_value_enc v) = Ok plain \<and>
           RevealVariable ps p k name db = Ok \<lparr> rev_Name = name, rev_Value = plain, rev_Reference = reference_of plain \<rparr>"
proof -
  obtain e where e: "each (scan_variable ps e db) (active_rows k db) = Ok vs"
    using vs by (auto simp: activeVariableValues_def split: option.splits)
  have f: "find (\<lambda>w. v_key w = name) (active_rows k db) = Some v" by (rule find_only [where P = "\<lambda>w. v_key w = name", OF row]) (rule only)
  obtain y where y: "scan_variable ps e db v = Ok y" "find (\<lambda>y. st_name y = name) vs = Some y"
    using each_find [OF e, of "\<lambda>y. st_name y = name" "\<lambda>w. v_key w = name", OF _ f] scan_variable_facts by metis
  with scan_variable_facts [OF y(1)] key vs show ?thesis by (simp add: RevealVariable_def)
qed

lemma reveal_Ok:
  assumes "RevealVariable ps p k name db = Ok r"
  shows "\<exists>v \<in> set (active_rows k db). v_key v = name \<and> open_value ps (v_value_enc v) = Ok (rev_Value r) \<and>
           rev_Name r = name \<and> rev_Reference r = reference_of (rev_Value r)"
proof -
  obtain vs y where vs: "activeVariableValues ps p k db = Ok vs" "find (\<lambda>y. st_name y = name) vs = Some y"
    and r: "r = \<lparr> rev_Name = name, rev_Value = st_value y, rev_Reference = reference_of (st_value y) \<rparr>"
    using assms by (auto simp: RevealVariable_def bindr_eq_Ok split: if_splits option.splits)
  obtain e where e: "each (scan_variable ps e db) (active_rows k db) = Ok vs"
    using vs(1) by (auto simp: activeVariableValues_def split: option.splits)
  have "y \<in> set vs" "st_name y = name" using find_Some_in [OF vs(2)] by auto
  then obtain v where "v \<in> set (active_rows k db)" "scan_variable ps e db v = Ok y"
    using each_mem [OF e] by blast
  with scan_variable_facts \<open>st_name y = name\<close> r show ?thesis by fastforce
qed

lemma active_keys_distinct: "var_inv db \<Longrightarrow> distinct (map v_key (active_rows k db))"
proof -
  assume "var_inv db"
  then have "distinct (map (\<lambda>v. (v_environment_id v, v_key v)) (filter v_active (deploy_variable_revisions db)))"
    by (simp add: var_inv_def)
  then have "distinct (map (\<lambda>v. (v_environment_id v, v_key v)) (filter (active_variable k) (deploy_variable_revisions db)))"
    using distinct_map_filter' [of "\<lambda>v. (v_environment_id v, v_key v)" "filter v_active (deploy_variable_revisions db)" "\<lambda>v. v_environment_id v = k"]
    by (simp add: active_variable_def [abs_def] conj_commute)
  then have "inj_on (\<lambda>v. (v_environment_id v, v_key v)) (set (filter (active_variable k) (deploy_variable_revisions db)))"
    "distinct (filter (active_variable k) (deploy_variable_revisions db))" by (auto simp: distinct_map)
  then show ?thesis
    by (auto simp: active_rows_def distinct_map inj_on_def active_variable_def)
qed

lemma advance_rows:
  assumes "advanceDesiredRevisionTx p k expected now db = Ok (desired, db1)"
  shows "active_rows k' db1 = active_rows k' db \<and> next_variable_id db1 = next_variable_id db \<and>
         deploy_variable_revisions db1 = deploy_variable_revisions db \<and> desired = expected + 1"
  using advance_effect [OF assms] active_rows_cong [of db1 db k'] by auto

lemma PutVariable_row:
  assumes "aead_inverse (sealer_aead (pl_sealer ps))"
    and "length nonce = aead_NonceSize (sealer_aead (pl_sealer ps))" and "nonce \<noteq> []"
    and put: "PutVariable ps p k name actor request nonce now db = (Ok result, db')" and "validateVariableWrite request = Ok raw"
  obtains row vs where "set (active_rows k db') = insert row {v \<in> set (active_rows k db). v_key v \<noteq> name}"
    "v_key row = name" "open_value ps (v_value_enc row) = Ok raw" "v_value_digest row = digestBytes (pl_externals ps) [raw]"
    "v_sensitivity row = vw_Sensitivity request" "activeVariableValues ps p k db' = Ok vs"
    "mr_DesiredRevision result = vw_Revision request + 1" "envKeyRe name"
    "mr_Variable result = find (\<lambda>v. dv_Name v = name) (variableViews vs)"
proof -
  obtain raw' desired db1 where c: "envKeyRe name" "validateVariableWrite request = Ok raw'"
    "advanceDesiredRevisionTx p k (vw_Revision request) now db = Ok (desired, db1)"
    "writeVariableRevisionTx ps k name raw' (vw_Sensitivity request) (vw_Scopes request) actor nonce now db1 = Ok db'"
    "ListVariables ps p k db' = Ok (mr_Variables result)" "mr_DesiredRevision result = desired" "graph_ok ps k db'"
    "mr_Variable result = find (\<lambda>v. dv_Name v = name) (mr_Variables result)"
    by (rule PutVariable_committed [OF put])
  from c(2) assms(5) have raw: "raw' = raw" by simp
  let ?row = "written_row ps k name raw (vw_Sensitivity request) (vw_Scopes request) actor nonce now db1"
  note adv = advance_rows [OF c(3), of k]
  have rows: "set (active_rows k db') = insert ?row {v \<in> set (active_rows k db). v_key v \<noteq> name}"
    using active_rows_written [OF c(4)] adv by (simp add: raw)
  obtain vs where vs: "activeVariableValues ps p k db' = Ok vs" "mr_Variables result = variableViews vs"
    using c(5) by (auto simp: ListVariables_def bindr_eq_Ok)
  have "open_value ps (v_value_enc ?row) = Ok raw"
    using Open_Seal [OF assms(1-3)] by (simp add: written_row_def open_value_def)
  with that [OF rows _ _ _ _ vs(1)] c(1,6,8) adv vs(2) show thesis by (simp add: written_row_def)
qed

lemma reveal_kept:
  assumes inv: "var_inv db" and vs: "activeVariableValues ps p k db' = Ok vs"
    and rows: "set (active_rows k db') = insert row {v \<in> set (active_rows k db). v_key v \<noteq> name}" and row: "v_key row = name"
    and ne: "other \<noteq> name" and old: "RevealVariable ps p k other db = Ok r"
  shows "RevealVariable ps p k other db' = Ok r"
proof -
  obtain v where v: "v \<in> set (active_rows k db)" "v_key v = other" "open_value ps (v_value_enc v) = Ok (rev_Value r)"
    "rev_Name r = other" "rev_Reference r = reference_of (rev_Value r)"
    using reveal_Ok [OF old] by blast
  have inj: "inj_on v_key (set (active_rows k db))" using active_keys_distinct [OF inv, of k] by (simp add: distinct_map)
  have "envKeyRe other" using old by (auto simp: RevealVariable_def split: if_splits)
  note key = this
  have v_in: "v \<in> set (active_rows k db')" using v(1,2) ne by (auto simp: rows)
  have only: "w = v" if w: "w \<in> set (active_rows k db')" "v_key w = other" for w
  proof -
    have "w \<noteq> row" using w(2) ne row by auto
    then have "w \<in> set (active_rows k db)" using w(1) unfolding rows by simp
    from inj_onD [OF inj _ this v(1)] show ?thesis using w(2) v(2) by simp
  qed
  from reveal_row [OF vs v_in v(2) only key] v(3)
  have "RevealVariable ps p k other db' = Ok \<lparr> rev_Name = other, rev_Value = rev_Value r, rev_Reference = reference_of (rev_Value r) \<rparr>"
    by auto
  moreover have "r = \<lparr> rev_Name = other, rev_Value = rev_Value r, rev_Reference = reference_of (rev_Value r) \<rparr>"
    using v(4,5) by (cases r) simp
  ultimately show ?thesis by simp
qed

lemma view_row:
  assumes vs: "activeVariableValues ps p k db = Ok vs" and row: "v \<in> set (active_rows k db)" "v_key v = name"
    and only: "\<And>w. w \<in> set (active_rows k db) \<Longrightarrow> v_key w = name \<Longrightarrow> w = v"
  shows "\<exists>view. find (\<lambda>x. dv_Name x = name) (variableViews vs) = Some view \<and> dv_Name view = name \<and>
           dv_ValueDigest view = v_value_digest v \<and>
           dv_Masked view = (if v_sensitivity v = ''secret'' then concat (replicate 8 bullet) else ''configured'')"
proof -
  obtain e where e: "each (scan_variable ps e db) (active_rows k db) = Ok vs"
    using vs(1) by (auto simp: activeVariableValues_def split: option.splits)
  have f: "find (\<lambda>w. v_key w = name) (active_rows k db) = Some v"
    by (rule find_only [where P = "\<lambda>w. v_key w = name", OF row]) (rule only)
  obtain y where y: "scan_variable ps e db v = Ok y" "find (\<lambda>y. st_name y = name) vs = Some y"
    using each_find [OF e, of "\<lambda>y. st_name y = name" "\<lambda>w. v_key w = name", OF _ f] scan_variable_facts by metis
  have "find (\<lambda>v. dv_Name v = name) (variableViews vs) = Some (variable_view y)"
    using y(2) unfolding variableViews_def by (induction vs) (auto simp: variable_view_def split: if_splits)
  with y(1) row(2) show ?thesis by (auto simp: scan_variable_def variable_view_def split: sum.splits)
qed

subsection \<open>After enqueueing\<close>

lemma sort_key_by_two:
  assumes "distinct (map c xs)"
  shows "sort_key (\<lambda>x. (c x :: 'k::linorder, d x :: 'l::linorder)) xs = sort_key c xs"
proof (rule sym, rule sort_key_inj_key_eq)
  show "mset xs = mset (sort_key (\<lambda>x. (c x, d x)) xs)" by simp
  show "inj_on c (set xs)" using assms by (simp add: distinct_map)
  have "sorted (map (\<lambda>x. (c x, d x)) (sort_key (\<lambda>x. (c x, d x)) xs))" by (rule sorted_sort_key)
  then have "sorted (map fst (map (\<lambda>x. (c x, d x)) (sort_key (\<lambda>x. (c x, d x)) xs)))"
    by (rule sorted_map_mono) (auto simp: mono_on_def less_eq_prod_def)
  then show "sorted (map c (sort_key (\<lambda>x. (c x, d x)) xs))" by (simp add: comp_def)
qed

lemma variable_query_active:
  assumes "var_inv db"
  shows "variable_query k 0 db = map scan_ref (active_rows k db)"
proof -
  let ?rows = "filter (active_variable k) (deploy_variable_revisions db)"
  have "distinct (map v_key (sort_key v_key ?rows))" using active_keys_distinct [OF assms, of k] by (simp add: active_rows_def)
  then have "distinct (map v_key ?rows)" by (simp add: distinct_map)
  from sort_key_by_two [OF this, of v_id] show ?thesis
    by (simp add: variable_query_def active_rows_def active_variable_def [abs_def])
qed

lemma map_pins_for:
  assumes "\<And>i r. f \<lparr> rv_run_id = k, rv_variable_revision_id = ref_id r, rv_ordinal = int i + 1 \<rparr> = g (i, r)"
  shows "map f (pins_for k refs) = map g (enumerate 0 refs)"
  using assms by (auto simp: pins_for_def)

lemma sort_pins_for: "sort_key rv_ordinal (pins_for k refs) = pins_for k refs"
proof (rule sort_key_id_if_sorted)
  have "map rv_ordinal (pins_for k refs) = map (\<lambda>p. int (fst p) + 1) (enumerate 0 refs)"
    by (rule map_pins_for) simp
  also have "\<dots> = map (\<lambda>i. int i + 1) (map fst (enumerate 0 refs))" by (simp only: map_map comp_def)
  also have "sorted \<dots>" unfolding map_fst_enumerate by (rule sorted_map_mono) (auto simp: mono_on_def)
  finally show "sorted (map rv_ordinal (pins_for k refs))" .
qed

lemma pins_for_ids: "map rv_variable_revision_id (pins_for k refs) = map ref_id refs"
proof -
  have "map rv_variable_revision_id (pins_for k refs) = map (\<lambda>p. ref_id (snd p)) (enumerate 0 refs)"
    by (rule map_pins_for) simp
  also have "\<dots> = map ref_id (map snd (enumerate 0 refs))" by (simp only: map_map comp_def)
  finally show ?thesis by simp
qed

lemma filter_by_id:
  assumes "distinct (map v_id vs)" and "v \<in> set vs" and "v_environment_id v = k"
  shows "filter (\<lambda>w. v_id w = v_id v \<and> v_environment_id w = k) vs = [v]"
  using assms
proof (induction vs)
  case (Cons a vs)
  show ?case
  proof (cases "v = a")
    case True
    with Cons.prems have "\<forall>w \<in> set vs. v_id w \<noteq> v_id v" by (auto simp: image_iff)
    with True Cons.prems(3) show ?thesis by (auto simp: filter_empty_conv)
  next
    case False
    with Cons show ?thesis by (auto simp: image_iff)
  qed
qed simp

lemma concat_singletons: "(\<And>x. x \<in> set xs \<Longrightarrow> f x = [x]) \<Longrightarrow> concat (map f xs) = xs"
  by (induction xs) auto

lemma pinned_rows_new:
  assumes inv: "var_inv db" and rows: "set rows \<subseteq> set (deploy_variable_revisions db)"
    and env: "\<forall>v \<in> set rows. v_environment_id v = k" and pins: "pins_of n db = pins_for n (map scan_ref rows)"
  shows "pinned_rows n k db = rows"
proof -
  let ?f = "\<lambda>i. filter (\<lambda>v. v_id v = i \<and> v_environment_id v = k) (deploy_variable_revisions db)"
  have "pinned_rows n k db = concat (map ?f (map rv_variable_revision_id (sort_key rv_ordinal (pins_of n db))))"
    by (simp add: pinned_rows_def pins_of_def comp_def)
  also have "map rv_variable_revision_id (sort_key rv_ordinal (pins_of n db)) = map v_id rows"
    unfolding pins sort_pins_for pins_for_ids by (simp add: scan_ref_def)
  also have "concat (map ?f (map v_id rows)) = concat (map (\<lambda>v. ?f (v_id v)) rows)" by (simp add: comp_def)
  also have "\<dots> = rows"
    by (rule concat_singletons, rule filter_by_id) (use inv rows env in \<open>auto simp: var_inv_def\<close>)
  finally show ?thesis .
qed

lemma check_pinned_ok:
  "distinct (map v_key rows) \<Longrightarrow> set (map v_key rows) \<inter> set seen = {} \<Longrightarrow>
   \<forall>v \<in> set rows. contentDigestRE (v_value_digest v) \<Longrightarrow> check_pinned rows seen = Ok ()"
  by (induction rows arbitrary: seen) auto

text \<open>The values of a scope, opened from given rows.\<close>

definition scope_values ::
  "PlanningStore \<Rightarrow> external_lookup \<Rightarrow> string \<Rightarrow> var_row list \<Rightarrow> deploy_error + ScopedVariableValue list" where
  "scope_values ps lookup scope rows =
     bindr (each (open_scoped ps) rows) (\<lambda>all. resolveScopedVariableValues all scope lookup)"

lemma opened_after_enqueue:
  assumes inv: "system_inv ps (o_db s)" and ok: "enqueueTx (pl_externals ps) req now (o_db s) = Ok (run, db', evs)"
    and own: "req_VariableSnapshotRunID req = 0" and scope: "valid_scope scope"
  shows "OpenRunScopedVariables ps ext (next_run_id (o_db s)) (req_EnvironmentID req) scope db' =
           scope_values ps (ext (req_PlanRevision req) (next_run_id (o_db s))) scope
             (active_rows (req_EnvironmentID req) (o_db s))"
proof -
  let ?n = "next_run_id (o_db s)" and ?k = "req_EnvironmentID req"
  let ?rows = "active_rows ?k (o_db s)"
  have vinv: "var_inv (o_db s)" and pinv: "pin_inv (o_db s)" and linv: "lease_inv (o_db s)"
    using inv by (auto simp: system_inv_def store_inv_def)
  note q = variable_query_active [OF vinv, of ?k]
  from pin_enqueue [OF ok] obtain digest copied created where new:
    "collect_refs (map scan_ref ?rows) [] = Ok (map scan_ref ?rows)"
    "digest = digestReleaseVariables (pl_externals ps) (map (\<lambda>v. ref_snapshot (scan_ref v)) ?rows)"
    "deploy_run_variable_snapshots db' = deploy_run_variable_snapshots (o_db s) @
      [\<lparr> vs_run_id = ?n, vs_environment_id = ?k, vs_digest = digest, vs_copied_from_run_id = copied, vs_created_at = created \<rparr>]"
    "deploy_run_variable_revisions db' = deploy_run_variable_revisions (o_db s) @ pins_for ?n (map scan_ref ?rows)"
    "deploy_variable_revisions db' = deploy_variable_revisions (o_db s)" "next_variable_id db' = next_variable_id (o_db s)"
    by (auto simp: own q comp_def)
  have snap: "find (\<lambda>v. vs_run_id v = ?n) (deploy_run_variable_snapshots db') = Some
      \<lparr> vs_run_id = ?n, vs_environment_id = ?k, vs_digest = digest, vs_copied_from_run_id = copied, vs_created_at = created \<rparr>"
    using pinv unfolding new(3) by (intro find_only) (auto simp: pin_inv_def)
  have "filter (\<lambda>rv. rv_run_id rv = ?n) (deploy_run_variable_revisions (o_db s)) = []"
    using pinv by (auto simp: pin_inv_def filter_empty_conv)
  moreover have "filter (\<lambda>rv. rv_run_id rv = ?n) (pins_for ?n (map scan_ref ?rows)) = pins_for ?n (map scan_ref ?rows)"
    using set_pins_for by (fastforce simp: filter_id_conv)
  ultimately have pins: "pins_of ?n db' = pins_for ?n (map scan_ref ?rows)" by (simp add: pins_of_def new(4))
  have "var_inv db'" using vinv by (simp add: var_inv_def new(5,6))
  then have rows: "pinned_rows ?n ?k db' = ?rows"
    by (rule pinned_rows_new) (auto simp: new(5) pins active_rows_def active_variable_def)
  have run: "run_by_id db' ?n = Some (queued_row ?n req now)" using enqueueTx_run [OF linv ok] by simp
  have "check_pinned ?rows [] = Ok ()"
    using active_keys_distinct [OF vinv] collect_refs_all [OF new(1)] by (intro check_pinned_ok) (auto simp: scan_ref_def)
  then show ?thesis
    using scope new(2) by (simp add: OpenRunScopedVariables_def snap run rows scope_values_def Let_def
        queued_row_def new_run_row_def)
qed

subsection \<open>Revisions\<close>

lemma find_sql_update_keep:
  assumes "\<And>r. P (f r) = P r"
  shows "find P (sql_update q f rows) = map_option (\<lambda>r. if q r then f r else r) (find P rows)"
  using assms by (induction rows) auto

lemma advance_find:
  assumes "advanceDesiredRevisionTx p k expected now db = Ok (desired, db1)"
  shows "\<exists>e. find (live_environment p k) (deploy_environments db1) = Some e \<and> e_desired_revision e = expected + 1"
proof -
  obtain e where e: "find (live_environment p k) (deploy_environments db) = Some e"
    using assms by (auto simp: advanceDesiredRevisionTx_def split: option.splits)
  have live: "live_environment p k e" using find_Some_in [OF e] by simp
  have current: "e_desired_revision e = expected"
    using assms e by (auto simp: advanceDesiredRevisionTx_def Let_def split: if_splits)
  from advance_effect [OF assms] have "deploy_environments db1 =
      sql_update (\<lambda>r. live_environment p k r \<and> e_desired_revision r = expected)
        (\<lambda>r. r\<lparr>e_desired_revision := expected + 1, e_updated_at := unix now\<rparr>) (deploy_environments db)" by auto
  then have "find (live_environment p k) (deploy_environments db1) = Some (e\<lparr>e_desired_revision := expected + 1, e_updated_at := unix now\<rparr>)"
    using e live current by (simp add: find_sql_update_keep live_environment_def)
  then show ?thesis by simp
qed

lemma advance_stale:
  assumes "find (live_environment p k) (deploy_environments db) = Some e" and "e_desired_revision e \<noteq> expected"
  shows "advanceDesiredRevisionTx p k expected now db = Err (ErrRevisionConflict (e_desired_revision e))"
  using assms by (simp add: advanceDesiredRevisionTx_def Let_def)

lemma write_environments:
  "writeVariableRevisionTx ps k name raw sensitivity scopes actor nonce now db = Ok db' \<Longrightarrow>
   deploy_environments db' = deploy_environments db"
  using write_effect by (fastforce simp: deactivate_variable_def)

subsection \<open>Reading a scope\<close>

lemma chase_fails_outside:
  "chase k vs None n = Some (Ok r) \<Longrightarrow> chase k vs (Some lookup) n = Some (Err e) \<Longrightarrow> \<exists>ref. lookup ref = Err e"
  by (induction k arbitrary: n) (auto split: option.splits if_splits)

lemma resolve_fails_outside:
  assumes ok: "is_ok (ResolveVariableGraph vs None)" and err: "ResolveVariableGraph vs (Some lookup) = Err e"
  shows "\<exists>ref. lookup ref = Err e"
proof -
  have values_ok: "\<exists>r. chase_all vs None n = Some (Ok r)" if "n \<in> fst ` set vs" for n using ok that unfolding graph_search_iff by blast
  from graph_search_Err [OF err] show ?thesis
  proof
    assume "\<exists>n \<in> fst ` set vs. chase_all vs (Some lookup) n = Some (Err e)"
    then obtain n where "n \<in> fst ` set vs" "chase_all vs (Some lookup) n = Some (Err e)" ..
    with values_ok chase_fails_outside show ?thesis unfolding chase_all_def by metis
  next
    assume "\<exists>path. e = ErrVariableCycle path \<and> cycle_path vs path"
    then obtain n where "n \<in> fst ` set vs" "chase_all vs None n = None" using cycle_path_name by blast
    with values_ok show ?thesis by fastforce
  qed
qed

lemma opened_rows:
  assumes "graph_ok ps k db"
  obtains all where "each (open_scoped ps) (active_rows k db) = Ok all"
    "is_ok (ResolveVariableGraph (map_assign (map (\<lambda>v. (sv_Name v, sv_Value v)) all)) None)"
proof -
  let ?f = "\<lambda>v. bindr (open_value ps (v_value_enc v)) (\<lambda>plain. Ok (v_key v, plain))"
  obtain kvs where kvs: "each ?f (active_rows k db) = Ok kvs" "is_ok (ResolveVariableGraph (map_assign kvs) None)"
    using assms by (auto simp: graph_ok_def validateActiveVariableGraphTx_def active_values_def is_ok_iff bindr_eq_Ok)
  have "\<exists>all. each (open_scoped ps) rows = Ok all \<and> map (\<lambda>v. (sv_Name v, sv_Value v)) all = kvs" if "each ?f rows = Ok kvs" for rows kvs
    using that
  proof (induction rows arbitrary: kvs)
    case (Cons v rows)
    then obtain plain kvs' where "open_value ps (v_value_enc v) = Ok plain" "each ?f rows = Ok kvs'" "kvs = (v_key v, plain) # kvs'"
      by (auto simp: bindr_eq_Ok)
    with Cons.IH [of kvs'] show ?case by (auto simp: open_scoped_def scan_scoped_def)
  qed simp
  from this [OF kvs(1)] kvs(2) that show thesis by blast
qed

subsection \<open>The pending state\<close>

lemma filter_map_empty: "map f (filter p xs) = [] \<longleftrightarrow> (\<forall>x \<in> set xs. \<not> p x)"
  by (simp add: filter_empty_conv)

lemma named_on_either_side:
  "n \<in> set (map fst a @ map fst b) \<longleftrightarrow> map_of a n \<noteq> None \<or> map_of b n \<noteq> None"
  unfolding set_append set_map Un_iff map_of_eq_None_iff not_not by (rule refl)

lemma same_digest: "map_of a n = map_of b n \<longleftrightarrow>
    (map_of a n \<noteq> None \<or> map_of b n \<noteq> None \<longrightarrow>
      map_of a n \<noteq> None \<and> map_of b n \<noteq> None \<and> digest_or_empty a n = digest_or_empty b n)"
  by (cases "map_of a n"; cases "map_of b n") (simp_all add: digest_or_empty_def)

lemma diffNamedDigests_empty: "diffNamedDigests kind a b = [] \<longleftrightarrow> map_of a = map_of b"
proof -
  have "diffNamedDigests kind a b = [] \<longleftrightarrow> (\<forall>n \<in> set (map fst a @ map fst b).
      map_of a n \<noteq> None \<and> map_of b n \<noteq> None \<and> digest_or_empty a n = digest_or_empty b n)"
    unfolding diffNamedDigests_def filter_map_empty by simp
  then show ?thesis
    unfolding Ball_def named_on_either_side fun_eq_iff same_digest .
qed

text \<open>When nothing is pending, the live release runs the plan and the variables of the environment.\<close>

lemma PendingState_settled:
  assumes "PendingState x p k db = Ok st" and "\<not> pn_Pending st"
  shows "\<exists>live \<in> set (deploy_releases db). rel_id live = pn_LiveReleaseID st \<and> rel_environment_id live = k \<and>
    rel_plan_revision live = pn_DesiredRevision st \<and>
    map_of (variableDigestMap (live_variable_rows (rel_run_id live) db)) = map_of (variableDigestMap (active_rows k db))"
proof -
  obtain e live changes where e: "find (live_environment p k) (deploy_environments db) = Some e" "e_live_release_id e \<noteq> 0"
    and live: "find (\<lambda>r. rel_id r = e_live_release_id e \<and> rel_environment_id r = k) (deploy_releases db) = Some live"
    and changes: "pending_changes x k (e_desired_revision e) live db = Ok changes"
    and st: "st = \<lparr> pn_Pending = (rel_plan_revision live \<noteq> e_desired_revision e \<or> changes \<noteq> []),
      pn_DesiredRevision = e_desired_revision e, pn_LiveReleaseID = e_live_release_id e,
      pn_LivePlanRevision = rel_plan_revision live, pn_Changes = changes \<rparr>"
    using assms by (auto simp: PendingState_def Let_def bindr_eq_Ok one_row_def split: option.splits if_splits)
  have "diffNamedDigests ''variable'' (variableDigestMap (live_variable_rows (rel_run_id live) db))
      (variableDigestMap (active_rows k db)) = []"
    using changes assms(2) by (auto simp: st pending_changes_def bindr_eq_Ok)
  then show ?thesis
    using find_Some_in [OF live] assms(2) by (intro bexI [of _ live]) (auto simp: st diffNamedDigests_empty)
qed

end
