(* ===== verification/Deploy_Variable_Properties.thy ===== *)
theory Deploy_Variable_Properties
  imports Deploy_Effects Deploy_Samples
begin

text \<open>
  The properties of deployment variables: the dotenv parser, the resolution of references, the
  editor of variables with its revisions, and what a run reads of it. Each property is followed by
  its application to concrete data.
\<close>

subsection \<open>Sample data\<close>

definition sampleAead :: aead where
  "sampleAead = \<lparr> aead_NonceSize = 1, aead_Seal = (\<lambda>nonce s. CHR ''s'' # s),
     aead_Open = (\<lambda>nonce s. case s of [] \<Rightarrow> None | _ # t \<Rightarrow> Some t) \<rparr>"

definition samplePlanning :: PlanningStore where
  "samplePlanning = \<lparr> pl_externals = sampleExt, pl_sealer = \<lparr> sealer_aead = sampleAead \<rparr> \<rparr>"

definition planDb :: db where
  "planDb = emptyDb\<lparr>
     deploy_sources := [\<lparr> src_id = 1, src_environment_id = 1, src_revision = 1, src_kind = ''git'', src_config_json = ''{}'',
       src_credential_id = 0, src_identity_json = ''{}'', src_digest = ''d'', src_created_at = 1 \<rparr>],
     deploy_build_plans := [\<lparr> bp_id = 1, bp_environment_id = 1, bp_revision = 1, bp_method = ''dockerfile'',
       bp_config_json = ''{}'', bp_evidence_json = ''{}'', bp_preview = [], bp_digest = ''d'', bp_created_at = 1 \<rparr>],
     deploy_runtime_plans := [\<lparr> rp_id = 1, rp_environment_id = 1, rp_revision = 1, rp_config_json = ''{}'',
       rp_preview = [], rp_digest = ''d'', rp_created_at = 1 \<rparr>],
     next_source_id := 2, next_build_plan_id := 2, next_runtime_plan_id := 2\<rparr>"

definition sampleWrite :: "int \<Rightarrow> string \<Rightarrow> VariableWriteRequest" where
  "sampleWrite revision raw =
     \<lparr> vw_Revision = revision, vw_Value = Some raw, vw_Reference = [], vw_Sensitivity = ''secret'',
       vw_Scopes = [''runtime''] \<rparr>"

lemma planDb_inv: "system_inv samplePlanning planDb"
proof -
  have "store_inv planDb" using fresh_store_inv [OF fresh_emptyDb]
    by (simp add: planDb_def store_inv_def store_of_def lease_inv_def idem_inv_def step_inv_def port_inv_def live_inv_def)
  moreover have "graph_ok samplePlanning k planDb" for k
    by (simp add: graph_ok_def validateActiveVariableGraphTx_def active_values_def active_rows_def planDb_def emptyDb_def
        map_assign_def ResolveVariableGraph_def)
  ultimately show ?thesis
    by (simp add: system_inv_def var_inv_def graphs_ok_def pin_inv_def planDb_def emptyDb_def)
qed

lemma sampleAead_inverse: "aead_inverse (sealer_aead (pl_sealer samplePlanning))"
  by (simp add: aead_inverse_def samplePlanning_def sampleAead_def)

text \<open>The database after one variable was written, in two steps.\<close>

definition sampleDb1 :: db where
  "sampleDb1 = (case advanceDesiredRevisionTx 1 1 1 sampleTime planDb of Inl _ \<Rightarrow> planDb | Inr (_, db) \<Rightarrow> db)"

definition sampleDb2 :: "string \<Rightarrow> db" where
  "sampleDb2 raw =
     (case writeVariableRevisionTx samplePlanning 1 ''TOKEN'' raw ''secret'' [''runtime''] ''admin'' ''n'' sampleTime sampleDb1
        of Inl _ \<Rightarrow> sampleDb1 | Inr db \<Rightarrow> db)"

lemma sample_advance: "advanceDesiredRevisionTx 1 1 1 sampleTime planDb = Ok (2, sampleDb1)"
proof -
  have "is_ok (advanceDesiredRevisionTx 1 1 1 sampleTime planDb)" by code_simp
  then obtain d where d: "advanceDesiredRevisionTx 1 1 1 sampleTime planDb = Ok (d, sampleDb1)"
    by (auto simp: is_ok_iff sampleDb1_def)
  with advance_effect [OF d] show ?thesis by auto
qed

lemma sample_write:
  "writeVariableRevisionTx samplePlanning 1 ''TOKEN'' raw ''secret'' [''runtime''] ''admin'' ''n'' sampleTime sampleDb1 = Ok (sampleDb2 raw)"
proof -
  have "sql_exists (\<lambda>e. e_id e = 1) (deploy_environments sampleDb1)" by code_simp
  then show ?thesis by (simp add: sampleDb2_def writeVariableRevisionTx_def Let_def del: sql_exists_iff)
qed

lemma sample_put:
  assumes "validateVariableWrite (sampleWrite 1 raw) = Ok raw"
    and "is_ok (validateActiveVariableGraphTx samplePlanning 1 (sampleDb2 raw))"
    and "is_ok (ListVariables samplePlanning 1 1 (sampleDb2 raw))"
  shows "\<exists>result. PutVariable samplePlanning 1 1 ''TOKEN'' ''admin'' (sampleWrite 1 raw) ''n'' sampleTime planDb = (Ok result, sampleDb2 raw)"
proof -
  have "put_variable_tx samplePlanning 1 1 ''TOKEN'' ''admin'' raw (sampleWrite 1 raw) ''n'' sampleTime planDb = Ok (2, sampleDb2 raw)"
    using assms(2) by (auto simp: put_variable_tx_def sampleWrite_def sample_advance sample_write is_ok_iff)
  moreover obtain vs where "ListVariables samplePlanning 1 1 (sampleDb2 raw) = Ok vs" using assms(3) unfolding is_ok_iff ..
  moreover have "envKeyRe ''TOKEN''" by code_simp
  ultimately show ?thesis using assms(1) by (simp add: PutVariable_def mutation_result_def)
qed

lemma sample_valid: "validateVariableWrite (sampleWrite 1 ''x'') = Ok ''x''"
  by code_simp

lemma sample_put_x:
  "\<exists>result. PutVariable samplePlanning 1 1 ''TOKEN'' ''admin'' (sampleWrite 1 ''x'') ''n'' sampleTime planDb = (Ok result, sampleDb2 ''x'')"
  by (rule sample_put [OF sample_valid]) code_simp+

lemma sample_put_reference:
  "\<exists>result. PutVariable samplePlanning 1 1 ''TOKEN'' ''admin'' (sampleWrite 1 ''${{credential.x}}'') ''n'' sampleTime planDb
     = (Ok result, sampleDb2 ''${{credential.x}}'')"
  by (rule sample_put) code_simp+

lemma sample_edit:
  assumes "\<exists>result. PutVariable samplePlanning 1 1 ''TOKEN'' ''admin'' (sampleWrite 1 raw) ''n'' sampleTime planDb = (Ok result, sampleDb2 raw)"
  shows "system_reaches samplePlanning (store_of planDb) (store_of (sampleDb2 raw))"
proof -
  have "config_step samplePlanning planDb (sampleDb2 raw)"
    using config_Put [of samplePlanning planDb 1 1 "''TOKEN''" "''admin''" "sampleWrite 1 raw" "''n''" sampleTime] assms by auto
  then have "system_step samplePlanning (store_of planDb) (store_of (sampleDb2 raw))"
    using system_config [of samplePlanning "store_of planDb" "sampleDb2 raw"] by (simp add: store_of_def)
  then show ?thesis unfolding system_reaches_def by blast
qed

lemma sample_edit_inv:
  assumes "\<exists>result. PutVariable samplePlanning 1 1 ''TOKEN'' ''admin'' (sampleWrite 1 raw) ''n'' sampleTime planDb = (Ok result, sampleDb2 raw)"
  shows "system_inv samplePlanning (sampleDb2 raw)"
  using system_reaches_keeps [OF sample_edit [OF assms]] planDb_inv by (simp add: store_of_def)

subsection \<open>Dotenv files\<close>

text \<open>
  C26: whatever the parser accepts, each name is one an environment accepts and occurs once, there
  are at most 256 of them, and no value is longer than 64 KiB or contains a NUL byte.
\<close>

theorem dotenv_result_is_valid:
  assumes "ParseDotenv input = Ok kvs"
  shows "distinct (map fst kvs) \<and> length kvs \<le> 256 \<and>
    list_all (\<lambda>(name, v). envKeyRe name \<and> length v \<le> maxDeploymentVariableValue \<and> nul_char \<notin> set v) kvs"
  using ParseDotenv_ok [OF assms] by (auto simp: dotenv_ok_def value_too_large_def list_all_iff)

theorem dotenv_result_is_valid_witness:
  "\<exists>input. ParseDotenv input = Ok [(''HOST'', ''db1''), (''PORT'', [])] \<and> envKeyRe ''HOST'' \<and> distinct [''HOST'', ''PORT'']"
proof -
  have "dotenv_ok [(''HOST'', ''db1''), (''PORT'', [])]" by code_simp
  moreover have "length (write_dotenv [(''HOST'', ''db1''), (''PORT'', [])]) \<le> maxDotenvBytes"
    by (simp add: write_dotenv_def write_entry_def escape_def maxDotenvBytes_def control_chars)
  ultimately have p: "ParseDotenv (write_dotenv [(''HOST'', ''db1''), (''PORT'', [])]) = Ok [(''HOST'', ''db1''), (''PORT'', [])]"
    by (rule ParseDotenv_write_dotenv)
  with dotenv_result_is_valid [OF p] show ?thesis by auto
qed



subsection \<open>References\<close>

text \<open>
  C25: the depth-first search with its three colours answers what following the references one by
  one answers, for every set of variables: when it succeeds, every name leads to its value and
  secrecy; when it fails, either some name leads to that very error or the reported path is a real
  chain of references that returns to one of its own names, and then no name on it leads to a value.
\<close>

theorem reference_search_follows_references:
  "case ResolveVariableGraph vs ext of
     Inr (resolved, leaves) \<Rightarrow> \<forall>n \<in> fst ` set vs. chase_all vs ext n = Some (Ok (resolved n, leaves n))
   | Inl e \<Rightarrow>
       (\<exists>n \<in> fst ` set vs. chase_all vs ext n = Some (Err e)) \<or>
       (\<exists>path. e = ErrVariableCycle path \<and> successively (ref_edge vs) path \<and> last path \<in> set (butlast path) \<and>
          (\<forall>n \<in> set path. chase_all vs ext n = None))"
proof (cases "ResolveVariableGraph vs ext")
  case (Inl e)
  from graph_search_Err [OF Inl] show ?thesis
  proof
    assume "\<exists>path. e = ErrVariableCycle path \<and> cycle_path vs path"
    then obtain path where p: "e = ErrVariableCycle path" "cycle_path vs path" by blast
    with cycle_never_ends [OF p(2)] Inl show ?thesis by (auto simp: cycle_path_def chase_all_def simp del: chase.simps)
  qed (simp add: Inl)
next
  case (Inr r)
  then show ?thesis using graph_search_Ok by (cases r) auto
qed

theorem reference_search_follows_references_witness:
  "ResolveVariableGraph [(''A'', ''${{variable.B}}''), (''B'', ''${{variable.A}}'')] None = Err (ErrVariableCycle [''A'', ''B'', ''A'']) \<and>
   (\<exists>path. chase_all [(''A'', ''${{variable.B}}''), (''B'', ''${{variable.A}}'')] None ''A'' = None \<and> path = [''A'', ''B'', ''A''])"
proof -
  let ?vs = "[(''A'', ''${{variable.B}}''), (''B'', ''${{variable.A}}'')]"
  have "case ResolveVariableGraph ?vs None of Inl e \<Rightarrow> e = ErrVariableCycle [''A'', ''B'', ''A''] | Inr _ \<Rightarrow> False" by code_simp
  then have r: "ResolveVariableGraph ?vs None = Err (ErrVariableCycle [''A'', ''B'', ''A''])" by (simp split: sum.splits)
  have "chase_all ?vs None ''A'' \<noteq> Some (Err (ErrVariableCycle [''A'', ''B'', ''A'']))"
    "chase_all ?vs None ''B'' \<noteq> Some (Err (ErrVariableCycle [''A'', ''B'', ''A'']))" by code_simp+
  with reference_search_follows_references [of ?vs None] r show ?thesis by auto
qed

subsection \<open>The editor of variables\<close>

text \<open>
  C23: a variable that was written is read back: the reveal returns the text that was written, byte
  for byte, every other variable that could be revealed still is, with its value, the environment's
  plan has the next revision, and the view of the variable carries the digest and a mask that does
  not depend on the value.
\<close>

theorem variable_write_is_read_back:
  assumes "var_inv db" and "aead_inverse (sealer_aead (pl_sealer ps))"
    and "length nonce = aead_NonceSize (sealer_aead (pl_sealer ps))" and "nonce \<noteq> []"
    and "PutVariable ps p k name actor request nonce now db = (Ok result, db')" and "validateVariableWrite request = Ok raw"
  shows "RevealVariable ps p k name db' = Ok \<lparr> rev_Name = name, rev_Value = raw, rev_Reference = reference_of raw \<rparr> \<and>
    (\<forall>other r. other \<noteq> name \<and> RevealVariable ps p k other db = Ok r \<longrightarrow> RevealVariable ps p k other db' = Ok r) \<and>
    mr_DesiredRevision result = vw_Revision request + 1 \<and>
    (\<exists>v. mr_Variable result = Some v \<and> dv_Name v = name \<and> dv_ValueDigest v = digestBytes (pl_externals ps) [raw] \<and>
       dv_Masked v = (if vw_Sensitivity request = ''secret'' then concat (replicate 8 bullet) else ''configured''))"
proof -
  obtain row vs where row: "set (active_rows k db') = insert row {v \<in> set (active_rows k db). v_key v \<noteq> name}"
    "v_key row = name" "open_value ps (v_value_enc row) = Ok raw" "v_value_digest row = digestBytes (pl_externals ps) [raw]"
    "v_sensitivity row = vw_Sensitivity request" and vs: "activeVariableValues ps p k db' = Ok vs"
    and result: "mr_DesiredRevision result = vw_Revision request + 1" "envKeyRe name"
      "mr_Variable result = find (\<lambda>v. dv_Name v = name) (variableViews vs)"
    by (rule PutVariable_row [OF assms(2-6)])
  have only: "w = row" if "w \<in> set (active_rows k db')" "v_key w = name" for w using that by (simp add: row(1))
  have in_db': "row \<in> set (active_rows k db')" by (simp add: row(1))
  from reveal_row [OF vs in_db' row(2) only result(2)] row(3)
  have "RevealVariable ps p k name db' = Ok \<lparr> rev_Name = name, rev_Value = raw, rev_Reference = reference_of raw \<rparr>" by auto
  moreover have "RevealVariable ps p k other db' = Ok r" if "other \<noteq> name" "RevealVariable ps p k other db = Ok r" for other r
    by (rule reveal_kept [OF assms(1) vs row(1,2) that])
  moreover have "\<exists>v. mr_Variable result = Some v \<and> dv_Name v = name \<and> dv_ValueDigest v = digestBytes (pl_externals ps) [raw] \<and>
       dv_Masked v = (if vw_Sensitivity request = ''secret'' then concat (replicate 8 bullet) else ''configured'')"
    using view_row [OF vs in_db' row(2) only] row(4,5) result(3) by auto
  ultimately show ?thesis using result(1) by blast
qed

theorem variable_write_is_read_back_witness:
  "RevealVariable samplePlanning 1 1 ''TOKEN'' (sampleDb2 ''x'')
     = Ok \<lparr> rev_Name = ''TOKEN'', rev_Value = ''x'', rev_Reference = reference_of ''x'' \<rparr>"
proof -
  obtain result where put: "PutVariable samplePlanning 1 1 ''TOKEN'' ''admin'' (sampleWrite 1 ''x'') ''n'' sampleTime planDb = (Ok result, sampleDb2 ''x'')"
    using sample_put_x by blast
  have "var_inv planDb" using planDb_inv by (simp add: system_inv_def)
  from variable_write_is_read_back [OF this sampleAead_inverse _ _ put sample_valid]
  show ?thesis by (simp add: samplePlanning_def sampleAead_def)
qed



text \<open>
  C22: whatever the orchestration and the editor of variables do, in any order and number, the
  invariant of the orchestration holds on, a variable has at most one active revision and no two
  revisions share a number, and the active variables of every environment can be decrypted and
  their references lead to values.
\<close>

theorem editing_keeps_the_store:
  assumes "system_inv ps (o_db s)" and "system_reaches ps s s'"
  shows "store_inv (o_db s') \<and>
    distinct (map (\<lambda>v. (v_environment_id v, v_key v)) (filter v_active (deploy_variable_revisions (o_db s')))) \<and>
    distinct (map (\<lambda>v. (v_environment_id v, v_key v, v_revision v)) (deploy_variable_revisions (o_db s'))) \<and>
    (\<forall>k. is_ok (validateActiveVariableGraphTx ps k (o_db s')))"
  using system_reaches_keeps [OF assms(2,1)] by (simp add: system_inv_def var_inv_def graphs_ok_def graph_ok_def)

theorem editing_keeps_the_store_witness:
  "store_inv (sampleDb2 ''x'') \<and> (\<forall>k. is_ok (validateActiveVariableGraphTx samplePlanning k (sampleDb2 ''x'')))"
  using editing_keeps_the_store [OF _ sample_edit [OF sample_put_x]] planDb_inv by (simp add: store_of_def)




text \<open>
  Reading the active variables of an environment for a scope can only fail with an error of
  the owner of another feature that a reference names (a credential, a database, a domain, a service):
  decryption, cycles and missing variables were excluded when they were written.
\<close>

theorem scoped_read_fails_only_outside:
  assumes "system_inv ps db" and "valid_scope scope" and "e \<in> set (deploy_environments db)"
    and "e_id e = k" and "e_archived_at e = 0" and "OpenScopedVariables ps ext k scope db = Err err"
  shows "\<exists>revision reference. ext revision 0 reference = Err err"
proof -
  obtain all where all: "each (open_scoped ps) (active_rows k db) = Ok all"
    "is_ok (ResolveVariableGraph (map_assign (map (\<lambda>v. (sv_Name v, sv_Value v)) all)) None)"
    by (rule opened_rows [of ps k db]) (use assms(1) in \<open>auto simp: system_inv_def graphs_ok_def\<close>)
  obtain e' where "find (\<lambda>e. e_id e = k \<and> e_archived_at e = 0) (deploy_environments db) = Some e'"
    using assms(3-5) by (cases "find (\<lambda>e. e_id e = k \<and> e_archived_at e = 0) (deploy_environments db)") (auto simp: find_None_iff)
  then have "ResolveVariableGraph (map_assign (map (\<lambda>v. (sv_Name v, sv_Value v)) all)) (Some (ext (e_desired_revision e') 0)) = Err err"
    using assms(2,6) by (auto simp: OpenScopedVariables_def all(1) resolveScopedVariableValues_def bindr_eq_Err split: prod.splits)
  from resolve_fails_outside [OF all(2) this] show ?thesis by blast
qed

theorem scoped_read_fails_only_outside_witness:
  "\<exists>err. OpenScopedVariables samplePlanning (\<lambda>_ _ _. Err ErrRunNotFound) 1 ''runtime'' (sampleDb2 ''${{credential.x}}'') = Err err \<and>
     (\<lambda>(_::int) (_::int) (_::VariableReference). Err ErrRunNotFound :: deploy_error + string \<times> bool) 0 0 \<lparr> vr_Kind = [], vr_Target = [] \<rparr> = Err err"
proof -
  let ?db = "sampleDb2 ''${{credential.x}}''" and ?ext = "\<lambda>(_::int) (_::int) (_::VariableReference). Err ErrRunNotFound :: deploy_error + string \<times> bool"
  have "\<not> is_ok (OpenScopedVariables samplePlanning ?ext 1 ''runtime'' ?db)" by code_simp
  then obtain err where err: "OpenScopedVariables samplePlanning ?ext 1 ''runtime'' ?db = Err err"
    by (cases "OpenScopedVariables samplePlanning ?ext 1 ''runtime'' ?db") auto
  have env: "list_ex (\<lambda>e. e_id e = 1 \<and> e_archived_at e = 0) (deploy_environments ?db)" by code_simp
  then obtain e where "e \<in> set (deploy_environments ?db)" "e_id e = 1" "e_archived_at e = 0" by (auto simp: list_ex_iff)
  with scoped_read_fails_only_outside [OF sample_edit_inv [OF sample_put_reference] _ this err] err show ?thesis
    by (auto simp: valid_scope_def)
qed

subsection \<open>Secrecy\<close>

text \<open>
  The rule that a reference to a credential or a database must be secret holds only for the
  request field \<open>reference\<close>: the same text sent as a plain value is accepted, stored as plain, and
  resolved to the credential like any reference.
\<close>

theorem plain_value_reaches_a_credential:
  assumes "ParseVariableReference v = Ok r" and "vr_Kind r = ''credential'' \<or> vr_Kind r = ''database''"
    and "\<not> value_too_large v" and "validate_scopes scopes [] = Ok ()" and "scopes \<noteq> []" and "length scopes \<le> 3"
    and "lookup r = Ok (credential, leaf)"
  shows "validateVariableWrite \<lparr> vw_Revision = n, vw_Value = None, vw_Reference = v, vw_Sensitivity = ''plain'', vw_Scopes = scopes \<rparr>
       = Err (ErrInvalidVariable (vr_Kind r @ '' references must be secret'')) \<and>
    validateVariableWrite \<lparr> vw_Revision = n, vw_Value = Some v, vw_Reference = [], vw_Sensitivity = ''plain'', vw_Scopes = scopes \<rparr> = Ok v \<and>
    (\<exists>resolved leaves. ResolveVariableGraph [(name, v)] (Some lookup) = Ok (resolved, leaves) \<and> resolved name = credential)"
proof -
  have ne: "v \<noteq> []" using assms(1) by (auto simp: ParseVariableReference_def plannedReferenceRE_def has_prefix_def)
  have chase: "chase_all [(name, v)] (Some lookup) name = Some (Ok (credential, leaf))"
    using assms(1,2,7) by (auto simp: chase_all_def reference_of_def)
  then obtain resolved leaves where res: "ResolveVariableGraph [(name, v)] (Some lookup) = Ok (resolved, leaves)"
    using graph_search_iff [of "[(name, v)]" "Some lookup"] by (auto simp: is_ok_iff)
  with graph_search_Ok [OF res, of name] chase have "resolved name = credential" by simp
  moreover have "\<not> 3 < length scopes" using assms(6) by simp
  ultimately show ?thesis
    using assms ne res by (auto simp: validateVariableWrite_def)
qed

theorem plain_value_reaches_a_credential_witness:
  "validateVariableWrite \<lparr> vw_Revision = 1, vw_Value = Some ''${{credential.x}}'', vw_Reference = [], vw_Sensitivity = ''plain'',
      vw_Scopes = [''build''] \<rparr> = Ok ''${{credential.x}}'' \<and>
   (\<exists>resolved leaves. ResolveVariableGraph [(''A'', ''${{credential.x}}'')] (Some (\<lambda>r. Ok (''password'', True))) = Ok (resolved, leaves) \<and>
      resolved ''A'' = ''password'')"
proof -
  have r: "ParseVariableReference ''${{credential.x}}'' = Ok \<lparr> vr_Kind = ''credential'', vr_Target = ''x'' \<rparr>" by code_simp
  have "\<not> value_too_large ''${{credential.x}}''" "validate_scopes [''build''] [] = Ok ()" by code_simp+
  from plain_value_reaches_a_credential [OF r _ this, of "\<lambda>r. Ok (''password'', True)" "''password''" True 1 "''A''"]
  show ?thesis by simp
qed

text \<open>
  Secrecy does not travel along references between variables: a plain variable that refers to
  a secret variable of the same environment is handed to the workload with the secret's text and is
  still marked plain, whereas a plain reference to an external secret is marked secret.
\<close>

theorem local_secret_is_passed_on_as_plain:
  assumes "reference_of secret = None" and "ParseVariableReference link = Ok \<lparr> vr_Kind = ''variable'', vr_Target = a \<rparr>" and "a \<noteq> b"
  shows "resolveScopedVariableValues
      [\<lparr> sv_Name = a, sv_Value = secret, sv_Sensitivity = ''secret'', sv_Scopes = [''build''], sv_ValueDigest = d \<rparr>,
       \<lparr> sv_Name = b, sv_Value = link, sv_Sensitivity = ''plain'', sv_Scopes = [''runtime''], sv_ValueDigest = e \<rparr>]
      ''runtime'' lookup
    = Ok [\<lparr> sv_Name = b, sv_Value = secret, sv_Sensitivity = ''plain'', sv_Scopes = [''runtime''], sv_ValueDigest = e \<rparr>]"
proof -
  let ?vs = "[(a, secret), (b, link)]"
  have vs: "map_assign [(a, secret), (b, link)] = ?vs" using assms(3) by (simp add: map_assign_def)
  have link: "reference_of link = Some \<lparr> vr_Kind = ''variable'', vr_Target = a \<rparr>" using assms(2) by (simp add: reference_of_eq)
  have card: "card {a, b} = Suc (Suc 0)" using assms(3) by simp
  have chase: "chase_all ?vs (Some lookup) a = Some (Ok (secret, False))" "chase_all ?vs (Some lookup) b = Some (Ok (secret, False))"
    using assms(1,3) link by (simp_all add: chase_all_def card)
  then obtain resolved leaves where res: "ResolveVariableGraph ?vs (Some lookup) = Ok (resolved, leaves)"
    using graph_search_iff [of ?vs "Some lookup"] by (auto simp: is_ok_iff)
  have "resolved b = secret" "\<not> leaves b" using graph_search_Ok [OF res, of b] chase by auto
  moreover have "trim_space ''runtime'' = ''runtime''" "trim_space ''build'' = ''build''"
    by (simp_all add: trim_space_env_key envKeyRe_def char_ranges)
  ultimately show ?thesis by (simp add: resolveScopedVariableValues_def vs res in_scope_def)
qed

theorem local_secret_is_passed_on_as_plain_witness:
  "resolveScopedVariableValues
      [\<lparr> sv_Name = ''A'', sv_Value = ''hunter2'', sv_Sensitivity = ''secret'', sv_Scopes = [''build''], sv_ValueDigest = [] \<rparr>,
       \<lparr> sv_Name = ''B'', sv_Value = ''${{variable.A}}'', sv_Sensitivity = ''plain'', sv_Scopes = [''runtime''], sv_ValueDigest = [] \<rparr>]
      ''runtime'' (\<lambda>_. Ok ([], True))
    = Ok [\<lparr> sv_Name = ''B'', sv_Value = ''hunter2'', sv_Sensitivity = ''plain'', sv_Scopes = [''runtime''], sv_ValueDigest = [] \<rparr>]"
proof (rule local_secret_is_passed_on_as_plain)
  show "reference_of ''hunter2'' = None" by code_simp
  show "ParseVariableReference ''${{variable.A}}'' = Ok \<lparr> vr_Kind = ''variable'', vr_Target = ''A'' \<rparr>" by code_simp
qed simp

end
