(* ===== verification/Jobs_Model.thy ===== *)
theory Jobs_Model
  imports Go_Json
begin

text \<open>
  Background jobs (jobs/jobs.go): the record of a job with its ring buffer of output lines, the
  manager's table with its pruning, and the operations as the sections they run under a lock.
  Entries live on a heap, because the goroutine of a job and a pending cancellation hold a pointer
  to the entry, not its id. A channel is a bounded queue; a send on a closed channel and a close of
  a closed channel are panics.
\<close>

subsection \<open>Data\<close>

datatype Status = StatusRunning | StatusSucceeded | StatusFailed | StatusCancelled

record Line =
  ln_Seq :: int
  ln_Stream :: string
  ln_Text :: string
  ln_At :: go_time

record Job =
  job_ID :: string
  job_Kind :: string
  job_Title :: string
  job_Target :: string
  job_Status :: Status
  job_ExitCode :: int
  job_Error :: string
  job_StartedAt :: go_time
  job_EndedAt :: "go_time option"
  job_StartedBy :: string
  job_Lines :: int

record Spec =
  sp_Kind :: string
  sp_Title :: string
  sp_Target :: string
  sp_StartedBy :: string
  sp_Timeout :: go_duration

definition maxLines :: nat where
  "maxLines = 5000"

definition maxJobs :: nat where
  "maxJobs = 50"

definition defaultTimeout :: go_duration where
  "defaultTimeout = 30 * minute"

definition channelBuffer :: nat where
  "channelBuffer = 512"

record entry =
  en_job :: Job
  en_lines :: "Line list"
  en_first :: int
  en_subs :: "nat list"

record Manager =
  mg_entries :: "string \<Rightarrow> nat option"
  mg_order :: "string list"

definition New :: Manager where
  "New = \<lparr> mg_entries = (\<lambda>_. None), mg_order = [] \<rparr>"

subsection \<open>Channels\<close>

text \<open>
  \<open>ch_seen\<close> are the lines a reader has taken, \<open>ch_dropped\<close> those a full buffer made the sender skip;
  the code keeps neither.
\<close>

record channel =
  ch_buffer :: "Line list"
  ch_closed :: bool
  ch_seen :: "Line list"
  ch_dropped :: "Line list"

definition new_channel :: channel where
  "new_channel = \<lparr> ch_buffer = [], ch_closed = False, ch_seen = [], ch_dropped = [] \<rparr>"

datatype panic = SendOnClosedChannel | CloseOfClosedChannel

text \<open>\<open>select { case ch <- line: default: }\<close>\<close>

definition try_send :: "Line \<Rightarrow> channel \<Rightarrow> panic + channel" where
  "try_send line ch =
     (if ch_closed ch then Err SendOnClosedChannel
      else if length (ch_buffer ch) < channelBuffer then Ok (ch\<lparr>ch_buffer := ch_buffer ch @ [line]\<rparr>)
      else Ok (ch\<lparr>ch_dropped := ch_dropped ch @ [line]\<rparr>))"

definition close_channel :: "channel \<Rightarrow> panic + channel" where
  "close_channel ch = (if ch_closed ch then Err CloseOfClosedChannel else Ok (ch\<lparr>ch_closed := True\<rparr>))"

subsection \<open>One entry\<close>

definition start_job :: "Spec \<Rightarrow> string \<Rightarrow> go_time \<Rightarrow> Job" where
  "start_job spec i now =
     \<lparr> job_ID = i, job_Kind = sp_Kind spec, job_Title = sp_Title spec, job_Target = sp_Target spec,
       job_Status = StatusRunning, job_ExitCode = 0, job_Error = [], job_StartedAt = now,
       job_EndedAt = None, job_StartedBy = sp_StartedBy spec, job_Lines = 0 \<rparr>"

definition new_entry :: "Spec \<Rightarrow> string \<Rightarrow> go_time \<Rightarrow> entry" where
  "new_entry spec i now = \<lparr> en_job = start_job spec i now, en_lines = [], en_first = 0, en_subs = [] \<rparr>"

definition job_timeout :: "Spec \<Rightarrow> go_duration" where
  "job_timeout spec = (if sp_Timeout spec \<le> 0 then defaultTimeout else sp_Timeout spec)"

definition next_line :: "string \<Rightarrow> string \<Rightarrow> go_time \<Rightarrow> entry \<Rightarrow> Line" where
  "next_line stream msg now e =
     \<lparr> ln_Seq = job_Lines (en_job e) + 1, ln_Stream = stream, ln_Text = msg, ln_At = now \<rparr>"

text \<open>The part of \<open>appendLine\<close> that runs under the lock of the entry.\<close>

definition append_locked :: "Line \<Rightarrow> entry \<Rightarrow> entry" where
  "append_locked line e =
     (let ls = en_lines e @ [line];
          kept = (if maxLines < length ls then drop (length ls - maxLines) ls else ls) in
      e\<lparr>en_job := (en_job e)\<lparr>job_Lines := job_Lines (en_job e) + 1\<rparr>, en_lines := kept,
        en_first := (if maxLines < length ls then ln_Seq (hd kept) else en_first e)\<rparr>)"

definition setExitCode :: "int \<Rightarrow> entry \<Rightarrow> entry" where
  "setExitCode code e = e\<lparr>en_job := (en_job e)\<lparr>job_ExitCode := code\<rparr>\<rparr>"

definition markCancelled :: "entry \<Rightarrow> entry" where
  "markCancelled e =
     (if job_Status (en_job e) = StatusRunning then e\<lparr>en_job := (en_job e)\<lparr>job_Status := StatusCancelled\<rparr>\<rparr> else e)"

text \<open>The part of \<open>finish\<close> under the lock; \<open>timed_out\<close> is \<open>ctxErr == context.DeadlineExceeded\<close>.\<close>

definition finish_locked :: "string option \<Rightarrow> bool \<Rightarrow> go_time \<Rightarrow> entry \<Rightarrow> entry" where
  "finish_locked runErr timed_out now e =
     (let job = (en_job e)\<lparr>job_EndedAt := Some now\<rparr>;
          job' = (if job_Status job = StatusCancelled then job
                  else case runErr of
                      Some msg \<Rightarrow> job\<lparr>job_Status := StatusFailed,
                                     job_Error := (if timed_out then ''timed out: '' @ msg else msg)\<rparr>
                    | None \<Rightarrow> job\<lparr>job_Status := StatusSucceeded\<rparr>) in
      e\<lparr>en_job := job', en_subs := []\<rparr>)"

definition subscribe_locked :: "nat \<Rightarrow> entry \<Rightarrow> entry" where
  "subscribe_locked c e = e\<lparr>en_subs := en_subs e @ [c]\<rparr>"

definition backlog_after :: "int \<Rightarrow> entry \<Rightarrow> Line list" where
  "backlog_after after e = filter (\<lambda>l. after < ln_Seq l) (en_lines e)"

definition remove_sub :: "nat \<Rightarrow> entry \<Rightarrow> entry" where
  "remove_sub c e = e\<lparr>en_subs := filter (\<lambda>d. d \<noteq> c) (en_subs e)\<rparr>"

definition clear_subs :: "entry \<Rightarrow> entry" where
  "clear_subs e = e\<lparr>en_subs := []\<rparr>"

subsection \<open>The manager\<close>

text \<open>The first id of the order that \<open>prune\<close> may drop: unknown, or not running.\<close>

definition removable :: "entry list \<Rightarrow> Manager \<Rightarrow> string \<Rightarrow> bool" where
  "removable heap m i =
     (case mg_entries m i of None \<Rightarrow> True | Some p \<Rightarrow> job_Status (en_job (heap ! p)) \<noteq> StatusRunning)"

definition drop_job :: "string \<Rightarrow> Manager \<Rightarrow> Manager" where
  "drop_job i m = m\<lparr>mg_entries := (mg_entries m)(i := None), mg_order := remove1 i (mg_order m)\<rparr>"

function prune :: "entry list \<Rightarrow> Manager \<Rightarrow> Manager" where
  "prune heap m =
     (if length (mg_order m) \<le> maxJobs then m
      else case find (removable heap m) (mg_order m) of
        None \<Rightarrow> m
      | Some i \<Rightarrow> prune heap (drop_job i m))"
  by pat_completeness auto
termination
proof (relation "measure (\<lambda>(heap, m). length (mg_order m))", goal_cases)
  case 1
  then show ?case by simp
next
  case (2 heap m i)
  then have "i \<in> set (mg_order m)" by (metis find_Some_in)
  then have "0 < length (mg_order m)" by (rule length_pos_if_in_set)
  with \<open>i \<in> set (mg_order m)\<close> show ?case by (simp add: drop_job_def length_remove1)
qed

declare prune.simps [simp del]

definition Get :: "entry list \<Rightarrow> Manager \<Rightarrow> string \<Rightarrow> (Job \<times> Line list) option" where
  "Get heap m i =
     (case mg_entries m i of None \<Rightarrow> None | Some p \<Rightarrow> Some (en_job (heap ! p), en_lines (heap ! p)))"

definition List_jobs :: "entry list \<Rightarrow> Manager \<Rightarrow> Job list" where
  "List_jobs heap m = List.map_filter (\<lambda>i. map_option (\<lambda>p. en_job (heap ! p)) (mg_entries m i)) (rev (mg_order m))"

subsection \<open>Running a command\<close>

datatype exec_error = ExecError string | OtherError string

definition friendlyExecError :: "string \<Rightarrow> exec_error \<Rightarrow> exec_error" where
  "friendlyExecError name err =
     (case err of ExecError _ \<Rightarrow> OtherError (name @ '' is not installed on this host'') | OtherError _ \<Rightarrow> err)"

text \<open>
  What the operating system answers: no pipes, no start, or the lines of both streams in the order
  the two scanners append them, the error of \<open>Wait\<close> and the exit code of the process state.
\<close>

datatype process_outcome =
    NoPipe exec_error
  | NotStarted exec_error
  | Ended "(string \<times> string) list" "exec_error option" "int option"

datatype emission = EmitLine string string | EmitExitCode int

definition trim_cr :: "string \<Rightarrow> string" where
  "trim_cr s = rev (dropWhile (\<lambda>c. c = CHR 0x0D) (rev s))"

definition RunEnv :: "process_outcome \<Rightarrow> string \<Rightarrow> string list \<Rightarrow> emission list \<times> int \<times> exec_error option" where
  "RunEnv outcome name args =
     (let heading = EmitLine ''status'' (''$ '' @ name @ '' '' @ join '' '' args) in
      case outcome of
        NoPipe err \<Rightarrow> ([heading, EmitExitCode (- 1)], - 1, Some err)
      | NotStarted err \<Rightarrow> ([heading, EmitExitCode (- 1)], - 1, Some (friendlyExecError name err))
      | Ended output waitErr state \<Rightarrow>
          let code0 = (case state of None \<Rightarrow> 0 | Some c \<Rightarrow> c);
              code = (if waitErr \<noteq> None \<and> code0 = 0 then - 1 else code0) in
          (heading # map (\<lambda>(stream, raw). EmitLine stream (trim_cr raw)) output @ [EmitExitCode code], code,
           case waitErr of
             None \<Rightarrow> None
           | Some err \<Rightarrow> if friendlyExecError name err \<noteq> err then Some (friendlyExecError name err) else None))"

end
