(* ===== verification/Jobs_Machine.thy ===== *)
theory Jobs_Machine
  imports Jobs_Model
begin

text \<open>
  The job manager under concurrency: every section under a lock, every send and every close is one
  step, taken by the goroutines of the jobs (\<open>Worker p k\<close>, where \<open>p\<close> points to the entry), by
  requests that cancel a job (\<open>Caller n\<close>) and by readers. A goroutine runs one call at a time, so
  it starts the next one when it has no send left. A panic ends the process.
\<close>

subsection \<open>Worlds and steps\<close>

datatype thread = Worker nat nat | Caller nat

datatype cancel_pc = NotCancelling | CancelAppend nat | CancelMark nat

record world =
  w_mgr :: Manager
  w_heap :: "entry list"
  w_chans :: "channel list"
  w_sends :: "thread \<Rightarrow> (nat \<times> Line) list"
  w_closes :: "thread \<Rightarrow> nat list"
  w_cancel :: "nat \<Rightarrow> cancel_pc"
  w_running :: "nat \<Rightarrow> bool"
  w_panic :: "panic option"

definition new_world :: world where
  "new_world = \<lparr> w_mgr = New, w_heap = [], w_chans = [], w_sends = (\<lambda>_. []), w_closes = (\<lambda>_. []),
     w_cancel = (\<lambda>_. NotCancelling), w_running = (\<lambda>_. False), w_panic = None \<rparr>"

definition on_entry :: "nat \<Rightarrow> (entry \<Rightarrow> entry) \<Rightarrow> world \<Rightarrow> world" where
  "on_entry p f w = w\<lparr>w_heap := (w_heap w)[p := f (w_heap w ! p)]\<rparr>"

definition on_channel :: "nat \<Rightarrow> (channel \<Rightarrow> panic + channel) \<Rightarrow> world \<Rightarrow> world" where
  "on_channel c f w =
     (case f (w_chans w ! c) of
        Inl reason \<Rightarrow> w\<lparr>w_panic := Some reason\<rparr>
      | Inr ch \<Rightarrow> w\<lparr>w_chans := (w_chans w)[c := ch]\<rparr>)"

text \<open>\<open>Start\<close>: the entry, its place in the table, and the goroutine.\<close>

definition do_start :: "Spec \<Rightarrow> string \<Rightarrow> go_time \<Rightarrow> world \<Rightarrow> world" where
  "do_start spec i now w =
     (let p = length (w_heap w);
          heap = w_heap w @ [new_entry spec i now];
          m = (w_mgr w)\<lparr>mg_entries := (mg_entries (w_mgr w))(i := Some p), mg_order := mg_order (w_mgr w) @ [i]\<rparr> in
      w\<lparr>w_mgr := prune heap m, w_heap := heap, w_running := (w_running w)(p := True)\<rparr>)"

text \<open>\<open>appendLine\<close> up to the unlock: the subscribers of that moment are what is sent to afterwards.\<close>

definition do_append :: "thread \<Rightarrow> nat \<Rightarrow> string \<Rightarrow> string \<Rightarrow> go_time \<Rightarrow> world \<Rightarrow> world" where
  "do_append t p stream msg now w =
     (let e = w_heap w ! p; line = next_line stream msg now e in
      (on_entry p (append_locked line) w)\<lparr>w_sends := (w_sends w)(t := map (\<lambda>c. (c, line)) (en_subs e))\<rparr>)"

definition do_send :: "thread \<Rightarrow> world \<Rightarrow> world" where
  "do_send t w =
     (case w_sends w t of
        [] \<Rightarrow> w
      | (c, line) # rest \<Rightarrow> (on_channel c (try_send line) w)\<lparr>w_sends := (w_sends w)(t := rest)\<rparr>)"

definition do_finish :: "nat \<Rightarrow> string option \<Rightarrow> bool \<Rightarrow> go_time \<Rightarrow> world \<Rightarrow> world" where
  "do_finish p runErr timed_out now w =
     (on_entry p (finish_locked runErr timed_out now) w)
       \<lparr>w_closes := (w_closes w)(Worker p 0 := en_subs (w_heap w ! p)), w_running := (w_running w)(p := False)\<rparr>"

definition do_close :: "thread \<Rightarrow> world \<Rightarrow> world" where
  "do_close t w =
     (case w_closes w t of
        [] \<Rightarrow> w
      | c # rest \<Rightarrow> (on_channel c close_channel w)\<lparr>w_closes := (w_closes w)(t := rest)\<rparr>)"

definition do_prune :: "world \<Rightarrow> world" where
  "do_prune w = w\<lparr>w_mgr := prune (w_heap w) (w_mgr w)\<rparr>"

definition do_subscribe :: "nat \<Rightarrow> world \<Rightarrow> world" where
  "do_subscribe p w =
     (on_entry p (subscribe_locked (length (w_chans w))) w)\<lparr>w_chans := w_chans w @ [new_channel]\<rparr>"

definition do_unsubscribe :: "nat \<Rightarrow> nat \<Rightarrow> world \<Rightarrow> world" where
  "do_unsubscribe p c w =
     (if c \<in> set (en_subs (w_heap w ! p)) then on_channel c close_channel (on_entry p (remove_sub c) w) else w)"

definition Subscribe_view :: "nat \<Rightarrow> int \<Rightarrow> world \<Rightarrow> Job \<times> Line list" where
  "Subscribe_view p after w = (en_job (w_heap w ! p), backlog_after after (w_heap w ! p))"

definition Cancel_accepts :: "string \<Rightarrow> world \<Rightarrow> nat option" where
  "Cancel_accepts i w =
     (case mg_entries (w_mgr w) i of
        None \<Rightarrow> None
      | Some p \<Rightarrow> if job_Status (en_job (w_heap w ! p)) = StatusRunning then Some p else None)"

text \<open>\<open>Shutdown\<close> for one entry of the table.\<close>

definition do_shutdown :: "nat \<Rightarrow> world \<Rightarrow> world" where
  "do_shutdown p w = fold (\<lambda>c. on_channel c close_channel) (en_subs (w_heap w ! p)) (on_entry p clear_subs w)"

definition do_receive :: "nat \<Rightarrow> world \<Rightarrow> world" where
  "do_receive c w =
     (let ch = w_chans w ! c in
      case ch_buffer ch of
        [] \<Rightarrow> w
      | l # rest \<Rightarrow> w\<lparr>w_chans := (w_chans w)[c := ch\<lparr>ch_buffer := rest, ch_seen := ch_seen ch @ [l]\<rparr>]\<rparr>)"

inductive job_step :: "world \<Rightarrow> world \<Rightarrow> bool" where
  Start: "w_panic w = None \<Longrightarrow> mg_entries (w_mgr w) i = None \<Longrightarrow> i \<notin> set (mg_order (w_mgr w)) \<Longrightarrow>
    job_step w (do_start spec i now w)"
| Emit: "w_panic w = None \<Longrightarrow> p < length (w_heap w) \<Longrightarrow> w_running w p \<Longrightarrow> w_sends w (Worker p k) = [] \<Longrightarrow>
    job_step w (do_append (Worker p k) p stream msg now w)"
| Exit: "w_panic w = None \<Longrightarrow> p < length (w_heap w) \<Longrightarrow> w_running w p \<Longrightarrow>
    job_step w (on_entry p (setExitCode code) w)"
| Send: "w_panic w = None \<Longrightarrow> w_sends w t \<noteq> [] \<Longrightarrow> job_step w (do_send t w)"
| Finish: "w_panic w = None \<Longrightarrow> p < length (w_heap w) \<Longrightarrow> w_running w p \<Longrightarrow> (\<And>k. w_sends w (Worker p k) = []) \<Longrightarrow>
    job_step w (do_finish p runErr timed_out now w)"
| Close: "w_panic w = None \<Longrightarrow> w_closes w t \<noteq> [] \<Longrightarrow> job_step w (do_close t w)"
| Prune: "w_panic w = None \<Longrightarrow> job_step w (do_prune w)"
| Subscribe: "w_panic w = None \<Longrightarrow> p < length (w_heap w) \<Longrightarrow> job_step w (do_subscribe p w)"
| Unsubscribe: "w_panic w = None \<Longrightarrow> p < length (w_heap w) \<Longrightarrow> job_step w (do_unsubscribe p c w)"
| Shutdown: "w_panic w = None \<Longrightarrow> p < length (w_heap w) \<Longrightarrow> job_step w (do_shutdown p w)"
| Receive: "w_panic w = None \<Longrightarrow> c < length (w_chans w) \<Longrightarrow> job_step w (do_receive c w)"
| Cancel: "w_panic w = None \<Longrightarrow> w_cancel w n = NotCancelling \<Longrightarrow> Cancel_accepts i w = Some p \<Longrightarrow>
    job_step w (w\<lparr>w_cancel := (w_cancel w)(n := CancelAppend p)\<rparr>)"
| Cancel_line: "w_panic w = None \<Longrightarrow> w_cancel w n = CancelAppend p \<Longrightarrow> w_sends w (Caller n) = [] \<Longrightarrow>
    job_step w ((do_append (Caller n) p ''status'' ''Cancelled from the dashboard.'' now w)
      \<lparr>w_cancel := (w_cancel w)(n := CancelMark p)\<rparr>)"
| Cancel_mark: "w_panic w = None \<Longrightarrow> w_cancel w n = CancelMark p \<Longrightarrow> w_sends w (Caller n) = [] \<Longrightarrow>
    job_step w ((on_entry p markCancelled w)\<lparr>w_cancel := (w_cancel w)(n := NotCancelling)\<rparr>)"

definition job_reaches :: "world \<Rightarrow> world \<Rightarrow> bool" where
  "job_reaches = job_step\<^sup>*\<^sup>*"

subsection \<open>What one section keeps of its entry\<close>

text \<open>The ring holds the newest lines, numbered without a gap up to the number of lines produced.\<close>

definition ring_ok :: "entry \<Rightarrow> bool" where
  "ring_ok e =
     (let n = int (length (en_lines e)); total = job_Lines (en_job e) in
      0 \<le> total \<and> n = min total (int maxLines) \<and> map ln_Seq (en_lines e) = [total - n + 1 .. total] \<and>
      en_first e = (if total \<le> int maxLines then 0 else total - n + 1))"

definition entry_ok :: "entry \<Rightarrow> bool" where
  "entry_ok e =
     (ring_ok e \<and> (job_EndedAt (en_job e) \<noteq> None \<longrightarrow> job_Status (en_job e) \<noteq> StatusRunning) \<and>
      (job_Status (en_job e) \<in> {StatusSucceeded, StatusFailed} \<longrightarrow> job_EndedAt (en_job e) \<noteq> None))"

definition job_follows :: "Job \<Rightarrow> Job \<Rightarrow> bool" where
  "job_follows j j' =
     (job_ID j' = job_ID j \<and> job_Kind j' = job_Kind j \<and> job_Title j' = job_Title j \<and> job_Target j' = job_Target j \<and>
      job_StartedAt j' = job_StartedAt j \<and> job_StartedBy j' = job_StartedBy j \<and> job_Lines j \<le> job_Lines j' \<and>
      (job_Status j \<noteq> StatusRunning \<longrightarrow> job_Status j' = job_Status j) \<and>
      (job_EndedAt j \<noteq> None \<longrightarrow> j' = j\<lparr>job_Lines := job_Lines j'\<rparr>))"

lemma job_follows_refl [intro, simp]: "job_follows j j"
  by (simp add: job_follows_def)

lemma job_follows_trans:
  assumes "job_follows j j'" and "job_follows j' j''"
  shows "job_follows j j''"
proof -
  have "j'' = j\<lparr>job_Lines := job_Lines j''\<rparr>" if "job_EndedAt j \<noteq> None"
  proof -
    from assms(1) that have j': "j' = j\<lparr>job_Lines := job_Lines j'\<rparr>" by (simp add: job_follows_def)
    then have "job_EndedAt j' \<noteq> None" using that by (metis Job.select_convs(9) Job.surjective Job.update_convs(11))
    with assms(2) have "j'' = j'\<lparr>job_Lines := job_Lines j''\<rparr>" by (simp add: job_follows_def)
    then show ?thesis by (subst (asm) j') simp
  qed
  with assms show ?thesis by (auto simp: job_follows_def)
qed

locale entry_section =
  fixes f :: "entry \<Rightarrow> entry" and guard :: "entry \<Rightarrow> bool"
  assumes keeps: "entry_ok e \<Longrightarrow> guard e \<Longrightarrow> entry_ok (f e)"
    and follows: "entry_ok e \<Longrightarrow> guard e \<Longrightarrow> job_follows (en_job e) (en_job (f e))"
begin

lemma heap_keeps:
  "list_all entry_ok heap \<Longrightarrow> (p < length heap \<Longrightarrow> guard (heap ! p)) \<Longrightarrow> list_all entry_ok (heap[p := f (heap ! p)])"
  by (cases "p < length heap") (auto simp: list_all_length nth_list_update keeps)

lemma heap_follows:
  "list_all entry_ok heap \<Longrightarrow> (p < length heap \<Longrightarrow> guard (heap ! p)) \<Longrightarrow> q < length heap \<Longrightarrow>
    job_follows (en_job (heap ! q)) (en_job (heap[p := f (heap ! p)] ! q))"
  by (cases "p = q") (auto simp: list_all_length follows)

end

lemma ring_append:
  assumes "ring_ok e"
  shows "ring_ok (append_locked (next_line stream msg now e) e)"
proof -
  define n where "n = int (length (en_lines e))"
  define total where "total = job_Lines (en_job e)"
  have ring: "0 \<le> total" "n = min total (int maxLines)" "map ln_Seq (en_lines e) = [total - n + 1 .. total]"
    "en_first e = (if total \<le> int maxLines then 0 else total - n + 1)"
    using assms by (simp_all add: ring_ok_def n_def total_def Let_def)
  let ?line = "next_line stream msg now e"
  have seqs: "map ln_Seq (en_lines e @ [?line]) = [total - n + 1 .. total + 1]"
    using ring(1,2) by (simp add: ring(3) next_line_def total_def upto_rec2)
  show ?thesis
  proof (cases "maxLines < length (en_lines e @ [?line])")
    case True
    then have n: "n = int maxLines" "int maxLines \<le> total" using ring(2) by (auto simp: n_def)
    then have len: "length (en_lines e) = maxLines" by (simp add: n_def)
    have pos: "0 < maxLines" by (simp add: maxLines_def)
    then have ne: "en_lines e \<noteq> []" using len by auto
    have "map ln_Seq (drop 1 (en_lines e @ [?line])) = [total - n + 2 .. total + 1]"
      unfolding drop_map [symmetric] seqs using n pos by (simp add: upto_rec1)
    then have kept: "map ln_Seq (tl (en_lines e) @ [?line]) = [total - n + 2 .. total + 1]" using ne by (cases "en_lines e") auto
    then have hd: "ln_Seq (hd (tl (en_lines e) @ [?line])) = total - n + 2"
      using n pos by (cases "tl (en_lines e) @ [?line]") (auto simp: upto_rec1)
    show ?thesis
      using kept hd n len pos ne
      by (simp add: ring_ok_def append_locked_def Let_def total_def [symmetric] drop_Suc add.commute)
  next
    case False
    then have "n = total" "total < int maxLines" using ring(2) by (auto simp: n_def)
    with False ring seqs show ?thesis
      by (simp add: ring_ok_def append_locked_def Let_def total_def [symmetric] n_def [symmetric])
  qed
qed

lemma append_locked_job: "en_job (append_locked line e) = (en_job e)\<lparr>job_Lines := job_Lines (en_job e) + 1\<rparr>"
  by (simp add: append_locked_def Let_def)

interpretation append_section:
  entry_section "\<lambda>e. append_locked (next_line stream msg now e) e" "\<lambda>_. True"
  by unfold_locales
    (auto simp: entry_ok_def ring_append append_locked_job job_follows_def)

lemma ring_same:
  "en_lines e' = en_lines e \<Longrightarrow> en_first e' = en_first e \<Longrightarrow> job_Lines (en_job e') = job_Lines (en_job e) \<Longrightarrow>
    ring_ok e' = ring_ok e"
  by (simp add: ring_ok_def)

interpretation exit_section: entry_section "setExitCode code" "\<lambda>e. job_EndedAt (en_job e) = None"
  by unfold_locales (auto simp: entry_ok_def setExitCode_def job_follows_def ring_ok_def)

interpretation cancel_section: entry_section markCancelled "\<lambda>_. True"
  by unfold_locales (auto simp: entry_ok_def markCancelled_def job_follows_def ring_ok_def)

interpretation finish_section:
  entry_section "finish_locked runErr timed_out now" "\<lambda>e. job_EndedAt (en_job e) = None"
  by unfold_locales
    (auto simp: entry_ok_def finish_locked_def Let_def job_follows_def ring_ok_def split: option.splits, (metis Status.exhaust)+)

interpretation subscribe_section: entry_section "subscribe_locked c" "\<lambda>_. True"
  by unfold_locales (auto simp: entry_ok_def subscribe_locked_def ring_ok_def)

interpretation remove_section: entry_section "remove_sub c" "\<lambda>_. True"
  by unfold_locales (auto simp: entry_ok_def remove_sub_def ring_ok_def)

interpretation clear_section: entry_section clear_subs "\<lambda>_. True"
  by unfold_locales (auto simp: entry_ok_def clear_subs_def ring_ok_def)

subsection \<open>The invariant of a world\<close>

definition heap_ok :: "world \<Rightarrow> bool" where
  "heap_ok w =
     (list_all entry_ok (w_heap w) \<and>
      (\<forall>p. w_running w p \<longrightarrow> p < length (w_heap w) \<and> job_EndedAt (en_job (w_heap w ! p)) = None) \<and>
      (\<forall>n p. w_cancel w n = CancelAppend p \<or> w_cancel w n = CancelMark p \<longrightarrow> p < length (w_heap w)))"

text \<open>A channel is held by the entry it is registered at, or by the goroutine that is about to close it.\<close>

definition held :: "world \<Rightarrow> nat + thread \<Rightarrow> nat list" where
  "held w h =
     (case h of
        Inl p \<Rightarrow> if p < length (w_heap w) then en_subs (w_heap w ! p) else []
      | Inr t \<Rightarrow> w_closes w t)"

definition chans_ok :: "world \<Rightarrow> bool" where
  "chans_ok w =
     ((\<forall>h. distinct (held w h)) \<and>
      (\<forall>h c. c \<in> set (held w h) \<longrightarrow> c < length (w_chans w) \<and> \<not> ch_closed (w_chans w ! c)) \<and>
      (\<forall>h h' c. c \<in> set (held w h) \<longrightarrow> c \<in> set (held w h') \<longrightarrow> h = h') \<and>
      (\<forall>t c l. (c, l) \<in> set (w_sends w t) \<longrightarrow> c < length (w_chans w)))"

definition table_ok :: "entry list \<Rightarrow> Manager \<Rightarrow> bool" where
  "table_ok heap m =
     (distinct (mg_order m) \<and> (\<forall>i. mg_entries m i \<noteq> None \<longleftrightarrow> i \<in> set (mg_order m)) \<and>
      (\<forall>i p. mg_entries m i = Some p \<longrightarrow> p < length heap \<and> job_ID (en_job (heap ! p)) = i) \<and>
      (\<forall>p < length heap. job_Status (en_job (heap ! p)) = StatusRunning \<longrightarrow>
         mg_entries m (job_ID (en_job (heap ! p))) = Some p))"

definition world_ok :: "world \<Rightarrow> bool" where
  "world_ok w = (heap_ok w \<and> chans_ok w \<and> table_ok (w_heap w) (w_mgr w) \<and> w_panic w \<noteq> Some CloseOfClosedChannel)"

subsection \<open>Heaps\<close>

lemma on_entry_frame [simp]:
  "w_mgr (on_entry p f w) = w_mgr w" "w_chans (on_entry p f w) = w_chans w" "w_sends (on_entry p f w) = w_sends w"
  "w_closes (on_entry p f w) = w_closes w" "w_cancel (on_entry p f w) = w_cancel w"
  "w_running (on_entry p f w) = w_running w" "w_panic (on_entry p f w) = w_panic w"
  "w_heap (on_entry p f w) = (w_heap w)[p := f (w_heap w ! p)]"
  by (simp_all add: on_entry_def)

lemma on_channel_frame [simp]:
  "w_mgr (on_channel c f w) = w_mgr w" "w_heap (on_channel c f w) = w_heap w" "w_sends (on_channel c f w) = w_sends w"
  "w_closes (on_channel c f w) = w_closes w" "w_cancel (on_channel c f w) = w_cancel w"
  "w_running (on_channel c f w) = w_running w" "length (w_chans (on_channel c f w)) = length (w_chans w)"
  by (simp_all add: on_channel_def split: sum.splits)

lemma fold_on_channel_frame [simp]:
  "w_mgr (fold (\<lambda>c. on_channel c f) cs w) = w_mgr w" "w_heap (fold (\<lambda>c. on_channel c f) cs w) = w_heap w"
  "w_sends (fold (\<lambda>c. on_channel c f) cs w) = w_sends w" "w_closes (fold (\<lambda>c. on_channel c f) cs w) = w_closes w"
  "w_cancel (fold (\<lambda>c. on_channel c f) cs w) = w_cancel w" "w_running (fold (\<lambda>c. on_channel c f) cs w) = w_running w"
  "length (w_chans (fold (\<lambda>c. on_channel c f) cs w)) = length (w_chans w)"
  by (induction cs arbitrary: w) simp_all

text \<open>What a step does to the heap: nothing, a new entry, or one section on one entry.\<close>

definition heap_step :: "entry list \<Rightarrow> entry list \<Rightarrow> bool" where
  "heap_step heap heap' =
     (length heap \<le> length heap' \<and> (list_all entry_ok heap \<longrightarrow> list_all entry_ok heap' \<and>
      (\<forall>p < length heap. job_follows (en_job (heap ! p)) (en_job (heap' ! p)))))"

lemma heap_step_refl [simp]: "heap_step heap heap"
  by (simp add: heap_step_def)

lemma heap_step_trans: "heap_step a b \<Longrightarrow> heap_step b c \<Longrightarrow> heap_step a c"
  unfolding heap_step_def by (meson job_follows_trans less_le_trans order_trans)

lemma new_entry_ok: "entry_ok (new_entry spec i now)"
  by (simp add: entry_ok_def ring_ok_def new_entry_def start_job_def maxLines_def)

lemma heap_step_new: "heap_step heap (heap @ [new_entry spec i now])"
  by (simp add: heap_step_def nth_append new_entry_ok)

lemma heap_step_section:
  assumes "entry_section f guard" and "p < length heap \<Longrightarrow> guard (heap ! p)"
  shows "heap_step heap (heap[p := f (heap ! p)])"
  using entry_section.heap_keeps [OF assms(1)] entry_section.heap_follows [OF assms(1)] assms(2)
  by (simp add: heap_step_def)

lemmas section_steps =
  heap_step_section [OF append_section.entry_section_axioms] heap_step_section [OF exit_section.entry_section_axioms]
  heap_step_section [OF cancel_section.entry_section_axioms] heap_step_section [OF finish_section.entry_section_axioms]
  heap_step_section [OF subscribe_section.entry_section_axioms] heap_step_section [OF remove_section.entry_section_axioms]
  heap_step_section [OF clear_section.entry_section_axioms]

lemma do_send_frame [simp]:
  "w_heap (do_send t w) = w_heap w" "w_mgr (do_send t w) = w_mgr w" "w_running (do_send t w) = w_running w"
  "w_cancel (do_send t w) = w_cancel w" "w_closes (do_send t w) = w_closes w"
  "length (w_chans (do_send t w)) = length (w_chans w)"
  by (auto simp: do_send_def split: list.splits)

lemma do_close_frame [simp]:
  "w_heap (do_close t w) = w_heap w" "w_mgr (do_close t w) = w_mgr w" "w_running (do_close t w) = w_running w"
  "w_cancel (do_close t w) = w_cancel w" "w_sends (do_close t w) = w_sends w"
  "length (w_chans (do_close t w)) = length (w_chans w)"
  by (auto simp: do_close_def split: list.splits)

lemma do_receive_frame [simp]:
  "w_heap (do_receive c w) = w_heap w" "w_mgr (do_receive c w) = w_mgr w" "w_running (do_receive c w) = w_running w"
  "w_cancel (do_receive c w) = w_cancel w" "w_sends (do_receive c w) = w_sends w"
  "w_closes (do_receive c w) = w_closes w" "length (w_chans (do_receive c w)) = length (w_chans w)"
  "w_panic (do_receive c w) = w_panic w"
  by (auto simp: do_receive_def Let_def split: list.splits)

lemma do_append_frame [simp]:
  "w_mgr (do_append t p s m now w) = w_mgr w" "w_running (do_append t p s m now w) = w_running w"
  "w_cancel (do_append t p s m now w) = w_cancel w" "w_closes (do_append t p s m now w) = w_closes w"
  "w_chans (do_append t p s m now w) = w_chans w" "w_panic (do_append t p s m now w) = w_panic w"
  "w_heap (do_append t p s m now w) =
     (w_heap w)[p := append_locked (next_line s m now (w_heap w ! p)) (w_heap w ! p)]"
  by (simp_all add: do_append_def Let_def)

lemma do_unsubscribe_frame [simp]:
  "w_mgr (do_unsubscribe p c w) = w_mgr w" "w_running (do_unsubscribe p c w) = w_running w"
  "w_cancel (do_unsubscribe p c w) = w_cancel w" "w_closes (do_unsubscribe p c w) = w_closes w"
  "w_sends (do_unsubscribe p c w) = w_sends w" "length (w_chans (do_unsubscribe p c w)) = length (w_chans w)"
  by (simp_all add: do_unsubscribe_def)

lemma job_step_heap:
  assumes "job_step w w'" and "heap_ok w"
  shows "heap_step (w_heap w) (w_heap w')"
  using assms
  by cases
    (auto simp: do_start_def do_finish_def do_prune_def do_subscribe_def do_unsubscribe_def do_shutdown_def Let_def
      heap_ok_def heap_step_new intro!: section_steps)

lemma section_jobs [simp]:
  "job_EndedAt (en_job (append_locked line e)) = job_EndedAt (en_job e)"
  "job_EndedAt (en_job (setExitCode code e)) = job_EndedAt (en_job e)"
  "job_EndedAt (en_job (markCancelled e)) = job_EndedAt (en_job e)"
  "en_job (subscribe_locked c e) = en_job e" "en_job (remove_sub c e) = en_job e" "en_job (clear_subs e) = en_job e"
  "en_subs (append_locked line e) = en_subs e" "en_subs (setExitCode code e) = en_subs e"
  "en_subs (markCancelled e) = en_subs e" "en_subs (finish_locked r d now e) = []"
  "en_subs (subscribe_locked c e) = en_subs e @ [c]" "en_subs (remove_sub c e) = filter (\<lambda>d. d \<noteq> c) (en_subs e)"
  "en_subs (clear_subs e) = []" "en_subs (new_entry spec i now) = []"
  by (simp_all add: append_locked_def setExitCode_def markCancelled_def subscribe_locked_def remove_sub_def clear_subs_def
      finish_locked_def new_entry_def Let_def)

lemma job_step_heap_ok:
  assumes step: "job_step w w'" and ok: "heap_ok w" and table: "table_ok (w_heap w) (w_mgr w)"
  shows "heap_ok w'"
proof -
  have "heap_step (w_heap w) (w_heap w')" by (rule job_step_heap [OF step ok])
  then have all: "list_all entry_ok (w_heap w')" using ok by (simp add: heap_step_def heap_ok_def)
  have "w_running w' p \<Longrightarrow> p < length (w_heap w') \<and> job_EndedAt (en_job (w_heap w' ! p)) = None" for p
    using step ok
    by cases
      (auto simp: heap_ok_def do_start_def do_finish_def do_prune_def do_subscribe_def do_unsubscribe_def do_shutdown_def
        Let_def nth_append nth_list_update new_entry_def start_job_def split: if_splits)
  moreover have "w_cancel w' n = CancelAppend p \<or> w_cancel w' n = CancelMark p \<Longrightarrow> p < length (w_heap w')" for n p
    using step ok all table
    by cases
      (auto simp: Cancel_accepts_def table_ok_def heap_ok_def do_start_def do_finish_def do_prune_def do_subscribe_def do_unsubscribe_def do_shutdown_def
        Let_def less_SucI split: if_splits option.splits)
  ultimately show ?thesis using all by (simp add: heap_ok_def)
qed

subsection \<open>The table\<close>

lemma table_ok_heap:
  assumes "table_ok heap m" and "heap_step heap heap'" and "list_all entry_ok heap" and "length heap' = length heap"
  shows "table_ok heap' m"
proof -
  have f: "p < length heap \<Longrightarrow> job_follows (en_job (heap ! p)) (en_job (heap' ! p))" for p
    using assms(2,3) by (simp add: heap_step_def)
  have i: "p < length heap \<Longrightarrow> job_ID (en_job (heap' ! p)) = job_ID (en_job (heap ! p))" for p
    using f by (simp add: job_follows_def)
  have s: "p < length heap \<Longrightarrow> job_Status (en_job (heap' ! p)) = StatusRunning \<Longrightarrow> job_Status (en_job (heap ! p)) = StatusRunning" for p
    using f [of p] by (auto simp: job_follows_def)
  show ?thesis using assms(1,4) i s unfolding table_ok_def by metis
qed

lemma table_ok_drop:
  assumes "table_ok heap m" and "removable heap m i"
  shows "table_ok heap (drop_job i m)"
  using assms by (auto simp: table_ok_def drop_job_def removable_def split: option.splits if_splits)

lemma prune_table_ok: "table_ok heap m \<Longrightarrow> table_ok heap (prune heap m)"
proof (induction heap m rule: prune.induct)
  case (1 heap m)
  show ?case
  proof (cases "length (mg_order m) \<le> maxJobs")
    case True
    with 1 show ?thesis by (simp add: prune.simps)
  next
    case False
    show ?thesis
    proof (cases "find (removable heap m) (mg_order m)")
      case None
      with False 1 show ?thesis by (simp add: prune.simps)
    next
      case (Some i)
      with find_Some_in have "removable heap m i" by metis
      with 1 False Some show ?thesis by (simp add: prune.simps [of heap m] table_ok_drop)
    qed
  qed
qed

lemma table_ok_start:
  assumes "table_ok heap m" and "mg_entries m i = None" and "i \<notin> set (mg_order m)"
  shows "table_ok (heap @ [new_entry spec i now])
    (m\<lparr>mg_entries := (mg_entries m)(i := Some (length heap)), mg_order := mg_order m @ [i]\<rparr>)"
proof -
  have i: "j \<noteq> i" if "mg_entries m j = Some p" for j p using that assms(2) by auto
  have "job_ID (en_job (heap ! p)) \<noteq> i" if "p < length heap" "job_Status (en_job (heap ! p)) = StatusRunning" for p
    using assms(1) that i unfolding table_ok_def by blast
  with assms i show ?thesis
    by (auto simp: table_ok_def nth_append new_entry_def start_job_def less_Suc_eq)
qed

lemma job_step_table_ok:
  assumes step: "job_step w w'" and ok: "heap_ok w" "table_ok (w_heap w) (w_mgr w)"
  shows "table_ok (w_heap w') (w_mgr w')"
proof -
  have h: "heap_step (w_heap w) (w_heap w')" by (rule job_step_heap [OF step ok(1)])
  have all: "list_all entry_ok (w_heap w)" using ok(1) by (simp add: heap_ok_def)
  from step ok(2) table_ok_heap [OF ok(2) h all] show ?thesis
    by cases
      (auto simp: do_start_def do_finish_def do_prune_def do_subscribe_def do_unsubscribe_def do_shutdown_def Let_def
        intro!: prune_table_ok table_ok_start)
qed

text \<open>\<open>prune\<close> leaves at most \<open>maxJobs\<close> jobs, or only running ones.\<close>

lemma prune_bound:
  assumes "table_ok heap m"
  shows "length (mg_order (prune heap m)) \<le> maxJobs \<or> (\<forall>i \<in> set (mg_order (prune heap m)). \<not> removable heap (prune heap m) i)"
  using assms
proof (induction heap m rule: prune.induct)
  case (1 heap m)
  show ?case
  proof (cases "length (mg_order m) \<le> maxJobs")
    case True
    then show ?thesis by (simp add: prune.simps)
  next
    case False
    show ?thesis
    proof (cases "find (removable heap m) (mg_order m)")
      case None
      with False have "prune heap m = m" by (simp add: prune.simps)
      with None show ?thesis by (simp add: find_None_iff)
    next
      case (Some i)
      with find_Some_in have "removable heap m i" by metis
      with 1 False Some show ?thesis by (simp add: prune.simps [of heap m] table_ok_drop)
    qed
  qed
qed

subsection \<open>Channels\<close>

lemma held_simps [simp]:
  "held w (Inl p) = (if p < length (w_heap w) then en_subs (w_heap w ! p) else [])"
  "held w (Inr t) = w_closes w t"
  by (simp_all add: held_def)

lemma chans_okI:
  assumes "chans_ok w" and "\<And>h. distinct (held w' h)"
    and "\<And>h c. c \<in> set (held w' h) \<Longrightarrow>
      c < length (w_chans w) \<and> c \<in> set (held w (g h)) \<and> (ch_closed (w_chans w' ! c) \<longrightarrow> ch_closed (w_chans w ! c))"
    and "\<And>h h' c. c \<in> set (held w' h) \<Longrightarrow> c \<in> set (held w' h') \<Longrightarrow> g h = g h' \<Longrightarrow> h = h'"
    and "length (w_chans w) \<le> length (w_chans w')"
    and "\<And>t c l. (c, l) \<in> set (w_sends w' t) \<Longrightarrow> c < length (w_chans w')"
  shows "chans_ok w'"
  unfolding chans_ok_def
proof (intro conjI allI impI)
  fix h h' c
  assume "c \<in> set (held w' h)" "c \<in> set (held w' h')"
  moreover from this have "g h = g h'" using assms(1,3) unfolding chans_ok_def by meson
  ultimately show "h = h'" by (rule assms(4))
next
  fix h c
  assume "c \<in> set (held w' h)"
  from assms(3) [OF this] assms(1) show "\<not> ch_closed (w_chans w' ! c)" unfolding chans_ok_def by blast
qed (use assms(2,3,5,6) in \<open>auto intro: less_le_trans\<close>)

lemma chans_ok_same:
  assumes "chans_ok w" and "\<And>h. held w' h = held w h" and "\<And>c. ch_closed (w_chans w' ! c) = ch_closed (w_chans w ! c)"
    and "length (w_chans w') = length (w_chans w)" and "\<And>t c l. (c, l) \<in> set (w_sends w' t) \<Longrightarrow> c < length (w_chans w')"
  shows "chans_ok w'"
  using assms unfolding chans_ok_def by simp

lemma chans_ok_sends: "chans_ok w \<Longrightarrow> (c, l) \<in> set (w_sends w t) \<Longrightarrow> c < length (w_chans w)"
  unfolding chans_ok_def by blast

lemma nth_update_cases: "xs[i := x] ! j = (if i = j \<and> i < length xs then x else xs ! j)"
  by (cases "i < length xs") (auto simp: list_update_beyond)

lemma held_on_entry:
  assumes "en_subs (f (w_heap w ! p)) = en_subs (w_heap w ! p)"
  shows "held (on_entry p f w) h = held w h"
  using assms by (cases h) (auto simp: nth_update_cases)

lemma try_send_closed: "try_send line ch = Ok ch' \<Longrightarrow> ch_closed ch' = ch_closed ch"
  by (auto simp: try_send_def split: if_splits)

lemma chans_ok_append:
  assumes "chans_ok w" and "p < length (w_heap w)"
  shows "chans_ok (do_append t p s m now w)"
proof (rule chans_ok_same [OF assms(1)])
  show "held (do_append t p s m now w) h = held w h" for h
    by (cases h) (auto simp: nth_update_cases)
  have "c < length (w_chans w)" if "c \<in> set (en_subs (w_heap w ! p))" for c
    using assms that unfolding chans_ok_def by (metis held_simps(1))
  then show "c < length (w_chans (do_append t p s m now w))" if "(c, l) \<in> set (w_sends (do_append t p s m now w) u)" for u c l
    using that chans_ok_sends [OF assms(1), of c l u] by (auto simp: do_append_def Let_def split: if_splits)
qed simp_all

lemma chans_ok_send:
  assumes "chans_ok w" and "w_sends w t \<noteq> []"
  shows "chans_ok (do_send t w)" "w_panic w = None \<Longrightarrow> w_panic (do_send t w) \<noteq> Some CloseOfClosedChannel"
proof -
  obtain c line rest where s: "w_sends w t = (c, line) # rest" using assms(2) by (cases "w_sends w t") auto
  show "chans_ok (do_send t w)"
  proof (rule chans_ok_same [OF assms(1)])
    show "ch_closed (w_chans (do_send t w) ! d) = ch_closed (w_chans w ! d)" for d
      by (cases "c < length (w_chans w)"; cases "d = c")
        (auto simp: s do_send_def on_channel_def try_send_closed nth_update_cases split: sum.splits)
    show "d < length (w_chans (do_send t w))" if "(d, l) \<in> set (w_sends (do_send t w) u)" for u d l
    proof -
      have "(d, l) \<in> set (w_sends w u)" using that s by (auto simp: do_send_def split: if_splits)
      then show ?thesis using chans_ok_sends [OF assms(1), of d l u] by simp
    qed
    show "held (do_send t w) h = held w h" for h by (cases h) auto
  qed simp
  show "w_panic w = None \<Longrightarrow> w_panic (do_send t w) \<noteq> Some CloseOfClosedChannel"
    by (auto simp: s do_send_def on_channel_def try_send_def split: sum.splits if_splits)
qed

text \<open>Closing channels that are open, each once.\<close>

lemma close_all:
  assumes "distinct cs" and "\<And>c. c \<in> set cs \<Longrightarrow> c < length (w_chans w) \<and> \<not> ch_closed (w_chans w ! c)"
  shows "w_panic (fold (\<lambda>c. on_channel c close_channel) cs w) = w_panic w \<and>
    (\<forall>d. ch_closed (w_chans (fold (\<lambda>c. on_channel c close_channel) cs w) ! d) \<longleftrightarrow> d \<in> set cs \<or> ch_closed (w_chans w ! d))"
  using assms
proof (induction cs arbitrary: w)
  case Nil
  then show ?case by simp
next
  case (Cons c cs)
  have c: "c < length (w_chans w)" "\<not> ch_closed (w_chans w ! c)" using Cons.prems(2) [of c] by simp_all
  let ?w = "on_channel c close_channel w"
  have w: "w_panic ?w = w_panic w" "ch_closed (w_chans ?w ! d) \<longleftrightarrow> d = c \<or> ch_closed (w_chans w ! d)" for d
    using c by (auto simp: on_channel_def close_channel_def nth_update_cases)
  have "\<And>d. d \<in> set cs \<Longrightarrow> d < length (w_chans ?w) \<and> \<not> ch_closed (w_chans ?w ! d)"
    using Cons.prems w(2) by auto
  with Cons.IH [of ?w] Cons.prems(1) w show ?case by auto
qed

lemma close_one:
  assumes "c < length (w_chans w)" and "\<not> ch_closed (w_chans w ! c)"
  shows "w_panic (on_channel c close_channel w) = w_panic w"
    "ch_closed (w_chans (on_channel c close_channel w) ! d) \<longleftrightarrow> d = c \<or> ch_closed (w_chans w ! d)"
  using close_all [of "[c]" w] assms by auto

lemma chans_ok_finish:
  assumes "chans_ok w" and "p < length (w_heap w)"
  shows "chans_ok (do_finish p r d now w)"
proof (rule chans_okI [OF assms(1), where g = "\<lambda>h. if h = Inr (Worker p 0) then Inl p else h"])
  let ?w = "do_finish p r d now w"
  have sends: "w_sends ?w = w_sends w" by (simp add: do_finish_def)
  have held: "held ?w h = (if h = Inl p then [] else if h = Inr (Worker p 0) then held w (Inl p) else held w h)" for h
    using assms(2) by (cases h) (auto simp: do_finish_def nth_update_cases)
  show "distinct (held ?w h)" for h using assms(1) held by (auto simp: chans_ok_def simp del: held_simps)
  show "c < length (w_chans w) \<and> c \<in> set (held w (if h = Inr (Worker p 0) then Inl p else h)) \<and>
      (ch_closed (w_chans ?w ! c) \<longrightarrow> ch_closed (w_chans w ! c))" if "c \<in> set (held ?w h)" for h c
    using assms(1) that held by (auto simp: chans_ok_def do_finish_def simp del: held_simps split: if_splits)
  show "h = h'" if "c \<in> set (held ?w h)" "c \<in> set (held ?w h')"
    "(if h = Inr (Worker p 0) then Inl p else h) = (if h' = Inr (Worker p 0) then Inl p else h')" for h h' c
    using that held by (auto simp del: held_simps split: if_splits)
  show "c < length (w_chans ?w)" if "(c, l) \<in> set (w_sends ?w t)" for t c l
    using that sends chans_ok_sends [OF assms(1), of c l t] by (simp add: do_finish_def)
qed (simp add: do_finish_def)

lemma chans_ok_close:
  assumes "chans_ok w" and "w_closes w t \<noteq> []"
  shows "chans_ok (do_close t w)" "w_panic (do_close t w) = w_panic w"
proof -
  obtain c rest where s: "w_closes w t = c # rest" using assms(2) by (cases "w_closes w t") auto
  have c: "c < length (w_chans w)" "\<not> ch_closed (w_chans w ! c)" "distinct (c # rest)"
    using assms(1) s unfolding chans_ok_def by (metis held_simps(2) list.set_intros(1))+
  have closed: "ch_closed (w_chans (do_close t w) ! d) \<longleftrightarrow> d = c \<or> ch_closed (w_chans w ! d)" for d
    using close_one [OF c(1,2)] by (simp add: do_close_def s)
  show "w_panic (do_close t w) = w_panic w" using close_one [OF c(1,2)] by (simp add: do_close_def s)
  have held: "held (do_close t w) h = (if h = Inr t then rest else held w h)" for h
    by (cases h) (auto simp: do_close_def s)
  have only: "h = Inr t" if "c \<in> set (held w h)" for h
    using assms(1) that s unfolding chans_ok_def by (metis held_simps(2) list.set_intros(1))
  show "chans_ok (do_close t w)"
  proof (rule chans_okI [OF assms(1), where g = id])
    show "distinct (held (do_close t w) h)" for h
      using assms(1) held c(3) by (auto simp: chans_ok_def simp del: held_simps)
    show "d < length (w_chans w) \<and> d \<in> set (held w (id h)) \<and>
        (ch_closed (w_chans (do_close t w) ! d) \<longrightarrow> ch_closed (w_chans w ! d))" if "d \<in> set (held (do_close t w) h)" for h d
    proof -
      have d: "d \<in> set (held w h)" using that held s by (auto simp del: held_simps split: if_splits) simp
      moreover have "d \<noteq> c"
        using that held only [of h] c(3) d by (auto simp del: held_simps split: if_splits)
      ultimately show ?thesis using assms(1) closed by (auto simp: chans_ok_def simp del: held_simps)
    qed
    show "d < length (w_chans (do_close t w))" if "(d, l) \<in> set (w_sends (do_close t w) u)" for u d l
      using that chans_ok_sends [OF assms(1), of d l u] by simp
  qed simp_all
qed

text \<open>Closing what an entry gives up, all of it or one channel.\<close>

lemma chans_ok_give_up:
  assumes ok: "chans_ok w" and p: "p < length (w_heap w)" and sub: "set cs \<subseteq> set (en_subs (w_heap w ! p))" and d: "distinct cs"
    and f: "en_subs (f (w_heap w ! p)) = filter (\<lambda>c. c \<notin> set cs) (en_subs (w_heap w ! p))"
  shows "chans_ok (fold (\<lambda>c. on_channel c close_channel) cs (on_entry p f w)) \<and>
    w_panic (fold (\<lambda>c. on_channel c close_channel) cs (on_entry p f w)) = w_panic w"
proof -
  let ?w = "on_entry p f w" and ?v = "fold (\<lambda>c. on_channel c close_channel) cs (on_entry p f w)"
  have mine: "c \<in> set (held w (Inl p))" if "c \<in> set cs" for c using that sub p by auto
  then have opened: "c < length (w_chans w)" "\<not> ch_closed (w_chans w ! c)" if "c \<in> set cs" for c
    using that ok unfolding chans_ok_def by blast+
  then have closed: "w_panic ?v = w_panic ?w"
    "ch_closed (w_chans ?v ! c) \<longleftrightarrow> c \<in> set cs \<or> ch_closed (w_chans ?w ! c)" for c
    using close_all [OF d, of ?w] by simp_all
  have held: "held ?v h = (if h = Inl p then filter (\<lambda>c. c \<notin> set cs) (held w h) else held w h)" for h
    using p by (cases h) (auto simp: f nth_update_cases)
  have alone: "h = Inl p" if "c \<in> set cs" "c \<in> set (held w h)" for c h
    using that(2) mine [OF that(1)] ok unfolding chans_ok_def by blast
  have "chans_ok ?v"
  proof (rule chans_okI [OF ok, where g = id])
    show "distinct (held ?v h)" for h
      using ok by (auto simp: held chans_ok_def simp del: held_simps)
    show "c < length (w_chans w) \<and> c \<in> set (held w (id h)) \<and> (ch_closed (w_chans ?v ! c) \<longrightarrow> ch_closed (w_chans w ! c))"
      if "c \<in> set (held ?v h)" for h c
    proof -
      have c: "c \<in> set (held w h)" "c \<notin> set cs"
        using that alone [of c h] unfolding held by (auto simp del: held_simps split: if_splits)
      with ok have "c < length (w_chans w)" unfolding chans_ok_def by blast
      with c closed(2) show ?thesis by simp
    qed
    show "c < length (w_chans ?v)" if "(c, l) \<in> set (w_sends ?v u)" for u c l
      using that chans_ok_sends [OF ok, of c l u] by simp
  qed simp_all
  with closed(1) show ?thesis by simp
qed

lemma chans_ok_unsubscribe:
  assumes "chans_ok w" and "p < length (w_heap w)"
  shows "chans_ok (do_unsubscribe p c w) \<and> w_panic (do_unsubscribe p c w) = w_panic w"
proof (cases "c \<in> set (en_subs (w_heap w ! p))")
  case True
  with chans_ok_give_up [OF assms, of "[c]" "remove_sub c"] show ?thesis
    by (simp add: do_unsubscribe_def)
qed (simp add: do_unsubscribe_def assms(1))

lemma chans_ok_shutdown:
  assumes "chans_ok w" and "p < length (w_heap w)"
  shows "chans_ok (do_shutdown p w) \<and> w_panic (do_shutdown p w) = w_panic w"
proof -
  have "distinct (held w (Inl p))" using assms(1) unfolding chans_ok_def by blast
  with chans_ok_give_up [OF assms, of "en_subs (w_heap w ! p)" clear_subs] assms(2) show ?thesis
    by (simp add: do_shutdown_def)
qed

lemma chans_ok_subscribe:
  assumes "chans_ok w" and "p < length (w_heap w)"
  shows "chans_ok (do_subscribe p w)"
proof -
  let ?w = "do_subscribe p w" and ?n = "length (w_chans w)"
  have held: "held ?w h = (if h = Inl p then held w h @ [?n] else held w h)" for h
    using assms(2) by (cases h) (auto simp: do_subscribe_def nth_update_cases)
  have old: "c < ?n" "\<not> ch_closed (w_chans w ! c)" if "c \<in> set (held w h)" for c h
    using assms(1) that unfolding chans_ok_def by blast+
  have fresh: "?n \<notin> set (held w h)" for h using old(1) [of ?n h] by auto
  have split: "c \<in> set (held ?w h) \<longleftrightarrow> c \<in> set (held w h) \<or> h = Inl p \<and> c = ?n" for c h
    by (auto simp: held simp del: held_simps)
  have one: "h = h'" if "c \<in> set (held w h)" "c \<in> set (held w h')" for c h h'
    using assms(1) that unfolding chans_ok_def by blast
  have dist: "distinct (held w h)" for h using assms(1) unfolding chans_ok_def by blast
  show ?thesis
    unfolding chans_ok_def
  proof (intro conjI allI impI)
    show "distinct (held ?w h)" for h using dist fresh by (auto simp: held simp del: held_simps)
    show "h = h'" if "c \<in> set (held ?w h)" "c \<in> set (held ?w h')" for h h' c
      using that fresh one unfolding split by blast
    show "c < length (w_chans ?w)" if "(c, l) \<in> set (w_sends ?w t)" for t c l
      using that chans_ok_sends [OF assms(1), of c l t] by (simp add: do_subscribe_def)
    show "c < length (w_chans ?w)" if "c \<in> set (held ?w h)" for h c
      using that old(1) [of c h] unfolding split by (auto simp: do_subscribe_def simp del: held_simps)
    show "\<not> ch_closed (w_chans ?w ! c)" if "c \<in> set (held ?w h)" for h c
      using that old [of c h] unfolding split by (auto simp: do_subscribe_def nth_append new_channel_def simp del: held_simps)
  qed
qed

lemma job_step_chans_ok:
  assumes step: "job_step w w'" and ok: "heap_ok w" "chans_ok w"
  shows "chans_ok w' \<and> w_panic w' \<noteq> Some CloseOfClosedChannel"
  using step
proof cases
  case (Start i spec now)
  have "chans_ok (do_start spec i now w)"
  proof (rule chans_ok_same [OF ok(2)])
    show "held (do_start spec i now w) h = held w h" for h
      by (cases h) (auto simp: do_start_def Let_def nth_append)
    show "c < length (w_chans (do_start spec i now w))" if "(c, l) \<in> set (w_sends (do_start spec i now w) t)" for t c l
      using that chans_ok_sends [OF ok(2), of c l t] by (simp add: do_start_def Let_def)
  qed (simp_all add: do_start_def Let_def)
  with Start show ?thesis by (simp add: do_start_def Let_def)
next
  case (Exit p code)
  have "chans_ok (on_entry p (setExitCode code) w)"
    using ok(2) by (rule chans_ok_same) (auto simp: held_on_entry chans_ok_sends [OF ok(2)] simp del: held_simps)
  with Exit show ?thesis by simp
next
  case (Cancel_mark n p)
  let ?w = "(on_entry p markCancelled w)\<lparr>w_cancel := (w_cancel w)(n := NotCancelling)\<rparr>"
  have "held ?w h = held w h" for h by (cases h) (auto simp: nth_update_cases)
  then have "chans_ok ?w" by (intro chans_ok_same [OF ok(2)]) (auto simp: chans_ok_sends [OF ok(2)])
  with Cancel_mark show ?thesis by simp
next
  case (Cancel_line n p now)
  let ?v = "do_append (Caller n) p ''status'' ''Cancelled from the dashboard.'' now w"
  let ?w = "?v\<lparr>w_cancel := (w_cancel w)(n := CancelMark p)\<rparr>"
  have "p < length (w_heap w)" using ok(1) Cancel_line by (auto simp: heap_ok_def)
  then have v: "chans_ok ?v" by (rule chans_ok_append [OF ok(2)])
  have "held ?w h = held ?v h" for h by (cases h) auto
  then have "chans_ok ?w" by (intro chans_ok_same [OF v]) (use chans_ok_sends [OF v] in auto)
  with Cancel_line show ?thesis by simp
next
  case (Receive c)
  have "held (do_receive c w) h = held w h" for h by (cases h) auto
  moreover have "ch_closed (w_chans (do_receive c w) ! d) = ch_closed (w_chans w ! d)" for d
    by (auto simp: do_receive_def Let_def nth_update_cases split: list.splits)
  ultimately have "chans_ok (do_receive c w)"
    by (intro chans_ok_same [OF ok(2)]) (auto simp: chans_ok_sends [OF ok(2)])
  with Receive show ?thesis by simp
next
  case Prune
  have "held (do_prune w) h = held w h" for h by (cases h) (auto simp: do_prune_def)
  then have "chans_ok (do_prune w)"
    by (intro chans_ok_same [OF ok(2)]) (auto simp: do_prune_def chans_ok_sends [OF ok(2)])
  with Prune show ?thesis by (simp add: do_prune_def)
next
  case (Cancel n i p)
  let ?w = "w\<lparr>w_cancel := (w_cancel w)(n := CancelAppend p)\<rparr>"
  have "held ?w h = held w h" for h by (cases h) auto
  then have "chans_ok ?w" by (intro chans_ok_same [OF ok(2)]) (auto simp: chans_ok_sends [OF ok(2)])
  with Cancel show ?thesis by simp
qed (use chans_ok_append [OF ok(2)] chans_ok_send [OF ok(2)] chans_ok_finish [OF ok(2)] chans_ok_close [OF ok(2)]
    chans_ok_subscribe [OF ok(2)] chans_ok_unsubscribe [OF ok(2)] chans_ok_shutdown [OF ok(2)] in
    \<open>auto simp: do_finish_def do_subscribe_def\<close>)

lemma job_step_world_ok: "job_step w w' \<Longrightarrow> world_ok w \<Longrightarrow> world_ok w'"
  using job_step_heap_ok job_step_table_ok job_step_chans_ok by (simp add: world_ok_def)

lemma new_world_ok: "world_ok new_world"
  by (simp add: world_ok_def heap_ok_def chans_ok_def table_ok_def new_world_def New_def held_def split: sum.split)

lemma job_reaches_world_ok: "job_reaches w w' \<Longrightarrow> world_ok w \<Longrightarrow> world_ok w'"
  unfolding job_reaches_def by (induction rule: rtranclp_induct) (auto intro: job_step_world_ok)

lemma job_reaches_heap_step:
  assumes "job_reaches w w'" and "world_ok w"
  shows "heap_step (w_heap w) (w_heap w')"
  using assms(1) unfolding job_reaches_def
proof (induction rule: rtranclp_induct)
  case (step u v)
  then have "world_ok u" using assms(2) job_reaches_world_ok by (auto simp: job_reaches_def)
  then have "heap_step (w_heap u) (w_heap v)" using step(2) by (intro job_step_heap) (simp_all add: world_ok_def)
  with step show ?case by (blast intro: heap_step_trans)
qed simp

end
