(* ===== verification/Jobs_Traffic.thy ===== *)
theory Jobs_Traffic
  imports Jobs_Machine "HOL-Library.Multiset"
begin

text \<open>
  The lines a subscriber is owed. From its subscription on, every line of the job is at one place:
  read, buffered in the channel, skipped because the buffer was full, or in the hands of a
  goroutine that is about to send it.
\<close>

definition places :: "nat \<Rightarrow> world \<Rightarrow> Line list" where
  "places c w = (let ch = w_chans w ! c in ch_seen ch @ ch_buffer ch @ ch_dropped ch)"

definition pending :: "nat \<Rightarrow> thread \<Rightarrow> world \<Rightarrow> Line list" where
  "pending c t w = map snd (filter (\<lambda>s. fst s = c) (w_sends w t))"

definition subscribed :: "nat \<Rightarrow> nat \<Rightarrow> world \<Rightarrow> bool" where
  "subscribed p c w = (p < length (w_heap w) \<and> c \<in> set (en_subs (w_heap w ! p)))"

definition lines_of :: "nat \<Rightarrow> world \<Rightarrow> int" where
  "lines_of p w = job_Lines (en_job (w_heap w ! p))"

definition traffic :: "nat \<Rightarrow> nat \<Rightarrow> int \<Rightarrow> world \<Rightarrow> bool" where
  "traffic p c n w =
     (distinct (map ln_Seq (places c w)) \<and>
      (\<forall>t. distinct (map ln_Seq (pending c t w))) \<and>
      (\<forall>t. ln_Seq ` set (pending c t w) \<inter> ln_Seq ` set (places c w) = {}) \<and>
      (\<forall>t t'. t \<noteq> t' \<longrightarrow> ln_Seq ` set (pending c t w) \<inter> ln_Seq ` set (pending c t' w) = {}) \<and>
      ln_Seq ` set (places c w) \<union> (\<Union>t. ln_Seq ` set (pending c t w)) = {n + 1 .. lines_of p w})"

lemma trafficD:
  assumes "traffic p c n w"
  shows "distinct (map ln_Seq (places c w))" and "distinct (map ln_Seq (pending c t w))"
    and "ln_Seq ` set (pending c t w) \<inter> ln_Seq ` set (places c w) = {}"
    and "u \<noteq> t \<Longrightarrow> ln_Seq ` set (pending c u w) \<inter> ln_Seq ` set (pending c t w) = {}"
    and "ln_Seq ` set (places c w) \<union> (\<Union>t. ln_Seq ` set (pending c t w)) = {n + 1 .. lines_of p w}"
  using assms unfolding traffic_def by simp_all

lemma places_close [simp]: "places c (on_channel d close_channel w) = places c w"
  by (auto simp: places_def on_channel_def close_channel_def nth_update_cases Let_def split: sum.split)

lemma places_fold_close [simp]: "places c (fold (\<lambda>d. on_channel d close_channel) cs w) = places c w"
  by (induction cs arbitrary: w) simp_all

lemma places_chans: "w_chans w' = w_chans w \<Longrightarrow> places c w' = places c w"
  by (simp add: places_def)

lemma pending_sends: "w_sends w' = w_sends w \<Longrightarrow> pending c t w' = pending c t w"
  by (simp add: pending_def)

lemma traffic_same:
  assumes "traffic p c n w" and "places c w' = places c w" and "\<And>t. pending c t w' = pending c t w"
    and "lines_of p w' = lines_of p w"
  shows "traffic p c n w'"
  using assms by (simp add: traffic_def)

lemma subscribed_alone:
  assumes "chans_ok w" and "subscribed p c w" and "subscribed q c w"
  shows "q = p"
proof -
  have "c \<in> set (held w (Inl p))" "c \<in> set (held w (Inl q))" using assms(2,3) by (auto simp: subscribed_def)
  then have "(Inl p :: nat + thread) = Inl q" using assms(1) unfolding chans_ok_def by blast
  then show ?thesis by simp
qed

lemma subscribed_open:
  assumes "chans_ok w" and "subscribed p c w"
  shows "c < length (w_chans w) \<and> \<not> ch_closed (w_chans w ! c)"
proof -
  have "c \<in> set (held w (Inl p))" using assms(2) by (auto simp: subscribed_def)
  then show ?thesis using assms(1) unfolding chans_ok_def by blast
qed

lemma lines_of_append:
  "lines_of p (do_append t q s m now w) = lines_of p w + (if p = q \<and> q < length (w_heap w) then 1 else 0)"
  by (simp add: lines_of_def nth_update_cases append_locked_job)

lemma pending_append:
  "pending c u (do_append t q s m now w) =
     (if u = t then map (\<lambda>_. next_line s m now (w_heap w ! q)) (filter (\<lambda>d. d = c) (en_subs (w_heap w ! q)))
      else pending c u w)"
  by (simp add: pending_def do_append_def Let_def filter_map comp_def)

lemma filter_distinct_one: "distinct xs \<Longrightarrow> filter (\<lambda>d. d = c) xs = (if c \<in> set xs then [c] else [])"
  by (induction xs) auto

lemma union_one_changed:
  assumes "P t = {}" and "Q t = {x}" and "\<And>u. u \<noteq> t \<Longrightarrow> Q u = P u"
  shows "(\<Union>u. Q u) = insert x (\<Union>u. P u)"
proof
  show "(\<Union>u. Q u) \<subseteq> insert x (\<Union>u. P u)" using assms(2,3) by (auto, metis singletonD)
  have "P u \<subseteq> Q u" for u using assms(1,3) by (cases "u = t") auto
  then show "insert x (\<Union>u. P u) \<subseteq> (\<Union>u. Q u)" using assms(2) by blast
qed

lemma traffic_append:
  assumes ok: "chans_ok w" and sub: "subscribed p c w" and tr: "traffic p c n w" and idle: "w_sends w t = []"
    and q: "q < length (w_heap w)" and n: "n \<le> lines_of p w"
  shows "traffic p c n (do_append t q s m now w)"
proof -
  let ?w = "do_append t q s m now w" and ?line = "next_line s m now (w_heap w ! q)"
  have places: "places c ?w = places c w" by (rule places_chans) simp
  have "distinct (held w (Inl q))" using ok unfolding chans_ok_def by blast
  then have dist: "distinct (en_subs (w_heap w ! q))" using q by simp
  have idle': "pending c t w = []" by (simp add: pending_def idle)
  show ?thesis
  proof (cases "q = p")
    case True
    have here: "c \<in> set (en_subs (w_heap w ! q))" using sub True by (simp add: subscribed_def)
    have pend: "pending c u ?w = (if u = t then [?line] else pending c u w)" for u
      using dist here by (simp add: pending_append filter_distinct_one)
    have seq: "ln_Seq ?line = lines_of p w + 1" by (simp add: next_line_def lines_of_def True)
    have lines: "lines_of p ?w = lines_of p w + 1" using q True by (simp add: lines_of_append)
    have known: "ln_Seq ` set (places c w) \<subseteq> {n + 1 .. lines_of p w}" "ln_Seq ` set (pending c u w) \<subseteq> {n + 1 .. lines_of p w}" for u
      using tr unfolding traffic_def by blast+
    have all: "ln_Seq ` set (places c w) \<union> (\<Union>u. ln_Seq ` set (pending c u w)) = {n + 1 .. lines_of p w}"
      using tr unfolding traffic_def by blast
    have "(\<Union>u. ln_Seq ` set (pending c u ?w)) = insert (lines_of p w + 1) (\<Union>u. ln_Seq ` set (pending c u w))"
      by (rule union_one_changed [of _ t]) (simp_all add: idle' pend seq)
    then have "ln_Seq ` set (places c ?w) \<union> (\<Union>u. ln_Seq ` set (pending c u ?w)) = insert (lines_of p w + 1) {n + 1 .. lines_of p w}"
      using all by (auto simp: places)
    also have "\<dots> = {n + 1 .. lines_of p ?w}" using n by (auto simp: lines)
    finally have union: "ln_Seq ` set (places c ?w) \<union> (\<Union>u. ln_Seq ` set (pending c u ?w)) = {n + 1 .. lines_of p ?w}" .
    have new: "lines_of p w + 1 \<notin> ln_Seq ` set (places c w)" "lines_of p w + 1 \<notin> ln_Seq ` set (pending c u w)" for u
      using known(1) known(2) [of u] by auto
    show ?thesis
      unfolding traffic_def
      using tr union new by (simp add: traffic_def places pend seq)
  next
    case False
    have "\<not> c \<in> set (en_subs (w_heap w ! q))"
      using subscribed_alone [OF ok sub, of q] False q by (auto simp: subscribed_def)
    then have "pending c u ?w = pending c u w" for u
      using dist idle' by (simp add: pending_append filter_distinct_one)
    with tr places show ?thesis by (rule traffic_same) (use False in \<open>simp add: lines_of_append\<close>)
  qed
qed

lemma traffic_send:
  assumes ok: "chans_ok w" and sub: "subscribed p c w" and tr: "traffic p c n w" and s: "w_sends w t = (d, line) # rest"
  shows "traffic p c n (do_send t w)"
proof -
  let ?w = "do_send t w"
  have lines: "lines_of p ?w = lines_of p w" by (simp add: lines_of_def)
  have pend: "pending c u ?w = (if u = t then map snd (filter (\<lambda>x. fst x = c) rest) else pending c u w)" for u
    by (simp add: pending_def do_send_def s)
  show ?thesis
  proof (cases "d = c")
    case True
    have opened: "c < length (w_chans w)" "\<not> ch_closed (w_chans w ! c)" using subscribed_open [OF ok sub] by simp_all
    have places: "mset (places c ?w) = add_mset line (mset (places c w))"
      using opened True
      by (auto simp: places_def do_send_def s on_channel_def try_send_def nth_update_cases Let_def)
    have old: "pending c t w = line # map snd (filter (\<lambda>x. fst x = c) rest)" by (simp add: pending_def s True)
    then have split: "pending c t w = line # pending c t ?w" by (simp add: pend)
    have set: "set (places c ?w) = insert line (set (places c w))"
      using arg_cong [OF places, of set_mset] by simp
    have other: "pending c u ?w = pending c u w" if "u \<noteq> t" for u using that by (simp add: pend)
    have in_t: "line \<in> set (pending c t w)" by (subst old) simp
    then have mine: "ln_Seq line \<in> ln_Seq ` set (pending c t w)" by (rule imageI)
    have once: "ln_Seq line \<notin> ln_Seq ` set (pending c t ?w)"
      using trafficD(2) [OF tr, of t] by (subst (asm) split) simp
    have line: "ln_Seq line \<notin> ln_Seq ` set (places c w)"
        "\<And>u. u \<noteq> t \<Longrightarrow> ln_Seq line \<notin> ln_Seq ` set (pending c u w)"
      using mine trafficD(3) [OF tr, of t] trafficD(4) [OF tr, of _ t] by blast+
    have "mset (map ln_Seq (places c ?w)) = mset (ln_Seq line # map ln_Seq (places c w))"
      using arg_cong [OF places, of "image_mset ln_Seq"] by simp
    then have "distinct (map ln_Seq (places c ?w)) = distinct (ln_Seq line # map ln_Seq (places c w))"
      by (rule mset_eq_imp_distinct_iff)
    then have d: "distinct (map ln_Seq (places c ?w))" using tr line(1) by (simp add: traffic_def)
    have sub_t: "set (pending c u ?w) \<subseteq> set (pending c u w)" for u
      using split other [of u] by (cases "u = t") auto
    have pd: "distinct (map ln_Seq (pending c u ?w))" for u
    proof (cases "u = t")
      case True
      with trafficD(2) [OF tr, of t] show ?thesis by (subst (asm) split) simp
    qed (use trafficD(2) [OF tr, of u] other [of u] in simp)
    have new: "ln_Seq line \<notin> ln_Seq ` set (pending c u ?w)" for u
      using once line(2) [of u] other [of u] by (cases "u = t") simp_all
    have pp: "ln_Seq ` set (pending c u ?w) \<inter> ln_Seq ` set (places c ?w) = {}" for u
      using trafficD(3) [OF tr, of u] sub_t [of u] new [of u] by (auto simp: set)
    have uu: "ln_Seq ` set (pending c u ?w) \<inter> ln_Seq ` set (pending c v ?w) = {}" if "u \<noteq> v" for u v
      using trafficD(4) [OF tr that] sub_t [of u] sub_t [of v] by blast
    have in_places: "line \<in> set (places c ?w)" by (simp add: set)
    have fwd: "l \<in> set (places c ?w) \<or> (\<exists>u. l \<in> set (pending c u ?w))" if "l \<in> set (pending c u w)" for l u
    proof (cases "u = t")
      case True
      with that have "l \<in> set (line # pending c t ?w)" by (simp only: split)
      with in_places show ?thesis by auto
    next
      case False
      with that other [of u] have "l \<in> set (pending c u ?w)" by simp
      then show ?thesis by blast
    qed
    have "set (places c ?w) \<union> (\<Union>u. set (pending c u ?w)) = set (places c w) \<union> (\<Union>u. set (pending c u w))"
    proof
      show "set (places c ?w) \<union> (\<Union>u. set (pending c u ?w)) \<subseteq> set (places c w) \<union> (\<Union>u. set (pending c u w))"
        using sub_t in_t unfolding set by blast
      show "set (places c w) \<union> (\<Union>u. set (pending c u w)) \<subseteq> set (places c ?w) \<union> (\<Union>u. set (pending c u ?w))"
        using fwd unfolding set by blast
    qed
    from arg_cong [OF this, of "(`) ln_Seq"]
    have "ln_Seq ` set (places c ?w) \<union> (\<Union>u. ln_Seq ` set (pending c u ?w))
        = ln_Seq ` set (places c w) \<union> (\<Union>u. ln_Seq ` set (pending c u w))"
      by (simp only: image_Un image_UN)
    also have "\<dots> = {n + 1 .. lines_of p w}" by (rule trafficD(5) [OF tr])
    finally show ?thesis using d pd pp uu lines by (simp add: traffic_def)
  next
    case False
    have "places c ?w = places c w"
      using False by (auto simp: places_def do_send_def s on_channel_def nth_update_cases split: sum.split)
    moreover have "pending c u ?w = pending c u w" for u using False by (simp add: pend) (simp add: pending_def s)
    ultimately show ?thesis using lines by (intro traffic_same [OF tr])
  qed
qed

lemma traffic_receive: "traffic p c n w \<Longrightarrow> traffic p c n (do_receive d w)"
proof (rule traffic_same)
  have "ch_seen ch' @ ch_buffer ch' @ ch_dropped ch' = ch_seen ch @ ch_buffer ch @ ch_dropped ch"
    if "ch_buffer ch = l # rest" "ch' = ch\<lparr>ch_buffer := rest, ch_seen := ch_seen ch @ [l]\<rparr>" for ch ch' l rest
    using that by simp
  then show "places c (do_receive d w) = places c w"
    by (auto simp: places_def do_receive_def Let_def nth_update_cases split: list.split)
qed (simp_all add: pending_def lines_of_def)

subsection \<open>Every step\<close>

lemma section_lines [simp]:
  "job_Lines (en_job (setExitCode code e)) = job_Lines (en_job e)"
  "job_Lines (en_job (markCancelled e)) = job_Lines (en_job e)"
  "job_Lines (en_job (finish_locked r d now e)) = job_Lines (en_job e)"
  by (simp_all add: setExitCode_def markCancelled_def finish_locked_def Let_def split: option.splits)

lemma lines_of_on_entry:
  "(\<And>e. job_Lines (en_job (f e)) = job_Lines (en_job e)) \<Longrightarrow> lines_of p (on_entry q f w) = lines_of p w"
  by (simp add: lines_of_def nth_update_cases)

lemma places_do_close [simp]: "places c (do_close t w) = places c w"
proof (cases "w_closes w t")
  case (Cons d rest)
  have "places c (do_close t w) = places c (on_channel d close_channel w)"
    by (rule places_chans) (simp add: do_close_def Cons)
  then show ?thesis by simp
qed (simp add: do_close_def)

lemma places_on_entry [simp]: "places c (on_entry p f w) = places c w"
  by (rule places_chans) simp

lemma job_step_subscribed:
  assumes "job_step w w'" and "c < length (w_chans w)" and "subscribed p c w'"
  shows "subscribed p c w"
  using assms
  by cases
    (auto simp: subscribed_def do_start_def do_finish_def do_prune_def do_subscribe_def do_unsubscribe_def do_shutdown_def
      Let_def nth_append nth_update_cases split: if_splits)

lemma job_step_traffic:
  assumes step: "job_step w w'" and ok: "heap_ok w" "chans_ok w" and sub: "subscribed p c w" and tr: "traffic p c n w"
    and n: "n \<le> lines_of p w"
  shows "traffic p c n w'"
  using step
proof cases
  case (Start i spec now)
  have "p < length (w_heap w)" using sub by (simp add: subscribed_def)
  then show ?thesis unfolding Start(1)
    by (intro traffic_same [OF tr]) (simp_all add: places_def pending_def lines_of_def do_start_def Let_def nth_append)
next
  case (Emit q k stream msg now)
  then show ?thesis using traffic_append [OF ok(2) sub tr _ _ n] by simp
next
  case (Exit q code)
  show ?thesis unfolding Exit(1)
    by (intro traffic_same [OF tr]) (simp_all add: pending_def lines_of_on_entry)
next
  case (Send t)
  then obtain d line rest where "w_sends w t = (d, line) # rest" by (cases "w_sends w t") auto
  then show ?thesis unfolding Send(1) by (rule traffic_send [OF ok(2) sub tr])
next
  case (Finish q r d now)
  show ?thesis unfolding Finish(1)
    by (intro traffic_same [OF tr])
      (simp_all add: do_finish_def pending_def lines_of_def nth_update_cases places_def)
next
  case (Close t)
  show ?thesis unfolding Close(1)
    by (intro traffic_same [OF tr]) (simp_all add: pending_def lines_of_def)
next
  case Prune
  show ?thesis unfolding Prune(1)
    by (intro traffic_same [OF tr]) (simp_all add: pending_def lines_of_def do_prune_def places_def)
next
  case (Subscribe q)
  have "c < length (w_chans w)" using subscribed_open [OF ok(2) sub] by simp
  then show ?thesis unfolding Subscribe(1)
    by (intro traffic_same [OF tr])
      (simp_all add: pending_def lines_of_def do_subscribe_def places_def nth_append nth_update_cases)
next
  case (Unsubscribe q d)
  show ?thesis unfolding Unsubscribe(1)
    by (intro traffic_same [OF tr]) (simp_all add: pending_def lines_of_def do_unsubscribe_def nth_update_cases)
next
  case (Shutdown q)
  show ?thesis unfolding Shutdown(1)
    by (intro traffic_same [OF tr]) (simp_all add: pending_def lines_of_def do_shutdown_def nth_update_cases)
next
  case (Receive d)
  then show ?thesis using traffic_receive [OF tr] by simp
next
  case (Cancel m i q)
  show ?thesis unfolding Cancel(1)
    by (intro traffic_same [OF tr]) (simp_all add: pending_def lines_of_def places_def)
next
  case (Cancel_line m q now)
  then have "q < length (w_heap w)" using ok(1) by (auto simp: heap_ok_def)
  then have "traffic p c n (do_append (Caller m) q ''status'' ''Cancelled from the dashboard.'' now w)"
    using Cancel_line(4) by (intro traffic_append [OF ok(2) sub tr _ _ n])
  then show ?thesis unfolding Cancel_line(1)
    by (rule traffic_same) (simp_all add: pending_def lines_of_def places_def)
next
  case (Cancel_mark m q)
  show ?thesis unfolding Cancel_mark(1)
    by (intro traffic_same [OF tr]) (simp_all add: pending_def lines_of_def places_def nth_update_cases)
qed

lemma job_step_chans: "job_step w w' \<Longrightarrow> length (w_chans w) \<le> length (w_chans w')"
  by (cases rule: job_step.cases)
    (auto simp: do_start_def do_finish_def do_prune_def do_subscribe_def do_shutdown_def Let_def)

lemma subscribed_chans: "chans_ok w \<Longrightarrow> subscribed p c w \<Longrightarrow> c < length (w_chans w)"
  using subscribed_open by simp

text \<open>From the subscription on.\<close>

lemma subscribe_traffic:
  assumes ok: "world_ok w" and p: "p < length (w_heap w)"
  shows "traffic p (length (w_chans w)) (lines_of p w) (do_subscribe p w)"
proof -
  have "pending (length (w_chans w)) t (do_subscribe p w) = []" for t
  proof -
    have "(d, l) \<in> set (w_sends w t) \<Longrightarrow> d \<noteq> length (w_chans w)" for d l
      using ok chans_ok_sends [of w d l t] by (auto simp: world_ok_def)
    then show ?thesis by (auto simp: pending_def do_subscribe_def filter_empty_conv)
  qed
  moreover have "places (length (w_chans w)) (do_subscribe p w) = []"
    by (simp add: places_def do_subscribe_def nth_append new_channel_def)
  moreover have "lines_of p (do_subscribe p w) = lines_of p w"
    using p by (simp add: lines_of_def do_subscribe_def nth_update_cases)
  ultimately show ?thesis by (simp add: traffic_def)
qed

lemma reaches_traffic:
  assumes reach: "job_reaches w w'" and ok: "world_ok w" and c: "c < length (w_chans w)" and p: "p < length (w_heap w)"
    and tr: "subscribed p c w \<Longrightarrow> traffic p c n w \<and> n \<le> lines_of p w" and sub: "subscribed p c w'"
  shows "traffic p c n w'"
proof -
  have "c < length (w_chans w') \<and> world_ok w' \<and> n \<le> lines_of p w' \<and> traffic p c n w'" if "subscribed p c w'"
    using reach that unfolding job_reaches_def
  proof (induction rule: rtranclp_induct)
    case base
    with c ok tr show ?case by simp
  next
    case (step u v)
    have u: "world_ok u" using job_reaches_world_ok [OF _ ok] step(1) by (simp add: job_reaches_def)
    then have uc: "heap_ok u" "chans_ok u" by (simp_all add: world_ok_def)
    have "c < length (w_chans u)"
      using step(1) c by (induction rule: rtranclp_induct) (auto dest: job_step_chans)
    then have su: "subscribed p c u" by (rule job_step_subscribed [OF step(2) _ step(4)])
    with step(3) have t: "n \<le> lines_of p u" "traffic p c n u" "c < length (w_chans u)" by simp_all
    have "p < length (w_heap u)" using su by (simp add: subscribed_def)
    then have "lines_of p u \<le> lines_of p v"
      using job_step_heap [OF step(2) uc(1)] uc(1) by (simp add: heap_step_def heap_ok_def job_follows_def lines_of_def)
    with t job_step_traffic [OF step(2) uc su] job_step_world_ok [OF step(2) u] job_step_chans [OF step(2)] show ?case by auto
  qed
  with sub show ?thesis by simp
qed

end
