(* ===== verification/Jobs_Properties.thy ===== *)
theory Jobs_Properties
  imports Jobs_Traffic
begin

text \<open>
  The properties of background jobs: what a manager keeps under any interleaving of its goroutines,
  requests and readers, and two interleavings the code does not survive. Each property is followed
  by its application to a concrete execution.
\<close>

subsection \<open>A sample execution\<close>

definition sampleSpec :: Spec where
  "sampleSpec = \<lparr> sp_Kind = ''certbot'', sp_Title = ''Renew'', sp_Target = ''example.org'', sp_StartedBy = ''admin'', sp_Timeout = 0 \<rparr>"

definition started :: world where
  "started = do_start sampleSpec ''j'' 0 new_world"

definition watched :: world where
  "watched = do_subscribe 0 started"

definition emitted :: world where
  "emitted = do_append (Worker 0 1) 0 ''stdout'' ''a'' 0 watched"

lemma prune_small: "length (mg_order m) \<le> maxJobs \<Longrightarrow> prune heap m = m"
  by (simp add: prune.simps)

lemmas sample_defs = started_def watched_def emitted_def do_start_def do_subscribe_def do_append_def do_send_def
  do_unsubscribe_def do_receive_def new_world_def New_def new_entry_def start_job_def sampleSpec_def subscribe_locked_def
  append_locked_def next_line_def remove_sub_def on_channel_def try_send_def close_channel_def new_channel_def
  prune_small maxJobs_def maxLines_def channelBuffer_def Let_def

lemma started_reached: "job_reaches new_world started"
proof -
  have "job_step new_world started" unfolding started_def by (rule job_step.Start) (simp_all add: new_world_def New_def)
  then show ?thesis by (simp add: job_reaches_def)
qed

lemma watched_reached: "job_reaches new_world watched"
proof -
  have "job_step started watched" unfolding watched_def by (rule job_step.Subscribe) (simp_all add: sample_defs)
  with started_reached show ?thesis by (auto simp: job_reaches_def)
qed

lemma emitted_step: "job_step watched emitted"
  unfolding emitted_def by (rule job_step.Emit) (simp_all add: sample_defs)

lemma emitted_reached: "job_reaches new_world emitted"
  using watched_reached emitted_step by (auto simp: job_reaches_def)

lemma job_reaches_step: "job_reaches w w' \<Longrightarrow> job_step w' w'' \<Longrightarrow> job_reaches w w''"
  by (auto simp: job_reaches_def)

subsection \<open>What the manager keeps\<close>

text \<open>
  C28: a running job is never lost: whatever was started, finished, cancelled or pruned, it is found
  under its id, and pruning the table keeps it there and leaves at most fifty jobs, or only
  running ones.
\<close>

theorem running_jobs_are_kept:
  assumes "job_reaches new_world w" and "p < length (w_heap w)" and "job_Status (en_job (w_heap w ! p)) = StatusRunning"
  shows "let i = job_ID (en_job (w_heap w ! p)); m = prune (w_heap w) (w_mgr w) in
    mg_entries (w_mgr w) i = Some p \<and> mg_entries m i = Some p \<and> distinct (mg_order m) \<and>
    (length (mg_order m) \<le> maxJobs \<or>
     list_all (\<lambda>j. \<exists>q. mg_entries m j = Some q \<and> job_Status (en_job (w_heap w ! q)) = StatusRunning) (mg_order m))"
proof -
  have t: "table_ok (w_heap w) (w_mgr w)"
    using job_reaches_world_ok [OF assms(1) new_world_ok] by (simp add: world_ok_def)
  then have t': "table_ok (w_heap w) (prune (w_heap w) (w_mgr w))" by (rule prune_table_ok)
  have "list_all (\<lambda>j. \<exists>q. mg_entries m j = Some q \<and> job_Status (en_job (w_heap w ! q)) = StatusRunning) (mg_order m)"
    if "\<forall>i \<in> set (mg_order m). \<not> removable (w_heap w) m i" for m
    using that by (auto simp: list_all_iff removable_def split: option.splits)
  with prune_bound [OF t] t t' assms(2,3) show ?thesis by (auto simp: table_ok_def Let_def)
qed

theorem running_jobs_are_kept_witness:
  "mg_entries (prune (w_heap emitted) (w_mgr emitted)) ''j'' = Some 0"
proof -
  have "0 < length (w_heap emitted)" "job_Status (en_job (w_heap emitted ! 0)) = StatusRunning"
    "job_ID (en_job (w_heap emitted ! 0)) = ''j''"
    by (simp_all add: sample_defs)
  with running_jobs_are_kept [OF emitted_reached, of 0] show ?thesis by (simp add: Let_def)
qed

text \<open>
  C29: a job keeps its identity, its number of lines only grows, a status other than running is
  final, and once the job has ended nothing of it changes any more but the number of its lines.
\<close>

theorem job_status_is_final:
  assumes "job_reaches new_world w" and "job_reaches w w'" and "p < length (w_heap w)"
  shows "p < length (w_heap w') \<and> job_follows (en_job (w_heap w ! p)) (en_job (w_heap w' ! p)) \<and>
    (job_EndedAt (en_job (w_heap w' ! p)) \<noteq> None \<longrightarrow> job_Status (en_job (w_heap w' ! p)) \<noteq> StatusRunning)"
proof -
  have ok: "world_ok w" by (rule job_reaches_world_ok [OF assms(1) new_world_ok])
  then have heap: "heap_step (w_heap w) (w_heap w')" "list_all entry_ok (w_heap w)" "list_all entry_ok (w_heap w')"
    using job_reaches_heap_step [OF assms(2)] job_reaches_world_ok [OF assms(2)] by (simp_all add: world_ok_def heap_ok_def)
  then have p: "p < length (w_heap w')" using assms(3) by (simp add: heap_step_def)
  with heap(3) have "entry_ok (w_heap w' ! p)" by (simp add: list_all_length)
  with heap(1,2) p assms(3) show ?thesis by (simp add: heap_step_def entry_ok_def)
qed

theorem job_status_is_final_witness:
  "job_follows (en_job (w_heap started ! 0)) (en_job (w_heap emitted ! 0)) \<and> job_Lines (en_job (w_heap emitted ! 0)) = 1"
proof -
  have "job_step started watched" unfolding watched_def by (rule job_step.Subscribe) (simp_all add: sample_defs)
  with emitted_step have "job_reaches started emitted" by (auto simp: job_reaches_def)
  moreover have "0 < length (w_heap started)" "job_Lines (en_job (w_heap emitted ! 0)) = 1" by (simp_all add: sample_defs)
  ultimately show ?thesis using job_status_is_final [OF started_reached, of emitted 0] by simp
qed

text \<open>
  C30: the buffer of a job holds its newest lines, numbered without a gap and with a bound of five
  thousand; the number of lines counts those that were dropped too, and \<open>first\<close> is the number of
  the oldest line that is still held. No channel is ever closed twice.
\<close>

theorem job_log_is_gapless:
  assumes "job_reaches new_world w" and "mg_entries (w_mgr w) i = Some p"
  shows "(\<exists>job ls. Get (w_heap w) (w_mgr w) i = Some (job, ls) \<and> job_ID job = i \<and>
      length ls = min (nat (job_Lines job)) maxLines \<and>
      map ln_Seq ls = [job_Lines job - int (length ls) + 1 .. job_Lines job] \<and>
      en_first (w_heap w ! p) = (if job_Lines job \<le> int maxLines then 0 else ln_Seq (hd ls))) \<and>
    w_panic w \<noteq> Some CloseOfClosedChannel"
proof -
  have ok: "world_ok w" by (rule job_reaches_world_ok [OF assms(1) new_world_ok])
  then have p: "p < length (w_heap w)" "job_ID (en_job (w_heap w ! p)) = i"
    using assms(2) by (auto simp: world_ok_def table_ok_def)
  then have ring: "ring_ok (w_heap w ! p)" using ok by (simp add: world_ok_def heap_ok_def list_all_length entry_ok_def)
  define ls where "ls = en_lines (w_heap w ! p)"
  define total where "total = job_Lines (en_job (w_heap w ! p))"
  have r: "0 \<le> total" "int (length ls) = min total (int maxLines)" "map ln_Seq ls = [total - int (length ls) + 1 .. total]"
    "en_first (w_heap w ! p) = (if total \<le> int maxLines then 0 else total - int (length ls) + 1)"
    using ring by (simp_all add: ring_ok_def ls_def total_def Let_def)
  have "length ls = min (nat total) maxLines" using r(1,2) by linarith
  moreover have "ln_Seq (hd ls) = total - int (length ls) + 1" if "\<not> total \<le> int maxLines"
  proof -
    have "0 < length ls" using r(2) that by (simp add: maxLines_def)
    then have "ln_Seq (hd ls) = hd (map ln_Seq ls)" by (simp add: hd_map)
    moreover have "[total - int (length ls) + 1 .. total] = (total - int (length ls) + 1) # [total - int (length ls) + 1 + 1 .. total]"
      using \<open>0 < length ls\<close> by (intro upto_rec1) linarith
    ultimately have "ln_Seq (hd ls) = hd ((total - int (length ls) + 1) # [total - int (length ls) + 1 + 1 .. total])"
      by (simp only: r(3))
    also have "\<dots> = total - int (length ls) + 1" by simp
    finally show ?thesis .
  qed
  ultimately show ?thesis
    using assms(2) r(3,4) p(2) ok by (auto simp: Get_def ls_def total_def world_ok_def)
qed

theorem job_log_is_gapless_witness: "\<exists>job ls. Get (w_heap emitted) (w_mgr emitted) ''j'' = Some (job, ls) \<and> job_ID job = ''j'' \<and>
  map ln_Seq ls = [job_Lines job - int (length ls) + 1 .. job_Lines job]"
proof -
  have "mg_entries (w_mgr emitted) ''j'' = Some 0" by (simp add: sample_defs)
  from job_log_is_gapless [OF emitted_reached this] show ?thesis by blast
qed



subsection \<open>Two interleavings\<close>

text \<open>
  A reader that leaves while a line is on its way ends the process: \<open>appendLine\<close> takes the
  subscribers under the lock and sends after it, \<open>unsubscribe\<close> closes the channel in between, and a
  send on a closed channel panics, in a \<open>select\<close> with a default too.
\<close>

theorem leaving_reader_panics:
  "\<exists>w. job_reaches new_world w \<and> w_panic w = Some SendOnClosedChannel"
proof -
  let ?left = "do_unsubscribe 0 0 emitted"
  have "job_step emitted ?left" by (rule job_step.Unsubscribe) (simp_all add: sample_defs)
  moreover have "job_step ?left (do_send (Worker 0 1) ?left)" by (rule job_step.Send) (simp_all add: sample_defs)
  moreover have "w_panic (do_send (Worker 0 1) ?left) = Some SendOnClosedChannel" by (simp add: sample_defs)
  ultimately show ?thesis using emitted_reached by (meson job_reaches_step)
qed

text \<open>
  The lines of a command's two streams can overtake each other on the way to a reader: it reads
  line 2 first, and when it comes back and asks for what follows line 2, it gets nothing, so it
  never sees line 1, which the buffer still holds.
\<close>

theorem reconnect_can_miss_a_line:
  "\<exists>w. job_reaches new_world w \<and> map ln_Seq (ch_seen (w_chans w ! 0)) = [2] \<and>
     map ln_Seq (en_lines (w_heap w ! 0)) = [1, 2] \<and> snd (Subscribe_view 0 2 w) = []"
proof -
  let ?both = "do_append (Worker 0 2) 0 ''stderr'' ''b'' 0 emitted"
  let ?sent = "do_send (Worker 0 2) ?both"
  let ?read = "do_receive 0 ?sent"
  have "job_step emitted ?both" by (rule job_step.Emit) (simp_all add: sample_defs)
  moreover have "job_step ?both ?sent" by (rule job_step.Send) (simp_all add: sample_defs)
  moreover have "job_step ?sent ?read" by (rule job_step.Receive) (simp_all add: sample_defs)
  moreover have "map ln_Seq (ch_seen (w_chans ?read ! 0)) = [2]" "map ln_Seq (en_lines (w_heap ?read ! 0)) = [1, 2]"
    "snd (Subscribe_view 0 2 ?read) = []"
    by (simp_all add: sample_defs Subscribe_view_def backlog_after_def)
  ultimately show ?thesis using emitted_reached by (meson job_reaches_step)
qed

end
