(* ===== verification/Host_Files.thy ===== *)
theory Host_Files
  imports Go_Codec
begin

text \<open>
  What archive extraction uses of the standard library and of the host: the path functions of
  path/filepath, and a file system with directories, regular files and symbolic links, with the
  system calls behind \<open>os.Lstat\<close>, \<open>os.Mkdir\<close>, \<open>os.MkdirAll\<close>, \<open>os.Remove\<close>, \<open>os.Symlink\<close> and \<open>os.OpenFile\<close>.
  A file system maps a physical path, the names from the root down, to its node. A path given to a
  system call is walked by the kernel: every component but the last, and the last one where the
  call follows links, is replaced by its target when it is a link, at most forty times. Hard
  links, permissions and other processes are not part of the model.
\<close>

subsection \<open>Paths\<close>

type_synonym path = "string list"

definition slash :: char where
  "slash = CHR ''/''"

definition is_abs :: "string \<Rightarrow> bool" where
  "is_abs s = (s \<noteq> [] \<and> hd s = slash)"

definition comps :: "string \<Rightarrow> path" where
  "comps s = filter (\<lambda>c. c \<noteq> []) (split_on slash s)"

fun norm :: "bool \<Rightarrow> path \<Rightarrow> path \<Rightarrow> path" where
  "norm rooted acc [] = rev acc"
| "norm rooted acc (c # cs) =
     (if c = ''.'' then norm rooted acc cs
      else if c = ''..'' then
        (case acc of
           [] \<Rightarrow> norm rooted (if rooted then [] else [c]) cs
         | a # as \<Rightarrow> if a = ''..'' then norm rooted (c # acc) cs else norm rooted as cs)
      else norm rooted (c # acc) cs)"

definition render :: "path \<Rightarrow> string" where
  "render p = slash # join [slash] p"

text \<open>\<open>filepath.Clean\<close>, \<open>filepath.Join\<close> of two elements, \<open>filepath.Dir\<close>.\<close>

definition clean :: "string \<Rightarrow> string" where
  "clean s =
     (let p = norm (is_abs s) [] (comps s) in
      if is_abs s then render p else if p = [] then ''.'' else join [slash] p)"

definition path_join :: "string \<Rightarrow> string \<Rightarrow> string" where
  "path_join a b =
     (if a = [] then (if b = [] then [] else clean b)
      else if b = [] then clean a else clean (a @ [slash] @ b))"

definition path_dir :: "string \<Rightarrow> string" where
  "path_dir s = clean (rev (dropWhile (\<lambda>c. c \<noteq> slash) (rev s)))"

text \<open>
  \<open>filepath.Rel\<close> of clean paths, for a target that equals the base or lies below it, which is what
  its caller has established.
\<close>

definition path_rel :: "string \<Rightarrow> string \<Rightarrow> string option" where
  "path_rel base target =
     (if target = base then Some ''.''
      else if has_prefix target (base @ [slash]) then Some (drop (length base + 1) target) else None)"

subsection \<open>The file system\<close>

datatype node = Dir | File string | Link string

type_synonym fs = "(path \<times> node) list"

definition node_at :: "fs \<Rightarrow> path \<Rightarrow> node option" where
  "node_at fs p = map_of fs p"

definition del :: "path \<Rightarrow> fs \<Rightarrow> fs" where
  "del p fs = filter (\<lambda>e. fst e \<noteq> p) fs"

definition put :: "path \<Rightarrow> node \<Rightarrow> fs \<Rightarrow> fs" where
  "put p nd fs = (p, nd) # del p fs"

lemma node_at_del [simp]: "node_at (del p fs) q = (if q = p then None else node_at fs q)"
  by (induction fs) (auto simp: node_at_def del_def)

lemma node_at_put [simp]: "node_at (put p nd fs) q = (if q = p then Some nd else node_at fs q)"
  using node_at_del [of p fs q] by (simp add: node_at_def put_def)

datatype fs_error = ENOENT | ENOTDIR | ELOOP | EEXIST | EISDIR | ENOTEMPTY | EINVAL

definition max_links :: nat where
  "max_links = 40"

function walk :: "fs \<Rightarrow> nat \<Rightarrow> path \<Rightarrow> path \<Rightarrow> fs_error + path" where
  "walk fs n cur [] = Ok cur"
| "walk fs n cur (c # cs) =
     (if node_at fs cur \<noteq> Some Dir then Err ENOTDIR
      else if c = ''.'' then walk fs n cur cs
      else if c = ''..'' then walk fs n (butlast cur) cs
      else case node_at fs (cur @ [c]) of
          None \<Rightarrow> Err ENOENT
        | Some (Link target) \<Rightarrow>
            if n = 0 then Err ELOOP
            else walk fs (n - 1) (if is_abs target then [] else cur) (comps target @ cs)
        | Some _ \<Rightarrow> walk fs n (cur @ [c]) cs)"
  by pat_completeness auto
termination
  by (relation "measures [\<lambda>(fs, n, cur, cs). n, \<lambda>(fs, n, cur, cs). length cs]") auto

declare walk.simps [simp del]

text \<open>
  The physical path an absolute path denotes when its last component is not followed; the root
  has no last component.
\<close>

definition locate :: "fs \<Rightarrow> string \<Rightarrow> fs_error + path" where
  "locate fs s =
     (let cs = comps s in
      if cs = [] then Ok []
      else bindr (walk fs max_links [] (butlast cs)) (\<lambda>parent.
        if node_at fs parent \<noteq> Some Dir then Err ENOTDIR
        else if last cs = ''.'' \<or> last cs = ''..'' then walk fs max_links parent [last cs]
        else Ok (parent @ [last cs])))"

definition lstat :: "fs \<Rightarrow> string \<Rightarrow> fs_error + node" where
  "lstat fs s =
     bindr (locate fs s) (\<lambda>p. case node_at fs p of None \<Rightarrow> Err ENOENT | Some nd \<Rightarrow> Ok nd)"

definition stat :: "fs \<Rightarrow> string \<Rightarrow> fs_error + node" where
  "stat fs s =
     bindr (walk fs max_links [] (comps s)) (\<lambda>p. case node_at fs p of None \<Rightarrow> Err ENOENT | Some nd \<Rightarrow> Ok nd)"

definition sys_mkdir :: "fs \<Rightarrow> string \<Rightarrow> (fs_error option) \<times> fs" where
  "sys_mkdir fs s =
     (case locate fs s of
        Inl e \<Rightarrow> (Some e, fs)
      | Inr p \<Rightarrow> if node_at fs p = None then (None, put p Dir fs) else (Some EEXIST, fs))"

definition sys_symlink :: "fs \<Rightarrow> string \<Rightarrow> string \<Rightarrow> (fs_error option) \<times> fs" where
  "sys_symlink fs target s =
     (case locate fs s of
        Inl e \<Rightarrow> (Some e, fs)
      | Inr p \<Rightarrow> if node_at fs p = None then (None, put p (Link target) fs) else (Some EEXIST, fs))"

text \<open>\<open>os.Remove\<close>: a file or link is unlinked, a directory only when it is empty.\<close>

definition empty_dir :: "fs \<Rightarrow> path \<Rightarrow> bool" where
  "empty_dir fs p = list_all (\<lambda>(q, _). q = [] \<or> butlast q \<noteq> p) fs"

definition sys_remove :: "fs \<Rightarrow> string \<Rightarrow> (fs_error option) \<times> fs" where
  "sys_remove fs s =
     (case locate fs s of
        Inl e \<Rightarrow> (Some e, fs)
      | Inr p \<Rightarrow>
          (case node_at fs p of
             None \<Rightarrow> (Some ENOENT, fs)
           | Some Dir \<Rightarrow> if p = [] \<or> \<not> empty_dir fs p then (Some ENOTEMPTY, fs) else (None, del p fs)
           | Some _ \<Rightarrow> (None, del p fs)))"

text \<open>
  \<open>open\<close> for writing with \<open>O_CREATE\<close>, \<open>O_TRUNC\<close> and \<open>O_NOFOLLOW\<close>; the descriptor is the physical path.
\<close>

definition sys_create :: "fs \<Rightarrow> string \<Rightarrow> (fs_error + path) \<times> fs" where
  "sys_create fs s =
     (case locate fs s of
        Inl e \<Rightarrow> (Err e, fs)
      | Inr p \<Rightarrow>
          (case node_at fs p of
             None \<Rightarrow> (Ok p, put p (File []) fs)
           | Some (File _) \<Rightarrow> (Ok p, put p (File []) fs)
           | Some Dir \<Rightarrow> (Err EISDIR, fs)
           | Some (Link _) \<Rightarrow> (Err ELOOP, fs)))"

text \<open>\<open>os.MkdirAll\<close>, over the components from the last one up.\<close>

fun mkdir_all_rev :: "fs \<Rightarrow> path \<Rightarrow> (fs_error option) \<times> fs" where
  "mkdir_all_rev fs [] = (None, fs)"
| "mkdir_all_rev fs (c # cs) =
     (let s = render (rev (c # cs)) in
      case stat fs s of
        Inr Dir \<Rightarrow> (None, fs)
      | Inr _ \<Rightarrow> (Some ENOTDIR, fs)
      | Inl _ \<Rightarrow>
          (case mkdir_all_rev fs cs of
             (Some e, fs1) \<Rightarrow> (Some e, fs1)
           | (None, fs1) \<Rightarrow>
               (case sys_mkdir fs1 s of
                  (None, fs2) \<Rightarrow> (None, fs2)
                | (Some e, fs2) \<Rightarrow> if lstat fs2 s = Ok Dir then (None, fs2) else (Some e, fs2))))"

definition mkdir_all :: "fs \<Rightarrow> string \<Rightarrow> (fs_error option) \<times> fs" where
  "mkdir_all fs s = mkdir_all_rev fs (rev (comps s))"

end
