(* ===== verification/Archive_Extract.thy ===== *)
theory Archive_Extract
  imports Host_Files
begin

text \<open>
  Unpacking archives: the containment rules of safepath/safepath.go, the extraction of tar and zip
  archives of the file manager (files/archive.go) with its byte and entry budget, and the restore
  of a backup (backups/restore.go). A stream is the list of what its reader returns.
\<close>

datatype extract_error =
    WouldEscape string
  | ThroughLink string string
  | EmptyTarget string
  | AbsoluteTarget string string
  | OutsideTarget string extract_error
  | OsError fs_error
  | TooManyEntries
  | TooLarge
  | ReadError
  | Cancelled

subsection \<open>Containment\<close>

fun check_parents :: "fs \<Rightarrow> string \<Rightarrow> string \<Rightarrow> path \<Rightarrow> extract_error + unit" where
  "check_parents fs name current [] = Ok ()"
| "check_parents fs name current (part # parts) =
     (let next_dir = path_join current part in
      case lstat fs next_dir of
        Inl e \<Rightarrow> if e = ENOENT then Ok () else Err (OsError e)
      | Inr (Link _) \<Rightarrow> Err (ThroughLink name next_dir)
      | Inr _ \<Rightarrow> check_parents fs name next_dir parts)"

definition Join :: "fs \<Rightarrow> string \<Rightarrow> string \<Rightarrow> extract_error + string" where
  "Join fs dest0 name =
     (let dest = clean dest0; cleaned = clean (path_join dest name) in
      if cleaned \<noteq> dest \<and> \<not> has_prefix cleaned (dest @ [slash]) then Err (WouldEscape name)
      else case path_rel dest cleaned of
          None \<Rightarrow> Err (WouldEscape name)
        | Some rel \<Rightarrow>
            if rel = ''.'' then Ok cleaned
            else bindr (check_parents fs name dest (butlast (split_on slash rel))) (\<lambda>_. Ok cleaned))"

definition CheckLinkTarget :: "fs \<Rightarrow> string \<Rightarrow> string \<Rightarrow> string \<Rightarrow> extract_error + unit" where
  "CheckLinkTarget fs dest name linkname =
     (if linkname = [] then Err (EmptyTarget name)
      else if is_abs linkname then Err (AbsoluteTarget name linkname)
      else case Join fs dest (path_join (path_dir name) linkname) of
          Inl e \<Rightarrow> Err (OutsideTarget name e)
        | Inr _ \<Rightarrow> Ok ())"

definition replaceSymlink :: "fs \<Rightarrow> string \<Rightarrow> (fs_error option) \<times> fs" where
  "replaceSymlink fs s =
     (case lstat fs s of
        Inl e \<Rightarrow> (if e = ENOENT then None else Some e, fs)
      | Inr (Link _) \<Rightarrow> sys_remove fs s
      | Inr _ \<Rightarrow> (None, fs))"

definition safe_Mkdir :: "fs \<Rightarrow> string \<Rightarrow> (fs_error option) \<times> fs" where
  "safe_Mkdir fs s =
     (case replaceSymlink fs s of
        (Some e, fs1) \<Rightarrow> (Some e, fs1)
      | (None, fs1) \<Rightarrow> mkdir_all fs1 s)"

definition MkdirParents :: "fs \<Rightarrow> string \<Rightarrow> (fs_error option) \<times> fs" where
  "MkdirParents fs s = mkdir_all fs (path_dir s)"

definition safe_Create :: "fs \<Rightarrow> string \<Rightarrow> (fs_error + path) \<times> fs" where
  "safe_Create fs s =
     (case replaceSymlink fs s of
        (Some e, fs1) \<Rightarrow> (Err e, fs1)
      | (None, fs1) \<Rightarrow> sys_create fs1 s)"

definition safe_Symlink :: "fs \<Rightarrow> string \<Rightarrow> string \<Rightarrow> (fs_error option) \<times> fs" where
  "safe_Symlink fs linkname s =
     (case sys_remove fs s of
        (Some e, fs1) \<Rightarrow> if e = ENOENT then sys_symlink fs1 linkname s else (Some e, fs1)
      | (None, fs1) \<Rightarrow> sys_symlink fs1 linkname s)"

subsection \<open>Streams and budgets\<close>

datatype typeflag = TypeDir | TypeSymlink | TypeReg | TypeOther

text \<open>
  \<open>ae_Fails\<close> is the error that interrupts the copy after the content, \<open>ae_OpenFails\<close> the one of
  \<open>entry.Open\<close> of a zip archive.
\<close>

record archive_entry =
  ae_Name :: string
  ae_Typeflag :: typeflag
  ae_Linkname :: string
  ae_Content :: string
  ae_Fails :: "extract_error option"
  ae_OpenFails :: "extract_error option"

datatype item = Entry archive_entry | Broken extract_error

record budget =
  bg_maxBytes :: int
  bg_written :: int
  bg_maxEntries :: int
  bg_entries :: int

definition maxExtractBytes :: int where
  "maxExtractBytes = 8 * 2 ^ 30"

definition maxExtractEntries :: int where
  "maxExtractEntries = 100000"

definition minExtractFreeBytes :: int where
  "minExtractFreeBytes = 2 ^ 30"

definition extractByteLimit :: "int \<Rightarrow> int option" where
  "extractByteLimit available =
     (if available \<le> minExtractFreeBytes then None
      else Some (min (available - minExtractFreeBytes) maxExtractBytes))"

definition new_budget :: "int \<Rightarrow> budget" where
  "new_budget limit = \<lparr> bg_maxBytes = limit, bg_written = 0, bg_maxEntries = maxExtractEntries, bg_entries = 0 \<rparr>"

definition nextEntry :: "budget \<Rightarrow> budget option" where
  "nextEntry b = (if bg_entries b \<ge> bg_maxEntries b then None else Some (b\<lparr>bg_entries := bg_entries b + 1\<rparr>))"

text \<open>\<open>io.Copy\<close> into an \<open>extractWriter\<close>: what arrives in the file, the error, and the budget left.\<close>

definition copy_content :: "budget \<Rightarrow> archive_entry \<Rightarrow> string \<times> extract_error option \<times> budget" where
  "copy_content b e =
     (let remaining = bg_maxBytes b - bg_written b; content = ae_Content e in
      if int (length content) \<le> remaining \<or> content = []
      then (content, ae_Fails e, b\<lparr>bg_written := bg_written b + int (length content)\<rparr>)
      else let part = take (nat remaining) content in
        (part, Some TooLarge, b\<lparr>bg_written := bg_written b + int (length part)\<rparr>))"

subsection \<open>Extraction\<close>

text \<open>A regular entry of \<open>extractTar\<close> and of \<open>extractZip\<close>.\<close>

definition extract_regular ::
  "fs \<Rightarrow> string \<Rightarrow> budget \<Rightarrow> archive_entry \<Rightarrow> extract_error option \<times> budget \<times> fs" where
  "extract_regular fs s b e =
     (case safe_Create fs s of
        (Inl err, fs1) \<Rightarrow> (Some (OsError err), b, fs1)
      | (Inr fd, fs1) \<Rightarrow>
          (let (content, err, b1) = copy_content b e; fs2 = put fd (File content) fs1 in
           case err of
             Some x \<Rightarrow> (Some x, b1, snd (sys_remove fs2 s))
           | None \<Rightarrow> (None, b1, fs2)))"

definition tar_entry ::
  "fs \<Rightarrow> string \<Rightarrow> string \<Rightarrow> budget \<Rightarrow> archive_entry \<Rightarrow> extract_error option \<times> budget \<times> fs" where
  "tar_entry fs dest s b e =
     (case ae_Typeflag e of
        TypeDir \<Rightarrow> (let (err, fs1) = safe_Mkdir fs s in (map_option OsError err, b, fs1))
      | TypeSymlink \<Rightarrow>
          (case CheckLinkTarget fs dest (ae_Name e) (ae_Linkname e) of
             Inl err \<Rightarrow> (Some err, b, fs)
           | Inr _ \<Rightarrow> (let (err, fs1) = safe_Symlink fs (ae_Linkname e) s in (map_option OsError err, b, fs1)))
      | TypeReg \<Rightarrow>
          (case MkdirParents fs s of
             (Some err, fs1) \<Rightarrow> (Some (OsError err), b, fs1)
           | (None, fs1) \<Rightarrow> extract_regular fs1 s b e)
      | TypeOther \<Rightarrow> (None, b, fs))"

fun extractTar ::
  "string \<Rightarrow> item list \<Rightarrow> string list \<Rightarrow> budget \<Rightarrow> fs \<Rightarrow> (string list \<times> extract_error option) \<times> budget \<times> fs" where
  "extractTar dest [] written b fs = ((written, None), b, fs)"
| "extractTar dest (Broken err # items) written b fs = ((written, Some err), b, fs)"
| "extractTar dest (Entry e # items) written b fs =
     (case nextEntry b of
        None \<Rightarrow> ((written, Some TooManyEntries), b, fs)
      | Some b1 \<Rightarrow>
          (case Join fs dest (ae_Name e) of
             Inl err \<Rightarrow> ((written, Some err), b1, fs)
           | Inr s \<Rightarrow>
               (case tar_entry fs dest s b1 e of
                  (Some err, b2, fs1) \<Rightarrow> ((written, Some err), b2, fs1)
                | (None, b2, fs1) \<Rightarrow>
                    extractTar dest items (if ae_Typeflag e = TypeOther then written else written @ [s]) b2 fs1)))"

definition zip_entry ::
  "fs \<Rightarrow> string \<Rightarrow> budget \<Rightarrow> archive_entry \<Rightarrow> extract_error option \<times> budget \<times> fs" where
  "zip_entry fs s b e =
     (if ae_Typeflag e = TypeDir then (let (err, fs1) = safe_Mkdir fs s in (map_option OsError err, b, fs1))
      else case MkdirParents fs s of
          (Some err, fs1) \<Rightarrow> (Some (OsError err), b, fs1)
        | (None, fs1) \<Rightarrow>
            (case ae_OpenFails e of
               Some err \<Rightarrow> (Some err, b, fs1)
             | None \<Rightarrow> extract_regular fs1 s b e))"

fun extractZip ::
  "string \<Rightarrow> item list \<Rightarrow> string list \<Rightarrow> budget \<Rightarrow> fs \<Rightarrow> (string list \<times> extract_error option) \<times> budget \<times> fs" where
  "extractZip dest [] written b fs = ((written, None), b, fs)"
| "extractZip dest (Broken err # items) written b fs = ((written, Some err), b, fs)"
| "extractZip dest (Entry e # items) written b fs =
     (case nextEntry b of
        None \<Rightarrow> ((written, Some TooManyEntries), b, fs)
      | Some b1 \<Rightarrow>
          (case Join fs dest (ae_Name e) of
             Inl err \<Rightarrow> ((written, Some err), b1, fs)
           | Inr s \<Rightarrow>
               (case zip_entry fs s b1 e of
                  (Some err, b2, fs1) \<Rightarrow> ((written, Some err), b2, fs1)
                | (None, b2, fs1) \<Rightarrow> extractZip dest items (written @ [s]) b2 fs1)))"

text \<open>The restore of a backup skips what the rules refuse and has no budget.\<close>

record RestoreResult =
  rr_Entries :: int
  rr_Bytes :: int
  rr_Skipped :: "string list"

definition skip_entry :: "string \<Rightarrow> RestoreResult \<Rightarrow> RestoreResult" where
  "skip_entry name r = r\<lparr>rr_Skipped := rr_Skipped r @ [name]\<rparr>"

definition restore_regular :: "fs \<Rightarrow> string \<Rightarrow> archive_entry \<Rightarrow> extract_error option \<times> int \<times> fs" where
  "restore_regular fs s e =
     (case MkdirParents fs s of
        (Some err, fs1) \<Rightarrow> (Some (OsError err), 0, fs1)
      | (None, fs1) \<Rightarrow>
          (case safe_Create fs1 s of
             (Inl err, fs2) \<Rightarrow> (Some (OsError err), 0, fs2)
           | (Inr fd, fs2) \<Rightarrow>
               (case ae_Fails e of
                  Some err \<Rightarrow> (Some err, 0, put fd (File (ae_Content e)) fs2)
                | None \<Rightarrow> (None, int (length (ae_Content e)), put fd (File (ae_Content e)) fs2))))"

definition restore_entry ::
  "fs \<Rightarrow> string \<Rightarrow> string \<Rightarrow> archive_entry \<Rightarrow> RestoreResult \<Rightarrow> extract_error option \<times> RestoreResult \<times> fs" where
  "restore_entry fs dest s e r =
     (let done = r\<lparr>rr_Entries := rr_Entries r + 1\<rparr> in
      case ae_Typeflag e of
        TypeDir \<Rightarrow> (case safe_Mkdir fs s of (Some err, fs1) \<Rightarrow> (Some (OsError err), r, fs1) | (None, fs1) \<Rightarrow> (None, done, fs1))
      | TypeSymlink \<Rightarrow>
          (case CheckLinkTarget fs dest (ae_Name e) (ae_Linkname e) of
             Inl err \<Rightarrow> (None, skip_entry (ae_Name e) r, fs)
           | Inr _ \<Rightarrow>
               (case safe_Symlink fs (ae_Linkname e) s of
                  (Some err, fs1) \<Rightarrow> (Some (OsError err), r, fs1)
                | (None, fs1) \<Rightarrow> (None, done, fs1)))
      | TypeReg \<Rightarrow>
          (case restore_regular fs s e of
             (Some err, _, fs1) \<Rightarrow> (Some err, r, fs1)
           | (None, n, fs1) \<Rightarrow> (None, done\<lparr>rr_Bytes := rr_Bytes r + n\<rparr>, fs1))
      | TypeOther \<Rightarrow> (None, r, fs))"

fun extractArchive ::
  "string \<Rightarrow> item list \<Rightarrow> RestoreResult \<Rightarrow> fs \<Rightarrow> (RestoreResult \<times> extract_error option) \<times> fs" where
  "extractArchive dest [] r fs = ((r, None), fs)"
| "extractArchive dest (Broken err # items) r fs = ((r, Some err), fs)"
| "extractArchive dest (Entry e # items) r fs =
     (case Join fs dest (ae_Name e) of
        Inl err \<Rightarrow> extractArchive dest items (skip_entry (ae_Name e) r) fs
      | Inr s \<Rightarrow>
          (case restore_entry fs dest s e r of
             (Some err, r1, fs1) \<Rightarrow> ((r1, Some err), fs1)
           | (None, r1, fs1) \<Rightarrow> extractArchive dest items r1 fs1))"

end
