(* ===== verification/Archive_Confined.thy ===== *)
theory Archive_Confined
  imports Archive_Extract
begin

text \<open>
  What one entry of an archive can change. Paths that \<open>Join\<close> accepts are, physically, below the
  destination: no link is crossed on the way, so each system call acts on the very path. The locale
  \<open>confined_op\<close> states the effect of an operation on such a path; it is interpreted for every
  operation an extraction performs.
\<close>

subsection \<open>Names\<close>

definition plain :: "string \<Rightarrow> bool" where
  "plain c = (c \<noteq> [] \<and> slash \<notin> set c \<and> c \<noteq> ''.'' \<and> c \<noteq> ''..'')"

definition named :: "string \<Rightarrow> bool" where
  "named c = (c \<noteq> [] \<and> slash \<notin> set c)"

lemma plain_named: "list_all plain p \<Longrightarrow> list_all named p"
  by (auto simp: list_all_iff plain_def named_def)

lemma split_on_not_empty [simp]: "split_on sep s \<noteq> []"
  by (cases s) (auto split: list.split)

lemma split_on_sep: "split_on sep (a @ sep # b) = split_on sep a @ split_on sep b"
proof (induction a)
  case (Cons c a)
  then show ?case by (cases "split_on sep a") auto
qed simp

lemma split_on_no_sep: "w \<in> set (split_on sep s) \<Longrightarrow> sep \<notin> set w"
proof (induction s arbitrary: w)
  case (Cons c s)
  then show ?case by (cases "split_on sep s") (auto split: if_splits)
qed simp

lemma comps_named: "list_all named (comps s)"
  by (auto simp: comps_def list_all_iff named_def dest: split_on_no_sep)

lemma comps_sep: "comps (a @ slash # b) = comps a @ comps b"
  by (simp add: comps_def split_on_sep)

lemma comps_nil [simp]: "comps [] = []"
  by (simp add: comps_def)

lemma comps_word: "named c \<Longrightarrow> comps c = [c]"
  by (simp add: comps_def named_def split_on_word)

lemma split_on_join: "p \<noteq> [] \<Longrightarrow> list_all named p \<Longrightarrow> split_on slash (join [slash] p) = p"
  by (induction "[slash]" p rule: join.induct) (auto simp: named_def split_on_word split_on_append)

lemma comps_join: "list_all named p \<Longrightarrow> comps (join [slash] p) = p"
proof (cases "p = []")
  case False
  then show "list_all named p \<Longrightarrow> comps (join [slash] p) = p"
    by (simp add: comps_def split_on_join filter_id_conv list_all_iff named_def)
qed simp

lemma comps_render: "list_all named p \<Longrightarrow> comps (render p) = p"
  using comps_sep [of "[]" "join [slash] p"] by (simp add: render_def comps_join)

lemma comps_render_plain: "list_all plain p \<Longrightarrow> comps (render p) = p"
  by (simp add: comps_render plain_named)

lemma render_inject: "list_all plain p \<Longrightarrow> list_all plain q \<Longrightarrow> render p = render q \<longleftrightarrow> p = q"
  by (metis comps_render plain_named)

lemma join_append: "p \<noteq> [] \<Longrightarrow> q \<noteq> [] \<Longrightarrow> join sep (p @ q) = join sep p @ sep @ join sep q"
proof (induction sep p rule: join.induct)
  case (2 sep x)
  then show ?case by (cases q) auto
qed auto

lemma is_abs_render [simp]: "is_abs (render p)"
  by (simp add: is_abs_def render_def)

lemma norm_plain: "list_all plain p \<Longrightarrow> norm r acc p = rev acc @ p"
  by (induction p arbitrary: acc) (auto simp: plain_def)

lemma norm_append: "norm True acc (p @ q) = norm True (rev (norm True acc p)) q"
  by (induction p arbitrary: acc) (auto split: list.split)

lemma norm_is_plain: "list_all plain acc \<Longrightarrow> list_all named p \<Longrightarrow> list_all plain (norm True acc p)"
  by (induction p arbitrary: acc) (auto simp: plain_def named_def split: list.split)

definition dest_path :: "string \<Rightarrow> path" where
  "dest_path dest = norm True [] (comps dest)"

lemma plain_dest_path: "list_all plain (dest_path dest)"
  by (simp add: dest_path_def norm_is_plain comps_named)

lemma clean_abs: "is_abs s \<Longrightarrow> clean s = render (norm True [] (comps s))"
  by (simp add: clean_def)

lemma clean_render: "list_all plain p \<Longrightarrow> clean (render p) = render p"
  by (simp add: clean_abs comps_render plain_named norm_plain)

lemma is_abs_append: "is_abs (render p @ s)"
  by (simp add: is_abs_def render_def)

lemma path_join_render:
  assumes "list_all plain p"
  shows "path_join (render p) s = render (norm True (rev p) (comps s))"
proof -
  have ne: "render p \<noteq> []" by (simp add: render_def)
  show ?thesis
  proof (cases "s = []")
    case True
    with ne assms show ?thesis by (simp add: path_join_def clean_render norm_plain)
  next
    case False
    have "comps (render p @ slash # s) = p @ comps s" by (simp add: comps_sep comps_render plain_named assms)
    moreover have "norm True [] (p @ comps s) = norm True (rev p) (comps s)"
      by (simp add: norm_append norm_plain assms)
    ultimately show ?thesis using ne False by (simp add: path_join_def clean_abs is_abs_append)
  qed
qed

lemma path_join_plain: "list_all plain p \<Longrightarrow> plain c \<Longrightarrow> path_join (render p) c = render (p @ [c])"
  by (simp add: path_join_render comps_word plain_def named_def)

text \<open>A clean path with a clean path and a separator in front lies below it.\<close>

lemma render_below:
  assumes c: "list_all plain c" and d: "list_all plain d" and eq: "render c = render d @ [slash] @ t"
  shows "\<exists>r. c = d @ r \<and> r \<noteq> [] \<and> t = join [slash] r"
proof -
  have cd: "c = d @ comps t"
    using arg_cong [OF eq, of comps] by (simp add: comps_render plain_named c d comps_sep)
  have "comps t \<noteq> []"
  proof
    assume "comps t = []"
    with cd eq show False by simp
  qed
  moreover have "t = join [slash] (comps t)"
  proof (cases "d = []")
    case False
    with cd \<open>comps t \<noteq> []\<close> have "render c = render d @ [slash] @ join [slash] (comps t)"
      by (subst cd) (simp add: render_def join_append)
    with eq show ?thesis by simp
  next
    case True
    then have "c \<noteq> []" using cd \<open>comps t \<noteq> []\<close> by simp
    then obtain x xs where x: "c = x # xs" by (cases c) auto
    with c have "x \<noteq> []" "slash \<notin> set x" by (auto simp: plain_def)
    moreover from eq True have "join [slash] c = slash # t" by (simp add: render_def)
    ultimately have False using x by (cases xs; cases x) auto
    then show ?thesis ..
  qed
  ultimately show ?thesis using cd by blast
qed

subsection \<open>Walking\<close>

definition is_link :: "node option \<Rightarrow> bool" where
  "is_link nd = (case nd of Some (Link _) \<Rightarrow> True | _ \<Rightarrow> False)"

definition wf_fs :: "fs \<Rightarrow> bool" where
  "wf_fs fs = (node_at fs [] = Some Dir \<and> (\<forall>p c. node_at fs (p @ [c]) \<noteq> None \<longrightarrow> node_at fs p = Some Dir))"

definition solid :: "fs \<Rightarrow> path \<Rightarrow> bool" where
  "solid fs p = (\<forall>q. prefix q p \<longrightarrow> node_at fs q = Some Dir)"

definition clear :: "fs \<Rightarrow> path \<Rightarrow> bool" where
  "clear fs p = (\<forall>q. strict_prefix q p \<longrightarrow> \<not> is_link (node_at fs q))"

lemma is_link_simps [simp]: "\<not> is_link None" "\<not> is_link (Some Dir)" "\<not> is_link (Some (File s))" "is_link (Some (Link t))"
  by (simp_all add: is_link_def)

lemma wf_below_none:
  assumes "wf_fs fs" and "node_at fs p \<noteq> Some Dir" and "q \<noteq> []"
  shows "node_at fs (p @ q) = None"
  using assms(3)
proof (induction q rule: rev_induct)
  case (snoc c q)
  show ?case
  proof (rule ccontr)
    assume "node_at fs (p @ q @ [c]) \<noteq> None"
    then have "node_at fs (p @ q) = Some Dir" using assms(1) unfolding wf_fs_def by (metis append.assoc)
    with snoc assms(2) show False by (cases "q = []") auto
  qed
qed simp

lemma walk_clear:
  assumes "list_all plain cs" and "\<And>k. 0 < k \<Longrightarrow> k \<le> length cs \<Longrightarrow> \<not> is_link (node_at fs (cur @ take k cs))"
  shows "walk fs n cur cs = Ok (cur @ cs) \<or> walk fs n cur cs = Err ENOENT \<or> walk fs n cur cs = Err ENOTDIR"
  using assms
proof (induction cs arbitrary: cur)
  case (Cons c cs)
  have c: "c \<noteq> ''.''" "c \<noteq> ''..''" using Cons.prems(1) by (auto simp: plain_def)
  have "\<not> is_link (node_at fs (cur @ [c]))" using Cons.prems(2) [of 1] by simp
  moreover have "walk fs n (cur @ [c]) cs = Ok (cur @ c # cs) \<or> walk fs n (cur @ [c]) cs = Err ENOENT \<or>
      walk fs n (cur @ [c]) cs = Err ENOTDIR"
    using Cons.IH [of "cur @ [c]"] Cons.prems(1) Cons.prems(2) [of "Suc k" for k] by simp
  ultimately show ?case using c by (auto simp: walk.simps is_link_def split: option.splits node.splits)
qed (simp add: walk.simps)

lemma walk_solid:
  assumes "list_all plain cs" and "\<And>k. k \<le> length cs \<Longrightarrow> node_at fs (cur @ take k cs) = Some Dir"
  shows "walk fs n cur cs = Ok (cur @ cs)"
  using assms
proof (induction cs arbitrary: cur)
  case (Cons c cs)
  have c: "c \<noteq> ''.''" "c \<noteq> ''..''" using Cons.prems(1) by (auto simp: plain_def)
  have "node_at fs cur = Some Dir" "node_at fs (cur @ [c]) = Some Dir"
    using Cons.prems(2) [of 0] Cons.prems(2) [of 1] by simp_all
  moreover have "walk fs n (cur @ [c]) cs = Ok (cur @ c # cs)"
    using Cons.IH [of "cur @ [c]"] Cons.prems(1) Cons.prems(2) [of "Suc k" for k] by simp
  ultimately show ?case using c by (simp add: walk.simps)
qed (simp add: walk.simps)

lemma solid_take: "solid fs p \<Longrightarrow> node_at fs (take k p) = Some Dir"
  by (simp add: solid_def take_is_prefix)

lemma locate_solid:
  assumes "list_all plain (p @ [c])" and "solid fs p"
  shows "locate fs (render (p @ [c])) = Ok (p @ [c])"
proof -
  have "walk fs max_links [] p = Ok ([] @ p)"
    using assms by (intro walk_solid) (auto simp: solid_take)
  moreover have "comps (render (p @ [c])) = p @ [c]" by (rule comps_render [OF plain_named [OF assms(1)]])
  moreover have "node_at fs p = Some Dir" using assms(2) by (simp add: solid_def)
  moreover have "c \<noteq> ''.''" "c \<noteq> ''..''" using assms(1) by (auto simp: plain_def)
  ultimately show ?thesis by (simp add: locate_def)
qed

lemma locate_clear:
  assumes "list_all plain p" and "clear fs p"
  shows "locate fs (render p) = Ok p \<and> (p = [] \<or> node_at fs (butlast p) = Some Dir) \<or>
    locate fs (render p) = Err ENOENT \<or> locate fs (render p) = Err ENOTDIR"
proof (cases p rule: rev_cases)
  case Nil
  then show ?thesis by (simp add: locate_def comps_render)
next
  case (snoc q c)
  have "strict_prefix (take k q) (q @ [c])" for k
    by (simp add: strict_prefix_def prefix_prefix take_is_prefix) (metis append_take_drop_id length_append_singleton length_take min.bounded_iff n_not_Suc_n le_refl not_less_eq_eq nat_le_linear)
  then have "\<not> is_link (node_at fs ([] @ take k q))" for k
    using assms(2) unfolding clear_def snoc by simp
  then have "walk fs max_links [] q = Ok ([] @ q) \<or> walk fs max_links [] q = Err ENOENT \<or> walk fs max_links [] q = Err ENOTDIR"
    using assms(1) snoc by (intro walk_clear) auto
  moreover have "comps (render p) = q @ [c]" using comps_render [OF plain_named [OF assms(1)]] snoc by simp
  moreover have "c \<noteq> ''.''" "c \<noteq> ''..''" using assms(1) snoc by (auto simp: plain_def)
  ultimately show ?thesis using snoc by (cases "node_at fs q = Some Dir") (auto simp: locate_def Let_def)
qed

subsection \<open>Effects\<close>

text \<open>
  An operation on a path changes the file system at that path, and may create missing directories
  on the way to it.
\<close>

definition grown :: "path \<Rightarrow> fs \<Rightarrow> fs \<Rightarrow> path \<Rightarrow> bool" where
  "grown p fs fs' q = (prefix q p \<and> node_at fs q = None \<and> node_at fs' q = Some Dir)"

definition effect :: "path \<Rightarrow> fs \<Rightarrow> fs \<Rightarrow> bool" where
  "effect p fs fs' = (wf_fs fs' \<and> (\<forall>q. q \<noteq> p \<longrightarrow> node_at fs' q = node_at fs q \<or> grown p fs fs' q))"

lemma effect_refl: "wf_fs fs \<Longrightarrow> effect p fs fs"
  by (simp add: effect_def)

lemma effect_trans: "effect p fs fs1 \<Longrightarrow> effect p fs1 fs2 \<Longrightarrow> effect p fs fs2"
  unfolding effect_def grown_def by (metis option.distinct(1))

lemma effect_clear: "effect p fs fs' \<Longrightarrow> clear fs p \<Longrightarrow> clear fs' p"
  unfolding effect_def grown_def clear_def by (metis is_link_simps(2) strict_prefix_def)

lemma effect_wf: "effect p fs fs' \<Longrightarrow> wf_fs fs'"
  by (simp add: effect_def)

lemma effect_put:
  assumes "wf_fs fs" and "p = [] \<or> node_at fs (butlast p) = Some Dir" and "node_at fs p \<noteq> Some Dir"
  shows "effect p fs (put p nd fs)"
proof -
  have ne: "p \<noteq> []" using assms(1,3) by (auto simp: wf_fs_def)
  then obtain q c where p: "p = q @ [c]" by (metis append_butlast_last_id)
  have "node_at fs (p @ [c]) = None" for c using wf_below_none [OF assms(1,3), of "[c]"] by simp
  then show ?thesis using assms(1,2) p by (auto simp: effect_def wf_fs_def grown_def)
qed

lemma effect_del:
  assumes "wf_fs fs" and "p \<noteq> []" and "\<And>c. node_at fs (p @ [c]) = None"
  shows "effect p fs (del p fs)"
  using assms by (auto simp: effect_def wf_fs_def grown_def)

lemma empty_dir_none: "empty_dir fs p \<Longrightarrow> node_at fs (p @ [c]) = None"
  by (fastforce simp: empty_dir_def node_at_def list_all_iff map_of_eq_None_iff)

lemma effect_grow_more:
  assumes "effect q fs fs'" and "prefix q p" and "node_at fs' q = node_at fs q \<or> grown q fs fs' q"
  shows "effect p fs fs' \<and> (node_at fs' p = node_at fs p \<or> grown p fs fs' p)"
proof -
  have "node_at fs' x = node_at fs x \<or> grown p fs fs' x" for x
    using assms(1,3) prefix_order.trans [OF _ assms(2), of x] by (cases "x = q") (auto simp: effect_def grown_def)
  then show ?thesis using assms(1) by (simp add: effect_def)
qed

text \<open>What an extraction keeps: the destination, and every path that is not below it.\<close>

definition kept :: "path \<Rightarrow> fs \<Rightarrow> fs \<Rightarrow> bool" where
  "kept d fs fs' = (wf_fs fs' \<and> solid fs' d \<and> (\<forall>q. \<not> prefix d q \<longrightarrow> node_at fs' q = node_at fs q))"

lemma kept_refl: "wf_fs fs \<Longrightarrow> solid fs d \<Longrightarrow> kept d fs fs"
  by (simp add: kept_def)

lemma kept_trans: "kept d fs fs1 \<Longrightarrow> kept d fs1 fs2 \<Longrightarrow> kept d fs fs2"
  by (simp add: kept_def)

lemma keptD: "kept d fs fs' \<Longrightarrow> wf_fs fs'" "kept d fs fs' \<Longrightarrow> solid fs' d"
  by (simp_all add: kept_def)

locale confined_op =
  fixes f :: "fs \<Rightarrow> string \<Rightarrow> fs"
  assumes effect: "wf_fs fs \<Longrightarrow> list_all plain p \<Longrightarrow> p \<noteq> [] \<Longrightarrow> clear fs p \<Longrightarrow> effect p fs (f fs (render p))"
begin

lemma after:
  "effect p fs fs1 \<Longrightarrow> list_all plain p \<Longrightarrow> p \<noteq> [] \<Longrightarrow> clear fs p \<Longrightarrow> effect p fs (f fs1 (render p))"
  by (blast intro: effect effect_trans effect_clear effect_wf)

lemma outside:
  assumes "wf_fs fs" and "list_all plain (d @ r)" and "r \<noteq> []" and "clear fs (d @ r)" and "solid fs d"
  shows "kept d fs (f fs (render (d @ r)))"
proof -
  have e: "effect (d @ r) fs (f fs (render (d @ r)))" using assms by (intro effect) simp_all
  have "node_at (f fs (render (d @ r))) q = node_at fs q" if "prefix q d \<or> \<not> prefix d q" for q
  proof -
    have "q \<noteq> d @ r" using that assms(3) by (auto simp: prefix_def)
    moreover have "\<not> grown (d @ r) fs (f fs (render (d @ r))) q"
    proof
      assume g: "grown (d @ r) fs (f fs (render (d @ r))) q"
      then have "prefix q d" using that prefix_same_cases [of q "d @ r" d] by (auto simp: grown_def)
      with g assms(5) show False by (simp add: grown_def solid_def)
    qed
    ultimately show ?thesis using e by (auto simp: effect_def)
  qed
  then show ?thesis using e assms(5) by (auto simp: kept_def effect_def solid_def)
qed

end

lemma wf_root: "wf_fs fs \<Longrightarrow> node_at fs [] = Some Dir"
  by (simp add: wf_fs_def)

interpretation mkdir_op: confined_op "\<lambda>fs s. snd (sys_mkdir fs s)"
proof
  fix fs p assume "wf_fs fs" "list_all plain p" "p \<noteq> []" "clear fs p"
  with locate_clear [of p fs] show "effect p fs (snd (sys_mkdir fs (render p)))"
    by (auto simp: sys_mkdir_def effect_refl intro!: effect_put)
qed

interpretation symlink_op: confined_op "\<lambda>fs s. snd (sys_symlink fs target s)"
proof
  fix fs p assume "wf_fs fs" "list_all plain p" "p \<noteq> []" "clear fs p"
  with locate_clear [of p fs] show "effect p fs (snd (sys_symlink fs target (render p)))"
    by (auto simp: sys_symlink_def effect_refl intro!: effect_put)
qed

lemma not_dir_no_children: "wf_fs fs \<Longrightarrow> node_at fs p \<noteq> Some Dir \<Longrightarrow> node_at fs (p @ [c]) = None"
  by (rule wf_below_none) simp_all

interpretation remove_op: confined_op "\<lambda>fs s. snd (sys_remove fs s)"
proof
  fix fs p assume a: "wf_fs fs" "list_all plain p" "p \<noteq> []" "clear fs p"
  have plain_file: "effect p fs (del p fs)" if "node_at fs p \<noteq> Some Dir"
    using a(1,3) not_dir_no_children [OF a(1) that] by (rule effect_del)
  have no_entries: "effect p fs (del p fs)" if "empty_dir fs p"
    using a(1,3) empty_dir_none [OF that] by (rule effect_del)
  from a locate_clear [of p fs] show "effect p fs (snd (sys_remove fs (render p)))"
    by (auto simp: sys_remove_def effect_refl plain_file no_entries split: option.split node.split)
qed

interpretation create_op: confined_op "\<lambda>fs s. snd (sys_create fs s)"
proof
  fix fs p assume "wf_fs fs" "list_all plain p" "p \<noteq> []" "clear fs p"
  with locate_clear [of p fs] show "effect p fs (snd (sys_create fs (render p)))"
    by (auto simp: sys_create_def effect_refl intro!: effect_put split: option.split node.split)
qed

text \<open>Making directories only adds them.\<close>

definition grows :: "path \<Rightarrow> fs \<Rightarrow> fs \<Rightarrow> bool" where
  "grows p fs fs' = (wf_fs fs' \<and> (\<forall>q. node_at fs' q = node_at fs q \<or> grown p fs fs' q))"

lemma grows_refl: "wf_fs fs \<Longrightarrow> grows p fs fs"
  by (simp add: grows_def)

lemma grows_trans: "grows p fs fs1 \<Longrightarrow> grows p fs1 fs2 \<Longrightarrow> grows p fs fs2"
  unfolding grows_def grown_def by (metis option.distinct(1))

lemma grows_effect: "grows p fs fs' \<Longrightarrow> effect p fs fs'"
  by (simp add: grows_def effect_def)

lemma grows_prefix: "grows q fs fs' \<Longrightarrow> prefix q p \<Longrightarrow> grows p fs fs'"
  unfolding grows_def grown_def using prefix_order.trans by metis

lemma clear_prefix: "clear fs p \<Longrightarrow> prefix q p \<Longrightarrow> clear fs q"
  unfolding clear_def by (metis prefix_order.less_le_trans)

lemma sys_mkdir_grows:
  assumes "wf_fs fs" "list_all plain p" "p \<noteq> []" "clear fs p"
  shows "grows p fs (snd (sys_mkdir fs (render p)))"
proof -
  have "effect p fs (snd (sys_mkdir fs (render p)))" by (rule mkdir_op.effect [OF assms])
  moreover have "node_at (snd (sys_mkdir fs (render p))) p = node_at fs p \<or> grown p fs (snd (sys_mkdir fs (render p))) p"
    using locate_clear [OF assms(2,4)] by (cases "node_at fs p = None") (auto simp: sys_mkdir_def grown_def)
  ultimately show ?thesis by (auto simp: grows_def effect_def)
qed

lemma mkdir_all_rev_grows:
  "wf_fs fs \<Longrightarrow> list_all plain (rev cs) \<Longrightarrow> clear fs (rev cs) \<Longrightarrow> grows (rev cs) fs (snd (mkdir_all_rev fs cs))"
proof (induction cs)
  case Nil
  then show ?case by (simp add: grows_refl)
next
  case (Cons c cs)
  let ?p = "rev cs @ [c]"
  have sub: "prefix (rev cs) ?p" by simp
  obtain e fs1 where m: "mkdir_all_rev fs cs = (e, fs1)" by (cases "mkdir_all_rev fs cs")
  have "grows (rev cs) fs fs1"
    using Cons.IH clear_prefix [OF Cons.prems(3)] Cons.prems(1,2) m by simp
  then have g: "grows ?p fs fs1" by (rule grows_prefix [OF _ sub])
  then have fs1: "wf_fs fs1" "clear fs1 ?p"
    using Cons.prems(3) effect_clear [OF grows_effect] by (auto simp: grows_def)
  obtain e2 fs2 where k: "sys_mkdir fs1 (render ?p) = (e2, fs2)" by (cases "sys_mkdir fs1 (render ?p)")
  have "grows ?p fs1 fs2" using sys_mkdir_grows [OF fs1(1) _ _ fs1(2)] Cons.prems(2) k by simp
  with g have g2: "grows ?p fs fs2" by (rule grows_trans)
  have "snd (mkdir_all_rev fs (c # cs)) \<in> {fs, fs1, fs2}"
    using m k by (auto simp: Let_def split: sum.split node.split option.split)
  with g g2 grows_refl [OF Cons.prems(1)] show ?case by auto
qed

lemma mkdir_all_grows:
  "wf_fs fs \<Longrightarrow> list_all plain p \<Longrightarrow> clear fs p \<Longrightarrow> grows p fs (snd (mkdir_all fs (render p)))"
  using mkdir_all_rev_grows [of fs "rev p"] by (simp add: mkdir_all_def comps_render plain_named)

interpretation mkdir_all_op: confined_op "\<lambda>fs s. snd (mkdir_all fs s)"
  by unfold_locales (auto intro: grows_effect mkdir_all_grows)

lemma dropWhile_slash: "slash \<notin> set c \<Longrightarrow> dropWhile (\<lambda>x. x \<noteq> slash) (rev c @ slash # s) = slash # s"
  by (subst dropWhile_append2) auto

lemma render_snoc: "render (q @ [c]) = (if q = [] then [] else render q) @ slash # c"
  by (cases "q = []") (simp_all add: render_def join_append)

lemma path_dir_render:
  assumes "list_all plain (q @ [c])"
  shows "path_dir (render (q @ [c])) = render q"
proof -
  define x where "x = (if q = [] then [] else render q)"
  have "path_dir (render (q @ [c])) = clean (x @ [slash])"
    using assms by (simp add: path_dir_def render_snoc x_def plain_def dropWhile_slash)
  moreover have "is_abs (x @ [slash])" by (auto simp: x_def is_abs_def render_def)
  moreover have "comps (x @ [slash]) = q"
    using assms comps_render [OF plain_named, of q] comps_sep [of x "[]"] by (auto simp: x_def)
  ultimately show ?thesis using assms norm_plain [of q] by (simp add: clean_abs)
qed

interpretation parents_op: confined_op "\<lambda>fs s. snd (MkdirParents fs s)"
proof
  fix fs p assume a: "wf_fs fs" "list_all plain p" "p \<noteq> []" "clear fs p"
  then obtain q c where p: "p = q @ [c]" by (metis append_butlast_last_id)
  with a clear_prefix [OF a(4), of q] have "grows q fs (snd (mkdir_all fs (render q)))"
    by (intro mkdir_all_grows) simp_all
  then have "grows p fs (snd (mkdir_all fs (render q)))" by (rule grows_prefix) (simp add: p)
  then show "effect p fs (snd (MkdirParents fs (render p)))"
    using a(2) by (simp add: MkdirParents_def p path_dir_render grows_effect)
qed

interpretation replace_op: confined_op "\<lambda>fs s. snd (replaceSymlink fs s)"
proof
  fix fs p assume "wf_fs fs" "list_all plain p" "p \<noteq> []" "clear fs p"
  then show "effect p fs (snd (replaceSymlink fs (render p)))"
    using remove_op.effect [of fs p] by (auto simp: replaceSymlink_def effect_refl split: sum.split node.split)
qed

subsection \<open>The operations of an extraction\<close>

interpretation safe_mkdir_op: confined_op "\<lambda>fs s. snd (safe_Mkdir fs s)"
proof
  fix fs p assume a: "wf_fs fs" "list_all plain p" "p \<noteq> []" "clear fs p"
  obtain e fs1 where r: "replaceSymlink fs (render p) = (e, fs1)" by (cases "replaceSymlink fs (render p)")
  then have e1: "effect p fs fs1" using replace_op.effect [OF a] by simp
  then show "effect p fs (snd (safe_Mkdir fs (render p)))"
    using mkdir_all_op.after [OF e1 a(2-4)] r by (cases e) (simp_all add: safe_Mkdir_def)
qed

interpretation safe_create_op: confined_op "\<lambda>fs s. snd (safe_Create fs s)"
proof
  fix fs p assume a: "wf_fs fs" "list_all plain p" "p \<noteq> []" "clear fs p"
  obtain e fs1 where r: "replaceSymlink fs (render p) = (e, fs1)" by (cases "replaceSymlink fs (render p)")
  then have e1: "effect p fs fs1" using replace_op.effect [OF a] by simp
  then show "effect p fs (snd (safe_Create fs (render p)))"
    using create_op.after [OF e1 a(2-4)] r by (cases e) (simp_all add: safe_Create_def)
qed

interpretation safe_symlink_op: confined_op "\<lambda>fs s. snd (safe_Symlink fs target s)"
proof
  fix fs p assume a: "wf_fs fs" "list_all plain p" "p \<noteq> []" "clear fs p"
  obtain e fs1 where r: "sys_remove fs (render p) = (e, fs1)" by (cases "sys_remove fs (render p)")
  then have e1: "effect p fs fs1" using remove_op.effect [OF a] by simp
  then show "effect p fs (snd (safe_Symlink fs target (render p)))"
    using symlink_op.after [OF e1 a(2-4)] r by (cases e) (simp_all add: safe_Symlink_def)
qed

text \<open>The descriptor of a created file is its path, and there is a regular file now.\<close>

lemma created_at:
  assumes "list_all plain p" and "clear fs p" and "sys_create fs (render p) = (Ok fd, fs1)"
  shows "fd = p \<and> node_at fs1 p = Some (File [])"
  using locate_clear [OF assms(1,2)] assms(3) by (auto simp: sys_create_def split: option.splits node.splits)

lemma safe_created_at:
  assumes a: "wf_fs fs" "list_all plain p" "p \<noteq> []" "clear fs p" and c: "safe_Create fs (render p) = (Ok fd, fs2)"
  shows "fd = p \<and> node_at fs2 p = Some (File [])"
proof -
  obtain e fs1 where r: "replaceSymlink fs (render p) = (e, fs1)" by (cases "replaceSymlink fs (render p)")
  then have "clear fs1 p" using replace_op.effect [OF a] effect_clear a(4) by fastforce
  with c r show ?thesis using created_at [OF a(2)] by (cases e) (auto simp: safe_Create_def)
qed

lemma write_content:
  assumes a: "wf_fs fs" "list_all plain p" "p \<noteq> []" "clear fs p" and c: "safe_Create fs (render p) = (Ok fd, fs1)"
  shows "effect p fs (put fd (File content) fs1)"
proof -
  have e: "effect p fs fs1" using safe_create_op.effect [OF a] c by simp
  have at: "fd = p" "node_at fs1 p = Some (File [])" using safe_created_at [OF a c] by simp_all
  obtain q x where p: "p = q @ [x]" using a(3) by (metis append_butlast_last_id)
  have "node_at fs1 (butlast p) = Some Dir" using effect_wf [OF e] at(2) unfolding wf_fs_def p by fastforce
  then have "effect p fs1 (put p (File content) fs1)" using effect_wf [OF e] at(2) by (intro effect_put) simp_all
  with e at(1) show ?thesis by (auto intro: effect_trans)
qed

interpretation regular_op: confined_op "\<lambda>fs s. snd (snd (extract_regular fs s b e))"
proof
  fix fs p assume a: "wf_fs fs" "list_all plain p" "p \<noteq> []" "clear fs p"
  obtain c fs1 where c: "safe_Create fs (render p) = (c, fs1)" by (cases "safe_Create fs (render p)")
  then have e1: "effect p fs fs1" using safe_create_op.effect [OF a] by simp
  show "effect p fs (snd (snd (extract_regular fs (render p) b e)))"
  proof (cases c)
    case (Inl err)
    with c e1 show ?thesis by (simp add: extract_regular_def)
  next
    case (Inr fd)
    obtain content err b1 where k: "copy_content b e = (content, err, b1)" by (metis prod_cases3)
    have e2: "effect p fs (put fd (File content) fs1)" using write_content [OF a] c Inr by simp
    with c Inr k remove_op.after [OF e2 a(2-4)] show ?thesis
      by (cases err) (simp_all add: extract_regular_def)
  qed
qed

interpretation restore_regular_op: confined_op "\<lambda>fs s. snd (snd (restore_regular fs s e))"
proof
  fix fs p assume a: "wf_fs fs" "list_all plain p" "p \<noteq> []" "clear fs p"
  obtain m fs1 where m: "MkdirParents fs (render p) = (m, fs1)" by (cases "MkdirParents fs (render p)")
  then have e1: "effect p fs fs1" using parents_op.effect [OF a] by simp
  obtain c fs2 where c: "safe_Create fs1 (render p) = (c, fs2)" by (cases "safe_Create fs1 (render p)")
  have e2: "effect p fs fs2" using safe_create_op.after [OF e1 a(2-4)] c by simp
  have e3: "effect p fs (put fd (File (ae_Content e)) fs2)" if "c = Ok fd" for fd
    using effect_trans [OF e1] write_content [OF effect_wf [OF e1] a(2,3) effect_clear [OF e1 a(4)]] c that by blast
  show "effect p fs (snd (snd (restore_regular fs (render p) e)))"
    using m c e1 e2 e3 by (auto simp: restore_regular_def split: option.split sum.split)
qed

text \<open>One entry of a zip archive, of a tar archive and of a backup.\<close>

interpretation zip_op: confined_op "\<lambda>fs s. snd (snd (zip_entry fs s b e))"
proof
  fix fs p assume a: "wf_fs fs" "list_all plain p" "p \<noteq> []" "clear fs p"
  obtain x fs1 where m: "safe_Mkdir fs (render p) = (x, fs1)" by (cases "safe_Mkdir fs (render p)")
  obtain y fs2 where k: "MkdirParents fs (render p) = (y, fs2)" by (cases "MkdirParents fs (render p)")
  have "effect p fs fs1" using safe_mkdir_op.effect [OF a] m by simp
  moreover have e2: "effect p fs fs2" using parents_op.effect [OF a] k by simp
  moreover have "effect p fs (snd (snd (extract_regular fs2 (render p) b e)))" by (rule regular_op.after [OF e2 a(2-4)])
  ultimately show "effect p fs (snd (snd (zip_entry fs (render p) b e)))"
    using m k by (auto simp: zip_entry_def split: option.split)
qed

interpretation tar_op: confined_op "\<lambda>fs s. snd (snd (tar_entry fs dest s b e))"
proof
  fix fs p assume a: "wf_fs fs" "list_all plain p" "p \<noteq> []" "clear fs p"
  obtain x fs1 where m: "safe_Mkdir fs (render p) = (x, fs1)" by (cases "safe_Mkdir fs (render p)")
  obtain y fs2 where k: "MkdirParents fs (render p) = (y, fs2)" by (cases "MkdirParents fs (render p)")
  obtain z fs3 where l: "safe_Symlink fs (ae_Linkname e) (render p) = (z, fs3)"
    by (cases "safe_Symlink fs (ae_Linkname e) (render p)")
  have "effect p fs fs1" using safe_mkdir_op.effect [OF a] m by simp
  moreover have e2: "effect p fs fs2" using parents_op.effect [OF a] k by simp
  moreover have "effect p fs (snd (snd (extract_regular fs2 (render p) b e)))" by (rule regular_op.after [OF e2 a(2-4)])
  moreover have "effect p fs fs3" using safe_symlink_op.effect [OF a, of "ae_Linkname e"] l by simp
  ultimately show "effect p fs (snd (snd (tar_entry fs dest (render p) b e)))"
    using m k l by (auto simp: tar_entry_def effect_refl a(1) split: option.split typeflag.split sum.split)
qed

interpretation restore_op: confined_op "\<lambda>fs s. snd (snd (restore_entry fs dest s e r))"
proof
  fix fs p assume a: "wf_fs fs" "list_all plain p" "p \<noteq> []" "clear fs p"
  obtain x fs1 where m: "safe_Mkdir fs (render p) = (x, fs1)" by (cases "safe_Mkdir fs (render p)")
  obtain y n fs2 where k: "restore_regular fs (render p) e = (y, n, fs2)" by (metis prod_cases3)
  obtain z fs3 where l: "safe_Symlink fs (ae_Linkname e) (render p) = (z, fs3)"
    by (cases "safe_Symlink fs (ae_Linkname e) (render p)")
  have "effect p fs fs1" using safe_mkdir_op.effect [OF a] m by simp
  moreover have "effect p fs fs2" using restore_regular_op.effect [OF a, of e] k by simp
  moreover have "effect p fs fs3" using safe_symlink_op.effect [OF a, of "ae_Linkname e"] l by simp
  ultimately show "effect p fs (snd (snd (restore_entry fs dest (render p) e r)))"
    using m k l by (auto simp: restore_entry_def effect_refl a(1) Let_def split: option.split typeflag.split sum.split)
qed

subsection \<open>Accepted names\<close>

lemma exists_solid:
  assumes "wf_fs fs" and "node_at fs (p @ [c]) \<noteq> None"
  shows "solid fs p"
  unfolding solid_def
proof (intro allI impI)
  fix q assume "prefix q p"
  then obtain r where "p = q @ r" by (auto simp: prefix_def)
  then have "node_at fs (q @ r @ [c]) \<noteq> None" using assms(2) by simp
  then show "node_at fs q = Some Dir" by (rule contrapos_np) (simp add: wf_below_none [OF assms(1)])
qed

lemma lstat_clear:
  assumes "wf_fs fs" and "list_all plain (p @ [c])" and "clear fs (p @ [c])"
  shows "(\<forall>nd. lstat fs (render (p @ [c])) = Ok nd \<longrightarrow> node_at fs (p @ [c]) = Some nd) \<and>
    (lstat fs (render (p @ [c])) = Err ENOENT \<longrightarrow> node_at fs (p @ [c]) = None)"
proof (cases "node_at fs (p @ [c]) = None")
  case True
  then show ?thesis using locate_clear [OF assms(2,3)] by (auto simp: lstat_def)
next
  case False
  with assms(1,2) have "locate fs (render (p @ [c])) = Ok (p @ [c])" by (intro locate_solid exists_solid)
  with False show ?thesis by (auto simp: lstat_def split: option.splits)
qed

lemma clear_snoc: "clear fs (p @ [c]) \<longleftrightarrow> clear fs p \<and> \<not> is_link (node_at fs p)"
proof -
  have "strict_prefix q (p @ [c]) \<longleftrightarrow> q = p \<or> strict_prefix q p" for q
    by (auto simp: strict_prefix_def prefix_snoc dest: prefix_length_le)
  then show ?thesis by (auto simp: clear_def)
qed

lemma clear_below_none:
  assumes "wf_fs fs" and "clear fs p" and "node_at fs p = None"
  shows "clear fs (p @ q) \<and> \<not> is_link (node_at fs (p @ q))"
proof (induction q rule: rev_induct)
  case (snoc c q)
  then have "clear fs (p @ q @ [c])" using clear_snoc [of fs "p @ q" c] by simp
  moreover have "node_at fs (p @ q @ [c]) = None" using assms by (intro wf_below_none) simp_all
  ultimately show ?case by simp
qed (use assms in simp)

lemma check_parents_clear:
  assumes "wf_fs fs"
  shows "list_all plain (p @ parts) \<Longrightarrow> clear fs p \<Longrightarrow> \<not> is_link (node_at fs p) \<Longrightarrow>
    check_parents fs name (render p) parts = Ok () \<Longrightarrow> clear fs (p @ parts) \<and> \<not> is_link (node_at fs (p @ parts))"
proof (induction parts arbitrary: p)
  case (Cons part parts)
  have pl: "list_all plain (p @ [part])" using Cons.prems(1) by simp
  have c: "clear fs (p @ [part])" using Cons.prems(2,3) by (simp add: clear_snoc)
  have j: "path_join (render p) part = render (p @ [part])" using pl by (simp add: path_join_plain)
  note at = lstat_clear [OF assms pl c]
  show ?case
  proof (cases "lstat fs (render (p @ [part]))")
    case (Inl err)
    with Cons.prems(4) j have "err = ENOENT" by (auto split: if_splits)
    with Inl at have "node_at fs (p @ [part]) = None" by simp
    then show ?thesis using clear_below_none [OF assms c, of parts] by simp
  next
    case (Inr nd)
    then have nd: "node_at fs (p @ [part]) = Some nd" using at by simp
    with Inr Cons.prems(4) j have "\<not> is_link (node_at fs (p @ [part])) \<and> check_parents fs name (render (p @ [part])) parts = Ok ()"
      by (cases nd) auto
    then show ?thesis using Cons.IH [of "p @ [part]"] Cons.prems(1) c by simp
  qed
qed simp

text \<open>
  A name that \<open>Join\<close> accepts denotes the destination or, without a link on the way, a path below it.
\<close>

lemma Join_clear:
  assumes wf: "wf_fs fs" and dest: "is_abs dest0" "solid fs (dest_path dest0)" and j: "Join fs dest0 name = Ok s"
  shows "\<exists>r. s = render (dest_path dest0 @ r) \<and> list_all plain (dest_path dest0 @ r) \<and> clear fs (dest_path dest0 @ r)"
proof -
  define d where "d = dest_path dest0"
  define c where "c = norm True (rev d) (comps name)"
  have pd: "list_all plain d" by (simp add: d_def plain_dest_path)
  have pc: "list_all plain c" using pd by (simp add: c_def norm_is_plain comps_named)
  have dest0: "clean dest0 = render d" using dest(1) by (simp add: clean_abs d_def dest_path_def)
  have cl: "clean (path_join (render d) name) = render c" using pd pc by (simp add: path_join_render c_def clean_render)
  have solid: "clear fs d" "\<not> is_link (node_at fs d)"
    using dest(2) by (auto simp: solid_def clear_def d_def strict_prefix_def)
  show ?thesis
  proof (cases "c = d")
    case True
    with j dest0 cl have "s = render d" by (simp add: Join_def Let_def path_rel_def)
    with pd solid show ?thesis by (intro exI [of _ "[]"]) (simp add: d_def)
  next
    case False
    then have ne: "render c \<noteq> render d" using render_inject [OF pc pd] by simp
    with j dest0 cl have pre: "has_prefix (render c) (render d @ [slash])"
      by (simp add: Join_def Let_def split: if_splits)
    then obtain t where t: "render c = render d @ [slash] @ t" by (metis append_take_drop_id append.assoc has_prefix_def)
    then obtain r where r: "c = d @ r" "r \<noteq> []" "t = join [slash] r" using render_below [OF pc pd] by blast
    have rel: "path_rel (render d) (render c) = Some t" using ne pre t by (simp add: path_rel_def)
    have sp: "split_on slash t = r" using pc r by (simp add: split_on_join plain_named)
    have "t \<noteq> ''.''"
    proof
      assume "t = ''.''"
      then have "r = [''.'']" using sp by (simp add: slash_def)
      with pc r(1) show False by (simp add: plain_def)
    qed
    with j dest0 cl rel sp pre ne have chk: "check_parents fs name (render d) (butlast r) = Ok ()" and s: "s = render c"
      by (auto simp: Join_def Let_def bindr_def split: if_splits sum.splits)
    obtain r' x where r': "r = r' @ [x]" using r(2) by (metis append_butlast_last_id)
    have "clear fs (d @ r') \<and> \<not> is_link (node_at fs (d @ r'))"
      using check_parents_clear [OF wf _ solid, of r' name] chk pc r(1) r' by simp
    then have "clear fs (d @ r)" using clear_snoc [of fs "d @ r'" x] r' by simp
    with s pc r(1) show ?thesis by (auto simp: d_def)
  qed
qed

subsection \<open>The destination itself\<close>

lemma locate_dest: "list_all plain d \<Longrightarrow> solid fs d \<Longrightarrow> locate fs (render d) = Ok d"
proof (cases d rule: rev_cases)
  case (snoc p c)
  then show "list_all plain d \<Longrightarrow> solid fs d \<Longrightarrow> locate fs (render d) = Ok d"
    by (auto intro!: locate_solid simp: solid_def)
qed (simp add: locate_def comps_render)

lemma at_solid: "solid fs d \<Longrightarrow> node_at fs d = Some Dir"
  by (simp add: solid_def)

lemma lstat_dest: "list_all plain d \<Longrightarrow> solid fs d \<Longrightarrow> lstat fs (render d) = Ok Dir"
  by (simp add: lstat_def locate_dest at_solid)

lemma stat_dest: "list_all plain d \<Longrightarrow> solid fs d \<Longrightarrow> stat fs (render d) = Ok Dir"
  using walk_solid [of d fs "[]" max_links] by (simp add: stat_def comps_render plain_named solid_take at_solid)

lemma replace_dest: "list_all plain d \<Longrightarrow> solid fs d \<Longrightarrow> replaceSymlink fs (render d) = (None, fs)"
  by (simp add: replaceSymlink_def lstat_dest)

lemma mkdir_all_dest: "list_all plain d \<Longrightarrow> solid fs d \<Longrightarrow> mkdir_all fs (render d) = (None, fs)"
proof (cases d rule: rev_cases)
  case (snoc p c)
  then show "list_all plain d \<Longrightarrow> solid fs d \<Longrightarrow> mkdir_all fs (render d) = (None, fs)"
    using stat_dest [of d fs] by (simp add: mkdir_all_def comps_render_plain)
qed (simp add: mkdir_all_def comps_render)

lemma safe_Mkdir_dest: "list_all plain d \<Longrightarrow> solid fs d \<Longrightarrow> safe_Mkdir fs (render d) = (None, fs)"
  by (simp add: safe_Mkdir_def replace_dest mkdir_all_dest)

lemma path_dir_root: "path_dir (render []) = render []"
  by (simp add: path_dir_def render_def clean_abs is_abs_def comps_def slash_def)

lemma solid_prefix: "solid fs d \<Longrightarrow> prefix p d \<Longrightarrow> solid fs p"
  unfolding solid_def using prefix_order.trans by blast

lemma MkdirParents_dest: "list_all plain d \<Longrightarrow> solid fs d \<Longrightarrow> MkdirParents fs (render d) = (None, fs)"
proof (cases d rule: rev_cases)
  case (snoc p c)
  then show "list_all plain d \<Longrightarrow> solid fs d \<Longrightarrow> MkdirParents fs (render d) = (None, fs)"
    using solid_prefix [of fs d p] by (simp add: MkdirParents_def path_dir_render mkdir_all_dest)
qed (simp add: MkdirParents_def path_dir_root mkdir_all_dest)

lemma safe_Create_dest: "list_all plain d \<Longrightarrow> solid fs d \<Longrightarrow> safe_Create fs (render d) = (Err EISDIR, fs)"
  by (simp add: safe_Create_def replace_dest sys_create_def locate_dest at_solid)

lemma entry_on_dest:
  assumes "list_all plain d" and "solid fs d"
  shows "snd (snd (zip_entry fs (render d) b e)) = fs"
    and "ae_Typeflag e \<noteq> TypeSymlink \<Longrightarrow> snd (snd (tar_entry fs dest (render d) b e)) = fs"
    and "ae_Typeflag e \<noteq> TypeSymlink \<Longrightarrow> snd (snd (restore_entry fs dest (render d) e r)) = fs"
  by (auto simp: zip_entry_def tar_entry_def restore_entry_def restore_regular_def extract_regular_def Let_def
      safe_Mkdir_dest [OF assms] MkdirParents_dest [OF assms] safe_Create_dest [OF assms]
      split: typeflag.splits option.split)

subsection \<open>One accepted entry\<close>

context confined_op
begin

lemma joined:
  assumes "wf_fs fs" and "is_abs dest" and "solid fs (dest_path dest)" and "Join fs dest name = Ok s"
    and "s = render (dest_path dest) \<Longrightarrow> f fs s = fs"
  shows "kept (dest_path dest) fs (f fs s)"
proof -
  obtain r where r: "s = render (dest_path dest @ r)" "list_all plain (dest_path dest @ r)" "clear fs (dest_path dest @ r)"
    using Join_clear [OF assms(1-4)] by blast
  show ?thesis
  proof (cases "r = []")
    case True
    then show ?thesis using assms(1,3,5) r(1) by (simp add: kept_refl)
  next
    case False
    then show ?thesis using outside [OF assms(1) r(2) _ r(3) assms(3)] r(1) by simp
  qed
qed

end

end
