(* ===== verification/Archive_Budget.thy ===== *)
theory Archive_Budget
  imports Archive_Extract
begin

text \<open>
  What an extraction can add to the disk. \<open>disk_bytes\<close> is the length of all regular files; an
  operation without content never increases it, and the copies increase it by what the budget
  counts.
\<close>

definition node_bytes :: "node \<Rightarrow> int" where
  "node_bytes nd = (case nd of File content \<Rightarrow> int (length content) | _ \<Rightarrow> 0)"

definition disk_bytes :: "fs \<Rightarrow> int" where
  "disk_bytes fs = sum_list (map (\<lambda>e. node_bytes (snd e)) fs)"

lemma node_bytes_simps [simp]:
  "node_bytes Dir = 0" "node_bytes (Link t) = 0" "node_bytes (File c) = int (length c)"
  by (simp_all add: node_bytes_def)

lemma node_bytes_pos: "0 \<le> node_bytes nd"
  by (cases nd) simp_all

lemma disk_bytes_del: "disk_bytes (del p fs) \<le> disk_bytes fs"
  by (induction fs) (auto simp: disk_bytes_def del_def node_bytes_pos intro: add_mono order.trans)

lemma disk_bytes_put: "disk_bytes (put p nd fs) \<le> disk_bytes fs + node_bytes nd"
  using disk_bytes_del [of p fs] by (simp add: put_def disk_bytes_def)

locale frugal_op =
  fixes f :: "fs \<Rightarrow> string \<Rightarrow> fs"
  assumes frugal: "disk_bytes (f fs s) \<le> disk_bytes fs"
begin

lemma then_frugal: "disk_bytes fs1 \<le> n \<Longrightarrow> disk_bytes (f fs1 s) \<le> n"
  using frugal order.trans by blast

end

lemmas put_frugal = disk_bytes_put [of _ Dir, simplified] disk_bytes_put [of _ "Link t" for t, simplified]
  disk_bytes_put [of _ "File []", simplified]

interpretation mkdir_frugal: frugal_op "\<lambda>fs s. snd (sys_mkdir fs s)"
  by unfold_locales (auto simp: sys_mkdir_def put_frugal split: sum.split)

interpretation symlink_frugal: frugal_op "\<lambda>fs s. snd (sys_symlink fs target s)"
  by unfold_locales (auto simp: sys_symlink_def put_frugal split: sum.split)

interpretation remove_frugal: frugal_op "\<lambda>fs s. snd (sys_remove fs s)"
  by unfold_locales (auto simp: sys_remove_def disk_bytes_del split: sum.split option.split node.split)

interpretation create_frugal: frugal_op "\<lambda>fs s. snd (sys_create fs s)"
  by unfold_locales (auto simp: sys_create_def put_frugal split: sum.split option.split node.split)

interpretation mkdir_all_frugal: frugal_op "\<lambda>fs s. snd (mkdir_all fs s)"
proof
  fix fs s
  have "disk_bytes (snd (mkdir_all_rev fs cs)) \<le> disk_bytes fs" for cs
  proof (induction cs)
    case (Cons c cs)
    obtain e fs1 where m: "mkdir_all_rev fs cs = (e, fs1)" by (cases "mkdir_all_rev fs cs")
    obtain e2 fs2 where k: "sys_mkdir fs1 (render (rev cs @ [c])) = (e2, fs2)"
      by (cases "sys_mkdir fs1 (render (rev cs @ [c]))")
    have "snd (mkdir_all_rev fs (c # cs)) \<in> {fs, fs1, fs2}"
      using m k by (auto simp: Let_def split: sum.split node.split option.split)
    then show ?case using Cons m k mkdir_frugal.then_frugal [of fs1 "disk_bytes fs" "render (rev cs @ [c])"] by auto
  qed simp
  then show "disk_bytes (snd (mkdir_all fs s)) \<le> disk_bytes fs" by (simp add: mkdir_all_def)
qed

interpretation parents_frugal: frugal_op "\<lambda>fs s. snd (MkdirParents fs s)"
  by unfold_locales (simp add: MkdirParents_def mkdir_all_frugal.frugal)

interpretation replace_frugal: frugal_op "\<lambda>fs s. snd (replaceSymlink fs s)"
  by unfold_locales (auto simp: replaceSymlink_def remove_frugal.frugal split: sum.split node.split)

interpretation safe_mkdir_frugal: frugal_op "\<lambda>fs s. snd (safe_Mkdir fs s)"
proof
  fix fs s
  show "disk_bytes (snd (safe_Mkdir fs s)) \<le> disk_bytes fs"
    using replace_frugal.frugal [of fs s] mkdir_all_frugal.then_frugal [of "snd (replaceSymlink fs s)"]
    by (auto simp: safe_Mkdir_def split: prod.split option.split)
qed

interpretation safe_create_frugal: frugal_op "\<lambda>fs s. snd (safe_Create fs s)"
proof
  fix fs s
  show "disk_bytes (snd (safe_Create fs s)) \<le> disk_bytes fs"
    using replace_frugal.frugal [of fs s] create_frugal.then_frugal [of "snd (replaceSymlink fs s)"]
    by (auto simp: safe_Create_def split: prod.split option.split)
qed

interpretation safe_symlink_frugal: frugal_op "\<lambda>fs s. snd (safe_Symlink fs target s)"
proof
  fix fs s
  show "disk_bytes (snd (safe_Symlink fs target s)) \<le> disk_bytes fs"
    using remove_frugal.frugal [of fs s] symlink_frugal.then_frugal [of "snd (sys_remove fs s)"]
    by (auto simp: safe_Symlink_def split: prod.split option.split)
qed

subsection \<open>The budget\<close>

definition spends :: "budget \<Rightarrow> fs \<Rightarrow> budget \<Rightarrow> fs \<Rightarrow> bool" where
  "spends b fs b1 fs1 =
     (bg_maxBytes b1 = bg_maxBytes b \<and> bg_maxEntries b1 = bg_maxEntries b \<and>
      (bg_written b \<le> bg_maxBytes b \<longrightarrow> bg_written b1 \<le> bg_maxBytes b) \<and>
      disk_bytes fs1 + bg_written b \<le> disk_bytes fs + bg_written b1)"

lemma spends_nothing: "disk_bytes fs1 \<le> disk_bytes fs \<Longrightarrow> spends b fs b fs1"
  by (simp add: spends_def)

lemma spends_trans: "spends b fs b1 fs1 \<Longrightarrow> spends b1 fs1 b2 fs2 \<Longrightarrow> spends b fs b2 fs2"
  by (simp add: spends_def)

lemma nextEntry_Some:
  "nextEntry b = Some b1 \<Longrightarrow> bg_entries b1 = bg_entries b + 1 \<and> bg_entries b1 \<le> bg_maxEntries b \<and> spends b fs b1 fs"
  by (auto simp: nextEntry_def spends_def split: if_splits)

lemma copy_content_spends:
  assumes "copy_content b e = (content, err, b1)"
  shows "spends b fs b1 (put p (File content) fs)" and "bg_entries b1 = bg_entries b"
proof -
  have "bg_maxBytes b1 = bg_maxBytes b \<and> bg_maxEntries b1 = bg_maxEntries b \<and> bg_entries b1 = bg_entries b \<and>
      bg_written b1 = bg_written b + int (length content) \<and>
      (bg_written b \<le> bg_maxBytes b \<longrightarrow> bg_written b1 \<le> bg_maxBytes b)"
    using assms by (auto simp: copy_content_def Let_def split: if_splits)
  then show "spends b fs b1 (put p (File content) fs)" and "bg_entries b1 = bg_entries b"
    using disk_bytes_put [of p "File content" fs] by (auto simp: spends_def)
qed

lemma regular_spends:
  assumes "extract_regular fs s b e = (err, b1, fs1)"
  shows "spends b fs b1 fs1 \<and> bg_entries b1 = bg_entries b"
proof -
  obtain c fs2 where c: "safe_Create fs s = (c, fs2)" by (cases "safe_Create fs s")
  have f: "disk_bytes fs2 \<le> disk_bytes fs" using safe_create_frugal.frugal [of fs s] c by simp
  obtain content x b2 where k: "copy_content b e = (content, x, b2)" by (metis prod_cases3)
  show ?thesis
  proof (cases c)
    case (Inl y)
    with assms c f show ?thesis by (auto simp: extract_regular_def intro: spends_nothing)
  next
    case (Inr fd)
    have "spends b fs b2 (put fd (File content) fs2)"
      by (rule spends_trans [OF spends_nothing [OF f] copy_content_spends(1) [OF k]])
    then have "spends b fs b2 (put fd (File content) fs2) \<and> spends b fs b2 (snd (sys_remove (put fd (File content) fs2) s))"
      by (blast intro: spends_trans spends_nothing remove_frugal.frugal)
    with assms c k Inr copy_content_spends(2) [OF k] show ?thesis
      by (auto simp: extract_regular_def Let_def split: option.splits)
  qed
qed

lemma after_parents:
  assumes "MkdirParents fs s = (x, fs1)" and "spends b fs1 b1 fs2"
  shows "spends b fs b1 fs2"
proof -
  have "disk_bytes fs1 \<le> disk_bytes fs" using parents_frugal.frugal [of fs s] assms(1) by simp
  then show ?thesis using assms(2) by (rule spends_trans [OF spends_nothing])
qed

lemma parents_spend: "MkdirParents fs s = (x, fs1) \<Longrightarrow> spends b fs b fs1"
  using after_parents spends_nothing by blast

lemma mkdir_spends: "safe_Mkdir fs s = (x, fs1) \<Longrightarrow> spends b fs b fs1"
  using safe_mkdir_frugal.frugal [of fs s] by (simp add: spends_nothing)

lemma symlink_spends: "safe_Symlink fs target s = (x, fs1) \<Longrightarrow> spends b fs b fs1"
  using safe_symlink_frugal.frugal [of fs target s] by (simp add: spends_nothing)

lemma zip_entry_spends: "zip_entry fs s b e = (err, b1, fs1) \<Longrightarrow> spends b fs b1 fs1 \<and> bg_entries b1 = bg_entries b"
  by (auto simp: zip_entry_def mkdir_spends parents_spend split: if_splits prod.splits option.splits
      dest!: regular_spends intro: after_parents)

lemma tar_entry_spends: "tar_entry fs dest s b e = (err, b1, fs1) \<Longrightarrow> spends b fs b1 fs1 \<and> bg_entries b1 = bg_entries b"
  by (auto simp: tar_entry_def mkdir_spends symlink_spends parents_spend spends_nothing
      split: typeflag.splits sum.splits prod.splits option.splits dest!: regular_spends intro: after_parents)

definition within_budget :: "nat \<Rightarrow> budget \<Rightarrow> fs \<Rightarrow> (string list \<times> extract_error option) \<times> budget \<times> fs \<Rightarrow> bool" where
  "within_budget n b fs result =
     (spends b fs (fst (snd result)) (snd (snd result)) \<and>
      bg_entries (fst (snd result)) \<le> max (bg_entries b) (bg_maxEntries b) \<and>
      int (length (fst (fst result))) \<le> int n + (bg_entries (fst (snd result)) - bg_entries b))"

lemma within_now: "length paths \<le> n \<Longrightarrow> within_budget n b fs ((paths, err), b, fs)"
  by (simp add: within_budget_def spends_nothing)

lemma within_step:
  assumes "nextEntry b = Some b1" and "spends b1 fs b2 fs1" and "bg_entries b2 = bg_entries b1"
  shows "within_budget m b2 fs1 result \<Longrightarrow> m \<le> Suc n \<Longrightarrow> within_budget n b fs result"
    and "length paths \<le> n \<Longrightarrow> within_budget n b fs ((paths, err), b2, fs1)"
proof -
  have s: "spends b fs b2 fs1" "bg_entries b2 = bg_entries b + 1" "bg_entries b2 \<le> bg_maxEntries b"
    using nextEntry_Some [OF assms(1), of fs] assms(2,3) by (auto intro: spends_trans)
  then have m: "bg_maxEntries b2 = bg_maxEntries b" by (simp add: spends_def)
  show "within_budget m b2 fs1 result \<Longrightarrow> m \<le> Suc n \<Longrightarrow> within_budget n b fs result"
    using s m by (auto simp: within_budget_def intro: spends_trans)
  show "length paths \<le> n \<Longrightarrow> within_budget n b fs ((paths, err), b2, fs1)"
    using s by (auto simp: within_budget_def)
qed

lemma zip_within: "within_budget (length written) b fs (extractZip dest items written b fs)"
proof (induction dest items written b fs rule: extractZip.induct)
  case (3 dest e items written b fs)
  show ?case
  proof (cases "nextEntry b")
    case (Some b1)
    then have stop: "within_budget (length written) b fs ((written, err), b1, fs)" for err
      by (intro within_step(2)) (simp_all add: spends_nothing)
    show ?thesis
    proof (cases "Join fs dest (ae_Name e)")
      case (Inr s)
      obtain err b2 fs1 where z: "zip_entry fs s b1 e = (err, b2, fs1)" by (metis prod_cases3)
      note step = within_step [OF Some conjunct1 [OF zip_entry_spends [OF z]] conjunct2 [OF zip_entry_spends [OF z]]]
      show ?thesis
      proof (cases err)
        case None
        then show ?thesis using step(1) [OF 3 [OF Some Inr z [symmetric] None refl]] Some Inr z by simp
      next
        case (Some x)
        with step(2) [of written] \<open>nextEntry b = Some b1\<close> Inr z show ?thesis by simp
      qed
    qed (use Some stop in simp)
  qed (simp add: within_now)
qed (simp_all add: within_now)

lemma tar_within: "within_budget (length written) b fs (extractTar dest items written b fs)"
proof (induction dest items written b fs rule: extractTar.induct)
  case (3 dest e items written b fs)
  show ?case
  proof (cases "nextEntry b")
    case (Some b1)
    then have stop: "within_budget (length written) b fs ((written, err), b1, fs)" for err
      by (intro within_step(2)) (simp_all add: spends_nothing)
    show ?thesis
    proof (cases "Join fs dest (ae_Name e)")
      case (Inr s)
      obtain err b2 fs1 where z: "tar_entry fs dest s b1 e = (err, b2, fs1)" by (metis prod_cases3)
      note step = within_step [OF Some conjunct1 [OF tar_entry_spends [OF z]] conjunct2 [OF tar_entry_spends [OF z]]]
      show ?thesis
      proof (cases err)
        case None
        then show ?thesis using step(1) [OF 3 [OF Some Inr z [symmetric] None refl]] Some Inr z by simp
      next
        case (Some x)
        with step(2) [of written] \<open>nextEntry b = Some b1\<close> Inr z show ?thesis by simp
      qed
    qed (use Some stop in simp)
  qed (simp add: within_now)
qed (simp_all add: within_now)

end
