(* ===== verification/Archive_Properties.thy ===== *)
theory Archive_Properties
  imports Archive_Confined Archive_Budget
begin

text \<open>
  The properties of archive extraction: confinement to the destination, the budget, what is written,
  and two ways around the rules of safepath.go.
\<close>

subsection \<open>Samples\<close>

definition sampleDisk :: fs where
  "sampleDisk = [([], Dir), ([''srv''], Dir), ([''srv'', ''up''], Dir), ([''srv'', ''keep''], File ''old'')]"

definition regular :: "string \<Rightarrow> string \<Rightarrow> item" where
  "regular name content = Entry \<lparr> ae_Name = name, ae_Typeflag = TypeReg, ae_Linkname = [], ae_Content = content,
     ae_Fails = None, ae_OpenFails = None \<rparr>"

definition symlink :: "string \<Rightarrow> string \<Rightarrow> item" where
  "symlink name target = Entry \<lparr> ae_Name = name, ae_Typeflag = TypeSymlink, ae_Linkname = target, ae_Content = [],
     ae_Fails = None, ae_OpenFails = None \<rparr>"

lemma sample_wf: "wf_fs sampleDisk"
  by (auto simp: wf_fs_def sampleDisk_def node_at_def map_of_eq_None_iff split: if_splits)

lemma sample_dest: "is_abs ''/srv/up''" "dest_path ''/srv/up'' = [''srv'', ''up'']" "solid sampleDisk (dest_path ''/srv/up'')"
proof -
  show "is_abs ''/srv/up''" by code_simp
  show d: "dest_path ''/srv/up'' = [''srv'', ''up'']" by code_simp
  show "solid sampleDisk (dest_path ''/srv/up'')"
    by (auto simp: solid_def d prefix_Cons sampleDisk_def node_at_def)
qed

subsection \<open>Confinement\<close>

lemma zip_keeps:
  "is_abs dest \<Longrightarrow> wf_fs fs \<Longrightarrow> solid fs (dest_path dest) \<Longrightarrow>
    kept (dest_path dest) fs (snd (snd (extractZip dest items written b fs)))"
proof (induction dest items written b fs rule: extractZip.induct)
  case (3 dest e items written b fs)
  note IH = 3(1) and a = 3(2-4)
  show ?case
  proof (cases "nextEntry b")
    case None
    then show ?thesis using a by (simp add: kept_refl)
  next
    case (Some b1)
    show ?thesis
    proof (cases "Join fs dest (ae_Name e)")
      case (Inl err)
      with Some show ?thesis using a by (simp add: kept_refl)
    next
      case (Inr s)
      obtain err b2 fs1 where z: "zip_entry fs s b1 e = (err, b2, fs1)" by (metis prod_cases3)
      have "kept (dest_path dest) fs fs1"
        using zip_op.joined [OF a(2,1,3) Inr, of b1 e] entry_on_dest(1) [OF plain_dest_path a(3)] z by simp
      then show ?thesis using IH [OF Some Inr z [symmetric] _ refl a(1)] z Some Inr
        by (cases err) (auto intro: kept_trans dest: keptD)
    qed
  qed
qed (simp_all add: kept_refl)

text \<open>The restriction a tar archive needs: no symbolic link is named like the destination itself.\<close>

definition names_the_root :: "string \<Rightarrow> item \<Rightarrow> bool" where
  "names_the_root dest i =
     (case i of Broken _ \<Rightarrow> False
      | Entry e \<Rightarrow> ae_Typeflag e = TypeSymlink \<and> clean (path_join (clean dest) (ae_Name e)) = clean dest)"

lemma Join_is_clean: "Join fs dest name = Ok s \<Longrightarrow> s = clean (path_join (clean dest) name)"
  by (auto simp: Join_def Let_def bindr_def split: if_splits option.splits sum.splits)

lemma clean_dest: "is_abs dest \<Longrightarrow> clean dest = render (dest_path dest)"
  by (simp add: clean_abs dest_path_def)

lemma link_not_on_root:
  "\<not> names_the_root dest (Entry e) \<Longrightarrow> is_abs dest \<Longrightarrow> Join fs dest (ae_Name e) = Ok s \<Longrightarrow> s = render (dest_path dest) \<Longrightarrow>
    ae_Typeflag e \<noteq> TypeSymlink"
  using Join_is_clean [of fs dest "ae_Name e" s] by (simp add: names_the_root_def clean_dest)

lemma tar_keeps:
  "is_abs dest \<Longrightarrow> list_all (\<lambda>i. \<not> names_the_root dest i) items \<Longrightarrow> wf_fs fs \<Longrightarrow> solid fs (dest_path dest) \<Longrightarrow>
    kept (dest_path dest) fs (snd (snd (extractTar dest items written b fs)))"
proof (induction dest items written b fs rule: extractTar.induct)
  case (3 dest e items written b fs)
  note IH = 3(1) and a = 3(2-5)
  show ?case
  proof (cases "nextEntry b")
    case None
    then show ?thesis using a by (simp add: kept_refl)
  next
    case (Some b1)
    show ?thesis
    proof (cases "Join fs dest (ae_Name e)")
      case (Inl err)
      with Some show ?thesis using a by (simp add: kept_refl)
    next
      case (Inr s)
      obtain err b2 fs1 where z: "tar_entry fs dest s b1 e = (err, b2, fs1)" by (metis prod_cases3)
      have "s = render (dest_path dest) \<Longrightarrow> ae_Typeflag e \<noteq> TypeSymlink"
        using link_not_on_root [OF _ a(1) Inr] a(2) by simp
      then have k: "kept (dest_path dest) fs fs1"
        using tar_op.joined [OF a(3,1,4) Inr, of dest b1 e] entry_on_dest(2) [OF plain_dest_path a(4)] z by simp
      then show ?thesis using IH [OF Some Inr z [symmetric] _ refl a(1) _ keptD [OF k]] a(2) z Some Inr
        by (cases err) (auto simp: kept_trans [OF k] split del: if_split)
    qed
  qed
qed (simp_all add: kept_refl)

lemma restore_keeps:
  "is_abs dest \<Longrightarrow> list_all (\<lambda>i. \<not> names_the_root dest i) items \<Longrightarrow> wf_fs fs \<Longrightarrow> solid fs (dest_path dest) \<Longrightarrow>
    kept (dest_path dest) fs (snd (extractArchive dest items r fs))"
proof (induction dest items r fs rule: extractArchive.induct)
  case (3 dest e items r fs)
  note IH = 3(1,2) and a = 3(3-6)
  show ?case
  proof (cases "Join fs dest (ae_Name e)")
    case (Inl err)
    with a IH(1) show ?thesis by simp
  next
    case (Inr s)
    obtain err r1 fs1 where z: "restore_entry fs dest s e r = (err, r1, fs1)" by (metis prod_cases3)
    have "s = render (dest_path dest) \<Longrightarrow> ae_Typeflag e \<noteq> TypeSymlink"
      using link_not_on_root [OF _ a(1) Inr] a(2) by simp
    then have "kept (dest_path dest) fs fs1"
      using restore_op.joined [OF a(3,1,4) Inr, of dest e r] entry_on_dest(3) [OF plain_dest_path a(4)] z by simp
    then show ?thesis using IH(2) [OF Inr z [symmetric] _ refl a(1)] a(2) z Inr
      by (cases err) (auto intro: kept_trans dest: keptD)
  qed
qed (simp_all add: kept_refl)

lemma copied_all: "copy_content b e = (content, None, b1) \<Longrightarrow> content = ae_Content e"
  by (auto simp: copy_content_def Let_def split: if_splits)

lemma regular_written:
  assumes a: "wf_fs fs" "list_all plain p" "p \<noteq> []" "clear fs p" and x: "extract_regular fs (render p) b e = (None, b1, fs1)"
  shows "node_at fs1 p = Some (File (ae_Content e))"
proof -
  obtain c fs2 where c: "safe_Create fs (render p) = (c, fs2)" by (cases "safe_Create fs (render p)")
  obtain content err b2 where k: "copy_content b e = (content, err, b2)" by (metis prod_cases3)
  from x c obtain fd where fd: "c = Ok fd" by (cases c) (auto simp: extract_regular_def)
  with safe_created_at [OF a, of fd fs2] c have "fd = p" by simp
  moreover have "err = None \<and> fs1 = put fd (File content) fs2"
    using x c fd k by (auto simp: extract_regular_def Let_def split: option.splits)
  ultimately show ?thesis using copied_all [of b e content b2] k by simp
qed

lemma zip_append:
  "extractZip dest (xs @ ys) written b fs =
     (case extractZip dest xs written b fs of
        ((written', None), b', fs') \<Rightarrow> extractZip dest ys written' b' fs'
      | stopped \<Rightarrow> stopped)"
  by (induction dest xs written b fs rule: extractZip.induct)
    (auto split: option.split sum.split prod.split)

lemma zip_last_written:
  assumes d: "is_abs dest" and wf: "wf_fs fs" and solid: "solid fs (dest_path dest)" and e: "ae_Typeflag e \<noteq> TypeDir"
    and x: "extractZip dest [Entry e] written b fs = ((paths, None), b', fs')"
  shows "\<exists>r. paths = written @ [render (dest_path dest @ r)] \<and> node_at fs' (dest_path dest @ r) = Some (File (ae_Content e))"
proof -
  from x obtain b1 where b1: "nextEntry b = Some b1" by (auto split: option.splits)
  with x obtain s where s: "Join fs dest (ae_Name e) = Ok s" by (auto split: sum.splits)
  obtain r where r: "s = render (dest_path dest @ r)" "list_all plain (dest_path dest @ r)" "clear fs (dest_path dest @ r)"
    using Join_clear [OF wf d solid s] by blast
  obtain err b2 fs1 where z: "zip_entry fs s b1 e = (err, b2, fs1)" by (metis prod_cases3)
  with x b1 s have n: "err = None" "paths = written @ [s]" "fs' = fs1" by (auto split: option.splits)
  obtain y fs2 where m: "MkdirParents fs s = (y, fs2)" by (cases "MkdirParents fs s")
  from z n(1) e m have reg: "extract_regular fs2 s b1 e = (None, b2, fs1)"
    by (auto simp: zip_entry_def split: option.splits)
  have "r \<noteq> []"
  proof
    assume "r = []"
    with r have "s = render (dest_path dest)" "list_all plain (dest_path dest)" by simp_all
    moreover from this have "fs2 = fs" using m MkdirParents_dest solid by simp
    ultimately show False using reg solid by (simp add: extract_regular_def safe_Create_dest)
  qed
  then have p: "dest_path dest @ r \<noteq> []" by simp
  have "effect (dest_path dest @ r) fs fs2" using parents_op.effect [OF wf r(2) p r(3)] m r(1) by simp
  then have "node_at fs1 (dest_path dest @ r) = Some (File (ae_Content e))"
    using regular_written [OF _ r(2) p] reg r(1,3) effect_wf effect_clear by blast
  with n r(1) show ?thesis by blast
qed

subsection \<open>The properties\<close>

text \<open>
  C32: The extraction of a zip archive, whatever its entries are and whether it succeeds or stops with an
  error, changes nothing outside the destination, even where links inside the destination lead out of
  it.
\<close>

theorem zip_extraction_stays_inside:
  assumes "is_abs dest" and "wf_fs fs" and "solid fs (dest_path dest)" and "\<not> prefix (dest_path dest) q"
  shows "node_at (snd (snd (extractZip dest items [] b fs))) q = node_at fs q"
  using zip_keeps [OF assms(1-3)] assms(4) by (simp add: kept_def)

lemma zip_extraction_stays_inside_witness:
  "node_at (snd (snd (extractZip ''/srv/up'' [regular ''a/b'' ''x'', regular ''../keep'' ''new''] [] (new_budget 100) sampleDisk)))
     [''srv'', ''keep''] = node_at sampleDisk [''srv'', ''keep'']"
  by (rule zip_extraction_stays_inside [OF sample_dest(1) sample_wf sample_dest(3)]) (simp add: sample_dest(2))

text \<open>
  C33: The extraction of a tar archive and the restore of a backup change nothing outside the destination
  either, as long as no symbolic link of the archive is named like the destination itself.
\<close>

theorem tar_extraction_stays_inside:
  assumes "is_abs dest" and "wf_fs fs" and "solid fs (dest_path dest)"
    and "list_all (\<lambda>i. \<not> names_the_root dest i) items" and "\<not> prefix (dest_path dest) q"
  shows "node_at (snd (snd (extractTar dest items [] b fs))) q = node_at fs q \<and>
    node_at (snd (extractArchive dest items r fs)) q = node_at fs q"
  using tar_keeps [OF assms(1,4,2,3)] restore_keeps [OF assms(1,4,2,3)] assms(5) by (simp add: kept_def)

lemma tar_extraction_stays_inside_witness:
  "node_at (snd (snd (extractTar ''/srv/up'' [symlink ''l'' ''x'', regular ''l/keep'' ''new''] [] (new_budget 100) sampleDisk)))
     [''srv'', ''keep''] = node_at sampleDisk [''srv'', ''keep''] \<and>
   node_at (snd (extractArchive ''/srv/up'' [symlink ''l'' ''x'', regular ''l/keep'' ''new'']
     \<lparr> rr_Entries = 0, rr_Bytes = 0, rr_Skipped = [] \<rparr> sampleDisk)) [''srv'', ''keep''] = node_at sampleDisk [''srv'', ''keep'']"
proof (rule tar_extraction_stays_inside [OF sample_dest(1) sample_wf sample_dest(3)])
  show "list_all (\<lambda>i. \<not> names_the_root ''/srv/up'' i) [symlink ''l'' ''x'', regular ''l/keep'' ''new'']" by code_simp
qed (simp add: sample_dest(2))

text \<open>
  Without that restriction the destination is escaped: a link named \<open>.\<close> takes the place of the empty
  destination directory, and the next file of the archive is written beside it.
\<close>

theorem root_entry_escapes:
  "fst (extractTar ''/srv/up'' [symlink ''.'' ''.'', regular ''keep'' ''new''] [] (new_budget 100) sampleDisk) =
     ([''/srv/up'', ''/srv/up/keep''], None) \<and>
   node_at (snd (snd (extractTar ''/srv/up'' [symlink ''.'' ''.'', regular ''keep'' ''new''] [] (new_budget 100) sampleDisk)))
     [''srv'', ''keep''] = Some (File ''new'')"
  by code_simp

text \<open>
  The check of link targets is lexical: a link that goes up behind another link is accepted, and
  resolves to a directory above the destination.
\<close>

theorem link_resolves_outside:
  "fst (extractTar ''/srv/up'' [symlink ''x'' ''.'', symlink ''y'' ''x/..''] [] (new_budget 100) sampleDisk) =
     ([''/srv/up/x'', ''/srv/up/y''], None) \<and>
   walk (snd (snd (extractTar ''/srv/up'' [symlink ''x'' ''.'', symlink ''y'' ''x/..''] [] (new_budget 100) sampleDisk)))
     max_links [] [''srv'', ''up'', ''y''] = Ok [''srv'']"
  by code_simp



text \<open>
  When a zip archive is extracted without an error, its last file is found below the destination, at
  the path that is reported last, with exactly its content.
\<close>

theorem extracted_file_has_its_content:
  assumes "is_abs dest" and "wf_fs fs" and "solid fs (dest_path dest)" and "ae_Typeflag e \<noteq> TypeDir"
    and "extractZip dest (items @ [Entry e]) [] b fs = ((paths, None), b', fs')"
  shows "\<exists>r. last paths = render (dest_path dest @ r) \<and> node_at fs' (dest_path dest @ r) = Some (File (ae_Content e))"
proof -
  obtain w x b1 fs1 where z: "extractZip dest items [] b fs = ((w, x), b1, fs1)" by (metis prod.exhaust)
  with assms(5) have x: "x = None" "extractZip dest [Entry e] w b1 fs1 = ((paths, None), b', fs')"
    by (auto simp: zip_append split: option.splits simp del: extractZip.simps)
  have "kept (dest_path dest) fs fs1" using zip_keeps [OF assms(1-3), of items "[]" b] z by simp
  then have "wf_fs fs1" "solid fs1 (dest_path dest)" by (simp_all add: kept_def)
  from zip_last_written [OF assms(1) this assms(4) x(2)] show ?thesis by auto
qed

lemma extracted_file_has_its_content_witness:
  "\<exists>r. last [''/srv/up/d/a''] = render (dest_path ''/srv/up'' @ r) \<and>
     node_at (snd (snd (extractZip ''/srv/up'' [regular ''d/a'' ''xyz''] [] (new_budget 5) sampleDisk)))
       (dest_path ''/srv/up'' @ r) = Some (File ''xyz'')"
proof -
  let ?e = "\<lparr> ae_Name = ''d/a'', ae_Typeflag = TypeReg, ae_Linkname = [], ae_Content = ''xyz'', ae_Fails = None,
     ae_OpenFails = None \<rparr>"
  have "fst (extractZip ''/srv/up'' ([] @ [Entry ?e]) [] (new_budget 5) sampleDisk) = ([''/srv/up/d/a''], None)" by code_simp
  then obtain b' fs' where x: "extractZip ''/srv/up'' ([] @ [Entry ?e]) [] (new_budget 5) sampleDisk = (([''/srv/up/d/a''], None), b', fs')"
    by (metis prod.collapse)
  show ?thesis
    using extracted_file_has_its_content [OF sample_dest(1) sample_wf sample_dest(3) _ x] x by (simp add: regular_def)
qed

end
