(* ===== verification/Backup_Store.thy ===== *)
theory Backup_Store
  imports Auth_Crypto
begin

text \<open>
  Backup jobs and their runs (backups/model.go, backups/store.go): the two tables, the rules a job
  has to satisfy and the statements on the tables. A column that the code fills with JSON holds the
  value itself, except for the credentials, whose JSON is sealed. The text of a log is left out.
\<close>

subsection \<open>Jobs and runs\<close>

datatype TargetKind = TargetLocal | TargetS3 | TargetB2 | TargetOther string

definition target_Valid :: "TargetKind \<Rightarrow> bool" where
  "target_Valid k = (k = TargetLocal \<or> k = TargetS3 \<or> k = TargetB2)"

record TargetConfig =
  tc_Bucket :: string
  tc_Region :: string
  tc_Endpoint :: string
  tc_Prefix :: string
  tc_Path :: string

record TargetSecrets =
  ts_AccessKeyID :: string
  ts_SecretAccessKey :: string

record backup_job =
  bj_ID :: int
  bj_Name :: string
  bj_Sources :: "string list"
  bj_Excludes :: "string list"
  bj_TargetKind :: TargetKind
  bj_Target :: TargetConfig
  bj_Schedule :: string
  bj_Retention :: int
  bj_Enabled :: bool
  bj_CreatedAt :: unix_seconds
  bj_HasCredentials :: bool

datatype RunStatus = StatusRunning | StatusSuccess | StatusFailed

text \<open>A row of \<open>backup_runs\<close> is what \<open>scanRun\<close> returns, an end of 0 stands for none.\<close>

record backup_run =
  br_ID :: int
  br_JobID :: int
  br_StartedAt :: unix_seconds
  br_EndedAt :: unix_seconds
  br_Status :: RunStatus
  br_Artifact :: string
  br_SizeBytes :: int
  br_Trigger :: string

record job_row =
  jr_job :: backup_job
  jr_secrets_enc :: string

record backup_db =
  bd_jobs :: "job_row list"
  bd_runs :: "backup_run list"
  bd_jobSeq :: int
  bd_runSeq :: int

datatype backup_error =
    ErrNotFound
  | ErrAlreadyRunning
  | NameRequired
  | SourceRequired
  | UnknownTarget
  | PathRequired
  | BucketRequired
  | EndpointRequired
  | NegativeRetention
  | UniqueName
  | ForeignKey
  | ContextDone
  | SealError authError
  | NoArtifact int
  | RestoreOverRoot

definition Validate :: "backup_job \<Rightarrow> backup_error + unit" where
  "Validate j =
     bindr (guardr (trim_space (bj_Name j) \<noteq> []) NameRequired) (\<lambda>_.
     bindr (guardr (bj_Sources j \<noteq> []) SourceRequired) (\<lambda>_.
     bindr (guardr (target_Valid (bj_TargetKind j)) UnknownTarget) (\<lambda>_.
     bindr (if bj_TargetKind j = TargetLocal
            then guardr (trim_space (tc_Path (bj_Target j)) \<noteq> []) PathRequired
            else bindr (guardr (trim_space (tc_Bucket (bj_Target j)) \<noteq> []) BucketRequired) (\<lambda>_.
              guardr (bj_TargetKind j = TargetB2 \<longrightarrow> trim_space (tc_Endpoint (bj_Target j)) \<noteq> []) EndpointRequired)) (\<lambda>_.
     guardr (0 \<le> bj_Retention j) NegativeRetention))))"

subsection \<open>The table of jobs\<close>

definition scanJob :: "job_row \<Rightarrow> backup_job" where
  "scanJob r = (jr_job r)\<lparr>bj_HasCredentials := (jr_secrets_enc r \<noteq> [])\<rparr>"

definition job_by_id :: "backup_db \<Rightarrow> int \<Rightarrow> job_row option" where
  "job_by_id db jobID = find (\<lambda>r. bj_ID (jr_job r) = jobID) (bd_jobs db)"

definition GetJob :: "backup_db \<Rightarrow> int \<Rightarrow> backup_error + backup_job" where
  "GetJob db jobID = (case job_by_id db jobID of None \<Rightarrow> Err ErrNotFound | Some r \<Rightarrow> Ok (scanJob r))"

definition encode_secrets :: "TargetSecrets \<Rightarrow> string" where
  "encode_secrets s =
     marshal (GMap (filter (\<lambda>(k, v). v \<noteq> GStr [])
       [(''accessKeyId'', GStr (ts_AccessKeyID s)), (''secretAccessKey'', GStr (ts_SecretAccessKey s))]))"

definition decode_secrets :: "string \<Rightarrow> TargetSecrets" where
  "decode_secrets s =
     \<lparr> ts_AccessKeyID = json_string_field ''accessKeyId'' s, ts_SecretAccessKey = json_string_field ''secretAccessKey'' s \<rparr>"

definition Secrets :: "Sealer \<Rightarrow> backup_db \<Rightarrow> int \<Rightarrow> backup_error + TargetSecrets" where
  "Secrets sealer db jobID =
     (case job_by_id db jobID of
        None \<Rightarrow> Err ErrNotFound
      | Some r \<Rightarrow>
          if jr_secrets_enc r = [] then Ok \<lparr> ts_AccessKeyID = [], ts_SecretAccessKey = [] \<rparr>
          else case Open sealer (jr_secrets_enc r) of
              Inl e \<Rightarrow> Err (SealError e)
            | Inr plain \<Rightarrow> if json_valid plain then Ok (decode_secrets plain) else Err (SealError (ErrText [])))"

text \<open>Credentials count as given when one of the two is not empty.\<close>

definition given :: "TargetSecrets option \<Rightarrow> bool" where
  "given secrets = (case secrets of None \<Rightarrow> False | Some s \<Rightarrow> ts_AccessKeyID s \<noteq> [] \<or> ts_SecretAccessKey s \<noteq> [])"

definition CreateJob ::
  "Sealer \<Rightarrow> string \<Rightarrow> unix_seconds \<Rightarrow> backup_job \<Rightarrow> TargetSecrets option \<Rightarrow> backup_db \<Rightarrow> (backup_error + backup_job) \<times> backup_db" where
  "CreateJob sealer nonce now j secrets db =
     (case Validate j of
        Inl e \<Rightarrow> (Err e, db)
      | Inr _ \<Rightarrow>
          if sql_exists (\<lambda>r. bj_Name (jr_job r) = bj_Name j) (bd_jobs db) then (Err UniqueName, db)
          else
            let jobID = bd_jobSeq db + 1;
                sealed = (if given secrets then Seal sealer nonce (encode_secrets (the secrets)) else []);
                row = \<lparr> jr_job = j\<lparr>bj_ID := jobID, bj_CreatedAt := now\<rparr>, jr_secrets_enc = sealed \<rparr>;
                db1 = db\<lparr>bd_jobs := bd_jobs db @ [row], bd_jobSeq := jobID\<rparr> in
            (GetJob db1 jobID, db1))"

text \<open>The credentials are written by a statement of their own, before the other columns.\<close>

definition UpdateJob ::
  "Sealer \<Rightarrow> string \<Rightarrow> int \<Rightarrow> backup_job \<Rightarrow> TargetSecrets option \<Rightarrow> backup_db \<Rightarrow> (backup_error + backup_job) \<times> backup_db" where
  "UpdateJob sealer nonce jobID j secrets db =
     (case Validate j of
        Inl e \<Rightarrow> (Err e, db)
      | Inr _ \<Rightarrow>
          (case GetJob db jobID of
             Inl e \<Rightarrow> (Err e, db)
           | Inr _ \<Rightarrow>
               let is_row = (\<lambda>r. bj_ID (jr_job r) = jobID);
                   jobs1 = (if given secrets
                     then sql_update is_row (\<lambda>r. r\<lparr>jr_secrets_enc := Seal sealer nonce (encode_secrets (the secrets))\<rparr>) (bd_jobs db)
                     else bd_jobs db);
                   db1 = db\<lparr>bd_jobs := jobs1\<rparr> in
               if sql_exists (\<lambda>r. bj_Name (jr_job r) = bj_Name j \<and> bj_ID (jr_job r) \<noteq> jobID) jobs1 then (Err UniqueName, db1)
               else
                 let db2 = db1\<lparr>bd_jobs := sql_update is_row
                       (\<lambda>r. r\<lparr>jr_job := j\<lparr>bj_ID := jobID, bj_CreatedAt := bj_CreatedAt (jr_job r)\<rparr>\<rparr>) jobs1\<rparr> in
                 (GetJob db2 jobID, db2)))"

text \<open>The runs of a job go with it, as the foreign key cascades.\<close>

definition DeleteJob :: "int \<Rightarrow> backup_db \<Rightarrow> backup_db" where
  "DeleteJob jobID db =
     db\<lparr>bd_jobs := sql_delete (\<lambda>r. bj_ID (jr_job r) = jobID) (bd_jobs db),
        bd_runs := sql_delete (\<lambda>r. br_JobID r = jobID) (bd_runs db)\<rparr>"

subsection \<open>The table of runs\<close>

definition StartRun :: "int \<Rightarrow> string \<Rightarrow> unix_seconds \<Rightarrow> backup_db \<Rightarrow> (backup_error + int) \<times> backup_db" where
  "StartRun jobID trigger now db =
     (if job_by_id db jobID = None then (Err ForeignKey, db)
      else
        let runID = bd_runSeq db + 1 in
        (Ok runID, db\<lparr>bd_runs := bd_runs db @
           [\<lparr> br_ID = runID, br_JobID = jobID, br_StartedAt = now, br_EndedAt = 0, br_Status = StatusRunning,
              br_Artifact = [], br_SizeBytes = 0, br_Trigger = trigger \<rparr>],
           bd_runSeq := runID\<rparr>))"

definition FinishRun :: "int \<Rightarrow> RunStatus \<Rightarrow> string \<Rightarrow> int \<Rightarrow> unix_seconds \<Rightarrow> backup_db \<Rightarrow> backup_db" where
  "FinishRun runID status artifact bytes now db =
     db\<lparr>bd_runs := sql_update (\<lambda>r. br_ID r = runID)
       (\<lambda>r. r\<lparr>br_EndedAt := now, br_Status := status, br_Artifact := artifact, br_SizeBytes := bytes\<rparr>) (bd_runs db)\<rparr>"

definition RunByID :: "backup_db \<Rightarrow> int \<Rightarrow> backup_error + backup_run" where
  "RunByID db runID = (case find (\<lambda>r. br_ID r = runID) (bd_runs db) of None \<Rightarrow> Err ErrNotFound | Some r \<Rightarrow> Ok r)"

text \<open>
  \<open>ORDER BY started_at DESC\<close>: the index on the job and the time holds rows of one second in the
  order of their ids.
\<close>

definition newest_first :: "(backup_run \<Rightarrow> bool) \<Rightarrow> backup_db \<Rightarrow> backup_run list" where
  "newest_first p db = sort_key (\<lambda>r. - br_StartedAt r) (filter p (bd_runs db))"

definition RunsOf :: "backup_db \<Rightarrow> int \<Rightarrow> int \<Rightarrow> backup_run list" where
  "RunsOf db jobID limit =
     take (nat (if limit \<le> 0 \<or> limit > 500 then 50 else limit)) (newest_first (\<lambda>r. br_JobID r = jobID) db)"

definition LastRun :: "backup_db \<Rightarrow> int \<Rightarrow> backup_error + backup_run" where
  "LastRun db jobID =
     (case newest_first (\<lambda>r. br_JobID r = jobID) db of [] \<Rightarrow> Err ErrNotFound | r # _ \<Rightarrow> Ok r)"

definition SuccessfulRuns :: "backup_db \<Rightarrow> int \<Rightarrow> backup_run list" where
  "SuccessfulRuns db jobID =
     newest_first (\<lambda>r. br_JobID r = jobID \<and> br_Status r = StatusSuccess \<and> br_Artifact r \<noteq> []) db"

definition DeleteRun :: "int \<Rightarrow> backup_db \<Rightarrow> backup_db" where
  "DeleteRun runID db = db\<lparr>bd_runs := sql_delete (\<lambda>r. br_ID r = runID) (bd_runs db)\<rparr>"

text \<open>\<open>List\<close>: every job by name, with its last run.\<close>

definition ListJobs :: "backup_db \<Rightarrow> (backup_job \<times> backup_run option) list" where
  "ListJobs db =
     map (\<lambda>r. (scanJob r, case LastRun db (bj_ID (jr_job r)) of Inl _ \<Rightarrow> None | Inr run \<Rightarrow> Some run))
       (sort_key (\<lambda>r. bj_Name (jr_job r)) (bd_jobs db))"

subsection \<open>Rows of the store\<close>

text \<open>Ids are unique and below the counters of the tables.\<close>

definition backup_ok :: "backup_db \<Rightarrow> bool" where
  "backup_ok db =
     (distinct (map (\<lambda>r. bj_ID (jr_job r)) (bd_jobs db)) \<and> distinct (map br_ID (bd_runs db)) \<and>
      distinct (map (\<lambda>r. bj_Name (jr_job r)) (bd_jobs db)) \<and>
      (\<forall>r \<in> set (bd_jobs db). bj_ID (jr_job r) \<le> bd_jobSeq db) \<and> (\<forall>r \<in> set (bd_runs db). br_ID r \<le> bd_runSeq db) \<and>
      (\<forall>r \<in> set (bd_runs db). \<exists>j \<in> set (bd_jobs db). bj_ID (jr_job j) = br_JobID r))"

lemma set_newest_first [simp]: "set (newest_first p db) = {r \<in> set (bd_runs db). p r}"
  by (simp add: newest_first_def)

lemma sorted_newest_first: "sorted (map (\<lambda>r. - br_StartedAt r) (newest_first p db))"
  by (simp add: newest_first_def)

lemma distinct_newest_first: "distinct (map br_ID (bd_runs db)) \<Longrightarrow> distinct (map br_ID (newest_first p db))"
  by (auto simp: newest_first_def distinct_map inj_on_def)

end
