(* ===== verification/Host_Ops.thy ===== *)
theory Host_Ops
  imports Host_Files
begin

text \<open>
  The further calls of the standard library that the file manager makes: \<open>filepath.EvalSymlinks\<close>,
  \<open>filepath.Abs\<close>, \<open>filepath.Base\<close>, \<open>os.Rename\<close>, \<open>os.RemoveAll\<close>, \<open>os.ReadFile\<close> and \<open>os.OpenFile\<close> with the flags it
  uses. All of the tree is one file system, so a rename never crosses devices.
\<close>

definition path_abs :: "string \<Rightarrow> string \<Rightarrow> string" where
  "path_abs cwd s = (if is_abs s then clean s else path_join cwd s)"

text \<open>The last name of a clean absolute path.\<close>

definition path_base :: "string \<Rightarrow> string" where
  "path_base s = (if comps s = [] then [slash] else last (comps s))"

definition max_eval_links :: nat where
  "max_eval_links = 255"

definition eval_symlinks :: "fs \<Rightarrow> string \<Rightarrow> fs_error + string" where
  "eval_symlinks fs s =
     bindr (walk fs max_eval_links [] (comps s)) (\<lambda>p. if node_at fs p = None then Err ENOENT else Ok (render p))"

definition read_file :: "fs \<Rightarrow> string \<Rightarrow> fs_error + string" where
  "read_file fs s = bindr (stat fs s) (\<lambda>nd. case nd of File content \<Rightarrow> Ok content | Dir \<Rightarrow> Err EISDIR | Link _ \<Rightarrow> Err ELOOP)"

text \<open>\<open>O_CREATE | O_EXCL\<close>: the last component is not followed and must not exist.\<close>

definition sys_create_new :: "fs \<Rightarrow> string \<Rightarrow> (fs_error + path) \<times> fs" where
  "sys_create_new fs s =
     (case locate fs s of
        Inl e \<Rightarrow> (Err e, fs)
      | Inr p \<Rightarrow> if node_at fs p = None then (Ok p, put p (File []) fs) else (Err EEXIST, fs))"

text \<open>\<open>O_CREATE | O_TRUNC\<close>: a link in the last place is followed, also to a file that is yet to be created.\<close>

fun sys_open_trunc :: "nat \<Rightarrow> fs \<Rightarrow> string \<Rightarrow> (fs_error + path) \<times> fs" where
  "sys_open_trunc n fs s =
     (case locate fs s of
        Inl e \<Rightarrow> (Err e, fs)
      | Inr p \<Rightarrow>
          (case node_at fs p of
             None \<Rightarrow> (Ok p, put p (File []) fs)
           | Some (File _) \<Rightarrow> (Ok p, put p (File []) fs)
           | Some Dir \<Rightarrow> (Err EISDIR, fs)
           | Some (Link target) \<Rightarrow>
               (case n of
                  0 \<Rightarrow> (Err ELOOP, fs)
                | Suc m \<Rightarrow> sys_open_trunc m fs (if is_abs target then target else render (butlast p) @ slash # target))))"

declare sys_open_trunc.simps [simp del]

text \<open>\<open>rename\<close>: everything below the old path moves with it.\<close>

definition move_tree :: "path \<Rightarrow> path \<Rightarrow> fs \<Rightarrow> fs" where
  "move_tree p q fs = map (\<lambda>(x, nd). (if prefix p x then q @ drop (length p) x else x, nd)) (del q fs)"

definition sys_rename :: "fs \<Rightarrow> string \<Rightarrow> string \<Rightarrow> (fs_error option) \<times> fs" where
  "sys_rename fs old new =
     (case locate fs old of
        Inl e \<Rightarrow> (Some e, fs)
      | Inr p \<Rightarrow>
          (case locate fs new of
             Inl e \<Rightarrow> (Some e, fs)
           | Inr q \<Rightarrow>
               (case node_at fs p of
                  None \<Rightarrow> (Some ENOENT, fs)
                | Some nd \<Rightarrow>
                    if p = q then (None, fs)
                    else if p = [] \<or> nd = Dir \<and> prefix p q then (Some EINVAL, fs)
                    else if q = [] then (Some ENOTEMPTY, fs)
                    else case node_at fs q of
                        None \<Rightarrow> (None, move_tree p q fs)
                      | Some Dir \<Rightarrow>
                          if nd \<noteq> Dir then (Some EISDIR, fs)
                          else if empty_dir fs q then (None, move_tree p q fs) else (Some ENOTEMPTY, fs)
                      | Some _ \<Rightarrow> if nd = Dir then (Some ENOTDIR, fs) else (None, move_tree p q fs))))"

text \<open>\<open>os.Rename\<close> refuses a directory in the new place, unless both names denote it.\<close>

definition os_rename :: "fs \<Rightarrow> string \<Rightarrow> string \<Rightarrow> (fs_error option) \<times> fs" where
  "os_rename fs old new =
     (if lstat fs new = Ok Dir then
        case lstat fs old of
          Inl e \<Rightarrow> (Some e, fs)
        | Inr _ \<Rightarrow> if new = old \<or> locate fs new \<noteq> locate fs old then (Some EEXIST, fs) else sys_rename fs old new
      else sys_rename fs old new)"

definition remove_all :: "fs \<Rightarrow> string \<Rightarrow> (fs_error option) \<times> fs" where
  "remove_all fs s =
     (case locate fs s of
        Inl e \<Rightarrow> (if e = ENOENT then None else Some e, fs)
      | Inr p \<Rightarrow>
          if p = [] then (Some EINVAL, filter (\<lambda>e. fst e = []) fs)
          else (None, filter (\<lambda>e. \<not> prefix p (fst e)) fs))"

text \<open>\<open>os.Readlink\<close>, and \<open>os.ReadDir\<close>, which sorts the names.\<close>

definition read_link :: "fs \<Rightarrow> string \<Rightarrow> fs_error + string" where
  "read_link fs s = bindr (lstat fs s) (\<lambda>nd. case nd of Link target \<Rightarrow> Ok target | _ \<Rightarrow> Err EINVAL)"

definition children :: "fs \<Rightarrow> path \<Rightarrow> string list" where
  "children fs p = sort (remdups (map last (filter (\<lambda>k. k \<noteq> [] \<and> butlast k = p) (map fst fs))))"

definition read_dir :: "fs \<Rightarrow> string \<Rightarrow> fs_error + string list" where
  "read_dir fs s =
     bindr (walk fs max_links [] (comps s)) (\<lambda>p. if node_at fs p = Some Dir then Ok (children fs p) else Err ENOTDIR)"

end
