(* ===== verification/Backup_Names.thy ===== *)
theory Backup_Names
  imports Backup_Store Host_Ops
begin

text \<open>
  Names a backup works with (backups/runner.go): the name of an archive with its time stamp, the path
  of a file inside the archive, and the patterns that exclude files, with the matching of
  path/filepath written out.
\<close>

subsection \<open>Names\<close>

definition trim_suffix :: "string \<Rightarrow> string \<Rightarrow> string" where
  "trim_suffix s suf = (if has_suffix s suf then take (length s - length suf) s else s)"

definition name_char :: "char \<Rightarrow> bool" where
  "name_char c = (in_range 97 122 c \<or> in_range 65 90 c \<or> in_range 48 57 c \<or> c = CHR ''-'' \<or> c = CHR ''_'')"

text \<open>One rune is replaced by one dash; a byte that starts no rune counts as a rune.\<close>

function sanitise_runes :: "string \<Rightarrow> string" where
  "sanitise_runes s =
     (case s of
        [] \<Rightarrow> []
      | c # t \<Rightarrow> (if name_char c then c else CHR ''-'') # sanitise_runes (drop (rune_len s - 1) t))"
  by pat_completeness auto
termination
  by (relation "measure length") auto

declare sanitise_runes.simps [simp del]

definition sanitise :: "string \<Rightarrow> string" where
  "sanitise name = (let out = sanitise_runes name in if out = [] then ''backup'' else out)"

text \<open>\<open>time.Format("20060102-150405")\<close> in UTC: the civil date of a day counted from 1970-01-01.\<close>

definition civil :: "int \<Rightarrow> int \<times> int \<times> int" where
  "civil days =
     (let z = days + 719468; era = z div 146097; doe = z mod 146097;
          yoe = (doe - doe div 1460 + doe div 36524 - doe div 146096) div 365;
          doy = doe - (365 * yoe + yoe div 4 - yoe div 100);
          mp = (5 * doy + 2) div 153;
          m = (if mp < 10 then mp + 3 else mp - 9)
      in (yoe + era * 400 + (if m \<le> 2 then 1 else 0), m, doy - (153 * mp + 2) div 5 + 1))"

definition padded :: "nat \<Rightarrow> int \<Rightarrow> string" where
  "padded w n = (let s = nat_dec (nat n) in replicate (w - length s) (CHR ''0'') @ s)"

definition stamp :: "unix_seconds \<Rightarrow> string" where
  "stamp now =
     (let (y, m, d) = civil (now div 86400); s = now mod 86400 in
      padded 4 y @ padded 2 m @ padded 2 d @ ''-'' @ padded 2 (s div 3600) @ padded 2 (s div 60 mod 60) @ padded 2 (s mod 60))"

definition artifact_name :: "backup_job \<Rightarrow> unix_seconds \<Rightarrow> string" where
  "artifact_name job now = sanitise (bj_Name job) @ ''-'' @ stamp now @ ''.tar.gz''"

text \<open>\<open>filepath.Rel\<close>.\<close>

fun strip_common :: "path \<Rightarrow> path \<Rightarrow> path \<times> path" where
  "strip_common (b # bs) (t # ts) = (if b = t then strip_common bs ts else (b # bs, t # ts))"
| "strip_common bs ts = (bs, ts)"

definition filepath_rel :: "string \<Rightarrow> string \<Rightarrow> string option" where
  "filepath_rel base target =
     (let b = clean base; t = clean target in
      if t = b then Some ''.''
      else
        let b1 = (if b = ''.'' then [] else b) in
        if is_abs b1 \<noteq> is_abs t then None
        else
          let (bs, ts) = strip_common (comps b1) (comps t) in
          if bs \<noteq> [] \<and> hd bs = ''..'' then None else Some (join [slash] (replicate (length bs) ''..'' @ ts)))"

subsection \<open>Patterns\<close>

definition decode_rune :: "string \<Rightarrow> nat \<times> nat" where
  "decode_rune s =
     (let b = (\<lambda>i. nat_of_byte (s ! i)) in
      case rune_len s of
        0 \<Rightarrow> (65533, 1)
      | Suc 0 \<Rightarrow> (b 0, 1)
      | Suc (Suc 0) \<Rightarrow> (b 0 mod 32 * 64 + b 1 mod 64, 2)
      | Suc (Suc (Suc 0)) \<Rightarrow> ((b 0 mod 16 * 64 + b 1 mod 64) * 64 + b 2 mod 64, 3)
      | _ \<Rightarrow> (((b 0 mod 8 * 64 + b 1 mod 64) * 64 + b 2 mod 64) * 64 + b 3 mod 64, 4))"

text \<open>The length of the chunk up to the next star that is neither escaped nor in a class.\<close>

fun scan_chunk :: "bool \<Rightarrow> string \<Rightarrow> nat" where
  "scan_chunk inrange [] = 0"
| "scan_chunk inrange [c] = (if c = CHR ''*'' \<and> \<not> inrange then 0 else 1)"
| "scan_chunk inrange (c # d # s) =
     (if c = CHR 0x5C then 2 + scan_chunk inrange s
      else if c = CHR ''['' then 1 + scan_chunk True (d # s)
      else if c = CHR '']'' then 1 + scan_chunk False (d # s)
      else if c = CHR ''*'' \<and> \<not> inrange then 0
      else 1 + scan_chunk inrange (d # s))"

definition get_esc :: "string \<Rightarrow> (nat \<times> string) option" where
  "get_esc chunk =
     (if chunk = [] \<or> hd chunk = CHR ''-'' \<or> hd chunk = CHR '']'' then None
      else
        let c1 = (if hd chunk = CHR 0x5C then tl chunk else chunk) in
        if c1 = [] then None
        else
          let (r, n) = decode_rune c1; rest = drop n c1 in
          if r = 65533 \<and> n = 1 \<or> rest = [] then None else Some (r, rest))"

lemma get_esc_shorter: "get_esc chunk = Some (r, rest) \<Longrightarrow> length rest < length chunk"
proof -
  have pos: "0 < snd (decode_rune s)" for s by (simp add: decode_rune_def Let_def split: nat.split)
  assume g: "get_esc chunk = Some (r, rest)"
  define c1 where "c1 = (if hd chunk = CHR 0x5C then tl chunk else chunk)"
  have "rest = drop (snd (decode_rune c1)) c1" "c1 \<noteq> []"
    using g by (auto simp: get_esc_def c1_def Let_def split: if_splits prod.splits)
  then have "length rest < length c1" using pos [of c1] by (cases c1) auto
  then show ?thesis by (auto simp: c1_def split: if_splits)
qed

text \<open>The ranges of a class up to its bracket; \<open>None\<close> stands for \<open>ErrBadPattern\<close>.\<close>

function class_match :: "nat \<Rightarrow> bool \<Rightarrow> bool \<Rightarrow> string \<Rightarrow> (bool \<times> string) option" where
  "class_match r some_range matched chunk =
     (if chunk \<noteq> [] \<and> hd chunk = CHR '']'' \<and> some_range then Some (matched, tl chunk)
      else case get_esc chunk of
          None \<Rightarrow> None
        | Some (lo, c1) \<Rightarrow>
            if hd c1 = CHR ''-'' then
              (case get_esc (tl c1) of
                 None \<Rightarrow> None
               | Some (hi, c2) \<Rightarrow> class_match r True (matched \<or> lo \<le> r \<and> r \<le> hi) c2)
            else class_match r True (matched \<or> r = lo) c1)"
  by pat_completeness auto
termination
proof (relation "measure (\<lambda>(r, some_range, matched, chunk). length chunk)", goal_cases)
  case (2 r some_range matched chunk x lo c1 y hi c2)
  then have "length c1 < length chunk" "length c2 < length (tl c1)" using get_esc_shorter by blast+
  then show ?case by simp
next
  case (3 r some_range matched chunk x lo c1)
  then show ?case using get_esc_shorter by fastforce
qed simp

declare class_match.simps [simp del]

lemma class_match_shorter: "class_match r some_range matched chunk = Some (m, rest) \<Longrightarrow> length rest < length chunk"
proof (induction r some_range matched chunk rule: class_match.induct)
  case (1 r some_range matched chunk)
  note m = 1(3) [unfolded class_match.simps [of r some_range matched chunk]]
  show ?case
  proof (cases "chunk \<noteq> [] \<and> hd chunk = CHR '']'' \<and> some_range")
    case True
    then have "rest = tl chunk" using m by simp
    then show ?thesis using True by (cases chunk) auto
  next
    case False
    then obtain lo c1 where g: "get_esc chunk = Some (lo, c1)" using m by (cases "get_esc chunk") auto
    show ?thesis
    proof (cases "hd c1 = CHR ''-''")
      case True
      with m False g obtain hi c2 where h: "get_esc (tl c1) = Some (hi, c2)" by (cases "get_esc (tl c1)") auto
      have "length rest < length c2" using 1(1) [OF False g refl True h refl] m False g True h by auto
      then show ?thesis using get_esc_shorter [OF g] get_esc_shorter [OF h] by simp
    next
      case neq: False
      have "length rest < length c1" using 1(2) [OF False g refl neq] m False g neq by auto
      then show ?thesis using get_esc_shorter [OF g] by simp
    qed
  qed
qed

text \<open>
  \<open>matchChunk\<close>: what is left of the name behind the chunk. The inner option is the match, the outer
  one the pattern; the chunk is read to its end also when the name does not match.
\<close>

function match_chunk :: "string \<Rightarrow> string option \<Rightarrow> string option option" where
  "match_chunk chunk name =
     (case chunk of
        [] \<Rightarrow> Some name
      | c # cs \<Rightarrow>
          let at = (case name of Some (x # xs) \<Rightarrow> Some (x # xs) | _ \<Rightarrow> None) in
          if c = CHR ''['' then
            let (r, name1) = (case at of None \<Rightarrow> (0, None) | Some s \<Rightarrow> (fst (decode_rune s), Some (drop (snd (decode_rune s)) s)));
                negated = (cs \<noteq> [] \<and> hd cs = CHR ''^'') in
            case class_match r False False (if negated then tl cs else cs) of
              None \<Rightarrow> None
            | Some (matched, rest) \<Rightarrow> match_chunk rest (if matched = negated then None else name1)
          else if c = CHR ''?'' then
            match_chunk cs (case at of None \<Rightarrow> None | Some s \<Rightarrow> if hd s = slash then None else Some (drop (snd (decode_rune s)) s))
          else if c = CHR 0x5C \<and> cs = [] then None
          else
            let (d, ds) = (if c = CHR 0x5C then (hd cs, tl cs) else (c, cs)) in
            match_chunk ds (case at of None \<Rightarrow> None | Some s \<Rightarrow> if hd s = d then Some (tl s) else None))"
  by pat_completeness auto
termination
proof (relation "measure (\<lambda>(chunk, name). length chunk)", goal_cases)
  case (2 chunk name c cs at x r name1 negated y matched rest)
  then have "length rest < length (if negated then tl cs else cs)" using class_match_shorter by blast
  then show ?case using 2(1) by (auto split: if_splits)
qed (auto split: if_splits)

declare match_chunk.simps [simp del]

text \<open>The last chunk has to match to the end of the name.\<close>

definition accepted :: "bool \<Rightarrow> string option \<Rightarrow> string option" where
  "accepted at_end m = (case m of None \<Rightarrow> None | Some t \<Rightarrow> if at_end \<and> t \<noteq> [] then None else Some t)"

text \<open>After a star: the first place behind which the chunk matches, not past a separator.\<close>

fun star_match :: "string \<Rightarrow> bool \<Rightarrow> string \<Rightarrow> string option" where
  "star_match chunk at_end [] = None"
| "star_match chunk at_end (c # name) =
     (if c = slash then None
      else case match_chunk chunk (Some name) of
          None \<Rightarrow> None
        | Some m \<Rightarrow> (case accepted at_end m of None \<Rightarrow> star_match chunk at_end name | Some t \<Rightarrow> Some t))"

lemma scan_chunk_pos: "p \<noteq> [] \<Longrightarrow> hd p \<noteq> CHR ''*'' \<Longrightarrow> 0 < scan_chunk False p"
  by (cases "(False, p)" rule: scan_chunk.cases) auto

lemma Match_shorter:
  assumes "pattern \<noteq> []" and "p = dropWhile (\<lambda>c. c = CHR ''*'') pattern"
  shows "length (drop (scan_chunk False p) p) < length pattern"
proof (cases "hd pattern = CHR ''*''")
  case True
  then have "length p < length pattern" using assms length_dropWhile_le [of "\<lambda>c. c = CHR ''*''" "tl pattern"] by (cases pattern) auto
  then show ?thesis by simp
next
  case False
  then have "p = pattern" using assms by (cases pattern) auto
  then show ?thesis using scan_chunk_pos [of p] False assms(1) by simp
qed

text \<open>\<open>filepath.Match\<close>; a malformed pattern matches nothing, as its error is ignored.\<close>

function Match :: "string \<Rightarrow> string \<Rightarrow> bool" where
  "Match pattern name =
     (if pattern = [] then name = []
      else
        let star = (hd pattern = CHR ''*''); p = dropWhile (\<lambda>c. c = CHR ''*'') pattern;
            chunk = take (scan_chunk False p) p; rest = drop (scan_chunk False p) p in
        if star \<and> chunk = [] then slash \<notin> set name
        else case match_chunk chunk (Some name) of
            None \<Rightarrow> False
          | Some ok \<Rightarrow>
              (case accepted (rest = []) ok of
                 Some t \<Rightarrow> Match rest t
               | None \<Rightarrow>
                   if \<not> star then False
                   else case star_match chunk (rest = []) name of None \<Rightarrow> False | Some t \<Rightarrow> Match rest t))"
  by pat_completeness auto
termination
proof (relation "measure (\<lambda>(pattern, name). length pattern)", goal_cases)
  case 1
  then show ?case by simp
next
  case (2 pattern name star p chunk rest ok t)
  show ?case using Match_shorter 2 by simp
next
  case (3 pattern name star p chunk rest ok t)
  show ?case using Match_shorter 3 by simp
qed

declare Match.simps [simp del]

definition excluded :: "string \<Rightarrow> string list \<Rightarrow> bool" where
  "excluded path patterns =
     list_ex (\<lambda>p. p \<noteq> [] \<and>
       (Match p (path_base path) \<or> Match p path \<or> has_prefix path (trim_suffix p ''/'' @ ''/''))) patterns"

end
