(* ===== verification/Backup_Archive.thy ===== *)
theory Backup_Archive
  imports Backup_Names Archive_Extract
begin

text \<open>
  How a backup run writes its archive (backups/runner.go): the walk of \<open>filepath.Walk\<close> over every
  source, and what becomes of each file on the way. The tar writer is the list of its entries and
  the number of bytes that the last header has announced and that have not come: the next header,
  and the end of the archive, fail while bytes are missing.
\<close>

datatype backup_failure =
    Interrupted
  | MissedWriting nat
  | WriteTooLong
  | StageFailed fs_error
  | MoveFailed fs_error
  | NoSecrets backup_error
  | UploadFailed
  | UnknownKind string
  | TooDeep

text \<open>
  The world beside the walk. \<open>lv_stops\<close>: the context has ended, or the disk of the archive fails, by
  the time the walk reaches a path. \<open>lv_read\<close>: what opening and reading a file gives, after \<open>Lstat\<close> has
  seen it with a content.
\<close>

record live =
  lv_stops :: "string \<Rightarrow> bool"
  lv_read :: "string \<Rightarrow> string \<Rightarrow> fs_error + string"

record tar_writer =
  tw_entries :: "archive_entry list"
  tw_missing :: nat
  tw_count :: int
  tw_log :: "(string \<times> fs_error) list"

datatype walk_stop = SkipDir | Fail backup_failure

definition header :: "string \<Rightarrow> typeflag \<Rightarrow> string \<Rightarrow> string \<Rightarrow> archive_entry" where
  "header name flag link content =
     \<lparr> ae_Name = name, ae_Typeflag = flag, ae_Linkname = link, ae_Content = content, ae_Fails = None, ae_OpenFails = None \<rparr>"

definition add_entry :: "archive_entry \<Rightarrow> nat \<Rightarrow> tar_writer \<Rightarrow> tar_writer" where
  "add_entry e missing tw = tw\<lparr>tw_entries := tw_entries tw @ [e], tw_missing := missing\<rparr>"

definition log_skip :: "string \<Rightarrow> fs_error \<Rightarrow> tar_writer \<Rightarrow> tar_writer" where
  "log_skip path e tw = tw\<lparr>tw_log := tw_log tw @ [(path, e)]\<rparr>"

text \<open>A regular file: its header is written before it is opened.\<close>

definition write_file :: "live \<Rightarrow> string \<Rightarrow> string \<Rightarrow> string \<Rightarrow> tar_writer \<Rightarrow> walk_stop option \<times> tar_writer" where
  "write_file lv path rel content tw =
     (case lv_read lv path content of
        Inl e \<Rightarrow> (None, log_skip path e (add_entry (header rel TypeReg [] []) (length content) tw))
      | Inr got \<Rightarrow>
          if length content < length got then (Some (Fail WriteTooLong), tw)
          else (None, (add_entry (header rel TypeReg [] got) (length content - length got) tw)\<lparr>tw_count := tw_count tw + 1\<rparr>))"

text \<open>The function that \<open>archive\<close> hands to \<open>filepath.Walk\<close>.\<close>

definition visit_entry ::
  "live \<Rightarrow> string list \<Rightarrow> string \<Rightarrow> string \<Rightarrow> fs_error + node \<Rightarrow> tar_writer \<Rightarrow> walk_stop option \<times> tar_writer" where
  "visit_entry lv excludes base path info tw =
     (if lv_stops lv path then (Some (Fail Interrupted), tw)
      else case info of
          Inl e \<Rightarrow> (None, log_skip path e tw)
        | Inr nd \<Rightarrow>
            if excluded path excludes then (if nd = Dir then Some SkipDir else None, tw)
            else case filepath_rel base path of
                None \<Rightarrow> (None, tw)
              | Some rel \<Rightarrow>
                  if tw_missing tw > 0 then (Some (Fail (MissedWriting (tw_missing tw))), tw)
                  else case nd of
                      Dir \<Rightarrow> (None, add_entry (header rel TypeDir [] []) 0 tw)
                    | Link target \<Rightarrow> (None, add_entry (header rel TypeSymlink target []) 0 tw)
                    | File content \<Rightarrow> write_file lv path rel content tw)"

subsection \<open>The walk\<close>

text \<open>
  \<open>filepath.Walk\<close>, with fuel for the depth of the tree; \<open>None\<close> when it is used up. A relative path
  names a file below the working directory.
\<close>

definition at_cwd :: "string \<Rightarrow> string \<Rightarrow> string" where
  "at_cwd cwd s = (if is_abs s then s else path_join cwd s)"

type_synonym visitor = "string \<Rightarrow> fs_error + node \<Rightarrow> tar_writer \<Rightarrow> walk_stop option \<times> tar_writer"

text \<open>How the walk goes on behind an entry.\<close>

definition passes :: "bool \<Rightarrow> walk_stop option \<Rightarrow> bool" where
  "passes is_dir stop = (stop = None \<or> is_dir \<and> stop = Some SkipDir)"

function walk_tree :: "nat \<Rightarrow> fs \<Rightarrow> string \<Rightarrow> visitor \<Rightarrow> string \<Rightarrow> node \<Rightarrow> tar_writer \<Rightarrow> (walk_stop option \<times> tar_writer) option"
  and walk_names :: "nat \<Rightarrow> fs \<Rightarrow> string \<Rightarrow> visitor \<Rightarrow> string \<Rightarrow> string list \<Rightarrow> tar_writer \<Rightarrow> (walk_stop option \<times> tar_writer) option"
  where
  "walk_tree 0 fs cwd f path nd tw = None"
| "walk_tree (Suc n) fs cwd f path nd tw =
     (if nd \<noteq> Dir then Some (f path (Ok nd) tw)
      else case read_dir fs (at_cwd cwd path) of
          Inl e \<Rightarrow> Some (f path (Err e) tw)
        | Inr names \<Rightarrow>
            (case f path (Ok nd) tw of
               (Some stop, tw1) \<Rightarrow> Some (Some stop, tw1)
             | (None, tw1) \<Rightarrow> walk_names n fs cwd f path names tw1))"
| "walk_names n fs cwd f path [] tw = Some (None, tw)"
| "walk_names n fs cwd f path (name # names) tw =
     (let filename = path_join path name in
      case lstat fs (at_cwd cwd filename) of
        Inl e \<Rightarrow>
          (case f filename (Err e) tw of
             (stop, tw1) \<Rightarrow> if passes True stop then walk_names n fs cwd f path names tw1 else Some (stop, tw1))
      | Inr nd \<Rightarrow>
          (case walk_tree n fs cwd f filename nd tw of
             None \<Rightarrow> None
           | Some (stop, tw1) \<Rightarrow>
               if passes (nd = Dir) stop then walk_names n fs cwd f path names tw1 else Some (stop, tw1)))"
  by pat_completeness auto
termination
  by (relation "measures
      [\<lambda>x. case x of Inl (n, fs, cwd, f, path, nd, tw) \<Rightarrow> 2 * n | Inr (n, fs, cwd, f, path, names, tw) \<Rightarrow> 2 * n + 1,
       \<lambda>x. case x of Inl _ \<Rightarrow> 0 | Inr (n, fs, cwd, f, path, names, tw) \<Rightarrow> length names]") auto

definition Walk :: "nat \<Rightarrow> fs \<Rightarrow> string \<Rightarrow> visitor \<Rightarrow> string \<Rightarrow> tar_writer \<Rightarrow> (backup_failure option \<times> tar_writer) option" where
  "Walk n fs cwd f root tw =
     (let result = (case lstat fs (at_cwd cwd root) of
          Inl e \<Rightarrow> Some (f root (Err e) tw)
        | Inr nd \<Rightarrow> walk_tree n fs cwd f root nd tw) in
      map_option (\<lambda>(stop, tw1). (case stop of Some (Fail x) \<Rightarrow> Some x | _ \<Rightarrow> None, tw1)) result)"

text \<open>The loop over the sources, the end of the archive, and \<open>archive\<close> itself.\<close>

fun walk_sources ::
  "nat \<Rightarrow> fs \<Rightarrow> string \<Rightarrow> live \<Rightarrow> string list \<Rightarrow> string list \<Rightarrow> tar_writer \<Rightarrow> (backup_failure option \<times> tar_writer) option" where
  "walk_sources n fs cwd lv excludes [] tw = Some (None, tw)"
| "walk_sources n fs cwd lv excludes (source # sources) tw =
     (if lv_stops lv source then Some (Some Interrupted, tw)
      else
        let root = clean source in
        case Walk n fs cwd (visit_entry lv excludes (path_dir root)) root tw of
          None \<Rightarrow> None
        | Some (Some x, tw1) \<Rightarrow> Some (Some x, tw1)
        | Some (None, tw1) \<Rightarrow> walk_sources n fs cwd lv excludes sources tw1)"

definition new_writer :: tar_writer where
  "new_writer = \<lparr> tw_entries = [], tw_missing = 0, tw_count = 0, tw_log = [] \<rparr>"

text \<open>No chain of directories is longer than the number of nodes.\<close>

definition collect_entries :: "fs \<Rightarrow> string \<Rightarrow> live \<Rightarrow> string list \<Rightarrow> string list \<Rightarrow> backup_failure + tar_writer" where
  "collect_entries fs cwd lv excludes sources =
     (case walk_sources (Suc (length fs)) fs cwd lv excludes sources new_writer of
        None \<Rightarrow> Err TooDeep
      | Some (Some x, tw) \<Rightarrow> Err x
      | Some (None, tw) \<Rightarrow> if tw_missing tw > 0 then Err (MissedWriting (tw_missing tw)) else Ok tw)"

end
