(* ===== verification/Backup_Runner.thy ===== *)
theory Backup_Runner
  imports Backup_Archive
begin

text \<open>
  The runner of backups (backups/runner.go) and the restore of a run (backups/restore.go). The bytes of
  an archive are made and read by \<open>codec\<close>, which stands for archive/tar and compress/gzip; the object
  storage behind the S3 client is a parameter with a state of its own. A run of \<open>Execute\<close> is one step,
  except for what its arguments say of the world beside it.
\<close>

record codec =
  cd_pack :: "archive_entry list \<Rightarrow> string"
  cd_unpack :: "string \<Rightarrow> extract_error + item list"

record 'o objects =
  ob_upload :: "backup_job \<Rightarrow> TargetSecrets \<Rightarrow> string \<Rightarrow> string \<Rightarrow> 'o \<Rightarrow> bool \<times> 'o"
  ob_delete :: "backup_job \<Rightarrow> TargetSecrets \<Rightarrow> string \<Rightarrow> 'o \<Rightarrow> bool \<times> 'o"
  ob_download :: "backup_job \<Rightarrow> TargetSecrets \<Rightarrow> string \<Rightarrow> 'o \<Rightarrow> string option"

record 'o runner =
  rn_stage :: string
  rn_cwd :: string
  rn_sealer :: Sealer
  rn_codec :: codec
  rn_objects :: "'o objects"

record 'o backup_world =
  bw_fs :: fs
  bw_objects :: 'o
  bw_db :: backup_db
  bw_running :: "int list"
  bw_reading :: "int \<Rightarrow> nat"

text \<open>One execution: when it starts and ends, the world beside its walk, and whether its context has ended meanwhile.\<close>

record execution =
  ex_start :: unix_seconds
  ex_end :: unix_seconds
  ex_live :: live
  ex_expired :: bool

subsection \<open>Readers\<close>

definition beginRead :: "int \<Rightarrow> 'o backup_world \<Rightarrow> 'o backup_world" where
  "beginRead runID w = w\<lparr>bw_reading := (bw_reading w)(runID := bw_reading w runID + 1)\<rparr>"

definition endRead :: "int \<Rightarrow> 'o backup_world \<Rightarrow> 'o backup_world" where
  "endRead runID w =
     w\<lparr>bw_reading := (bw_reading w)(runID := if bw_reading w runID \<le> 1 then 0 else bw_reading w runID - 1)\<rparr>"

definition beingRead :: "'o backup_world \<Rightarrow> int \<Rightarrow> bool" where
  "beingRead w runID = (bw_reading w runID > 0)"

definition IsRunning :: "'o backup_world \<Rightarrow> int \<Rightarrow> bool" where
  "IsRunning w jobID = (jobID \<in> set (bw_running w))"

subsection \<open>Writing and moving the archive\<close>

definition archive_file ::
  "'o runner \<Rightarrow> live \<Rightarrow> backup_job \<Rightarrow> string \<Rightarrow> fs \<Rightarrow> (backup_failure + int) \<times> fs" where
  "archive_file rn lv job dest fs =
     (case sys_open_trunc max_links fs dest of
        (Inl e, fs1) \<Rightarrow> (Err (StageFailed e), fs1)
      | (Inr fd, fs1) \<Rightarrow>
          (case collect_entries fs1 (rn_cwd rn) lv (bj_Excludes job) (bj_Sources job) of
             Inl x \<Rightarrow> (Err x, fs1)
           | Inr tw \<Rightarrow>
               let content = cd_pack (rn_codec rn) (tw_entries tw) in
               (Ok (int (length content)), put fd (File content) fs1)))"

text \<open>\<open>moveFile\<close>: a rename, or else a copy and a removal.\<close>

definition moveFile :: "fs \<Rightarrow> string \<Rightarrow> string \<Rightarrow> (fs_error option) \<times> fs" where
  "moveFile fs src dst =
     (case os_rename fs src dst of
        (None, fs1) \<Rightarrow> (None, fs1)
      | (Some _, fs1) \<Rightarrow>
          (case read_file fs1 src of
             Inl e \<Rightarrow> (Some e, fs1)
           | Inr content \<Rightarrow>
               (case sys_open_trunc max_links fs1 dst of
                  (Inl e, fs2) \<Rightarrow> (Some e, fs2)
                | (Inr fd, fs2) \<Rightarrow> sys_remove (put fd (File content) fs2) src)))"

definition store_local :: "string \<Rightarrow> string \<Rightarrow> backup_job \<Rightarrow> string \<Rightarrow> fs \<Rightarrow> (backup_failure + string) \<times> fs" where
  "store_local cwd local job name fs =
     (let dir = at_cwd cwd (tc_Path (bj_Target job)); dest = path_join (tc_Path (bj_Target job)) name in
      case mkdir_all fs dir of
        (Some e, fs1) \<Rightarrow> (Err (StageFailed e), fs1)
      | (None, fs1) \<Rightarrow>
          (case moveFile fs1 local (at_cwd cwd dest) of
             (Some e, fs2) \<Rightarrow> (Err (MoveFailed e), fs2)
           | (None, fs2) \<Rightarrow> (Ok dest, fs2)))"

definition store_remote ::
  "'o runner \<Rightarrow> string \<Rightarrow> backup_job \<Rightarrow> string \<Rightarrow> 'o backup_world \<Rightarrow> (backup_failure + string) \<times> 'o backup_world" where
  "store_remote rn local job name w =
     (let cleanup = (\<lambda>v. v\<lparr>bw_fs := snd (sys_remove (bw_fs v) local)\<rparr>) in
      case Secrets (rn_sealer rn) (bw_db w) (bj_ID job) of
        Inl e \<Rightarrow> (Err (NoSecrets e), cleanup w)
      | Inr secrets \<Rightarrow>
          let key = trim_prefix (path_join (tc_Prefix (bj_Target job)) name) ''/'' in
          case read_file (bw_fs w) local of
            Inl e \<Rightarrow> (Err (StageFailed e), cleanup w)
          | Inr content \<Rightarrow>
              (case ob_upload (rn_objects rn) job secrets key content (bw_objects w) of
                 (False, o1) \<Rightarrow> (Err UploadFailed, cleanup (w\<lparr>bw_objects := o1\<rparr>))
               | (True, o1) \<Rightarrow> (Ok key, cleanup (w\<lparr>bw_objects := o1\<rparr>))))"

definition perform ::
  "'o runner \<Rightarrow> live \<Rightarrow> unix_seconds \<Rightarrow> backup_job \<Rightarrow> 'o backup_world \<Rightarrow> (backup_failure + string \<times> int) \<times> 'o backup_world" where
  "perform rn lv now job w =
     (case mkdir_all (bw_fs w) (rn_stage rn) of
        (Some e, fs1) \<Rightarrow> (Err (StageFailed e), w\<lparr>bw_fs := fs1\<rparr>)
      | (None, fs1) \<Rightarrow>
          let name = artifact_name job now; local = path_join (rn_stage rn) name in
          case archive_file rn lv job local fs1 of
            (Inl x, fs2) \<Rightarrow> (Err x, w\<lparr>bw_fs := snd (sys_remove fs2 local)\<rparr>)
          | (Inr bytes, fs2) \<Rightarrow>
              (case bj_TargetKind job of
                 TargetLocal \<Rightarrow>
                   (case store_local (rn_cwd rn) local job name fs2 of
                      (Inl x, fs3) \<Rightarrow> (Err x, w\<lparr>bw_fs := fs3\<rparr>)
                    | (Inr dest, fs3) \<Rightarrow> (Ok (dest, bytes), w\<lparr>bw_fs := fs3\<rparr>))
               | TargetOther kind \<Rightarrow> (Err (UnknownKind kind), w\<lparr>bw_fs := fs2\<rparr>)
               | _ \<Rightarrow>
                   (case store_remote rn local job name (w\<lparr>bw_fs := fs2\<rparr>) of
                      (Inl x, w1) \<Rightarrow> (Err x, w1)
                    | (Inr key, w1) \<Rightarrow> (Ok (key, bytes), w1))))"

subsection \<open>Retention\<close>

text \<open>One old run: it stays while it is read, and when its object cannot be deleted.\<close>

definition drop_run :: "'o runner \<Rightarrow> backup_job \<Rightarrow> TargetSecrets \<Rightarrow> backup_run \<Rightarrow> 'o backup_world \<Rightarrow> 'o backup_world" where
  "drop_run rn job secrets old w =
     (let forget = (\<lambda>v. v\<lparr>bw_db := DeleteRun (br_ID old) (bw_db v)\<rparr>) in
      if beingRead w (br_ID old) then w
      else if bj_TargetKind job = TargetLocal then
        forget (w\<lparr>bw_fs := snd (sys_remove (bw_fs w) (at_cwd (rn_cwd rn) (br_Artifact old)))\<rparr>)
      else case ob_delete (rn_objects rn) job secrets (br_Artifact old) (bw_objects w) of
          (False, o1) \<Rightarrow> w\<lparr>bw_objects := o1\<rparr>
        | (True, o1) \<Rightarrow> forget (w\<lparr>bw_objects := o1\<rparr>))"

definition prune_runs :: "'o runner \<Rightarrow> backup_job \<Rightarrow> 'o backup_world \<Rightarrow> 'o backup_world" where
  "prune_runs rn job w =
     (let runs = SuccessfulRuns (bw_db w) (bj_ID job) in
      if bj_Retention job \<le> 0 \<or> int (length runs) \<le> bj_Retention job then w
      else
        let old = drop (nat (bj_Retention job)) runs in
        if bj_TargetKind job = TargetLocal
        then fold (drop_run rn job \<lparr> ts_AccessKeyID = [], ts_SecretAccessKey = [] \<rparr>) old w
        else case Secrets (rn_sealer rn) (bw_db w) (bj_ID job) of
            Inl _ \<Rightarrow> w
          | Inr secrets \<Rightarrow> fold (drop_run rn job secrets) old w)"

subsection \<open>A run\<close>

text \<open>What follows the claim of the job. Statements fail once the context has ended.\<close>

definition run_job ::
  "'o runner \<Rightarrow> execution \<Rightarrow> int \<Rightarrow> string \<Rightarrow> 'o backup_world \<Rightarrow> (backup_error + backup_run) \<times> 'o backup_world" where
  "run_job rn ex jobID trigger w =
     (case GetJob (bw_db w) jobID of
        Inl e \<Rightarrow> (Err e, w)
      | Inr job \<Rightarrow>
          (case StartRun jobID trigger (ex_start ex) (bw_db w) of
             (Inl e, db1) \<Rightarrow> (Err e, w\<lparr>bw_db := db1\<rparr>)
           | (Inr runID, db1) \<Rightarrow>
               (case perform rn (ex_live ex) (ex_start ex) job (w\<lparr>bw_db := db1\<rparr>) of
                  (result, w1) \<Rightarrow>
                    if ex_expired ex then (Err ContextDone, w1)
                    else case result of
                        Inl _ \<Rightarrow>
                          (let w2 = w1\<lparr>bw_db := FinishRun runID StatusFailed [] 0 (ex_end ex) (bw_db w1)\<rparr> in
                           (RunByID (bw_db w2) runID, w2))
                      | Inr (artifact, bytes) \<Rightarrow>
                          (let w2 = w1\<lparr>bw_db := FinishRun runID StatusSuccess artifact bytes (ex_end ex) (bw_db w1)\<rparr>;
                               w3 = prune_runs rn job w2 in
                           (RunByID (bw_db w3) runID, w3)))))"

definition Execute ::
  "'o runner \<Rightarrow> execution \<Rightarrow> int \<Rightarrow> string \<Rightarrow> 'o backup_world \<Rightarrow> (backup_error + backup_run) \<times> 'o backup_world" where
  "Execute rn ex jobID trigger w =
     (if jobID \<in> set (bw_running w) then (Err ErrAlreadyRunning, w)
      else
        let (r, w1) = run_job rn ex jobID trigger (w\<lparr>bw_running := jobID # bw_running w\<rparr>) in
        (r, w1\<lparr>bw_running := removeAll jobID (bw_running w1)\<rparr>))"

subsection \<open>Restoring a run\<close>

datatype restore_failure = Lookup backup_error | HostFailed fs_error | DownloadFailed | BadArchive extract_error

text \<open>
  The artifact of a run as a local file: the file itself, or a copy in the staging directory with the
  given prefix, which is removed afterwards.
\<close>

definition artifact_file ::
  "'o runner \<Rightarrow> string \<Rightarrow> backup_job \<Rightarrow> backup_run \<Rightarrow> 'o backup_world \<Rightarrow> (restore_failure + string) \<times> fs" where
  "artifact_file rn pre job run w =
     (if bj_TargetKind job = TargetLocal then (Ok (at_cwd (rn_cwd rn) (br_Artifact run)), bw_fs w)
      else case Secrets (rn_sealer rn) (bw_db w) (bj_ID job) of
          Inl e \<Rightarrow> (Err (Lookup e), bw_fs w)
        | Inr secrets \<Rightarrow>
            (case mkdir_all (bw_fs w) (rn_stage rn) of
               (Some e, fs1) \<Rightarrow> (Err (HostFailed e), fs1)
             | (None, fs1) \<Rightarrow>
                 let file = path_join (rn_stage rn) (pre @ path_base (br_Artifact run)) in
                 case ob_download (rn_objects rn) job secrets (br_Artifact run) (bw_objects w) of
                   None \<Rightarrow> (Err DownloadFailed, snd (sys_remove fs1 file))
                 | Some content \<Rightarrow>
                     (case sys_open_trunc max_links fs1 file of
                        (Inl e, fs2) \<Rightarrow> (Err (HostFailed e), snd (sys_remove fs2 file))
                      | (Inr fd, fs2) \<Rightarrow> (Ok file, put fd (File content) fs2))))"

definition cleanup_file :: "backup_job \<Rightarrow> string \<Rightarrow> fs \<Rightarrow> fs" where
  "cleanup_file job file fs = (if bj_TargetKind job = TargetLocal then fs else snd (sys_remove fs file))"

definition read_archive :: "'o runner \<Rightarrow> fs \<Rightarrow> string \<Rightarrow> restore_failure + item list" where
  "read_archive rn fs file =
     (case read_file fs file of
        Inl e \<Rightarrow> Err (HostFailed e)
      | Inr content \<Rightarrow> (case cd_unpack (rn_codec rn) content of Inl e \<Rightarrow> Err (BadArchive e) | Inr items \<Rightarrow> Ok items))"

definition restorable :: "backup_db \<Rightarrow> int \<Rightarrow> backup_error + backup_job \<times> backup_run" where
  "restorable db runID =
     bindr (RunByID db runID) (\<lambda>run.
     bindr (guardr (br_Status run = StatusSuccess \<and> br_Artifact run \<noteq> []) (NoArtifact runID)) (\<lambda>_.
     bindr (GetJob db (br_JobID run)) (\<lambda>job. Ok (job, run))))"

definition empty_result :: RestoreResult where
  "empty_result = \<lparr> rr_Entries = 0, rr_Bytes = 0, rr_Skipped = [] \<rparr>"

definition Restore ::
  "'o runner \<Rightarrow> int \<Rightarrow> string \<Rightarrow> 'o backup_world \<Rightarrow> (RestoreResult \<times> restore_failure option) \<times> fs" where
  "Restore rn runID destination w =
     (case restorable (bw_db w) runID of
        Inl e \<Rightarrow> ((empty_result, Some (Lookup e)), bw_fs w)
      | Inr (job, run) \<Rightarrow>
          let dest = path_abs (rn_cwd rn) (clean destination) in
          if dest = ''/'' then ((empty_result, Some (Lookup RestoreOverRoot)), bw_fs w)
          else case mkdir_all (bw_fs w) dest of
              (Some e, fs1) \<Rightarrow> ((empty_result, Some (HostFailed e)), fs1)
            | (None, fs1) \<Rightarrow>
                (case artifact_file rn ''restore-'' job run (w\<lparr>bw_fs := fs1\<rparr>) of
                   (Inl e, fs2) \<Rightarrow> ((empty_result, Some e), fs2)
                 | (Inr file, fs2) \<Rightarrow>
                     (case read_archive rn fs2 file of
                        Inl e \<Rightarrow> ((empty_result, Some e), cleanup_file job file fs2)
                      | Inr items \<Rightarrow>
                          (let ((r, err), fs3) = extractArchive dest items empty_result fs2 in
                           ((r, map_option BadArchive err), cleanup_file job file fs3)))))"

text \<open>\<open>ListArchive\<close>: the headers up to the limit; a broken archive ends the list with its error.\<close>

fun list_items :: "nat \<Rightarrow> item list \<Rightarrow> archive_entry list \<times> extract_error option" where
  "list_items 0 items = ([], None)"
| "list_items n [] = ([], None)"
| "list_items (Suc n) (Broken e # items) = ([], Some e)"
| "list_items (Suc n) (Entry e # items) = (let (es, err) = list_items n items in (e # es, err))"

definition ListArchive ::
  "'o runner \<Rightarrow> int \<Rightarrow> int \<Rightarrow> 'o backup_world \<Rightarrow> (archive_entry list \<times> restore_failure option) \<times> fs" where
  "ListArchive rn runID limit w =
     (case restorable (bw_db w) runID of
        Inl e \<Rightarrow> (([], Some (Lookup e)), bw_fs w)
      | Inr (job, run) \<Rightarrow>
          (case artifact_file rn ''list-'' job run w of
             (Inl e, fs1) \<Rightarrow> (([], Some e), fs1)
           | (Inr file, fs1) \<Rightarrow>
               (case read_archive rn fs1 file of
                  Inl e \<Rightarrow> (([], Some e), cleanup_file job file fs1)
                | Inr items \<Rightarrow>
                    (let (es, err) = list_items (nat (if limit \<le> 0 \<or> limit > 20000 then 2000 else limit)) items in
                     ((es, map_option BadArchive err), cleanup_file job file fs1)))))"

end
