(* ===== verification/Files_Service.thy ===== *)
theory Files_Service
  imports Host_Ops Archive_Extract
begin

text \<open>
  The file manager (files/files.go): how a path that comes from a client is resolved against the
  configured roots, and the operations on the resolved paths. File modes, owners and times are left
  out, so \<open>Chmod\<close> and \<open>Chown\<close> are not modelled and \<open>Touch\<close> of an existing file changes nothing. What a
  failing disk does to a save is an argument of \<open>Write\<close>.
\<close>

datatype file_error =
    ErrOutsideRoot
  | ErrTooLarge
  | ErrIsDir
  | ErrNotDir
  | FsError fs_error
  | RefusingRoot string
  | ArchiveNoSpace
  | UnsupportedFormat
  | Extraction extract_error

subsection \<open>Roots and resolution\<close>

record files_service =
  sv_roots :: "string list"
  sv_cwd :: string

definition new_service :: "string \<Rightarrow> string list \<Rightarrow> files_service" where
  "new_service cwd roots =
     (let cleaned = map (\<lambda>r. clean (path_abs cwd r)) roots in
      \<lparr> sv_roots = (if cleaned = [] then [[slash]] else cleaned), sv_cwd = cwd \<rparr>)"

definition within :: "files_service \<Rightarrow> string \<Rightarrow> bool" where
  "within sv asked =
     list_ex (\<lambda>root. root = [slash] \<or> asked = root \<or> has_prefix asked (root @ [slash])) (sv_roots sv)"

text \<open>
  One round of \<open>resolveFromExistingAncestor\<close>: \<open>None\<close> when the path is missing and the search goes on
  with its parent.
\<close>

definition resolve_existing :: "fs \<Rightarrow> string \<Rightarrow> path \<Rightarrow> (fs_error + string) option" where
  "resolve_existing fs current missing =
     (case eval_symlinks fs current of
        Inr resolved \<Rightarrow> Some (Ok (fold (\<lambda>name s. path_join s name) missing resolved))
      | Inl e \<Rightarrow>
          if e \<noteq> ENOENT then Some (Err e)
          else case lstat fs current of
              Inr _ \<Rightarrow> Some (Err e)
            | Inl e2 \<Rightarrow> if e2 \<noteq> ENOENT then Some (Err e2) else None)"

text \<open>The loop over the components of a clean absolute path, from the last one up.\<close>

fun resolve_rev :: "fs \<Rightarrow> path \<Rightarrow> path \<Rightarrow> fs_error + string" where
  "resolve_rev fs [] missing =
     (case resolve_existing fs (render []) missing of Some r \<Rightarrow> r | None \<Rightarrow> Err ENOENT)"
| "resolve_rev fs (c # cs) missing =
     (case resolve_existing fs (render (rev (c # cs))) missing of
        Some r \<Rightarrow> r
      | None \<Rightarrow> resolve_rev fs cs (c # missing))"

definition resolveFromExistingAncestor :: "fs \<Rightarrow> string \<Rightarrow> fs_error + string" where
  "resolveFromExistingAncestor fs s = resolve_rev fs (rev (comps s)) []"

definition requested :: "files_service \<Rightarrow> string \<Rightarrow> string" where
  "requested sv path = path_abs (sv_cwd sv) (clean (if path = [] then hd (sv_roots sv) else path))"

definition Resolve :: "files_service \<Rightarrow> fs \<Rightarrow> string \<Rightarrow> file_error + string" where
  "Resolve sv fs path =
     (let asked = requested sv path in
      if \<not> within sv asked then Err ErrOutsideRoot
      else case resolveFromExistingAncestor fs asked of
          Inl e \<Rightarrow> Err (FsError e)
        | Inr resolved \<Rightarrow> if within sv resolved then Ok resolved else Err ErrOutsideRoot)"

definition ResolveEntry :: "files_service \<Rightarrow> fs \<Rightarrow> string \<Rightarrow> file_error + string" where
  "ResolveEntry sv fs path =
     (let asked = requested sv path in
      if \<not> within sv asked then Err ErrOutsideRoot
      else if asked \<in> set (sv_roots sv) then Ok asked
      else case resolveFromExistingAncestor fs (path_dir asked) of
          Inl e \<Rightarrow> Err (FsError e)
        | Inr parent \<Rightarrow> if within sv parent then Ok (path_join parent (path_base asked)) else Err ErrOutsideRoot)"

subsection \<open>Operations\<close>

text \<open>A call of the operating system on a resolved path.\<close>

definition on_path ::
  "file_error + string \<Rightarrow> (string \<Rightarrow> file_error option \<times> fs) \<Rightarrow> fs \<Rightarrow> file_error option \<times> fs" where
  "on_path resolved f fs = (case resolved of Inl e \<Rightarrow> (Some e, fs) | Inr full \<Rightarrow> f full)"

definition os_error :: "fs_error option \<times> fs \<Rightarrow> file_error option \<times> fs" where
  "os_error r = (map_option FsError (fst r), snd r)"

definition maxEditBytes :: int where
  "maxEditBytes = 8 * 2 ^ 20"

definition looksBinary :: "string \<Rightarrow> bool" where
  "looksBinary b = list_ex (\<lambda>c. c = CHR 0x00) (take 1024 b)"

record FileContent =
  fc_Path :: string
  fc_Content :: string
  fc_Size :: int
  fc_Binary :: bool

definition Read :: "files_service \<Rightarrow> fs \<Rightarrow> string \<Rightarrow> file_error + FileContent" where
  "Read sv fs path =
     bindr (Resolve sv fs path) (\<lambda>full.
       case stat fs full of
         Inl e \<Rightarrow> Err (FsError e)
       | Inr Dir \<Rightarrow> Err ErrIsDir
       | Inr (Link _) \<Rightarrow> Err (FsError ELOOP)
       | Inr (File b) \<Rightarrow>
           if int (length b) > maxEditBytes then Err ErrTooLarge
           else case read_file fs full of
               Inl e \<Rightarrow> Err (FsError e)
             | Inr b \<Rightarrow> Ok \<lparr> fc_Path = full, fc_Content = (if looksBinary b then [] else b), fc_Size = int (length b),
                 fc_Binary = looksBinary b \<rparr>)"

text \<open>
  \<open>tmp\<close> is what \<open>os.CreateTemp\<close> appends to the name, \<open>fault\<close> what was written before the disk failed,
  and how. The deferred removal of the temporary file runs on every way out.
\<close>

definition save :: "fs \<Rightarrow> string \<Rightarrow> string \<Rightarrow> string \<Rightarrow> (string \<times> fs_error) option \<Rightarrow> (fs_error option) \<times> fs" where
  "save fs full content tmp fault =
     (let tmpName = path_join (path_dir full) (''.vpsd-'' @ tmp) in
      case sys_create_new fs tmpName of
        (Inl e, fs1) \<Rightarrow> (Some e, fs1)
      | (Inr fd, fs1) \<Rightarrow>
          (let (err, fs2) = (case fault of
               Some (part, e) \<Rightarrow> (Some e, put fd (File part) fs1)
             | None \<Rightarrow> os_rename (put fd (File content) fs1) tmpName full) in
           (err, snd (sys_remove fs2 tmpName))))"

definition Write ::
  "files_service \<Rightarrow> fs \<Rightarrow> string \<Rightarrow> string \<Rightarrow> string \<Rightarrow> (string \<times> fs_error) option \<Rightarrow> file_error option \<times> fs" where
  "Write sv fs path content tmp fault =
     on_path (Resolve sv fs path) (\<lambda>full.
       if stat fs full = Ok Dir then (Some ErrIsDir, fs) else os_error (save fs full content tmp fault)) fs"

definition Mkdir :: "files_service \<Rightarrow> fs \<Rightarrow> string \<Rightarrow> file_error option \<times> fs" where
  "Mkdir sv fs path = on_path (Resolve sv fs path) (\<lambda>full. os_error (mkdir_all fs full)) fs"

definition create_new :: "fs \<Rightarrow> string \<Rightarrow> (fs_error option) \<times> fs" where
  "create_new fs s = (case sys_create_new fs s of (Inl e, fs1) \<Rightarrow> (Some e, fs1) | (Inr _, fs1) \<Rightarrow> (None, fs1))"

definition Touch :: "files_service \<Rightarrow> fs \<Rightarrow> string \<Rightarrow> file_error option \<times> fs" where
  "Touch sv fs path =
     on_path (Resolve sv fs path) (\<lambda>full.
       case stat fs full of Inr _ \<Rightarrow> (None, fs) | Inl _ \<Rightarrow> os_error (create_new fs full)) fs"

definition Delete :: "files_service \<Rightarrow> fs \<Rightarrow> string \<Rightarrow> bool \<Rightarrow> file_error option \<times> fs" where
  "Delete sv fs path recursive =
     on_path (ResolveEntry sv fs path) (\<lambda>full.
       if full \<in> set (sv_roots sv) then (Some (RefusingRoot full), fs)
       else os_error (if recursive then remove_all fs full else sys_remove fs full)) fs"

text \<open>Where an entry that is moved or copied to a path goes: into a directory that is there, links followed.\<close>

definition into_directory :: "fs \<Rightarrow> string \<Rightarrow> string \<Rightarrow> string" where
  "into_directory fs src dst = (if stat fs dst = Ok Dir then path_join dst (path_base src) else dst)"

definition Move :: "files_service \<Rightarrow> fs \<Rightarrow> string \<Rightarrow> string \<Rightarrow> file_error option \<times> fs" where
  "Move sv fs from_path to_path =
     on_path (ResolveEntry sv fs from_path) (\<lambda>src.
       on_path (ResolveEntry sv fs to_path) (\<lambda>dst. os_error (os_rename fs src (into_directory fs src dst))) fs) fs"

text \<open>
  \<open>copyPath\<close>, with fuel for the depth of the calls. A regular file is opened before the destination is
  truncated, and read after that.
\<close>

definition copy_file :: "fs \<Rightarrow> string \<Rightarrow> string \<Rightarrow> (fs_error option) \<times> fs" where
  "copy_file fs src dst =
     (case walk fs max_links [] (comps src) of
        Inl e \<Rightarrow> (Some e, fs)
      | Inr fd_in \<Rightarrow>
          (case sys_open_trunc max_links fs dst of
             (Inl e, fs1) \<Rightarrow> (Some e, fs1)
           | (Inr fd, fs1) \<Rightarrow>
               (case node_at fs1 fd_in of
                  Some (File content) \<Rightarrow> (None, put fd (File content) fs1)
                | _ \<Rightarrow> (Some EISDIR, fs1))))"

fun copyPath :: "nat \<Rightarrow> fs \<Rightarrow> string \<Rightarrow> string \<Rightarrow> ((fs_error option) \<times> fs) option"
  and copyEntries :: "nat \<Rightarrow> fs \<Rightarrow> string \<Rightarrow> string \<Rightarrow> string list \<Rightarrow> ((fs_error option) \<times> fs) option" where
  "copyPath 0 fs src dst = None"
| "copyPath (Suc n) fs src dst =
     (case lstat fs src of
        Inl e \<Rightarrow> Some (Some e, fs)
      | Inr (Link _) \<Rightarrow>
          (case read_link fs src of Inl e \<Rightarrow> Some (Some e, fs) | Inr target \<Rightarrow> Some (sys_symlink fs target dst))
      | Inr Dir \<Rightarrow>
          (case mkdir_all fs dst of
             (Some e, fs1) \<Rightarrow> Some (Some e, fs1)
           | (None, fs1) \<Rightarrow>
               (case read_dir fs1 src of
                  Inl e \<Rightarrow> Some (Some e, fs1)
                | Inr names \<Rightarrow> copyEntries n fs1 src dst names))
      | Inr (File _) \<Rightarrow> Some (copy_file fs src dst))"
| "copyEntries n fs src dst [] = Some (None, fs)"
| "copyEntries 0 fs src dst (name # names) = None"
| "copyEntries (Suc n) fs src dst (name # names) =
     (case copyPath n fs (path_join src name) (path_join dst name) of
        None \<Rightarrow> None
      | Some (Some e, fs1) \<Rightarrow> Some (Some e, fs1)
      | Some (None, fs1) \<Rightarrow> copyEntries n fs1 src dst names)"

definition Copy :: "files_service \<Rightarrow> nat \<Rightarrow> fs \<Rightarrow> string \<Rightarrow> string \<Rightarrow> (file_error option \<times> fs) option" where
  "Copy sv n fs from_path to_path =
     (case ResolveEntry sv fs from_path of
        Inl e \<Rightarrow> Some (Some e, fs)
      | Inr src \<Rightarrow>
          (case ResolveEntry sv fs to_path of
             Inl e \<Rightarrow> Some (Some e, fs)
           | Inr dst \<Rightarrow> map_option os_error (copyPath n fs src (into_directory fs src dst))))"

definition Symlink :: "files_service \<Rightarrow> fs \<Rightarrow> string \<Rightarrow> string \<Rightarrow> file_error option \<times> fs" where
  "Symlink sv fs target link =
     on_path (ResolveEntry sv fs link) (\<lambda>full.
       case Resolve sv fs (if is_abs target then target else path_join (path_dir full) target) of
         Inl _ \<Rightarrow> (Some ErrOutsideRoot, fs)
       | Inr _ \<Rightarrow> os_error (sys_symlink fs target full)) fs"

text \<open>The destination of an upload, with the content that is streamed into it.\<close>

definition Create :: "files_service \<Rightarrow> fs \<Rightarrow> string \<Rightarrow> bool \<Rightarrow> string \<Rightarrow> file_error option \<times> fs" where
  "Create sv fs path overwrite content =
     on_path (Resolve sv fs path) (\<lambda>full.
       case (if overwrite then sys_open_trunc max_links fs full else sys_create_new fs full) of
         (Inl e, fs1) \<Rightarrow> (Some (FsError e), fs1)
       | (Inr fd, fs1) \<Rightarrow> (None, put fd (File content) fs1)) fs"

text \<open>\<open>Stat\<close>: the entry itself, and for a link also what it leads to.\<close>

record Entry_info =
  ei_Name :: string
  ei_Path :: string
  ei_Size :: int
  ei_IsDir :: bool
  ei_IsSymlink :: bool
  ei_LinkTarget :: string
  ei_LinkBroken :: bool

definition node_size :: "node \<Rightarrow> int" where
  "node_size nd = (case nd of File content \<Rightarrow> int (length content) | Link target \<Rightarrow> int (length target) | Dir \<Rightarrow> 0)"

definition entry_info :: "fs \<Rightarrow> string \<Rightarrow> string \<Rightarrow> fs_error + Entry_info" where
  "entry_info fs full name =
     bindr (lstat fs full) (\<lambda>li.
       let e = \<lparr> ei_Name = name, ei_Path = full, ei_Size = node_size li, ei_IsDir = (li = Dir),
                 ei_IsSymlink = False, ei_LinkTarget = [], ei_LinkBroken = False \<rparr> in
       case li of
         Link target \<Rightarrow>
           (let e1 = e\<lparr>ei_IsSymlink := True, ei_LinkTarget := target\<rparr> in
            case stat fs full of
              Inl _ \<Rightarrow> Ok (e1\<lparr>ei_LinkBroken := True\<rparr>)
            | Inr nd \<Rightarrow> Ok (e1\<lparr>ei_IsDir := (nd = Dir), ei_Size := node_size nd\<rparr>))
       | _ \<Rightarrow> Ok e)"

definition Stat_entry :: "files_service \<Rightarrow> fs \<Rightarrow> string \<Rightarrow> file_error + Entry_info" where
  "Stat_entry sv fs path =
     bindr (ResolveEntry sv fs path) (\<lambda>full. case entry_info fs full (path_base full) of Inl e \<Rightarrow> Err (FsError e) | Inr e \<Rightarrow> Ok e)"

subsection \<open>Extraction of an archive of the file manager\<close>

text \<open>
  \<open>reader\<close> is what the readers of the formats make of an archive, \<open>available\<close> the free space. The
  result keeps the paths written also when an error ends the extraction.
\<close>

definition Extract ::
  "files_service \<Rightarrow> (string \<Rightarrow> item list) \<Rightarrow> int \<Rightarrow> fs \<Rightarrow> string \<Rightarrow> string \<Rightarrow> (string list \<times> file_error option) \<times> fs" where
  "Extract sv reader available fs archivePath dest =
     (case Resolve sv fs archivePath of
        Inl e \<Rightarrow> (([], Some e), fs)
      | Inr src \<Rightarrow>
          (case Resolve sv fs dest of
             Inl e \<Rightarrow> (([], Some e), fs)
           | Inr target \<Rightarrow>
               (case mkdir_all fs target of
                  (Some e, fs1) \<Rightarrow> (([], Some (FsError e)), fs1)
                | (None, fs1) \<Rightarrow>
                    (case extractByteLimit available of
                       None \<Rightarrow> (([], Some ArchiveNoSpace), fs1)
                     | Some limit \<Rightarrow>
                         (let name = ascii_lower src in
                          if has_suffix name ''.zip'' then
                            (let ((paths, err), _, fs2) = extractZip target (reader src) [] (new_budget limit) fs1 in
                             ((paths, map_option Extraction err), fs2))
                          else if has_suffix name ''.tar.gz'' \<or> has_suffix name ''.tgz'' \<or> has_suffix name ''.tar'' then
                            (let ((paths, err), _, fs2) = extractTar target (reader src) [] (new_budget limit) fs1 in
                             ((paths, map_option Extraction err), fs2))
                          else (([], Some UnsupportedFormat), fs1))))))"

end
