(* ===== verification/Files_Confined.thy ===== *)
theory Files_Confined
  imports Files_Service Archive_Confined
begin

text \<open>
  What the file manager can reach. A resolved path is physical: its names are plain, no link is
  crossed on the way and none is in the last place, however many links the client's path went
  through; with the check against the roots it lies inside one of them. The effects of the
  operations on such a path then stay inside the roots.
\<close>

subsection \<open>Walking ends at a physical path\<close>

definition physical :: "fs \<Rightarrow> path \<Rightarrow> bool" where
  "physical fs p = (list_all plain p \<and> node_at fs p \<noteq> None \<and> \<not> is_link (node_at fs p))"

lemma physical_root: "wf_fs fs \<Longrightarrow> physical fs []"
  by (simp add: physical_def wf_fs_def)

lemma physical_parent: "wf_fs fs \<Longrightarrow> physical fs p \<Longrightarrow> physical fs (butlast p)"
proof (cases p rule: rev_cases)
  case (snoc q c)
  then show "wf_fs fs \<Longrightarrow> physical fs p \<Longrightarrow> physical fs (butlast p)"
    using exists_solid [of fs q c] by (simp add: physical_def at_solid)
qed simp

lemma walk_physical:
  "walk fs n cur cs = Ok p \<Longrightarrow> wf_fs fs \<Longrightarrow> list_all named cs \<Longrightarrow> physical fs cur \<Longrightarrow> physical fs p"
proof (induction fs n cur cs rule: walk.induct)
  case (2 fs n cur c cs)
  note IH = 2(1-5) and w = 2(6) and wf = 2(7) and cs = 2(8) and cur = 2(9)
  have dir: "node_at fs cur = Some Dir" using w by (auto simp: walk.simps split: if_splits)
  show ?case
  proof (cases "c = ''.'' \<or> c = ''..''")
    case True
    then show ?thesis
      using IH(1,2) w wf cs cur dir physical_parent [OF wf cur] by (auto simp: walk.simps split: if_splits)
  next
    case False
    with cs have c: "plain c" by (simp add: plain_def named_def)
    then have step: "physical fs (cur @ [c])" if "node_at fs (cur @ [c]) \<noteq> None" "\<not> is_link (node_at fs (cur @ [c]))"
      using cur that by (simp add: physical_def)
    show ?thesis
    proof (cases "node_at fs (cur @ [c])")
      case None
      with w False dir show ?thesis by (simp add: walk.simps)
    next
      case (Some nd)
      show ?thesis
      proof (cases nd)
        case Dir
        then show ?thesis using IH(3) [of nd] w wf cs False dir Some step by (simp add: walk.simps)
      next
        case (File b)
        then show ?thesis using IH(4) [of nd b] w wf cs False dir Some step by (simp add: walk.simps)
      next
        case (Link target)
        have "list_all named (comps target @ cs)" using comps_named cs by simp
        moreover have "physical fs (if is_abs target then [] else cur)" using cur physical_root [OF wf] by simp
        ultimately show ?thesis
          using IH(5) [of nd target] w wf False dir Some Link by (auto simp: walk.simps split: if_splits)
      qed
    qed
  qed
qed (simp add: walk.simps)

lemma physical_clear:
  assumes "wf_fs fs" and "physical fs p"
  shows "clear fs p"
proof (cases p rule: rev_cases)
  case Nil
  then show ?thesis by (simp add: clear_def)
next
  case (snoc q c)
  then have "solid fs q" using assms exists_solid [of fs q c] by (simp add: physical_def)
  then have "\<not> is_link (node_at fs x)" if "prefix x q" for x using that by (simp add: solid_def)
  then show ?thesis using snoc by (auto simp: clear_def strict_prefix_def prefix_snoc)
qed

text \<open>More links allowed, the same answer, unless the links were the trouble.\<close>

lemma walk_more:
  "walk fs n cur cs \<noteq> Err ELOOP \<Longrightarrow> n \<le> m \<Longrightarrow> walk fs m cur cs = walk fs n cur cs"
proof (induction fs n cur cs arbitrary: m rule: walk.induct)
  case (2 fs n cur c cs)
  note IH = 2(1-5) and w = 2(6) and m = 2(7)
  show ?case
  proof (cases "node_at fs cur = Some Dir \<and> c \<noteq> ''.'' \<and> c \<noteq> ''..''")
    case False
    then consider "node_at fs cur \<noteq> Some Dir" | "node_at fs cur = Some Dir" "c = ''.''"
      | "node_at fs cur = Some Dir" "c \<noteq> ''.''" "c = ''..''" by blast
    then show ?thesis
    proof cases
      case 1
      then show ?thesis by (simp add: walk.simps)
    next
      case 2
      then show ?thesis using IH(1) [of m] w m by (simp add: walk.simps)
    next
      case 3
      then show ?thesis using IH(2) [of m] w m by (simp add: walk.simps)
    qed
  next
    case True
    note at = True
    show ?thesis
    proof (cases "node_at fs (cur @ [c])")
      case None
      with at show ?thesis by (simp add: walk.simps)
    next
      case (Some nd)
      show ?thesis
      proof (cases nd)
        case Dir
        then show ?thesis using IH(3) [of nd m] at Some w m by (simp add: walk.simps)
      next
        case (File b)
        then show ?thesis using IH(4) [of nd b m] at Some w m by (simp add: walk.simps)
      next
        case (Link target)
        with at Some w have "n \<noteq> 0" by (cases "n = 0") (simp_all add: walk.simps)
        with Link show ?thesis using IH(5) [of nd target "m - 1"] at Some w m by (simp add: walk.simps)
      qed
    qed
  qed
qed (simp add: walk.simps)

lemma eval_symlinks_Ok:
  assumes "wf_fs fs" and "eval_symlinks fs s = Ok r"
  shows "\<exists>p. r = render p \<and> physical fs p \<and> walk fs max_eval_links [] (comps s) = Ok p"
proof -
  obtain p where p: "walk fs max_eval_links [] (comps s) = Ok p" "r = render p"
    using assms(2) by (auto simp: eval_symlinks_def bindr_def split: sum.splits if_splits)
  then show ?thesis using walk_physical [OF p(1) assms(1) comps_named physical_root [OF assms(1)]] by blast
qed

text \<open>A missing entry of a directory that is there.\<close>

lemma missing_entry:
  assumes w: "walk fs max_eval_links [] q = Ok p" and m: "plain m" and q: "list_all plain q"
    and l: "lstat fs (render (q @ [m])) = Err ENOENT"
  shows "node_at fs (p @ [m]) = None"
proof -
  have c: "comps (render (q @ [m])) = q @ [m]" using q m by (simp add: comps_render_plain)
  have m': "m \<noteq> ''.''" "m \<noteq> ''..''" using m by (simp_all add: plain_def)
  have le: "max_links \<le> max_eval_links" by (simp add: max_links_def max_eval_links_def)
  have "walk fs max_links [] q \<noteq> Err ELOOP" using l c by (auto simp: lstat_def locate_def)
  then have "walk fs max_links [] q = Ok p" using walk_more [OF _ le] w by metis
  then show ?thesis using l c m' by (auto simp: lstat_def locate_def Let_def split: if_splits option.splits)
qed

definition resolved_at :: "fs \<Rightarrow> path \<Rightarrow> bool" where
  "resolved_at fs p = (list_all plain p \<and> clear fs p \<and> \<not> is_link (node_at fs p))"

lemma fold_path_join:
  "list_all plain p \<Longrightarrow> list_all plain ms \<Longrightarrow> fold (\<lambda>name s. path_join s name) ms (render p) = render (p @ ms)"
  by (induction ms arbitrary: p) (simp_all add: path_join_plain)

text \<open>A round that finds the path, with the missing names below it.\<close>

lemma found_resolved:
  assumes wf: "wf_fs fs" and q: "list_all plain q" and ms: "list_all plain missing"
    and l: "missing = [] \<or> lstat fs (render (q @ [hd missing])) = Err ENOENT"
    and x: "resolve_existing fs (render q) missing = Some (Ok r)"
  shows "\<exists>p. r = render p \<and> resolved_at fs p"
proof -
  obtain y where y: "eval_symlinks fs (render q) = Ok y" "r = fold (\<lambda>name s. path_join s name) missing y"
    using x by (auto simp: resolve_existing_def split: sum.splits if_splits)
  then obtain p where p: "y = render p" "physical fs p" "walk fs max_eval_links [] q = Ok p"
    using eval_symlinks_Ok [OF wf y(1)] q by (auto simp: comps_render_plain)
  then have c: "clear fs p" "list_all plain p" "\<not> is_link (node_at fs p)" using physical_clear [OF wf] by (auto simp: physical_def)
  have r: "r = render (p @ missing)" using y(2) p(1) fold_path_join [OF c(2) ms] by simp
  have "clear fs (p @ missing) \<and> \<not> is_link (node_at fs (p @ missing))"
  proof (cases missing)
    case Nil
    with c show ?thesis by simp
  next
    case (Cons m rest)
    have "node_at fs (p @ [m]) = None" using missing_entry [OF p(3) _ q] l ms Cons by simp
    moreover have "clear fs (p @ [m])" using c clear_snoc by blast
    ultimately show ?thesis using clear_below_none [OF wf, of "p @ [m]" rest] Cons by simp
  qed
  then show ?thesis using r c(2) ms by (auto simp: resolved_at_def)
qed

lemma resolve_rev_resolved:
  assumes wf: "wf_fs fs"
  shows "resolve_rev fs cs missing = Ok r \<Longrightarrow> list_all plain (rev cs) \<Longrightarrow> list_all plain missing \<Longrightarrow>
    (missing = [] \<or> lstat fs (render (rev cs @ [hd missing])) = Err ENOENT) \<Longrightarrow>
    \<exists>p. r = render p \<and> resolved_at fs p"
proof (induction cs arbitrary: missing)
  case Nil
  then show ?case using found_resolved [OF wf, of "[]" missing] by (auto split: option.splits)
next
  case (Cons c cs)
  show ?case
  proof (cases "resolve_existing fs (render (rev (c # cs))) missing")
    case None
    then have "lstat fs (render (rev cs @ [c])) = Err ENOENT" by (auto simp: resolve_existing_def split: sum.splits if_splits)
    with None Cons.prems show ?thesis by (intro Cons.IH [of "c # missing"]) simp_all
  next
    case (Some x)
    with Cons.prems show ?thesis using found_resolved [OF wf, of "rev (c # cs)" missing] by simp
  qed
qed

subsection \<open>Roots\<close>

definition service_ok :: "files_service \<Rightarrow> bool" where
  "service_ok sv =
     (sv_roots sv \<noteq> [] \<and> is_abs (sv_cwd sv) \<and> list_all (\<lambda>r. r = render (dest_path r)) (sv_roots sv))"

text \<open>Paths inside a root, and roots that are directories, not links to some.\<close>

definition inside :: "files_service \<Rightarrow> path \<Rightarrow> bool" where
  "inside sv p = list_ex (\<lambda>r. prefix (dest_path r) p) (sv_roots sv)"

definition roots_solid :: "files_service \<Rightarrow> fs \<Rightarrow> bool" where
  "roots_solid sv fs = list_all (\<lambda>r. solid fs (dest_path r)) (sv_roots sv)"

lemma dest_path_render: "list_all plain p \<Longrightarrow> dest_path (render p) = p"
  by (simp add: dest_path_def comps_render_plain norm_plain)

lemma path_abs_render: "is_abs cwd \<Longrightarrow> \<exists>p. list_all plain p \<and> path_abs cwd s = render p"
  by (auto simp: path_abs_def path_join_def clean_def is_abs_def intro!: exI norm_is_plain comps_named)

lemma new_service_ok: "is_abs cwd \<Longrightarrow> service_ok (new_service cwd roots)"
proof -
  assume cwd: "is_abs cwd"
  have "clean (path_abs cwd r) = render (dest_path (clean (path_abs cwd r)))" for r
    using path_abs_render [OF cwd, of r] by (auto simp: clean_render dest_path_render)
  moreover have "[slash] = render (dest_path [slash])"
    using dest_path_render [of "[]"] by (simp add: render_def)
  ultimately show ?thesis using cwd by (simp add: service_ok_def new_service_def Let_def list_all_iff)
qed

lemma requested_render: "service_ok sv \<Longrightarrow> \<exists>p. list_all plain p \<and> requested sv path = render p"
  by (simp add: requested_def service_ok_def path_abs_render)

lemma within_inside:
  assumes "service_ok sv" and "list_all plain p" and "within sv (render p)"
  shows "inside sv p"
proof -
  obtain r where r: "r \<in> set (sv_roots sv)" "r = [slash] \<or> render p = r \<or> has_prefix (render p) (r @ [slash])"
    using assms(3) by (auto simp: within_def list_ex_iff)
  have d: "r = render (dest_path r)" "list_all plain (dest_path r)"
    using r(1) assms(1) plain_dest_path by (simp_all add: service_ok_def list_all_iff)
  have "prefix (dest_path r) p"
  proof -
    consider "r = [slash]" | "render p = r" | "has_prefix (render p) (r @ [slash])" using r(2) by blast
    then show ?thesis
    proof cases
      case 1
      then show ?thesis using dest_path_render [of "[]"] by (simp add: render_def)
    next
      case 2
      then show ?thesis using dest_path_render [OF assms(2)] by simp
    next
      case 3
      then obtain t where "render p = render (dest_path r) @ [slash] @ t"
        using d(1) by (metis append_take_drop_id append.assoc has_prefix_def)
      then show ?thesis using render_below [OF assms(2) d(2)] by (auto simp: prefix_def)
    qed
  qed
  with r(1) show ?thesis by (auto simp: inside_def list_ex_iff)
qed

lemma inside_below: "inside sv p \<Longrightarrow> prefix p q \<Longrightarrow> inside sv q"
  using prefix_order.trans by (fastforce simp: inside_def list_ex_iff)

lemma above_inside_solid:
  assumes "roots_solid sv fs" and "inside sv p" and "prefix q p" and "\<not> inside sv q"
  shows "node_at fs q = Some Dir"
proof -
  obtain r where r: "r \<in> set (sv_roots sv)" "prefix (dest_path r) p" using assms(2) by (auto simp: inside_def list_ex_iff)
  then have "\<not> prefix (dest_path r) q" using assms(4) by (auto simp: inside_def list_ex_iff)
  then have "prefix q (dest_path r)" using prefix_same_cases [OF r(2) assms(3)] by blast
  then show ?thesis using assms(1) r(1) by (auto simp: roots_solid_def list_all_iff solid_def)
qed

text \<open>A change that stays inside the roots.\<close>

definition stays :: "files_service \<Rightarrow> fs \<Rightarrow> fs \<Rightarrow> bool" where
  "stays sv fs fs' = (wf_fs fs' \<and> (\<forall>q. \<not> inside sv q \<longrightarrow> node_at fs' q = node_at fs q))"

lemma stays_refl: "wf_fs fs \<Longrightarrow> stays sv fs fs"
  by (simp add: stays_def)

lemma effect_stays:
  assumes "roots_solid sv fs" and "inside sv p" and "effect p fs fs'"
  shows "stays sv fs fs'"
proof -
  have "node_at fs' q = node_at fs q" if q: "\<not> inside sv q" for q
  proof -
    have "q \<noteq> p" using q assms(2) by blast
    moreover have "\<not> grown p fs fs' q" using above_inside_solid [OF assms(1,2) _ q] by (auto simp: grown_def)
    ultimately show ?thesis using assms(3) by (auto simp: effect_def)
  qed
  with assms(3) show ?thesis by (simp add: stays_def effect_def)
qed

subsection \<open>Resolution\<close>

lemma Resolve_at:
  assumes "service_ok sv" and "wf_fs fs" and "Resolve sv fs path = Ok full"
  shows "\<exists>p. full = render p \<and> resolved_at fs p \<and> inside sv p"
proof -
  obtain a where a: "list_all plain a" "requested sv path = render a" using requested_render [OF assms(1)] by blast
  have "resolveFromExistingAncestor fs (render a) = Ok full" and w: "within sv full"
    using assms(3) a(2) by (auto simp: Resolve_def Let_def split: if_splits sum.splits)
  then have "resolve_rev fs (rev a) [] = Ok full" using a(1) by (simp add: resolveFromExistingAncestor_def comps_render_plain)
  then obtain p where p: "full = render p" "resolved_at fs p"
    using resolve_rev_resolved [OF assms(2), of "rev a" "[]"] a(1) by auto
  then show ?thesis using within_inside [OF assms(1)] w by (auto simp: resolved_at_def)
qed

lemma path_base_render: "list_all plain (q @ [c]) \<Longrightarrow> path_base (render (q @ [c])) = c"
  by (simp add: path_base_def comps_render_plain)

lemma ResolveEntry_Ok:
  assumes "ResolveEntry sv fs path = Ok full" and "full \<notin> set (sv_roots sv)"
  shows "within sv (requested sv path) \<and> requested sv path \<notin> set (sv_roots sv) \<and>
    (\<exists>parent. resolveFromExistingAncestor fs (path_dir (requested sv path)) = Ok parent \<and> within sv parent \<and>
      full = path_join parent (path_base (requested sv path)))"
proof (cases "within sv (requested sv path) \<and> requested sv path \<notin> set (sv_roots sv)")
  case True
  then show ?thesis
    using assms(1) by (cases "resolveFromExistingAncestor fs (path_dir (requested sv path))")
      (simp_all add: ResolveEntry_def Let_def split: if_splits)
next
  case False
  with assms show ?thesis by (cases "within sv (requested sv path)") (simp_all add: ResolveEntry_def Let_def)
qed

text \<open>An entry is a root, or an entry of a physical directory inside a root; it can itself be a link.\<close>

lemma ResolveEntry_at:
  assumes "service_ok sv" and "wf_fs fs" and "ResolveEntry sv fs path = Ok full" and "full \<notin> set (sv_roots sv)"
  shows "\<exists>p c. full = render (p @ [c]) \<and> resolved_at fs p \<and> plain c \<and> clear fs (p @ [c]) \<and> inside sv p"
proof -
  obtain a where a: "list_all plain a" "requested sv path = render a" using requested_render [OF assms(1)] by blast
  obtain parent where r: "resolveFromExistingAncestor fs (path_dir (render a)) = Ok parent" "within sv parent"
      "full = path_join parent (path_base (render a))" "within sv (render a)" "render a \<notin> set (sv_roots sv)"
    using ResolveEntry_Ok [OF assms(3,4)] unfolding a(2) by blast
  have "a \<noteq> []"
  proof
    assume "a = []"
    with r(4) have "[slash] \<in> set (sv_roots sv)"
    proof -
      obtain x where x: "x \<in> set (sv_roots sv)" "x = [slash] \<or> render a = x \<or> has_prefix (render a) (x @ [slash])"
        using r(4) by (auto simp: within_def list_ex_iff)
      moreover have "x \<noteq> []" using x(1) assms(1) by (auto simp: service_ok_def list_all_iff render_def)
      ultimately show ?thesis using \<open>a = []\<close> by (cases x) (auto simp: render_def has_prefix_def)
    qed
    with \<open>a = []\<close> r(5) show False by (simp add: render_def)
  qed
  then obtain d c where d: "a = d @ [c]" by (metis append_butlast_last_id)
  with a(1) have "resolve_rev fs (rev d) [] = Ok parent"
    using r(1) by (simp add: path_dir_render resolveFromExistingAncestor_def comps_render_plain)
  then obtain p where p: "parent = render p" "resolved_at fs p"
    using resolve_rev_resolved [OF assms(2), of "rev d" "[]"] a(1) d by auto
  have "full = render (p @ [c])"
    using r(3) p a(1) d by (simp add: path_base_render resolved_at_def path_join_plain)
  moreover have "inside sv p" using within_inside [OF assms(1)] r(2) p by (auto simp: resolved_at_def)
  moreover have "clear fs (p @ [c])" using p(2) by (simp add: resolved_at_def clear_snoc)
  ultimately show ?thesis using p(2) a(1) d by auto
qed

subsection \<open>Effects of the further calls\<close>

lemma parent_dir: "wf_fs fs \<Longrightarrow> p \<noteq> [] \<Longrightarrow> node_at fs p \<noteq> None \<Longrightarrow> node_at fs (butlast p) = Some Dir"
  by (metis append_butlast_last_id wf_fs_def)

interpretation create_new_op: confined_op "\<lambda>fs s. snd (sys_create_new fs s)"
proof
  fix fs p assume "wf_fs fs" "list_all plain p" "p \<noteq> []" "clear fs p"
  with locate_clear [of p fs] show "effect p fs (snd (sys_create_new fs (render p)))"
    by (auto simp: sys_create_new_def effect_refl intro!: effect_put)
qed

lemma create_new_snd: "snd (create_new fs s) = snd (sys_create_new fs s)"
  by (simp add: create_new_def split: prod.split sum.split)

text \<open>A file in the place of a missing one or of a file, as \<open>open\<close> leaves it for its descriptor.\<close>

lemma opened_file:
  assumes r: "list_all plain p" "clear fs p" "\<not> is_link (node_at fs p)"
    and o: "(if overwrite then sys_open_trunc n fs (render p) else sys_create_new fs (render p)) = (Ok fd, fs1)"
  shows "fd = p \<and> fs1 = put p (File []) fs \<and> node_at fs p \<noteq> Some Dir \<and> (p = [] \<or> node_at fs (butlast p) = Some Dir)"
  using locate_clear [OF r(1,2)] r(3) o
  by (auto simp: sys_open_trunc.simps sys_create_new_def split: if_splits option.splits node.splits)

lemma open_fails:
  assumes "list_all plain p" "clear fs p" "\<not> is_link (node_at fs p)"
    and "(if overwrite then sys_open_trunc n fs (render p) else sys_create_new fs (render p)) = (Err e, fs1)"
  shows "fs1 = fs"
  using locate_clear [OF assms(1,2)] assms(3,4)
  by (auto simp: sys_open_trunc.simps sys_create_new_def split: if_splits option.splits node.splits)

lemma put_twice: "node_at (put p nd (put p nd' fs)) = node_at (put p nd fs)"
  by (rule ext) simp

lemma effect_cong: "node_at fs1 = node_at fs2 \<Longrightarrow> effect p fs fs1 \<longleftrightarrow> effect p fs fs2"
  by (simp add: effect_def grown_def wf_fs_def)

lemma filter_node_at: "node_at (filter (\<lambda>e. P (fst e)) fs) q = (if P q then node_at fs q else None)"
  by (induction fs) (auto simp: node_at_def)

lemma remove_all_stays:
  assumes "wf_fs fs" and "list_all plain p" and "p \<noteq> []" and "clear fs p" and "inside sv p"
  shows "stays sv fs (snd (remove_all fs (render p)))"
proof -
  let ?fs = "filter (\<lambda>e. \<not> prefix p (fst e)) fs"
  have below: "\<not> prefix p q" if "\<not> prefix p (q @ [c])" for q c using that by (auto simp: prefix_def)
  have at: "node_at ?fs q = (if \<not> prefix p q then node_at fs q else None)" for q by (rule filter_node_at)
  have "wf_fs ?fs"
    unfolding wf_fs_def at using assms(1,3) below by (auto simp: wf_fs_def split: if_splits)
  moreover have "node_at ?fs q = node_at fs q" if "\<not> inside sv q" for q
    using that inside_below [OF assms(5)] by (auto simp: at)
  ultimately have "stays sv fs ?fs" by (simp add: stays_def)
  then show ?thesis
    using locate_clear [OF assms(2,4)] assms(1,3) by (auto simp: remove_all_def stays_refl)
qed

text \<open>The tree below \<open>p\<close> goes below \<open>q\<close>, where nothing was.\<close>

lemma node_at_move_tree:
  assumes below: "\<And>r. r \<noteq> [] \<Longrightarrow> node_at fs (q @ r) = None" and pq: "\<not> prefix p q"
  shows "node_at (move_tree p q fs) x =
    (if prefix q x then node_at fs (p @ drop (length q) x) else if prefix p x then None else node_at fs x)"
proof -
  have free: "k = q \<or> \<not> prefix q k" if "(k, nd) \<in> set fs" for k nd
  proof -
    have "node_at fs k \<noteq> None" using image_eqI [of k fst "(k, nd)" "set fs"] that by (simp add: node_at_def map_of_eq_None_iff)
    then show ?thesis using below by (metis append_Nil2 prefixE)
  qed
  have ne: "p @ r \<noteq> q" for r using pq by auto
  from free show ?thesis
  proof (induction fs)
    case Nil
    then show ?case by (simp add: move_tree_def del_def node_at_def)
  next
    case (Cons e fs)
    obtain k nd where e: "e = (k, nd)" by (cases e)
    have IH: "node_at (move_tree p q fs) x =
      (if prefix q x then node_at fs (p @ drop (length q) x) else if prefix p x then None else node_at fs x)"
      using Cons by (metis list.set_intros(2))
    show ?case
    proof (cases "k = q")
      case True
      then show ?thesis using IH ne e by (auto simp: move_tree_def del_def node_at_def)
    next
      case False
      then have k: "\<not> prefix q k" using Cons.prems [of k nd] e by simp
      show ?thesis
      proof (cases "prefix p k")
        case True
        then obtain r where r: "k = p @ r" by (auto simp: prefix_def)
        have "x = q @ r \<longleftrightarrow> prefix q x \<and> p @ drop (length q) x = k" by (auto simp: r prefix_def)
        then show ?thesis using IH e False True r by (auto simp: move_tree_def del_def node_at_def)
      next
        case pk: False
        have "p @ drop (length q) x \<noteq> k" using pk by (metis prefixI)
        then show ?thesis using IH e False k pk by (auto simp: move_tree_def del_def node_at_def)
      qed
    qed
  qed
qed

lemma move_tree_wf:
  assumes wf: "wf_fs fs" and below: "\<And>r. r \<noteq> [] \<Longrightarrow> node_at fs (q @ r) = None" and pq: "\<not> prefix p q"
    and q: "node_at fs (butlast q) = Some Dir" "q \<noteq> []" and p: "p \<noteq> []"
  shows "wf_fs (move_tree p q fs)"
proof -
  note at = node_at_move_tree [OF below pq]
  have "node_at (move_tree p q fs) [] = Some Dir" using wf p q(2) by (simp add: at wf_fs_def)
  moreover have "node_at (move_tree p q fs) y = Some Dir" if "node_at (move_tree p q fs) (y @ [c]) \<noteq> None" for y c
  proof (cases "prefix q (y @ [c])")
    case True
    show ?thesis
    proof (cases "q = y @ [c]")
      case True
      then have "\<not> prefix q y" "\<not> prefix p y" using pq by (auto simp: prefix_def)
      then show ?thesis using at [of y] q(1) True by simp
    next
      case False
      then have y: "prefix q y" using \<open>prefix q (y @ [c])\<close> by (simp add: prefix_snoc)
      then have "p @ drop (length q) (y @ [c]) = (p @ drop (length q) y) @ [c]" by (auto simp: prefix_def)
      then have "node_at fs ((p @ drop (length q) y) @ [c]) \<noteq> None"
        using that \<open>prefix q (y @ [c])\<close> by (simp add: at)
      then have "node_at fs (p @ drop (length q) y) = Some Dir" using wf unfolding wf_fs_def by blast
      then show ?thesis using y by (simp add: at)
    qed
  next
    case False
    then have "\<not> prefix p (y @ [c])" "node_at fs (y @ [c]) \<noteq> None" using that by (auto simp: at split: if_splits)
    moreover have "\<not> prefix q y" "\<not> prefix p y" using False \<open>\<not> prefix p (y @ [c])\<close> by (auto simp: prefix_def)
    ultimately show ?thesis using wf by (auto simp: at wf_fs_def)
  qed
  ultimately show ?thesis by (simp add: wf_fs_def)
qed

subsection \<open>The operations stay inside the roots\<close>

text \<open>A root is a directory, so a resolved path that is none lies below its root with its parent.\<close>

lemma inside_parent:
  assumes "roots_solid sv fs" and "inside sv p" and "node_at fs p \<noteq> Some Dir"
  shows "p \<noteq> [] \<and> inside sv (butlast p)"
proof -
  obtain r where r: "r \<in> set (sv_roots sv)" "prefix (dest_path r) p" using assms(2) by (auto simp: inside_def list_ex_iff)
  then have "node_at fs (dest_path r) = Some Dir" using assms(1) by (auto simp: roots_solid_def list_all_iff solid_def)
  with assms(3) have "p \<noteq> dest_path r" by auto
  then obtain x where "p = dest_path r @ x" "x \<noteq> []" using r(2) by (auto simp: prefix_def)
  then have "p \<noteq> []" "prefix (dest_path r) (butlast p)" by (auto simp: butlast_append)
  with r(1) show ?thesis by (auto simp: inside_def list_ex_iff)
qed

lemma walk_existing:
  assumes "list_all plain cs" and "\<And>k. k < length cs \<Longrightarrow> node_at fs (cur @ take k cs) = Some Dir"
    and "node_at fs (cur @ cs) = Some nd" and "\<not> is_link (Some nd)"
  shows "walk fs n cur cs = Ok (cur @ cs)"
  using assms
proof (induction cs arbitrary: cur)
  case (Cons c cs)
  have c: "c \<noteq> ''.''" "c \<noteq> ''..''" using Cons.prems(1) by (auto simp: plain_def)
  have "node_at fs cur = Some Dir" using Cons.prems(2) [of 0] by simp
  moreover have "node_at fs (cur @ [c]) = Some Dir \<or> (\<exists>b. node_at fs (cur @ [c]) = Some (File b))"
    using Cons.prems(2) [of 1] Cons.prems(3,4) by (cases cs; cases nd) auto
  moreover have "walk fs n (cur @ [c]) cs = Ok (cur @ c # cs)"
    using Cons.IH [of "cur @ [c]"] Cons.prems(1,3,4) Cons.prems(2) [of "Suc k" for k] by simp
  ultimately show ?case using c by (auto simp: walk.simps)
qed (simp add: walk.simps)

lemma dir_solid: "wf_fs fs \<Longrightarrow> node_at fs p = Some Dir \<Longrightarrow> solid fs p"
proof (cases p rule: rev_cases)
  case (snoc q c)
  then show "wf_fs fs \<Longrightarrow> node_at fs p = Some Dir \<Longrightarrow> solid fs p"
    using exists_solid [of fs q c] by (auto simp: solid_def prefix_snoc)
qed (simp add: solid_def)

lemma walk_through:
  assumes "list_all plain xs" and "\<And>k. k \<le> length xs \<Longrightarrow> node_at fs (cur @ take k xs) = Some Dir"
  shows "walk fs n cur (xs @ cs) = walk fs n (cur @ xs) cs"
  using assms
proof (induction xs arbitrary: cur)
  case (Cons x xs)
  have x: "x \<noteq> ''.''" "x \<noteq> ''..''" using Cons.prems(1) by (auto simp: plain_def)
  have "node_at fs cur = Some Dir" "node_at fs (cur @ [x]) = Some Dir"
    using Cons.prems(2) [of 0] Cons.prems(2) [of 1] by simp_all
  moreover have "walk fs n (cur @ [x]) (xs @ cs) = walk fs n (cur @ x # xs) cs"
    using Cons.IH [of "cur @ [x]"] Cons.prems(1) Cons.prems(2) [of "Suc k" for k] by simp
  ultimately show ?case using x by (simp add: walk.simps)
qed simp

lemma walk_there:
  assumes "wf_fs fs" and "resolved_at fs p" and nd: "node_at fs p = Some nd"
  shows "walk fs n [] p = Ok p"
proof -
  have "node_at fs (take k p) = Some Dir" if "k < length p" for k
  proof -
    have "take k p @ drop k p = p" "drop k p \<noteq> []" using that by simp_all
    then show ?thesis using wf_below_none [OF assms(1), of "take k p" "drop k p"] nd by force
  qed
  then show ?thesis using walk_existing [of p fs "[]" nd n] assms(2) nd by (simp add: resolved_at_def)
qed

lemma stat_resolved:
  assumes "wf_fs fs" and "resolved_at fs p"
  shows "(\<forall>nd. stat fs (render p) = Ok nd \<longrightarrow> node_at fs p = Some nd) \<and> (node_at fs p \<noteq> None \<longrightarrow> stat fs (render p) = Ok (the (node_at fs p)))"
proof -
  have "strict_prefix (take k p) p" if "k < length p" for k
    using that by (metis append_take_drop_id length_take min.strict_order_iff min_less_iff_conj nat_neq_iff strict_prefix_def take_is_prefix)
  then have "\<not> is_link (node_at fs ([] @ take k p))" if "k \<le> length p" for k
    using assms(2) that by (cases "k = length p") (auto simp: resolved_at_def clear_def)
  then have w: "walk fs max_links [] p = Ok ([] @ p) \<or> walk fs max_links [] p = Err ENOENT \<or> walk fs max_links [] p = Err ENOTDIR"
    using assms(2) by (intro walk_clear) (auto simp: resolved_at_def)
  have c: "comps (render p) = p" using assms(2) by (simp add: resolved_at_def comps_render_plain)
  have "walk fs max_links [] p = Ok p" if "node_at fs p \<noteq> None" using walk_there [OF assms] that by blast
  then show ?thesis using w c by (auto simp: stat_def split: option.splits)
qed

lemma stat_there: "wf_fs fs \<Longrightarrow> resolved_at fs p \<Longrightarrow> node_at fs p = Some nd \<Longrightarrow> stat fs (render p) = Ok nd"
  using conjunct2 [OF stat_resolved [of fs p]] by simp

lemma stat_is: "wf_fs fs \<Longrightarrow> resolved_at fs p \<Longrightarrow> stat fs (render p) = Ok nd \<Longrightarrow> node_at fs p = Some nd"
  using conjunct1 [OF stat_resolved [of fs p]] by simp

subsection \<open>Saving\<close>

lemma wf_cong: "node_at fs1 = node_at fs2 \<Longrightarrow> wf_fs fs1 \<longleftrightarrow> wf_fs fs2"
  by (simp add: wf_fs_def)

lemma remove_missing:
  assumes "list_all plain p" and "clear fs p" and "node_at fs p = None"
  shows "snd (sys_remove fs (render p)) = fs"
  using locate_clear [OF assms(1,2)] assms(3) by (auto simp: sys_remove_def)

lemma rename_over:
  assumes wf: "wf_fs fs" and d: "solid fs d" and pl: "list_all plain (d @ [a])" "plain b" and ne: "a \<noteq> b"
    and a: "node_at fs (d @ [a]) = Some (File content)" and b: "node_at fs (d @ [b]) \<noteq> Some Dir" "\<not> is_link (node_at fs (d @ [b]))"
  shows "os_rename fs (render (d @ [a])) (render (d @ [b])) = (None, move_tree (d @ [a]) (d @ [b]) fs)"
proof -
  have la: "locate fs (render (d @ [a])) = Ok (d @ [a])" using pl(1) d by (rule locate_solid)
  have lb: "locate fs (render (d @ [b])) = Ok (d @ [b])" using pl d by (intro locate_solid) simp_all
  have "lstat fs (render (d @ [b])) \<noteq> Ok Dir" using lb b(1) by (auto simp: lstat_def split: option.splits)
  moreover have "node_at fs (d @ [b]) = None \<or> (\<exists>x. node_at fs (d @ [b]) = Some (File x))"
    using b by (cases "node_at fs (d @ [b])"; cases "the (node_at fs (d @ [b]))") auto
  ultimately show ?thesis using la lb a ne by (auto simp: os_rename_def sys_rename_def)
qed

lemma replaced_file:
  assumes wf: "wf_fs fs" and d: "node_at fs d = Some Dir" and ne: "a \<noteq> b"
    and a: "node_at fs (d @ [a]) = Some (File content)" and b: "node_at fs (d @ [b]) \<noteq> Some Dir"
  shows "wf_fs (move_tree (d @ [a]) (d @ [b]) fs)" and
    "node_at (move_tree (d @ [a]) (d @ [b]) fs) x =
      (if x = d @ [b] then Some (File content) else if x = d @ [a] then None else node_at fs x)"
proof -
  have below: "node_at fs ((d @ [b]) @ r) = None" if "r \<noteq> []" for r using wf b that by (rule wf_below_none)
  have pre: "\<not> prefix (d @ [a]) (d @ [b])" using ne by simp
  show "wf_fs (move_tree (d @ [a]) (d @ [b]) fs)"
    by (rule move_tree_wf [OF wf below pre]) (simp_all add: d)
  have gone: "node_at fs ((d @ [a]) @ r) = None" if "r \<noteq> []" for r using wf_below_none [OF wf _ that, of "d @ [a]"] a by simp
  show "node_at (move_tree (d @ [a]) (d @ [b]) fs) x =
      (if x = d @ [b] then Some (File content) else if x = d @ [a] then None else node_at fs x)"
    using gone below a ne by (subst node_at_move_tree [OF below pre]) (auto simp: prefix_def)
qed

lemma save_result:
  assumes wf: "wf_fs fs" and p: "resolved_at fs (d @ [b])" and dir: "node_at fs (d @ [b]) \<noteq> Some Dir"
    and tmp: "plain (''.vpsd-'' @ tmp)" "''.vpsd-'' @ tmp \<noteq> b"
    and s: "save fs (render (d @ [b])) content tmp fault = (err, fs')"
  shows "wf_fs fs' \<and> (\<forall>q. q \<noteq> d @ [b] \<longrightarrow> node_at fs' q = node_at fs q) \<and>
    node_at fs' (d @ [b]) = (if err = None then Some (File content) else node_at fs (d @ [b]))"
proof -
  obtain a where a: "a = ''.vpsd-'' @ tmp" "plain a" "a \<noteq> b" using tmp by simp
  let ?t = "d @ [a]"
  have pl: "list_all plain d" "plain b" "list_all plain ?t" using p a by (auto simp: resolved_at_def)
  have c: "clear fs d" "\<not> is_link (node_at fs d)" using p by (auto simp: resolved_at_def clear_snoc)
  then have ct: "clear fs ?t" by (simp add: clear_snoc)
  have name: "path_join (path_dir (render (d @ [b]))) (''.vpsd-'' @ tmp) = render ?t"
    using pl a(2) unfolding a(1) [symmetric] by (simp add: path_dir_render path_join_plain)
  show ?thesis
  proof (cases "locate fs (render ?t) = Ok ?t \<and> node_at fs ?t = None \<and> node_at fs d = Some Dir")
    case False
    then have "sys_create_new fs (render ?t) \<in> range (\<lambda>e. (Err e, fs))"
      using locate_clear [OF pl(3) ct] by (auto simp: sys_create_new_def)
    then have "err \<noteq> None" "fs' = fs" using s name by (auto simp: save_def Let_def)
    then show ?thesis using wf by auto
  next
    case True
    then have cr: "sys_create_new fs (render ?t) = (Ok ?t, put ?t (File []) fs)" by (simp add: sys_create_new_def)
    let ?g = "\<lambda>x. put ?t (File x) (put ?t (File []) fs)"
    have at: "node_at (?g x) q = (if q = ?t then Some (File x) else node_at fs q)" for x q by simp
    have wg: "wf_fs (?g x)" for x
    proof -
      have "effect ?t fs (put ?t (File x) fs)" using wf True by (intro effect_put) simp_all
      moreover have "node_at (?g x) = node_at (put ?t (File x) fs)" by (rule ext) simp
      ultimately show ?thesis using wf_cong [of "?g x" "put ?t (File x) fs"] by (simp add: effect_def)
    qed
    have sg: "solid (?g x) d" for x using exists_solid [OF wg, of x d a] at by simp
    show ?thesis
    proof (cases fault)
      case (Some f)
      obtain part e where f: "f = (part, e)" by (cases f)
      have "sys_remove (?g part) (render ?t) = (None, del ?t (?g part))"
        using locate_solid [OF pl(3) sg] at by (simp add: sys_remove_def)
      then have r: "err = Some e" "fs' = del ?t (?g part)" using s name cr Some f by (simp_all add: save_def Let_def)
      then have "node_at fs' = node_at fs" using True by (auto simp: fun_eq_iff)
      then show ?thesis using wf_cong [of fs' fs] wf r(1) by simp
    next
      case None
      have b: "node_at (?g content) (d @ [b]) = node_at fs (d @ [b])" using a(3) at [of content "d @ [b]"] by auto
      let ?m = "move_tree ?t (d @ [b]) (?g content)"
      have rn: "os_rename (?g content) (render ?t) (render (d @ [b])) = (None, ?m)"
        by (rule rename_over [OF wg sg pl(3,2) a(3) _ _ _]) (use at b dir p in \<open>auto simp: resolved_at_def\<close>)
      have ga: "node_at (?g content) ?t = Some (File content)" by simp
      have gb: "node_at (?g content) (d @ [b]) \<noteq> Some Dir" using b dir by argo
      have m: "wf_fs ?m" by (rule replaced_file(1) [OF wg at_solid [OF sg] a(3) ga gb])
      have mat: "node_at ?m x = (if x = d @ [b] then Some (File content) else if x = ?t then None else node_at fs x)" for x
        using replaced_file(2) [OF wg at_solid [OF sg] a(3) ga gb, of x] at [of content x] by argo
      have "clear ?m ?t" using c mat a(3) by (auto simp: clear_def strict_prefix_def prefix_snoc)
      then have "snd (sys_remove ?m (render ?t)) = ?m" using remove_missing [OF pl(3)] mat [of ?t] a(3) by simp
      then have "err = None" "fs' = ?m" using s name cr None rn by (simp_all add: save_def Let_def)
      then show ?thesis using m mat True by auto
    qed
  qed
qed

end
