(* ===== verification/Backup_Walk.thy ===== *)
theory Backup_Walk
  imports Backup_Runner Files_Confined
begin

text \<open>
  What the walk of a quiet tree archives: every node below the source that no pattern excludes on the
  way, each once and every directory before what it holds.
\<close>

subsection \<open>Tidy disks\<close>

definition tidy :: "fs \<Rightarrow> bool" where
  "tidy fs = (wf_fs fs \<and> (\<forall>k. node_at fs k \<noteq> None \<longrightarrow> list_all plain k))"

lemma tidyD: "tidy fs \<Longrightarrow> wf_fs fs" "tidy fs \<Longrightarrow> node_at fs k = Some nd \<Longrightarrow> list_all plain k"
  by (auto simp: tidy_def)

lemma at_solid_above:
  assumes "wf_fs fs" and "node_at fs (q @ r) \<noteq> None" and "r \<noteq> []"
  shows "solid fs q"
proof -
  have "node_at fs q = Some Dir" using wf_below_none [OF assms(1) _ assms(3), of q] assms(2) by blast
  then show ?thesis using assms(1) by (rule dir_solid [rotated])
qed

lemma lstat_there:
  assumes "tidy fs" and "node_at fs p = Some nd"
  shows "lstat fs (render p) = Ok nd"
proof (cases p rule: rev_cases)
  case Nil
  then show ?thesis using assms(2) by (simp add: lstat_def locate_def comps_render)
next
  case (snoc q c)
  have "solid fs q" using at_solid_above [of fs q "[c]"] assms snoc by (simp add: tidy_def)
  then have "locate fs (render p) = Ok p" using locate_solid [of q c fs] tidyD(2) [OF assms] snoc by simp
  then show ?thesis using assms(2) by (simp add: lstat_def)
qed

lemma set_children: "set (children fs p) = {c. node_at fs (p @ [c]) \<noteq> None}"
proof -
  have "c \<in> set (children fs p) \<longleftrightarrow> p @ [c] \<in> fst ` set fs" for c
  proof
    assume "c \<in> set (children fs p)"
    then obtain k where k: "k \<in> fst ` set fs" "k \<noteq> []" "butlast k = p" "c = last k" by (auto simp: children_def)
    then have "k = p @ [c]" by (metis append_butlast_last_id)
    with k(1) show "p @ [c] \<in> fst ` set fs" by simp
  next
    assume "p @ [c] \<in> fst ` set fs"
    then have "c \<in> last ` {k \<in> fst ` set fs. k \<noteq> [] \<and> butlast k = p}" by (intro image_eqI [of _ _ "p @ [c]"]) auto
    then show "c \<in> set (children fs p)" by (auto simp: children_def)
  qed
  then show ?thesis by (auto simp: node_at_def map_of_eq_None_iff)
qed

lemma distinct_children: "distinct (children fs p)"
  by (simp add: children_def)

lemma read_dir_there:
  assumes "tidy fs" and "node_at fs p = Some Dir"
  shows "read_dir fs (render p) = Ok (children fs p)"
proof -
  have pl: "list_all plain p" using assms by (rule tidyD(2))
  have "solid fs p" using assms by (intro dir_solid) (simp_all add: tidy_def)
  then have "walk fs max_links [] p = Ok ([] @ p)" using pl by (intro walk_solid) (simp_all add: solid_take)
  then show ?thesis using pl assms(2) by (simp add: read_dir_def comps_render_plain)
qed

lemma depth_bound:
  assumes "wf_fs fs" and "node_at fs k \<noteq> None"
  shows "length k < length fs"
proof -
  have "node_at fs (take i k) \<noteq> None" if "i \<le> length k" for i
  proof (cases "i = length k")
    case False
    then have "node_at fs (take i k @ drop i k) \<noteq> None" "drop i k \<noteq> []" using that assms(2) by simp_all
    then show ?thesis using wf_below_none [OF assms(1), of "take i k" "drop i k"] by force
  qed (use assms(2) in simp)
  then have "take i k \<in> set (map fst fs)" if "i \<le> length k" for i
    using that by (simp add: node_at_def map_of_eq_None_iff)
  then have "(\<lambda>i. take i k) ` {..length k} \<subseteq> set (map fst fs)" by auto
  moreover have "inj_on (\<lambda>i. take i k) {..length k}"
    by (rule inj_onI) (metis atMost_iff length_take min.absorb2)
  ultimately have "card {..length k} \<le> card (set (map fst fs))" by (metis List.finite_set card_image card_mono)
  also have "\<dots> \<le> length fs" using card_length [of "map fst fs"] by simp
  finally show ?thesis by simp
qed

subsection \<open>Paths inside the archive\<close>

lemma strip_common_append: "strip_common b (b @ r) = ([], r)"
  by (induction b) (cases r, auto)

lemma filepath_rel_below:
  assumes "list_all plain (b @ r)" and "r \<noteq> []"
  shows "filepath_rel (render b) (render (b @ r)) = Some (join [slash] r)"
proof -
  have c: "clean (render b) = render b" "clean (render (b @ r)) = render (b @ r)" using assms(1) by (simp_all add: clean_render)
  have "render (b @ r) \<noteq> render b" using assms render_inject [of "b @ r" b] by simp
  moreover have "render b \<noteq> ''.''" by (simp add: render_def slash_def)
  ultimately show ?thesis using assms(1)
    by (simp add: filepath_rel_def c Let_def comps_render_plain strip_common_append)
qed

subsection \<open>What is archived\<close>

definition tree_set :: "fs \<Rightarrow> (path \<Rightarrow> bool) \<Rightarrow> path \<Rightarrow> path set" where
  "tree_set fs keep p = {k. prefix p k \<and> node_at fs k \<noteq> None \<and> (\<forall>q. prefix p q \<and> prefix q k \<longrightarrow> keep q)}"

fun parents_first :: "path set \<Rightarrow> path list \<Rightarrow> bool" where
  "parents_first seen [] = True"
| "parents_first seen (v # vs) = (butlast v \<in> seen \<and> parents_first (insert v seen) vs)"

lemma parents_first_mono: "parents_first S vs \<Longrightarrow> S \<subseteq> T \<Longrightarrow> parents_first T vs"
proof (induction vs arbitrary: S T)
  case (Cons v vs)
  then show ?case using Cons.IH [of "insert v S" "insert v T"] by auto
qed simp

lemma parents_first_append: "parents_first S (xs @ ys) \<longleftrightarrow> parents_first S xs \<and> parents_first (S \<union> set xs) ys"
  by (induction xs arbitrary: S) simp_all

lemma tree_set_leaf:
  assumes "wf_fs fs" and "node_at fs p = Some nd" and "nd \<noteq> Dir"
  shows "tree_set fs keep p = (if keep p then {p} else {})"
proof -
  have "k = p" if "prefix p k" "node_at fs k \<noteq> None" for k
  proof -
    from that(1) obtain r where r: "k = p @ r" by (auto simp: prefix_def)
    then show ?thesis using wf_below_none [OF assms(1), of p r] assms(2,3) that(2) by (cases "r = []") auto
  qed
  moreover have "q = p" if "prefix p q" "prefix q p" for q using that by (rule prefix_order.antisym [symmetric])
  ultimately show ?thesis using assms(2) by (auto simp: tree_set_def)
qed

lemma tree_set_skipped: "\<not> keep p \<Longrightarrow> tree_set fs keep p = {}"
  by (auto simp: tree_set_def)

lemma tree_set_dir:
  assumes "node_at fs p = Some Dir" and "keep p" and "wf_fs fs"
  shows "tree_set fs keep p = insert p (\<Union>c \<in> set (children fs p). tree_set fs keep (p @ [c]))"
proof (intro equalityI subsetI)
  fix k assume k: "k \<in> tree_set fs keep p"
  then obtain r where r: "k = p @ r" by (auto simp: tree_set_def prefix_def)
  show "k \<in> insert p (\<Union>c \<in> set (children fs p). tree_set fs keep (p @ [c]))"
  proof (cases r)
    case Nil
    with r show ?thesis by simp
  next
    case (Cons c cs)
    have ne: "node_at fs ((p @ [c]) @ cs) \<noteq> None" using k r Cons by (simp add: tree_set_def)
    then have "node_at fs (p @ [c]) \<noteq> None" using wf_below_none [OF assms(3), of "p @ [c]" cs] by (cases "cs = []") force+
    moreover have "k \<in> tree_set fs keep (p @ [c])"
      using k r Cons by (auto simp: tree_set_def dest: append_prefixD)
    ultimately show ?thesis by (auto simp: set_children)
  qed
next
  fix k assume "k \<in> insert p (\<Union>c \<in> set (children fs p). tree_set fs keep (p @ [c]))"
  then consider "k = p" | c where "k \<in> tree_set fs keep (p @ [c])" by auto
  then show "k \<in> tree_set fs keep p"
  proof cases
    case 1
    then show ?thesis using assms(1,2) prefix_order.antisym [of p] by (auto simp: tree_set_def)
  next
    case 2
    have "keep q" if "prefix p q" "prefix q k" for q
    proof (cases "q = p")
      case False
      from 2 have "prefix (p @ [c]) k" by (simp add: tree_set_def)
      with that(2) have "prefix (p @ [c]) q \<or> prefix q (p @ [c])" by (rule prefix_same_cases [rotated])
      with that(1) False have "prefix (p @ [c]) q" by (auto simp: prefix_snoc dest: prefix_order.antisym)
      with 2 that(2) show ?thesis by (simp add: tree_set_def)
    qed (use assms(2) in simp)
    then show ?thesis using 2 by (auto simp: tree_set_def dest: append_prefixD)
  qed
qed

subsection \<open>The walk\<close>

definition quiet :: "live \<Rightarrow> bool" where
  "quiet lv = ((\<forall>s. \<not> lv_stops lv s) \<and> (\<forall>s c. lv_read lv s c = Ok c))"

definition kept_path :: "string list \<Rightarrow> path \<Rightarrow> bool" where
  "kept_path excludes p = (\<not> excluded (render p) excludes)"

text \<open>The entry of a node; \<open>b\<close> is the directory of the source.\<close>

definition node_entry :: "path \<Rightarrow> node \<Rightarrow> archive_entry" where
  "node_entry r nd =
     (case nd of
        Dir \<Rightarrow> header (join [slash] r) TypeDir [] []
      | Link target \<Rightarrow> header (join [slash] r) TypeSymlink target []
      | File content \<Rightarrow> header (join [slash] r) TypeReg [] content)"

definition entry_of :: "fs \<Rightarrow> path \<Rightarrow> path \<Rightarrow> archive_entry" where
  "entry_of fs b k = node_entry (drop (length b) k) (the (node_at fs k))"

definition is_file :: "node option \<Rightarrow> bool" where
  "is_file nd = (case nd of Some (File _) \<Rightarrow> True | _ \<Rightarrow> False)"

definition archived :: "fs \<Rightarrow> path \<Rightarrow> path list \<Rightarrow> tar_writer \<Rightarrow> tar_writer" where
  "archived fs b vs tw =
     tw\<lparr>tw_entries := tw_entries tw @ map (entry_of fs b) vs,
        tw_count := tw_count tw + int (length (filter (\<lambda>k. is_file (node_at fs k)) vs))\<rparr>"

lemma archived_simps [simp]:
  "archived fs b [] tw = tw"
  "tw_missing (archived fs b vs tw) = tw_missing tw"
  "tw_entries (archived fs b vs tw) = tw_entries tw @ map (entry_of fs b) vs"
  "archived fs b ys (archived fs b xs tw) = archived fs b (xs @ ys) tw"
  by (simp_all add: archived_def)

lemma visit_kept:
  assumes "quiet lv" and "list_all plain (b @ r)" and "r \<noteq> []" and "node_at fs (b @ r) = Some nd" and "tw_missing tw = 0"
  shows "visit_entry lv excludes (render b) (render (b @ r)) (Ok nd) tw =
    (if kept_path excludes (b @ r) then (None, archived fs b [b @ r] tw)
     else (if nd = Dir then Some SkipDir else None, tw))"
  using assms filepath_rel_below [OF assms(2,3)]
  by (auto simp: visit_entry_def quiet_def kept_path_def archived_def entry_of_def node_entry_def is_file_def add_entry_def
      write_file_def split: node.split)

definition walked :: "fs \<Rightarrow> path \<Rightarrow> path set \<Rightarrow> path set \<Rightarrow> bool \<Rightarrow> tar_writer \<Rightarrow> (walk_stop option \<times> tar_writer) option \<Rightarrow> bool" where
  "walked fs b S K is_dir tw result =
     (\<exists>vs stop. result = Some (stop, archived fs b vs tw) \<and> passes is_dir stop \<and> distinct vs \<and> set vs = K \<and> parents_first S vs)"

lemma walkedI: "result = Some (stop, archived fs b vs tw) \<Longrightarrow> passes is_dir stop \<Longrightarrow> distinct vs \<Longrightarrow> set vs = K \<Longrightarrow>
    parents_first S vs \<Longrightarrow> walked fs b S K is_dir tw result"
  by (auto simp: walked_def)

definition deep :: "fs \<Rightarrow> path \<Rightarrow> nat \<Rightarrow> bool" where
  "deep fs p n = (\<forall>k. prefix p k \<and> node_at fs k \<noteq> None \<longrightarrow> length k < length p + n)"

lemma tree_set_disjoint: "c \<noteq> c' \<Longrightarrow> tree_set fs keep (p @ [c]) \<inter> tree_set fs keep (p @ [c']) = {}"
  by (auto simp: tree_set_def prefix_def)

abbreviation part :: "fs \<Rightarrow> string list \<Rightarrow> path \<Rightarrow> path set" where
  "part fs excludes p \<equiv> tree_set fs (kept_path excludes) p"

abbreviation visitor_of :: "live \<Rightarrow> string list \<Rightarrow> path \<Rightarrow> visitor" where
  "visitor_of lv excludes b \<equiv> visit_entry lv excludes (render b)"

lemma walk_names_archives:
  assumes t: "tidy fs" and IH: "\<And>c nd tw. node_at fs (p @ [c]) = Some nd \<Longrightarrow> tw_missing tw = 0 \<Longrightarrow>
      walked fs b {p} (part fs excludes (p @ [c])) (nd = Dir) tw (walk_tree n fs cwd (visitor_of lv excludes b) (render (p @ [c])) nd tw)"
    and p: "list_all plain p"
  shows "\<forall>c \<in> set names. node_at fs (p @ [c]) \<noteq> None \<Longrightarrow> distinct names \<Longrightarrow> tw_missing tw = 0 \<Longrightarrow>
    walked fs b {p} (\<Union>c \<in> set names. part fs excludes (p @ [c])) False tw (walk_names n fs cwd (visitor_of lv excludes b) (render p) names tw)"
proof (induction names arbitrary: tw)
  case Nil
  then show ?case by (auto intro!: walkedI [of _ None _ _ "[]"] simp: passes_def)
next
  case (Cons c names)
  obtain nd where nd: "node_at fs (p @ [c]) = Some nd" using Cons.prems(1) by auto
  have "plain c" using tidyD(2) [OF t nd] by simp
  with p have j: "path_join (render p) c = render (p @ [c])" by (simp add: path_join_plain)
  have l: "lstat fs (at_cwd cwd (render (p @ [c]))) = Ok nd" using lstat_there [OF t nd] by (simp add: at_cwd_def)
  obtain xs stop where x: "walk_tree n fs cwd (visitor_of lv excludes b) (render (p @ [c])) nd tw = Some (stop, archived fs b xs tw)"
    "passes (nd = Dir) stop" "distinct xs" "set xs = part fs excludes (p @ [c])" "parents_first {p} xs"
    using IH [OF nd Cons.prems(3)] by (auto simp: walked_def)
  obtain ys stop' where y: "walk_names n fs cwd (visitor_of lv excludes b) (render p) names (archived fs b xs tw) =
      Some (stop', archived fs b ys (archived fs b xs tw))"
    "passes False stop'" "distinct ys" "set ys = (\<Union>c \<in> set names. part fs excludes (p @ [c]))" "parents_first {p} ys"
    using Cons.IH [of "archived fs b xs tw"] Cons.prems by (auto simp: walked_def)
  have "part fs excludes (p @ [c]) \<inter> part fs excludes (p @ [c']) = {}" if "c' \<in> set names" for c'
    using that Cons.prems(2) by (intro tree_set_disjoint) auto
  then have "set xs \<inter> set ys = {}" using x(4) y(4) by auto
  moreover have "parents_first ({p} \<union> set xs) ys" using y(5) by (rule parents_first_mono) simp
  ultimately show ?case using x y l j
    by (intro walkedI [of _ stop' _ _ "xs @ ys"]) (auto simp: parents_first_append Let_def)
qed

lemma walk_tree_archives:
  assumes t: "tidy fs" and q: "quiet lv"
  shows "node_at fs (b @ r) = Some nd \<Longrightarrow> r \<noteq> [] \<Longrightarrow> deep fs (b @ r) n \<Longrightarrow> tw_missing tw = 0 \<Longrightarrow>
    walked fs b {butlast (b @ r)} (part fs excludes (b @ r)) (nd = Dir) tw (walk_tree n fs cwd (visitor_of lv excludes b) (render (b @ r)) nd tw)"
proof (induction n arbitrary: r nd tw)
  case 0
  then show ?case unfolding deep_def by (metis add.right_neutral less_irrefl option.distinct(1) prefix_order.refl)
next
  case (Suc n)
  let ?p = "b @ r"
  have pl: "list_all plain ?p" using t Suc.prems(1) by (rule tidyD(2))
  note v = visit_kept [OF q pl Suc.prems(2) Suc.prems(1) Suc.prems(4), of excludes]
  show ?case
  proof (cases "nd = Dir \<and> kept_path excludes ?p")
    case False
    have "walk_tree (Suc n) fs cwd (visitor_of lv excludes b) (render ?p) nd tw = Some (visitor_of lv excludes b (render ?p) (Ok nd) tw)"
      using False v read_dir_there [OF t, of ?p] Suc.prems(1) by (cases "nd = Dir") (simp_all add: at_cwd_def)
    moreover have "part fs excludes ?p = (if kept_path excludes ?p then {?p} else {})"
      using False tree_set_leaf [OF tidyD(1) [OF t] Suc.prems(1)] tree_set_skipped [of "kept_path excludes" ?p fs] by auto
    moreover have "passes (nd = Dir) (if nd = Dir then Some SkipDir else None)" "passes b' None" for b'
      by (simp_all add: passes_def)
    moreover have "parents_first {butlast ?p} [?p]" by simp
    ultimately show ?thesis
      using v walkedI [of _ None fs b "[?p]" tw "nd = Dir" "{?p}"] walkedI [of _ "if nd = Dir then Some SkipDir else None" fs b "[]" tw "nd = Dir" "{}"]
      by (cases "kept_path excludes ?p") simp_all
  next
    case True
    with Suc.prems(1) have d: "node_at fs ?p = Some Dir" by simp
    have rd: "read_dir fs (at_cwd cwd (render ?p)) = Ok (children fs ?p)" using read_dir_there [OF t d] by (simp add: at_cwd_def)
    have "walked fs b {?p} (part fs excludes (?p @ [c])) (nd' = Dir) tw' (walk_tree n fs cwd (visitor_of lv excludes b) (render (?p @ [c])) nd' tw')"
      if "node_at fs (?p @ [c]) = Some nd'" "tw_missing tw' = 0" for c nd' tw'
    proof -
      have "length k < length (?p @ [c]) + n" if "prefix (?p @ [c]) k" "node_at fs k \<noteq> None" for k
        using Suc.prems(3) that append_prefixD [OF that(1)] unfolding deep_def by fastforce
      then have "deep fs (b @ (r @ [c])) n" by (simp add: deep_def)
      then show ?thesis using Suc.IH [of "r @ [c]" nd' tw'] that by (simp add: butlast_append)
    qed
    then have "walked fs b {?p} (\<Union>c \<in> set (children fs ?p). part fs excludes (?p @ [c])) False (archived fs b [?p] tw)
        (walk_names n fs cwd (visitor_of lv excludes b) (render ?p) (children fs ?p) (archived fs b [?p] tw))"
      using Suc.prems(4) by (intro walk_names_archives [OF t _ pl]) (auto simp: set_children distinct_children)
    then obtain vs stop where w: "walk_names n fs cwd (visitor_of lv excludes b) (render ?p) (children fs ?p) (archived fs b [?p] tw) =
        Some (stop, archived fs b vs (archived fs b [?p] tw))" "passes False stop" "distinct vs"
      "set vs = (\<Union>c \<in> set (children fs ?p). part fs excludes (?p @ [c]))" "parents_first {?p} vs"
      by (auto simp: walked_def)
    have "?p \<notin> set vs" using w(4) by (auto simp: tree_set_def)
    moreover have "part fs excludes ?p = insert ?p (set vs)" using tree_set_dir [OF d] True tidyD(1) [OF t] w(4) by simp
    moreover have "parents_first {?p, butlast ?p} vs" using w(5) by (rule parents_first_mono) simp
    ultimately show ?thesis using w v rd True
      by (intro walkedI [of _ stop _ _ "?p # vs"]) (auto simp: passes_def)
  qed
qed

subsection \<open>All sources\<close>

text \<open>What an archive of the sources holds: names inside the archive, with their nodes.\<close>

definition contents :: "fs \<Rightarrow> string list \<Rightarrow> path list \<Rightarrow> (path \<times> node) set" where
  "contents fs excludes ps =
     {(r, nd). \<exists>p \<in> set ps. butlast p @ r \<in> part fs excludes p \<and> node_at fs (butlast p @ r) = Some nd}"

definition archive_of :: "fs \<Rightarrow> string list \<Rightarrow> path list \<Rightarrow> (path \<times> node) list \<Rightarrow> bool" where
  "archive_of fs excludes ps es =
     (set es = contents fs excludes ps \<and> distinct (map fst es) \<and> parents_first {[]} (map fst es))"

lemma parents_first_drop:
  "parents_first S vs \<Longrightarrow> \<forall>v \<in> set vs. \<exists>r. v = b @ r \<and> r \<noteq> [] \<Longrightarrow>
    parents_first (drop (length b) ` S) (map (drop (length b)) vs)"
proof (induction vs arbitrary: S)
  case (Cons v vs)
  then obtain r where r: "v = b @ r" "r \<noteq> []" by auto
  then have "drop (length b) (butlast v) = butlast (drop (length b) v)" by (simp add: butlast_append)
  then have "butlast (drop (length b) v) \<in> drop (length b) ` S" using Cons.prems(1) by (metis imageI parents_first.simps(2))
  then show ?case using Cons.IH [of "insert v S"] Cons.prems by simp
qed simp

lemma part_below: "k \<in> part fs excludes p \<Longrightarrow> p \<noteq> [] \<Longrightarrow> \<exists>r. k = butlast p @ last p # r"
proof -
  assume "k \<in> part fs excludes p" "p \<noteq> []"
  then obtain r where "k = p @ r" "p = butlast p @ [last p]" by (auto simp: tree_set_def prefix_def)
  then have "k = butlast p @ last p # r" by (metis append.assoc append_Cons append_Nil)
  then show ?thesis ..
qed

lemma contents_head: "(r, nd) \<in> contents fs excludes [p] \<Longrightarrow> p \<noteq> [] \<Longrightarrow> r \<noteq> [] \<and> hd r = last p"
  using part_below [of "butlast p @ r" fs excludes p] by (auto simp: contents_def)

lemma contents_Cons: "contents fs excludes (p # ps) = contents fs excludes [p] \<union> contents fs excludes ps"
  by (auto simp: contents_def)

lemma one_source:
  assumes t: "tidy fs" and q: "quiet lv" and n: "length fs < n" and p: "p \<noteq> []" "node_at fs p = Some nd" and m: "tw_missing tw = 0"
  shows "\<exists>es tw'. Walk n fs cwd (visitor_of lv excludes (butlast p)) (render p) tw = Some (None, tw') \<and>
    tw_entries tw' = tw_entries tw @ map (\<lambda>(r, nd). node_entry r nd) es \<and> tw_missing tw' = 0 \<and> archive_of fs excludes [p] es"
proof -
  let ?b = "butlast p"
  have pb: "p = ?b @ [last p]" using p(1) by simp
  have "deep fs p n" using depth_bound [OF tidyD(1) [OF t]] n unfolding deep_def by (meson less_trans trans_less_add2)
  then have "walked fs ?b {?b} (part fs excludes p) (nd = Dir) tw (walk_tree n fs cwd (visitor_of lv excludes ?b) (render p) nd tw)"
    using walk_tree_archives [OF t q, of ?b "[last p]" nd n tw excludes cwd] p m by simp
  then obtain vs stop where w: "walk_tree n fs cwd (visitor_of lv excludes ?b) (render p) nd tw = Some (stop, archived fs ?b vs tw)"
    "passes (nd = Dir) stop" "distinct vs" "set vs = part fs excludes p" "parents_first {?b} vs"
    by (auto simp: walked_def)
  let ?es = "map (\<lambda>k. (drop (length ?b) k, the (node_at fs k))) vs"
  have below: "\<exists>r. k = ?b @ r \<and> r \<noteq> []" if "k \<in> set vs" for k using part_below [of k fs excludes p] that w(4) p(1) by auto
  have ex: "node_at fs k \<noteq> None" if "k \<in> set vs" for k using that w(4) by (simp add: tree_set_def)
  have "set ?es = contents fs excludes [p]"
  proof (intro equalityI subsetI)
    fix x assume "x \<in> set ?es"
    then show "x \<in> contents fs excludes [p]" using below ex w(4) by (fastforce simp: contents_def)
  next
    fix x assume "x \<in> contents fs excludes [p]"
    then show "x \<in> set ?es" using w(4) by (force simp: contents_def)
  qed
  moreover have "distinct (map fst ?es)"
  proof -
    have "inj_on (drop (length ?b)) (set vs)" by (rule inj_onI) (metis below append_eq_conv_conj)
    then show ?thesis using w(3) by (simp add: comp_def distinct_map)
  qed
  moreover have "parents_first {[]} (map fst ?es)" using parents_first_drop [OF w(5), of ?b] below by (simp add: comp_def)
  ultimately have "archive_of fs excludes [p] ?es" by (simp add: archive_of_def)
  moreover have "tw_entries (archived fs ?b vs tw) = tw_entries tw @ map (\<lambda>(r, nd). node_entry r nd) ?es"
    by (simp add: entry_of_def comp_def)
  moreover have "stop \<noteq> Some (Fail x)" for x using w(2) by (auto simp: passes_def)
  moreover have "lstat fs (at_cwd cwd (render p)) = Ok nd" using lstat_there [OF t p(2)] by (simp add: at_cwd_def)
  ultimately show ?thesis using w(1) m
    by (intro exI [of _ ?es] exI [of _ "archived fs ?b vs tw"]) (auto simp: Walk_def split: option.split walk_stop.split)
qed

lemma walk_sources_archives:
  assumes t: "tidy fs" and q: "quiet lv" and n: "length fs < n"
  shows "\<forall>p \<in> set ps. p \<noteq> [] \<and> node_at fs p \<noteq> None \<Longrightarrow> distinct (map last ps) \<Longrightarrow> tw_missing tw = 0 \<Longrightarrow>
    \<exists>es tw'. walk_sources n fs cwd lv excludes (map render ps) tw = Some (None, tw') \<and>
      tw_entries tw' = tw_entries tw @ map (\<lambda>(r, nd). node_entry r nd) es \<and> tw_missing tw' = 0 \<and> archive_of fs excludes ps es"
proof (induction ps arbitrary: tw)
  case Nil
  then show ?case by (intro exI [of _ "[]"]) (simp add: archive_of_def contents_def)
next
  case (Cons p ps)
  have p: "p \<noteq> []" using Cons.prems(1) by simp
  obtain nd where nd: "node_at fs p = Some nd" using Cons.prems(1) by auto
  have pl: "list_all plain p" using t nd by (rule tidyD(2))
  have names: "clean (render p) = render p" "path_dir (render p) = render (butlast p)"
    using pl p clean_render path_dir_render [of "butlast p" "last p"] by simp_all
  obtain xs tw1 where x: "Walk n fs cwd (visitor_of lv excludes (butlast p)) (render p) tw = Some (None, tw1)"
    "tw_entries tw1 = tw_entries tw @ map (\<lambda>(r, nd). node_entry r nd) xs" "tw_missing tw1 = 0" "archive_of fs excludes [p] xs"
    using one_source [OF t q n p nd Cons.prems(3), of cwd excludes] by blast
  obtain ys tw2 where y: "walk_sources n fs cwd lv excludes (map render ps) tw1 = Some (None, tw2)"
    "tw_entries tw2 = tw_entries tw1 @ map (\<lambda>(r, nd). node_entry r nd) ys" "tw_missing tw2 = 0" "archive_of fs excludes ps ys"
    using Cons.IH [of tw1] Cons.prems x(3) by auto
  have "fst e \<noteq> fst e'" if e: "e \<in> set xs" "e' \<in> set ys" for e e'
  proof -
    obtain r nd' r' nd'' where rr: "e = (r, nd')" "e' = (r', nd'')" by (cases e; cases e') auto
    have "r \<noteq> [] \<and> hd r = last p" using contents_head [OF _ p] e(1) x(4) rr by (simp add: archive_of_def)
    moreover obtain p' where p': "p' \<in> set ps" "(r', nd'') \<in> contents fs excludes [p']"
      using e(2) y(4) rr by (auto simp: archive_of_def contents_def)
    then have "hd r' = last p'" using contents_head [OF p'(2)] Cons.prems(1) by auto
    ultimately show ?thesis using rr p'(1) Cons.prems(2) by auto
  qed
  then have "fst ` set xs \<inter> fst ` set ys = {}" by blast
  moreover have "parents_first ({[]} \<union> fst ` set xs) (map fst ys)"
    using y(4) by (auto simp: archive_of_def intro: parents_first_mono)
  ultimately have "archive_of fs excludes (p # ps) (xs @ ys)"
    using x(4) y(4) contents_Cons [of fs excludes p ps] by (auto simp: archive_of_def parents_first_append)
  moreover have "\<not> lv_stops lv (render p)" using q by (simp add: quiet_def)
  ultimately show ?case using x y names by (intro exI [of _ "xs @ ys"] exI [of _ tw2]) (simp add: Let_def)
qed

lemma collected:
  assumes "tidy fs" and "quiet lv" and "\<forall>p \<in> set ps. p \<noteq> [] \<and> node_at fs p \<noteq> None" and "distinct (map last ps)"
  shows "\<exists>es tw. collect_entries fs cwd lv excludes (map render ps) = Ok tw \<and>
    tw_entries tw = map (\<lambda>(r, nd). node_entry r nd) es \<and> archive_of fs excludes ps es"
  using walk_sources_archives [OF assms(1,2) lessI assms(3,4), of new_writer cwd excludes]
  by (auto simp: collect_entries_def new_writer_def)

end
