(* ===== verification/Backup_Restore.thy ===== *)
theory Backup_Restore
  imports Backup_Walk
begin

text \<open>
  What a restore makes of an archive without links in an empty directory: exactly the nodes the
  archive holds, below the destination.
\<close>

subsection \<open>One entry\<close>

lemma check_parents_solid:
  "list_all plain (d @ parts) \<Longrightarrow> solid fs (d @ parts) \<Longrightarrow> check_parents fs name (render d) parts = Ok ()"
proof (induction parts arbitrary: d)
  case (Cons part parts)
  have pl: "list_all plain (d @ [part])" using Cons.prems(1) by simp
  have s: "solid fs (d @ [part])" using Cons.prems(2) by (rule solid_prefix) simp
  have "path_join (render d) part = render (d @ [part])" using pl by (simp add: path_join_plain)
  then show ?case using lstat_dest [OF pl s] Cons.IH [of "d @ [part]"] Cons.prems by simp
qed simp

lemma Join_below:
  assumes pl: "list_all plain (d @ r @ [c])" and d: "d \<noteq> []" and s: "solid fs (d @ r)"
  shows "Join fs (render d) (join [slash] (r @ [c])) = Ok (render (d @ r @ [c]))"
proof -
  let ?k = "d @ r @ [c]" and ?name = "join [slash] (r @ [c])"
  have pd: "list_all plain d" "list_all plain (r @ [c])" using pl by simp_all
  have cn: "comps ?name = r @ [c]" by (rule comps_join [OF plain_named [OF pd(2)]])
  have j: "clean (path_join (render d) ?name) = render ?k"
    using pd pl by (simp add: path_join_render cn norm_plain clean_render)
  have split: "render ?k = render d @ [slash] @ ?name" using d by (simp add: render_def join_append)
  have rel: "path_rel (render d) (render ?k) = Some ?name"
    using split by (simp add: path_rel_def has_prefix_def)
  have sp: "split_on slash ?name = r @ [c]" by (rule split_on_join [OF _ plain_named [OF pd(2)]]) simp
  have "?name \<noteq> ''.''"
  proof
    assume "?name = ''.''"
    then have "r @ [c] = [''.'']" using sp by (simp add: slash_def)
    then show False using pd(2) by (auto simp: plain_def)
  qed
  moreover have "has_prefix (render ?k) (render d @ [slash])" using split by (simp add: has_prefix_def)
  moreover have "check_parents fs ?name (render d) r = Ok ()" using pl s by (intro check_parents_solid) simp_all
  ultimately show ?thesis
    using pd j rel sp by (simp add: Join_def Let_def clean_render)
qed

lemma absent_lstat:
  assumes "list_all plain (p @ [c])" and "solid fs p" and "node_at fs (p @ [c]) = None"
  shows "lstat fs (render (p @ [c])) = Err ENOENT" "stat fs (render (p @ [c])) = Err ENOENT"
proof -
  show "lstat fs (render (p @ [c])) = Err ENOENT" using locate_solid [OF assms(1,2)] assms(3) by (simp add: lstat_def)
  have pl: "list_all plain p" using assms(1) by simp
  have "walk fs max_links [] (p @ [c]) = walk fs max_links ([] @ p) [c]"
    using pl assms(2) by (intro walk_through) (simp_all add: solid_take)
  moreover have "c \<noteq> ''.''" "c \<noteq> ''..''" using assms(1) by (simp_all add: plain_def)
  ultimately show "stat fs (render (p @ [c])) = Err ENOENT"
    using assms at_solid [OF assms(2)] by (simp add: stat_def comps_render_plain walk.simps)
qed

lemma made_dir:
  assumes "list_all plain (p @ [c])" and "solid fs p" and "node_at fs (p @ [c]) = None"
  shows "safe_Mkdir fs (render (p @ [c])) = (None, put (p @ [c]) Dir fs)"
proof -
  let ?k = "p @ [c]"
  have "mkdir_all_rev fs (rev p) = (None, fs)"
    using mkdir_all_dest [of p fs] assms by (simp add: mkdir_all_def comps_render_plain)
  moreover have "sys_mkdir fs (render ?k) = (None, put ?k Dir fs)"
    using locate_solid [OF assms(1,2)] assms(3) by (simp add: sys_mkdir_def)
  ultimately have "mkdir_all fs (render ?k) = (None, put ?k Dir fs)"
    using assms absent_lstat [OF assms] by (simp add: mkdir_all_def comps_render_plain)
  then show ?thesis using absent_lstat(1) [OF assms] by (simp add: safe_Mkdir_def replaceSymlink_def)
qed

lemma made_file:
  assumes "list_all plain (p @ [c])" and "solid fs p" and "node_at fs (p @ [c]) = None"
  shows "restore_regular fs (render (p @ [c])) (header name TypeReg link content) =
    (None, int (length content), put (p @ [c]) (File content) (put (p @ [c]) (File []) fs))"
proof -
  let ?k = "p @ [c]"
  have "MkdirParents fs (render ?k) = (None, fs)"
    using mkdir_all_dest [of p fs] assms by (simp add: MkdirParents_def path_dir_render)
  moreover have "safe_Create fs (render ?k) = (Ok ?k, put ?k (File []) fs)"
    using absent_lstat(1) [OF assms] locate_solid [OF assms(1,2)] assms(3)
    by (simp add: safe_Create_def replaceSymlink_def sys_create_def)
  ultimately show ?thesis by (simp add: restore_regular_def header_def)
qed

subsection \<open>The whole archive\<close>

definition bytes_of :: "(path \<times> node) list \<Rightarrow> int" where
  "bytes_of es = sum_list (map (\<lambda>(r, nd). case nd of File content \<Rightarrow> int (length content) | _ \<Rightarrow> 0) es)"

definition item_of :: "path \<times> node \<Rightarrow> item" where
  "item_of e = Entry (node_entry (fst e) (snd e))"

lemma restored_entry:
  assumes pl: "list_all plain (d @ p @ [c])" and d: "d \<noteq> []" and s: "solid fs (d @ p)"
    and new: "node_at fs (d @ p @ [c]) = None" and wf: "wf_fs fs" and link: "\<not> is_link (Some nd)"
  shows "\<exists>fs1. extractArchive (render d) (item_of (p @ [c], nd) # items) res fs =
      extractArchive (render d) items
        (res\<lparr>rr_Entries := rr_Entries res + 1, rr_Bytes := rr_Bytes res + bytes_of [(p @ [c], nd)]\<rparr>) fs1 \<and>
    wf_fs fs1 \<and> (\<forall>q. node_at fs1 q = (if q = d @ p @ [c] then Some nd else node_at fs q))"
proof -
  let ?k = "(d @ p) @ [c]"
  note J = Join_below [OF pl d s]
  have pl': "list_all plain ?k" and new': "node_at fs ?k = None" using pl new by simp_all
  have w: "wf_fs fs1" if "\<forall>q. node_at fs1 q = (if q = ?k then Some nd else node_at fs q)" for fs1
  proof -
    have "effect ?k fs (put ?k nd fs)" using wf at_solid [OF s] new' by (intro effect_put) (simp_all add: butlast_append)
    moreover have "node_at fs1 = node_at (put ?k nd fs)" using that by (simp add: fun_eq_iff)
    ultimately show ?thesis using wf_cong [of fs1 "put ?k nd fs"] by (simp add: effect_def)
  qed
  show ?thesis
  proof (cases nd)
    case Dir
    then show ?thesis
      using J made_dir [OF pl' s new'] w [of "put ?k Dir fs"]
      by (intro exI [of _ "put ?k Dir fs"])
        (simp add: item_of_def node_entry_def header_def restore_entry_def Let_def bytes_of_def)
  next
    case (File content)
    let ?fs1 = "put ?k (File content) (put ?k (File []) fs)"
    show ?thesis
      using J made_file [OF pl' s new', of "join [slash] (p @ [c])" "[]" content] w [of ?fs1] File
      by (intro exI [of _ ?fs1])
        (simp add: item_of_def node_entry_def header_def restore_entry_def Let_def bytes_of_def)
  next
    case (Link t)
    with link show ?thesis by simp
  qed
qed

definition holds :: "fs \<Rightarrow> path \<Rightarrow> (path \<times> node) list \<Rightarrow> fs \<Rightarrow> bool" where
  "holds fs d es fs' =
     (wf_fs fs' \<and> (\<forall>(r, nd) \<in> set es. node_at fs' (d @ r) = Some nd) \<and>
      (\<forall>q. q \<notin> (\<lambda>(r, nd). d @ r) ` set es \<longrightarrow> node_at fs' q = node_at fs q))"

lemma restored_all:
  assumes d: "d \<noteq> []" "list_all plain d"
  shows "wf_fs fs \<Longrightarrow> \<forall>r \<in> S. solid fs (d @ r) \<or> (\<forall>e \<in> set es. butlast (fst e) \<noteq> r) \<Longrightarrow> parents_first S (map fst es) \<Longrightarrow>
    distinct (map fst es) \<Longrightarrow> \<forall>(r, nd) \<in> set es. r \<noteq> [] \<and> list_all plain r \<and> \<not> is_link (Some nd) \<and> node_at fs (d @ r) = None \<Longrightarrow>
    \<forall>(r, nd) \<in> set es. \<forall>e \<in> set es. butlast (fst e) = r \<longrightarrow> nd = Dir \<Longrightarrow>
    \<exists>fs'. extractArchive (render d) (map item_of es) res fs =
      ((res\<lparr>rr_Entries := rr_Entries res + int (length es), rr_Bytes := rr_Bytes res + bytes_of es\<rparr>, None), fs') \<and> holds fs d es fs'"
proof (induction es arbitrary: fs S res)
  case Nil
  then show ?case by (simp add: holds_def bytes_of_def)
next
  case (Cons e es)
  obtain r nd where e: "e = (r, nd)" by (cases e)
  then obtain p c where r: "r = p @ [c]" using Cons.prems(5) by (cases r rule: rev_cases) auto
  have "p \<in> S" using Cons.prems(3) e r by simp
  then have s: "solid fs (d @ p)" using Cons.prems(2) e r by auto
  obtain fs1 where one: "extractArchive (render d) (map item_of (e # es)) res fs =
      extractArchive (render d) (map item_of es)
        (res\<lparr>rr_Entries := rr_Entries res + 1, rr_Bytes := rr_Bytes res + bytes_of [e]\<rparr>) fs1"
    "wf_fs fs1" "\<And>q. node_at fs1 q = (if q = d @ r then Some nd else node_at fs q)"
    using restored_entry [OF _ d(1) s _ Cons.prems(1), of c nd "map item_of es" res] Cons.prems(5) e r d(2) by auto
  have "solid fs1 (d @ x)" if "solid fs (d @ x)" for x
    using that one(3) Cons.prems(5) e unfolding solid_def by auto
  moreover have "solid fs1 (d @ r)" if "nd = Dir"
  proof -
    have "solid fs1 (d @ p)" using s one(3) Cons.prems(5) e unfolding solid_def by auto
    moreover have "node_at fs1 (d @ r) = Some Dir" using one(3) that by simp
    ultimately show ?thesis using r by (auto simp: solid_def prefix_snoc simp flip: append_assoc)
  qed
  ultimately have A: "\<forall>x \<in> insert r S. solid fs1 (d @ x) \<or> (\<forall>e \<in> set es. butlast (fst e) \<noteq> x)"
    using Cons.prems(2,6) e by auto
  have B: "\<forall>(x, nd') \<in> set es. x \<noteq> [] \<and> list_all plain x \<and> \<not> is_link (Some nd') \<and> node_at fs1 (d @ x) = None"
    using Cons.prems(4,5) e one(3) by force
  have C: "parents_first (insert r S) (map fst es)" "distinct (map fst es)" using Cons.prems(3,4) e by simp_all
  have D: "\<forall>(x, nd') \<in> set es. \<forall>e \<in> set es. butlast (fst e) = x \<longrightarrow> nd' = Dir" using Cons.prems(6) by auto
  let ?res = "res\<lparr>rr_Entries := rr_Entries res + 1, rr_Bytes := rr_Bytes res + bytes_of [e]\<rparr>"
  obtain fs' where f: "extractArchive (render d) (map item_of es) ?res fs1 =
      ((?res\<lparr>rr_Entries := rr_Entries ?res + int (length es), rr_Bytes := rr_Bytes ?res + bytes_of es\<rparr>, None), fs')"
    "holds fs1 d es fs'"
    using Cons.IH [OF one(2) A C B D, of ?res] by blast
  have "holds fs d (e # es) fs'"
  proof -
    have "d @ r \<notin> (\<lambda>(x, nd). d @ x) ` set es" using Cons.prems(4) e by force
    then show ?thesis using f(2) one(3) e by (auto simp: holds_def)
  qed
  moreover have "bytes_of (e # es) = bytes_of [e] + bytes_of es" by (simp add: bytes_of_def)
  ultimately show ?case using one(1) f(1) by (simp add: add.assoc)
qed

end
