(* ===== verification/Backup_Runs.thy ===== *)
theory Backup_Runs
  imports Backup_Restore
begin

text \<open>
  What a run does to a quiet disk, and what its retention keeps: the file of the archive in the local
  target, the rows of the runs, and the artifacts that stay.
\<close>

subsection \<open>The name of an archive\<close>

lemma sanitise_chars: "\<forall>c \<in> set (sanitise_runes s). name_char c"
proof (induction s rule: sanitise_runes.induct)
  case (1 s)
  show ?case
  proof (cases s)
    case Nil
    then show ?thesis by (simp add: sanitise_runes.simps [of "[]"])
  next
    case (Cons c t)
    have "sanitise_runes s = (if name_char c then c else CHR ''-'') # sanitise_runes (drop (rune_len s - 1) t)"
      by (subst sanitise_runes.simps) (simp only: Cons list.case)
    moreover have "name_char (CHR ''-'')" by (simp add: name_char_def)
    ultimately show ?thesis using 1 [OF Cons] by simp
  qed
qed

lemma slash_not_in_names: "name_char c \<Longrightarrow> c \<noteq> slash" "is_digit c \<Longrightarrow> c \<noteq> slash"
  by (auto simp: name_char_def is_digit_def in_range_def slash_def)

lemma padded_digits: "\<forall>c \<in> set (padded w n). is_digit c"
  using nat_dec_digits [of "nat n"] by (auto simp: padded_def Let_def is_digit_def in_range_def)

lemma stamp_no_slash: "slash \<notin> set (stamp now)"
  using padded_digits slash_not_in_names(2) by (auto simp: stamp_def Let_def split: prod.split) (auto simp: slash_def)

lemma plain_artifact_name: "plain (artifact_name job now)"
proof -
  have "\<forall>c \<in> set (sanitise_runes (bj_Name job)). c \<noteq> slash" using sanitise_chars slash_not_in_names(1) by blast
  then have "slash \<notin> set (sanitise (bj_Name job))" by (auto simp: sanitise_def Let_def slash_def)
  then show ?thesis using stamp_no_slash by (auto simp: plain_def artifact_name_def slash_def)
qed

subsection \<open>The archive in a local target\<close>

lemma tidy_put:
  assumes "tidy fs" and "node_at fs p = Some Dir" and "node_at fs (p @ [c]) \<noteq> Some Dir" and "plain c"
  shows "tidy (put (p @ [c]) nd fs)"
proof -
  have "effect (p @ [c]) fs (put (p @ [c]) nd fs)" using assms by (intro effect_put) (simp_all add: tidy_def)
  moreover have "list_all plain p" using assms(1,2) by (rule tidyD(2))
  ultimately show ?thesis using assms(1,4) by (auto simp: tidy_def effect_def)
qed

lemma tidy_cong: "node_at fs1 = node_at fs2 \<Longrightarrow> tidy fs1 \<longleftrightarrow> tidy fs2"
  using wf_cong [of fs1 fs2] by (simp add: tidy_def)

lemma tree_set_put:
  assumes "\<not> prefix p q"
  shows "tree_set (put q nd fs) keep p = tree_set fs keep p"
  using assms by (auto simp: tree_set_def)

lemma contents_put:
  assumes "\<forall>p \<in> set ps. p \<noteq> [] \<and> \<not> prefix p q"
  shows "contents (put q nd fs) excludes ps = contents fs excludes ps"
proof -
  have "butlast p @ r \<noteq> q" if "butlast p @ r \<in> part fs excludes p" "p \<in> set ps" for p r
    using that assms by (auto simp: tree_set_def)
  then show ?thesis using assms by (auto simp: contents_def tree_set_put)
qed

lemma os_rename_file:
  assumes t: "tidy fs" and a: "node_at fs a = Some (File content)" and d: "node_at fs t = Some Dir" and c: "plain c"
    and new: "node_at fs (t @ [c]) = None" and ne: "a \<noteq> []"
  shows "\<exists>fs'. os_rename fs (render a) (render (t @ [c])) = (None, fs') \<and>
    (\<forall>q. node_at fs' q = (if q = t @ [c] then Some (File content) else if q = a then None else node_at fs q))"
proof -
  let ?b = "t @ [c]"
  have wf: "wf_fs fs" using t by (rule tidyD)
  have sd: "solid fs t" using wf d by (rule dir_solid)
  have pl: "list_all plain ?b" using tidyD(2) [OF t d] c by simp
  have lb: "locate fs (render ?b) = Ok ?b" using pl sd by (rule locate_solid)
  obtain a' x where a': "a = a' @ [x]" using ne by (metis append_butlast_last_id)
  have la: "locate fs (render a) = Ok a"
    using tidyD(2) [OF t a] at_solid_above [OF wf, of a' "[x]"] a a' locate_solid [of a' x fs] by simp
  have below: "node_at fs (?b @ r) = None" if "r \<noteq> []" for r using wf_below_none [OF wf _ that, of ?b] new by simp
  have gone: "node_at fs (a @ r) = None" if "r \<noteq> []" for r using wf_below_none [OF wf _ that, of a] a by simp
  have pre: "\<not> prefix a ?b"
  proof
    assume "prefix a ?b"
    then have "a = ?b \<or> prefix a t" by (simp add: prefix_snoc)
    then show False using a new gone d by (auto simp: prefix_def) (metis node.distinct(1) append_Nil2 option.distinct(1) option.inject)
  qed
  have at: "node_at (move_tree a ?b fs) q = (if q = ?b then Some (File content) else if q = a then None else node_at fs q)" for q
  proof (cases "prefix ?b q")
    case True
    then obtain r where r: "q = ?b @ r" by (auto simp: prefix_def)
    then have "node_at (move_tree a ?b fs) q = node_at fs (a @ r)" by (subst node_at_move_tree [OF below pre]) auto
    then show ?thesis using r a gone below [of r] by (cases "r = []") auto
  next
    case False
    then have m: "node_at (move_tree a ?b fs) q = (if prefix a q then None else node_at fs q)"
      by (subst node_at_move_tree [OF below pre]) auto
    have b: "q \<noteq> ?b" using False by auto
    show ?thesis
    proof (cases "prefix a q")
      case True
      then obtain r where "q = a @ r" by (auto simp: prefix_def)
      then show ?thesis using m b gone [of r] by (cases "r = []") auto
    next
      case False
      then have "q \<noteq> a" by auto
      then show ?thesis using m b False by simp
    qed
  qed
  have "lstat fs (render ?b) \<noteq> Ok Dir" using lb new by (simp add: lstat_def)
  then have "os_rename fs (render a) (render ?b) = (None, move_tree a ?b fs)"
    using la lb a new pre by (auto simp: os_rename_def sys_rename_def)
  with at show ?thesis by blast
qed

text \<open>The disk a run starts from, and the paths it works with.\<close>

definition ready :: "fs \<Rightarrow> backup_job \<Rightarrow> path list \<Rightarrow> path \<Rightarrow> path \<Rightarrow> string \<Rightarrow> bool" where
  "ready fs job ps s t name =
     (tidy fs \<and> bj_TargetKind job = TargetLocal \<and> bj_Sources job = map render ps \<and>
      (\<forall>p \<in> set ps. p \<noteq> [] \<and> node_at fs p \<noteq> None \<and> \<not> prefix p s) \<and> distinct (map last ps) \<and>
      node_at fs s = Some Dir \<and> node_at fs t = Some Dir \<and> s \<noteq> t \<and> tc_Path (bj_Target job) = render t \<and>
      node_at fs (s @ [name]) = None \<and> node_at fs (t @ [name]) = None)"

lemma performed:
  assumes r: "ready (bw_fs w) job ps s t (artifact_name job now)" and st: "rn_stage rn = render s" and q: "quiet lv"
  shows "\<exists>es content fs'. archive_of (bw_fs w) (bj_Excludes job) ps es \<and>
    content = cd_pack (rn_codec rn) (map (\<lambda>(r, nd). node_entry r nd) es) \<and>
    perform rn lv now job w = (Ok (render (t @ [artifact_name job now]), int (length content)), w\<lparr>bw_fs := fs'\<rparr>) \<and>
    (\<forall>q. node_at fs' q = (if q = t @ [artifact_name job now] then Some (File content) else node_at (bw_fs w) q))"
proof -
  define fs where "fs = bw_fs w"
  define name where "name = artifact_name job now"
  let ?a = "s @ [name]" and ?b = "t @ [name]"
  note r' = r [unfolded ready_def, folded fs_def name_def]
  have t: "tidy fs" and job: "bj_TargetKind job = TargetLocal" "bj_Sources job = map render ps" "tc_Path (bj_Target job) = render t"
    and ps: "\<forall>p \<in> set ps. p \<noteq> [] \<and> node_at fs p \<noteq> None \<and> \<not> prefix p s" "distinct (map last ps)"
    and d: "node_at fs s = Some Dir" "node_at fs t = Some Dir" "s \<noteq> t"
    and new: "node_at fs ?a = None" "node_at fs ?b = None" using r' by blast+
  have pn: "plain name" by (simp add: name_def plain_artifact_name)
  have wf: "wf_fs fs" using t by (rule tidyD)
  have pl: "list_all plain s" "list_all plain t" using tidyD(2) [OF t] d by blast+
  have sd: "solid fs s" using wf d(1) by (rule dir_solid)
  have local_name: "path_join (rn_stage rn) name = render ?a" using st pl(1) pn by (simp add: path_join_plain)
  have dest: "path_join (tc_Path (bj_Target job)) name = render ?b" using job(3) pl(2) pn by (simp add: path_join_plain)
  have opened: "sys_open_trunc max_links fs (render ?a) = (Ok ?a, put ?a (File []) fs)"
    using locate_solid [of s name fs] pl(1) pn sd new(1) by (simp add: sys_open_trunc.simps)
  let ?fs1 = "put ?a (File []) fs"
  have t1: "tidy ?fs1" using t d(1) pn new(1) by (intro tidy_put) simp_all
  have away: "\<forall>p \<in> set ps. p \<noteq> [] \<and> \<not> prefix p ?a" using ps(1) new(1) by (auto simp: prefix_snoc)
  have "\<forall>p \<in> set ps. p \<noteq> [] \<and> node_at ?fs1 p \<noteq> None" using ps(1) by simp
  from collected [OF t1 q this ps(2), of "rn_cwd rn" "bj_Excludes job"] obtain es tw where
    e: "collect_entries ?fs1 (rn_cwd rn) lv (bj_Excludes job) (bj_Sources job) = Ok tw"
      "tw_entries tw = map (\<lambda>(r, nd). node_entry r nd) es" "archive_of ?fs1 (bj_Excludes job) ps es"
    using job(2) by auto
  have es: "archive_of fs (bj_Excludes job) ps es" using e(3) contents_put [OF away] by (simp add: archive_of_def)
  define content where "content = cd_pack (rn_codec rn) (map (\<lambda>(r, nd). node_entry r nd) es)"
  let ?fs2 = "put ?a (File content) ?fs1"
  have ar: "archive_file rn lv job (render ?a) fs = (Ok (int (length content)), ?fs2)"
    using opened e by (simp add: archive_file_def content_def Let_def)
  have t2: "tidy ?fs2" by (rule tidy_put [OF t1]) (use d(1) pn new(1) in auto)
  have d2: "node_at ?fs2 t = Some Dir" using d(2) new(1) by auto
  have new2: "node_at ?fs2 ?b = None" using new(2) d(3) by simp
  have a2: "node_at ?fs2 ?a = Some (File content)" by simp
  obtain fs3 where mv: "os_rename ?fs2 (render ?a) (render ?b) = (None, fs3)"
    "\<forall>q. node_at fs3 q = (if q = ?b then Some (File content) else if q = ?a then None else node_at ?fs2 q)"
    using os_rename_file [OF t2 a2 d2 pn new2] by auto
  have at: "\<forall>q. node_at fs3 q = (if q = ?b then Some (File content) else node_at fs q)"
    using mv(2) new(1) by auto
  have sd2: "solid ?fs2 t" using tidyD(1) [OF t2] d2 by (rule dir_solid)
  have "store_local (rn_cwd rn) (render ?a) job name ?fs2 = (Ok (render ?b), fs3)"
    using mv(1) mkdir_all_dest [OF pl(2) sd2] dest job(3) by (simp add: store_local_def moveFile_def at_cwd_def Let_def)
  then have "perform rn lv now job w = (Ok (render ?b, int (length content)), w\<lparr>bw_fs := fs3\<rparr>)"
    using mkdir_all_dest [OF pl(1) sd] ar local_name job(1) st
    by (simp add: perform_def Let_def flip: fs_def name_def)
  then show ?thesis using es at content_def unfolding fs_def name_def by blast
qed

subsection \<open>The row of a run\<close>

definition finished :: "int \<Rightarrow> int \<Rightarrow> string \<Rightarrow> execution \<Rightarrow> string \<Rightarrow> int \<Rightarrow> backup_run" where
  "finished runID jobID trigger ex artifact bytes =
     \<lparr> br_ID = runID, br_JobID = jobID, br_StartedAt = ex_start ex, br_EndedAt = ex_end ex, br_Status = StatusSuccess,
       br_Artifact = artifact, br_SizeBytes = bytes, br_Trigger = trigger \<rparr>"

lemma finish_started:
  assumes "backup_ok db" and "StartRun jobID trigger (ex_start ex) db = (Ok runID, db1)"
  shows "runID = bd_runSeq db + 1" and
    "FinishRun runID StatusSuccess artifact bytes (ex_end ex) db1 =
      db\<lparr>bd_runs := bd_runs db @ [finished runID jobID trigger ex artifact bytes], bd_runSeq := runID\<rparr>" and
    "RunByID (FinishRun runID StatusSuccess artifact bytes (ex_end ex) db1) runID = Ok (finished runID jobID trigger ex artifact bytes)"
proof -
  show id': "runID = bd_runSeq db + 1" using assms(2) by (auto simp: StartRun_def Let_def split: if_splits)
  have other: "\<forall>r \<in> set (bd_runs db). br_ID r \<noteq> runID" using assms(1) id' by (auto simp: backup_ok_def)
  then have "sql_update (\<lambda>r. br_ID r = runID) f (bd_runs db) = bd_runs db" for f by (rule sql_update_none)
  then show db: "FinishRun runID StatusSuccess artifact bytes (ex_end ex) db1 =
      db\<lparr>bd_runs := bd_runs db @ [finished runID jobID trigger ex artifact bytes], bd_runSeq := runID\<rparr>"
    using assms(2) by (auto simp: StartRun_def Let_def FinishRun_def finished_def split: if_splits)
  have "find (\<lambda>r. br_ID r = runID) (bd_runs db) = None" using other by (auto simp: find_None_iff)
  then show "RunByID (FinishRun runID StatusSuccess artifact bytes (ex_end ex) db1) runID = Ok (finished runID jobID trigger ex artifact bytes)"
    unfolding db by (simp add: RunByID_def find_append finished_def)
qed

lemma one_more_success:
  "artifact \<noteq> [] \<Longrightarrow>
    length (SuccessfulRuns (db\<lparr>bd_runs := bd_runs db @ [finished runID jobID trigger ex artifact bytes], bd_runSeq := runID\<rparr>) jobID) =
    Suc (length (SuccessfulRuns db jobID))"
  by (simp add: SuccessfulRuns_def newest_first_def finished_def)

lemma job_has_its_id: "GetJob db jobID = Ok job \<Longrightarrow> bj_ID job = jobID \<and> job_by_id db jobID \<noteq> None"
  using find_Some_in [of "\<lambda>r. bj_ID (jr_job r) = jobID" "bd_jobs db"]
  by (auto simp: GetJob_def job_by_id_def scanJob_def split: option.splits)

lemma executed:
  fixes rn :: "'o runner" and w :: "'o backup_world"
  assumes q: "quiet (ex_live ex)" "\<not> ex_expired ex" and job: "GetJob (bw_db w) jobID = Ok job" and ok: "backup_ok (bw_db w)"
    and idle: "jobID \<notin> set (bw_running w)"
    and r: "ready (bw_fs w) job ps s t (artifact_name job (ex_start ex))" and st: "rn_stage rn = render s"
    and room: "bj_Retention job \<le> 0 \<or> int (length (SuccessfulRuns (bw_db w) jobID)) < bj_Retention job"
  shows "\<exists>es content fs' run. archive_of (bw_fs w) (bj_Excludes job) ps es \<and>
    content = cd_pack (rn_codec rn) (map (\<lambda>(r, nd). node_entry r nd) es) \<and>
    (\<forall>q. node_at fs' q = (if q = t @ [artifact_name job (ex_start ex)] then Some (File content) else node_at (bw_fs w) q)) \<and>
    run = finished (bd_runSeq (bw_db w) + 1) jobID trigger ex (render (t @ [artifact_name job (ex_start ex)])) (int (length content)) \<and>
    Execute rn ex jobID trigger w = (Ok run, w\<lparr>bw_fs := fs',
      bw_db := (bw_db w)\<lparr>bd_runs := bd_runs (bw_db w) @ [run], bd_runSeq := bd_runSeq (bw_db w) + 1\<rparr>\<rparr>)"
proof -
  let ?name = "artifact_name job (ex_start ex)"
  obtain runID db1 where sr: "StartRun jobID trigger (ex_start ex) (bw_db w) = (Ok runID, db1)"
    using job_has_its_id [OF job] by (auto simp: StartRun_def Let_def)
  define v where "v = w\<lparr>bw_running := jobID # bw_running w, bw_db := db1\<rparr>"
  have "ready (bw_fs v) job ps s t ?name" using r by (simp add: v_def)
  from performed [OF this st q(1)] obtain es content fs' where p:
    "archive_of (bw_fs w) (bj_Excludes job) ps es" "content = cd_pack (rn_codec rn) (map (\<lambda>(r, nd). node_entry r nd) es)"
    "perform rn (ex_live ex) (ex_start ex) job v = (Ok (render (t @ [?name]), int (length content)), v\<lparr>bw_fs := fs'\<rparr>)"
    "\<forall>q. node_at fs' q = (if q = t @ [?name] then Some (File content) else node_at (bw_fs w) q)"
    by (auto simp: v_def)
  define run where "run = finished runID jobID trigger ex (render (t @ [?name])) (int (length content))"
  note f1 = finish_started(1) [OF ok sr] and f = finish_started(2,3) [where artifact = "render (t @ [?name])" and bytes = "int (length content)", OF ok sr, folded run_def]
  have "render (t @ [?name]) \<noteq> []" by (simp add: render_def)
  note more = one_more_success [where db = "bw_db w" and runID = runID and jobID = jobID and trigger = trigger and ex = ex and bytes = "int (length content)", OF this, folded run_def]
  let ?w2 = "v\<lparr>bw_fs := fs', bw_db := (bw_db w)\<lparr>bd_runs := bd_runs (bw_db w) @ [run], bd_runSeq := runID\<rparr>\<rparr>"
  have "prune_runs rn job ?w2 = ?w2"
    using room more job_has_its_id [OF job] by (auto simp: prune_runs_def Let_def)
  then have "run_job rn ex jobID trigger (w\<lparr>bw_running := jobID # bw_running w\<rparr>) = (Ok run, ?w2)"
    using job sr p(3) q(2) f by (simp add: run_job_def v_def Let_def)
  then have "Execute rn ex jobID trigger w = (Ok run, ?w2\<lparr>bw_running := bw_running w\<rparr>)"
    using idle by (simp add: Execute_def v_def removeAll_id)
  then have "Execute rn ex jobID trigger w = (Ok run, w\<lparr>bw_fs := fs',
      bw_db := (bw_db w)\<lparr>bd_runs := bd_runs (bw_db w) @ [run], bd_runSeq := bd_runSeq (bw_db w) + 1\<rparr>\<rparr>)"
    using f1 by (simp add: v_def)
  moreover note p(1,2,4) run_def [unfolded f1]
  ultimately show ?thesis by blast
qed

subsection \<open>Retention\<close>

definition artifacts_present :: "fs \<Rightarrow> backup_run list \<Rightarrow> bool" where
  "artifacts_present fs rs =
     (distinct (map br_Artifact rs) \<and> (\<forall>r \<in> set rs. \<exists>p content. br_Artifact r = render p \<and> node_at fs p = Some (File content)))"

definition removed :: "'o backup_world \<Rightarrow> backup_run list \<Rightarrow> backup_run list" where
  "removed w rs = filter (\<lambda>r. \<not> beingRead w (br_ID r)) rs"

definition without :: "backup_run list \<Rightarrow> 'o backup_world \<Rightarrow> 'o backup_world \<Rightarrow> bool" where
  "without gone w w' =
     (tidy (bw_fs w') \<and> bw_reading w' = bw_reading w \<and>
      (\<forall>q. node_at (bw_fs w') q = (if render q \<in> br_Artifact ` set gone then None else node_at (bw_fs w) q)) \<and>
      bd_runs (bw_db w') = filter (\<lambda>r. br_ID r \<notin> br_ID ` set gone) (bd_runs (bw_db w)))"

lemma removed_file:
  assumes t: "tidy fs" and f: "node_at fs p = Some (File content)"
  shows "sys_remove fs (render p) = (None, del p fs)" and "tidy (del p fs)"
    and "node_at (del p fs) q = (if render q = render p then None else node_at fs q)"
proof -
  have wf: "wf_fs fs" using t by (rule tidyD)
  obtain p' x where p': "p = p' @ [x]" using f wf_root [OF wf] by (cases p rule: rev_cases) auto
  have "locate fs (render p) = Ok p"
    using tidyD(2) [OF t f] at_solid_above [OF wf, of p' "[x]"] f p' locate_solid [of p' x fs] by simp
  then show "sys_remove fs (render p) = (None, del p fs)" using f by (simp add: sys_remove_def)
  have "node_at fs (p @ [c]) = None" for c using wf_below_none [OF wf, of p "[c]"] f by simp
  then have "effect p fs (del p fs)" using wf p' by (intro effect_del) simp_all
  then show "tidy (del p fs)" using t by (auto simp: tidy_def effect_def)
  have "render q = render p \<longleftrightarrow> q = p" if "node_at fs q \<noteq> None"
    using that tidyD(2) [OF t] f render_inject [of q p] by auto
  then show "node_at (del p fs) q = (if render q = render p then None else node_at fs q)"
    by (cases "node_at fs q = None") auto
qed

lemma render_is_abs: "at_cwd cwd (render p) = render p"
  by (simp add: at_cwd_def)

lemma drop_runs_local:
  assumes local: "bj_TargetKind job = TargetLocal"
  shows "tidy (bw_fs w) \<Longrightarrow> artifacts_present (bw_fs w) rs \<Longrightarrow> without (removed w rs) w (fold (drop_run rn job secrets) rs w)"
proof (induction rs arbitrary: w)
  case Nil
  then show ?case by (simp add: without_def removed_def)
next
  case (Cons r rs)
  obtain p content where p: "br_Artifact r = render p" "node_at (bw_fs w) p = Some (File content)"
    using Cons.prems(2) by (auto simp: artifacts_present_def)
  define w1 where "w1 = drop_run rn job secrets r w"
  have other: "render p \<notin> br_Artifact ` set rs" using Cons.prems(2) p(1) by (auto simp: artifacts_present_def)
  have one: "without (removed w [r]) w w1"
  proof (cases "beingRead w (br_ID r)")
    case True
    then show ?thesis using Cons.prems(1) by (simp add: w1_def drop_run_def removed_def without_def Let_def)
  next
    case False
    then show ?thesis using local p(1) removed_file [OF Cons.prems(1) p(2)]
      by (simp add: w1_def drop_run_def removed_def without_def Let_def render_is_abs DeleteRun_def sql_delete_def)
  qed
  have "artifacts_present (bw_fs w1) rs"
  proof -
    have "node_at (bw_fs w1) x = node_at (bw_fs w) x" if "render x \<in> br_Artifact ` set rs" for x
      using one other that p(1) by (auto simp: without_def removed_def)
    then show ?thesis using Cons.prems(2) by (simp add: artifacts_present_def) (metis imageI)
  qed
  moreover have "tidy (bw_fs w1)" "bw_reading w1 = bw_reading w" using one by (simp_all add: without_def)
  ultimately have rest: "without (removed w rs) w1 (fold (drop_run rn job secrets) rs w1)"
    using Cons.IH [of w1] by (simp add: removed_def beingRead_def)
  have "removed w (r # rs) = removed w [r] @ removed w rs" by (simp add: removed_def)
  then show ?case using one rest by (auto simp: without_def w1_def [symmetric] intro!: filter_cong)
qed

lemma pruned_local:
  assumes local: "bj_TargetKind job = TargetLocal" and t: "tidy (bw_fs w)"
    and present: "artifacts_present (bw_fs w) (SuccessfulRuns (bw_db w) (bj_ID job))"
  shows "without (if bj_Retention job \<le> 0 then [] else
      removed w (drop (nat (bj_Retention job)) (SuccessfulRuns (bw_db w) (bj_ID job)))) w (prune_runs rn job w)"
proof (cases "bj_Retention job \<le> 0 \<or> int (length (SuccessfulRuns (bw_db w) (bj_ID job))) \<le> bj_Retention job")
  case True
  then have "drop (nat (bj_Retention job)) (SuccessfulRuns (bw_db w) (bj_ID job)) = [] \<or> bj_Retention job \<le> 0" by auto
  then show ?thesis using True t by (auto simp: prune_runs_def Let_def without_def removed_def)
next
  case False
  have "artifacts_present (bw_fs w) (drop n (SuccessfulRuns (bw_db w) (bj_ID job)))" for n
    using present by (auto simp: artifacts_present_def simp flip: drop_map dest: in_set_dropD)
  from drop_runs_local [OF local t this] show ?thesis using False local by (simp add: prune_runs_def Let_def)
qed

end
