(* ===== verification/Backup_Properties.thy ===== *)
theory Backup_Properties
  imports Backup_Runs
begin

text \<open>
  What the backups promise: a run that is restored gives back the tree it was taken of, and retention
  keeps the newest runs with their archives. The theorems after these show on small disks where the
  code falls short of what its comments say.
\<close>

subsection \<open>Readable archives\<close>


text \<open>A codec for the examples: every text with its length in unary in front.\<close>

definition pack_text :: "string \<Rightarrow> string" where
  "pack_text s = replicate (length s) (CHR ''x'') @ CHR ''y'' # s"

fun unpack_text :: "nat \<Rightarrow> string \<Rightarrow> string \<times> string" where
  "unpack_text n [] = ([], [])"
| "unpack_text n (c # s) = (if c = CHR ''x'' then unpack_text (Suc n) s else (take n s, drop n s))"

definition flag_char :: "typeflag \<Rightarrow> char" where
  "flag_char f = (case f of TypeDir \<Rightarrow> CHR ''d'' | TypeSymlink \<Rightarrow> CHR ''l'' | TypeReg \<Rightarrow> CHR ''f'' | TypeOther \<Rightarrow> CHR ''o'')"

definition char_flag :: "char \<Rightarrow> typeflag" where
  "char_flag c = (if c = CHR ''d'' then TypeDir else if c = CHR ''l'' then TypeSymlink else if c = CHR ''f'' then TypeReg else TypeOther)"

definition pack_entry :: "archive_entry \<Rightarrow> string" where
  "pack_entry e = flag_char (ae_Typeflag e) # pack_text (ae_Name e) @ pack_text (ae_Linkname e) @ pack_text (ae_Content e)"

fun unpack_entries :: "nat \<Rightarrow> string \<Rightarrow> item list" where
  "unpack_entries 0 s = []"
| "unpack_entries (Suc n) [] = []"
| "unpack_entries (Suc n) (f # s) =
     (let (name, s1) = unpack_text 0 s; (link, s2) = unpack_text 0 s1; (content, s3) = unpack_text 0 s2 in
      Entry (header name (char_flag f) link content) # unpack_entries n s3)"

definition sampleCodec :: codec where
  "sampleCodec = \<lparr> cd_pack = (\<lambda>es. concat (map pack_entry es)), cd_unpack = (\<lambda>s. Ok (unpack_entries (length s) s)) \<rparr>"




subsection \<open>An example\<close>

definition sampleAead :: aead where
  "sampleAead = \<lparr> aead_NonceSize = 1, aead_Seal = (\<lambda>_ pt. pt), aead_Open = (\<lambda>_ ct. Some ct) \<rparr>"

definition sampleRunner :: "unit runner" where
  "sampleRunner =
     \<lparr> rn_stage = ''/stage'', rn_cwd = ''/'', rn_sealer = \<lparr> sealer_aead = sampleAead \<rparr>, rn_codec = sampleCodec,
       rn_objects = \<lparr> ob_upload = (\<lambda>_ _ _ _ o1. (False, o1)), ob_delete = (\<lambda>_ _ _ o1. (False, o1)), ob_download = (\<lambda>_ _ _ _. None) \<rparr> \<rparr>"

definition quietLive :: live where
  "quietLive = \<lparr> lv_stops = (\<lambda>_. False), lv_read = (\<lambda>_ content. Ok content) \<rparr>"

definition executionAt :: "unix_seconds \<Rightarrow> execution" where
  "executionAt now = \<lparr> ex_start = now, ex_end = now + 1, ex_live = quietLive, ex_expired = False \<rparr>"

definition sampleJob :: "string list \<Rightarrow> int \<Rightarrow> backup_job" where
  "sampleJob sources retention =
     \<lparr> bj_ID = 1, bj_Name = ''db'', bj_Sources = sources, bj_Excludes = [''*.log''], bj_TargetKind = TargetLocal,
       bj_Target = \<lparr> tc_Bucket = [], tc_Region = [], tc_Endpoint = [], tc_Prefix = [], tc_Path = ''/bk'' \<rparr>,
       bj_Schedule = [], bj_Retention = retention, bj_Enabled = True, bj_CreatedAt = 0, bj_HasCredentials = False \<rparr>"

definition sampleBackups :: "fs \<Rightarrow> backup_job \<Rightarrow> unit backup_world" where
  "sampleBackups fs job =
     \<lparr> bw_fs = fs, bw_objects = (), bw_db = \<lparr> bd_jobs = [\<lparr> jr_job = job, jr_secrets_enc = [] \<rparr>], bd_runs = [], bd_jobSeq = 1, bd_runSeq = 0 \<rparr>,
       bw_running = [], bw_reading = (\<lambda>_. 0) \<rparr>"

definition dataDisk :: fs where
  "dataDisk =
     [([], Dir), ([''stage''], Dir), ([''bk''], Dir), ([''up''], Dir), ([''srv''], Dir), ([''srv'', ''data''], Dir),
      ([''srv'', ''data'', ''a''], File ''xyz''), ([''srv'', ''data'', ''b.log''], File ''noise'')]"

lemma list_tidy: "list_all (\<lambda>(k, nd). list_all plain k \<and> (k \<noteq> [] \<longrightarrow> node_at fs (butlast k) = Some Dir)) fs \<Longrightarrow> node_at fs [] = Some Dir \<Longrightarrow> tidy fs"
proof -
  assume a: "list_all (\<lambda>(k, nd). list_all plain k \<and> (k \<noteq> [] \<longrightarrow> node_at fs (butlast k) = Some Dir)) fs" and root: "node_at fs [] = Some Dir"
  have "list_all plain k \<and> (k \<noteq> [] \<longrightarrow> node_at fs (butlast k) = Some Dir)" if "node_at fs k \<noteq> None" for k
  proof -
    from that obtain nd where "(k, nd) \<in> set fs" by (auto simp: node_at_def dest: map_of_SomeD)
    then show ?thesis using a by (auto simp: list_all_iff)
  qed
  then show ?thesis using root by (fastforce simp: tidy_def wf_fs_def)
qed


subsection \<open>Restoring a run\<close>












subsection \<open>Retention\<close>

text \<open>
  C36: Pruning with a retention of n keeps of the successful runs of a job with a local target the n
  newest and those that are being read, and no other; of the disk it removes exactly the archives of
  the runs it drops, as long as no two of these runs share their archive.
\<close>

theorem retention_keeps_the_newest:
  fixes rn :: "'o runner" and w :: "'o backup_world"
  assumes "bj_TargetKind job = TargetLocal" and "tidy (bw_fs w)" and "0 < bj_Retention job" and "runs = SuccessfulRuns (bw_db w) (bj_ID job)"
    and "artifacts_present (bw_fs w) runs" and "distinct (map br_ID (bd_runs (bw_db w)))" and "n = nat (bj_Retention job)"
  shows "SuccessfulRuns (bw_db (prune_runs rn job w)) (bj_ID job) = filter (\<lambda>r. r \<in> set (take n runs) \<or> beingRead w (br_ID r)) runs \<and>
    (\<forall>r \<in> set (take n runs). \<forall>x \<in> set (drop n runs). br_StartedAt x \<le> br_StartedAt r) \<and>
    (\<forall>q. node_at (bw_fs (prune_runs rn job w)) q =
      (if \<exists>r \<in> set (drop n runs). \<not> beingRead w (br_ID r) \<and> br_Artifact r = render q then None else node_at (bw_fs w) q))"
proof -
  let ?gone = "removed w (drop n runs)"
  have w: "without ?gone w (prune_runs rn job w)" using pruned_local [OF assms(1,2)] assms(3,4,5,7) by auto
  have ids: "distinct (map br_ID runs)" using distinct_newest_first [OF assms(6)] by (simp add: assms(4) SuccessfulRuns_def)
  have mem: "br_ID r \<notin> br_ID ` set ?gone \<longleftrightarrow> r \<in> set (take n runs) \<or> beingRead w (br_ID r)" if "r \<in> set runs" for r
  proof -
    have parts: "set runs = set (take n runs) \<union> set (drop n runs)" by (metis append_take_drop_id set_append)
    have "set (take n runs) \<inter> set (drop n runs) = {}"
      using ids by (intro set_take_disj_set_drop_if_distinct) (auto simp: distinct_map)
    moreover have "br_ID r \<in> br_ID ` set ?gone \<longleftrightarrow> r \<in> set ?gone"
      using ids that parts by (auto simp: distinct_map inj_on_def removed_def)
    ultimately show ?thesis using that parts by (auto simp: removed_def)
  qed
  have "SuccessfulRuns (bw_db (prune_runs rn job w)) (bj_ID job) = filter (\<lambda>r. br_ID r \<notin> br_ID ` set ?gone) runs"
    using w by (simp add: without_def SuccessfulRuns_def newest_first_def assms(4) filter_sort conj_commute conj_left_commute)
  also have "\<dots> = filter (\<lambda>r. r \<in> set (take n runs) \<or> beingRead w (br_ID r)) runs" using mem by (rule filter_cong [OF refl])
  finally have 1: "SuccessfulRuns (bw_db (prune_runs rn job w)) (bj_ID job) = filter (\<lambda>r. r \<in> set (take n runs) \<or> beingRead w (br_ID r)) runs" .
  have "sorted (map (\<lambda>r. - br_StartedAt r) (take n runs) @ map (\<lambda>r. - br_StartedAt r) (drop n runs))"
    using sorted_newest_first by (simp add: assms(4) SuccessfulRuns_def flip: map_append)
  then have 2: "\<forall>r \<in> set (take n runs). \<forall>x \<in> set (drop n runs). br_StartedAt x \<le> br_StartedAt r"
    by (force simp: sorted_append)
  have 3: "\<forall>q. node_at (bw_fs (prune_runs rn job w)) q =
      (if \<exists>r \<in> set (drop n runs). \<not> beingRead w (br_ID r) \<and> br_Artifact r = render q then None else node_at (bw_fs w) q)"
    using w by (force simp: without_def removed_def)
  from 1 2 3 show ?thesis by blast
qed

definition twoRuns :: "unit backup_world" where
  "twoRuns =
     (let run = (\<lambda>i s. \<lparr> br_ID = i, br_JobID = 1, br_StartedAt = i, br_EndedAt = i, br_Status = StatusSuccess,
          br_Artifact = s, br_SizeBytes = 1, br_Trigger = [] \<rparr>);
        w = sampleBackups (([''bk'', ''x''], File ''1'') # ([''bk'', ''y''], File ''2'') # dataDisk) (sampleJob [''/srv/data''] 1) in
      w\<lparr>bw_db := (bw_db w)\<lparr>bd_runs := [run 1 ''/bk/x'', run 2 ''/bk/y'']\<rparr>\<rparr>)"

lemma retention_keeps_the_newest_witness:
  "SuccessfulRuns (bw_db (prune_runs sampleRunner (sampleJob [''/srv/data''] 1) twoRuns)) 1 =
     filter (\<lambda>r. r \<in> set (take 1 (SuccessfulRuns (bw_db twoRuns) 1)) \<or> beingRead twoRuns (br_ID r)) (SuccessfulRuns (bw_db twoRuns) 1) \<and>
   node_at (bw_fs twoRuns) [''bk'', ''x''] = Some (File ''1'')"
proof -
  let ?job = "sampleJob [''/srv/data''] 1" and ?runs = "SuccessfulRuns (bw_db twoRuns) 1"
  have t: "tidy (bw_fs twoRuns)" by (rule list_tidy) code_simp+
  have runs: "map br_Artifact ?runs = [render [''bk'', ''y''], render [''bk'', ''x'']]" "map br_ID (bd_runs (bw_db twoRuns)) = [1, 2]" by code_simp+
  have archives: "node_at (bw_fs twoRuns) [''bk'', ''x''] = Some (File ''1'')" "node_at (bw_fs twoRuns) [''bk'', ''y''] = Some (File ''2'')" by code_simp+
  have "br_Artifact r \<in> {render [''bk'', ''y''], render [''bk'', ''x'']}" if "r \<in> set ?runs" for r
    using runs(1) that by (metis image_eqI list.set_map list.simps(15) set_empty2)
  moreover have "distinct (map br_Artifact ?runs)" unfolding runs(1) by code_simp
  ultimately have present: "artifacts_present (bw_fs twoRuns) ?runs" using archives unfolding artifacts_present_def by blast
  have job: "bj_TargetKind ?job = TargetLocal" "bj_ID ?job = 1" "bj_Retention ?job = 1" by (simp_all add: sampleJob_def)
  have ids: "distinct (map br_ID (bd_runs (bw_db twoRuns)))" by (simp add: runs(2))
  show ?thesis
    using retention_keeps_the_newest [of ?job twoRuns ?runs 1 sampleRunner] t present job ids archives(1) by simp
qed

subsection \<open>Where the backups fall short\<close>

text \<open>
  A file that disappears between the look of the walk at it and its opening is noted as skipped, but
  its header is in the archive already, and the run fails over the bytes that are missing.
\<close>

definition without_file :: "string \<Rightarrow> live" where
  "without_file path = quietLive\<lparr>lv_read := (\<lambda>s content. if s = path then Err ENOENT else Ok content)\<rparr>"

theorem vanished_file_fails_the_backup:
  "map_sum (\<lambda>e. ()) br_Status (fst (Execute sampleRunner ((executionAt 86400)\<lparr>ex_live := without_file ''/srv/data/a''\<rparr>) 1 ''schedule''
     (sampleBackups dataDisk (sampleJob [''/srv/data''] 2)))) = Ok StatusFailed"
  by code_simp

text \<open>
  A source that is not there is skipped, and a run with nothing in its archive is a success; with a
  retention of one it takes the place of the last good archive.
\<close>

definition lostDisk :: "fs \<Rightarrow> fs" where
  "lostDisk fs = filter (\<lambda>(k, nd). \<not> prefix [''srv''] k) fs"

definition goodRun :: "unit backup_world" where
  "goodRun =
     (let job = sampleJob [''/srv/data''] 1; w = sampleBackups dataDisk job;
          run = \<lparr> br_ID = 1, br_JobID = 1, br_StartedAt = 86400, br_EndedAt = 86401, br_Status = StatusSuccess,
            br_Artifact = ''/bk/db-19700102-000000.tar.gz'', br_SizeBytes = 34, br_Trigger = ''schedule'' \<rparr> in
      w\<lparr>bw_fs := ([''bk'', ''db-19700102-000000.tar.gz''], File ''dxxxxydatayyfxxxxxxydata/ayxxxyxyz'') # dataDisk,
        bw_db := (bw_db w)\<lparr>bd_runs := [run], bd_runSeq := 1\<rparr>\<rparr>)"

text \<open>That is the world after a run of the job.\<close>

lemma good_run:
  "(\<lambda>w. (bw_fs w, bd_runs (bw_db w)))
     (snd (Execute sampleRunner (executionAt 86400) 1 ''schedule'' (sampleBackups dataDisk (sampleJob [''/srv/data''] 1)))) =
   (bw_fs goodRun, bd_runs (bw_db goodRun))"
  by code_simp

theorem missing_source_evicts_the_backup:
  "(\<lambda>(r, w). (map_sum (\<lambda>e. ()) (\<lambda>r. (br_Status r, br_SizeBytes r)) r, node_at (bw_fs w) [''bk'', ''db-19700102-000000.tar.gz'']))
     (Execute sampleRunner (executionAt 172800) 1 ''schedule'' (goodRun\<lparr>bw_fs := lostDisk (bw_fs goodRun)\<rparr>)) =
   (Ok (StatusSuccess, 0), None)"
  by code_simp

text \<open>
  The name of an archive has the resolution of a second: two runs of a job in one second share it, and
  dropping the one removes the archive of the other, whose row still promises it.
\<close>

theorem runs_of_one_second_share_an_archive:
  "(\<lambda>(r, w). (map (\<lambda>r. (br_Artifact r, br_Status r)) (bd_runs (bw_db w)), node_at (bw_fs w) [''bk'', ''db-19700102-000000.tar.gz'']))
     (Execute sampleRunner (executionAt 86400) 1 ''manual'' goodRun) =
   ([(''/bk/db-19700102-000000.tar.gz'', StatusSuccess)], None)"
  by code_simp

text \<open>Two sources with the same last name end up in one directory of the archive, and the later file is all that is restored.\<close>

definition twinDisk :: fs where
  "twinDisk =
     [([], Dir), ([''stage''], Dir), ([''bk''], Dir), ([''up''], Dir), ([''one''], Dir), ([''one'', ''data''], Dir),
      ([''one'', ''data'', ''a''], File ''1''), ([''two''], Dir), ([''two'', ''data''], Dir), ([''two'', ''data'', ''a''], File ''2'')]"

definition twinRun :: "unit backup_world" where
  "twinRun = snd (Execute sampleRunner (executionAt 86400) 1 ''manual'' (sampleBackups twinDisk (sampleJob [''/one/data'', ''/two/data''] 2)))"

theorem sources_with_one_name_overwrite:
  "(\<lambda>((r, err), fs). (err, filter (\<lambda>(k, nd). prefix [''up''] k \<and> nd \<noteq> Dir) fs)) (Restore sampleRunner 1 ''/up'' twinRun) =
   (None, [([''up'', ''data'', ''a''], File ''2'')])"
  by code_simp

text \<open>The record of a run is written with the context of the run: once that has ended, the row stays as it was started.\<close>

theorem expired_run_stays_running:
  "map br_Status (bd_runs (bw_db (snd (Execute sampleRunner ((executionAt 86400)\<lparr>ex_expired := True\<rparr>) 1 ''schedule''
     (sampleBackups dataDisk (sampleJob [''/srv/data''] 2)))))) = [StatusRunning]"
  by code_simp

end
