(* ===== verification/Files_Machine.thy ===== *)
theory Files_Machine
  imports Files_Confined Archive_Properties
begin

text \<open>
  The file manager as a machine: every operation, with whatever arguments, as one step on the file
  system, and what each of them keeps.
\<close>

subsection \<open>One operation\<close>

definition rooted :: "files_service \<Rightarrow> fs \<Rightarrow> bool" where
  "rooted sv fs = (service_ok sv \<and> wf_fs fs \<and> roots_solid sv fs)"

lemma rootedD:
  assumes "rooted sv fs"
  shows "service_ok sv" and "wf_fs fs" and "roots_solid sv fs"
  using assms by (simp_all add: rooted_def)

lemma on_path_stays:
  assumes R: "rooted sv fs" and "\<And>full. r = Ok full \<Longrightarrow> stays sv fs (snd (f full))"
  shows "stays sv fs (snd (on_path r f fs))"
  using assms(2) stays_refl [OF rootedD(2) [OF R]] by (auto simp: on_path_def split: sum.split)

lemma resolved:
  assumes R: "rooted sv fs"
  shows "Resolve sv fs path = Ok full \<Longrightarrow> \<exists>p. full = render p \<and> resolved_at fs p \<and> inside sv p"
  by (rule Resolve_at [OF rootedD(1,2) [OF R]])

lemma put_file_stays:
  assumes R: "rooted sv fs" and "inside sv p" and "node_at fs p \<noteq> Some Dir" and "p = [] \<or> node_at fs (butlast p) = Some Dir"
  shows "stays sv fs (put p (File c) (put p (File c') fs))"
proof -
  note ok = rootedD(1) [OF R] and wf = rootedD(2) [OF R] and roots = rootedD(3) [OF R]
  have "effect p fs (put p (File c) fs)" using wf assms(3,4) by (intro effect_put) auto
  then have "effect p fs (put p (File c) (put p (File c') fs))"
    using effect_cong [of "put p (File c) (put p (File c') fs)" "put p (File c) fs" p fs] put_twice by blast
  then show ?thesis by (rule effect_stays [OF roots assms(2)])
qed

lemma not_root:
  assumes R: "rooted sv fs"
  shows "node_at fs p = None \<Longrightarrow> p \<noteq> []"
  using rootedD(2) [OF R] by (auto simp: wf_fs_def)

lemma Mkdir_stays:
  assumes R: "rooted sv fs"
  shows "stays sv fs (snd (Mkdir sv fs path))"
  unfolding Mkdir_def
proof (rule on_path_stays [OF R])
  note ok = rootedD(1) [OF R] and wf = rootedD(2) [OF R] and roots = rootedD(3) [OF R]
  fix full assume "Resolve sv fs path = Ok full"
  then obtain p where p: "full = render p" "resolved_at fs p" "inside sv p" using resolved [OF R] by blast
  then have "effect p fs (snd (mkdir_all fs full))"
    by (auto simp: resolved_at_def intro: grows_effect mkdir_all_grows [OF wf])
  then show "stays sv fs (snd (os_error (mkdir_all fs full)))"
    using effect_stays [OF roots p(3)] by (simp add: os_error_def)
qed

lemma Touch_stays:
  assumes R: "rooted sv fs"
  shows "stays sv fs (snd (Touch sv fs path))"
  unfolding Touch_def
proof (rule on_path_stays [OF R])
  note ok = rootedD(1) [OF R] and wf = rootedD(2) [OF R] and roots = rootedD(3) [OF R]
  fix full assume "Resolve sv fs path = Ok full"
  then obtain p where p: "full = render p" "resolved_at fs p" "inside sv p" using resolved [OF R] by blast
  show "stays sv fs (snd (case stat fs full of Inr _ \<Rightarrow> (None, fs) | Inl _ \<Rightarrow> os_error (create_new fs full)))"
  proof (cases "node_at fs p = None")
    case True
    then have "effect p fs (snd (create_new fs full))"
      using p(1,2) not_root [OF R] by (simp add: resolved_at_def create_new_snd create_new_op.effect [OF wf])
    then show ?thesis
      using effect_stays [OF roots p(3)] stays_refl [OF wf] by (auto simp: os_error_def split: sum.split)
  next
    case False
    then obtain nd where "stat fs full = Ok nd" using stat_there [OF wf p(2)] p(1) by blast
    then show ?thesis using stays_refl [OF wf] by simp
  qed
qed

lemma Create_stays:
  assumes R: "rooted sv fs"
  shows "stays sv fs (snd (Create sv fs path overwrite content))"
  unfolding Create_def
proof (rule on_path_stays [OF R])
  note ok = rootedD(1) [OF R] and wf = rootedD(2) [OF R] and roots = rootedD(3) [OF R]
  fix full assume "Resolve sv fs path = Ok full"
  then obtain p where p: "full = render p" "resolved_at fs p" "inside sv p" using resolved [OF R] by blast
  then have r: "list_all plain p" "clear fs p" "\<not> is_link (node_at fs p)" by (simp_all add: resolved_at_def)
  obtain x fs1 where o: "(if overwrite then sys_open_trunc max_links fs full else sys_create_new fs full) = (x, fs1)"
    by (cases "if overwrite then sys_open_trunc max_links fs full else sys_create_new fs full")
  show "stays sv fs (snd (case (if overwrite then sys_open_trunc max_links fs full else sys_create_new fs full) of
      (Inl e, fs1) \<Rightarrow> (Some (FsError e), fs1) | (Inr fd, fs1) \<Rightarrow> (None, put fd (File content) fs1)))"
  proof (cases x)
    case (Inl e)
    then have "fs1 = fs" using open_fails [OF r] o p(1) by blast
    with Inl o show ?thesis using stays_refl [OF wf] by simp
  next
    case (Inr fd)
    then have "fd = p \<and> fs1 = put p (File []) fs \<and> node_at fs p \<noteq> Some Dir \<and> (p = [] \<or> node_at fs (butlast p) = Some Dir)"
      using opened_file [OF r] o p(1) by blast
    with Inr o show ?thesis using put_file_stays [OF R p(3), of content "[]"] by simp
  qed
qed

lemma Write_stays:
  assumes R: "rooted sv fs" and "plain (''.vpsd-'' @ tmp)" and "\<And>full. Resolve sv fs path = Ok full \<Longrightarrow> path_base full \<noteq> ''.vpsd-'' @ tmp"
  shows "stays sv fs (snd (Write sv fs path content tmp fault))"
  unfolding Write_def
proof (rule on_path_stays [OF R])
  note ok = rootedD(1) [OF R] and wf = rootedD(2) [OF R] and roots = rootedD(3) [OF R]
  fix full assume full: "Resolve sv fs path = Ok full"
  then obtain p where p: "full = render p" "resolved_at fs p" "inside sv p" using resolved [OF R] by blast
  show "stays sv fs (snd (if stat fs full = Ok Dir then (Some ErrIsDir, fs) else os_error (save fs full content tmp fault)))"
  proof (cases "node_at fs p = Some Dir")
    case True
    then have "stat fs full = Ok Dir" using stat_there [OF wf p(2)] p(1) by blast
    then show ?thesis using stays_refl [OF wf] by simp
  next
    case False
    then have "p \<noteq> []" using wf by (auto simp: wf_fs_def)
    then obtain d b where d: "p = d @ [b]" by (metis append_butlast_last_id)
    have "path_base full = b" using p(1,2) d by (simp add: path_base_render resolved_at_def)
    then have b: "''.vpsd-'' @ tmp \<noteq> b" using assms(3) [OF full] by simp
    obtain err fs' where s: "save fs full content tmp fault = (err, fs')" by (cases "save fs full content tmp fault")
    have "wf_fs fs' \<and> (\<forall>q. q \<noteq> p \<longrightarrow> node_at fs' q = node_at fs q)"
      using save_result [OF wf _ _ assms(2) b, of d content fault err fs'] s p(1,2) False d by simp
    then have "stays sv fs fs'" using p(3) by (auto simp: stays_def)
    then show ?thesis using s stays_refl [OF wf] by (simp add: os_error_def)
  qed
qed

lemma Delete_stays:
  assumes R: "rooted sv fs"
  shows "stays sv fs (snd (Delete sv fs path recursive))"
  unfolding Delete_def
proof (rule on_path_stays [OF R])
  note ok = rootedD(1) [OF R] and wf = rootedD(2) [OF R] and roots = rootedD(3) [OF R]
  fix full assume full: "ResolveEntry sv fs path = Ok full"
  show "stays sv fs (snd (if full \<in> set (sv_roots sv) then (Some (RefusingRoot full), fs)
      else os_error (if recursive then remove_all fs full else sys_remove fs full)))"
  proof (cases "full \<in> set (sv_roots sv)")
    case True
    then show ?thesis using stays_refl [OF wf] by simp
  next
    case False
    then obtain p c where p: "full = render (p @ [c])" "list_all plain (p @ [c])" "clear fs (p @ [c])" "inside sv p"
      using ResolveEntry_at [OF ok wf full] by (auto simp: resolved_at_def)
    have i: "inside sv (p @ [c])" by (rule inside_below [OF p(4)]) simp
    have "stays sv fs (snd (remove_all fs full))" using remove_all_stays [OF wf p(2) _ p(3) i] p(1) by simp
    moreover have "stays sv fs (snd (sys_remove fs full))"
      using effect_stays [OF roots i] remove_op.effect [OF wf p(2) _ p(3)] p(1) by simp
    ultimately show ?thesis using False by (simp add: os_error_def)
  qed
qed


subsection \<open>Links, moves and archives\<close>

lemma mkdir_all_rev_solid:
  "wf_fs fs \<Longrightarrow> resolved_at fs (rev cs) \<Longrightarrow> mkdir_all_rev fs cs = (None, fs1) \<Longrightarrow> solid fs1 (rev cs)"
proof (induction cs arbitrary: fs1)
  case Nil
  then show ?case by (auto simp: solid_def wf_fs_def)
next
  case (Cons c cs)
  let ?p = "rev cs @ [c]"
  have dir: "solid fs' ?p" if "wf_fs fs'" "node_at fs' ?p = Some Dir" for fs'
    using exists_solid [OF that(1), of "rev cs" c] that(2) by (auto simp: solid_def prefix_snoc)
  have pl: "list_all plain ?p" "clear fs ?p" using Cons.prems(2) by (simp_all add: resolved_at_def)
  show ?case
  proof (cases "stat fs (render ?p)")
    case (Inr nd)
    then have "nd = Dir" "fs1 = fs" using Cons.prems(3) by (cases nd; simp)+
    then show ?thesis using dir [OF Cons.prems(1)] Inr stat_resolved [OF Cons.prems(1), of ?p] Cons.prems(2) by simp
  next
    case (Inl e)
    obtain x fs2 where m: "mkdir_all_rev fs cs = (x, fs2)" by (cases "mkdir_all_rev fs cs")
    with Inl Cons.prems(3) have x: "x = None" by (cases x) auto
    have "resolved_at fs (rev cs)" using Cons.prems(2) by (simp add: resolved_at_def clear_snoc)
    then have s2: "solid fs2 (rev cs)" and w2: "wf_fs fs2"
      using Cons.IH [OF Cons.prems(1)] m x mkdir_all_rev_grows [OF Cons.prems(1), of cs]
      by (simp_all add: resolved_at_def grows_def)
    have l: "locate fs2 (render ?p) = Ok ?p" by (rule locate_solid [OF pl(1) s2])
    show ?thesis
    proof (cases "node_at fs2 ?p")
      case None
      then have "fs1 = put ?p Dir fs2" using Cons.prems(3) Inl m x l by (simp add: sys_mkdir_def)
      then show ?thesis using s2 by (auto simp: solid_def prefix_snoc)
    next
      case (Some nd)
      then have "fs1 = fs2" "nd = Dir" using Cons.prems(3) Inl m x l by (auto simp: sys_mkdir_def lstat_def split: if_splits)
      then show ?thesis using dir [OF w2] Some by simp
    qed
  qed
qed

lemma mkdir_all_solid: "wf_fs fs \<Longrightarrow> resolved_at fs p \<Longrightarrow> mkdir_all fs (render p) = (None, fs1) \<Longrightarrow> solid fs1 p"
  using mkdir_all_rev_solid [of fs "rev p"] by (simp add: mkdir_all_def resolved_at_def comps_render_plain)

lemma stays_kept:
  assumes "stays sv fs fs1" and "inside sv p" and "kept p fs1 fs2"
  shows "stays sv fs fs2"
  using assms(1,3) inside_below [OF assms(2)] unfolding stays_def kept_def by metis

lemma root_comps: "comps [slash] = []"
  by (simp add: comps_def)

lemma root_base: "path_base (render []) = [slash]"
  by (simp add: path_base_def comps_render)

text \<open>Where a clear path leads that is no link to a directory elsewhere.\<close>

definition entry_at :: "files_service \<Rightarrow> fs \<Rightarrow> string \<Rightarrow> path \<Rightarrow> bool" where
  "entry_at sv fs full p = (full = render p \<and> list_all plain p \<and> clear fs p \<and> inside sv p)"

lemma rename_stays:
  assumes wf: "wf_fs fs" and p: "entry_at sv fs old p" and q: "entry_at sv fs new q"
  shows "stays sv fs (snd (os_rename fs old new))"
proof -
  have pl: "list_all plain p" "clear fs p" "old = render p" "inside sv p" using p by (simp_all add: entry_at_def)
  have ql: "list_all plain q" "clear fs q" "new = render q" "inside sv q" using q by (simp_all add: entry_at_def)
  have moved: "stays sv fs (move_tree p q fs)"
    if nd: "node_at fs p = Some nd" "p \<noteq> q" "p \<noteq> []" "\<not> (nd = Dir \<and> prefix p q)" "q \<noteq> []"
      and par: "node_at fs (butlast q) = Some Dir" and free: "node_at fs q \<noteq> Some Dir \<or> empty_dir fs q" for nd
  proof -
    have below: "node_at fs (q @ r) = None" if ne: "r \<noteq> []" for r
    proof (cases "node_at fs q = Some Dir")
      case True
      obtain c r' where r: "r = c # r'" using ne by (cases r) auto
      have none: "node_at fs (q @ [c]) = None" using free True empty_dir_none by blast
      show ?thesis
      proof (cases "r' = []")
        case True
        with none r show ?thesis by simp
      next
        case False
        then show ?thesis using wf_below_none [OF wf, of "q @ [c]" r'] none r by simp
      qed
    qed (use wf_below_none [OF wf _ ne] in blast)
    have pq: "\<not> prefix p q"
    proof
      assume "prefix p q"
      then obtain x where x: "q = p @ x" "x \<noteq> []" using nd(2) by (auto simp: prefix_def)
      have "nd \<noteq> Dir" using nd(4) \<open>prefix p q\<close> by blast
      then have "node_at fs (p @ butlast x) = None \<or> butlast x = []" using wf_below_none [OF wf, of p "butlast x"] nd(1) by auto
      then show False using par x nd(1) \<open>nd \<noteq> Dir\<close> by (auto simp: butlast_append)
    qed
    have "wf_fs (move_tree p q fs)" by (rule move_tree_wf [OF wf below pq par nd(5,3)])
    moreover have "node_at (move_tree p q fs) x = node_at fs x" if "\<not> inside sv x" for x
      using that inside_below [OF pl(4)] inside_below [OF ql(4)] node_at_move_tree [OF below pq, of x] by auto
    ultimately show ?thesis by (simp add: stays_def)
  qed
  have lp: "locate fs old = Ok p \<or> (\<exists>e. locate fs old = Err e)" using locate_clear [OF pl(1,2)] pl(3) by auto
  have lq: "locate fs new = Ok q \<and> (q = [] \<or> node_at fs (butlast q) = Some Dir) \<or> (\<exists>e. locate fs new = Err e)"
    using locate_clear [OF ql(1,2)] ql(3) by auto
  have "stays sv fs (snd (sys_rename fs old new))"
    using lp lq moved stays_refl [OF wf, of sv]
    by (auto simp: sys_rename_def split: option.split node.split)
  then show ?thesis using stays_refl [OF wf, of sv] by (auto simp: os_rename_def split: sum.split)
qed

lemma entry:
  assumes R: "rooted sv fs" and "ResolveEntry sv fs path = Ok full"
  shows "\<exists>p. entry_at sv fs full p"
proof (cases "full \<in> set (sv_roots sv)")
  note ok = rootedD(1) [OF R] and wf = rootedD(2) [OF R] and roots = rootedD(3) [OF R]
  case True
  then have "full = render (dest_path full)" "solid fs (dest_path full)"
    using ok roots by (auto simp: service_ok_def roots_solid_def list_all_iff)
  moreover from this have "clear fs (dest_path full)" by (auto simp: clear_def solid_def strict_prefix_def)
  moreover have "inside sv (dest_path full)" using True by (auto simp: inside_def list_ex_iff)
  ultimately show ?thesis using plain_dest_path by (auto simp: entry_at_def)
next
  case False
  note ok = rootedD(1) [OF R] and wf = rootedD(2) [OF R] and roots = rootedD(3) [OF R]
  then obtain p c where p: "full = render (p @ [c])" "list_all plain (p @ [c])" "clear fs (p @ [c])" "inside sv p"
    using ResolveEntry_at [OF ok wf assms(2) False] by (auto simp: resolved_at_def)
  have "inside sv (p @ [c])" by (rule inside_below [OF p(4)]) simp
  with p show ?thesis by (auto simp: entry_at_def)
qed

lemma Symlink_stays:
  assumes R: "rooted sv fs"
  shows "stays sv fs (snd (Symlink sv fs target link))"
  unfolding Symlink_def
proof (rule on_path_stays [OF R])
  note ok = rootedD(1) [OF R] and wf = rootedD(2) [OF R] and roots = rootedD(3) [OF R]
  fix full assume "ResolveEntry sv fs link = Ok full"
  then obtain p where p: "entry_at sv fs full p" using entry [OF R] by blast
  have "stays sv fs (snd (sys_symlink fs target full))"
  proof (cases "p = []")
    case True
    then have "sys_symlink fs target full = (Some EEXIST, fs)"
      using p wf_root [OF wf] by (simp add: entry_at_def sys_symlink_def locate_def comps_render)
    then show ?thesis using stays_refl [OF wf] by simp
  next
    case False
    then show ?thesis using p by (auto simp: entry_at_def intro!: effect_stays [OF roots] symlink_op.effect [OF wf])
  qed
  then show "stays sv fs (snd (case Resolve sv fs (if is_abs target then target else path_join (path_dir full) target) of
      Inl _ \<Rightarrow> (Some ErrOutsideRoot, fs) | Inr _ \<Rightarrow> os_error (sys_symlink fs target full)))"
    using stays_refl [OF wf] by (auto simp: os_error_def split: sum.split)
qed

lemma Move_stays:
  assumes R: "rooted sv fs" and "\<And>dst target. ResolveEntry sv fs to_path = Ok dst \<Longrightarrow> lstat fs dst \<noteq> Ok (Link target)"
  shows "stays sv fs (snd (Move sv fs from_path to_path))"
  unfolding Move_def
proof (rule on_path_stays [OF R], rule on_path_stays [OF R])
  note ok = rootedD(1) [OF R] and wf = rootedD(2) [OF R] and roots = rootedD(3) [OF R]
  fix src dst assume src: "ResolveEntry sv fs from_path = Ok src" and dst: "ResolveEntry sv fs to_path = Ok dst"
  obtain p where p: "entry_at sv fs src p" using entry [OF R src] by blast
  obtain q where q: "entry_at sv fs dst q" using entry [OF R dst] by blast
  have "\<exists>q'. entry_at sv fs (into_directory fs src dst) q'"
  proof (cases "stat fs dst = Ok Dir")
    case False
    then show ?thesis using q by (auto simp: into_directory_def)
  next
    case True
    have "\<not> is_link (node_at fs q)"
    proof
      assume l: "is_link (node_at fs q)"
      then obtain target where t: "node_at fs q = Some (Link target)" by (auto simp: is_link_def split: option.splits node.splits)
      then have "q \<noteq> []" using wf_root [OF wf] by auto
      then obtain d c where d: "q = d @ [c]" by (metis append_butlast_last_id)
      then have "locate fs (render q) = Ok q"
        using q t exists_solid [OF wf, of d c] by (auto simp: entry_at_def intro!: locate_solid)
      then have "lstat fs dst = Ok (Link target)" using q t by (simp add: entry_at_def lstat_def)
      then show False using assms(2) [OF dst] by blast
    qed
    with q have r: "resolved_at fs q" by (simp add: entry_at_def resolved_at_def)
    show ?thesis
    proof (cases "p = []")
      case True
      then have "into_directory fs src dst = dst"
        using p q \<open>stat fs dst = Ok Dir\<close> root_base
        by (simp add: entry_at_def into_directory_def path_join_render root_comps)
      then show ?thesis using q by auto
    next
      case False
      then obtain d c where d: "p = d @ [c]" by (metis append_butlast_last_id)
      have "into_directory fs src dst = render (q @ [c])"
        using p q d True by (simp add: entry_at_def into_directory_def path_base_render path_join_plain)
      moreover have "inside sv (q @ [c])" using q inside_below [of sv q "q @ [c]"] by (simp add: entry_at_def)
      ultimately have "entry_at sv fs (into_directory fs src dst) (q @ [c])"
        using p q d r by (simp add: entry_at_def resolved_at_def clear_snoc)
      then show ?thesis by blast
    qed
  qed
  then show "stays sv fs (snd (os_error (os_rename fs src (into_directory fs src dst))))"
    using rename_stays [OF wf p] by (auto simp: os_error_def)
qed

lemma Extract_stays:
  assumes R: "rooted sv fs" and "\<And>src target. Resolve sv fs archivePath = Ok src \<Longrightarrow> Resolve sv fs dest = Ok target \<Longrightarrow>
    \<not> has_suffix (ascii_lower src) ''.zip'' \<Longrightarrow> list_all (\<lambda>i. \<not> names_the_root target i) (reader src)"
  shows "stays sv fs (snd (Extract sv reader available fs archivePath dest))"
proof (cases "Resolve sv fs archivePath")
  note ok = rootedD(1) [OF R] and wf = rootedD(2) [OF R] and roots = rootedD(3) [OF R]
  case (Inl e)
  then show ?thesis by (simp add: Extract_def stays_refl [OF wf])
next
  case src: (Inr src)
  note ok = rootedD(1) [OF R] and wf = rootedD(2) [OF R] and roots = rootedD(3) [OF R]
  show ?thesis
  proof (cases "Resolve sv fs dest")
    case (Inl e)
    with src show ?thesis by (simp add: Extract_def stays_refl [OF wf])
  next
    case target: (Inr target)
    then obtain p where p: "target = render p" "resolved_at fs p" "inside sv p" using resolved [OF R] by blast
    obtain x fs1 where m: "mkdir_all fs target = (x, fs1)" by (cases "mkdir_all fs target")
    have "effect p fs fs1"
      using grows_effect [OF mkdir_all_grows [OF wf, of p]] p(1,2) m by (simp add: resolved_at_def)
    then have s1: "stays sv fs fs1" by (rule effect_stays [OF roots p(3)])
    show ?thesis
    proof (cases "x = None \<and> extractByteLimit available \<noteq> None")
      case False
      then show ?thesis using src target m s1 by (cases x) (auto simp: Extract_def)
    next
      case True
      then obtain limit where limit: "extractByteLimit available = Some limit" by blast
      have d: "is_abs target" "dest_path target = p" using p(1,2) by (simp_all add: resolved_at_def dest_path_render)
      have w: "wf_fs fs1" "solid fs1 (dest_path target)"
        using s1 mkdir_all_solid [OF wf p(2)] m p(1) True d(2) by (simp_all add: stays_def)
      obtain r1 b1 f1 where z: "extractZip target (reader src) [] (new_budget limit) fs1 = (r1, b1, f1)" by (metis prod_cases3)
      obtain r2 b2 f2 where t: "extractTar target (reader src) [] (new_budget limit) fs1 = (r2, b2, f2)" by (metis prod_cases3)
      have "stays sv fs f1" using stays_kept [OF s1 p(3)] zip_keeps [OF d(1) w, of "reader src" "[]" "new_budget limit"] z d(2) by simp
      moreover have "stays sv fs f2" if "\<not> has_suffix (ascii_lower src) ''.zip''"
        using stays_kept [OF s1 p(3)] tar_keeps [OF d(1) assms(2) [OF src target that] w, of "[]" "new_budget limit"] t d(2) by simp
      ultimately show ?thesis using src target m True limit z t s1
        by (cases r1; cases r2) (simp add: Extract_def Let_def)
    qed
  qed
qed

subsection \<open>Any operations, one after another\<close>

locale file_operation =
  fixes op :: "files_service \<Rightarrow> fs \<Rightarrow> fs" and guard :: "files_service \<Rightarrow> fs \<Rightarrow> bool"
  assumes stays: "rooted sv fs \<Longrightarrow> guard sv fs \<Longrightarrow> stays sv fs (op sv fs)"
begin

lemma outside:
  "rooted sv fs \<Longrightarrow> guard sv fs \<Longrightarrow> wf_fs (op sv fs) \<and> (\<forall>q. \<not> inside sv q \<longrightarrow> node_at (op sv fs) q = node_at fs q)"
  using stays by (simp add: stays_def)

end

text \<open>
  The guards: the random name of a save is not the name of the file that is saved, the destination
  of a move is no link, and no link of a tar archive is named like its destination.
\<close>

definition save_guard :: "string \<Rightarrow> string \<Rightarrow> files_service \<Rightarrow> fs \<Rightarrow> bool" where
  "save_guard path tmp sv fs =
     (plain (''.vpsd-'' @ tmp) \<and>
      (case Resolve sv fs path of Inl _ \<Rightarrow> True | Inr full \<Rightarrow> path_base full \<noteq> ''.vpsd-'' @ tmp))"

definition move_guard :: "string \<Rightarrow> files_service \<Rightarrow> fs \<Rightarrow> bool" where
  "move_guard to_path sv fs =
     (case ResolveEntry sv fs to_path of
        Inl _ \<Rightarrow> True
      | Inr dst \<Rightarrow> (case lstat fs dst of Inr (Link _) \<Rightarrow> False | _ \<Rightarrow> True))"

definition extract_guard :: "(string \<Rightarrow> item list) \<Rightarrow> string \<Rightarrow> string \<Rightarrow> files_service \<Rightarrow> fs \<Rightarrow> bool" where
  "extract_guard reader archivePath dest sv fs =
     (case Resolve sv fs archivePath of
        Inl _ \<Rightarrow> True
      | Inr src \<Rightarrow>
          has_suffix (ascii_lower src) ''.zip'' \<or>
          (case Resolve sv fs dest of
             Inl _ \<Rightarrow> True
           | Inr target \<Rightarrow> list_all (\<lambda>i. \<not> names_the_root target i) (reader src)))"

interpretation mkdir_file: file_operation "\<lambda>sv fs. snd (Mkdir sv fs path)" "\<lambda>_ _. True"
  by unfold_locales (rule Mkdir_stays)

interpretation touch_file: file_operation "\<lambda>sv fs. snd (Touch sv fs path)" "\<lambda>_ _. True"
  by unfold_locales (rule Touch_stays)

interpretation upload_file: file_operation "\<lambda>sv fs. snd (Create sv fs path overwrite content)" "\<lambda>_ _. True"
  by unfold_locales (rule Create_stays)

interpretation write_file: file_operation "\<lambda>sv fs. snd (Write sv fs path content tmp fault)" "save_guard path tmp"
  by unfold_locales (auto simp: save_guard_def intro!: Write_stays)

interpretation delete_file: file_operation "\<lambda>sv fs. snd (Delete sv fs path recursive)" "\<lambda>_ _. True"
  by unfold_locales (rule Delete_stays)

interpretation symlink_file: file_operation "\<lambda>sv fs. snd (Symlink sv fs target link)" "\<lambda>_ _. True"
  by unfold_locales (rule Symlink_stays)

interpretation move_file: file_operation "\<lambda>sv fs. snd (Move sv fs from_path to_path)" "move_guard to_path"
  by unfold_locales (auto simp: move_guard_def intro!: Move_stays)

interpretation extract_file: file_operation "\<lambda>sv fs. snd (Extract sv reader available fs archivePath dest)"
    "extract_guard reader archivePath dest"
  by unfold_locales (auto simp: extract_guard_def intro!: Extract_stays)

inductive file_step :: "files_service \<Rightarrow> fs \<Rightarrow> fs \<Rightarrow> bool" for sv where
  Do_mkdir: "file_step sv fs (snd (Mkdir sv fs path))"
| Do_touch: "file_step sv fs (snd (Touch sv fs path))"
| Do_upload: "file_step sv fs (snd (Create sv fs path overwrite content))"
| Do_write: "save_guard path tmp sv fs \<Longrightarrow> file_step sv fs (snd (Write sv fs path content tmp fault))"
| Do_delete: "file_step sv fs (snd (Delete sv fs path recursive))"
| Do_symlink: "file_step sv fs (snd (Symlink sv fs target link))"
| Do_move: "move_guard to_path sv fs \<Longrightarrow> file_step sv fs (snd (Move sv fs from_path to_path))"
| Do_extract: "extract_guard reader archivePath dest sv fs \<Longrightarrow>
    file_step sv fs (snd (Extract sv reader available fs archivePath dest))"

lemma file_step_stays: "file_step sv fs fs' \<Longrightarrow> rooted sv fs \<Longrightarrow> stays sv fs fs'"
  by (induction rule: file_step.induct)
    (simp_all add: mkdir_file.stays touch_file.stays upload_file.stays write_file.stays delete_file.stays
      symlink_file.stays move_file.stays extract_file.stays)

text \<open>Sequences of operations during which the roots stay directories.\<close>

inductive file_session :: "files_service \<Rightarrow> fs \<Rightarrow> fs \<Rightarrow> bool" for sv where
  Begin: "file_session sv fs fs"
| Next: "file_session sv fs fs1 \<Longrightarrow> roots_solid sv fs1 \<Longrightarrow> file_step sv fs1 fs2 \<Longrightarrow> file_session sv fs fs2"

lemma stays_trans: "stays sv fs fs1 \<Longrightarrow> stays sv fs1 fs2 \<Longrightarrow> stays sv fs fs2"
  by (simp add: stays_def)

lemma file_session_stays: "file_session sv fs fs' \<Longrightarrow> service_ok sv \<Longrightarrow> wf_fs fs \<Longrightarrow> stays sv fs fs'"
proof (induction rule: file_session.induct)
  case (Begin fs)
  then show ?case by (simp add: stays_refl)
next
  case (Next fs fs1 fs2)
  then have s: "stays sv fs fs1" by simp
  then have "rooted sv fs1" using Next by (simp add: rooted_def stays_def)
  with Next s show ?case by (blast intro: stays_trans file_step_stays)
qed

end
