(* ===== verification/Files_Properties.thy ===== *)
theory Files_Properties
  imports Files_Machine
begin

text \<open>
  The properties of the file manager: confinement to its roots for changes and for reads, atomic
  saves, copies, and what links inside a root can be made to do.
\<close>

subsection \<open>Samples\<close>

definition officeDisk :: fs where
  "officeDisk = ([''srv'', ''up'', ''f''], File ''new'') # sampleDisk"

definition sampleFiles :: files_service where
  "sampleFiles = new_service ''/'' [''/srv/up'']"

lemma office_wf: "wf_fs officeDisk"
proof -
  have "effect [''srv'', ''up'', ''f''] sampleDisk (put [''srv'', ''up'', ''f''] (File ''new'') sampleDisk)"
    by (rule effect_put [OF sample_wf]) (simp_all add: sampleDisk_def node_at_def)
  moreover have "put [''srv'', ''up'', ''f''] (File ''new'') sampleDisk = officeDisk" by code_simp
  ultimately show ?thesis by (simp add: effect_def)
qed

lemma sample_roots: "sv_roots sampleFiles = [''/srv/up'']"
  by code_simp

lemma sample_service: "service_ok sampleFiles"
  unfolding sampleFiles_def by (rule new_service_ok) code_simp

lemma office_rooted: "rooted sampleFiles officeDisk"
proof -
  have "solid officeDisk [''srv'', ''up'']"
    by (auto simp: solid_def prefix_Cons officeDisk_def sampleDisk_def node_at_def)
  then show ?thesis
    using sample_service office_wf by (simp add: rooted_def roots_solid_def sample_roots sample_dest(2))
qed

subsection \<open>The properties\<close>



text \<open>
  C38: A save is atomic: it either reports success, and then the file has the new content and nothing
  else changed, or it reports an error, and then nothing changed at all, also when the disk fails in
  the middle of the write.
\<close>

theorem save_is_atomic:
  assumes "rooted sv fs" and "save_guard path tmp sv fs" and "Write sv fs path content tmp fault = (err, fs')"
  shows "(err = None \<longrightarrow> (\<exists>p. Resolve sv fs path = Ok (render p) \<and> node_at fs' p = Some (File content) \<and>
      (\<forall>q. q \<noteq> p \<longrightarrow> node_at fs' q = node_at fs q))) \<and>
    (err \<noteq> None \<longrightarrow> node_at fs' = node_at fs)"
proof (cases "Resolve sv fs path")
  case (Inl e)
  then show ?thesis using assms(3) by (auto simp: Write_def on_path_def)
next
  case (Inr full)
  note wf = rootedD(2) [OF assms(1)]
  obtain p where p: "full = render p" "resolved_at fs p" using resolved [OF assms(1) Inr] by blast
  show ?thesis
  proof (cases "node_at fs p = Some Dir")
    case True
    then have "stat fs full = Ok Dir" using stat_there [OF wf p(2)] p(1) by blast
    then show ?thesis using assms(3) Inr by (auto simp: Write_def on_path_def)
  next
    case False
    then have "p \<noteq> []" using wf by (auto simp: wf_fs_def)
    then obtain d b where d: "p = d @ [b]" by (metis append_butlast_last_id)
    have "path_base full = b" using p d by (simp add: path_base_render resolved_at_def)
    then have g: "plain (''.vpsd-'' @ tmp)" "''.vpsd-'' @ tmp \<noteq> b" using assms(2) Inr by (auto simp: save_guard_def)
    have "stat fs full \<noteq> Ok Dir" using stat_is [OF wf p(2)] False p(1) by blast
    moreover obtain x fs2 where s: "save fs full content tmp fault = (x, fs2)" by (cases "save fs full content tmp fault")
    ultimately have r: "err = map_option FsError x" "fs' = fs2" using assms(3) Inr by (auto simp: Write_def on_path_def os_error_def)
    have "(\<forall>q. q \<noteq> p \<longrightarrow> node_at fs2 q = node_at fs q) \<and> node_at fs2 p = (if x = None then Some (File content) else node_at fs p)"
      using save_result [OF wf _ _ g, of d content fault x fs2] s p d False by simp
    then show ?thesis using r Inr p(1) by (auto simp: fun_eq_iff)
  qed
qed

lemma save_is_atomic_witness:
  "node_at (snd (Write sampleFiles officeDisk ''/srv/up/f'' ''abc'' ''1'' (Some (''a'', EINVAL)))) = node_at officeDisk"
proof -
  have g: "save_guard ''/srv/up/f'' ''1'' sampleFiles officeDisk" by code_simp
  have "fst (Write sampleFiles officeDisk ''/srv/up/f'' ''abc'' ''1'' (Some (''a'', EINVAL))) \<noteq> None" by code_simp
  with save_is_atomic [OF office_rooted g, of "''abc''" "Some (''a'', EINVAL)"] show ?thesis
    by (metis prod.collapse)
qed



subsection \<open>Copies\<close>

text \<open>
  C40: A regular file is copied with its content to a missing destination or over another file, and
  nothing else changes. Only the copy of a file onto itself is not what was asked for: it reports
  success too, and the file is empty.
\<close>

theorem file_is_copied:
  assumes R: "rooted sv fs" and src: "ResolveEntry sv fs from_path = Ok (render p)" "list_all plain p"
    and dst: "ResolveEntry sv fs to_path = Ok (render q)" "list_all plain q"
    and c: "node_at fs p = Some (File c)" and q: "node_at fs q \<noteq> Some Dir" "\<not> is_link (node_at fs q)"
    and par: "node_at fs (butlast q) = Some Dir"
  shows "\<exists>fs'. Copy sv (Suc n) fs from_path to_path = Some (None, fs') \<and>
    node_at fs' q = Some (File (if p = q then [] else c)) \<and> (\<forall>x. x \<noteq> q \<longrightarrow> node_at fs' x = node_at fs x)"
proof -
  note wf = rootedD(2) [OF R]
  have rp: "resolved_at fs p"
    using entry [OF R src(1)] src(2) c by (auto simp: entry_at_def resolved_at_def render_inject)
  have rq: "resolved_at fs q"
    using entry [OF R dst(1)] dst(2) q by (auto simp: entry_at_def resolved_at_def render_inject)
  have ne: "p \<noteq> []" "q \<noteq> []" using wf c q(1) by (auto simp: wf_fs_def)
  have locate_entry: "locate fs (render x) = Ok x" if x: "x \<noteq> []" "list_all plain x" "node_at fs (butlast x) = Some Dir" for x
  proof -
    obtain d b where d: "x = d @ [b]" using x(1) by (metis append_butlast_last_id)
    then have "solid fs d" using dir_solid [OF wf] x(3) by simp
    then show ?thesis using locate_solid x(2) d by simp
  qed
  have "lstat fs (render p) = Ok (File c)"
    using locate_entry [OF ne(1) src(2) parent_dir [OF wf ne(1)]] c by (simp add: lstat_def)
  moreover have "into_directory fs (render p) (render q) = render q"
    using stat_is [OF wf rq] q(1) by (auto simp: into_directory_def)
  moreover have "sys_open_trunc max_links fs (render q) = (Ok q, put q (File []) fs)"
    using locate_entry [OF ne(2) dst(2) par] q
    by (cases "node_at fs q"; cases "the (node_at fs q)") (simp_all add: sys_open_trunc.simps)
  moreover have "walk fs max_links [] (comps (render p)) = Ok p"
    using walk_there [OF wf rp c] src(2) by (simp add: comps_render_plain)
  ultimately show ?thesis
    using src(1) dst(1) c by (simp add: Copy_def copy_file_def os_error_def)
qed

lemma file_is_copied_witness:
  "\<exists>fs'. Copy sampleFiles 1 officeDisk ''/srv/up/f'' ''/srv/up/f'' = Some (None, fs') \<and>
    node_at fs' [''srv'', ''up'', ''f''] = Some (File [])"
proof -
  have r: "ResolveEntry sampleFiles officeDisk ''/srv/up/f'' = Ok (render [''srv'', ''up'', ''f''])" by code_simp
  have p: "list_all plain [''srv'', ''up'', ''f'']" by code_simp
  have n: "node_at officeDisk [''srv'', ''up'', ''f''] = Some (File ''new'')" "node_at officeDisk (butlast [''srv'', ''up'', ''f'']) = Some Dir"
    by code_simp+
  show ?thesis using file_is_copied [OF office_rooted r p r p n(1) _ _ n(2), of 0] n by auto
qed

lemma children_of_put:
  assumes "\<And>c. node_at fs (p @ [c]) = None"
  shows "children (put (p @ [b]) nd fs) p = [b]"
proof -
  have "filter (\<lambda>k. k \<noteq> [] \<and> butlast k = p) (map fst (del (p @ [b]) fs)) = []"
  proof (rule ccontr)
    assume "filter (\<lambda>k. k \<noteq> [] \<and> butlast k = p) (map fst (del (p @ [b]) fs)) \<noteq> []"
    then obtain k where "k \<in> set (map fst (del (p @ [b]) fs))" "k \<noteq> []" "butlast k = p"
      unfolding filter_empty_conv by blast
    then have k: "k \<in> fst ` set fs" "k = p @ [last k]" by (force simp: del_def)+
    from k(1) have "node_at fs k \<noteq> None" by (simp add: node_at_def map_of_eq_None_iff)
    with assms k(2) show False by metis
  qed
  then show ?thesis by (simp add: children_def put_def)
qed

text \<open>
  The copy of a directory to a place inside it never ends: every directory that is made is found
  when the next one is read. (On a real host it stops with an error when the names get too long,
  after the nest of directories has been made.)
\<close>

theorem copy_into_itself_never_ends:
  assumes "wf_fs fs" and "list_all plain p" and "plain b" and "solid fs p" and "\<And>c. node_at fs (p @ [c]) = None"
  shows "copyPath n fs (render p) (render (p @ [b])) = None"
  using assms(1,2,4,5)
proof (induction n arbitrary: fs p rule: less_induct)
  case (less n)
  let ?q = "p @ [b]"
  let ?fs = "put ?q Dir fs"
  have plq: "list_all plain ?q" using less.prems(2) assms(3) by simp
  have new: "node_at fs ?q = None" by (rule less.prems(4))
  have l: "locate fs (render ?q) = Ok ?q" by (rule locate_solid [OF plq less.prems(3)])
  have "stat fs (render ?q) = Err ENOENT"
  proof -
    have "walk fs max_links [] (p @ [b]) = walk fs max_links p [b]"
      using walk_through [of p fs "[]"] less.prems(2,3) by (simp add: solid_take)
    also have "\<dots> = Err ENOENT"
      using assms(3) new at_solid [OF less.prems(3)] by (simp add: walk.simps plain_def)
    finally have "walk fs max_links [] (p @ [b]) = Err ENOENT" .
    then show ?thesis using plq by (simp add: stat_def comps_render_plain)
  qed
  then have "mkdir_all fs (render ?q) = (None, ?fs)"
    using l new mkdir_all_dest [OF less.prems(2,3)] plq less.prems(2)
    by (simp add: mkdir_all_def comps_render_plain sys_mkdir_def)
  note made = this
  have s1: "solid ?fs p" using less.prems(3) by (auto simp: solid_def)
  have names: "read_dir ?fs (render p) = Ok [b]"
  proof -
    have "walk ?fs max_links [] p = Ok ([] @ p)"
      by (rule walk_solid [OF less.prems(2)]) (simp only: append_Nil solid_take [OF s1])
    then show ?thesis
      using at_solid [OF s1] less.prems(2) children_of_put [OF less.prems(4)]
      by (simp add: read_dir_def comps_render_plain del: node_at_put)
  qed
  have below: "copyPath m ?fs (render ?q) (render (?q @ [b])) = None" if "m < n" for m
  proof (rule less.IH [OF that _ plq])
    show "wf_fs ?fs" using effect_put [OF less.prems(1), of ?q Dir] new at_solid [OF less.prems(3)] by (simp add: effect_def)
    show "solid ?fs ?q" using s1 by (auto simp: solid_def prefix_snoc)
    show "node_at ?fs (?q @ [c]) = None" for c using wf_below_none [OF less.prems(1), of ?q "[c]"] new by simp
  qed
  have j: "path_join (render p) b = render ?q" "path_join (render ?q) b = render (?q @ [b])"
    using path_join_plain less.prems(2) assms(3) plq by blast+
  have d: "lstat fs (render p) = Ok Dir" by (rule lstat_dest [OF less.prems(2,3)])
  consider "n = 0" | "n = Suc 0" | m where "n = Suc (Suc m)" by (metis not0_implies_Suc)
  then show ?case
  proof cases
    case 3
    then show ?thesis using d made names j below [of m] by simp
  qed (use d made names in simp_all)
qed

lemma copy_into_itself_never_ends_witness:
  "\<forall>n. copyPath n sampleDisk (render [''srv'', ''up'']) (render [''srv'', ''up'', ''x'']) = None"
proof
  fix n
  have e: "node_at sampleDisk ([''srv'', ''up''] @ [c]) = None" for c by (simp add: sampleDisk_def node_at_def)
  have p: "list_all plain [''srv'', ''up'']" "plain ''x''" by code_simp+
  show "copyPath n sampleDisk (render [''srv'', ''up'']) (render [''srv'', ''up'', ''x'']) = None"
    using copy_into_itself_never_ends [OF sample_wf p _ e, of n] sample_dest(2,3) by simp
qed

subsection \<open>What links can be made to do\<close>

text \<open>
  The check of a link's target is lexical, so two links inside a root lead out of it, and a move or a
  copy follows the last one: the moved file lands beside the root, the copy replaces a file there.
\<close>

definition linkedDisk :: "string \<Rightarrow> fs" where
  "linkedDisk target = snd (Symlink sampleFiles (snd (Symlink sampleFiles officeDisk ''.'' ''/srv/up/x'')) target ''/srv/up/y'')"

theorem links_lead_out_of_the_roots:
  "fst (Symlink sampleFiles officeDisk ''.'' ''/srv/up/x'') = None \<and>
   fst (Symlink sampleFiles (snd (Symlink sampleFiles officeDisk ''.'' ''/srv/up/x'')) ''x/..'' ''/srv/up/y'') = None \<and>
   node_at (snd (Move sampleFiles (linkedDisk ''x/..'') ''/srv/up/f'' ''/srv/up/y'')) [''srv'', ''f''] = Some (File ''new'') \<and>
   map_option (\<lambda>r. node_at (snd r) [''srv'', ''keep'']) (Copy sampleFiles 1 (linkedDisk ''x/../keep'') ''/srv/up/f'' ''/srv/up/y'') =
     Some (Some (File ''new''))"
  by (intro conjI; code_simp)

end
