(* ===== verification/Spec2Isabelle.thy ===== *)
theory Spec2Isabelle
  imports Deploy_Properties Deploy_Run_Properties Deploy_Engine_Properties Auth_Properties Deploy_Variable_Properties
    Jobs_Properties Archive_Properties Backup_Properties Files_Properties
begin

text \<open>
  A verification development for the Go backend of Just-Dashboard (src/backend/internal).

  \<^bold>\<open>The program.\<close> The backend administers a server. Six parts of it carry logic of their own and
  are modelled: the deployment orchestration, which queues, runs and supervises deployments over
  SQLite tables (package deploy: contracts.go, orchestration_*.go, activation_store.go, engine.go);
  the variables of deployments, their editing, references and the snapshots runs take of them
  (configuration_store.go, planning_store.go); authentication, sessions, tokens, the second factor and
  the guards in front of the handlers (packages auth, httpx, api/handlers_auth.go); background jobs
  with their streamed output (jobs/jobs.go); backups of directories, their retention and their restore
  (package backups); and the file manager with the extraction of archives (files/files.go,
  files/archive.go, safepath/safepath.go). They meet where the code meets: a run pins the variable revisions that the editor wrote, the handlers of accounts run
  behind the guards, the file manager and the restore of a backup extract through the rules of safepath.

  \<^bold>\<open>How the model corresponds to the code.\<close> A table is the list of its rows in the order they were
  inserted (records \<open>run_row\<close>, \<open>step_row\<close>, \<open>chunk_row\<close>, \<open>lease_row\<close>, \<open>user_row\<close> and others; records \<open>db\<close> and
  \<open>auth_db\<close> for all tables), a statement is a filter or an update of that list (\<open>sql_update\<close>, \<open>sql_delete\<close>,
  \<open>sql_first_by\<close>), a transaction is a function from the tables to an error or to a result, new tables
  and the events to publish (type \<open>tx\<close>; \<open>commit\<close> discards the tables of a failed one), a method of a
  store is a function of the store, and the clock reading and the random bytes a method uses are
  arguments. Unique indexes and foreign keys of the schema that an operation can violate are errors
  of the statement. Times are nanoseconds, columns hold seconds, as \<open>time.Time\<close> and \<open>Unix()\<close> have them.
  Texts are lists of bytes. Errors are values: \<open>Inl\<close> the error, \<open>Inr\<close> the result. Jobs are a step
  relation whose steps are the sections under a lock, single sends and single closes of channels;
  files are nodes of a tree with directories, regular files and links, on which the system calls of
  \<open>Host_Files\<close> and \<open>Host_Ops\<close> act.

  \<^bold>\<open>The theories.\<close>
  \<^item> \<open>Go_Prelude\<close>, \<open>Go_Json\<close>, \<open>Go_Codec\<close>: results, times, table operations, byte strings; the part of
    encoding/json the store uses, whatever is marshalled is valid; hexadecimal, base64 and decimal text.
  \<^item> \<open>Deploy_Contracts\<close> (contracts.go): the vocabularies and the run and step machines. \<open>Deploy_Store\<close>,
    \<open>Deploy_Broker\<close>, \<open>Deploy_Queue\<close>, \<open>Deploy_Enqueue\<close>, \<open>Deploy_Steps\<close>, \<open>Deploy_Events\<close>, \<open>Deploy_Activation\<close>: the
    orchestration store, one theory per file or group of its functions. \<open>Deploy_Leases\<close>: the lease
    invariant and the locale \<open>fenced_operation\<close>, an operation that needs the lease, interpreted for
    every operation with a claim token. \<open>Deploy_Machine\<close>: the invariant of all tables, the locale
    \<open>store_operation\<close>, interpreted for every operation, and the step relation of a store used by any
    callers in any order. \<open>Deploy_Engine\<close>, \<open>Deploy_Worker\<close> (engine.go): the worker as a sequence of calls,
    with what others do between any two of them as a parameter. \<open>Deploy_Samples\<close>, \<open>Deploy_Properties\<close>,
    \<open>Deploy_Run_Properties\<close>, \<open>Deploy_Engine_Properties\<close>: the properties on concrete stores.
  \<^item> \<open>Deploy_Variables\<close> (dotenv parser, references), \<open>Deploy_Graph\<close> (the search along references and a direct
    chase it is compared with), \<open>Deploy_Config\<close> (the editor of variables), \<open>Deploy_Scoped\<close> (what runs and
    workloads open), \<open>Deploy_Config_Machine\<close>, \<open>Deploy_Pins\<close>, \<open>Deploy_Effects\<close>: invariants and effects;
    \<open>Deploy_Variable_Properties\<close>.
  \<^item> \<open>Auth_Crypto\<close>, \<open>Auth_Users\<close>, \<open>Auth_Sessions\<close>, \<open>Auth_Login\<close> (package auth), \<open>Auth_Http\<close> (package httpx),
    \<open>Auth_Handlers\<close> (api/handlers_auth.go and its routes), \<open>Auth_Machine\<close>, \<open>Auth_Server\<close>: the contracts of
    the operations and what requests do to the tables; \<open>Auth_Properties\<close>.
  \<^item> \<open>Jobs_Model\<close>, \<open>Jobs_Machine\<close>, \<open>Jobs_Traffic\<close> (jobs/jobs.go): data, interleavings and their invariants,
    where the lines of a job are on their way to a reader; \<open>Jobs_Properties\<close>.
  \<^item> \<open>Host_Files\<close>, \<open>Host_Ops\<close>: paths and the file system. \<open>Archive_Extract\<close> (safepath.go, archive.go, restore.go);
    \<open>Archive_Confined\<close>: the locale \<open>confined_op\<close>, an operation that changes only the path it is given,
    interpreted for every operation of an extraction; \<open>Archive_Budget\<close>: the locale \<open>frugal_op\<close>;
    \<open>Archive_Properties\<close>.
  \<^item> \<open>Backup_Store\<close> (backups/store.go, model.go), \<open>Backup_Names\<close>, \<open>Backup_Archive\<close>, \<open>Backup_Runner\<close>
    (runner.go, restore.go): the tables, the patterns of path/filepath, the walk that writes an archive,
    and \<open>Execute\<close>, retention, \<open>Restore\<close> and \<open>ListArchive\<close>. \<open>Backup_Walk\<close>: what the walk of a tree archives;
    \<open>Backup_Restore\<close>: what extraction makes of it in an empty directory; \<open>Backup_Runs\<close>: what a run and
    its retention do to disk and tables; \<open>Backup_Properties\<close>.
  \<^item> \<open>Files_Service\<close> (files.go), \<open>Files_Confined\<close>: resolved paths are physical and inside the roots;
    \<open>Files_Machine\<close>: the locale \<open>file_operation\<close>, interpreted for every operation, and sessions of
    operations; \<open>Files_Properties\<close>.

  \<^bold>\<open>What is shown.\<close> Orchestration: the invariant of the store holds in every reachable state (C1); from it
  follow one claimed run per environment (C2), single writers (C5) and the fencing of a worker that
  lost its lease (C6). Runs and attempts only move forward (C3, C9), claims take the first run in order
  (C4), cancellation is refused from activation on (C7), requests are idempotent (C8), log lines fit
  (C10), events are delivered without a gap (C11), activation is a compare-and-swap (C12), and a worker
  that returns without an error has ended its run under any interference (C13, C14). Accounts: an
  administrator remains (C15), tokens, elevation, recovery codes and lockout keep their promises (C16
  to C19), and account administration is reached by administrators only (C20). Variables: a run reads
  what was enqueued (C21), edits keep the invariants, are read back and refused when stale (C22 to
  C24), the search along references does what following them does (C25), and the dotenv parser returns
  valid variables and inverts the printer (C26, C27). Jobs: running jobs are kept, statuses are final,
  logs have no gap and subscribers miss nothing (C28 to C31). Archives: extraction stays inside its
  destination and within its budget (C32 to C34). Backups: what a run archives is what its restore
  gives back (C35), and retention keeps the newest runs and those being read (C36). Files: the file
  manager changes and reads nothing outside its roots, saves atomically and copies (C37 to C40).
  Beside them stand theorems that show where the code does not do what it means to, such as
  \<open>leaving_reader_panics\<close>, \<open>root_entry_escapes\<close>, \<open>missing_source_evicts_the_backup\<close>,
  \<open>sources_with_one_name_overwrite\<close> and \<open>links_lead_out_of_the_roots\<close>.

  \<^bold>\<open>Bounds.\<close> The claim loop makes eight attempts and the port loop sixteen, as in the code; the cuts of
  \<open>truncateUTF8\<close> and \<open>logEventData\<close> end because each shortens the text. The JSON parser is given three
  units of fuel per byte and three more, which every marshalled document is shown to need at most. A
  path is walked through at most 40 links by the kernel and 255 by \<open>EvalSymlinks\<close>. The copy of a tree
  takes fuel for the depth of its calls, because it need not end; the walk of a backup takes one more
  than there are nodes, which no chain of directories is longer than.

  \<^bold>\<open>Parameters.\<close> sha256, the length and substr functions of SQLite on text and the JSON it prints
  (\<open>externals\<close>); AES-GCM, Argon2, the TOTP library and the token bucket of the rate limiter, with the laws
  named where they are used; the owners of external references; the adapters of the engine; the
  processes of jobs; the readers of archives and, for backups, the bytes of an archive (\<open>codec\<close>, with
  the law that what was written is read back); the object storage behind the S3 client; the port the
  operating system hands out, the clock and the random bytes. Several clock readings within one method are one reading.

  \<^bold>\<open>Assumptions.\<close> The clock does not read the epoch and random tokens are not empty; ids of jobs are
  fresh; the name of a temporary file differs from the file that is saved; the file system is one
  device used by one process, without hard links, and the roots of the file manager are directories
  themselves. The destination of a restore is taken as a path without links, and an execution of a
  backup as one step, except for what its arguments say of the disk and the context beside it.

  \<^bold>\<open>Not modelled.\<close> Failures of the database itself (a statement either succeeds or violates a constraint);
  the mutexes, which make each method of a store one step; the scheduler loop, wake-ups and logging of
  the engine; planning, preflight, sources, builds and the adapters of deployments;
  \<open>EnvironmentConfiguration\<close> and its drafts; the resolution of client addresses, the network allowlist, the
  audit middleware and the decoding of requests; file modes, owners and times, listings, search,
  previews and compression; the schedule of backups, the test of a target and the text of
  their logs; and the packages that mostly drive other programs or services (Docker, git, GitHub,
  database servers, reverse proxies, firewalls, package managers, terminals, metrics), where the logic
  of the source is in the text it sends and the answers it reads.
\<close>

end
